(* ===== verification/Prelude.thy ===== *)
theory Prelude
  imports Main "HOL-Library.List_Lexorder" "HOL-Library.Char_ord" "HOL-Library.Product_Lexorder"
    "HOL-Library.Option_ord" "HOL-Library.Word"
begin

text \<open>
  The containers and small library facts that every component uses.

  A Rust \<open>BTreeMap\<close> is an association list whose keys increase strictly (\<open>bt_wf\<close>), so that
  iteration is the list itself; a \<open>HashMap\<close> is modelled by the same type, its iteration order being
  one of the orders the source allows. A \<open>BTreeSet\<close> or \<open>HashSet\<close> is a finite set, a
  \<open>BTreeSet\<close> being iterated by \<open>sorted_list_of_set\<close>. The map interface is the locale
  \<open>ordered_map\<close>; it is interpreted on the association lists, as \<open>bt\<close>.
\<close>

named_theorems bt_simps "lookup after an update of an ordered map"
named_theorems bt_intros "operations that keep an ordered map well formed"

type_synonym ('k, 'v) btree = "('k \<times> 'v) list"

section \<open>The interface of an ordered map\<close>

locale ordered_map =
  fixes get :: "'m \<Rightarrow> 'k \<Rightarrow> 'v option"
    and ins :: "'k \<Rightarrow> 'v \<Rightarrow> 'm \<Rightarrow> 'm"
    and del :: "'k \<Rightarrow> 'm \<Rightarrow> 'm"
    and wf :: "'m \<Rightarrow> bool"
  assumes get_ins: "get (ins k v m) j = (if j = k then Some v else get m j)"
    and get_del: "get (del k m) j = (if j = k then None else get m j)"
    and wf_ins: "wf m \<Longrightarrow> wf (ins k v m)"
    and wf_del: "wf m \<Longrightarrow> wf (del k m)"
begin

lemma get_ins_same: "get (ins k v m) k = Some v"
  by (simp add: get_ins)

lemma get_del_same: "get (del k m) k = None"
  by (simp add: get_del)

lemma get_fold_ins_notin:
  "k \<notin> fst ` set xs \<Longrightarrow> get (fold (\<lambda>(j, v). ins j v) xs m) k = get m k"
  by (induction xs arbitrary: m) (auto simp: get_ins)

lemma get_fold_ins:
  "get (fold (\<lambda>(j, v). ins j v) xs m) k =
     (case map_of (rev xs) k of None \<Rightarrow> get m k | Some v \<Rightarrow> Some v)"
proof (induction xs arbitrary: m)
  case Nil
  then show ?case by simp
next
  case (Cons x xs)
  then show ?case
    by (cases x) (auto simp: get_ins map_add_def split: option.splits)
qed

lemma wf_fold_ins: "wf m \<Longrightarrow> wf (fold (\<lambda>(j, v). ins j v) xs m)"
  by (induction xs arbitrary: m) (auto simp: wf_ins)

lemma wf_fold_del: "wf m \<Longrightarrow> wf (fold del ks m)"
  by (induction ks arbitrary: m) (auto simp: wf_del)

lemma get_fold_del: "get (fold del ks m) k = (if k \<in> set ks then None else get m k)"
  by (induction ks arbitrary: m) (auto simp: get_del)

end

section \<open>Association lists with increasing keys\<close>

definition bt_wf :: "('k::linorder, 'v) btree \<Rightarrow> bool" where
  "bt_wf m = sorted_wrt (<) (map fst m)"

abbreviation bt_get :: "('k, 'v) btree \<Rightarrow> 'k \<Rightarrow> 'v option" where
  "bt_get \<equiv> map_of"

definition bt_insert :: "'k::linorder \<Rightarrow> 'v \<Rightarrow> ('k, 'v) btree \<Rightarrow> ('k, 'v) btree" where
  "bt_insert k v m = filter (\<lambda>e. fst e < k) m @ (k, v) # filter (\<lambda>e. k < fst e) m"

definition bt_remove :: "'k \<Rightarrow> ('k, 'v) btree \<Rightarrow> ('k, 'v) btree" where
  "bt_remove k m = filter (\<lambda>e. fst e \<noteq> k) m"

definition bt_retain :: "('k \<Rightarrow> 'v \<Rightarrow> bool) \<Rightarrow> ('k, 'v) btree \<Rightarrow> ('k, 'v) btree" where
  "bt_retain P m = filter (\<lambda>e. P (fst e) (snd e)) m"

definition bt_map :: "('k \<Rightarrow> 'v \<Rightarrow> 'w) \<Rightarrow> ('k, 'v) btree \<Rightarrow> ('k, 'w) btree" where
  "bt_map f m = map (\<lambda>e. (fst e, f (fst e) (snd e))) m"

definition bt_modify :: "'k \<Rightarrow> ('v \<Rightarrow> 'v) \<Rightarrow> ('k, 'v) btree \<Rightarrow> ('k, 'v) btree" where
  "bt_modify k f m = map (\<lambda>e. if fst e = k then (fst e, f (snd e)) else e) m"

definition bt_keys :: "('k, 'v) btree \<Rightarrow> 'k list" where
  "bt_keys m = map fst m"

definition bt_values :: "('k, 'v) btree \<Rightarrow> 'v list" where
  "bt_values m = map snd m"

definition bt_has :: "('k, 'v) btree \<Rightarrow> 'k \<Rightarrow> bool" where
  "bt_has m k = (k \<in> fst ` set m)"

definition bt_of_list :: "('k::linorder \<times> 'v) list \<Rightarrow> ('k, 'v) btree" where
  "bt_of_list xs = fold (\<lambda>(k, v). bt_insert k v) xs []"

definition bt_extend :: "('k::linorder, 'v) btree \<Rightarrow> ('k \<times> 'v) list \<Rightarrow> ('k, 'v) btree" where
  "bt_extend m xs = fold (\<lambda>(k, v). bt_insert k v) xs m"

lemma map_of_filter_fst:
  "map_of (filter (\<lambda>e. P (fst e)) m) k = (if P k then map_of m k else None)"
  by (induction m) auto

lemma map_of_filter_less [simp]:
  "map_of (filter (\<lambda>e. fst e < (k::'k::linorder)) m) j = (if j < k then map_of m j else None)"
  by (rule map_of_filter_fst [of "\<lambda>x. x < k"])

lemma map_of_filter_greater [simp]:
  "map_of (filter (\<lambda>e. (k::'k::linorder) < fst e) m) j = (if k < j then map_of m j else None)"
  by (rule map_of_filter_fst [of "\<lambda>x. k < x"])

lemma bt_get_insert [simp, bt_simps]:
  "map_of (bt_insert k v m) j = (if j = k then Some v else map_of m j)"
  by (cases j k rule: linorder_cases)
    (auto simp: bt_insert_def map_add_def split: option.splits)

lemma bt_get_remove [simp, bt_simps]:
  "map_of (bt_remove k m) j = (if j = k then None else map_of m j)"
  unfolding bt_remove_def by (rule trans [OF map_of_filter_fst [of "\<lambda>x. x \<noteq> k"]]) simp

lemma sorted_wrt_map_filter:
  "sorted_wrt R (map f xs) \<Longrightarrow> sorted_wrt R (map f (filter P xs))"
  by (induction xs) auto

lemma bt_wf_insert [simp, bt_intros]: "bt_wf m \<Longrightarrow> bt_wf (bt_insert k v m)"
  by (auto simp: bt_wf_def bt_insert_def sorted_wrt_append intro!: sorted_wrt_map_filter)

lemma bt_wf_remove [simp, bt_intros]: "bt_wf m \<Longrightarrow> bt_wf (bt_remove k m)"
  by (auto simp: bt_wf_def bt_remove_def intro!: sorted_wrt_map_filter)

interpretation bt: ordered_map map_of bt_insert bt_remove bt_wf
  by unfold_locales auto

lemma bt_wf_Nil [simp, bt_intros]: "bt_wf []"
  by (simp add: bt_wf_def)

lemma bt_wf_retain [simp, bt_intros]: "bt_wf m \<Longrightarrow> bt_wf (bt_retain P m)"
  by (auto simp: bt_wf_def bt_retain_def intro!: sorted_wrt_map_filter)

lemma bt_map_fst [simp]: "map fst (bt_map f m) = map fst m"
  by (simp add: bt_map_def)

lemma bt_wf_map [simp, bt_intros]: "bt_wf (bt_map f m) = bt_wf m"
  by (simp add: bt_wf_def)

lemma bt_modify_fst [simp]: "map fst (bt_modify k f m) = map fst m"
  by (auto simp: bt_modify_def)

lemma bt_wf_modify [simp, bt_intros]: "bt_wf (bt_modify k f m) = bt_wf m"
  by (simp add: bt_wf_def)

lemma bt_wf_of_list [simp, bt_intros]: "bt_wf (bt_of_list xs)"
  unfolding bt_of_list_def by (rule bt.wf_fold_ins) simp

lemma bt_wf_extend [simp, bt_intros]: "bt_wf m \<Longrightarrow> bt_wf (bt_extend m xs)"
  unfolding bt_extend_def by (rule bt.wf_fold_ins)

lemma bt_wf_distinct: "bt_wf m \<Longrightarrow> distinct (map fst m)"
  by (simp add: bt_wf_def strict_sorted_iff)

lemma bt_get_modify [simp, bt_simps]:
  "map_of (bt_modify k f m) j = (if j = k then map_option f (map_of m j) else map_of m j)"
  by (induction m) (auto simp: bt_modify_def)

lemma bt_get_map [simp, bt_simps]: "map_of (bt_map f m) j = map_option (f j) (map_of m j)"
  by (induction m) (auto simp: bt_map_def)

lemma bt_get_retain [bt_simps]:
  "bt_wf m \<Longrightarrow> map_of (bt_retain P m) k =
     (case map_of m k of None \<Rightarrow> None | Some v \<Rightarrow> if P k v then Some v else None)"
proof (induction m)
  case Nil
  then show ?case by (simp add: bt_retain_def)
next
  case (Cons e m)
  then have "bt_wf m" and "\<forall>x\<in>set m. fst e < fst x"
    by (auto simp: bt_wf_def)
  then show ?case
    using Cons.IH by (auto simp: bt_retain_def map_of_eq_None_iff split: option.splits)
qed

lemma bt_has_iff: "bt_has m k = (map_of m k \<noteq> None)"
  by (simp add: bt_has_def map_of_eq_None_iff)

lemma bt_in_set: "bt_wf m \<Longrightarrow> (k, v) \<in> set m \<longleftrightarrow> map_of m k = Some v"
  by (auto dest: map_of_SomeD simp: bt_wf_distinct)

lemma bt_in_values: "bt_wf m \<Longrightarrow> v \<in> set (bt_values m) \<longleftrightarrow> (\<exists>k. map_of m k = Some v)"
  by (force simp: bt_values_def bt_in_set [symmetric] image_iff)

lemma bt_values_mono: "map_of m k = Some v \<Longrightarrow> v \<in> set (bt_values m)"
  by (force simp: bt_values_def dest: map_of_SomeD)

lemma set_bt_insert: "set (bt_insert k v m) = insert (k, v) {e \<in> set m. fst e \<noteq> k}"
  by (auto simp: bt_insert_def)

lemma bt_insert_fst_set: "fst ` set (bt_insert k v m) = insert k (fst ` set m)"
  by (auto simp: set_bt_insert)

lemma set_bt_remove: "set (bt_remove k m) = {e \<in> set m. fst e \<noteq> k}"
  by (auto simp: bt_remove_def)

lemma set_bt_retain: "set (bt_retain P m) = {e \<in> set m. P (fst e) (snd e)}"
  by (auto simp: bt_retain_def)

lemma bt_fst_fold_insert:
  "fst ` set (fold (\<lambda>(k, v). bt_insert k v) xs m) = fst ` set xs \<union> fst ` set m"
proof (induction xs arbitrary: m)
  case (Cons x xs)
  show ?case
    by (cases x) (simp only: fold.simps list.set o_apply case_prod_conv Cons bt_insert_fst_set, auto)
qed simp

lemma bt_fst_of_list: "fst ` set (bt_of_list xs) = fst ` set xs"
  by (simp add: bt_of_list_def bt_fst_fold_insert)

lemma bt_has_of_list: "bt_has (bt_of_list xs) k \<longleftrightarrow> k \<in> fst ` set xs"
  by (simp only: bt_has_def bt_fst_of_list)

lemma assoc_eqI:
  "map fst m = map fst n \<Longrightarrow> distinct (map fst m) \<Longrightarrow> (\<And>k. map_of m k = map_of n k) \<Longrightarrow> m = n"
proof (induction m arbitrary: n)
  case Nil
  then show ?case by simp
next
  case (Cons e m)
  then obtain f n' where n: "n = f # n'" and ef: "fst e = fst f" and fs: "map fst m = map fst n'"
    by (cases n) auto
  have "snd e = snd f"
    using Cons.prems(3) [of "fst e"] n ef by simp
  moreover have "map_of m k = map_of n' k" for k
  proof (cases "k = fst e")
    case True
    with Cons.prems(2) have m: "k \<notin> set (map fst m)" by simp
    with fs have "k \<notin> set (map fst n')" by metis
    with m show ?thesis by (simp add: map_of_eq_None_iff [THEN iffD2])
  next
    case False
    with Cons.prems(3) [of k] n ef show ?thesis by simp
  qed
  ultimately show ?case
    using Cons.IH [of n'] Cons.prems(2) fs n ef by (simp add: prod_eq_iff)
qed

lemma bt_wf_eqI:
  assumes "bt_wf m" and "bt_wf n" and eq: "\<And>k. map_of m k = map_of n k"
  shows "m = n"
proof -
  have "k \<in> fst ` set m \<longleftrightarrow> k \<in> fst ` set n" for k
    using eq [of k] by (metis map_of_eq_None_iff)
  then have "set (map fst m) = set (map fst n)" by auto
  then have fst: "map fst m = map fst n"
    using assms(1,2) unfolding bt_wf_def by (intro strict_sorted_equal)
  from fst bt_wf_distinct [OF assms(1)] eq show ?thesis by (rule assoc_eqI)
qed

lemma bt_insert_same:
  assumes "bt_wf m" and "map_of m k = Some v"
  shows "bt_insert k v m = m"
  by (rule bt_wf_eqI) (use assms in auto)

lemma bt_insert_insert:
  assumes "bt_wf m"
  shows "bt_insert k v (bt_insert k w m) = bt_insert k v m"
  by (rule bt_wf_eqI) (use assms in auto)

lemmas bt_laws = bt_get_insert bt_get_remove bt_get_modify bt_get_map

section \<open>Iteration of ordered sets\<close>

definition sorted_dedup :: "'a::linorder list \<Rightarrow> 'a list" where
  "sorted_dedup xs = remdups_adj (sort xs)"

lemma set_sorted_dedup [simp]: "set (sorted_dedup xs) = set xs"
  by (simp add: sorted_dedup_def)

lemma sorted_remdups_adj_strict:
  "sorted xs \<Longrightarrow> sorted_wrt (<) (remdups_adj xs)"
  by (induction xs rule: remdups_adj.induct) (auto simp: le_less)

lemma sorted_dedup_strict: "sorted_wrt (<) (sorted_dedup xs)"
  by (simp add: sorted_dedup_def sorted_remdups_adj_strict)

lemma sorted_dedup_eq: "sorted_dedup xs = sorted_list_of_set (set xs)"
  by (rule strict_sorted_equal) (simp_all add: sorted_dedup_strict)

lemma sorted_dedup_id: "sorted_wrt (<) xs \<Longrightarrow> sorted_dedup xs = xs"
  by (rule strict_sorted_equal) (auto simp: sorted_dedup_strict)

section \<open>First hits and least elements\<close>

text \<open>\<open>Iterator::find_map\<close> and \<open>min_by_key\<close> (the first of several least elements).\<close>

fun find_map :: "('a \<Rightarrow> 'b option) \<Rightarrow> 'a list \<Rightarrow> 'b option" where
  "find_map f [] = None"
| "find_map f (x # xs) = (case f x of Some y \<Rightarrow> Some y | None \<Rightarrow> find_map f xs)"

fun min_by_key :: "('a \<Rightarrow> 'k::linorder) \<Rightarrow> 'a list \<Rightarrow> 'a option" where
  "min_by_key f [] = None"
| "min_by_key f (x # xs) =
     (case min_by_key f xs of None \<Rightarrow> Some x | Some y \<Rightarrow> if f y < f x then Some y else Some x)"

definition filter_map :: "('a \<Rightarrow> 'b option) \<Rightarrow> 'a list \<Rightarrow> 'b list" where
  "filter_map f xs = concat (map (\<lambda>x. case f x of None \<Rightarrow> [] | Some y \<Rightarrow> [y]) xs)"

lemma find_map_None: "find_map f xs = None \<longleftrightarrow> (\<forall>x\<in>set xs. f x = None)"
  by (induction xs) (auto split: option.splits)

lemma find_map_SomeD: "find_map f xs = Some y \<Longrightarrow> \<exists>x\<in>set xs. f x = Some y"
  by (induction xs) (auto split: option.splits)

lemma find_map_map: "find_map f (map g xs) = find_map (f \<circ> g) xs"
  by (induction xs) (auto split: option.splits)

lemma find_map_filter:
  "find_map f (filter P xs) = find_map (\<lambda>x. if P x then f x else None) xs"
  by (induction xs) (auto split: option.splits)

lemma find_map_cong:
  "(\<And>x. x \<in> set xs \<Longrightarrow> f x = g x) \<Longrightarrow> find_map f xs = find_map g xs"
  by (induction xs) (auto split: option.splits)

lemma find_map_concat:
  "find_map f (concat xss) = find_map (find_map f) xss"
proof (induction xss)
  case Nil
  then show ?case by simp
next
  case (Cons xs xss)
  have "find_map f (xs @ ys) = (case find_map f xs of Some y \<Rightarrow> Some y | None \<Rightarrow> find_map f ys)" for ys
    by (induction xs) (auto split: option.splits)
  then show ?case using Cons by (simp split: option.splits)
qed

lemma min_by_key_None [simp]: "min_by_key f xs = None \<longleftrightarrow> xs = []"
  by (cases xs) (auto split: option.splits)

lemma min_by_key_SomeD:
  "min_by_key f xs = Some y \<Longrightarrow> y \<in> set xs \<and> (\<forall>x\<in>set xs. f y \<le> f x)"
proof (induction xs arbitrary: y)
  case Nil
  then show ?case by simp
next
  case (Cons x xs)
  show ?case
  proof (cases "min_by_key f xs")
    case None
    with Cons.prems show ?thesis by simp
  next
    case (Some z)
    with Cons.IH have "z \<in> set xs" and "\<forall>u\<in>set xs. f z \<le> f u" by auto
    with Cons.prems Some show ?thesis
      by (auto split: if_splits simp: not_less intro: order_trans less_imp_le)
  qed
qed

lemma set_filter_map: "set (filter_map f xs) = {y. \<exists>x\<in>set xs. f x = Some y}"
  by (force simp: filter_map_def split: option.splits)

lemma filter_map_simps [simp]:
  "filter_map f [] = []"
  "filter_map f (x # xs) = (case f x of None \<Rightarrow> [] | Some y \<Rightarrow> [y]) @ filter_map f xs"
  "filter_map f (xs @ ys) = filter_map f xs @ filter_map f ys"
  by (auto simp: filter_map_def)

end
