(* ===== verification/Rust_Strings.thy ===== *)
theory Rust_Strings
  imports Prelude
begin

text \<open>
  The operations of Rust's \<open>str\<close> and \<open>char\<close> that the source uses, over byte strings
  (\<open>char list\<close>). Comparison of strings is the byte order, as for Rust's \<open>String\<close>. White space and
  letter case are the ASCII ones.
\<close>

section \<open>Prefixes, suffixes, separators\<close>

fun strip_prefix :: "string \<Rightarrow> string \<Rightarrow> string option" where
  "strip_prefix s [] = Some s"
| "strip_prefix [] (p # ps) = None"
| "strip_prefix (c # s) (p # ps) = (if c = p then strip_prefix s ps else None)"

definition starts_with :: "string \<Rightarrow> string \<Rightarrow> bool" where
  "starts_with s p = (strip_prefix s p \<noteq> None)"

definition ends_with :: "string \<Rightarrow> string \<Rightarrow> bool" where
  "ends_with s p = (strip_prefix (rev s) (rev p) \<noteq> None)"

fun split_once :: "string \<Rightarrow> char \<Rightarrow> (string \<times> string) option" where
  "split_once [] c = None"
| "split_once (x # s) c =
     (if x = c then Some ([], s) else map_option (\<lambda>(a, b). (x # a, b)) (split_once s c))"

fun split_on :: "string \<Rightarrow> (char \<Rightarrow> bool) \<Rightarrow> string list" where
  "split_on [] P = [[]]"
| "split_on (x # s) P =
     (case split_on s P of
        [] \<Rightarrow> [[x]]
      | w # ws \<Rightarrow> if P x then [] # w # ws else (x # w) # ws)"

abbreviation split_char :: "string \<Rightarrow> char \<Rightarrow> string list" where
  "split_char s c \<equiv> split_on s (\<lambda>x. x = c)"

fun join :: "string \<Rightarrow> string list \<Rightarrow> string" where
  "join sep [] = []"
| "join sep [x] = x"
| "join sep (x # xs) = x @ sep @ join sep xs"

fun find_str :: "string \<Rightarrow> string \<Rightarrow> nat option" where
  "find_str [] p = (if p = [] then Some 0 else None)"
| "find_str (c # s) p =
     (if strip_prefix (c # s) p \<noteq> None then Some 0 else map_option Suc (find_str s p))"

definition contains_str :: "string \<Rightarrow> string \<Rightarrow> bool" where
  "contains_str s p = (find_str s p \<noteq> None)"

section \<open>Trimming\<close>

definition is_space :: "char \<Rightarrow> bool" where
  "is_space c = (c \<in> {CHR '' '', CHR 0x09, CHR 0x0A, CHR 0x0B, CHR 0x0C, CHR 0x0D})"

definition trim_start_matches :: "string \<Rightarrow> (char \<Rightarrow> bool) \<Rightarrow> string" where
  "trim_start_matches s P = dropWhile P s"

definition trim_matches :: "string \<Rightarrow> (char \<Rightarrow> bool) \<Rightarrow> string" where
  "trim_matches s P = rev (dropWhile P (rev (dropWhile P s)))"

definition trim :: "string \<Rightarrow> string" where
  "trim s = trim_matches s is_space"

lemma strip_prefix_Some: "strip_prefix s p = Some r \<longleftrightarrow> s = p @ r"
  by (induction s p rule: strip_prefix.induct) auto

lemma strip_prefix_length: "strip_prefix s p = Some r \<Longrightarrow> length s = length p + length r"
  by (simp add: strip_prefix_Some)

lemma strip_prefix_append [simp]: "strip_prefix (p @ r) p = Some r"
  by (simp add: strip_prefix_Some)

text \<open>\<open>trim_end_matches\<close> with a string removes it as often as it ends the text.\<close>

function trim_end_str :: "string \<Rightarrow> string \<Rightarrow> string" where
  "trim_end_str s p =
     (case strip_prefix (rev s) (rev p) of
        None \<Rightarrow> s
      | Some r \<Rightarrow> if p = [] then s else trim_end_str (rev r) p)"
  by pat_completeness auto
termination
proof (relation "measure (\<lambda>(s, p). length s)", goal_cases)
  case 1
  then show ?case by simp
next
  case (2 s p r)
  then have "rev s = rev p @ r" by (simp add: strip_prefix_Some)
  then have "length s = length p + length r" by (metis length_append length_rev)
  with 2 show ?case by simp
qed

declare trim_end_str.simps [simp del]

section \<open>Case, digits and numbers\<close>

definition code :: "char \<Rightarrow> nat" where
  "code c = of_char c"

definition is_lower :: "char \<Rightarrow> bool" where
  "is_lower c = (97 \<le> code c \<and> code c \<le> 122)"

definition is_upper :: "char \<Rightarrow> bool" where
  "is_upper c = (65 \<le> code c \<and> code c \<le> 90)"

definition is_digit :: "char \<Rightarrow> bool" where
  "is_digit c = (48 \<le> code c \<and> code c \<le> 57)"

definition is_hexdigit :: "char \<Rightarrow> bool" where
  "is_hexdigit c = (is_digit c \<or> 97 \<le> code c \<and> code c \<le> 102 \<or> 65 \<le> code c \<and> code c \<le> 70)"

definition is_alnum :: "char \<Rightarrow> bool" where
  "is_alnum c = (is_lower c \<or> is_upper c \<or> is_digit c)"

definition lower_char :: "char \<Rightarrow> char" where
  "lower_char c = (if is_upper c then char_of (code c + 32) else c)"

definition to_lowercase :: "string \<Rightarrow> string" where
  "to_lowercase = map lower_char"

definition digit_value :: "char \<Rightarrow> nat" where
  "digit_value c = code c - 48"

definition digits_value :: "string \<Rightarrow> nat" where
  "digits_value s = fold (\<lambda>c n. 10 * n + digit_value c) s 0"

text \<open>\<open>str::parse\<close> for an unsigned type: an optional plus sign, at least one digit, no overflow.\<close>

definition parse_bounded :: "nat \<Rightarrow> string \<Rightarrow> nat option" where
  "parse_bounded bound s =
     (let ds = (case s of c # r \<Rightarrow> if c = CHR ''+'' then r else s | [] \<Rightarrow> s)
      in if ds \<noteq> [] \<and> list_all is_digit ds \<and> digits_value ds < bound
         then Some (digits_value ds) else None)"

definition parse_u16 :: "string \<Rightarrow> 16 word option" where
  "parse_u16 s = map_option of_nat (parse_bounded (2 ^ 16) s)"

definition parse_u32 :: "string \<Rightarrow> 32 word option" where
  "parse_u32 s = map_option of_nat (parse_bounded (2 ^ 32) s)"

fun show_nat :: "nat \<Rightarrow> string" where
  "show_nat n =
     (if n < 10 then [char_of (48 + n)] else show_nat (n div 10) @ [char_of (48 + n mod 10)])"

declare show_nat.simps [simp del]

section \<open>Lines\<close>

definition strip_cr :: "string \<Rightarrow> string" where
  "strip_cr l = (if l \<noteq> [] \<and> last l = CHR 0x0D then butlast l else l)"

definition lines :: "string \<Rightarrow> string list" where
  "lines s =
     (let ps = split_char s (CHR 0x0A)
      in map strip_cr (if last ps = [] then butlast ps else ps))"

section \<open>Facts\<close>

lemma starts_with_iff: "starts_with s p \<longleftrightarrow> (\<exists>r. s = p @ r)"
  by (auto simp: starts_with_def strip_prefix_Some)

lemma ends_with_iff: "ends_with s p \<longleftrightarrow> (\<exists>r. s = r @ p)"
proof -
  have "(\<exists>r. rev s = rev p @ r) \<longleftrightarrow> (\<exists>r. s = r @ p)"
    by (metis rev_append rev_rev_ident)
  then show ?thesis by (simp add: ends_with_def strip_prefix_Some not_None_eq)
qed

lemma split_once_Some:
  "split_once s c = Some (a, b) \<longleftrightarrow> s = a @ c # b \<and> c \<notin> set a"
proof (induction s arbitrary: a)
  case Nil
  then show ?case by simp
next
  case (Cons x s)
  show ?case
    by (cases "x = c"; cases a) (auto simp: Cons.IH)
qed

lemma split_once_None: "split_once s c = None \<longleftrightarrow> c \<notin> set s"
  by (induction s) auto

lemma split_on_ne [simp]: "split_on s P \<noteq> []"
  by (cases s) (auto split: list.splits)

lemma split_on_parts: "w \<in> set (split_on s P) \<Longrightarrow> x \<in> set w \<Longrightarrow> \<not> P x"
proof (induction s arbitrary: w)
  case Nil
  then show ?case by simp
next
  case (Cons y s)
  obtain v vs where "split_on s P = v # vs" by (meson neq_Nil_conv split_on_ne)
  with Cons.prems Cons.IH [of v] Cons.IH [of w] show ?case
    by (auto split: if_splits)
qed

lemma split_on_none: "\<forall>x\<in>set s. \<not> P x \<Longrightarrow> split_on s P = [s]"
  by (induction s) auto

lemma split_on_append:
  "P c \<Longrightarrow> \<forall>x\<in>set a. \<not> P x \<Longrightarrow> split_on (a @ c # b) P = a # split_on b P"
  by (induction a) (auto split: list.splits)

lemma trim_end_str_id: "\<not> ends_with s p \<Longrightarrow> trim_end_str s p = s"
  by (subst trim_end_str.simps) (auto simp: ends_with_def split: option.splits)

lemma trim_end_str_append: "p \<noteq> [] \<Longrightarrow> trim_end_str (s @ p) p = trim_end_str s p"
  by (subst trim_end_str.simps) simp

lemma code_char_of [simp]: "n < 256 \<Longrightarrow> code (char_of n) = n"
  by (simp add: code_def)

lemma digit_value_char_of [simp]: "n < 10 \<Longrightarrow> digit_value (char_of (48 + n :: nat)) = n"
  by (simp add: digit_value_def)

lemma is_digit_char_of [simp]: "n < 10 \<Longrightarrow> is_digit (char_of (48 + n :: nat))"
  by (simp add: is_digit_def)

lemma digits_value_snoc [simp]: "digits_value (s @ [c]) = 10 * digits_value s + digit_value c"
  by (simp add: digits_value_def)

lemma digits_value_Nil [simp]: "digits_value [] = 0"
  by (simp add: digits_value_def)

lemma show_nat_ne [simp]: "show_nat n \<noteq> []"
  by (subst show_nat.simps) simp

lemma show_nat_digits: "list_all is_digit (show_nat n)"
proof (induction n rule: show_nat.induct)
  case (1 n)
  then show ?case by (subst show_nat.simps) auto
qed

lemma digits_value_show_nat [simp]: "digits_value (show_nat n) = n"
proof (induction n rule: show_nat.induct)
  case (1 n)
  show ?case
  proof (cases "n < 10")
    case True
    have "digits_value ([] @ [char_of (48 + n)]) = n"
      using True by (simp only: digits_value_snoc digits_value_Nil digit_value_char_of)
    with True show ?thesis by (subst show_nat.simps) simp
  next
    case False
    with 1 show ?thesis by (subst show_nat.simps) simp
  qed
qed

lemma parse_bounded_show_nat: "n < bound \<Longrightarrow> parse_bounded bound (show_nat n) = Some n"
proof -
  assume "n < bound"
  obtain c r where c: "show_nat n = c # r" by (meson neq_Nil_conv show_nat_ne)
  with show_nat_digits [of n] have "is_digit c" by simp
  then have "c \<noteq> CHR ''+''" by (auto simp: is_digit_def code_def)
  with c have "(case show_nat n of c # r \<Rightarrow> if c = CHR ''+'' then r else show_nat n | [] \<Rightarrow> show_nat n)
      = show_nat n" by simp
  with \<open>n < bound\<close> show_nat_digits [of n] show ?thesis
    unfolding parse_bounded_def by (simp only: Let_def) simp
qed

lemma parse_bounded_less: "parse_bounded bound s = Some n \<Longrightarrow> n < bound"
  by (auto simp: parse_bounded_def Let_def split: if_splits)

lemma parse_u16_show: "parse_u16 (show_nat (unat p)) = Some p"
proof -
  have "unat p < 2 ^ 16" using unsigned_less [of p] by simp
  then show ?thesis unfolding parse_u16_def by (simp add: parse_bounded_show_nat del: power_numeral)
qed

lemma set_trim_matches: "set (trim_matches s P) \<subseteq> set s"
  by (auto simp: trim_matches_def dest!: set_dropWhileD)

lemma lower_char_not_upper: "\<not> is_upper (lower_char c)"
  by (auto simp: lower_char_def is_upper_def)

end
