(* ===== verification/Workspace_State.thy ===== *)
theory Workspace_State
  imports Rust_Strings
begin

text \<open>
  The reducer-owned workspace state (\<open>src/state\<close>): containers with what fghj wants of them
  (\<open>container_desired\<close>) and what Docker last reported (\<open>container_observed\<close>), volumes, the
  environment and the workspace. Field names carry a prefix for their struct, since two structs
  may share a field name. \<open>condition\<close> is the derived verdict on a container.
\<close>

type_synonym node_id = string
type_synonym port = "16 word"

section \<open>Containers\<close>

record port_route =
  pr_domain :: string
  pr_host_port :: port
  pr_wildcard :: bool
  pr_container_port :: string
  pr_https :: bool

datatype pending_action = Starting | Restarting | Stopping | Removing

fun show_pending_action :: "pending_action \<Rightarrow> string" where
  "show_pending_action Starting = ''starting''"
| "show_pending_action Restarting = ''restarting''"
| "show_pending_action Stopping = ''stopping''"
| "show_pending_action Removing = ''removing''"

datatype sync_status = Unknown | Synced | Drifted | Orphaned

record container_source =
  cs_branch :: "string option"
  cs_head :: "string option"
  cs_dirty :: bool

record container_desired =
  cd_running :: bool
  cd_container_name :: string
  cd_domain :: string
  cd_raw_domain :: string
  cd_routes :: "port_route list"
  cd_additional_hosts :: "string list"
  cd_status_port :: "string option"
  cd_config_hash :: string
  cd_source :: "container_source option"
  cd_terminating :: bool
  cd_debug_wait :: bool

record container_observed =
  co_status :: string
  co_published_port :: "port option"
  co_ports :: "(string, port option) btree"
  co_sync :: sync_status
  co_exit_code :: "int option"
  co_interrupted :: bool
  co_unseen :: bool
  co_seeded :: "bool option"

definition default_observed :: container_observed where
  "default_observed = \<lparr>co_status = [], co_published_port = None, co_ports = [], co_sync = Unknown,
     co_exit_code = None, co_interrupted = False, co_unseen = False, co_seeded = None\<rparr>"

definition is_up :: "container_observed \<Rightarrow> bool" where
  "is_up r = (co_status r \<in> {''running'', ''restarting'', ''paused''})"

definition same_reading :: "container_observed \<Rightarrow> container_observed \<Rightarrow> bool" where
  "same_reading a b =
     (co_status a = co_status b \<and> co_published_port a = co_published_port b \<and> co_ports a = co_ports b \<and>
      co_exit_code a = co_exit_code b \<and> co_interrupted a = co_interrupted b \<and>
      co_unseen a = co_unseen b)"

definition settle_interruption :: "container_observed \<Rightarrow> bool \<Rightarrow> container_observed" where
  "settle_interruption r went_unwatched =
     (if is_up r then r\<lparr>co_interrupted := False\<rparr>
      else if went_unwatched then r\<lparr>co_interrupted := True\<rparr> else r)"

record container_info =
  ci_node_id :: node_id
  ci_desired :: container_desired
  ci_observed :: container_observed
  ci_pending_action :: "pending_action option"

datatype node_condition =
  CRunning | CStopped | CCrashed | CInterrupted | CUnknown | CRestarting | CPaused
  | CCompleted | CFailed | CFinishing | CMissing

definition condition :: "container_info \<Rightarrow> node_condition" where
  "condition c =
     (let r = ci_observed c; d = ci_desired c; status = co_status r in
      if co_unseen r then CUnknown
      else if status = ''removed'' then CMissing
      else if cd_terminating d then
        (if status = ''running'' then CRunning
         else case co_exit_code r of
           Some x \<Rightarrow> if x = 0 then CCompleted else CFailed
         | None \<Rightarrow> CFinishing)
      else if status = ''running'' then CRunning
      else if status = ''restarting'' then CRestarting
      else if status = ''paused'' then CPaused
      else if cd_running d \<and> co_interrupted r then CInterrupted
      else if cd_running d then CCrashed
      else CStopped)"

section \<open>Volumes, environments, workspaces\<close>

record volume_info =
  vi_desired_name :: string
  vi_observed_exists :: bool

datatype env_spec = EnvFlow string | EnvNode node_id

record env_state =
  es_network :: string
  es_containers :: "(node_id, container_info) btree"
  es_volumes :: "(string, volume_info) btree"
  es_sidecar_container_name :: string
  es_sidecar_ip :: "string option"
  es_pending_create :: "env_spec option"

definition default_env :: env_state where
  "default_env = \<lparr>es_network = [], es_containers = [], es_volumes = [],
     es_sidecar_container_name = [], es_sidecar_ip = None, es_pending_create = None\<rparr>"

record env_create_error =
  ece_message :: string
  ece_partial :: "env_state option"

definition bare_create_error :: "string \<Rightarrow> env_create_error" where
  "bare_create_error m = \<lparr>ece_message = m, ece_partial = None\<rparr>"

record workspace_owner =
  wo_uid :: "32 word"
  wo_gid :: "32 word"
  wo_home :: string
  wo_ssh_auth_sock :: "string option"

record workspace_state =
  ws_path :: string
  ws_owner :: "workspace_owner option"
  ws_env :: "env_state option"

section \<open>What a well-formed state is\<close>

text \<open>
  The maps are ordered, and a container is filed under its own node id: \<open>query\<close>, \<open>heal\<close> and
  \<open>converge\<close> read the id from the container and then look the container up by it.
\<close>

definition wf_env :: "env_state \<Rightarrow> bool" where
  "wf_env e \<longleftrightarrow> bt_wf (es_containers e) \<and> bt_wf (es_volumes e) \<and>
     (\<forall>k c. map_of (es_containers e) k = Some c \<longrightarrow> ci_node_id c = k)"

lemma wf_env_code [code]:
  "wf_env e = (bt_wf (es_containers e) \<and> bt_wf (es_volumes e) \<and>
     list_all (\<lambda>kc. ci_node_id (snd kc) = fst kc) (es_containers e))"
proof -
  have "(\<forall>k c. map_of (es_containers e) k = Some c \<longrightarrow> ci_node_id c = k) \<longleftrightarrow>
      list_all (\<lambda>kc. ci_node_id (snd kc) = fst kc) (es_containers e)" if "bt_wf (es_containers e)"
  proof -
    have "list_all (\<lambda>kc. ci_node_id (snd kc) = fst kc) m = (\<forall>k c. (k, c) \<in> set m \<longrightarrow> ci_node_id c = k)"
      for m :: "(node_id, container_info) btree" by (auto simp: list_all_iff)
    then show ?thesis by (simp only: bt_in_set [OF that])
  qed
  then show ?thesis by (auto simp: wf_env_def)
qed

definition wf_state :: "workspace_state \<Rightarrow> bool" where
  "wf_state s \<longleftrightarrow> (case ws_env s of None \<Rightarrow> True | Some e \<Rightarrow> wf_env e)"

lemma wf_env_node_id: "wf_env e \<Longrightarrow> map_of (es_containers e) k = Some c \<Longrightarrow> ci_node_id c = k"
  by (simp add: wf_env_def)

lemma wf_env_default [simp]: "wf_env default_env"
  by (simp add: wf_env_def default_env_def)

lemma wf_env_container_in:
  assumes "wf_env e"
  shows "c \<in> set (bt_values (es_containers e)) \<longleftrightarrow> map_of (es_containers e) (ci_node_id c) = Some c"
  using assms bt_in_values [of "es_containers e" c] unfolding wf_env_def by auto

lemma wf_env_ids: "wf_env e \<Longrightarrow> map ci_node_id (bt_values (es_containers e)) = bt_keys (es_containers e)"
  by (auto simp: wf_env_def bt_values_def bt_keys_def bt_in_set [symmetric])

lemma wf_env_insert:
  "wf_env e \<Longrightarrow> ci_node_id c = k \<Longrightarrow> wf_env (e\<lparr>es_containers := bt_insert k c (es_containers e)\<rparr>)"
  by (auto simp: wf_env_def)

lemma wf_env_remove: "wf_env e \<Longrightarrow> wf_env (e\<lparr>es_containers := bt_remove k (es_containers e)\<rparr>)"
  by (auto simp: wf_env_def split: if_splits)

lemma wf_env_modify:
  "wf_env e \<Longrightarrow> (\<And>c. ci_node_id (f c) = ci_node_id c) \<Longrightarrow>
   wf_env (e\<lparr>es_containers := bt_modify k f (es_containers e)\<rparr>)"
  by (auto simp: wf_env_def split: if_splits)

lemma is_up_condition:
  "\<not> co_unseen (ci_observed c) \<Longrightarrow> is_up (ci_observed c) \<Longrightarrow>
   \<not> cd_terminating (ci_desired c) \<Longrightarrow> condition c \<in> {CRunning, CRestarting, CPaused}"
  by (auto simp: condition_def is_up_def Let_def)

section \<open>What a run reports\<close>

text \<open>
  What a run reports while it is under way (\<open>src/orchestrator/progress.rs\<close>): its plan, the node
  it works on, and each node that came up with the network it is on. \<open>report\<close> drops the
  message when nobody listens; here the reports are the list of what was sent.
\<close>

datatype run_progress =
    Planned "node_id list" "node_id list"
  | Working node_id "pending_action option"
  | NodeUp string string "string option" container_info

end
