(* ===== verification/Activity.thy ===== *)
theory Activity
  imports Workspace_State
begin

text \<open>
  The activity log (\<open>src/activity.rs\<close>): jobs, the children they spawn and how both settle. The log
  is a list in start order; an \<open>ActivityHandle\<close> is a job's id, and an operation on a handle whose job
  is gone does nothing. The clock is an argument. A walk up the parents carries fuel (the number of
  jobs), which \<open>Activity_Props\<close> shows to be enough; a walk down is the closure of the children.
\<close>

datatype activity_kind = KPull | KRemove | KSwitch | KStart | KStop | KDelete

datatype activity_status = AQueued | ARunning | ADone | AError | ACancelled

definition is_open :: "activity_status \<Rightarrow> bool" where
  "is_open st = (st = AQueued \<or> st = ARunning)"

record activity =
  ac_id :: nat
  ac_workspace_id :: "string option"
  ac_parent :: "nat option"
  ac_kind :: activity_kind
  ac_key :: string
  ac_status :: activity_status
  ac_log :: string
  ac_started_ms :: nat
  ac_finished_ms :: "nat option"

record activity_log =
  al_next_id :: nat
  al_items :: "activity list"

definition empty_log :: activity_log where
  "empty_log = \<lparr>al_next_id = 0, al_items = []\<rparr>"

definition DETACHED :: nat where "DETACHED = 0"

section \<open>Inner\<close>

definition find_activity :: "activity_log \<Rightarrow> nat \<Rightarrow> activity option" where
  "find_activity l i = find (\<lambda>a. ac_id a = i) (al_items l)"

text \<open>\<open>find_mut\<close> and a change of what it finds: the first item with the id.\<close>

fun change_first :: "nat \<Rightarrow> (activity \<Rightarrow> activity) \<Rightarrow> activity list \<Rightarrow> activity list" where
  "change_first i f [] = []"
| "change_first i f (a # as) = (if ac_id a = i then f a # as else a # change_first i f as)"

definition change_activity :: "nat \<Rightarrow> (activity \<Rightarrow> activity) \<Rightarrow> activity_log \<Rightarrow> activity_log" where
  "change_activity i f l = l\<lparr>al_items := change_first i f (al_items l)\<rparr>"

definition push_activity ::
  "string option \<Rightarrow> nat option \<Rightarrow> activity_kind \<Rightarrow> string \<Rightarrow> nat \<Rightarrow> activity_log \<Rightarrow> nat \<times> activity_log" where
  "push_activity workspace_id parent kind key now l =
     (let i = al_next_id l + 1
      in (i, l\<lparr>al_next_id := i,
               al_items := al_items l @ [\<lparr>ac_id = i, ac_workspace_id = workspace_id, ac_parent = parent,
                 ac_kind = kind, ac_key = key, ac_status = ARunning, ac_log = [], ac_started_ms = now,
                 ac_finished_ms = None\<rparr>]\<rparr>))"

definition children_of :: "activity_log \<Rightarrow> nat \<Rightarrow> nat list" where
  "children_of l i = map ac_id (filter (\<lambda>a. ac_parent a = Some i) (al_items l))"

text \<open>The growing work list of \<open>Inner::tree\<close>: position \<open>done\<close> is looked at next.\<close>

fun grow_tree :: "nat \<Rightarrow> activity_log \<Rightarrow> nat list \<Rightarrow> nat \<Rightarrow> nat list option" where
  "grow_tree 0 l found i = None"
| "grow_tree (Suc fuel) l found i =
     (if i < length found then grow_tree fuel l (found @ children_of l (found ! i)) (i + 1) else Some found)"

definition tree_of :: "activity_log \<Rightarrow> nat \<Rightarrow> nat list option" where
  "tree_of l root = grow_tree (length (al_items l) + 2) l [root] 0"

definition remove_tree :: "nat \<Rightarrow> activity_log \<Rightarrow> activity_log option" where
  "remove_tree root l =
     map_option (\<lambda>doomed. l\<lparr>al_items := filter (\<lambda>a. ac_id a \<notin> set doomed) (al_items l)\<rparr>) (tree_of l root)"

definition find_top :: "activity_log \<Rightarrow> string option \<Rightarrow> activity_kind \<Rightarrow> string \<Rightarrow> activity option" where
  "find_top l workspace_id kind key =
     find (\<lambda>a. ac_parent a = None \<and> ac_workspace_id a = workspace_id \<and> ac_kind a = kind \<and> ac_key a = key) (al_items l)"

section \<open>Jobs\<close>

text \<open>\<open>Inl\<close> is the running job that is joined instead.\<close>

definition start_job ::
  "string option \<Rightarrow> activity_kind \<Rightarrow> string \<Rightarrow> nat \<Rightarrow> activity_log \<Rightarrow> (activity + nat \<times> activity_log) option" where
  "start_job workspace_id kind key now l =
     (case find_top l workspace_id kind key of
        None \<Rightarrow> Some (Inr (push_activity workspace_id None kind key now l))
      | Some previous \<Rightarrow>
          if ac_status previous = ARunning then Some (Inl previous)
          else map_option (\<lambda>l1. Inr (push_activity workspace_id None kind key now l1)) (remove_tree (ac_id previous) l))"

definition append_text :: "nat \<Rightarrow> string \<Rightarrow> activity_log \<Rightarrow> activity_log" where
  "append_text i text = change_activity i (\<lambda>a. a\<lparr>ac_log := ac_log a @ text\<rparr>)"

fun append_up :: "nat \<Rightarrow> nat option \<Rightarrow> string \<Rightarrow> activity_log \<Rightarrow> activity_log option" where
  "append_up fuel None text l = Some l"
| "append_up 0 (Some i) text l = None"
| "append_up (Suc fuel) (Some i) text l =
     (case find_activity l i of
        None \<Rightarrow> Some l
      | Some a \<Rightarrow> append_up fuel (ac_parent a) text (append_text i text l))"

definition append_log :: "nat \<Rightarrow> string \<Rightarrow> activity_log \<Rightarrow> activity_log option" where
  "append_log i text l = append_up (length (al_items l) + 1) (Some i) text l"

definition status_of :: "activity_log \<Rightarrow> nat \<Rightarrow> activity_status option" where
  "status_of l i = map_option ac_status (find_activity l i)"

definition finish_one :: "nat \<Rightarrow> activity_status \<Rightarrow> string option \<Rightarrow> nat \<Rightarrow> nat \<Rightarrow> activity_log \<Rightarrow> activity_log" where
  "finish_one root status note now i =
     change_activity i (\<lambda>a.
       if \<not> is_open (ac_status a) then a
       else if i = root then a\<lparr>ac_log := ac_log a @ (case note of None \<Rightarrow> [] | Some t \<Rightarrow> t),
                               ac_status := status, ac_finished_ms := Some now\<rparr>
       else a\<lparr>ac_status := ACancelled, ac_finished_ms := Some now\<rparr>)"

definition finish_job :: "nat \<Rightarrow> activity_status \<Rightarrow> string option \<Rightarrow> nat \<Rightarrow> activity_log \<Rightarrow> activity_log option" where
  "finish_job root status note now l =
     map_option (\<lambda>ids. fold (finish_one root status note now) ids l) (tree_of l root)"

definition line_break :: string where "line_break = [CHR 0x0A]"

definition settle_job :: "nat \<Rightarrow> string + unit \<Rightarrow> nat \<Rightarrow> activity_log \<Rightarrow> activity_log option" where
  "settle_job i result now l =
     (case result of
        Inr _ \<Rightarrow> finish_job i ADone None now l
      | Inl e \<Rightarrow> finish_job i AError (Some (line_break @ ''error: '' @ e @ line_break)) now l)"

definition cancel_job :: "nat \<Rightarrow> string \<Rightarrow> nat \<Rightarrow> activity_log \<Rightarrow> activity_log option" where
  "cancel_job i why now l = finish_job i ACancelled (Some (line_break @ why @ line_break)) now l"

definition start_superseding ::
  "string option \<Rightarrow> activity_kind \<Rightarrow> string \<Rightarrow> nat \<Rightarrow> activity_log \<Rightarrow> (nat \<times> activity_log) option" where
  "start_superseding workspace_id kind key now l =
     (case start_job workspace_id kind key now l of
        None \<Rightarrow> None
      | Some (Inr r) \<Rightarrow> Some r
      | Some (Inl running) \<Rightarrow>
          (case cancel_job (ac_id running) ''superseded'' now l of
             None \<Rightarrow> None
           | Some l1 \<Rightarrow>
               (case start_job workspace_id kind key now l1 of Some (Inr r) \<Rightarrow> Some r | _ \<Rightarrow> None)))"

definition child_of_kind :: "nat \<Rightarrow> activity_kind option \<Rightarrow> string \<Rightarrow> nat \<Rightarrow> activity_log \<Rightarrow> nat \<times> activity_log" where
  "child_of_kind i kind key now l =
     (case find_activity l i of
        None \<Rightarrow> (DETACHED, l)
      | Some a \<Rightarrow>
          push_activity (ac_workspace_id a) (Some i) (case kind of None \<Rightarrow> ac_kind a | Some k \<Rightarrow> k) key now l)"

definition queued_child_of_kind :: "nat \<Rightarrow> activity_kind option \<Rightarrow> string \<Rightarrow> nat \<Rightarrow> activity_log \<Rightarrow> nat \<times> activity_log" where
  "queued_child_of_kind i kind key now l =
     (case child_of_kind i kind key now l of
        (child, l1) \<Rightarrow> (child, change_activity child (\<lambda>a. a\<lparr>ac_status := AQueued\<rparr>) l1))"

definition begin_job :: "nat \<Rightarrow> nat \<Rightarrow> activity_log \<Rightarrow> activity_log" where
  "begin_job i now =
     change_activity i (\<lambda>a. if ac_status a = AQueued then a\<lparr>ac_status := ARunning, ac_started_ms := now\<rparr> else a)"

definition list_activities :: "activity_log \<Rightarrow> string option \<Rightarrow> activity list" where
  "list_activities l workspace_id =
     filter (\<lambda>a. workspace_id = None \<or> ac_workspace_id a = workspace_id) (rev (al_items l))"

end
