(* ===== verification/Activity_Props.thy ===== *)
theory Activity_Props
  imports Activity
begin

text \<open>
  The activity log is a forest: \<open>log_wf\<close>, which every operation keeps. A job's tree is its closure
  under children, found by the work list of \<open>Inner::tree\<close> within its fuel; the walk up the parents
  ends because a parent's id is below its child's.
\<close>

definition ids_of :: "activity_log \<Rightarrow> nat set" where
  "ids_of l = ac_id ` set (al_items l)"

definition top_key :: "activity \<Rightarrow> string option \<times> activity_kind \<times> string" where
  "top_key a = (ac_workspace_id a, ac_kind a, ac_key a)"

definition one_record_per_key :: "activity list \<Rightarrow> bool" where
  "one_record_per_key items = distinct (map top_key (filter (\<lambda>a. ac_parent a = None) items))"

definition job_ok :: "activity_log \<Rightarrow> activity \<Rightarrow> bool" where
  "job_ok l a = (0 < ac_id a \<and> ac_id a \<le> al_next_id l \<and>
     (case ac_parent a of None \<Rightarrow> ac_status a \<noteq> AQueued | Some p \<Rightarrow> p < ac_id a \<and> p \<in> ids_of l))"

definition log_wf :: "activity_log \<Rightarrow> bool" where
  "log_wf l = (distinct (map ac_id (al_items l)) \<and> one_record_per_key (al_items l) \<and> list_all (job_ok l) (al_items l))"

inductive descends :: "activity_log \<Rightarrow> nat \<Rightarrow> nat \<Rightarrow> bool" for l root where
  self: "descends l root root"
| child: "descends l root p \<Longrightarrow> a \<in> set (al_items l) \<Longrightarrow> ac_parent a = Some p \<Longrightarrow> descends l root (ac_id a)"

lemma log_wfD:
  assumes "log_wf l"
  shows "distinct (map ac_id (al_items l))" "one_record_per_key (al_items l)"
    "\<And>a. a \<in> set (al_items l) \<Longrightarrow> job_ok l a"
  using assms by (auto simp: log_wf_def list_all_iff)

lemma in_children: "c \<in> set (children_of l p) \<longleftrightarrow> (\<exists>a\<in>set (al_items l). ac_parent a = Some p \<and> ac_id a = c)"
  by (auto simp: children_of_def)

lemma same_id: "log_wf l \<Longrightarrow> a \<in> set (al_items l) \<Longrightarrow> b \<in> set (al_items l) \<Longrightarrow> ac_id a = ac_id b \<Longrightarrow> a = b"
  using log_wfD(1) [of l] by (auto simp: distinct_map inj_on_def)

lemma parent_below: "log_wf l \<Longrightarrow> a \<in> set (al_items l) \<Longrightarrow> ac_parent a = Some p \<Longrightarrow> p < ac_id a \<and> p \<in> ids_of l"
  using log_wfD(3) [of l a] by (simp add: job_ok_def)

lemma descends_above: "log_wf l \<Longrightarrow> descends l root i \<Longrightarrow> root \<le> i"
proof -
  assume wf: "log_wf l" and "descends l root i"
  from this(2) show "root \<le> i"
  proof (induction rule: descends.induct)
    case (child p a)
    then show ?case using parent_below [OF wf child(2,3)] by simp
  qed simp
qed

lemma descends_ids: "descends l root i \<Longrightarrow> i = root \<or> i \<in> ids_of l"
  by (induction rule: descends.induct) (auto simp: ids_of_def)

section \<open>The tree\<close>

text \<open>What holds of the work list when position \<open>i\<close> is looked at next.\<close>

definition tree_inv :: "activity_log \<Rightarrow> nat \<Rightarrow> nat list \<Rightarrow> nat \<Rightarrow> bool" where
  "tree_inv l root found i = (distinct found \<and> i \<le> length found \<and> root \<in> set found \<and>
     (\<forall>x\<in>set found. descends l root x) \<and>
     (\<forall>a\<in>set (al_items l). \<forall>p. ac_parent a = Some p \<longrightarrow> p \<in> set (take i found) \<longrightarrow> ac_id a \<in> set found) \<and>
     (\<forall>a\<in>set (al_items l). ac_id a \<in> set found \<longrightarrow> ac_id a \<noteq> root \<longrightarrow>
        (\<exists>p. ac_parent a = Some p \<and> p \<in> set (take i found))))"

lemma tree_inv_step:
  assumes wf: "log_wf l" and inv: "tree_inv l root found i" and i: "i < length found"
  shows "tree_inv l root (found @ children_of l (found ! i)) (i + 1)"
proof -
  let ?p = "found ! i" and ?new = "children_of l (found ! i)"
  have d: "distinct found" using inv by (simp add: tree_inv_def)
  have tk: "take (i + 1) (found @ ?new) = take i found @ [?p]"
    using i by (simp add: take_Suc_conv_app_nth)
  have p: "descends l root ?p" using inv i by (auto simp: tree_inv_def)
  have fresh: "c \<notin> set found" if "c \<in> set ?new" for c
  proof
    assume c: "c \<in> set found"
    obtain a where a: "a \<in> set (al_items l)" "ac_parent a = Some ?p" "ac_id a = c"
      using \<open>c \<in> set ?new\<close> by (auto simp: in_children)
    have "root < c" using descends_above [OF wf p] parent_below [OF wf a(1,2)] a(3) by simp
    with inv a c obtain q where "ac_parent a = Some q" "q \<in> set (take i found)"
      by (auto simp: tree_inv_def)
    then have "?p \<in> set (take i found)" using a by simp
    then obtain j where "j < i" "found ! j = ?p" using i by (auto simp: in_set_conv_nth)
    with d i show False by (simp add: nth_eq_iff_index_eq)
  qed
  have dn: "distinct ?new"
    using log_wfD(1) [OF wf] by (simp add: children_of_def distinct_map inj_on_def)
  show ?thesis
    unfolding tree_inv_def tk
  proof (intro conjI ballI allI impI)
    show "distinct (found @ ?new)" using d dn fresh by auto
    show "i + 1 \<le> length (found @ ?new)" using i by simp
    show "root \<in> set (found @ ?new)" using inv by (simp add: tree_inv_def)
    show "descends l root x" if "x \<in> set (found @ ?new)" for x
      using that inv p by (auto simp: tree_inv_def in_children intro: descends.child)
    show "ac_id a \<in> set (found @ ?new)"
      if "a \<in> set (al_items l)" "ac_parent a = Some q" "q \<in> set (take i found @ [?p])" for a q
      using that inv by (auto simp: tree_inv_def in_children)
    show "\<exists>q. ac_parent a = Some q \<and> q \<in> set (take i found @ [?p])"
      if a: "a \<in> set (al_items l)" "ac_id a \<in> set (found @ ?new)" "ac_id a \<noteq> root" for a
    proof (cases "ac_id a \<in> set found")
      case True
      with a inv show ?thesis by (fastforce simp: tree_inv_def)
    next
      case False
      with a(2) obtain b where "b \<in> set (al_items l)" "ac_parent b = Some ?p" "ac_id b = ac_id a"
        by (auto simp: in_children)
      with same_id [OF wf _ a(1)] show ?thesis by auto
    qed
  qed
qed

lemma tree_inv_length:
  assumes "tree_inv l root found i"
  shows "length found \<le> length (al_items l) + 1"
proof -
  have "set found \<subseteq> insert root (ids_of l)" using assms descends_ids by (fastforce simp: tree_inv_def)
  then have "card (set found) \<le> card (insert root (ids_of l))" by (intro card_mono) (simp_all add: ids_of_def)
  also have "\<dots> \<le> Suc (card (ids_of l))" by (rule card_insert_le_m1) (simp_all add: ids_of_def)
  also have "\<dots> \<le> length (al_items l) + 1"
    using card_image_le [of "set (al_items l)" ac_id] card_length [of "al_items l"] by (simp add: ids_of_def)
  finally show ?thesis using assms by (simp add: tree_inv_def distinct_card)
qed

lemma grow_tree_ends:
  assumes "log_wf l" "tree_inv l root found i" "length (al_items l) + 2 \<le> fuel + i"
  shows "\<exists>t. grow_tree fuel l found i = Some t \<and> tree_inv l root t (length t)"
  using assms(2,3)
proof (induction fuel arbitrary: found i)
  case 0
  then show ?case using tree_inv_length [OF 0(1)] by (simp add: tree_inv_def)
next
  case (Suc fuel)
  show ?case
  proof (cases "i < length found")
    case True
    have "\<exists>t. grow_tree fuel l (found @ children_of l (found ! i)) (i + 1) = Some t \<and> tree_inv l root t (length t)"
      using Suc.IH [OF tree_inv_step [OF assms(1) Suc.prems(1) True]] Suc.prems(2) by simp
    with True show ?thesis by simp
  next
    case False
    then have "i = length found" using Suc.prems(1) by (simp add: tree_inv_def)
    with Suc.prems(1) show ?thesis by simp
  qed
qed

lemma tree_of_exact:
  assumes wf: "log_wf l"
  obtains t where "tree_of l root = Some t" "distinct t" "\<And>i. i \<in> set t \<longleftrightarrow> descends l root i"
proof -
  have "tree_inv l root [root] 0"
    using descends.self by (auto simp: tree_inv_def)
  from grow_tree_ends [OF wf this, of "length (al_items l) + 2"]
  obtain t where t: "tree_of l root = Some t" "tree_inv l root t (length t)"
    unfolding tree_of_def by auto
  have "i \<in> set t" if "descends l root i" for i
    using that
  proof (induction rule: descends.induct)
    case self
    then show ?case using t(2) by (simp add: tree_inv_def)
  next
    case (child p a)
    then show ?case using t(2) by (auto simp: tree_inv_def)
  qed
  moreover have "descends l root i" if "i \<in> set t" for i using t(2) that by (simp add: tree_inv_def)
  ultimately show thesis using t that by (auto simp: tree_inv_def)
qed


section \<open>Changes of one job\<close>

definition same_job :: "activity \<Rightarrow> activity \<Rightarrow> bool" where
  "same_job a b = (ac_id a = ac_id b \<and> ac_parent a = ac_parent b \<and> top_key a = top_key b)"

lemma change_first_map:
  "distinct (map ac_id as) \<Longrightarrow> change_first i f as = map (\<lambda>a. if ac_id a = i then f a else a) as"
proof (induction as)
  case (Cons a as)
  show ?case
  proof (cases "ac_id a = i")
    case True
    with Cons.prems have "\<forall>b\<in>set as. ac_id b \<noteq> i" by (auto simp: image_iff)
    with True show ?thesis by (simp add: map_idI)
  next
    case False
    with Cons show ?thesis by simp
  qed
qed simp

lemma change_items:
  "log_wf l \<Longrightarrow> al_items (change_activity i f l) = map (\<lambda>a. if ac_id a = i then f a else a) (al_items l)"
  by (simp add: change_activity_def change_first_map log_wfD(1))

lemma change_next_id [simp]: "al_next_id (change_activity i f l) = al_next_id l"
  by (simp add: change_activity_def)

lemma same_top: "\<forall>a\<in>set as. same_job (f a) a \<Longrightarrow>
    map top_key (filter (\<lambda>a. ac_parent a = None) (map f as)) = map top_key (filter (\<lambda>a. ac_parent a = None) as)"
  by (induction as) (auto simp: same_job_def)

lemma same_ids: "\<forall>a\<in>set as. same_job (f a) a \<Longrightarrow> map ac_id (map f as) = map ac_id as"
  by (induction as) (auto simp: same_job_def)

lemma wf_map:
  assumes wf: "log_wf l" and items: "al_items l' = map f (al_items l)" and n: "al_next_id l' = al_next_id l"
    and same: "\<And>a. a \<in> set (al_items l) \<Longrightarrow> same_job (f a) a"
    and queued: "\<And>a. a \<in> set (al_items l) \<Longrightarrow> ac_parent a = None \<Longrightarrow> ac_status (f a) \<noteq> AQueued"
  shows "log_wf l'"
proof -
  have ids: "map ac_id (al_items l') = map ac_id (al_items l)" using same_ids [of "al_items l" f] same items by simp
  then have set_ids: "ids_of l' = ids_of l" by (metis ids_of_def set_map)
  have "job_ok l' (f a)" if a: "a \<in> set (al_items l)" for a
  proof -
    have "job_ok l a" using log_wfD(3) [OF wf a] .
    moreover have "ac_id (f a) = ac_id a" "ac_parent (f a) = ac_parent a" using same [OF a] by (simp_all add: same_job_def)
    ultimately show ?thesis using queued [OF a] n set_ids by (simp add: job_ok_def split: option.splits)
  qed
  then show ?thesis
    using log_wfD(1,2) [OF wf] same_top [of "al_items l" f] same items
    unfolding log_wf_def one_record_per_key_def ids by (simp add: list_all_iff)
qed

lemma change_wf:
  assumes wf: "log_wf l" and "\<And>a. same_job (f a) a"
    and "\<And>a. a \<in> set (al_items l) \<Longrightarrow> ac_id a = i \<Longrightarrow> ac_parent a = None \<Longrightarrow> ac_status (f a) \<noteq> AQueued"
  shows "log_wf (change_activity i f l)"
proof (rule wf_map [OF wf change_items [OF wf]])
  show "ac_status (if ac_id a = i then f a else a) \<noteq> AQueued" if "a \<in> set (al_items l)" "ac_parent a = None" for a
    using log_wfD(3) [OF wf that(1)] assms(3) [OF that(1)] that(2) by (simp add: job_ok_def)
  show "same_job (if ac_id a = i then f a else a) a" for a using assms(2) [of a] by (simp add: same_job_def)
qed simp

lemma find_activity_Some:
  "log_wf l \<Longrightarrow> find_activity l i = Some a \<longleftrightarrow> a \<in> set (al_items l) \<and> ac_id a = i"
proof
  assume "find_activity l i = Some a"
  then show "a \<in> set (al_items l) \<and> ac_id a = i"
    by (auto simp: find_activity_def find_Some_iff)
next
  assume wf: "log_wf l" and a: "a \<in> set (al_items l) \<and> ac_id a = i"
  then have "find_activity l i \<noteq> None" by (auto simp: find_activity_def find_None_iff)
  then obtain b where "find_activity l i = Some b" by auto
  then have "b \<in> set (al_items l)" "ac_id b = i" by (auto simp: find_activity_def find_Some_iff)
  with a same_id [OF wf, of a b] \<open>find_activity l i = Some b\<close> show "find_activity l i = Some a" by simp
qed

section \<open>New and removed jobs\<close>

lemma push_wf:
  assumes wf: "log_wf l" and p: "\<And>p. parent = Some p \<Longrightarrow> p \<in> ids_of l"
    and top: "parent = None \<Longrightarrow> find_top l workspace_id kind key = None"
  shows "log_wf (snd (push_activity workspace_id parent kind key now l))" (is "log_wf ?l'")
proof -
  let ?i = "al_next_id l + 1"
  let ?a = "\<lparr>ac_id = ?i, ac_workspace_id = workspace_id, ac_parent = parent, ac_kind = kind, ac_key = key,
    ac_status = ARunning, ac_log = [], ac_started_ms = now, ac_finished_ms = None\<rparr>"
  have items: "al_items ?l' = al_items l @ [?a]" "al_next_id ?l' = ?i"
    by (simp_all add: push_activity_def Let_def)
  then have ids: "ids_of ?l' = insert ?i (ids_of l)" by (simp add: ids_of_def)
  have below: "ac_id a < ?i" if "a \<in> set (al_items l)" for a
    using log_wfD(3) [OF wf that] by (simp add: job_ok_def)
  then have "?i \<notin> ac_id ` set (al_items l)" by (metis imageE less_irrefl)
  then have "distinct (map ac_id (al_items ?l'))" using log_wfD(1) [OF wf] items by simp
  moreover have "one_record_per_key (al_items ?l')"
  proof (cases parent)
    case None
    then have "\<forall>a\<in>set (al_items l). ac_parent a = None \<longrightarrow> top_key a \<noteq> top_key ?a"
      using top by (auto simp: find_top_def find_None_iff top_key_def)
    with None log_wfD(2) [OF wf] items show ?thesis by (auto simp: one_record_per_key_def)
  next
    case (Some q)
    with log_wfD(2) [OF wf] items show ?thesis by (simp add: one_record_per_key_def)
  qed
  moreover have "job_ok ?l' ?a"
  proof (cases parent)
    case (Some q)
    with p [of q] have "q \<in> ids_of l" by simp
    with below have "q < ?i" by (auto simp: ids_of_def)
    with Some \<open>q \<in> ids_of l\<close> ids items(2) show ?thesis by (simp add: job_ok_def)
  next
    case None
    with items(2) show ?thesis by (simp add: job_ok_def)
  qed
  moreover have "job_ok ?l' a" if "a \<in> set (al_items l)" for a
    using log_wfD(3) [OF wf that] ids items(2) by (auto simp: job_ok_def split: option.splits)
  ultimately show ?thesis using items(1) by (simp add: log_wf_def list_all_iff)
qed

lemma remove_tree_exact:
  assumes wf: "log_wf l"
  obtains l' where "remove_tree root l = Some l'" "al_next_id l' = al_next_id l"
    "al_items l' = filter (\<lambda>a. \<not> descends l root (ac_id a)) (al_items l)" "log_wf l'"
proof -
  obtain t where t: "tree_of l root = Some t" "\<And>i. i \<in> set t \<longleftrightarrow> descends l root i" using tree_of_exact [OF wf, of root] by metis
  let ?l' = "l\<lparr>al_items := filter (\<lambda>a. \<not> descends l root (ac_id a)) (al_items l)\<rparr>"
  have r: "remove_tree root l = Some ?l'" using t by (simp add: remove_tree_def)
  have "job_ok ?l' a" if a: "a \<in> set (al_items l)" "\<not> descends l root (ac_id a)" for a
  proof -
    have "q \<in> ids_of ?l'" if "ac_parent a = Some q" for q
    proof -
      have "\<not> descends l root q" using a that descends.child by metis
      with parent_below [OF wf a(1) that] show ?thesis by (auto simp: ids_of_def)
    qed
    with log_wfD(3) [OF wf a(1)] show ?thesis by (auto simp: job_ok_def split: option.splits)
  qed
  moreover have "one_record_per_key (filter P (al_items l))" for P
  proof -
    have "filter (\<lambda>a. ac_parent a = None) (filter P (al_items l)) = filter P (filter (\<lambda>a. ac_parent a = None) (al_items l))"
      by (simp add: conj_commute)
    with distinct_map_filter [of top_key "filter (\<lambda>a. ac_parent a = None) (al_items l)" P] log_wfD(2) [OF wf]
    show ?thesis by (simp only: one_record_per_key_def)
  qed
  moreover have "distinct (map ac_id (filter P (al_items l)))" for P
    using log_wfD(1) [OF wf] by (rule distinct_map_filter)
  ultimately have "log_wf ?l'" by (simp add: log_wf_def list_all_iff)
  with r show thesis by (intro that [of ?l']) simp_all
qed

section \<open>Sequences of operations\<close>

datatype log_op =
    OpStart "string option" activity_kind string
  | OpSuperseding "string option" activity_kind string
  | OpAppend nat string
  | OpSettle nat "string + unit"
  | OpCancel nat string
  | OpChild nat "activity_kind option" string
  | OpQueuedChild nat "activity_kind option" string
  | OpBegin nat

text \<open>The log after an operation at a time; \<open>None\<close> is a panic or a walk out of fuel.\<close>

fun log_step :: "nat \<times> log_op \<Rightarrow> activity_log \<Rightarrow> activity_log option" where
  "log_step (now, OpStart ws kind key) l =
     map_option (\<lambda>r. case r of Inl _ \<Rightarrow> l | Inr p \<Rightarrow> snd p) (start_job ws kind key now l)"
| "log_step (now, OpSuperseding ws kind key) l = map_option snd (start_superseding ws kind key now l)"
| "log_step (now, OpAppend i text) l = append_log i text l"
| "log_step (now, OpSettle i r) l = settle_job i r now l"
| "log_step (now, OpCancel i why) l = cancel_job i why now l"
| "log_step (now, OpChild i kind key) l = Some (snd (child_of_kind i kind key now l))"
| "log_step (now, OpQueuedChild i kind key) l = Some (snd (queued_child_of_kind i kind key now l))"
| "log_step (now, OpBegin i) l = Some (begin_job i now l)"

fun log_run :: "(nat \<times> log_op) list \<Rightarrow> activity_log \<Rightarrow> activity_log option" where
  "log_run [] l = Some l"
| "log_run (x # xs) l = (case log_step x l of None \<Rightarrow> None | Some l' \<Rightarrow> log_run xs l')"

section \<open>Finishing\<close>

lemma finish_fold:
  assumes "distinct ids" and "log_wf l" and st: "st \<noteq> AQueued"
  shows "log_wf (fold (finish_one root st note now) ids l) \<and>
    al_next_id (fold (finish_one root st note now) ids l) = al_next_id l \<and>
    al_items (fold (finish_one root st note now) ids l) =
      map (\<lambda>a. if ac_id a \<in> set ids \<and> is_open (ac_status a)
               then (if ac_id a = root
                     then a\<lparr>ac_log := ac_log a @ (case note of None \<Rightarrow> [] | Some t \<Rightarrow> t), ac_status := st, ac_finished_ms := Some now\<rparr>
                     else a\<lparr>ac_status := ACancelled, ac_finished_ms := Some now\<rparr>)
               else a) (al_items l)"
  using assms(1,2)
proof (induction ids arbitrary: l)
  case (Cons i ids)
  let ?l = "finish_one root st note now i l"
  have wf: "log_wf ?l"
    unfolding finish_one_def
  proof (rule change_wf [OF Cons.prems(2)], goal_cases)
    case (2 a)
    then have "ac_status a \<noteq> AQueued" using log_wfD(3) [OF Cons.prems(2) 2(1)] by (simp add: job_ok_def)
    with st show ?case by simp
  qed (simp add: same_job_def top_key_def)
  have items: "al_items ?l = map (\<lambda>a. if ac_id a = i \<and> is_open (ac_status a)
               then (if ac_id a = root
                     then a\<lparr>ac_log := ac_log a @ (case note of None \<Rightarrow> [] | Some t \<Rightarrow> t), ac_status := st, ac_finished_ms := Some now\<rparr>
                     else a\<lparr>ac_status := ACancelled, ac_finished_ms := Some now\<rparr>)
               else a) (al_items l)"
    unfolding finish_one_def change_items [OF Cons.prems(2)] by (rule map_cong) auto
  have "al_next_id ?l = al_next_id l" by (simp add: finish_one_def)
  moreover have "i \<notin> set ids" "distinct ids" using Cons.prems(1) by auto
  ultimately show ?case
    using Cons.IH [OF _ wf] items by (auto simp: comp_def)
qed simp

definition finished_job :: "nat \<Rightarrow> activity_status \<Rightarrow> string option \<Rightarrow> nat \<Rightarrow> activity \<Rightarrow> activity" where
  "finished_job root st note now a =
     (if ac_id a = root
      then a\<lparr>ac_log := ac_log a @ (case note of None \<Rightarrow> [] | Some t \<Rightarrow> t), ac_status := st, ac_finished_ms := Some now\<rparr>
      else a\<lparr>ac_status := ACancelled, ac_finished_ms := Some now\<rparr>)"

lemma finish_exact:
  assumes "log_wf l" and "st \<noteq> AQueued"
  obtains l' where "finish_job root st note now l = Some l'" "log_wf l'" "al_next_id l' = al_next_id l"
    "al_items l' = map (\<lambda>a. if descends l root (ac_id a) \<and> is_open (ac_status a) then finished_job root st note now a else a) (al_items l)"
proof -
  obtain t where t: "tree_of l root = Some t" "distinct t" "\<And>i. i \<in> set t \<longleftrightarrow> descends l root i"
    using tree_of_exact [OF assms(1), of root] by metis
  note f = finish_fold [OF t(2) assms, of root "note" now]
  show thesis
  proof (rule that [of "fold (finish_one root st note now) t l"])
    show "finish_job root st note now l = Some (fold (finish_one root st note now) t l)"
      using t(1) by (simp add: finish_job_def)
  qed (use f t(3) in \<open>auto simp: finished_job_def\<close>)
qed

section \<open>Starting\<close>

lemma find_top_Some:
  assumes "find_top l ws kind key = Some a"
  shows "a \<in> set (al_items l)" "ac_parent a = None" "top_key a = (ws, kind, key)"
  using assms by (auto simp: find_top_def find_Some_iff top_key_def)

lemma start_cases:
  assumes wf: "log_wf l"
  obtains (joined) a where "start_job ws kind key now l = Some (Inl a)" "find_top l ws kind key = Some a" "ac_status a = ARunning"
  | (fresh) "start_job ws kind key now l = Some (Inr (push_activity ws None kind key now l))" "find_top l ws kind key = None"
  | (replaced) a l1 where "start_job ws kind key now l = Some (Inr (push_activity ws None kind key now l1))"
      "find_top l ws kind key = Some a" "ac_status a \<noteq> ARunning" "log_wf l1" "al_next_id l1 = al_next_id l"
      "al_items l1 = filter (\<lambda>b. \<not> descends l (ac_id a) (ac_id b)) (al_items l)" "find_top l1 ws kind key = None"
proof (cases "find_top l ws kind key")
  case None
  then show ?thesis by (intro fresh) (simp_all add: start_job_def)
next
  case (Some a)
  show ?thesis
  proof (cases "ac_status a = ARunning")
    case True
    with Some show ?thesis by (intro joined) (simp_all add: start_job_def)
  next
    case False
    obtain l1 where l1: "remove_tree (ac_id a) l = Some l1" "al_next_id l1 = al_next_id l" "log_wf l1"
        "al_items l1 = filter (\<lambda>b. \<not> descends l (ac_id a) (ac_id b)) (al_items l)"
      using remove_tree_exact [OF wf, of "ac_id a"] by metis
    have "find_top l1 ws kind key = None"
    proof (rule ccontr)
      assume "find_top l1 ws kind key \<noteq> None"
      then obtain b where b: "find_top l1 ws kind key = Some b" by auto
      have in_l: "b \<in> set (al_items l)" "\<not> descends l (ac_id a) (ac_id b)"
        using find_top_Some(1) [OF b] l1(4) by auto
      have "b = a"
        using log_wfD(2) [OF wf] in_l(1) find_top_Some(2,3) [OF b] find_top_Some [OF Some]
        by (auto simp: one_record_per_key_def distinct_map inj_on_def)
      with in_l(2) descends.self show False by metis
    qed
    with Some False l1 show ?thesis by (intro replaced [of l1 a]) (simp_all add: start_job_def)
  qed
qed

lemma start_wf:
  assumes "log_wf l" "start_job ws kind key now l = Some (Inr r)"
  shows "log_wf (snd r)"
  using assms(1)
proof (cases rule: start_cases [of l ws kind key now])
  case fresh
  then show ?thesis using push_wf [OF assms(1), of None ws kind key now] assms(2) by simp
next
  case (replaced a l1)
  then show ?thesis using push_wf [OF replaced(4), of None ws kind key now] assms(2) by simp
next
  case joined
  then show ?thesis using assms(2) by simp
qed

lemma superseding_ends:
  assumes wf: "log_wf l"
  shows "\<exists>r. start_superseding ws kind key now l = Some r \<and> log_wf (snd r)"
  using wf
proof (cases rule: start_cases [of l ws kind key now])
  case (joined a)
  obtain l1 where l1: "cancel_job (ac_id a) ''superseded'' now l = Some l1" "log_wf l1"
      "al_items l1 = map (\<lambda>b. if descends l (ac_id a) (ac_id b) \<and> is_open (ac_status b)
         then finished_job (ac_id a) ACancelled (Some (line_break @ ''superseded'' @ line_break)) now b else b) (al_items l)"
    unfolding cancel_job_def by (rule finish_exact [OF wf, of ACancelled "ac_id a" "Some (line_break @ ''superseded'' @ line_break)" now]) auto
  have "\<nexists>b. find_top l1 ws kind key = Some b \<and> ac_status b = ARunning"
  proof
    assume "\<exists>b. find_top l1 ws kind key = Some b \<and> ac_status b = ARunning"
    then obtain b where b: "find_top l1 ws kind key = Some b" "ac_status b = ARunning" by auto
    obtain c where c: "c \<in> set (al_items l)" "b = (if descends l (ac_id a) (ac_id c) \<and> is_open (ac_status c)
         then finished_job (ac_id a) ACancelled (Some (line_break @ ''superseded'' @ line_break)) now c else c)"
      using find_top_Some(1) [OF b(1)] l1(3) by auto
    have "b = c" using c(2) b(2) by (auto simp: finished_job_def split: if_splits)
    moreover have "c = a"
      using log_wfD(2) [OF wf] c(1) \<open>b = c\<close> find_top_Some(2,3) [OF b(1)] find_top_Some [OF joined(2)]
      by (auto simp: one_record_per_key_def distinct_map inj_on_def)
    moreover have "is_open (ac_status a)" using joined(3) by (simp add: is_open_def)
    ultimately have "b = finished_job (ac_id a) ACancelled (Some (line_break @ ''superseded'' @ line_break)) now a"
      using c(2) descends.self [of l "ac_id a"] by (simp only: if_True conj_absorb simp_thms)
    then have "ac_status b = ACancelled" by (simp add: finished_job_def)
    with b(2) show False by simp
  qed
  then obtain r where r: "start_job ws kind key now l1 = Some (Inr r)"
    by (cases rule: start_cases [OF l1(2), of ws kind key now]) auto
  with joined l1(1) start_wf [OF l1(2) r] show ?thesis by (simp add: start_superseding_def)
next
  case fresh
  then show ?thesis using start_wf [OF wf fresh(1)] by (simp add: start_superseding_def)
next
  case (replaced a l1)
  then show ?thesis using start_wf [OF wf replaced(1)] by (simp add: start_superseding_def)
qed

section \<open>Appending\<close>

lemma descends_same_dir:
  assumes "al_items l1 = map f (al_items l)" and "\<And>a. same_job (f a) a" and "descends l j i"
  shows "descends l1 j i"
  using assms(3)
proof (induction rule: descends.induct)
  case (child p a)
  have "f a \<in> set (al_items l1)" using child(2) assms(1) by simp
  then show ?case using descends.child [of l1 j p "f a"] child assms(2) [of a] by (simp add: same_job_def)
qed (rule descends.self)

lemma descends_parent:
  assumes wf: "log_wf l" and a: "a \<in> set (al_items l)"
  shows "descends l j (ac_id a) \<longleftrightarrow> j = ac_id a \<or> (\<exists>p. ac_parent a = Some p \<and> descends l j p)"
proof
  assume "descends l j (ac_id a)"
  then show "j = ac_id a \<or> (\<exists>p. ac_parent a = Some p \<and> descends l j p)"
  proof (cases rule: descends.cases)
    case (child p b)
    with same_id [OF wf a, of b] show ?thesis by auto
  qed simp
qed (use a descends.self descends.child in metis)

lemma descends_same:
  assumes items: "al_items l1 = map f (al_items l)" and f: "\<And>a. same_job (f a) a"
  shows "descends l1 j i \<longleftrightarrow> descends l j i"
proof
  assume "descends l1 j i"
  then show "descends l j i"
  proof (induction rule: descends.induct)
    case (child p b)
    then obtain a where a: "a \<in> set (al_items l)" "b = f a" using items by auto
    with child f [of a] descends.child [of l j p a] show ?case by (simp add: same_job_def)
  qed (rule descends.self)
qed (rule descends_same_dir [OF assms])

definition appended :: "string \<Rightarrow> activity \<Rightarrow> activity" where
  "appended text a = a\<lparr>ac_log := ac_log a @ text\<rparr>"

lemma same_job_refl: "same_job a a"
  by (simp add: same_job_def)

lemma appended_same: "same_job (appended text a) a" "ac_status (appended text a) = ac_status a"
  "ac_id (appended text a) = ac_id a"
  by (simp_all add: appended_def same_job_def top_key_def)

lemma append_text_items:
  assumes "log_wf l"
  shows "log_wf (append_text i text l)" "al_next_id (append_text i text l) = al_next_id l"
    "al_items (append_text i text l) = map (\<lambda>a. if ac_id a = i then appended text a else a) (al_items l)"
proof -
  show "log_wf (append_text i text l)"
    unfolding append_text_def
  proof (rule change_wf [OF assms], goal_cases)
    case (2 a)
    then show ?case using log_wfD(3) [OF assms 2(1)] by (simp add: job_ok_def)
  qed (simp add: same_job_def top_key_def)
qed (simp_all add: append_text_def change_items [OF assms] appended_def)

lemma card_ids_below:
  assumes "i \<in> ids_of l" "p < i"
  shows "card {j \<in> ids_of l. j \<le> p} < card {j \<in> ids_of l. j \<le> i}"
proof (rule psubset_card_mono)
  show "finite {j \<in> ids_of l. j \<le> i}" by (simp add: ids_of_def)
  have "i \<notin> {j \<in> ids_of l. j \<le> p}" "i \<in> {j \<in> ids_of l. j \<le> i}" using assms by auto
  moreover have "{j \<in> ids_of l. j \<le> p} \<subseteq> {j \<in> ids_of l. j \<le> i}" using assms(2) by auto
  ultimately show "{j \<in> ids_of l. j \<le> p} \<subset> {j \<in> ids_of l. j \<le> i}" by blast
qed

lemma append_up_exact:
  assumes "log_wf l" and "card {j \<in> ids_of l. j \<le> i} < fuel"
  shows "\<exists>l'. append_up fuel (Some i) text l = Some l' \<and> log_wf l' \<and> al_next_id l' = al_next_id l \<and>
    al_items l' = map (\<lambda>a. if descends l (ac_id a) i then appended text a else a) (al_items l)"
  using assms
proof (induction fuel arbitrary: i l)
  case (Suc fuel)
  note wf = Suc.prems(1)
  show ?case
  proof (cases "find_activity l i")
    case None
    then have no: "i \<notin> ids_of l" by (auto simp: find_activity_def find_None_iff ids_of_def)
    have "\<not> descends l (ac_id a) i" if "a \<in> set (al_items l)" for a
      using descends_ids [of l "ac_id a" i] no that by (auto simp: ids_of_def)
    with None wf show ?thesis by (auto intro!: map_idI [symmetric])
  next
    case (Some a)
    then have a: "a \<in> set (al_items l)" "ac_id a = i" using find_activity_Some [OF wf] by auto
    let ?l = "append_text i text l"
    note l1 = append_text_items [OF wf, of i "text"]
    have same: "descends ?l j k \<longleftrightarrow> descends l j k" for j k
      by (rule descends_same [OF l1(3)]) (simp add: appended_same(1) same_job_refl)
    have par: "descends l j i \<longleftrightarrow> j = i \<or> (\<exists>p. ac_parent a = Some p \<and> descends l j p)" for j
      using descends_parent [OF wf a(1)] a(2) by simp
    show ?thesis
    proof (cases "ac_parent a")
      case None
      then show ?thesis using Some l1 par by (cases fuel) auto
    next
      case (Some p)
      have "map ac_id (al_items ?l) = map ac_id (al_items l)"
        unfolding l1(3) by (intro same_ids ballI) (simp add: appended_same(1) same_job_refl)
      then have ids: "ids_of ?l = ids_of l" by (metis ids_of_def set_map)
      have p: "p < i" "i \<in> ids_of l" using parent_below [OF wf a(1) Some] a by (auto simp: ids_of_def)
      have "card {j \<in> ids_of ?l. j \<le> p} < fuel"
        using card_ids_below [OF p(2,1)] Suc.prems(2) ids by simp
      from Suc.IH [OF l1(1) this] obtain l' where l': "append_up fuel (Some p) text ?l = Some l'" "log_wf l'"
          "al_next_id l' = al_next_id ?l"
          "al_items l' = map (\<lambda>a. if descends ?l (ac_id a) p then appended text a else a) (al_items ?l)"
        by auto
      have "\<not> descends l i p" using descends_above [OF wf, of i p] p(1) by auto
      then have "al_items l' = map (\<lambda>a. if descends l (ac_id a) i then appended text a else a) (al_items l)"
        unfolding l'(4) l1(3) map_map comp_def same
        by (intro map_cong refl) (auto simp: par Some appended_same)
      with l' \<open>find_activity l i = Some a\<close> Some l1(2) show ?thesis by simp
    qed
  qed
qed simp

lemma append_exact:
  assumes "log_wf l"
  obtains l' where "append_log i text l = Some l'" "log_wf l'" "al_next_id l' = al_next_id l"
    "al_items l' = map (\<lambda>a. if descends l (ac_id a) i then appended text a else a) (al_items l)"
proof -
  have "card {j \<in> ids_of l. j \<le> i} \<le> card (ids_of l)" by (intro card_mono) (auto simp: ids_of_def)
  also have "\<dots> \<le> length (al_items l)"
    using card_image_le [of "set (al_items l)" ac_id] card_length [of "al_items l"] by (simp add: ids_of_def)
  finally show thesis using append_up_exact [OF assms, of i "length (al_items l) + 1" "text"] that
    by (auto simp: append_log_def)
qed

section \<open>Children\<close>

lemma child_wf:
  assumes wf: "log_wf l"
  shows "log_wf (snd (child_of_kind i kind key now l))"
proof (cases "find_activity l i")
  case (Some a)
  then have "i \<in> ids_of l" using find_activity_Some [OF wf] by (auto simp: ids_of_def)
  with Some push_wf [OF wf, of "Some i"] show ?thesis by (simp add: child_of_kind_def)
qed (simp add: child_of_kind_def wf)

text \<open>The id a child gets is no top-level job's, so it may wait.\<close>

lemma child_is_child:
  assumes wf: "log_wf l" and a: "a \<in> set (al_items (snd (child_of_kind i kind key now l)))"
    and new: "ac_id a = fst (child_of_kind i kind key now l)"
  shows "ac_parent a = Some i"
proof (cases "find_activity l i")
  case None
  then have "a \<in> set (al_items l)" "ac_id a = 0" using a new by (simp_all add: child_of_kind_def DETACHED_def)
  with log_wfD(3) [OF wf, of a] show ?thesis by (simp add: job_ok_def)
next
  case (Some b)
  have "ac_id c \<le> al_next_id l" if "c \<in> set (al_items l)" for c
    using log_wfD(3) [OF wf that] by (simp add: job_ok_def)
  then have "a \<notin> set (al_items l)" using Some new by (fastforce simp: child_of_kind_def push_activity_def Let_def)
  with Some a show ?thesis by (auto simp: child_of_kind_def push_activity_def Let_def)
qed

lemma queued_child_wf:
  assumes wf: "log_wf l"
  shows "log_wf (snd (queued_child_of_kind i kind key now l))"
proof -
  obtain c l1 where c: "child_of_kind i kind key now l = (c, l1)" by fastforce
  have "log_wf l1" using child_wf [OF wf, of i kind key now] c by simp
  moreover have "ac_parent a = Some i" if "a \<in> set (al_items l1)" "ac_id a = c" for a
    using child_is_child [OF wf, of a i kind key now] c that by simp
  ultimately have "log_wf (change_activity c (\<lambda>a. a\<lparr>ac_status := AQueued\<rparr>) l1)"
    by (intro change_wf) (auto simp: same_job_def top_key_def)
  with c show ?thesis by (simp add: queued_child_of_kind_def)
qed

lemma begin_wf:
  assumes "log_wf l"
  shows "log_wf (begin_job i now l)"
  unfolding begin_job_def
proof (rule change_wf [OF assms], goal_cases)
  case (2 a)
  then show ?case using log_wfD(3) [OF assms 2(1)] by (simp add: job_ok_def)
qed (simp add: same_job_def top_key_def)

section \<open>Every operation\<close>

lemma settle_exact:
  assumes "log_wf l"
  shows "\<exists>l'. settle_job i r now l = Some l' \<and> log_wf l' \<and>
     al_items l' = map (\<lambda>a. if descends l i (ac_id a) \<and> is_open (ac_status a)
        then finished_job i (case r of Inr _ \<Rightarrow> ADone | Inl _ \<Rightarrow> AError)
               (case r of Inr _ \<Rightarrow> None | Inl e \<Rightarrow> Some (line_break @ ''error: '' @ e @ line_break)) now a
        else a) (al_items l)"
proof (cases r)
  case (Inl e)
  show ?thesis
    by (rule finish_exact [OF assms, of AError i "Some (line_break @ ''error: '' @ e @ line_break)" now])
      (auto simp: settle_job_def Inl)
next
  case (Inr u)
  show ?thesis
    by (rule finish_exact [OF assms, of ADone i None now]) (auto simp: settle_job_def Inr)
qed

lemma log_step_wf:
  assumes wf: "log_wf l"
  shows "\<exists>l'. log_step (now, op) l = Some l' \<and> log_wf l'"
proof (cases op)
  case (OpStart ws kind key)
  from wf show ?thesis
  proof (cases rule: start_cases [of l ws kind key now])
    case fresh
    with OpStart start_wf [OF wf fresh(1)] show ?thesis by simp
  next
    case (replaced a l1)
    with OpStart start_wf [OF wf replaced(1)] show ?thesis by simp
  qed (use OpStart wf in simp)
next
  case (OpSuperseding ws kind key)
  with superseding_ends [OF wf, of ws kind key now] show ?thesis by auto
next
  case (OpAppend i t)
  show ?thesis by (rule append_exact [OF wf, of i t]) (simp add: OpAppend)
next
  case (OpSettle i r)
  with settle_exact [OF wf, of i r now] show ?thesis by auto
next
  case (OpCancel i why)
  show ?thesis
    by (rule finish_exact [OF wf, of ACancelled i "Some (line_break @ why @ line_break)" now])
      (auto simp: OpCancel cancel_job_def)
qed (simp_all add: child_wf queued_child_wf begin_wf wf)

lemma log_run_wf: "log_wf l \<Longrightarrow> \<exists>l'. log_run ops l = Some l' \<and> log_wf l'"
proof (induction ops arbitrary: l)
  case (Cons x ops)
  obtain now op where x: "x = (now, op)" by (cases x)
  obtain l1 where "log_step x l = Some l1" "log_wf l1" using log_step_wf [OF Cons.prems, of now op] x by auto
  with Cons.IH [of l1] show ?case by simp
qed simp

lemma empty_wf: "log_wf empty_log"
  by (simp add: log_wf_def empty_log_def one_record_per_key_def)



text \<open>What a new top-level job is, when its key has no record.\<close>

lemma find_snoc: "find P (xs @ [x]) = (case find P xs of None \<Rightarrow> if P x then Some x else None | Some y \<Rightarrow> Some y)"
  by (induction xs) auto

lemma next_id_new:
  assumes "log_wf l"
  shows "al_next_id l + 1 \<notin> ids_of l"
proof
  assume "al_next_id l + 1 \<in> ids_of l"
  then obtain a where "a \<in> set (al_items l)" "ac_id a = al_next_id l + 1" by (auto simp: ids_of_def)
  with log_wfD(3) [OF assms, of a] show False by (simp add: job_ok_def)
qed

lemma push_top:
  assumes wf: "log_wf l" and none: "find_top l ws kind key = None"
  shows "fst (push_activity ws None kind key now l) = al_next_id l + 1"
    "al_next_id l + 1 \<notin> ids_of l"
    "map_option ac_id (find_top (snd (push_activity ws None kind key now l)) ws kind key) = Some (al_next_id l + 1)"
    "status_of (snd (push_activity ws None kind key now l)) (al_next_id l + 1) = Some ARunning"
    "length (filter (\<lambda>a. ac_parent a = None \<and> top_key a = (ws, kind, key))
       (al_items (snd (push_activity ws None kind key now l)))) = 1"
    "filter (\<lambda>a. ac_id a \<noteq> al_next_id l + 1) (al_items (snd (push_activity ws None kind key now l))) = al_items l"
proof -
  show new: "al_next_id l + 1 \<notin> ids_of l" by (rule next_id_new [OF wf])
  show "fst (push_activity ws None kind key now l) = al_next_id l + 1" by (simp add: push_activity_def)
  show "map_option ac_id (find_top (snd (push_activity ws None kind key now l)) ws kind key) = Some (al_next_id l + 1)"
    using none by (simp add: find_top_def push_activity_def find_snoc)
  have neq: "ac_id a \<noteq> Suc (al_next_id l)" if "a \<in> set (al_items l)" for a
    using log_wfD(3) [OF wf that] by (simp add: job_ok_def)
  have "find (\<lambda>a. ac_id a = al_next_id l + 1) (al_items l) = None"
    using neq by (auto simp: find_None_iff)
  then show "status_of (snd (push_activity ws None kind key now l)) (al_next_id l + 1) = Some ARunning"
    by (simp add: status_of_def find_activity_def push_activity_def find_snoc)
  have "filter (\<lambda>a. ac_parent a = None \<and> top_key a = (ws, kind, key)) (al_items l) = []"
    using none by (auto simp: find_top_def find_None_iff filter_empty_conv top_key_def)
  then show "length (filter (\<lambda>a. ac_parent a = None \<and> top_key a = (ws, kind, key))
       (al_items (snd (push_activity ws None kind key now l)))) = 1"
    by (simp add: push_activity_def top_key_def)
  show "filter (\<lambda>a. ac_id a \<noteq> al_next_id l + 1) (al_items (snd (push_activity ws None kind key now l))) = al_items l"
    using neq by (simp add: push_activity_def)
qed

end
