(* ===== verification/Run_Activities.thy ===== *)
theory Run_Activities
  imports Activity_Props Workspace_State
begin

text \<open>
  How a run of the Docker effect reports into the activity log (\<open>NodeActivities\<close> in
  \<open>src/effects/docker/converge.rs\<close>): each node it plans or touches is a child of the run's job. The
  node the job itself is for gets lines, not a child.
\<close>

definition kind_of_action :: "pending_action \<Rightarrow> activity_kind" where
  "kind_of_action a = (case a of Starting \<Rightarrow> KStart | Restarting \<Rightarrow> KStart | Stopping \<Rightarrow> KStop | Removing \<Rightarrow> KDelete)"

record node_activities =
  na_job :: nat
  na_own :: "node_id option"
  na_open :: "(node_id, nat) btree"

definition plan_step :: "nat \<Rightarrow> node_id \<times> activity_kind \<Rightarrow> node_activities \<times> activity_log \<Rightarrow> node_activities \<times> activity_log" where
  "plan_step now step acc =
     (case acc of (na, l) \<Rightarrow>
        if na_own na = Some (fst step) \<or> bt_has (na_open na) (fst step) then acc
        else (case queued_child_of_kind (na_job na) (Some (snd step)) (fst step) now l of
                (child, l') \<Rightarrow> (na\<lparr>na_open := bt_insert (fst step) child (na_open na)\<rparr>, l')))"

definition planned :: "nat \<Rightarrow> node_id list \<Rightarrow> node_id list \<Rightarrow> node_activities \<times> activity_log \<Rightarrow> node_activities \<times> activity_log" where
  "planned now start stop acc =
     fold (plan_step now) (map (\<lambda>n. (n, KStart)) start @ map (\<lambda>n. (n, KStop)) stop) acc"

definition newline :: string where "newline = [CHR 0x0A]"

fun working :: "nat \<Rightarrow> node_id \<Rightarrow> pending_action option \<Rightarrow> node_activities \<times> activity_log
    \<Rightarrow> (node_activities \<times> activity_log) option" where
  "working now n (Some a) (na, l) =
     (let line = show_pending_action a @ '' '' @ n @ newline in
      if na_own na = Some n then map_option (Pair na) (append_log (na_job na) line l)
      else (let (child, na', l') =
              (case map_of (na_open na) n of
                 Some child \<Rightarrow> (child, na, l)
               | None \<Rightarrow> (case child_of_kind (na_job na) (Some (kind_of_action a)) n now l of
                           (child, l') \<Rightarrow> (child, na\<lparr>na_open := bt_insert n child (na_open na)\<rparr>, l')))
            in map_option (Pair na') (append_log child line (begin_job child now l'))))"
| "working now n None (na, l) =
     (let line = n @ '' failed'' @ newline in
      case map_of (na_open na) n of
        Some child \<Rightarrow>
          map_option (Pair (na\<lparr>na_open := bt_remove n (na_open na)\<rparr>))
            (Option.bind (append_log child line l) (settle_job child (Inl (''see '' @ n @ [CHR 0x27] @ ''s events'')) now))
      | None \<Rightarrow> map_option (Pair na) (append_log (na_job na) line l))"

definition done_node :: "nat \<Rightarrow> container_info \<Rightarrow> node_activities \<times> activity_log \<Rightarrow> (node_activities \<times> activity_log) option" where
  "done_node now info acc =
     (case acc of (na, l) \<Rightarrow>
       let line = ci_node_id info @ '' '' @ co_status (ci_observed info) @ newline in
       case map_of (na_open na) (ci_node_id info) of
         Some child \<Rightarrow>
           map_option (Pair (na\<lparr>na_open := bt_remove (ci_node_id info) (na_open na)\<rparr>))
             (Option.bind (append_log child line l) (settle_job child (Inr ()) now))
       | None \<Rightarrow> map_option (Pair na) (append_log (na_job na) line l))"

text \<open>The line \<open>finish\<close> settles a step with, if it does.\<close>

definition finish_line :: "container_observed option \<Rightarrow> bool \<Rightarrow> string option" where
  "finish_line r succeeded =
     (case r of
        Some ob \<Rightarrow>
          if co_status ob = ''running'' then Some ''already up to date''
          else if co_exit_code ob = Some 0 then Some ''already done''
          else if succeeded then Some ''nothing to do'' else None
      | None \<Rightarrow> if succeeded then Some ''nothing to do'' else None)"

definition finish_step :: "nat \<Rightarrow> env_state option \<Rightarrow> bool \<Rightarrow> node_id \<times> nat \<Rightarrow> activity_log option \<Rightarrow> activity_log option" where
  "finish_step now env succeeded step lo =
     Option.bind lo (\<lambda>l.
       if status_of l (snd step) \<noteq> Some AQueued then Some l
       else (case finish_line (Option.bind env (\<lambda>e. map_option ci_observed (map_of (es_containers e) (fst step)))) succeeded of
               None \<Rightarrow> Some l
             | Some line \<Rightarrow>
                 Option.bind (append_log (snd step) (fst step @ '': '' @ line @ newline) l)
                   (settle_job (snd step) (Inr ()) now)))"

definition finish_activities :: "nat \<Rightarrow> env_state option \<Rightarrow> bool \<Rightarrow> node_activities \<times> activity_log \<Rightarrow> activity_log option" where
  "finish_activities now env succeeded acc =
     (case acc of (na, l) \<Rightarrow> fold (finish_step now env succeeded) (na_open na) (Some l))"


section \<open>Reports always land\<close>

lemma find_activity_map:
  assumes "\<And>a. ac_id (f a) = ac_id a" and "al_items l' = map f (al_items l)"
  shows "find_activity l' i = map_option f (find_activity l i)"
proof -
  have "find (\<lambda>a. ac_id a = i) (map f as) = map_option f (find (\<lambda>a. ac_id a = i) as)" for as
    by (induction as) (auto simp: assms(1))
  then show ?thesis using assms(2) by (simp add: find_activity_def)
qed

text \<open>The child's line and its settle, together.\<close>

definition close_child :: "nat \<Rightarrow> string \<Rightarrow> string + unit \<Rightarrow> nat \<Rightarrow> activity_log \<Rightarrow> activity_log option" where
  "close_child child line result now l = Option.bind (append_log child line l) (settle_job child result now)"

lemma close_child_exact:
  assumes "log_wf l"
  obtains l' where "close_child child line result now l = Some l'" "log_wf l'"
    "\<And>i. status_of l i \<noteq> Some AQueued \<Longrightarrow> status_of l' i \<noteq> Some AQueued"
    "status_of l' child \<noteq> Some AQueued"
proof -
  obtain l1 where l1: "append_log child line l = Some l1" "log_wf l1"
      "al_items l1 = map (\<lambda>a. if descends l (ac_id a) child then appended line a else a) (al_items l)"
    by (rule append_exact [OF assms])
  let ?f = "\<lambda>a. if descends l1 child (ac_id a) \<and> is_open (ac_status a)
        then finished_job child (case result of Inr _ \<Rightarrow> ADone | Inl _ \<Rightarrow> AError)
               (case result of Inr _ \<Rightarrow> None | Inl e \<Rightarrow> Some (line_break @ ''error: '' @ e @ line_break)) now a else a"
  obtain l2 where l2: "settle_job child result now l1 = Some l2" "log_wf l2" "al_items l2 = map ?f (al_items l1)"
    using settle_exact [OF l1(2), of child result now] by blast
  have ids: "ac_id (?f a) = ac_id a" for a by (simp add: finished_job_def)
  have f2: "find_activity l2 i = map_option ?f (find_activity l1 i)" for i
    by (rule find_activity_map [OF ids l2(3)])
  have f1: "find_activity l1 i = map_option (\<lambda>a. if descends l (ac_id a) child then appended line a else a) (find_activity l i)" for i
    by (rule find_activity_map [OF _ l1(3)]) (simp add: appended_same)
  have not_queued: "ac_status (finished_job child (case result of Inr _ \<Rightarrow> ADone | Inl _ \<Rightarrow> AError) x now a) \<noteq> AQueued" for x a
    by (auto simp: finished_job_def split: sum.split)
  show thesis
  proof (rule that [of l2])
    show "close_child child line result now l = Some l2" using l1(1) l2(1) by (simp add: close_child_def)
    show "log_wf l2" by (rule l2(2))
    show "status_of l2 i \<noteq> Some AQueued" if "status_of l i \<noteq> Some AQueued" for i
      using that not_queued by (auto simp: status_of_def f2 f1 appended_same split: if_splits)
    show "status_of l2 child \<noteq> Some AQueued"
    proof (cases "find_activity l1 child")
      case (Some a)
      then have "ac_id a = child" using find_activity_Some [OF l1(2)] by simp
      then have "descends l1 child (ac_id a)" by (simp add: descends.self)
      then have "ac_status (?f a) \<noteq> AQueued" using not_queued by (auto simp: is_open_def)
      with Some f2 [of child] show ?thesis by (simp add: status_of_def)
    qed (simp add: status_of_def f2)
  qed
qed

lemma plan_step_wf: "log_wf (snd acc) \<Longrightarrow> log_wf (snd (plan_step now step acc))"
proof -
  assume wf: "log_wf (snd acc)"
  obtain na l where acc: "acc = (na, l)" by fastforce
  obtain c l' where "queued_child_of_kind (na_job na) (Some (snd step)) (fst step) now l = (c, l')" by fastforce
  with queued_child_wf [of l "na_job na" "Some (snd step)" "fst step" now] wf acc show ?thesis
    by (simp add: plan_step_def)
qed

lemma planned_wf: "log_wf (snd acc) \<Longrightarrow> log_wf (snd (planned now start stop acc))"
proof -
  have "log_wf (snd acc) \<Longrightarrow> log_wf (snd (fold (plan_step now) steps acc))" for steps
    by (induction steps arbitrary: acc) (simp_all add: plan_step_wf)
  then show "log_wf (snd acc) \<Longrightarrow> log_wf (snd (planned now start stop acc))" by (simp only: planned_def)
qed

lemma append_lands: "log_wf l \<Longrightarrow> \<exists>l'. append_log i line l = Some l' \<and> log_wf l'"
  by (rule append_exact [of l i line]) auto

lemma working_lands:
  assumes wf: "log_wf l"
  shows "\<exists>na' l'. working now n act (na, l) = Some (na', l') \<and> log_wf l'"
proof (cases act)
  case None
  show ?thesis
  proof (cases "map_of (na_open na) n")
    case None
    with \<open>act = None\<close> append_lands [OF wf, of "na_job na" "n @ '' failed'' @ newline"] show ?thesis
      by (auto simp: Let_def)
  next
    case (Some child)
    obtain l' where "close_child child (n @ '' failed'' @ newline) (Inl (''see '' @ n @ [CHR 0x27] @ ''s events'')) now l = Some l'"
        "log_wf l'"
      by (rule close_child_exact [OF wf])
    with Some \<open>act = None\<close> show ?thesis by (simp add: Let_def close_child_def)
  qed
next
  case (Some a)
  show ?thesis
  proof (cases "na_own na = Some n")
    case True
    obtain l' where "append_log (na_job na) (show_pending_action a @ '' '' @ n @ newline) l = Some l'" "log_wf l'"
      using append_lands [OF wf] by blast
    with Some True show ?thesis by (simp add: Let_def)
  next
    case False
    obtain child na' l1 where c: "(case map_of (na_open na) n of
           Some child \<Rightarrow> (child, na, l)
         | None \<Rightarrow> (case child_of_kind (na_job na) (Some (kind_of_action a)) n now l of
                     (child, l') \<Rightarrow> (child, na\<lparr>na_open := bt_insert n child (na_open na)\<rparr>, l'))) = (child, na', l1)"
      by (rule prod_cases3)
    have "log_wf l1"
    proof (cases "map_of (na_open na) n")
      case None
      with c child_wf [OF wf, of "na_job na" "Some (kind_of_action a)" n now] show ?thesis
        by (auto split: prod.splits)
    qed (use c wf in simp)
    then obtain l2 where "append_log child (show_pending_action a @ '' '' @ n @ newline) (begin_job child now l1) = Some l2" "log_wf l2"
      using append_lands [OF begin_wf [of l1 child now], of child "show_pending_action a @ '' '' @ n @ newline"] by auto
    with False Some c show ?thesis by (simp add: Let_def)
  qed
qed

lemma done_lands:
  assumes wf: "log_wf l"
  shows "\<exists>na' l'. done_node now info (na, l) = Some (na', l') \<and> log_wf l'"
proof (cases "map_of (na_open na) (ci_node_id info)")
  case None
  obtain l' where "append_log (na_job na) (ci_node_id info @ '' '' @ co_status (ci_observed info) @ newline) l = Some l'" "log_wf l'"
    using append_lands [OF wf] by blast
  with None show ?thesis by (simp add: done_node_def Let_def)
next
  case (Some child)
  obtain l' where "close_child child (ci_node_id info @ '' '' @ co_status (ci_observed info) @ newline) (Inr ()) now l = Some l'"
      "log_wf l'"
    by (rule close_child_exact [OF wf])
  with Some show ?thesis by (simp add: done_node_def Let_def close_child_def)
qed

section \<open>The end of a run\<close>

lemma finish_step_exact:
  assumes "log_wf l"
  obtains l' where "finish_step now env succeeded step (Some l) = Some l'" "log_wf l'"
    "\<And>i. status_of l i \<noteq> Some AQueued \<Longrightarrow> status_of l' i \<noteq> Some AQueued"
    "succeeded \<Longrightarrow> status_of l' (snd step) \<noteq> Some AQueued"
proof (cases "status_of l (snd step) = Some AQueued")
  case False
  with assms show ?thesis by (intro that [of l]) (simp_all add: finish_step_def)
next
  case True
  let ?line = "finish_line (Option.bind env (\<lambda>e. map_option ci_observed (map_of (es_containers e) (fst step)))) succeeded"
  show ?thesis
  proof (cases ?line)
    case None
    then have "\<not> succeeded" by (auto simp: finish_line_def split: option.splits if_splits)
    with None True assms show ?thesis by (intro that [of l]) (simp_all add: finish_step_def)
  next
    case (Some line)
    obtain l' where c: "close_child (snd step) (fst step @ '': '' @ line @ newline) (Inr ()) now l = Some l'" "log_wf l'"
        "\<And>i. status_of l i \<noteq> Some AQueued \<Longrightarrow> status_of l' i \<noteq> Some AQueued" "status_of l' (snd step) \<noteq> Some AQueued"
      using close_child_exact [OF assms, of "snd step" "fst step @ '': '' @ line @ newline" "Inr ()" now] by blast
    have "finish_step now env succeeded step (Some l) = Some l'"
      using True Some c(1) by (simp add: finish_step_def close_child_def)
    with c show ?thesis by (intro that [of l']) auto
  qed
qed

lemma finish_fold_exact:
  assumes "log_wf l"
  shows "\<exists>l'. fold (finish_step now env succeeded) steps (Some l) = Some l' \<and> log_wf l' \<and>
    (\<forall>i. status_of l i \<noteq> Some AQueued \<longrightarrow> status_of l' i \<noteq> Some AQueued) \<and>
    (succeeded \<longrightarrow> (\<forall>step\<in>set steps. status_of l' (snd step) \<noteq> Some AQueued))"
  using assms
proof (induction steps arbitrary: l)
  case (Cons step steps)
  obtain l1 where l1: "finish_step now env succeeded step (Some l) = Some l1" "log_wf l1"
      "\<And>i. status_of l i \<noteq> Some AQueued \<Longrightarrow> status_of l1 i \<noteq> Some AQueued"
      "succeeded \<Longrightarrow> status_of l1 (snd step) \<noteq> Some AQueued"
    using finish_step_exact [OF Cons.prems, of now env succeeded step] by blast
  obtain l2 where "fold (finish_step now env succeeded) steps (Some l1) = Some l2" "log_wf l2"
      "\<forall>i. status_of l1 i \<noteq> Some AQueued \<longrightarrow> status_of l2 i \<noteq> Some AQueued"
      "succeeded \<longrightarrow> (\<forall>step\<in>set steps. status_of l2 (snd step) \<noteq> Some AQueued)"
    using Cons.IH [OF l1(2)] by blast
  with l1 show ?case by simp
qed simp

end
