(* ===== verification/Activity_Claims.thy ===== *)
theory Activity_Claims
  imports Run_Activities
begin

text \<open>The properties of the activity log, after any sequence of operations.\<close>

lemma run_cases:
  obtains l where "log_run ops empty_log = Some l" "log_wf l"
  using log_run_wf [OF empty_wf, of ops] by auto


text \<open>
  Settling a job closes its whole tree and nothing else: the job itself, if it is still open, gets
  the status of its result (and the error on its own log only), every open job under it is cancelled,
  and every other record, a settled one included, stays as it was.
\<close>

theorem settle_closes_tree:
  "case log_run ops empty_log of None \<Rightarrow> False | Some l \<Rightarrow>
     (case settle_job i r now l of None \<Rightarrow> False | Some l' \<Rightarrow>
        al_items l' = map (\<lambda>a.
          if descends l i (ac_id a) \<and> is_open (ac_status a)
          then (if ac_id a = i
                then (case r of
                        Inr _ \<Rightarrow> a\<lparr>ac_status := ADone, ac_finished_ms := Some now\<rparr>
                      | Inl e \<Rightarrow> a\<lparr>ac_log := ac_log a @ line_break @ ''error: '' @ e @ line_break,
                                  ac_status := AError, ac_finished_ms := Some now\<rparr>)
                else a\<lparr>ac_status := ACancelled, ac_finished_ms := Some now\<rparr>)
          else a) (al_items l) \<and>
        list_all (\<lambda>a. \<not> (descends l i (ac_id a) \<and> is_open (ac_status a))) (al_items l'))"
proof -
  obtain l where l: "log_run ops empty_log = Some l" "log_wf l" by (rule run_cases)
  obtain l' where s: "settle_job i r now l = Some l'" and items: "al_items l' = map (\<lambda>a.
      if descends l i (ac_id a) \<and> is_open (ac_status a)
      then finished_job i (case r of Inr _ \<Rightarrow> ADone | Inl _ \<Rightarrow> AError)
             (case r of Inr _ \<Rightarrow> None | Inl e \<Rightarrow> Some (line_break @ ''error: '' @ e @ line_break)) now a
      else a) (al_items l)"
    using settle_exact [OF l(2), of i r now] by auto
  have fin: "finished_job i (case r of Inr _ \<Rightarrow> ADone | Inl _ \<Rightarrow> AError)
        (case r of Inr _ \<Rightarrow> None | Inl e \<Rightarrow> Some (line_break @ ''error: '' @ e @ line_break)) now a =
      (if ac_id a = i
       then (case r of
               Inr _ \<Rightarrow> a\<lparr>ac_status := ADone, ac_finished_ms := Some now\<rparr>
             | Inl e \<Rightarrow> a\<lparr>ac_log := ac_log a @ line_break @ ''error: '' @ e @ line_break,
                         ac_status := AError, ac_finished_ms := Some now\<rparr>)
       else a\<lparr>ac_status := ACancelled, ac_finished_ms := Some now\<rparr>)" for a
    by (cases r) (simp_all add: finished_job_def)
  have closed: "ac_id (finished_job i st nt now a) = ac_id a \<and> (st = ADone \<or> st = AError \<longrightarrow> \<not> is_open (ac_status (finished_job i st nt now a)))"
    for st nt a by (auto simp: finished_job_def is_open_def)
  have "list_all (\<lambda>a. \<not> (descends l i (ac_id a) \<and> is_open (ac_status a))) (al_items l')"
    unfolding items list.pred_map comp_def using closed by (auto simp: list_all_iff split: sum.splits)
  then show ?thesis using l s items by (simp add: fin)
qed

text \<open>
  Starting a job joins the one with the same workspace, kind and key exactly when that one is
  running. Otherwise it is the one record of its key, running and with a fresh id, a finished
  predecessor is gone with everything under it, and every other record is as it was.
\<close>

theorem start_keeps_one_record:
  "case log_run ops empty_log of None \<Rightarrow> False | Some l \<Rightarrow>
     (case start_job ws kind key now l of
        None \<Rightarrow> False
      | Some (Inl a) \<Rightarrow> find_top l ws kind key = Some a \<and> ac_status a = ARunning
      | Some (Inr (i, l')) \<Rightarrow>
          map_option ac_status (find_top l ws kind key) \<noteq> Some ARunning \<and>
          i \<notin> ids_of l \<and> map_option ac_id (find_top l' ws kind key) = Some i \<and> status_of l' i = Some ARunning \<and>
          length (filter (\<lambda>a. ac_parent a = None \<and> top_key a = (ws, kind, key)) (al_items l')) = 1 \<and>
          filter (\<lambda>a. ac_id a \<noteq> i) (al_items l') =
            filter (\<lambda>a. case find_top l ws kind key of None \<Rightarrow> True | Some p \<Rightarrow> \<not> descends l (ac_id p) (ac_id a)) (al_items l))"
proof -
  obtain l where l: "log_run ops empty_log = Some l" "log_wf l" by (rule run_cases)
  from l(2) show ?thesis
  proof (cases rule: start_cases [of l ws kind key now])
    case (joined a)
    with l(1) show ?thesis by simp
  next
    case fresh
    with l(1) push_top [OF l(2) fresh(2)] show ?thesis
      by (simp add: case_prod_beta)
  next
    case (replaced a l1)
    note new = push_top [OF replaced(4,7)]
    have "al_next_id l1 + 1 \<notin> ids_of l" using next_id_new [OF l(2)] replaced(5) by simp
    with l(1) new replaced show ?thesis by (simp add: case_prod_beta)
  qed
qed
text \<open>
  A run's reports always land, whatever it plans, works on, brings up or fails, and when it has
  succeeded none of its open steps is left waiting: each is settled as up to date, done or nothing to
  do, whatever the state says of its node.
\<close>

theorem finished_run_leaves_no_step_queued:
  "case log_run ops empty_log of None \<Rightarrow> False | Some l \<Rightarrow>
     working now n act (na, l) \<noteq> None \<and> done_node now info (na, l) \<noteq> None \<and>
     log_wf (snd (planned now start stop (na, l))) \<and>
     (case finish_activities now env True (na, l) of
        None \<Rightarrow> False
      | Some l' \<Rightarrow> log_wf l' \<and> list_all (\<lambda>step. status_of l' (snd step) \<noteq> Some AQueued) (na_open na))"
proof -
  obtain l where l: "log_run ops empty_log = Some l" "log_wf l" by (rule run_cases)
  obtain l' where "finish_activities now env True (na, l) = Some l'" "log_wf l'"
      "\<forall>step\<in>set (na_open na). status_of l' (snd step) \<noteq> Some AQueued"
    using finish_fold_exact [OF l(2), of now env True "na_open na"] by (auto simp: finish_activities_def)
  moreover have "working now n act (na, l) \<noteq> None" using working_lands [OF l(2), of now n act na] by auto
  moreover have "done_node now info (na, l) \<noteq> None" using done_lands [OF l(2), of now info na] by auto
  moreover have "log_wf (snd (planned now start stop (na, l)))" using planned_wf [of "(na, l)"] l(2) by simp
  ultimately show ?thesis using l(1) by (simp add: list_all_iff)
qed

end
