(* ===== verification/Words.thy ===== *)
theory Words
  imports Prelude
begin

text \<open>
  Machine words as the source reads and writes them: the bytes of a number in network order, and the bits
  above a mask.
\<close>

unbundle bit_operations_syntax

type_synonym byte = "8 word"

definition from_be16 :: "byte \<Rightarrow> byte \<Rightarrow> 16 word" where
  "from_be16 a b = of_nat (unat a * 256 + unat b)"

definition to_be16 :: "16 word \<Rightarrow> byte list" where
  "to_be16 w = [of_nat (unat w div 256), of_nat (unat w mod 256)]"

definition to_be32 :: "32 word \<Rightarrow> byte list" where
  "to_be32 w = map of_nat [unat w div 16777216, unat w div 65536 mod 256, unat w div 256 mod 256, unat w mod 256]"

lemma unat_byte: "n < 256 \<Longrightarrow> unat (of_nat n :: byte) = n"
  by (simp add: unat_of_nat)

lemma byte_less: "unat (b :: byte) < 256"
  using unsigned_less [of b] by simp

lemma length_be [simp]: "length (to_be16 w) = 2" "length (to_be32 v) = 4"
  by (simp_all add: to_be16_def to_be32_def)

lemma from_to_be16: "from_be16 (to_be16 w ! 0) (to_be16 w ! Suc 0) = w"
proof -
  have "unat w < 65536" using unsigned_less [of w] by simp
  then show ?thesis by (simp add: from_be16_def to_be16_def unat_byte)
qed

lemma to_from_be16: "to_be16 (from_be16 a b) = [a, b]"
proof -
  have "unat a * 256 + unat b < 65536" using byte_less [of a] byte_less [of b] by simp
  then have "unat (of_nat (unat a * 256 + unat b) :: 16 word) = unat a * 256 + unat b"
    by (simp only: unat_of_nat) simp
  then show ?thesis using byte_less [of b] by (simp add: from_be16_def to_be16_def del: of_nat_add of_nat_mult)
qed

lemma and_not_low_bits:
  "b AND NOT (push_bit k 1 - 1) = push_bit k (drop_bit k (b :: 'a::len word))"
  by (rule bit_word_eqI)
    (auto simp: mask_eq_exp_minus_1 [symmetric] push_bit_of_1 bit_and_iff bit_not_iff bit_mask_iff bit_push_bit_iff bit_drop_bit_eq)

lemma unat_and_not_low_bits:
  "unat (b AND NOT (push_bit k 1 - 1)) = unat (b :: 'a::len word) div 2 ^ k * 2 ^ k"
proof -
  have split: "b AND NOT (push_bit k 1 - 1) = b - take_bit k b"
    unfolding and_not_low_bits using bits_ident [of k b] by (metis add_diff_cancel_right')
  have low: "unat (take_bit k b) = unat b mod 2 ^ k" by (simp only: unsigned_take_bit_eq) (simp add: take_bit_eq_mod)
  then have "take_bit k b \<le> b" by (simp add: word_le_nat_alt)
  then have "unat (b - take_bit k b) = unat b - unat b mod 2 ^ k" by (simp add: unat_sub low)
  then show ?thesis unfolding split by (simp add: minus_mod_eq_div_mult)
qed

text \<open>The two top bits of a byte are clear exactly below 64.\<close>

lemma top_bits_clear: "(b :: byte) AND 0xC0 = 0 \<longleftrightarrow> unat b < 64"
proof -
  have mask: "(0xC0 :: byte) = NOT (push_bit 6 1 - 1)" by simp
  have "unat (b AND 0xC0) = unat b div 2 ^ 6 * 2 ^ 6" unfolding mask by (rule unat_and_not_low_bits)
  then have "unat (b AND 0xC0) = unat b div 64 * 64" by simp
  then have "b AND 0xC0 = 0 \<longleftrightarrow> unat b div 64 * 64 = 0" by (simp flip: unat_eq_0)
  then show ?thesis by auto
qed

section \<open>Text\<close>

text \<open>
  Bytes read as text, as Rust's \<open>String::from_utf8_lossy\<close> and \<open>str::from_utf8\<close> do it. A text is the string of
  its bytes.
\<close>

text \<open>
  \<open>String::from_utf8_lossy\<close>: \<open>utf8_span\<close> is the length of the longest prefix that is a character or a truncated
  one, and whether it is a character.
\<close>

definition in_range :: "nat \<Rightarrow> nat \<Rightarrow> byte list \<Rightarrow> nat \<Rightarrow> bool" where
  "in_range lo hi bs i = (i < length bs \<and> lo \<le> unat (bs ! i) \<and> unat (bs ! i) \<le> hi)"

definition utf8_span :: "byte list \<Rightarrow> nat \<times> bool" where
  "utf8_span bs =
     (let b = unat (bs ! 0);
          tail = in_range 0x80 0xBF bs;
          third = (\<lambda>lo hi. if \<not> in_range lo hi bs 1 then (1, False) else if \<not> tail 2 then (2, False) else (3, True));
          fourth = (\<lambda>lo hi. if \<not> in_range lo hi bs 1 then (1, False) else if \<not> tail 2 then (2, False)
                       else if \<not> tail 3 then (3, False) else (4, True))
      in if b < 0x80 then (1, True)
         else if 0xC2 \<le> b \<and> b \<le> 0xDF then (if tail 1 then (2, True) else (1, False))
         else if b = 0xE0 then third 0xA0 0xBF
         else if b = 0xED then third 0x80 0x9F
         else if 0xE1 \<le> b \<and> b \<le> 0xEF then third 0x80 0xBF
         else if b = 0xF0 then fourth 0x90 0xBF
         else if 0xF1 \<le> b \<and> b \<le> 0xF3 then fourth 0x80 0xBF
         else if b = 0xF4 then fourth 0x80 0x8F
         else (1, False))"

definition byte_char :: "byte \<Rightarrow> char" where
  "byte_char b = char_of (unat b)"

definition REPLACEMENT :: string where
  "REPLACEMENT = [CHR 0xEF, CHR 0xBF, CHR 0xBD]"

lemma utf8_span_pos: "0 < fst (utf8_span bs)"
  by (simp add: utf8_span_def Let_def)

function from_utf8_lossy :: "byte list \<Rightarrow> string" where
  "from_utf8_lossy bs =
     (if bs = [] then []
      else case utf8_span bs of (k, ok) \<Rightarrow>
        (if ok then map byte_char (take k bs) else REPLACEMENT) @ from_utf8_lossy (drop k bs))"
  by auto

termination
proof (relation "measure length", goal_cases)
  case (2 bs k ok)
  then have "0 < k" using utf8_span_pos [of bs] by (metis fst_conv)
  with 2 show ?case by simp
qed simp

declare from_utf8_lossy.simps [simp del]

text \<open>
  \<open>str::from_utf8\<close>: the length of the longest valid prefix (\<open>valid_up_to\<close>), and whether what follows it is the
  start of a character that the input cuts off (\<open>error_len\<close> is \<open>None\<close>).
\<close>

function valid_up_to :: "byte list \<Rightarrow> nat" where
  "valid_up_to bs =
     (if bs = [] then 0
      else case utf8_span bs of (k, ok) \<Rightarrow> if ok then k + valid_up_to (drop k bs) else 0)"
  by auto

termination
proof (relation "measure length", goal_cases)
  case (2 bs k ok)
  then have "0 < k" using utf8_span_pos [of bs] by (metis fst_conv)
  with 2 show ?case by simp
qed simp

declare valid_up_to.simps [simp del]

definition cut_character :: "byte list \<Rightarrow> bool" where
  "cut_character bs =
     (bs \<noteq> [] \<and> 0xC2 \<le> unat (bs ! 0) \<and> unat (bs ! 0) \<le> 0xF4 \<and> utf8_span bs = (length bs, False))"

definition from_utf8 :: "byte list \<Rightarrow> string option" where
  "from_utf8 bs = (if valid_up_to bs = length bs then Some (map byte_char bs) else None)"

end
