(* ===== verification/Traffic_Body.thy ===== *)
theory Traffic_Body
  imports Words Rust_Strings
begin

text \<open>
  The captured side of an exchange (\<open>src/web/traffic.rs\<close>): which bodies are kept, what is kept of one, and how it
  is read as text, decoded or taken apart. Headers come as the pairs of the header map, in its order; reading a
  header value as text (\<open>HeaderValue::to_str\<close>) and inflating a body are parameters of the http and compression
  libraries.
\<close>

section \<open>Constants and kinds\<close>

definition MAX_EXCHANGES :: nat where "MAX_EXCHANGES = 1000"
definition NODE_BUDGET :: nat where "NODE_BUDGET = 64 * 2 ^ 20"
definition GLOBAL_BUDGET :: nat where "GLOBAL_BUDGET = 128 * 2 ^ 20"
definition BODY_CAP :: nat where "BODY_CAP = 8 * 2 ^ 20"
definition DECODED_CAP :: nat where "DECODED_CAP = 32 * 2 ^ 20"

datatype body_mode = ModeNone | ModeText | ModeAll

datatype omitted = HeadersOnly | OmittedBinary

datatype keep = KeepFull | KeepSniff | KeepDrop omitted

datatype body_state = BodyPending | BodyStreaming | BodyDone | BodyAborted | BodyError

type_synonym header_pairs = "(string \<times> byte list) list"

section \<open>Classification by content type\<close>

definition essence :: "string \<Rightarrow> string" where
  "essence content_type = to_lowercase (trim (hd (split_char content_type (CHR '';''))))"

definition type_and_sub :: "string \<Rightarrow> string \<times> string" where
  "type_and_sub ct = (case split_once ct (CHR ''/'') of Some p \<Rightarrow> p | None \<Rightarrow> (ct, []))"

definition is_textual :: "string \<Rightarrow> bool" where
  "is_textual ct =
     (let (ty, sub) = type_and_sub ct in
      ty = ''text'' \<or>
      sub \<in> {''json'', ''x-ndjson'', ''xml'', ''x-www-form-urlencoded'', ''javascript'', ''x-javascript'',
             ''ecmascript'', ''graphql'', ''problem+json''} \<or>
      ends_with sub ''+json'' \<or> ends_with sub ''+xml'')"

definition is_binary :: "string \<Rightarrow> bool" where
  "is_binary ct =
     (let (ty, sub) = type_and_sub ct in
      ty \<in> {''image'', ''video'', ''audio'', ''font''} \<or>
      sub \<in> {''octet-stream'', ''zip'', ''gzip'', ''x-tar'', ''pdf'', ''wasm'', ''x-protobuf'', ''protobuf'', ''grpc'',
             ''vnd.ms-fontobject''})"

definition classify :: "body_mode \<Rightarrow> string option \<Rightarrow> keep" where
  "classify mode content_type =
     (case mode of
        ModeNone \<Rightarrow> KeepDrop HeadersOnly
      | ModeAll \<Rightarrow> KeepFull
      | ModeText \<Rightarrow>
          (case map_option essence content_type of
             None \<Rightarrow> KeepSniff
           | Some ct \<Rightarrow>
               if ct = [] then KeepSniff
               else if is_textual ct \<or> starts_with ct ''multipart/'' then KeepFull
               else if is_binary ct then KeepDrop OmittedBinary
               else KeepSniff))"

section \<open>Text\<close>

definition text_of :: "byte list \<Rightarrow> string option" where
  "text_of bs =
     (let n = valid_up_to bs in
      if n = length bs \<or> cut_character (drop n bs)
      then (let t = map byte_char (take n bs) in if CHR 0x00 \<in> set t then None else Some t)
      else None)"

definition looks_like_text :: "byte list \<Rightarrow> bool" where
  "looks_like_text bs = (text_of bs \<noteq> None)"

section \<open>Decoding\<close>

datatype codec = Gzip | Deflate | Brotli

text \<open>
  Reading from a decoder until it ends, fails or has given \<open>DECODED_CAP\<close> bytes: the bytes it gave and, when it
  failed, its message. The decoders are a parameter.
\<close>

type_synonym inflater = "codec \<Rightarrow> byte list \<Rightarrow> byte list \<times> string option"

record decoded =
  dc_bytes :: "byte list"
  dc_error :: "string option"

definition codec_of :: "string \<Rightarrow> codec option" where
  "codec_of e =
     (if e = ''gzip'' \<or> e = ''x-gzip'' then Some Gzip
      else if e = ''deflate'' then Some Deflate
      else if e = ''br'' then Some Brotli
      else None)"

definition decode_body :: "inflater \<Rightarrow> byte list \<Rightarrow> string option \<Rightarrow> decoded" where
  "decode_body inflate data encoding =
     (case map_option to_lowercase encoding of
        None \<Rightarrow> \<lparr>dc_bytes = data, dc_error = None\<rparr>
      | Some other \<Rightarrow>
          (case codec_of other of
             None \<Rightarrow> \<lparr>dc_bytes = data, dc_error = Some (other @ '' isn'' @ [CHR 0x27] @ ''t decoded; showing it as sent'')\<rparr>
           | Some codec \<Rightarrow>
               (let (bytes, failed) = inflate codec data in
                \<lparr>dc_bytes = bytes,
                 dc_error =
                   (case failed of
                      None \<Rightarrow>
                        if DECODED_CAP \<le> length bytes
                        then Some (''decoded body cut at '' @ show_nat (DECODED_CAP div 2 ^ 20) @ '' MiB'') else None
                    | Some e \<Rightarrow> if bytes \<noteq> [] then None else Some (''couldn'' @ [CHR 0x27] @ ''t decode '' @ the encoding @ '': '' @ e))\<rparr>)))"

section \<open>Multipart bodies\<close>

record part =
  pt_name :: "string option"
  pt_filename :: "string option"
  pt_content_type :: "string option"
  pt_size :: nat
  pt_text :: "string option"

definition part_weight :: "part \<Rightarrow> nat" where
  "part_weight p = (case pt_text p of None \<Rightarrow> 0 | Some t \<Rightarrow> length t) + 64"

definition trim_quotes :: "string \<Rightarrow> string" where
  "trim_quotes s = trim_matches s (\<lambda>c. c = CHR 0x22)"

definition boundary_param :: "string \<Rightarrow> string option" where
  "boundary_param param =
     (case split_once param (CHR ''='') of
        None \<Rightarrow> None
      | Some (k, v) \<Rightarrow>
          if to_lowercase (trim k) = ''boundary'' then Some (trim_quotes (trim v)) else None)"

definition multipart_boundary :: "string \<Rightarrow> string option" where
  "multipart_boundary content_type =
     (if \<not> starts_with (essence content_type) ''multipart/'' then None
      else find_map boundary_param (drop 1 (split_char content_type (CHR '';''))))"

text \<open>The first window of the haystack that is the needle. \<open>windows\<close> panics on an empty needle; none is empty.\<close>

fun find_bytes :: "byte list \<Rightarrow> byte list \<Rightarrow> nat option" where
  "find_bytes [] needle = None"
| "find_bytes (b # bs) needle =
     (if take (length needle) (b # bs) = needle then Some 0 else map_option Suc (find_bytes bs needle))"

lemma find_bytes_bound: "find_bytes h n = Some i \<Longrightarrow> i < length h"
  by (induction h arbitrary: i) (auto split: if_splits)

function split_bytes :: "byte list \<Rightarrow> byte list \<Rightarrow> byte list list" where
  "split_bytes body delimiter =
     (case find_bytes body delimiter of
        None \<Rightarrow> [body]
      | Some at \<Rightarrow>
          if delimiter = [] then [body]
          else take at body # split_bytes (drop (at + length delimiter) body) delimiter)"
  by auto

termination
proof (relation "measure (\<lambda>(body, delimiter). length body)", goal_cases)
  case (2 body delimiter at)
  from find_bytes_bound [OF 2(1)] 2(2) show ?case by (cases delimiter) auto
qed simp

declare split_bytes.simps [simp del]

definition CRLF :: "byte list" where "CRLF = [0x0D, 0x0A]"
definition DASHES :: "byte list" where "DASHES = [0x2D, 0x2D]"

definition bytes_start :: "byte list \<Rightarrow> byte list \<Rightarrow> bool" where
  "bytes_start bs p = (take (length p) bs = p)"

definition bytes_end :: "byte list \<Rightarrow> byte list \<Rightarrow> bool" where
  "bytes_end bs p = (length p \<le> length bs \<and> drop (length bs - length p) bs = p)"

definition string_bytes :: "string \<Rightarrow> byte list" where
  "string_bytes s = map (\<lambda>c. of_nat (of_char c)) s"

definition disposition_param :: "string \<Rightarrow> part \<Rightarrow> part" where
  "disposition_param param p =
     (case split_once param (CHR ''='') of
        None \<Rightarrow> p
      | Some (pk, pv) \<Rightarrow>
          (let v = trim_quotes (trim pv) in
           if trim pk = ''name'' then p\<lparr>pt_name := Some v\<rparr>
           else if trim pk = ''filename'' then p\<lparr>pt_filename := Some v\<rparr>
           else p))"

definition part_header :: "string \<Rightarrow> part \<Rightarrow> part" where
  "part_header line p =
     (case split_once line (CHR '':'') of
        None \<Rightarrow> p
      | Some (k, v) \<Rightarrow>
          if to_lowercase (trim k) = ''content-type'' then p\<lparr>pt_content_type := Some (trim v)\<rparr>
          else if to_lowercase (trim k) = ''content-disposition''
          then fold disposition_param (drop 1 (split_char v (CHR '';''))) p
          else p)"

definition is_file_part :: "part \<Rightarrow> bool" where
  "is_file_part p =
     (pt_filename p \<noteq> None \<or> (case pt_content_type p of None \<Rightarrow> False | Some ct \<Rightarrow> \<not> is_textual (essence ct)))"

definition read_part :: "bool \<Rightarrow> byte list \<Rightarrow> part option" where
  "read_part keep_files chunk =
     (let chunk = (if bytes_start chunk CRLF then drop 2 chunk else chunk);
          chunk = (if bytes_end chunk CRLF then take (length chunk - 2) chunk else chunk)
      in case find_bytes chunk (CRLF @ CRLF) of
           None \<Rightarrow> None
         | Some at \<Rightarrow>
             (let content = drop (at + 4) chunk;
                  p = fold part_header (lines (from_utf8_lossy (take at chunk)))
                    \<lparr>pt_name = None, pt_filename = None, pt_content_type = None, pt_size = length content, pt_text = None\<rparr>
              in Some (if \<not> is_file_part p \<or> keep_files then p\<lparr>pt_text := text_of content\<rparr> else p)))"

definition parse_multipart :: "byte list \<Rightarrow> string \<Rightarrow> bool \<Rightarrow> part list" where
  "parse_multipart body boundary keep_files =
     filter_map (read_part keep_files)
       (takeWhile (\<lambda>chunk. \<not> bytes_start chunk DASHES) (drop 1 (split_bytes body (DASHES @ string_bytes boundary))))"

section \<open>What is captured of a body\<close>

record captured =
  cp_keep :: keep
  cp_data :: "byte list"
  cp_size :: nat
  cp_truncated :: bool
  cp_state :: body_state
  cp_content_type :: "string option"
  cp_content_encoding :: "string option"
  cp_parts :: "part list"

definition header_str :: "(byte list \<Rightarrow> string option) \<Rightarrow> header_pairs \<Rightarrow> string \<Rightarrow> string option" where
  "header_str to_str headers name =
     (case map_of headers name of
        None \<Rightarrow> None
      | Some v \<Rightarrow> map_option trim (to_str v))"

definition new_captured :: "(byte list \<Rightarrow> string option) \<Rightarrow> body_mode \<Rightarrow> header_pairs \<Rightarrow> captured" where
  "new_captured to_str mode headers =
     (let content_type = header_str to_str headers ''content-type'';
          content_encoding = (case header_str to_str headers ''content-encoding'' of
              Some e \<Rightarrow> if to_lowercase e = ''identity'' then None else Some e
            | None \<Rightarrow> None)
      in \<lparr>cp_keep = classify mode content_type, cp_data = [], cp_size = 0, cp_truncated = False,
          cp_state = BodyPending, cp_content_type = content_type, cp_content_encoding = content_encoding, cp_parts = []\<rparr>)"

definition pending_captured :: captured where
  "pending_captured = new_captured (\<lambda>_. None) ModeNone []"

definition is_dropped :: "keep \<Rightarrow> bool" where
  "is_dropped k = (case k of KeepDrop _ \<Rightarrow> True | _ \<Rightarrow> False)"

definition push_chunk :: "byte list \<Rightarrow> captured \<Rightarrow> captured" where
  "push_chunk chunk c =
     (let c = c\<lparr>cp_state := BodyStreaming, cp_size := cp_size c + length chunk\<rparr> in
      if is_dropped (cp_keep c) then c
      else let room = BODY_CAP - length (cp_data c);
               c = (if room < length chunk then c\<lparr>cp_truncated := True\<rparr> else c)
           in c\<lparr>cp_data := cp_data c @ take (min (length chunk) room) chunk\<rparr>)"

definition decoded_body :: "inflater \<Rightarrow> captured \<Rightarrow> decoded" where
  "decoded_body inflate c = decode_body inflate (cp_data c) (cp_content_encoding c)"

definition finish_captured :: "inflater \<Rightarrow> body_state \<Rightarrow> body_mode \<Rightarrow> captured \<Rightarrow> captured" where
  "finish_captured inflate state mode c =
     (let c = c\<lparr>cp_state := state\<rparr>;
          c = (if cp_keep c = KeepSniff \<and> \<not> looks_like_text (dc_bytes (decoded_body inflate c))
               then c\<lparr>cp_keep := KeepDrop OmittedBinary, cp_data := []\<rparr> else c)
      in if mode = ModeText \<and> cp_content_encoding c = None
         then (case Option.bind (cp_content_type c) multipart_boundary of
                 None \<Rightarrow> c
               | Some boundary \<Rightarrow>
                   (let parts = parse_multipart (cp_data c) boundary False in
                    if parts = [] then c\<lparr>cp_parts := parts\<rparr> else c\<lparr>cp_parts := parts, cp_data := []\<rparr>))
         else c)"

text \<open>The body as the UI shows it, and as it is downloaded.\<close>

record body_view =
  bv_size :: nat
  bv_content_type :: "string option"
  bv_content_encoding :: "string option"
  bv_state :: body_state
  bv_truncated :: bool
  bv_omitted :: "omitted option"
  bv_text :: "string option"
  bv_binary :: bool
  bv_decode_error :: "string option"
  bv_parts :: "part list option"

definition captured_view :: "inflater \<Rightarrow> captured \<Rightarrow> body_view" where
  "captured_view inflate c =
     (let omitted = (case cp_keep c of KeepDrop why \<Rightarrow> Some why | _ \<Rightarrow> None);
          view = \<lparr>bv_size = cp_size c, bv_content_type = cp_content_type c, bv_content_encoding = cp_content_encoding c,
                  bv_state = cp_state c, bv_truncated = cp_truncated c, bv_omitted = omitted, bv_text = None,
                  bv_binary = False, bv_decode_error = None,
                  bv_parts = (if cp_parts c = [] then None else Some (cp_parts c))\<rparr>
      in if omitted \<noteq> None \<or> cp_data c = [] then view
         else let decoded = decoded_body inflate c;
                  view = view\<lparr>bv_decode_error := dc_error decoded\<rparr>;
                  parts = (case Option.bind (cp_content_type c) multipart_boundary of
                     None \<Rightarrow> [] | Some boundary \<Rightarrow> parse_multipart (dc_bytes decoded) boundary True)
              in if parts \<noteq> [] then view\<lparr>bv_parts := Some parts\<rparr>
                 else (case text_of (dc_bytes decoded) of
                         Some text \<Rightarrow> view\<lparr>bv_text := Some text\<rparr>
                       | None \<Rightarrow> view\<lparr>bv_binary := True\<rparr>))"

definition captured_body :: "inflater \<Rightarrow> captured \<Rightarrow> (byte list \<times> string option) option" where
  "captured_body inflate c =
     (if is_dropped (cp_keep c) \<or> cp_data c = [] then None
      else Some (dc_bytes (decoded_body inflate c), cp_content_type c))"

end
