(* ===== verification/Traffic.thy ===== *)
theory Traffic
  imports Traffic_Body
begin

text \<open>
  The traffic logs (\<open>src/web/traffic.rs\<close>): exchanges, the ring of each node with its budgets, the recording of a
  request, and the bodies that are tapped on their way.

  An \<open>Arc<Exchange>\<close> is shared by its ring and by the request that is still being recorded: the log keeps every
  exchange it made under its id, the ring is the list of the ids that are in it, oldest first, and an evicted
  exchange stays under its id. \<open>total\<close>, the feed and the notification are shared by all logs. A call that takes
  the locks is one step; durations are kept in the clock's unit; \<open>HashMap\<close>s are read in the order of their keys.
\<close>

section \<open>Exchanges\<close>

record exchange_data =
  xd_started_at_ms :: nat
  xd_started :: nat
  xd_mode :: body_mode
  xd_method :: string
  xd_url :: string
  xd_host :: string
  xd_scheme :: string
  xd_source :: string
  xd_request_headers :: "(string \<times> string) list"
  xd_response_headers :: "(string \<times> string) list"
  xd_status :: "nat option"
  xd_ttfb :: "nat option"
  xd_duration :: "nat option"
  xd_error :: "string option"
  xd_upgraded :: bool
  xd_request :: captured
  xd_response :: captured
  xd_accounted :: nat
  xd_in_ring :: bool

record exchange =
  ex_id :: nat
  ex_remote :: "(nat \<times> nat) option"
  ex_data :: exchange_data

record shipped =
  sp_node :: string
  sp_id :: nat
  sp_data :: exchange_data

datatype side = RequestSide | ResponseSide

definition headers_weight :: "(string \<times> string) list \<Rightarrow> nat" where
  "headers_weight hs = sum_list (map (\<lambda>(k, v). length k + length v + 4) hs)"

definition header_list :: "header_pairs \<Rightarrow> (string \<times> string) list" where
  "header_list hs = map (\<lambda>(k, v). (k, from_utf8_lossy v)) hs"

definition data_weight :: "exchange_data \<Rightarrow> nat" where
  "data_weight d =
     headers_weight (xd_request_headers d) + headers_weight (xd_response_headers d) +
     length (cp_data (xd_request d)) + length (cp_data (xd_response d)) +
     sum_list (map part_weight (cp_parts (xd_request d))) + sum_list (map part_weight (cp_parts (xd_response d)))"

definition elapsed :: "nat \<Rightarrow> exchange_data \<Rightarrow> nat" where
  "elapsed now d = now - xd_started d"

definition data_state :: "exchange_data \<Rightarrow> string" where
  "data_state d =
     (if xd_error d \<noteq> None then ''error''
      else if xd_status d = None then ''pending''
      else if xd_upgraded d then (if xd_duration d \<noteq> None then ''closed'' else ''open'')
      else case cp_state (xd_response d) of
          BodyDone \<Rightarrow> ''done''
        | BodyAborted \<Rightarrow> ''aborted''
        | BodyError \<Rightarrow> ''error''
        | BodyPending \<Rightarrow> ''streaming''
        | BodyStreaming \<Rightarrow> ''streaming'')"

record summary =
  su_id :: nat
  su_started_at_ms :: nat
  su_method :: string
  su_url :: string
  su_host :: string
  su_source :: string
  su_status :: "nat option"
  su_state :: string
  su_upgraded :: bool
  su_content_type :: "string option"
  su_request_size :: nat
  su_response_size :: nat
  su_duration :: "nat option"
  su_error :: "string option"

definition summary_of :: "exchange \<Rightarrow> summary" where
  "summary_of ex =
     (let d = ex_data ex in
      \<lparr>su_id = ex_id ex, su_started_at_ms = xd_started_at_ms d, su_method = xd_method d, su_url = xd_url d,
       su_host = xd_host d, su_source = xd_source d, su_status = xd_status d, su_state = data_state d,
       su_upgraded = xd_upgraded d, su_content_type = cp_content_type (xd_response d),
       su_request_size = cp_size (xd_request d), su_response_size = cp_size (xd_response d),
       su_duration = xd_duration d, su_error = xd_error d\<rparr>)"

record side_view =
  sv_headers :: "(string \<times> string) list"
  sv_body :: body_view

record detail =
  de_summary :: summary
  de_scheme :: string
  de_mode :: body_mode
  de_ttfb :: "nat option"
  de_request :: side_view
  de_response :: side_view

definition detail_of :: "inflater \<Rightarrow> exchange \<Rightarrow> detail" where
  "detail_of inflate ex =
     (let d = ex_data ex in
      \<lparr>de_summary = summary_of ex, de_scheme = xd_scheme d, de_mode = xd_mode d, de_ttfb = xd_ttfb d,
       de_request = \<lparr>sv_headers = xd_request_headers d, sv_body = captured_view inflate (xd_request d)\<rparr>,
       de_response = \<lparr>sv_headers = xd_response_headers d, sv_body = captured_view inflate (xd_response d)\<rparr>\<rparr>)"

definition side_of :: "side \<Rightarrow> exchange_data \<Rightarrow> captured" where
  "side_of sd d = (case sd of RequestSide \<Rightarrow> xd_request d | ResponseSide \<Rightarrow> xd_response d)"

definition exchange_body :: "inflater \<Rightarrow> side \<Rightarrow> exchange \<Rightarrow> (byte list \<times> string option) option" where
  "exchange_body inflate sd ex = captured_body inflate (side_of sd (ex_data ex))"

text \<open>
  What arrives of an exchange that was shipped: its fields, less those that are not sent. The start of the clock
  is then the moment it was read.
\<close>

definition ship :: "nat \<Rightarrow> string \<Rightarrow> exchange \<Rightarrow> shipped" where
  "ship read_at node ex =
     \<lparr>sp_node = node, sp_id = ex_id ex,
      sp_data = (ex_data ex)\<lparr>xd_started := read_at, xd_accounted := 0, xd_in_ring := False\<rparr>\<rparr>"

section \<open>A log\<close>

datatype traffic_update = Upsert summary | ModeUpdate "body_mode option" | Cleared

record traffic_log =
  tl_node :: string
  tl_mode :: "body_mode option"
  tl_entries :: "nat list"
  tl_bytes :: nat
  tl_next_id :: nat
  tl_cleared_at_ms :: nat
  tl_updates :: "traffic_update list"
  tl_exchanges :: "nat \<Rightarrow> exchange option"

record traffic_shared =
  sh_total :: nat
  sh_subscribed :: bool
  sh_feed :: "(string \<times> nat) list"
  sh_modes_changed :: bool

type_synonym log_state = "traffic_log \<times> traffic_shared"

definition new_log :: "string \<Rightarrow> traffic_log" where
  "new_log node =
     \<lparr>tl_node = node, tl_mode = None, tl_entries = [], tl_bytes = 0, tl_next_id = 1, tl_cleared_at_ms = 0,
      tl_updates = [], tl_exchanges = (\<lambda>_. None)\<rparr>"

definition change_data :: "nat \<Rightarrow> (exchange_data \<Rightarrow> exchange_data) \<Rightarrow> traffic_log \<Rightarrow> traffic_log" where
  "change_data i f l =
     l\<lparr>tl_exchanges := (tl_exchanges l)(i := map_option (\<lambda>ex. ex\<lparr>ex_data := f (ex_data ex)\<rparr>) (tl_exchanges l i))\<rparr>"

definition accounted_in :: "traffic_log \<Rightarrow> nat \<Rightarrow> nat" where
  "accounted_in l i = (case tl_exchanges l i of Some ex \<Rightarrow> xd_accounted (ex_data ex) | None \<Rightarrow> 0)"

definition set_mode :: "body_mode option \<Rightarrow> log_state \<Rightarrow> log_state" where
  "set_mode m st =
     ((fst st)\<lparr>tl_mode := m, tl_updates := tl_updates (fst st) @ [ModeUpdate m]\<rparr>, (snd st)\<lparr>sh_modes_changed := True\<rparr>)"

definition clear_log :: "nat \<Rightarrow> log_state \<Rightarrow> log_state" where
  "clear_log now_ms st =
     (let (l, sh) = st;
          out = fold (\<lambda>i. change_data i (\<lambda>d. d\<lparr>xd_in_ring := False\<rparr>)) (tl_entries l) l
      in (out\<lparr>tl_entries := [], tl_bytes := 0, tl_cleared_at_ms := now_ms, tl_updates := tl_updates l @ [Cleared]\<rparr>,
          sh\<lparr>sh_total := sh_total sh - tl_bytes l\<rparr>))"

definition over_budget :: "nat \<Rightarrow> log_state \<Rightarrow> bool" where
  "over_budget len st =
     (MAX_EXCHANGES < len \<or> NODE_BUDGET < tl_bytes (fst st) \<or> GLOBAL_BUDGET < sh_total (snd st))"

fun evict_entries :: "nat list \<Rightarrow> log_state \<Rightarrow> log_state" where
  "evict_entries (old # newer # rest) (l, sh) =
     (if over_budget (length (old # newer # rest)) (l, sh)
      then let a = accounted_in l old in
           evict_entries (newer # rest)
             ((change_data old (\<lambda>d. d\<lparr>xd_in_ring := False\<rparr>) l)\<lparr>tl_bytes := tl_bytes l - a\<rparr>, sh\<lparr>sh_total := sh_total sh - a\<rparr>)
      else (l\<lparr>tl_entries := old # newer # rest\<rparr>, sh))"
| "evict_entries entries (l, sh) = (l\<lparr>tl_entries := entries\<rparr>, sh)"

definition evict :: "log_state \<Rightarrow> log_state" where
  "evict st = evict_entries (tl_entries (fst st)) st"

definition push_exchange :: "exchange_data \<Rightarrow> (nat \<times> nat) option \<Rightarrow> log_state \<Rightarrow> nat \<times> log_state" where
  "push_exchange d remote st =
     (let (l, sh) = st; i = tl_next_id l; weight = xd_accounted d in
      (i, evict
        (l\<lparr>tl_next_id := i + 1, tl_exchanges := (tl_exchanges l)(i := Some \<lparr>ex_id = i, ex_remote = remote, ex_data = d\<rparr>),
           tl_bytes := tl_bytes l + weight, tl_entries := tl_entries l @ [i]\<rparr>,
         sh\<lparr>sh_total := sh_total sh + weight\<rparr>)))"

definition publish :: "nat \<Rightarrow> log_state \<Rightarrow> log_state" where
  "publish i st =
     (case tl_exchanges (fst st) i of
        None \<Rightarrow> st
      | Some ex \<Rightarrow>
          ((fst st)\<lparr>tl_updates := tl_updates (fst st) @ [Upsert (summary_of ex)]\<rparr>,
           (snd st)\<lparr>sh_feed := sh_feed (snd st) @ (if sh_subscribed (snd st) then [(tl_node (fst st), i)] else [])\<rparr>))"

definition recount :: "nat \<Rightarrow> nat \<Rightarrow> nat \<Rightarrow> log_state \<Rightarrow> log_state" where
  "recount i old new st =
     ((fst st)\<lparr>tl_bytes := tl_bytes (fst st) + new - old\<rparr>, (snd st)\<lparr>sh_total := sh_total (snd st) + new - old\<rparr>)"

definition account :: "nat \<Rightarrow> log_state \<Rightarrow> log_state" where
  "account i st =
     (case tl_exchanges (fst st) i of
        None \<Rightarrow> st
      | Some ex \<Rightarrow>
          (let d = ex_data ex; weight = data_weight d in
           if \<not> xd_in_ring d then st
           else let counted = recount i (xd_accounted d) weight st in
                evict (change_data i (\<lambda>d. d\<lparr>xd_accounted := weight\<rparr>) (fst counted), snd counted)))"

definition summaries :: "traffic_log \<Rightarrow> summary list" where
  "summaries l = map summary_of (filter_map (tl_exchanges l) (tl_entries l))"

definition get_exchange :: "nat \<Rightarrow> traffic_log \<Rightarrow> exchange option" where
  "get_exchange i l = (if i \<in> set (tl_entries l) then tl_exchanges l i else None)"

section \<open>Exchanges of another proxy\<close>

definition known_remote :: "(nat \<times> nat) \<Rightarrow> traffic_log \<Rightarrow> nat option" where
  "known_remote key l =
     find (\<lambda>i. case tl_exchanges l i of Some ex \<Rightarrow> ex_remote ex = Some key | None \<Rightarrow> False) (rev (tl_entries l))"

definition ingest :: "nat \<Rightarrow> shipped \<Rightarrow> log_state \<Rightarrow> log_state" where
  "ingest origin sp st =
     (if tl_mode (fst st) = None then st
      else let key = (origin, sp_id sp);
               d = (sp_data sp)\<lparr>xd_in_ring := True\<rparr>;
               d = d\<lparr>xd_accounted := data_weight d\<rparr>
           in case known_remote key (fst st) of
                Some i \<Rightarrow>
                  (let counted = recount i (accounted_in (fst st) i) (xd_accounted d) st in
                   publish i (evict (change_data i (\<lambda>_. d) (fst counted), snd counted)))
              | None \<Rightarrow>
                  if xd_started_at_ms d < tl_cleared_at_ms (fst st) then st
                  else (let (i, st') = push_exchange d (Some key) st in publish i st'))"

section \<open>Recording a request\<close>

record http_request =
  rq_method :: string
  rq_path_and_query :: "string option"
  rq_uri_host :: "string option"
  rq_headers :: header_pairs

record http_response =
  rs_status :: nat
  rs_headers :: header_pairs

definition request_host :: "(byte list \<Rightarrow> string option) \<Rightarrow> http_request \<Rightarrow> string" where
  "request_host to_str req =
     (case Option.bind (map_of (rq_headers req) ''host'') to_str of
        Some h \<Rightarrow> h
      | None \<Rightarrow> (case rq_uri_host req of Some h \<Rightarrow> h | None \<Rightarrow> []))"

definition begin_data ::
  "(byte list \<Rightarrow> string option) \<Rightarrow> nat \<Rightarrow> nat \<Rightarrow> http_request \<Rightarrow> string \<Rightarrow> string \<Rightarrow> body_mode \<Rightarrow> exchange_data" where
  "begin_data to_str now_ms now req source scheme mode =
     (let request_headers = header_list (rq_headers req) in
      \<lparr>xd_started_at_ms = now_ms, xd_started = now, xd_mode = mode, xd_method = rq_method req,
       xd_url = (case rq_path_and_query req of Some p \<Rightarrow> p | None \<Rightarrow> ''/''), xd_host = request_host to_str req,
       xd_scheme = scheme, xd_source = source, xd_request_headers = request_headers, xd_response_headers = [],
       xd_status = None, xd_ttfb = None, xd_duration = None, xd_error = None, xd_upgraded = False,
       xd_request = new_captured to_str mode (rq_headers req), xd_response = pending_captured,
       xd_accounted = headers_weight request_headers, xd_in_ring = True\<rparr>)"

definition begin_recording ::
  "(byte list \<Rightarrow> string option) \<Rightarrow> nat \<Rightarrow> nat \<Rightarrow> http_request \<Rightarrow> string \<Rightarrow> string \<Rightarrow> log_state \<Rightarrow> nat option \<times> log_state" where
  "begin_recording to_str now_ms now req source scheme st =
     (case tl_mode (fst st) of
        None \<Rightarrow> (None, st)
      | Some mode \<Rightarrow>
          (let (i, st') = push_exchange (begin_data to_str now_ms now req source scheme mode) None st
           in (Some i, publish i st')))"

definition rec_change :: "nat \<Rightarrow> (exchange_data \<Rightarrow> exchange_data) \<Rightarrow> log_state \<Rightarrow> log_state" where
  "rec_change i f st = (change_data i f (fst st), snd st)"

definition rec_response ::
  "(byte list \<Rightarrow> string option) \<Rightarrow> nat \<Rightarrow> nat \<Rightarrow> http_response \<Rightarrow> bool \<Rightarrow> log_state \<Rightarrow> log_state" where
  "rec_response to_str now i resp upgraded st =
     publish i (account i (rec_change i
       (\<lambda>d. d\<lparr>xd_status := Some (rs_status resp), xd_ttfb := Some (elapsed now d),
              xd_response_headers := header_list (rs_headers resp),
              xd_response := new_captured to_str (xd_mode d) (rs_headers resp), xd_upgraded := upgraded\<rparr>) st))"

definition rec_fail :: "nat \<Rightarrow> nat \<Rightarrow> string \<Rightarrow> log_state \<Rightarrow> log_state" where
  "rec_fail now i err st =
     publish i (rec_change i
       (\<lambda>d. d\<lparr>xd_status := Some 502, xd_error := Some err, xd_duration := Some (elapsed now d)\<rparr>) st)"

definition rec_closed :: "nat \<Rightarrow> nat \<Rightarrow> log_state \<Rightarrow> log_state" where
  "rec_closed now i st = publish i (rec_change i (\<lambda>d. d\<lparr>xd_duration := Some (elapsed now d)\<rparr>) st)"

definition rec_chunk :: "nat \<Rightarrow> side \<Rightarrow> byte list \<Rightarrow> log_state \<Rightarrow> log_state" where
  "rec_chunk i sd chunk st =
     rec_change i (\<lambda>d. case sd of
         RequestSide \<Rightarrow> d\<lparr>xd_request := push_chunk chunk (xd_request d)\<rparr>
       | ResponseSide \<Rightarrow> d\<lparr>xd_response := push_chunk chunk (xd_response d)\<rparr>) st"

definition rec_finish :: "inflater \<Rightarrow> nat \<Rightarrow> nat \<Rightarrow> side \<Rightarrow> body_state \<Rightarrow> log_state \<Rightarrow> log_state" where
  "rec_finish inflate now i sd state st =
     publish i (account i (rec_change i (\<lambda>d. case sd of
         RequestSide \<Rightarrow> d\<lparr>xd_request := finish_captured inflate state (xd_mode d) (xd_request d)\<rparr>
       | ResponseSide \<Rightarrow>
           d\<lparr>xd_response := finish_captured inflate state (xd_mode d) (xd_response d),
             xd_duration := Some (elapsed now d)\<rparr>) st))"

section \<open>Tapped bodies\<close>

datatype body_poll = PolledData "byte list" | PolledOther | PolledError | PolledEnd

definition tap_poll :: "inflater \<Rightarrow> nat \<Rightarrow> body_poll \<Rightarrow> (nat \<times> side) option \<times> log_state \<Rightarrow> (nat \<times> side) option \<times> log_state" where
  "tap_poll inflate now frame tap =
     (case fst tap of
        None \<Rightarrow> tap
      | Some (i, sd) \<Rightarrow>
          (case frame of
             PolledData chunk \<Rightarrow> (fst tap, rec_chunk i sd chunk (snd tap))
           | PolledOther \<Rightarrow> tap
           | PolledError \<Rightarrow> (None, rec_finish inflate now i sd BodyError (snd tap))
           | PolledEnd \<Rightarrow> (None, rec_finish inflate now i sd BodyDone (snd tap))))"

definition tap_drop :: "inflater \<Rightarrow> nat \<Rightarrow> bool \<Rightarrow> (nat \<times> side) option \<times> log_state \<Rightarrow> log_state" where
  "tap_drop inflate now is_end_stream tap =
     (case fst tap of
        None \<Rightarrow> snd tap
      | Some (i, sd) \<Rightarrow> rec_finish inflate now i sd (if is_end_stream then BodyDone else BodyAborted) (snd tap))"

section \<open>The store\<close>

type_synonym log_key = "string \<times> string"

record traffic_store =
  ts_logs :: "(log_key, traffic_log) btree"
  ts_shared :: traffic_shared

definition empty_store :: traffic_store where
  "empty_store =
     \<lparr>ts_logs = [], ts_shared = \<lparr>sh_total = 0, sh_subscribed = False, sh_feed = [], sh_modes_changed = False\<rparr>\<rparr>"

definition store_log :: "log_key \<Rightarrow> traffic_store \<Rightarrow> traffic_log" where
  "store_log key ts = (case map_of (ts_logs ts) key of Some l \<Rightarrow> l | None \<Rightarrow> new_log (snd key))"

definition on_log :: "log_key \<Rightarrow> (log_state \<Rightarrow> log_state) \<Rightarrow> traffic_store \<Rightarrow> traffic_store" where
  "on_log key f ts =
     (let (l, sh) = f (store_log key ts, ts_shared ts) in
      ts\<lparr>ts_logs := bt_insert key l (ts_logs ts), ts_shared := sh\<rparr>)"

definition subscribe_all :: "traffic_store \<Rightarrow> traffic_store" where
  "subscribe_all ts = ts\<lparr>ts_shared := (ts_shared ts)\<lparr>sh_subscribed := True\<rparr>\<rparr>"

definition snapshot_all :: "traffic_store \<Rightarrow> (string \<times> exchange) list" where
  "snapshot_all ts =
     concat (map (\<lambda>l. map (\<lambda>ex. (tl_node l, ex)) (filter_map (tl_exchanges l) (tl_entries l))) (bt_values (ts_logs ts)))"

definition apply_mode :: "string \<Rightarrow> string \<times> body_mode \<Rightarrow> traffic_store \<Rightarrow> traffic_store" where
  "apply_mode workspace nm ts =
     on_log (workspace, fst nm)
       (\<lambda>st. if tl_mode (fst st) \<noteq> Some (snd nm) then set_mode (Some (snd nm)) st else st) ts"

definition stop_log :: "nat \<Rightarrow> log_state \<Rightarrow> log_state" where
  "stop_log now_ms st = clear_log now_ms (if tl_mode (fst st) \<noteq> None then set_mode None st else st)"

definition apply_modes :: "nat \<Rightarrow> string \<Rightarrow> (string, body_mode) btree \<Rightarrow> traffic_store \<Rightarrow> traffic_store" where
  "apply_modes now_ms workspace modes ts =
     (let ts' = fold (apply_mode workspace) modes ts;
          others = filter (\<lambda>k. fst k = workspace \<and> \<not> bt_has modes (snd k)) (bt_keys (ts_logs ts'))
      in fold (\<lambda>key. on_log key (stop_log now_ms)) others ts')"

definition recording :: "string \<Rightarrow> traffic_store \<Rightarrow> (string \<times> body_mode) list" where
  "recording workspace ts =
     filter_map (\<lambda>(k, l). if fst k = workspace then map_option (Pair (snd k)) (tl_mode l) else None) (ts_logs ts)"

end
