(* ===== verification/Traffic_Props.thy ===== *)
theory Traffic_Props
  imports Traffic
begin

text \<open>
  What the rings of the traffic store keep: the bytes a ring is counted as are those of the exchanges in it, the
  shared total is the sum over the rings, and every operation that counts bytes brings the ring under its limits.
\<close>

section \<open>The ring of a log\<close>

definition ring_ok :: "nat list \<Rightarrow> traffic_log \<Rightarrow> bool" where
  "ring_ok entries l \<longleftrightarrow>
     sorted_wrt (<) entries \<and> (\<forall>i\<in>set entries. tl_exchanges l i \<noteq> None) \<and>
     (\<forall>i ex. tl_exchanges l i = Some ex \<longrightarrow>
        i < tl_next_id l \<and> ex_id ex = i \<and> xd_in_ring (ex_data ex) = (i \<in> set entries)) \<and>
     tl_bytes l = sum_list (map (accounted_in l) entries)"

definition within_limits :: "traffic_log \<Rightarrow> bool" where
  "within_limits l \<longleftrightarrow> length (tl_entries l) \<le> MAX_EXCHANGES \<and> (length (tl_entries l) \<le> 1 \<or> tl_bytes l \<le> NODE_BUDGET)"

definition log_ok :: "traffic_log \<Rightarrow> bool" where
  "log_ok l \<longleftrightarrow> ring_ok (tl_entries l) l \<and> within_limits l"

definition newest :: "traffic_log \<Rightarrow> nat" where
  "newest l = (if tl_entries l = [] then 0 else accounted_in l (last (tl_entries l)))"

lemma exchanges_change [simp]:
  "tl_exchanges (change_data i f l) j =
     (if j = i then map_option (\<lambda>ex. ex\<lparr>ex_data := f (ex_data ex)\<rparr>) (tl_exchanges l i) else tl_exchanges l j)"
  by (simp add: change_data_def)

lemma change_data_fields [simp]:
  "tl_node (change_data i f l) = tl_node l" "tl_mode (change_data i f l) = tl_mode l"
  "tl_entries (change_data i f l) = tl_entries l" "tl_bytes (change_data i f l) = tl_bytes l"
  "tl_next_id (change_data i f l) = tl_next_id l" "tl_cleared_at_ms (change_data i f l) = tl_cleared_at_ms l"
  "tl_updates (change_data i f l) = tl_updates l"
  by (simp_all add: change_data_def)

lemma accounted_bytes [simp]:
  "accounted_in (l\<lparr>tl_bytes := b\<rparr>) = accounted_in l" "accounted_in (l\<lparr>tl_entries := e\<rparr>) = accounted_in l"
  "accounted_in (l\<lparr>tl_updates := u\<rparr>) = accounted_in l" "accounted_in (l\<lparr>tl_mode := m\<rparr>) = accounted_in l"
  by (simp_all add: accounted_in_def fun_eq_iff)

lemma accounted_change:
  assumes "\<And>d. xd_accounted (f d) = xd_accounted d"
  shows "accounted_in (change_data i f l) = accounted_in l"
  using assms by (auto simp: accounted_in_def fun_eq_iff split: option.splits)

text \<open>What a log keeps when only its ring is trimmed: every exchange, up to being in the ring.\<close>

definition same_data :: "traffic_log \<Rightarrow> traffic_log \<Rightarrow> bool" where
  "same_data l l' \<longleftrightarrow>
     (\<forall>i. map_option (\<lambda>ex. ex\<lparr>ex_data := (ex_data ex)\<lparr>xd_in_ring := False\<rparr>\<rparr>) (tl_exchanges l' i) =
          map_option (\<lambda>ex. ex\<lparr>ex_data := (ex_data ex)\<lparr>xd_in_ring := False\<rparr>\<rparr>) (tl_exchanges l i)) \<and>
     tl_next_id l' = tl_next_id l \<and> tl_mode l' = tl_mode l \<and> tl_node l' = tl_node l \<and> tl_cleared_at_ms l' = tl_cleared_at_ms l"

lemma same_data_refl [simp]: "same_data l l"
  by (simp add: same_data_def)

lemma same_data_trans: "same_data l m \<Longrightarrow> same_data m n \<Longrightarrow> same_data l n"
  by (simp add: same_data_def)

lemma same_data_evict_one: "same_data l ((change_data i (\<lambda>d. d\<lparr>xd_in_ring := False\<rparr>) l)\<lparr>tl_bytes := b\<rparr>)"
  by (auto simp: same_data_def option.map_comp comp_def)

lemma sum_accounted_cons: "sum_list (map (accounted_in l) (old # rest)) = accounted_in l old + sum_list (map (accounted_in l) rest)"
  by simp

definition trimmed :: "nat list \<Rightarrow> log_state \<Rightarrow> log_state \<Rightarrow> bool" where
  "trimmed entries st st' \<longleftrightarrow>
     log_ok (fst st') \<and> same_data (fst st) (fst st') \<and>
     sh_total (snd st') + tl_bytes (fst st) = sh_total (snd st) + tl_bytes (fst st') \<and>
     tl_bytes (fst st') \<le> tl_bytes (fst st) \<and>
     (\<exists>k. tl_entries (fst st') = drop k entries) \<and> (entries \<noteq> [] \<longrightarrow> tl_entries (fst st') \<noteq> []) \<and>
     (length (tl_entries (fst st')) \<le> 1 \<or> sh_total (snd st') \<le> GLOBAL_BUDGET) \<and>
     tl_updates (fst st') = tl_updates (fst st) \<and>
     sh_subscribed (snd st') = sh_subscribed (snd st) \<and> sh_feed (snd st') = sh_feed (snd st)"

lemma ring_ok_entries: "ring_ok entries (l\<lparr>tl_entries := e\<rparr>) = ring_ok entries l"
  by (simp add: ring_ok_def)

lemma evict_entries_trims:
  "ring_ok entries (fst st) \<Longrightarrow> tl_bytes (fst st) \<le> sh_total (snd st) \<Longrightarrow> trimmed entries st (evict_entries entries st)"
proof (induction entries st rule: evict_entries.induct, goal_cases)
  case (1 old newer rest l sh)
  let ?a = "accounted_in l old"
  let ?l = "(change_data old (\<lambda>d. d\<lparr>xd_in_ring := False\<rparr>) l)\<lparr>tl_bytes := tl_bytes l - ?a\<rparr>"
  let ?sh = "sh\<lparr>sh_total := sh_total sh - ?a\<rparr>"
  show ?case
  proof (cases "over_budget (length (old # newer # rest)) (l, sh)")
    case False
    then have "length (old # newer # rest) \<le> MAX_EXCHANGES" "tl_bytes l \<le> NODE_BUDGET" "sh_total sh \<le> GLOBAL_BUDGET"
      by (simp_all add: over_budget_def)
    moreover have "\<exists>k. old # newer # rest = drop k (old # newer # rest)" by (rule exI [of _ 0]) simp
    ultimately show ?thesis using 1(2) False
      by (simp add: trimmed_def log_ok_def ring_ok_entries within_limits_def same_data_def)
  next
    case True
    have acc: "accounted_in ?l = accounted_in l" by (simp add: accounted_change)
    have bytes: "tl_bytes l = ?a + sum_list (map (accounted_in l) (newer # rest))" using 1(2) by (simp add: ring_ok_def)
    have notin: "old \<notin> set (newer # rest)" using 1(2) by (auto simp: ring_ok_def)
    have "ring_ok (newer # rest) ?l"
    proof -
      have "sorted_wrt (<) (newer # rest)" "\<forall>i\<in>set (newer # rest). tl_exchanges ?l i \<noteq> None"
        using 1(2) by (auto simp: ring_ok_def)
      moreover have "i < tl_next_id l \<and> ex_id ex = i \<and> xd_in_ring (ex_data ex) = (i \<in> set (newer # rest))"
        if "tl_exchanges ?l i = Some ex" for i ex
      proof (cases "i = old")
        case True
        with that notin 1(2) show ?thesis by (auto simp: ring_ok_def)
      next
        case False
        with that 1(2) show ?thesis by (auto simp: ring_ok_def)
      qed
      ultimately show ?thesis unfolding ring_ok_def acc using bytes by auto
    qed
    moreover have "tl_bytes (fst (?l, ?sh)) \<le> sh_total (snd (?l, ?sh))" using 1(3) by simp
    ultimately have step: "trimmed (newer # rest) (?l, ?sh) (evict_entries (newer # rest) (?l, ?sh))"
      using 1(1) [OF True refl] by simp
    have one: "same_data l ?l" by (rule same_data_evict_one)
    obtain k where k: "tl_entries (fst (evict_entries (newer # rest) (?l, ?sh))) = drop k (newer # rest)"
      using step by (auto simp: trimmed_def)
    have "\<exists>k. tl_entries (fst (evict_entries (newer # rest) (?l, ?sh))) = drop k (old # newer # rest)"
      by (rule exI [of _ "Suc k"]) (simp add: k)
    moreover have le: "?a \<le> tl_bytes l" "?a \<le> sh_total sh" using bytes 1(3) by simp_all
    moreover have same: "evict_entries (old # newer # rest) (l, sh) = evict_entries (newer # rest) (?l, ?sh)"
      using True by (simp add: Let_def)
    let ?final = "evict_entries (newer # rest) (?l, ?sh)"
    have "same_data ?l (fst ?final)" using step by (simp add: trimmed_def)
    with one have "same_data l (fst ?final)" by (rule same_data_trans)
    moreover have "sh_total (snd ?final) + (tl_bytes l - ?a) = sh_total sh - ?a + tl_bytes (fst ?final)"
      "tl_bytes (fst ?final) \<le> tl_bytes l - ?a"
      using step by (simp_all add: trimmed_def)
    then have "sh_total (snd ?final) + tl_bytes l = sh_total sh + tl_bytes (fst ?final)" "tl_bytes (fst ?final) \<le> tl_bytes l"
      using le by linarith+
    ultimately show ?thesis unfolding same using step by (simp add: trimmed_def)
  qed
next
  case (2 l sh)
  then show ?case by (simp add: trimmed_def log_ok_def ring_ok_entries within_limits_def same_data_def)
next
  case (3 v l sh)
  have "\<exists>k. [v] = drop k [v]" by (rule exI [of _ 0]) simp
  with 3 show ?case
    by (simp add: trimmed_def log_ok_def ring_ok_entries within_limits_def same_data_def MAX_EXCHANGES_def)
qed

lemma evict_trims:
  "ring_ok (tl_entries (fst st)) (fst st) \<Longrightarrow> tl_bytes (fst st) \<le> sh_total (snd st) \<Longrightarrow>
     trimmed (tl_entries (fst st)) st (evict st)"
  unfolding evict_def by (rule evict_entries_trims)

section \<open>One operation\<close>

text \<open>
  What every operation on a log keeps, given that the shared total counts the log: the ring, the total, and that
  either nothing was counted anew, or the ring has one exchange left, or the total is under its limit.
\<close>

definition counted :: "log_state \<Rightarrow> log_state \<Rightarrow> bool" where
  "counted st st' \<longleftrightarrow>
     log_ok (fst st') \<and> sh_total (snd st') + tl_bytes (fst st) = sh_total (snd st) + tl_bytes (fst st') \<and>
     (tl_bytes (fst st') = tl_bytes (fst st) \<and> newest (fst st') = newest (fst st) \<or>
      tl_bytes (fst st') = newest (fst st') \<or> sh_total (snd st') \<le> GLOBAL_BUDGET)"

definition log_counted :: "log_state \<Rightarrow> bool" where
  "log_counted st \<longleftrightarrow> log_ok (fst st) \<and> tl_bytes (fst st) \<le> sh_total (snd st)"

definition quiet :: "log_state \<Rightarrow> log_state \<Rightarrow> bool" where
  "quiet st st' \<longleftrightarrow> log_ok (fst st') \<and> tl_bytes (fst st') = tl_bytes (fst st) \<and> newest (fst st') = newest (fst st) \<and>
     sh_total (snd st') = sh_total (snd st)"

lemma counted_log: "log_counted st \<Longrightarrow> counted st st' \<Longrightarrow> log_counted st'"
  by (auto simp: log_counted_def counted_def)

lemma quiet_log: "log_counted st \<Longrightarrow> quiet st st' \<Longrightarrow> log_counted st'"
  by (auto simp: log_counted_def quiet_def)

lemma quiet_counted: "quiet st st' \<Longrightarrow> counted st st'"
  by (simp add: quiet_def counted_def)

lemma quiet_refl: "log_counted st \<Longrightarrow> quiet st st"
  by (simp add: quiet_def log_counted_def)

lemma quiet_then_counted: "quiet st st' \<Longrightarrow> counted st' st'' \<Longrightarrow> counted st st''"
  by (simp add: quiet_def counted_def)

lemma counted_then_quiet: "counted st st' \<Longrightarrow> quiet st' st'' \<Longrightarrow> counted st st''"
  by (auto simp: quiet_def counted_def)

lemma few_newest: "ring_ok (tl_entries l) l \<Longrightarrow> length (tl_entries l) \<le> 1 \<Longrightarrow> tl_bytes l = newest l"
  by (cases "tl_entries l") (auto simp: ring_ok_def newest_def)

lemma trimmed_counted:
  assumes "trimmed entries mid st'" and "sh_total (snd mid) + tl_bytes (fst st) = sh_total (snd st) + tl_bytes (fst mid)"
  shows "counted st st'"
proof -
  from assms(1) have "length (tl_entries (fst st')) \<le> 1 \<or> sh_total (snd st') \<le> GLOBAL_BUDGET"
    "ring_ok (tl_entries (fst st')) (fst st')" by (simp_all add: trimmed_def log_ok_def)
  then have "tl_bytes (fst st') = newest (fst st') \<or> sh_total (snd st') \<le> GLOBAL_BUDGET" using few_newest by blast
  moreover have "log_ok (fst st')" "sh_total (snd st') + tl_bytes (fst mid) = sh_total (snd mid) + tl_bytes (fst st')"
    using assms(1) by (simp_all add: trimmed_def)
  ultimately show ?thesis using assms(2) by (simp add: counted_def)
qed

lemma ring_ok_change:
  assumes "ring_ok entries l" and "\<And>d. xd_accounted (f d) = xd_accounted d" and "\<And>d. xd_in_ring (f d) = xd_in_ring d"
  shows "ring_ok entries (change_data i f l)"
proof -
  have acc: "accounted_in (change_data i f l) = accounted_in l" by (rule accounted_change) (rule assms(2))
  show ?thesis using assms(1,3) unfolding ring_ok_def acc by auto
qed

lemma rec_change_quiet:
  assumes "log_counted st" and "\<And>d. xd_accounted (f d) = xd_accounted d" and "\<And>d. xd_in_ring (f d) = xd_in_ring d"
  shows "quiet st (rec_change i f st)"
proof -
  have acc: "accounted_in (change_data i f (fst st)) = accounted_in (fst st)" by (rule accounted_change) (rule assms(2))
  have "ring_ok (tl_entries (fst st)) (change_data i f (fst st))"
    by (rule ring_ok_change) (use assms in \<open>auto simp: log_counted_def log_ok_def\<close>)
  with assms(1) show ?thesis
    by (simp add: quiet_def rec_change_def log_ok_def log_counted_def within_limits_def newest_def acc)
qed

lemma log_ok_updates [simp]: "log_ok (l\<lparr>tl_updates := u\<rparr>) = log_ok l"
  by (simp add: log_ok_def ring_ok_def within_limits_def)

lemma log_ok_mode [simp]: "log_ok (l\<lparr>tl_mode := m\<rparr>) = log_ok l"
  by (simp add: log_ok_def ring_ok_def within_limits_def)

lemma newest_fields [simp]: "newest (l\<lparr>tl_updates := u\<rparr>) = newest l" "newest (l\<lparr>tl_mode := m\<rparr>) = newest l"
  by (simp_all add: newest_def)

lemma publish_quiet: "log_counted st \<Longrightarrow> quiet st (publish i st)"
  by (auto simp: publish_def quiet_def log_counted_def split: option.splits)

lemma set_mode_quiet: "log_counted st \<Longrightarrow> quiet st (set_mode m st)"
  by (simp add: set_mode_def quiet_def log_counted_def)

lemma exchanges_dropped:
  "tl_exchanges (fold (\<lambda>i. change_data i (\<lambda>d. d\<lparr>xd_in_ring := False\<rparr>)) is l) j =
     (if j \<in> set is then map_option (\<lambda>ex. ex\<lparr>ex_data := (ex_data ex)\<lparr>xd_in_ring := False\<rparr>\<rparr>) (tl_exchanges l j)
      else tl_exchanges l j)"
  by (induction "is" arbitrary: l) (auto simp: option.map_comp comp_def)

lemma fold_change_fields: "tl_next_id (fold (\<lambda>i. change_data i f) is l) = tl_next_id l"
  by (induction "is" arbitrary: l) simp_all

lemma clear_counted: "log_counted st \<Longrightarrow> counted st (clear_log now_ms st)"
  by (cases st)
    (auto simp: clear_log_def counted_def log_ok_def ring_ok_def within_limits_def newest_def log_counted_def
       exchanges_dropped fold_change_fields)

lemma ring_add:
  assumes "ring_ok (tl_entries l) l" and "xd_in_ring d"
  shows "ring_ok (tl_entries l @ [tl_next_id l])
    (l\<lparr>tl_next_id := tl_next_id l + 1,
       tl_exchanges := (tl_exchanges l)(tl_next_id l := Some \<lparr>ex_id = tl_next_id l, ex_remote = r, ex_data = d\<rparr>),
       tl_bytes := tl_bytes l + xd_accounted d, tl_entries := tl_entries l @ [tl_next_id l]\<rparr>)" (is "ring_ok ?es ?l")
proof -
  have below: "i < tl_next_id l" if "i \<in> set (tl_entries l)" for i using assms(1) that by (fastforce simp: ring_ok_def)
  then have "map (accounted_in ?l) (tl_entries l) = map (accounted_in l) (tl_entries l)"
    by (auto simp: accounted_in_def)
  moreover have "accounted_in ?l (tl_next_id l) = xd_accounted d" by (simp add: accounted_in_def)
  moreover have "sum_list (map (accounted_in l) (tl_entries l)) = tl_bytes l" using assms(1) by (simp add: ring_ok_def)
  ultimately have "sum_list (map (accounted_in ?l) ?es) = tl_bytes l + xd_accounted d"
    by (simp only: map_append sum_list_append list.map sum_list.Cons sum_list.Nil add_0_right)
  then have "sum_list (map (accounted_in ?l) ?es) = tl_bytes ?l" by simp
  moreover have "sorted_wrt (<) ?es" using assms(1) below by (simp add: ring_ok_def sorted_wrt_append)
  moreover have "\<forall>i\<in>set ?es. tl_exchanges ?l i \<noteq> None" using assms(1) by (auto simp: ring_ok_def)
  moreover have "i < tl_next_id ?l \<and> ex_id ex = i \<and> xd_in_ring (ex_data ex) = (i \<in> set ?es)"
    if "tl_exchanges ?l i = Some ex" for i ex
    using that assms below by (cases "i = tl_next_id l") (auto simp: ring_ok_def less_Suc_eq)
  ultimately show ?thesis unfolding ring_ok_def by simp
qed

lemma push_counted:
  assumes "log_counted st" and "xd_in_ring d"
  shows "counted st (snd (push_exchange d r st))"
proof -
  obtain l sh where st: "st = (l, sh)" by (rule prod.exhaust)
  have "ring_ok (tl_entries l) l" using assms(1) by (simp add: st log_counted_def log_ok_def)
  from ring_add [OF this assms(2), of r] show ?thesis
    unfolding st push_exchange_def Let_def prod.case snd_conv
    by (intro trimmed_counted [OF evict_trims]) (use assms(1) in \<open>simp_all add: st log_counted_def\<close>)
qed

lemma ring_recount:
  assumes "ring_ok (tl_entries l) l" and "i \<in> set (tl_entries l)" and "\<And>d. xd_in_ring d \<Longrightarrow> xd_in_ring (f d)"
    and "\<And>ex. tl_exchanges l i = Some ex \<Longrightarrow> xd_accounted (f (ex_data ex)) = new"
  shows "ring_ok (tl_entries l) (change_data i f (l\<lparr>tl_bytes := tl_bytes l + new - accounted_in l i\<rparr>))" (is "ring_ok _ ?l")
    and "accounted_in l i \<le> tl_bytes l"
proof -
  obtain ex where ex: "tl_exchanges l i = Some ex" using assms(1,2) by (fastforce simp: ring_ok_def)
  obtain as bs where split: "tl_entries l = as @ i # bs" using split_list [OF assms(2)] by blast
  then have notin: "i \<notin> set as" "i \<notin> set bs" using assms(1) by (auto simp: ring_ok_def sorted_wrt_append)
  have other: "accounted_in ?l j = accounted_in l j" if "j \<noteq> i" for j using that by (simp add: accounted_in_def)
  have own: "accounted_in ?l i = new" using ex assms(4) by (simp add: accounted_in_def)
  have maps: "map (accounted_in ?l) as = map (accounted_in l) as" "map (accounted_in ?l) bs = map (accounted_in l) bs"
    by (rule map_cong [OF refl], rule other, use notin in blast)+
  have bytes: "tl_bytes l = sum_list (map (accounted_in l) as) + accounted_in l i + sum_list (map (accounted_in l) bs)"
    using assms(1) by (simp add: ring_ok_def split)
  have "sum_list (map (accounted_in ?l) (tl_entries l)) =
      sum_list (map (accounted_in l) as) + (new + sum_list (map (accounted_in l) bs))"
    unfolding split map_append sum_list_append list.map sum_list.Cons maps own ..
  with bytes have "sum_list (map (accounted_in ?l) (tl_entries l)) = tl_bytes ?l" by simp
  moreover have "xd_in_ring (f (ex_data ex))" using assms(1,2,3) ex by (auto simp: ring_ok_def)
  ultimately show "ring_ok (tl_entries l) ?l" using assms(1,2) ex unfolding ring_ok_def by auto
  show "accounted_in l i \<le> tl_bytes l" using bytes by simp
qed

lemma recount_trims:
  assumes "log_counted st" and "i \<in> set (tl_entries (fst st))" and "\<And>d. xd_in_ring d \<Longrightarrow> xd_in_ring (f d)"
    and "\<And>ex. tl_exchanges (fst st) i = Some ex \<Longrightarrow> xd_accounted (f (ex_data ex)) = new"
  defines "mid \<equiv> (change_data i f (fst (recount i (accounted_in (fst st) i) new st)), snd (recount i (accounted_in (fst st) i) new st))"
  shows "trimmed (tl_entries (fst st)) mid (evict mid)"
    and "sh_total (snd mid) + tl_bytes (fst st) = sh_total (snd st) + tl_bytes (fst mid)"
proof -
  obtain l sh where st: "st = (l, sh)" by (rule prod.exhaust)
  have "ring_ok (tl_entries l) l" using assms(1) by (simp add: st log_counted_def log_ok_def)
  note ring = ring_recount [OF this, of i f new] assms(2-4) [unfolded st fst_conv]
  have le: "accounted_in l i \<le> tl_bytes l" "tl_bytes l \<le> sh_total sh"
    using ring assms(1) by (simp_all add: st log_counted_def)
  have entries: "tl_entries (fst st) = tl_entries (fst mid)" by (simp add: mid_def recount_def)
  show "trimmed (tl_entries (fst st)) mid (evict mid)"
    unfolding entries by (rule evict_trims) (use ring le in \<open>simp_all add: st mid_def recount_def\<close>)
  show "sh_total (snd mid) + tl_bytes (fst st) = sh_total (snd st) + tl_bytes (fst mid)"
    using le by (simp add: st mid_def recount_def)
qed

lemma recount_counted:
  assumes "log_counted st" and "i \<in> set (tl_entries (fst st))" and "\<And>d. xd_in_ring d \<Longrightarrow> xd_in_ring (f d)"
    and "\<And>ex. tl_exchanges (fst st) i = Some ex \<Longrightarrow> xd_accounted (f (ex_data ex)) = new"
  shows "counted st (evict (change_data i f (fst (recount i (accounted_in (fst st) i) new st)), snd (recount i (accounted_in (fst st) i) new st)))"
  by (rule trimmed_counted [OF recount_trims [of st i f new, OF assms]])

lemma account_counted:
  assumes "log_counted st"
  shows "counted st (account i st)"
proof (cases "tl_exchanges (fst st) i")
  case None
  then show ?thesis using quiet_counted [OF quiet_refl [OF assms]] by (simp add: account_def)
next
  case (Some ex)
  show ?thesis
  proof (cases "xd_in_ring (ex_data ex)")
    case False
    then show ?thesis using Some quiet_counted [OF quiet_refl [OF assms]] by (simp add: account_def Let_def)
  next
    case True
    then have "i \<in> set (tl_entries (fst st))" using assms Some by (auto simp: log_counted_def log_ok_def ring_ok_def)
    from recount_counted [OF assms this, of "\<lambda>d. d\<lparr>xd_accounted := data_weight (ex_data ex)\<rparr>" "data_weight (ex_data ex)"]
    show ?thesis using True Some by (simp add: account_def Let_def accounted_in_def)
  qed
qed

lemma known_remote_in: "known_remote key l = Some i \<Longrightarrow> i \<in> set (tl_entries l)"
proof -
  assume "known_remote key l = Some i"
  then have "i \<in> set (rev (tl_entries l))" unfolding known_remote_def find_Some_iff by (metis nth_mem)
  then show ?thesis by simp
qed

lemma ingest_counted:
  assumes "log_counted st"
  shows "counted st (ingest origin sp st)"
proof -
  let ?d = "(sp_data sp)\<lparr>xd_in_ring := True\<rparr>" and ?key = "(origin, sp_id sp)"
  let ?d' = "?d\<lparr>xd_accounted := data_weight ?d\<rparr>"
  have idle: "counted st st" by (rule quiet_counted [OF quiet_refl [OF assms]])
  show ?thesis
  proof (cases "known_remote ?key (fst st)")
    case (Some i)
    note step = recount_counted [OF assms known_remote_in [OF Some], of "\<lambda>_. ?d'" "xd_accounted ?d'"]
    then have "counted st (publish i (evict (change_data i (\<lambda>_. ?d') (fst (recount i (accounted_in (fst st) i) (xd_accounted ?d') st)),
        snd (recount i (accounted_in (fst st) i) (xd_accounted ?d') st))))"
      by (intro counted_then_quiet [OF step] publish_quiet counted_log [OF assms step]) simp_all
    then show ?thesis using Some idle by (simp add: ingest_def Let_def)
  next
    case None
    have push: "counted st (snd (push_exchange ?d' (Some ?key) st))" by (rule push_counted [OF assms]) simp
    then have "counted st (publish i (snd (push_exchange ?d' (Some ?key) st)))" for i
      by (intro counted_then_quiet [OF push] publish_quiet counted_log [OF assms push])
    then show ?thesis using None idle by (simp add: ingest_def Let_def case_prod_beta)
  qed
qed

lemma begin_counted:
  assumes "log_counted st"
  shows "counted st (snd (begin_recording to_str now_ms now req source scheme st))"
proof (cases "tl_mode (fst st)")
  case None
  then show ?thesis using quiet_counted [OF quiet_refl [OF assms]] by (simp add: begin_recording_def)
next
  case (Some mode)
  let ?d = "begin_data to_str now_ms now req source scheme mode"
  have push: "counted st (snd (push_exchange ?d None st))" by (rule push_counted [OF assms]) (simp add: begin_data_def Let_def)
  then have "counted st (publish i (snd (push_exchange ?d None st)))" for i
    by (intro counted_then_quiet [OF push] publish_quiet counted_log [OF assms push])
  then show ?thesis using Some by (simp add: begin_recording_def case_prod_beta)
qed

lemma change_account_counted:
  assumes "log_counted st" and "\<And>d. xd_accounted (f d) = xd_accounted d" and "\<And>d. xd_in_ring (f d) = xd_in_ring d"
  shows "counted st (publish i (account i (rec_change i f st)))"
proof -
  have quiet: "quiet st (rec_change i f st)" by (rule rec_change_quiet [OF assms])
  note mid = quiet_log [OF assms(1) quiet]
  have "counted (rec_change i f st) (publish i (account i (rec_change i f st)))"
    by (rule counted_then_quiet [OF account_counted [OF mid] publish_quiet [OF counted_log [OF mid account_counted [OF mid]]]])
  with quiet show ?thesis by (rule quiet_then_counted)
qed

lemma change_publish_counted:
  assumes "log_counted st" and "\<And>d. xd_accounted (f d) = xd_accounted d" and "\<And>d. xd_in_ring (f d) = xd_in_ring d"
  shows "counted st (publish i (rec_change i f st))"
proof -
  have quiet: "quiet st (rec_change i f st)" by (rule rec_change_quiet [OF assms])
  show ?thesis
    by (rule quiet_then_counted [OF quiet quiet_counted [OF publish_quiet [OF quiet_log [OF assms(1) quiet]]]])
qed

end
