(* ===== verification/Traffic_Claims.thy ===== *)
theory Traffic_Claims
  imports Traffic_Props Traffic_Body
begin

text \<open>
  The properties of the traffic capture: how much the store holds, what a tapped body leaves in its exchange, and
  how multipart bodies are taken apart, with what chunks leave in a captured body and how a delimiter is found.
\<close>

section \<open>Chunks\<close>

lemma take_more: "take n (xs @ ys) = take n xs @ take (min (length ys) (n - length (take n xs))) ys"
proof (cases "length xs \<le> n")
  case True
  then have "n - length (take n xs) = n - length xs" by simp
  then show ?thesis by (simp add: min_def)
qed simp

text \<open>A body captured from its start: all bytes are counted, those up to the cap are kept.\<close>

lemma push_chunks:
  assumes "cp_data c = []" and "cp_size c = 0" and "\<not> cp_truncated c"
  shows "fold push_chunk chunks c =
    c\<lparr>cp_state := (if chunks = [] then cp_state c else BodyStreaming), cp_size := length (concat chunks),
      cp_data := (if is_dropped (cp_keep c) then [] else take BODY_CAP (concat chunks)),
      cp_truncated := (\<not> is_dropped (cp_keep c) \<and> BODY_CAP < length (concat chunks))\<rparr>"
proof (induction chunks rule: rev_induct)
  case Nil
  have "cp_state c = cp_state c" ..
  then show ?case using assms by (cases c) simp
next
  case (snoc chunk chunks)
  let ?body = "concat chunks"
  have step: "fold push_chunk (chunks @ [chunk]) c = push_chunk chunk (fold push_chunk chunks c)" by simp
  show ?case
  proof (cases "is_dropped (cp_keep c)")
    case True
    then show ?thesis by (simp only: step snoc.IH) (simp add: push_chunk_def Let_def)
  next
    case False
    have "take BODY_CAP (?body @ chunk) =
        take BODY_CAP ?body @ take (min (length chunk) (BODY_CAP - length (take BODY_CAP ?body))) chunk" by (rule take_more)
    moreover have "BODY_CAP < length ?body \<or> BODY_CAP - length (take BODY_CAP ?body) < length chunk \<longleftrightarrow>
        BODY_CAP < length (?body @ chunk)" by auto
    ultimately show ?thesis using False
      by (simp only: step snoc.IH)
        (cases "BODY_CAP - length (take BODY_CAP ?body) < length chunk", simp_all add: push_chunk_def Let_def)
  qed
qed

lemma finish_state: "finish_captured inflate state mode (c\<lparr>cp_state := s\<rparr>) = finish_captured inflate state mode c"
  by (simp add: finish_captured_def decoded_body_def Let_def)

section \<open>Finding a delimiter\<close>

lemma find_in_front: "take (length n) h = n \<Longrightarrow> h \<noteq> [] \<Longrightarrow> find_bytes h n = Some 0"
  by (cases h) simp_all

lemma find_fits: "find_bytes h n = Some i \<Longrightarrow> i + length n \<le> length h"
proof (induction h arbitrary: i)
  case (Cons b h)
  show ?case
  proof (cases "take (length n) (b # h) = n")
    case True
    then have "length n \<le> length (b # h)" by (metis length_take min.cobounded1 min.commute)
    with True Cons.prems show ?thesis by simp
  next
    case False
    with Cons.prems obtain j where "find_bytes h n = Some j" "i = Suc j" by auto
    with Cons.IH show ?thesis by simp
  qed
qed simp

text \<open>What is found first stays so when the haystack goes on.\<close>

lemma find_append: "find_bytes h n = Some i \<Longrightarrow> find_bytes (h @ x) n = Some i"
proof (induction h arbitrary: i)
  case (Cons b h)
  have "length n \<le> length (b # h)" using find_fits [OF Cons.prems] by simp
  then have same: "take (length n) ((b # h) @ x) = take (length n) (b # h)" by (simp only: take_append) simp
  show ?case
  proof (cases "take (length n) (b # h) = n")
    case True
    with Cons.prems same show ?thesis by simp
  next
    case False
    with Cons.prems obtain j where "find_bytes h n = Some j" "i = Suc j" by auto
    with Cons.IH same False show ?thesis by simp
  qed
qed simp

text \<open>A delimiter that is not in a piece, and does not hold the piece's last byte, is found right after it.\<close>

lemma find_after:
  "find_bytes piece d = None \<Longrightarrow> piece \<noteq> [] \<Longrightarrow> last piece \<notin> set d \<Longrightarrow> d \<noteq> [] \<Longrightarrow>
     find_bytes (piece @ d @ rest) d = Some (length piece)"
proof (induction piece)
  case (Cons b piece)
  have no: "take (length d) ((b # piece) @ d @ rest) \<noteq> d"
  proof (cases "length d \<le> length (b # piece)")
    case True
    then have "take (length d) ((b # piece) @ d @ rest) = take (length d) (b # piece)" by (simp only: take_append) simp
    then show ?thesis using Cons.prems(1) by (auto split: if_splits)
  next
    case False
    then have "set (b # piece) \<subseteq> set (take (length d) ((b # piece) @ d @ rest))" by (simp only: take_append) auto
    then have "last (b # piece) \<in> set (take (length d) ((b # piece) @ d @ rest))"
      using last_in_set [of "b # piece"] by blast
    with Cons.prems(3) show ?thesis by metis
  qed
  show ?case
  proof (cases "piece = []")
    case True
    have "find_bytes (d @ rest) d = Some 0" using Cons.prems(4) by (intro find_in_front) simp_all
    then show ?thesis using True no by simp
  next
    case False
    have "find_bytes piece d = None" using Cons.prems(1) by (auto split: if_splits)
    from Cons.IH [OF this False] Cons.prems(3,4) False have "find_bytes (piece @ d @ rest) d = Some (length piece)" by simp
    then show ?thesis using no by simp
  qed
qed simp

lemma split_after:
  assumes "find_bytes piece d = None" "piece \<noteq> []" "last piece \<notin> set d" "d \<noteq> []"
  shows "split_bytes (piece @ d @ rest) d = piece # split_bytes rest d"
  by (subst split_bytes.simps) (simp add: find_after [OF assms] assms(4))

lemma split_front: "d \<noteq> [] \<Longrightarrow> split_bytes (d @ rest) d = [] # split_bytes rest d"
  by (subst split_bytes.simps) (simp add: find_in_front)

section \<open>Multipart bodies\<close>

text \<open>A part as it is sent, and what is read of it.\<close>

definition sent_part :: "byte list \<times> byte list \<Rightarrow> byte list" where
  "sent_part p = CRLF @ fst p @ CRLF @ CRLF @ snd p @ CRLF"

definition sent_multipart :: "string \<Rightarrow> (byte list \<times> byte list) list \<Rightarrow> byte list" where
  "sent_multipart boundary ps =
     (let d = DASHES @ string_bytes boundary in concat (map (\<lambda>p. d @ sent_part p) ps) @ d @ DASHES @ CRLF)"

definition received_part :: "bool \<Rightarrow> byte list \<times> byte list \<Rightarrow> part" where
  "received_part keep_files p =
     (let r = fold part_header (lines (from_utf8_lossy (fst p)))
        \<lparr>pt_name = None, pt_filename = None, pt_content_type = None, pt_size = length (snd p), pt_text = None\<rparr>
      in if \<not> is_file_part r \<or> keep_files then r\<lparr>pt_text := text_of (snd p)\<rparr> else r)"

definition plain_part :: "string \<Rightarrow> byte list \<times> byte list \<Rightarrow> bool" where
  "plain_part boundary p \<longleftrightarrow>
     find_bytes (sent_part p) (DASHES @ string_bytes boundary) = None \<and>
     find_bytes (fst p @ CRLF @ CRLF) (CRLF @ CRLF) = Some (length (fst p))"

lemma read_sent_part:
  assumes "find_bytes (fst p @ CRLF @ CRLF) (CRLF @ CRLF) = Some (length (fst p))"
  shows "read_part keep_files (sent_part p) = Some (received_part keep_files p)"
proof -
  let ?mid = "fst p @ CRLF @ CRLF @ snd p"
  have front: "bytes_start (sent_part p) CRLF" "drop 2 (sent_part p) = ?mid @ CRLF"
    by (simp_all add: bytes_start_def sent_part_def CRLF_def)
  have ended: "bytes_end (?mid @ CRLF) CRLF" by (simp add: bytes_end_def)
  have cut: "take (length (?mid @ CRLF) - 2) (?mid @ CRLF) = ?mid"
    using append_eq_conv_conj [of ?mid CRLF "?mid @ CRLF"] by (simp only: length_append) (simp add: CRLF_def)
  have "find_bytes ?mid (CRLF @ CRLF) = Some (length (fst p))" using find_append [OF assms, of "snd p"] by simp
  moreover have "drop (length (fst p) + 4) ?mid = snd p" by (simp add: CRLF_def)
  moreover have "take (length (fst p)) ?mid = fst p" by simp
  ultimately show ?thesis
    unfolding read_part_def received_part_def Let_def if_P [OF front(1)] front(2) if_P [OF ended] cut by simp
qed

lemma closing_piece:
  assumes "boundary \<noteq> []" "0x0D \<notin> set (string_bytes boundary)"
  shows "split_bytes (DASHES @ CRLF) (DASHES @ string_bytes boundary) = [DASHES @ CRLF]"
proof -
  obtain b bs where b: "string_bytes boundary = b # bs" using assms(1) by (cases boundary) (simp_all add: string_bytes_def)
  then have "b \<noteq> 0x0D" using assms(2) by auto
  then have "find_bytes (DASHES @ CRLF) (DASHES @ string_bytes boundary) = None" by (simp add: DASHES_def CRLF_def b)
  then show ?thesis by (subst split_bytes.simps) simp
qed

lemma split_multipart:
  assumes "boundary \<noteq> []" "0x0D \<notin> set (string_bytes boundary)" "0x0A \<notin> set (string_bytes boundary)"
    and "list_all (plain_part boundary) ps"
  shows "split_bytes (sent_multipart boundary ps) (DASHES @ string_bytes boundary) = [] # map sent_part ps @ [DASHES @ CRLF]"
proof -
  let ?d = "DASHES @ string_bytes boundary"
  have d: "?d \<noteq> []" "0x0A \<notin> set ?d" using assms(3) by (simp_all add: DASHES_def)
  have "split_bytes (concat (map (\<lambda>p. sent_part p @ ?d) ps) @ DASHES @ CRLF) ?d = map sent_part ps @ [DASHES @ CRLF]"
    using assms(4)
  proof (induction ps)
    case Nil
    then show ?case using closing_piece [OF assms(1,2)] by simp
  next
    case (Cons p ps)
    have "last (sent_part p) = 0x0A" "sent_part p \<noteq> []" by (simp_all add: sent_part_def CRLF_def)
    with Cons.prems d have "split_bytes (sent_part p @ ?d @ rest) ?d = sent_part p # split_bytes rest ?d" for rest
      by (intro split_after) (simp_all add: plain_part_def)
    with Cons show ?case by simp
  qed
  moreover have "sent_multipart boundary ps = ?d @ concat (map (\<lambda>p. sent_part p @ ?d) ps) @ DASHES @ CRLF"
  proof -
    have "concat (map (\<lambda>p. ?d @ sent_part p) ps) @ ?d = ?d @ concat (map (\<lambda>p. sent_part p @ ?d) ps)"
      by (induction ps) simp_all
    then show ?thesis by (simp add: sent_multipart_def Let_def)
  qed
  ultimately show ?thesis using split_front [OF d(1)] by simp
qed

section \<open>The store\<close>

definition over_logs :: "(traffic_log \<Rightarrow> nat) \<Rightarrow> (log_key, traffic_log) btree \<Rightarrow> nat" where
  "over_logs g m = sum_list (map (\<lambda>e. g (snd e)) m)"

definition store_ok :: "traffic_store \<Rightarrow> bool" where
  "store_ok ts \<longleftrightarrow> bt_wf (ts_logs ts) \<and> (\<forall>e\<in>set (ts_logs ts). log_ok (snd e)) \<and>
     sh_total (ts_shared ts) = over_logs tl_bytes (ts_logs ts) \<and>
     sh_total (ts_shared ts) \<le> GLOBAL_BUDGET + over_logs newest (ts_logs ts)"

lemma over_logs_sum: "bt_wf m \<Longrightarrow> over_logs g m = (\<Sum>e\<in>set m. g (snd e))"
  unfolding over_logs_def by (rule sum_list_distinct_conv_sum_set) (auto dest: bt_wf_distinct simp: distinct_map)

lemma over_logs_insert:
  assumes "bt_wf m"
  shows "over_logs g (bt_insert k v m) + (case map_of m k of Some w \<Rightarrow> g w | None \<Rightarrow> 0) = over_logs g m + g v"
proof -
  let ?rest = "{e \<in> set m. fst e \<noteq> k}"
  have "over_logs g (bt_insert k v m) = (\<Sum>e\<in>insert (k, v) ?rest. g (snd e))"
    using assms by (simp add: over_logs_sum bt_wf_insert set_bt_insert)
  also have "\<dots> = g v + (\<Sum>e\<in>?rest. g (snd e))" by (subst sum.insert) auto
  finally have new: "over_logs g (bt_insert k v m) = g v + (\<Sum>e\<in>?rest. g (snd e))" .
  show ?thesis
  proof (cases "map_of m k")
    case None
    then have "?rest = set m" by (auto simp: map_of_eq_None_iff)
    then show ?thesis using new None by (simp add: over_logs_sum [OF assms])
  next
    case (Some w)
    then have "set m = insert (k, w) ?rest" using bt_in_set [OF assms] by (auto simp: map_of_SomeD)
    then have "over_logs g m = (\<Sum>e\<in>insert (k, w) ?rest. g (snd e))" by (simp only: over_logs_sum [OF assms])
    also have "\<dots> = g w + (\<Sum>e\<in>?rest. g (snd e))" by (subst sum.insert) auto
    finally show ?thesis using new Some by simp
  qed
qed

lemma new_log_ok: "log_ok (new_log n)" "tl_bytes (new_log n) = 0" "newest (new_log n) = 0"
  by (simp_all add: log_ok_def ring_ok_def within_limits_def new_log_def newest_def)

lemma over_logs_on_log:
  assumes "bt_wf (ts_logs ts)" and "g (new_log (snd key)) = 0"
  shows "over_logs g (bt_insert key l (ts_logs ts)) + g (store_log key ts) = over_logs g (ts_logs ts) + g l"
  using over_logs_insert [OF assms(1), of g key l] assms(2) by (simp add: store_log_def split: option.splits)

lemma store_log_counted:
  assumes "store_ok ts"
  shows "log_counted (store_log key ts, ts_shared ts)"
proof -
  have "log_ok (store_log key ts)"
    using assms new_log_ok(1) by (auto simp: store_ok_def store_log_def split: option.splits dest!: map_of_SomeD)
  moreover have "tl_bytes (store_log key ts) \<le> over_logs tl_bytes (ts_logs ts)"
  proof (cases "map_of (ts_logs ts) key")
    case None
    then show ?thesis by (simp add: store_log_def new_log_ok)
  next
    case (Some l)
    then have "(key, l) \<in> set (ts_logs ts)" by (rule map_of_SomeD)
    from member_le_sum_list [of "tl_bytes l" "map (\<lambda>e. tl_bytes (snd e)) (ts_logs ts)"] this Some
    show ?thesis by (force simp: store_log_def over_logs_def)
  qed
  ultimately show ?thesis using assms by (simp add: log_counted_def store_ok_def)
qed

text \<open>The law an operation on a log has to satisfy, and that it keeps the store.\<close>

lemma on_log_ok:
  assumes "store_ok ts" and "\<And>st. log_counted st \<Longrightarrow> counted st (f st)"
  shows "store_ok (on_log key f ts)"
proof -
  let ?old = "store_log key ts"
  obtain l sh where new: "f (?old, ts_shared ts) = (l, sh)" by (rule prod.exhaust)
  have step: "counted (?old, ts_shared ts) (l, sh)"
    using assms(2) [OF store_log_counted [OF assms(1)], of key] by (simp add: new)
  have wf: "bt_wf (ts_logs ts)" using assms(1) by (simp add: store_ok_def)
  have bytes: "over_logs tl_bytes (bt_insert key l (ts_logs ts)) + tl_bytes ?old = over_logs tl_bytes (ts_logs ts) + tl_bytes l"
    by (rule over_logs_on_log [of ts tl_bytes key, OF wf new_log_ok(2)])
  have tops: "over_logs newest (bt_insert key l (ts_logs ts)) + newest ?old = over_logs newest (ts_logs ts) + newest l"
    by (rule over_logs_on_log [of ts newest key, OF wf new_log_ok(3)])
  have total: "sh_total sh = over_logs tl_bytes (bt_insert key l (ts_logs ts))"
    using bytes step assms(1) by (simp add: counted_def store_ok_def)
  have old: "newest ?old \<le> tl_bytes ?old"
  proof -
    have "log_ok ?old" using store_log_counted [OF assms(1)] by (simp add: log_counted_def)
    then show ?thesis
      by (auto simp: newest_def log_ok_def ring_ok_def intro!: member_le_sum_list)
  qed
  have bound: "over_logs tl_bytes (ts_logs ts) \<le> GLOBAL_BUDGET + over_logs newest (ts_logs ts)"
    using assms(1) by (simp add: store_ok_def)
  have "sh_total sh \<le> GLOBAL_BUDGET + over_logs newest (bt_insert key l (ts_logs ts))"
    using step old bound bytes tops total unfolding counted_def fst_conv snd_conv by linarith
  moreover have "\<forall>e\<in>set (bt_insert key l (ts_logs ts)). log_ok (snd e)"
    using assms(1) step by (auto simp: store_ok_def set_bt_insert counted_def)
  ultimately show ?thesis using total wf
    by (simp add: on_log_def new store_ok_def bt_wf_insert)
qed

text \<open>The operations on a log, and the stores that can come about.\<close>

inductive log_operation :: "(log_state \<Rightarrow> log_state) \<Rightarrow> bool" where
  lo_mode: "log_operation (set_mode m)"
| lo_clear: "log_operation (clear_log now_ms)"
| lo_begin: "log_operation (\<lambda>st. snd (begin_recording to_str now_ms now req source scheme st))"
| lo_ingest: "log_operation (ingest origin sp)"
| lo_response: "log_operation (rec_response to_str now i resp upgraded)"
| lo_fail: "log_operation (rec_fail now i err)"
| lo_closed: "log_operation (rec_closed now i)"
| lo_chunk: "log_operation (rec_chunk i sd chunk)"
| lo_finish: "log_operation (rec_finish inflate now i sd state)"

inductive reachable_store :: "traffic_store \<Rightarrow> bool" where
  rs_empty: "reachable_store empty_store"
| rs_log: "reachable_store ts \<Longrightarrow> log_operation f \<Longrightarrow> reachable_store (on_log key f ts)"
| rs_modes: "reachable_store ts \<Longrightarrow> reachable_store (apply_modes now_ms workspace modes ts)"
| rs_subscribe: "reachable_store ts \<Longrightarrow> reachable_store (subscribe_all ts)"

lemma log_operation_counted: "log_operation f \<Longrightarrow> log_counted st \<Longrightarrow> counted st (f st)"
proof (induction f rule: log_operation.induct)
  case (lo_mode m)
  then show ?case by (intro quiet_counted set_mode_quiet)
next
  case (lo_clear now_ms)
  then show ?case by (rule clear_counted)
next
  case lo_begin
  then show ?case by (rule begin_counted)
next
  case (lo_ingest origin sp)
  then show ?case by (rule ingest_counted)
next
  case (lo_response to_str now i resp upgraded)
  then show ?case unfolding rec_response_def by (rule change_account_counted) simp_all
next
  case (lo_fail now i err)
  then show ?case unfolding rec_fail_def by (rule change_publish_counted) simp_all
next
  case (lo_closed now i)
  then show ?case unfolding rec_closed_def by (rule change_publish_counted) simp_all
next
  case (lo_chunk i sd chunk)
  then show ?case unfolding rec_chunk_def
    by (intro quiet_counted rec_change_quiet) (simp_all split: side.splits)
next
  case (lo_finish inflate now i sd state)
  then show ?case unfolding rec_finish_def
    by (rule change_account_counted) (simp_all split: side.splits)
qed

lemma stop_log_counted: "log_counted st \<Longrightarrow> counted st (stop_log now_ms st)"
proof -
  assume st: "log_counted st"
  note quiet = set_mode_quiet [OF st, of None]
  show "counted st (stop_log now_ms st)"
    using quiet_then_counted [OF quiet clear_counted [OF quiet_log [OF st quiet]]] clear_counted [OF st]
    by (simp add: stop_log_def)
qed

lemma fold_store_ok: "(\<And>x ts. store_ok ts \<Longrightarrow> store_ok (f x ts)) \<Longrightarrow> store_ok ts \<Longrightarrow> store_ok (fold f xs ts)"
  by (induction xs arbitrary: ts) auto

lemma apply_modes_ok:
  assumes "store_ok ts"
  shows "store_ok (apply_modes now_ms workspace modes ts)"
proof -
  have mode: "store_ok (apply_mode workspace nm ts)" if "store_ok ts" for nm ts
    unfolding apply_mode_def
    by (rule on_log_ok [OF that]) (auto intro: quiet_counted set_mode_quiet quiet_refl)
  have "store_ok (on_log key (stop_log now_ms) ts)" if "store_ok ts" for key ts
    by (rule on_log_ok [OF that stop_log_counted])
  then show ?thesis unfolding apply_modes_def Let_def by (intro fold_store_ok mode assms)
qed

lemma reachable_store_ok: "reachable_store ts \<Longrightarrow> store_ok ts"
proof (induction rule: reachable_store.induct)
  case rs_empty
  then show ?case by (simp add: store_ok_def empty_store_def over_logs_def)
next
  case (rs_log ts f key)
  show ?case by (rule on_log_ok [OF rs_log.IH]) (rule log_operation_counted [OF rs_log.hyps(2)])
next
  case (rs_modes ts now_ms workspace modes)
  then show ?case by (intro apply_modes_ok)
next
  case (rs_subscribe ts)
  then show ?case by (simp add: subscribe_all_def store_ok_def)
qed

text \<open>
  C21: Whatever is recorded, shipped in, cleared or switched, in any order and on any nodes, the ring of each node
  holds at most 1000 exchanges, and at most its byte budget unless a single exchange is left; the shared total is
  the sum of what the rings count, and exceeds the global budget by no more than the newest exchange of each node.
\<close>

theorem traffic_memory_bounded:
  assumes "reachable_store ts"
  shows "(\<forall>l\<in>set (bt_values (ts_logs ts)). length (tl_entries l) \<le> 1000 \<and>
      (length (tl_entries l) \<le> 1 \<or> tl_bytes l \<le> NODE_BUDGET)) \<and>
    sh_total (ts_shared ts) = sum_list (map tl_bytes (bt_values (ts_logs ts))) \<and>
    sh_total (ts_shared ts) \<le> GLOBAL_BUDGET + sum_list (map newest (bt_values (ts_logs ts)))"
  using reachable_store_ok [OF assms]
  by (auto simp: store_ok_def log_ok_def within_limits_def over_logs_def bt_values_def comp_def MAX_EXCHANGES_def)


definition sample_key :: log_key where "sample_key = (''ws'', ''api'')"

definition sample_request :: http_request where
  "sample_request = \<lparr>rq_method = ''POST'', rq_path_and_query = None, rq_uri_host = None, rq_headers = []\<rparr>"

definition recording_store :: traffic_store where
  "recording_store =
     on_log sample_key (\<lambda>st. snd (begin_recording (\<lambda>_. None) 0 0 sample_request ''host'' ''https'' st))
       (on_log sample_key (set_mode (Some ModeAll)) empty_store)"

lemma recording_reachable: "reachable_store recording_store"
  unfolding recording_store_def by (intro reachable_store.intros log_operation.intros)

lemma traffic_memory_bounded_witness:
  "sh_total (ts_shared recording_store) \<le> GLOBAL_BUDGET + sum_list (map newest (bt_values (ts_logs recording_store)))"
  using traffic_memory_bounded [OF recording_reachable] by simp

text \<open>The store of the sample: one exchange, weighing nothing, on the way.\<close>

definition sample_data :: exchange_data where
  "sample_data = begin_data (\<lambda>_. None) 0 0 sample_request ''host'' ''https'' ModeAll"

definition sample_log :: traffic_log where
  "sample_log = fst (snd (begin_recording (\<lambda>_. None) 0 0 sample_request ''host'' ''https''
     (set_mode (Some ModeAll) (new_log ''api'', ts_shared empty_store))))"

lemma sample_steps:
  "begin_recording (\<lambda>_. None) 0 0 sample_request ''host'' ''https'' (set_mode (Some ModeAll) (new_log ''api'', ts_shared empty_store)) =
     (Some 1, sample_log, \<lparr>sh_total = 0, sh_subscribed = False, sh_feed = [], sh_modes_changed = True\<rparr>)"
  and sample_entries: "tl_entries sample_log = [1]"
  and sample_exchange: "tl_exchanges sample_log 1 = Some \<lparr>ex_id = 1, ex_remote = None, ex_data = sample_data\<rparr>"
  by (simp_all add: sample_log_def begin_recording_def set_mode_def push_exchange_def evict_def publish_def new_log_def
      empty_store_def sample_data_def begin_data_def Let_def headers_weight_def header_list_def sample_request_def)

lemma recording_store_eq:
  "recording_store = \<lparr>ts_logs = [(sample_key, sample_log)],
     ts_shared = \<lparr>sh_total = 0, sh_subscribed = False, sh_feed = [], sh_modes_changed = True\<rparr>\<rparr>"
proof -
  obtain l sh where mode: "set_mode (Some ModeAll) (new_log ''api'', ts_shared empty_store) = (l, sh)" by (rule prod.exhaust)
  have first: "on_log sample_key (set_mode (Some ModeAll)) empty_store = \<lparr>ts_logs = [(sample_key, l)], ts_shared = sh\<rparr>"
    using mode by (simp add: on_log_def store_log_def empty_store_def bt_insert_def sample_key_def)
  show ?thesis using sample_steps unfolding recording_store_def first mode
    by (simp add: on_log_def store_log_def bt_insert_def)
qed


text \<open>
  The budgets only see what was counted: the bytes of a body on its way, up to the cap, are held and count
  nothing until the body ends.
\<close>

lemma bodies_on_their_way_are_not_counted:
  assumes "n \<le> BODY_CAP"
  shows "\<exists>ts l ex. reachable_store ts \<and> sh_total (ts_shared ts) = 0 \<and> map_of (ts_logs ts) sample_key = Some l \<and>
    get_exchange 1 l = Some ex \<and> length (cp_data (xd_request (ex_data ex))) = n"
proof -
  let ?chunk = "replicate n (0 :: byte)"
  let ?l = "change_data 1 (\<lambda>d. d\<lparr>xd_request := push_chunk ?chunk (xd_request d)\<rparr>) sample_log"
  let ?ts = "on_log sample_key (rec_chunk 1 RequestSide ?chunk) recording_store"
  have "reachable_store ?ts" by (intro rs_log lo_chunk recording_reachable)
  moreover have "sh_total (ts_shared ?ts) = 0 \<and> map_of (ts_logs ?ts) sample_key = Some ?l"
    by (simp add: recording_store_eq on_log_def store_log_def bt_insert_def rec_chunk_def rec_change_def)
  moreover have "get_exchange 1 ?l =
      Some \<lparr>ex_id = 1, ex_remote = None, ex_data = sample_data\<lparr>xd_request := push_chunk ?chunk (xd_request sample_data)\<rparr>\<rparr>"
    by (simp add: get_exchange_def sample_entries sample_exchange [unfolded One_nat_def])
  moreover have "length (cp_data (push_chunk ?chunk (xd_request sample_data))) = n"
    using assms by (simp add: push_chunk_def sample_data_def begin_data_def new_captured_def classify_def is_dropped_def Let_def)
  ultimately show ?thesis by fastforce
qed

section \<open>Tapped bodies\<close>

text \<open>What a log holds of the bodies of an exchange, and that trimming, counting and publishing leave it alone.\<close>

definition captures :: "traffic_log \<Rightarrow> nat \<Rightarrow> (body_mode \<times> captured \<times> captured) option" where
  "captures l i =
     map_option (\<lambda>ex. (xd_mode (ex_data ex), xd_request (ex_data ex), xd_response (ex_data ex))) (tl_exchanges l i)"

lemma captures_fields [simp]:
  "captures (l\<lparr>tl_entries := e\<rparr>) = captures l" "captures (l\<lparr>tl_bytes := b\<rparr>) = captures l"
  "captures (l\<lparr>tl_updates := u\<rparr>) = captures l"
  by (simp_all add: captures_def fun_eq_iff)

lemma captures_change:
  assumes "\<And>d. (xd_mode (f d), xd_request (f d), xd_response (f d)) = (xd_mode d, xd_request d, xd_response d)"
  shows "captures (change_data i f l) = captures l"
  using assms by (auto simp: captures_def fun_eq_iff option.map_comp comp_def)

lemma captures_evict_entries: "captures (fst (evict_entries es st)) = captures (fst st)"
  by (induction es st rule: evict_entries.induct) (simp_all add: Let_def captures_change)

lemma captures_account: "captures (fst (account i st)) = captures (fst st)"
  by (simp add: account_def evict_def captures_evict_entries captures_change recount_def Let_def split: option.splits)

lemma captures_publish: "captures (fst (publish i st)) = captures (fst st)"
  by (simp add: publish_def split: option.splits)

definition held :: "side \<Rightarrow> body_mode \<times> captured \<times> captured \<Rightarrow> captured" where
  "held sd c = (case sd of RequestSide \<Rightarrow> fst (snd c) | ResponseSide \<Rightarrow> snd (snd c))"

definition hold :: "side \<Rightarrow> captured \<Rightarrow> body_mode \<times> captured \<times> captured \<Rightarrow> body_mode \<times> captured \<times> captured" where
  "hold sd x c = (case sd of RequestSide \<Rightarrow> (fst c, x, snd (snd c)) | ResponseSide \<Rightarrow> (fst c, fst (snd c), x))"

lemma held_hold [simp]: "held sd (hold sd x c) = x" "hold sd y (hold sd x c) = hold sd y c" "fst (hold sd x c) = fst c"
  by (simp_all add: held_def hold_def split: side.splits)

lemma captures_chunk:
  "captures (fst st) i = Some c \<Longrightarrow> captures (fst (rec_chunk i sd chunk st)) i = Some (hold sd (push_chunk chunk (held sd c)) c)"
  by (auto simp: rec_chunk_def rec_change_def captures_def held_def hold_def split: side.splits)

lemma captures_finish:
  assumes "captures (fst st) i = Some c"
  shows "captures (fst (rec_finish inflate now i sd state st)) i =
    Some (hold sd (finish_captured inflate state (fst c) (held sd c)) c)"
  using assms
  by (auto simp: rec_finish_def captures_publish captures_account rec_change_def held_def hold_def split: side.splits)
    (auto simp: captures_def)

text \<open>The bytes that pass before the body ends, and how it ends.\<close>

fun chunks_of :: "body_poll list \<Rightarrow> byte list list" where
  "chunks_of [] = []"
| "chunks_of (PolledData chunk # r) = chunk # chunks_of r"
| "chunks_of (PolledOther # r) = chunks_of r"
| "chunks_of (PolledError # r) = []"
| "chunks_of (PolledEnd # r) = []"

fun end_of :: "body_poll list \<Rightarrow> bool \<Rightarrow> body_state" where
  "end_of [] is_end_stream = (if is_end_stream then BodyDone else BodyAborted)"
| "end_of (PolledError # r) is_end_stream = BodyError"
| "end_of (PolledEnd # r) is_end_stream = BodyDone"
| "end_of (_ # r) is_end_stream = end_of r is_end_stream"

definition tapped :: "inflater \<Rightarrow> nat \<Rightarrow> bool \<Rightarrow> body_poll list \<Rightarrow> (nat \<times> side) option \<times> log_state \<Rightarrow> log_state" where
  "tapped inflate now is_end_stream frames tap =
     tap_drop inflate now is_end_stream (fold (tap_poll inflate now) frames tap)"

lemma tapped_over: "tapped inflate now e frames (None, st) = st"
  by (induction frames) (simp_all add: tapped_def tap_poll_def tap_drop_def)

lemma tapped_captures:
  "captures (fst st) i = Some c \<Longrightarrow>
     captures (fst (tapped inflate now e frames (Some (i, sd), st))) i =
       Some (hold sd (finish_captured inflate (end_of frames e) (fst c) (fold push_chunk (chunks_of frames) (held sd c))) c)"
proof (induction frames arbitrary: st c)
  case Nil
  then show ?case by (simp add: tapped_def tap_drop_def captures_finish)
next
  case (Cons frame frames)
  have step: "tapped inflate now e (f # frames) tap = tapped inflate now e frames (tap_poll inflate now f tap)" for f tap
    by (simp add: tapped_def)
  show ?case
  proof (cases frame)
    case (PolledData chunk)
    from Cons.IH [OF captures_chunk [OF Cons.prems, of sd chunk]] show ?thesis by (simp add: step PolledData tap_poll_def)
  next
    case PolledOther
    from Cons.IH [OF Cons.prems] show ?thesis by (simp add: step PolledOther tap_poll_def)
  next
    case PolledError
    then show ?thesis using Cons.prems by (simp add: step tap_poll_def tapped_over captures_finish)
  next
    case PolledEnd
    then show ?thesis using Cons.prems by (simp add: step tap_poll_def tapped_over captures_finish)
  qed
qed

text \<open>
  C23: However a body passes a tap, to its end, to an error, or dropped halfway, and whatever is polled after it
  has ended, its side of the exchange is finished once, by how it ended, with every byte that passed counted and
  those up to the cap kept, unless its kind is not kept; the exchange's other side is not touched, and an exchange
  that the ring has dropped meanwhile is treated alike.
\<close>

theorem tap_records_body:
  assumes "captures (fst st) i = Some (mode, request, response)"
    and "c = (case sd of RequestSide \<Rightarrow> request | ResponseSide \<Rightarrow> response)"
    and "cp_data c = []" and "cp_size c = 0" and "\<not> cp_truncated c"
  shows "let body = concat (chunks_of frames);
      got = finish_captured inflate (end_of frames is_end_stream) mode
        (c\<lparr>cp_size := length body, cp_data := (if is_dropped (cp_keep c) then [] else take BODY_CAP body),
           cp_truncated := (\<not> is_dropped (cp_keep c) \<and> BODY_CAP < length body)\<rparr>)
    in captures (fst (tap_drop inflate now is_end_stream (fold (tap_poll inflate now) frames (Some (i, sd), st)))) i =
      Some (mode, case sd of RequestSide \<Rightarrow> (got, response) | ResponseSide \<Rightarrow> (request, got))"
proof -
  have c: "held sd (mode, request, response) = c" using assms(2) by (simp add: held_def split: side.splits)
  define c' where "c' = c\<lparr>cp_size := length (concat (chunks_of frames)),
    cp_data := (if is_dropped (cp_keep c) then [] else take BODY_CAP (concat (chunks_of frames))),
    cp_truncated := (\<not> is_dropped (cp_keep c) \<and> BODY_CAP < length (concat (chunks_of frames)))\<rparr>"
  have "fold push_chunk (chunks_of frames) c = c'\<lparr>cp_state := if chunks_of frames = [] then cp_state c else BodyStreaming\<rparr>"
    unfolding push_chunks [OF assms(3-5)] c'_def by simp
  then have "finish_captured inflate (end_of frames is_end_stream) mode (fold push_chunk (chunks_of frames) c) =
      finish_captured inflate (end_of frames is_end_stream) mode c'" by (simp only: finish_state)
  with tapped_captures [OF assms(1), of inflate now is_end_stream frames sd, unfolded c fst_conv] show ?thesis
    unfolding tapped_def Let_def c'_def [symmetric] by (simp add: hold_def split: side.splits)
qed

lemma tap_records_body_witness:
  "captures (fst (tap_drop (\<lambda>_ bs. (bs, None)) 5 False (fold (tap_poll (\<lambda>_ bs. (bs, None)) 5) [PolledData [1, 2], PolledData [3]]
     (Some (1, RequestSide), (sample_log, ts_shared recording_store))))) 1 =
   Some (ModeAll, finish_captured (\<lambda>_ bs. (bs, None)) BodyAborted ModeAll
     ((xd_request sample_data)\<lparr>cp_size := 3, cp_data := [1, 2, 3], cp_truncated := False\<rparr>), xd_response sample_data)"
proof -
  have fresh: "captures sample_log 1 = Some (ModeAll, xd_request sample_data, xd_response sample_data)"
    by (simp add: captures_def sample_exchange [unfolded One_nat_def]) (simp add: sample_data_def begin_data_def Let_def)
  have new: "cp_data (xd_request sample_data) = []" "cp_size (xd_request sample_data) = 0"
    "\<not> cp_truncated (xd_request sample_data)" "\<not> is_dropped (cp_keep (xd_request sample_data))"
    by (simp_all add: sample_data_def begin_data_def new_captured_def classify_def is_dropped_def Let_def)
  show ?thesis
    using tap_records_body [of "(sample_log, ts_shared recording_store)" 1, unfolded fst_conv, OF fresh _ new(1-3),
        of RequestSide "[PolledData [1, 2], PolledData [3]]" "\<lambda>_ bs. (bs, None)" False 5] new(4)
    by (simp add: Let_def BODY_CAP_def numeral_3_eq_3)
qed

section \<open>Multipart bodies\<close>

text \<open>
  C24: A multipart body is taken apart into exactly the parts it was made of, in order, with their sizes and their
  contents where those are kept: for any boundary without line breaks, and any parts that do not hold the
  delimiter and whose head ends with its first blank line.
\<close>

theorem multipart_roundtrip:
  assumes "boundary \<noteq> []" and "0x0D \<notin> set (string_bytes boundary)" and "0x0A \<notin> set (string_bytes boundary)"
    and "list_all (plain_part boundary) ps"
  shows "parse_multipart (sent_multipart boundary ps) boundary keep_files = map (received_part keep_files) ps"
proof -
  have start: "\<not> bytes_start (sent_part p) DASHES" for p
    by (simp add: bytes_start_def sent_part_def CRLF_def DASHES_def)
  have stop: "bytes_start (DASHES @ CRLF) DASHES" by (simp add: bytes_start_def)
  have "takeWhile (\<lambda>chunk. \<not> bytes_start chunk DASHES) (map sent_part ps @ [DASHES @ CRLF]) = map sent_part ps"
    by (subst takeWhile_append2) (use start stop in auto)
  moreover have "filter_map (read_part keep_files) (map sent_part ps) = map (received_part keep_files) ps"
    using assms(4)
  proof (induction ps)
    case (Cons p ps)
    then have "read_part keep_files (sent_part p) = Some (received_part keep_files p)"
      by (intro read_sent_part) (simp add: plain_part_def)
    with Cons show ?case by simp
  qed simp
  ultimately show ?thesis using split_multipart [OF assms] by (simp add: parse_multipart_def)
qed

lemma multipart_roundtrip_witness:
  "parse_multipart (sent_multipart ''XyZ'' [([0x41], [0x68, 0x69]), ([], [0x2D, 0x2D])]) ''XyZ'' False =
     map (received_part False) [([0x41], [0x68, 0x69]), ([], [0x2D, 0x2D])]"
  by (rule multipart_roundtrip) (simp_all add: plain_part_def sent_part_def string_bytes_def CRLF_def DASHES_def)

end
