(* ===== verification/Capture.thy ===== *)
theory Capture
  imports Traffic_Claims Workspace_State
begin

text \<open>
  The link between fghjd and a sidecar (\<open>src/web/capture.rs\<close>): one long request carries what to record as lines of
  JSON into the sidecar's store. Modelled are the token check, the sessions, the splitting of the stream
  into lines and what each line does, and on the side of fghjd (\<open>src/daemon/capture.rs\<close>) which workspaces have a
  session and what is taken in of its stream; the JSON of a line is a parameter.
\<close>

unbundle bit_operations_syntax

section \<open>Lines\<close>

text \<open>\<open>Lines::push\<close>: what is complete is drained from the front of the buffer.\<close>

fun position :: "('a \<Rightarrow> bool) \<Rightarrow> 'a list \<Rightarrow> nat option" where
  "position P [] = None"
| "position P (x # xs) = (if P x then Some 0 else map_option Suc (position P xs))"

lemma position_Some: "position P xs = Some i \<Longrightarrow> i < length xs \<and> P (xs ! i) \<and> (\<forall>x\<in>set (take i xs). \<not> P x)"
  by (induction xs arbitrary: i) (auto split: if_splits)

lemma position_None: "position P xs = None \<longleftrightarrow> (\<forall>x\<in>set xs. \<not> P x)"
  by (induction xs) auto

lemma position_append: "position P xs = Some i \<Longrightarrow> position P (xs @ ys) = Some i"
  by (induction xs arbitrary: i) (auto split: if_splits)

function drain_lines :: "byte list \<Rightarrow> byte list list \<times> byte list" where
  "drain_lines buf =
     (case position (\<lambda>b. b = 10) buf of
        None \<Rightarrow> ([], buf)
      | Some at \<Rightarrow> (case drain_lines (drop (at + 1) buf) of (rest, left) \<Rightarrow> (take at buf # rest, left)))"
  by pat_completeness auto
termination by (relation "measure length") (auto dest!: position_Some)

declare drain_lines.simps [simp del]

definition push_lines :: "byte list \<Rightarrow> byte list \<Rightarrow> byte list list \<times> byte list" where
  "push_lines buf data = drain_lines (buf @ data)"

lemma drain_append:
  "drain_lines (xs @ ys) =
     (case drain_lines xs of (ls, left) \<Rightarrow> case drain_lines (left @ ys) of (further, rest) \<Rightarrow> (ls @ further, rest))"
proof (induction xs rule: drain_lines.induct)
  case (1 xs)
  show ?case
  proof (cases "position (\<lambda>b. b = 10) xs")
    case None
    then show ?thesis by (subst (2) drain_lines.simps) (simp split: prod.splits)
  next
    case (Some at)
    then have "at < length xs" using position_Some by blast
    then have cut: "drop (at + 1) (xs @ ys) = drop (at + 1) xs @ ys" "take at (xs @ ys) = take at xs" by simp_all
    have "drain_lines (xs @ ys) = (case drain_lines (drop (at + 1) xs @ ys) of (rest, left) \<Rightarrow> (take at xs # rest, left))"
      by (subst drain_lines.simps) (simp only: position_append [OF Some] option.case cut)
    moreover have "drain_lines xs = (case drain_lines (drop (at + 1) xs) of (rest, left) \<Rightarrow> (take at xs # rest, left))"
      using Some by (subst drain_lines.simps) simp
    ultimately show ?thesis using 1 [OF Some] by (simp split: prod.splits)
  qed
qed

text \<open>However the stream is cut into chunks, the lines are those of the whole.\<close>

fun push_all :: "byte list \<Rightarrow> byte list list \<Rightarrow> byte list list \<times> byte list" where
  "push_all buf [] = ([], buf)"
| "push_all buf (c # cs) =
     (case push_lines buf c of (ls, left) \<Rightarrow> case push_all left cs of (further, rest) \<Rightarrow> (ls @ further, rest))"

lemma drain_left: "drain_lines xs = (ls, left) \<Longrightarrow> drain_lines left = ([], left)"
proof (induction xs arbitrary: ls rule: drain_lines.induct)
  case (1 xs)
  show ?case
  proof (cases "position (\<lambda>b. b = 10) xs")
    case None
    with 1(2) have "left = xs" by (simp add: drain_lines.simps)
    with None show ?thesis by (simp add: drain_lines.simps)
  next
    case (Some at)
    from 1(2) Some obtain rest where "drain_lines (drop (at + 1) xs) = (rest, left)"
      by (subst (asm) drain_lines.simps) (auto split: prod.splits)
    from 1(1) [OF Some this] show ?thesis .
  qed
qed

lemma chunks_do_not_matter: "drain_lines buf = ([], buf) \<Longrightarrow> push_all buf chunks = drain_lines (buf @ concat chunks)"
proof (induction chunks arbitrary: buf)
  case (Cons c cs)
  obtain ls left where first: "drain_lines (buf @ c) = (ls, left)" by fastforce
  from Cons.IH [OF drain_left [OF this]] first drain_append [of "buf @ c" "concat cs"] show ?case
    by (simp add: push_lines_def split: prod.splits)
qed simp

section \<open>The token\<close>

definition text_bytes :: "string \<Rightarrow> byte list" where
  "text_bytes s = map (\<lambda>c. of_nat (code c)) s"

definition authorized :: "string option \<Rightarrow> string option \<Rightarrow> bool" where
  "authorized token_file header =
     (case token_file of
        None \<Rightarrow> False
      | Some contents \<Rightarrow>
          (let expected = trim contents;
               given = (case header of
                   None \<Rightarrow> []
                 | Some v \<Rightarrow> (case strip_prefix v ''Bearer '' of None \<Rightarrow> [] | Some t \<Rightarrow> t))
           in expected \<noteq> [] \<and> length expected = length given \<and>
              fold (\<lambda>(a, b) acc. acc OR (a XOR b)) (zip (text_bytes expected) (text_bytes given)) 0 = 0))"

lemma or_zero: "(a :: 'a::len word) OR b = 0 \<longleftrightarrow> a = 0 \<and> b = 0"
  by (auto simp: bit_eq_iff bit_or_iff)

lemma xor_zero: "(a :: 'a::len word) XOR b = 0 \<longleftrightarrow> a = b"
  by (auto simp: bit_eq_iff bit_xor_iff)

lemma fold_or_zero:
  "fold (\<lambda>(a, b) acc. acc OR (a XOR b)) ps (s :: byte) = 0 \<longleftrightarrow> s = 0 \<and> (\<forall>(a, b)\<in>set ps. a = b)"
  by (induction ps arbitrary: s) (auto simp: or_zero xor_zero)

lemma text_bytes_inj: "text_bytes s = text_bytes t \<longleftrightarrow> s = t"
proof -
  have "inj (\<lambda>c. of_nat (code c) :: byte)"
  proof (rule injI)
    fix c d :: char
    assume "(of_nat (code c) :: byte) = of_nat (code d)"
    then have "unat (of_nat (code c) :: byte) = unat (of_nat (code d) :: byte)" by simp
    moreover have "code c < 256" "code d < 256" by (simp_all add: code_def)
    ultimately have "code c = code d" by (simp add: unat_of_nat)
    then show "c = d" by (simp add: code_def)
  qed
  then show ?thesis by (simp add: text_bytes_def inj_map_eq_map)
qed

lemma given_exact:
  "e \<noteq> [] \<and> e = (case h of None \<Rightarrow> [] | Some v \<Rightarrow> (case strip_prefix v p of None \<Rightarrow> [] | Some t \<Rightarrow> t)) \<longleftrightarrow>
     e \<noteq> [] \<and> h = Some (p @ e)"
proof (cases h)
  case (Some v)
  then show ?thesis
  proof (cases "strip_prefix v p")
    case None
    then have "v \<noteq> p @ e" by auto
    with None Some show ?thesis by simp
  next
    case (Some t)
    then have "v = p @ t" by (simp add: strip_prefix_Some)
    with Some \<open>h = Some v\<close> show ?thesis by auto
  qed
qed simp

text \<open>The constant-time comparison is equality.\<close>

lemma zip_same: "length xs = length ys \<Longrightarrow> (\<forall>(a, b)\<in>set (zip xs ys). a = b) \<longleftrightarrow> xs = ys"
  by (induction xs ys rule: list_induct2) auto

lemma text_bytes_length [simp]: "length (text_bytes s) = length s"
  by (simp add: text_bytes_def)

lemma same_texts:
  "e \<noteq> [] \<and> length e = length g \<and> fold (\<lambda>(a, b) acc. acc OR (a XOR b)) (zip (text_bytes e) (text_bytes g)) 0 = 0 \<longleftrightarrow>
     e \<noteq> [] \<and> e = g"
proof (cases "length e = length g")
  case True
  then have "fold (\<lambda>(a, b) acc. acc OR (a XOR b)) (zip (text_bytes e) (text_bytes g)) 0 = 0 \<longleftrightarrow> e = g"
    unfolding fold_or_zero by (subst zip_same) (simp_all add: text_bytes_inj)
  with True show ?thesis by blast
qed auto

lemma authorized_exact:
  "authorized token_file header \<longleftrightarrow>
     (\<exists>contents. token_file = Some contents \<and> trim contents \<noteq> [] \<and> header = Some (''Bearer '' @ trim contents))"
proof (cases token_file)
  case None
  then show ?thesis by (simp add: authorized_def)
next
  case (Some contents)
  have "authorized token_file header \<longleftrightarrow> trim contents \<noteq> [] \<and> header = Some (''Bearer '' @ trim contents)"
    unfolding authorized_def Some option.case Let_def same_texts by (rule given_exact)
  then show ?thesis by (simp add: Some)
qed

section \<open>Sessions\<close>

text \<open>
  \<open>lk_newest\<close> is the counter of the source; an open session has its own buffer. What the sidecar streams back is
  \<open>snapshot_all\<close> and what the store publishes after it, which \<open>Traffic\<close> has.
\<close>

datatype capture_reply = CaptureNotFound | CaptureMethodNotAllowed | CaptureUnauthorized | CaptureStream

record capture_link =
  lk_newest :: nat
  lk_open :: "(nat \<times> byte list) list"
  lk_store :: traffic_store

definition SIDECAR_WORKSPACE :: string where "SIDECAR_WORKSPACE = []"

definition handle_capture ::
  "string \<Rightarrow> string \<Rightarrow> string option \<Rightarrow> string option \<Rightarrow> capture_link \<Rightarrow> capture_reply \<times> capture_link" where
  "handle_capture path meth token_file header lk =
     (if path \<noteq> ''/capture'' then (CaptureNotFound, lk)
      else if meth \<noteq> ''POST'' then (CaptureMethodNotAllowed, lk)
      else if \<not> authorized token_file header then (CaptureUnauthorized, lk)
      else let i = lk_newest lk + 1 in
        (CaptureStream, lk\<lparr>lk_newest := i, lk_open := lk_open lk @ [(i, [])], lk_store := subscribe_all (lk_store lk)\<rparr>))"

type_synonym modes_reader = "byte list \<Rightarrow> (string, body_mode) btree option"

definition read_line :: "modes_reader \<Rightarrow> nat \<Rightarrow> byte list \<Rightarrow> traffic_store \<Rightarrow> traffic_store" where
  "read_line modes_of now_ms line ts =
     (case modes_of line of Some modes \<Rightarrow> apply_modes now_ms SIDECAR_WORKSPACE modes ts | None \<Rightarrow> ts)"

text \<open>A frame of a session's request body.\<close>

definition read_frame :: "modes_reader \<Rightarrow> nat \<Rightarrow> nat \<Rightarrow> byte list \<Rightarrow> capture_link \<Rightarrow> capture_link" where
  "read_frame modes_of now_ms i data lk =
     (case map_of (lk_open lk) i of
        None \<Rightarrow> lk
      | Some buf \<Rightarrow>
          (case push_lines buf data of (ls, left) \<Rightarrow>
             lk\<lparr>lk_open := map (\<lambda>(j, b). (j, if j = i then left else b)) (lk_open lk),
                lk_store := fold (read_line modes_of now_ms) ls (lk_store lk)\<rparr>))"

definition end_capture :: "nat \<Rightarrow> nat \<Rightarrow> capture_link \<Rightarrow> capture_link" where
  "end_capture now_ms i lk =
     lk\<lparr>lk_open := filter (\<lambda>e. fst e \<noteq> i) (lk_open lk),
        lk_store := (if lk_newest lk = i then apply_modes now_ms SIDECAR_WORKSPACE [] (lk_store lk) else lk_store lk)\<rparr>"

text \<open>
  The life of a sidecar. Its proxy records into the store all the while, which sets no mode; a frame
  arrives on the newest session or, when \<open>late\<close> is allowed, on one that another has replaced.
\<close>

inductive link_reach :: "bool \<Rightarrow> modes_reader \<Rightarrow> capture_link \<Rightarrow> bool" for late modes_of where
  lr_start: "link_reach late modes_of \<lparr>lk_newest = 0, lk_open = [], lk_store = empty_store\<rparr>"
| lr_request: "link_reach late modes_of lk \<Longrightarrow>
    link_reach late modes_of (snd (handle_capture path meth token_file header lk))"
| lr_frame: "link_reach late modes_of lk \<Longrightarrow> i \<in> fst ` set (lk_open lk) \<Longrightarrow> late \<or> i = lk_newest lk \<Longrightarrow>
    link_reach late modes_of (read_frame modes_of now_ms i data lk)"
| lr_end: "link_reach late modes_of lk \<Longrightarrow> i \<in> fst ` set (lk_open lk) \<Longrightarrow>
    link_reach late modes_of (end_capture now_ms i lk)"
| lr_traffic: "link_reach late modes_of lk \<Longrightarrow> log_operation f \<Longrightarrow>
    (\<And>st. tl_mode (fst (f st)) = tl_mode (fst st)) \<Longrightarrow>
    link_reach late modes_of (lk\<lparr>lk_store := on_log key f (lk_store lk)\<rparr>)"

section \<open>The side of fghjd\<close>

text \<open>
  \<open>daemon/capture.rs\<close>: one session per workspace that records and has a network, with a task that pulls. A
  session that is dropped aborts its task.
\<close>

record capture_session =
  cs_modes :: "(string \<times> body_mode) list"
  cs_task :: nat

record capture_puller =
  cp_sessions :: "(string, capture_session) btree"
  cp_running :: "nat list"
  cp_next :: nat

definition hang_up :: "string \<Rightarrow> capture_puller \<Rightarrow> capture_puller" where
  "hang_up ws p =
     (case map_of (cp_sessions p) ws of
        None \<Rightarrow> p
      | Some s \<Rightarrow> p\<lparr>cp_sessions := bt_remove ws (cp_sessions p), cp_running := filter (\<lambda>t. t \<noteq> cs_task s) (cp_running p)\<rparr>)"

definition is_networked :: "workspace_state \<Rightarrow> bool" where
  "is_networked st = (case ws_env st of Some env \<Rightarrow> es_network env \<noteq> [] | None \<Rightarrow> False)"

definition sync_one :: "traffic_store \<Rightarrow> string \<times> workspace_state \<Rightarrow> capture_puller \<Rightarrow> capture_puller" where
  "sync_one store entry p =
     (case entry of (ws, st) \<Rightarrow>
       (let modes = recording ws store in
        if modes = [] \<or> \<not> is_networked st then hang_up ws p
        else case map_of (cp_sessions p) ws of
            Some s \<Rightarrow> p\<lparr>cp_sessions := bt_insert ws (s\<lparr>cs_modes := modes\<rparr>) (cp_sessions p)\<rparr>
          | None \<Rightarrow> p\<lparr>cp_sessions := bt_insert ws \<lparr>cs_modes = modes, cs_task = cp_next p\<rparr> (cp_sessions p),
                      cp_running := cp_running p @ [cp_next p], cp_next := cp_next p + 1\<rparr>))"

definition sync_sessions :: "(string, workspace_state) btree \<Rightarrow> traffic_store \<Rightarrow> capture_puller \<Rightarrow> capture_puller" where
  "sync_sessions states store p =
     fold (sync_one store) states
       (fold hang_up (filter (\<lambda>ws. \<not> bt_has states ws) (bt_keys (cp_sessions p))) p)"

text \<open>
  What \<open>pull\<close> does with a chunk of the stream, and what is ingested of a line: the caller's address is replaced
  by its node when it is known. A line that cannot be read ends the session.
\<close>

definition take_shipped :: "(string \<times> string) list \<Rightarrow> string \<Rightarrow> nat \<Rightarrow> shipped \<Rightarrow> traffic_store \<Rightarrow> traffic_store" where
  "take_shipped names ws origin sp ts =
     (let sp = (case map_of names (xd_source (sp_data sp)) of
            Some n \<Rightarrow> sp\<lparr>sp_data := (sp_data sp)\<lparr>xd_source := n\<rparr>\<rparr> | None \<Rightarrow> sp)
      in on_log (ws, sp_node sp) (ingest origin sp) ts)"

fun take_lines :: "(byte list \<Rightarrow> shipped option) \<Rightarrow> (shipped \<Rightarrow> 's \<Rightarrow> 's) \<Rightarrow> byte list list \<Rightarrow> 's \<Rightarrow> 's \<times> bool" where
  "take_lines parse accept [] ts = (ts, True)"
| "take_lines parse accept (l # ls) ts =
     (case parse l of Some sp \<Rightarrow> take_lines parse accept ls (accept sp ts) | None \<Rightarrow> (ts, False))"

fun pull_chunks ::
  "(byte list \<Rightarrow> shipped option) \<Rightarrow> (shipped \<Rightarrow> 's \<Rightarrow> 's) \<Rightarrow> byte list \<Rightarrow> byte list list \<Rightarrow> 's \<Rightarrow> 's \<times> bool" where
  "pull_chunks parse accept buf [] ts = (ts, True)"
| "pull_chunks parse accept buf (c # cs) ts =
     (case push_lines buf c of (ls, left) \<Rightarrow>
        (case take_lines parse accept ls ts of
           (ts', True) \<Rightarrow> pull_chunks parse accept left cs ts'
         | (ts', False) \<Rightarrow> (ts', False)))"

definition nodes_by_ip :: "env_state \<Rightarrow> (string \<times> string) list \<Rightarrow> (string \<times> string) list" where
  "nodes_by_ip env ips =
     filter_map (\<lambda>(ip, container).
         map_option (\<lambda>c. (ip, ci_node_id c))
           (find (\<lambda>c. cd_container_name (ci_desired c) = container) (bt_values (es_containers env)))) ips"

lemma take_lines_append:
  "take_lines parse accept (xs @ ys) ts =
     (case take_lines parse accept xs ts of (ts', True) \<Rightarrow> take_lines parse accept ys ts' | (ts', False) \<Rightarrow> (ts', False))"
  by (induction xs arbitrary: ts) (auto split: option.splits)

text \<open>However the stream is cut into chunks, what is taken in is what its lines hold, up to the first that cannot be read.\<close>

lemma pull_takes_the_lines:
  "drain_lines buf = ([], buf) \<Longrightarrow>
     pull_chunks parse accept buf chunks ts = take_lines parse accept (fst (drain_lines (buf @ concat chunks))) ts"
proof (induction chunks arbitrary: buf ts)
  case (Cons c cs)
  obtain ls left where first: "drain_lines (buf @ c) = (ls, left)" by fastforce
  obtain further rest where later: "drain_lines (left @ concat cs) = (further, rest)" by fastforce
  have "fst (drain_lines (buf @ concat (c # cs))) = ls @ further"
    using drain_append [of "buf @ c" "concat cs"] first later by simp
  moreover have "pull_chunks parse accept left cs ts' = take_lines parse accept further ts'" for ts'
    using Cons.IH [OF drain_left [OF first], of ts'] later by simp
  ultimately show ?case
    using first by (auto simp: push_lines_def take_lines_append split: prod.splits bool.splits)
qed simp

lemma hang_up_get:
  "bt_wf (cp_sessions p) \<Longrightarrow> map_of (cp_sessions (hang_up ws p)) k = (if k = ws then None else map_of (cp_sessions p) k)"
  "bt_wf (cp_sessions p) \<Longrightarrow> bt_wf (cp_sessions (hang_up ws p))"
  by (auto simp: hang_up_def split: option.splits)

lemma hang_up_all_get:
  "bt_wf (cp_sessions p) \<Longrightarrow> map_of (cp_sessions (fold hang_up wss p)) k = (if k \<in> set wss then None else map_of (cp_sessions p) k)"
  "bt_wf (cp_sessions p) \<Longrightarrow> bt_wf (cp_sessions (fold hang_up wss p))"
  by (induction wss arbitrary: p) (simp_all add: hang_up_get)

text \<open>What a workspace is to have: a session while it records and has a network, with what to record now.\<close>

definition to_record :: "traffic_store \<Rightarrow> workspace_state \<Rightarrow> string \<Rightarrow> (string \<times> body_mode) list option" where
  "to_record store st ws = (if recording ws store = [] \<or> \<not> is_networked st then None else Some (recording ws store))"

lemma sync_one_get:
  assumes "bt_wf (cp_sessions p)"
  shows "map_option cs_modes (map_of (cp_sessions (sync_one store (ws, st) p)) k) =
      (if k = ws then to_record store st ws else map_option cs_modes (map_of (cp_sessions p) k))"
    and "bt_wf (cp_sessions (sync_one store (ws, st) p))"
  using assms by (auto simp: sync_one_def Let_def to_record_def hang_up_get split: option.splits)

lemma sync_all_get:
  assumes "distinct (map fst states)"
  shows "bt_wf (cp_sessions p) \<Longrightarrow> map_option cs_modes (map_of (cp_sessions (fold (sync_one store) states p)) k) =
      (case map_of states k of Some st \<Rightarrow> to_record store st k | None \<Rightarrow> map_option cs_modes (map_of (cp_sessions p) k))"
  using assms
proof (induction states arbitrary: p)
  case (Cons e states)
  obtain ws st where e: "e = (ws, st)" by fastforce
  from Cons.prems have "map_of states ws = None" by (simp add: e map_of_eq_None_iff)
  with Cons.IH [OF sync_one_get(2) [OF Cons.prems(1)], of store ws st] Cons.prems show ?case
    by (simp add: e sync_one_get(1) split: option.splits)
qed simp

text \<open>After a round exactly the workspaces that record and have a network have a session, which asks for what they record.\<close>

lemma sessions_follow_recording:
  assumes "bt_wf (cp_sessions p)" and "bt_wf states"
  shows "map_option cs_modes (map_of (cp_sessions (sync_sessions states store p)) ws) =
    (case map_of states ws of Some st \<Rightarrow> to_record store st ws | None \<Rightarrow> None)"
proof -
  let ?p = "fold hang_up (filter (\<lambda>ws. \<not> bt_has states ws) (bt_keys (cp_sessions p))) p"
  have "map_of (cp_sessions ?p) ws = None" if "map_of states ws = None"
  proof -
    have "ws \<in> set (bt_keys (cp_sessions p)) \<or> map_of (cp_sessions p) ws = None"
      by (auto simp: bt_keys_def map_of_eq_None_iff)
    with that show ?thesis using hang_up_all_get(1) [OF assms(1)] by (auto simp: bt_has_iff)
  qed
  then show ?thesis
    unfolding sync_sessions_def
    using sync_all_get [OF bt_wf_distinct [OF assms(2)] hang_up_all_get(2) [OF assms(1)]]
    by (simp split: option.splits)
qed

section \<open>Nothing is recorded unwatched\<close>

definition silent :: "traffic_store \<Rightarrow> bool" where
  "silent ts = (\<forall>k. fst k = SIDECAR_WORKSPACE \<longrightarrow> tl_mode (store_log k ts) = None)"

lemma store_log_at: "store_log j (on_log k f ts) = (if j = k then fst (f (store_log k ts, ts_shared ts)) else store_log j ts)"
  by (simp add: store_log_def on_log_def split: prod.splits)

lemma changes_keep_mode: "tl_mode (fold (\<lambda>i. change_data i f) is l) = tl_mode l"
  by (induction "is" arbitrary: l) (simp_all add: change_data_def Let_def split: option.splits)

lemma stop_log_mode: "tl_mode (fst (stop_log now_ms st)) = None"
  by (cases st) (simp add: stop_log_def clear_log_def set_mode_def Let_def changes_keep_mode)

lemma stop_all_silent:
  "tl_mode (store_log k (fold (\<lambda>key. on_log key (stop_log now_ms)) ks ts)) =
     (if k \<in> set ks then None else tl_mode (store_log k ts))"
  by (induction ks arbitrary: ts) (auto simp: store_log_at stop_log_mode)

lemma unknown_log_silent: "k \<notin> set (bt_keys (ts_logs ts)) \<Longrightarrow> tl_mode (store_log k ts) = None"
proof -
  assume "k \<notin> set (bt_keys (ts_logs ts))"
  then have "map_of (ts_logs ts) k = None" by (simp add: map_of_eq_None_iff bt_keys_def)
  then show ?thesis by (simp add: store_log_def new_log_def)
qed

lemma no_modes_silent: "silent (apply_modes now_ms SIDECAR_WORKSPACE [] ts)"
  unfolding silent_def apply_modes_def Let_def
  by (auto simp: stop_all_silent bt_has_def intro: unknown_log_silent)

lemma silent_kept:
  "silent ts \<Longrightarrow> (\<And>st. tl_mode (fst (f st)) = tl_mode (fst st)) \<Longrightarrow> silent (on_log key f ts)"
  unfolding silent_def store_log_at by auto

text \<open>Sessions are numbered up to the newest, and while that one is not open nothing is recorded.\<close>

definition link_ok :: "capture_link \<Rightarrow> bool" where
  "link_ok lk =
     ((\<forall>i\<in>fst ` set (lk_open lk). i \<le> lk_newest lk) \<and>
      (lk_newest lk \<notin> fst ` set (lk_open lk) \<longrightarrow> silent (lk_store lk)))"

lemma map_of_in: "map_of m i = Some x \<Longrightarrow> i \<in> fst ` set m"
  by (metis domI dom_map_of_conv_image_fst)

lemma link_reach_ok: "link_reach late modes_of lk \<Longrightarrow> \<not> late \<Longrightarrow> link_ok lk"
proof (induction rule: link_reach.induct)
  case lr_start
  then show ?case by (simp add: link_ok_def silent_def store_log_def empty_store_def new_log_def)
next
  case (lr_request lk path meth token_file header)
  then show ?case
    by (force simp: link_ok_def handle_capture_def Let_def silent_def)
next
  case (lr_frame lk i now_ms data)
  then have "i = lk_newest lk" "link_ok lk" by simp_all
  moreover have "fst ` set (lk_open (read_frame modes_of now_ms i data lk)) = fst ` set (lk_open lk)"
    "lk_newest (read_frame modes_of now_ms i data lk) = lk_newest lk"
    by (simp_all add: read_frame_def image_image case_prod_beta split: option.splits prod.splits)
  ultimately show ?case
    using lr_frame(2) by (simp add: link_ok_def)
next
  case (lr_end lk i now_ms)
  then show ?case
    by (auto simp: end_capture_def link_ok_def no_modes_silent)
next
  case (lr_traffic lk f key)
  then show ?case by (auto simp: link_ok_def intro: silent_kept)
qed

lemma silent_recording: "silent ts \<Longrightarrow> bt_wf (ts_logs ts) \<Longrightarrow> recording SIDECAR_WORKSPACE ts = []"
proof -
  assume silent: "silent ts" and wf: "bt_wf (ts_logs ts)"
  have "tl_mode l = None" if "(k, l) \<in> set (ts_logs ts)" "fst k = SIDECAR_WORKSPACE" for k l
  proof -
    from that(1) wf have "store_log k ts = l" by (simp add: store_log_def bt_in_set)
    moreover have "tl_mode (store_log k ts) = None" using silent that(2) by (cases k) (simp add: silent_def)
    ultimately show ?thesis by simp
  qed
  then have "set (recording SIDECAR_WORKSPACE ts) = {}"
    by (auto simp: recording_def set_filter_map split: if_splits)
  then show ?thesis by simp
qed

lemma read_lines_reachable: "reachable_store ts \<Longrightarrow> reachable_store (fold (read_line modes_of now_ms) ls ts)"
  by (induction ls arbitrary: ts) (auto simp: read_line_def intro: rs_modes split: option.split)

lemma link_store_reachable: "link_reach late modes_of lk \<Longrightarrow> reachable_store (lk_store lk)"
proof (induction rule: link_reach.induct)
  case lr_start
  then show ?case by (simp add: rs_empty)
next
  case (lr_request lk path meth token_file header)
  then show ?case by (auto simp: handle_capture_def Let_def intro: rs_subscribe)
next
  case (lr_frame lk i now_ms data)
  then show ?case by (auto simp: read_frame_def intro: read_lines_reachable split: option.split prod.split)
next
  case (lr_end lk i now_ms)
  then show ?case by (auto simp: end_capture_def intro: rs_modes)
next
  case (lr_traffic lk f key)
  then show ?case by (auto intro: rs_log)
qed

text \<open>A sidecar that is asked to record, in two chunks, and then left.\<close>

definition api_modes :: modes_reader where
  "api_modes line = (if line = [1, 2] then Some [(''api'', ModeText)] else None)"

definition asked_link :: capture_link where
  "asked_link = snd (handle_capture ''/capture'' ''POST'' (Some ''secret'') (Some ''Bearer secret'')
     \<lparr>lk_newest = 0, lk_open = [], lk_store = empty_store\<rparr>)"

definition recording_link :: capture_link where
  "recording_link = read_frame api_modes 0 1 [2, 10, 1] (read_frame api_modes 0 1 [1] asked_link)"


lemma recording_link_reached: "link_reach late api_modes recording_link" "lk_open recording_link = [(1, [1])]"
  "lk_newest recording_link = 1" "recording SIDECAR_WORKSPACE (lk_store recording_link) = [(''api'', ModeText)]"
proof -
  show opened: "lk_open recording_link = [(1, [1])]" "lk_newest recording_link = 1" by code_simp+
  show "recording SIDECAR_WORKSPACE (lk_store recording_link) = [(''api'', ModeText)]" by code_simp
  have asked: "link_reach late api_modes asked_link" unfolding asked_link_def by (intro link_reach.intros)
  have first: "lk_open asked_link = [(1, [])]" "lk_newest asked_link = 1" by code_simp+
  have one: "link_reach late api_modes (read_frame api_modes 0 1 [1] asked_link)"
    by (rule link_reach.lr_frame [OF asked]) (simp_all add: first)
  have second: "lk_open (read_frame api_modes 0 1 [1] asked_link) = [(1, [1])]"
    "lk_newest (read_frame api_modes 0 1 [1] asked_link) = 1" by code_simp+
  show "link_reach late api_modes recording_link"
    unfolding recording_link_def by (rule link_reach.lr_frame [OF one]) (simp_all add: second [simplified])
qed


text \<open>
  The proviso is needed: a replaced session that still brings a line after the newest ended starts the
  recording again, and its own end stops nothing.
\<close>

definition forgotten_link :: capture_link where
  "forgotten_link = end_capture 0 1 (read_frame api_modes 0 1 [2, 10] (end_capture 0 2
     (snd (handle_capture ''/capture'' ''POST'' (Some ''secret'') (Some ''Bearer secret'') recording_link))))"

lemma replaced_session_records_unwatched:
  "lk_open forgotten_link = []" "recording SIDECAR_WORKSPACE (lk_store forgotten_link) = [(''api'', ModeText)]"
  by code_simp+

end
