(* ===== verification/Reducer.thy ===== *)
theory Reducer
  imports Workspace_State
begin

text \<open>
  The actions (\<open>src/action.rs\<close>) and the pure state machine (\<open>src/reducer\<close>). A reducer returns
  \<open>None\<close> where the source would panic (\<open>unreachable!\<close>), \<open>Some (Inl r)\<close> for a refused request
  and \<open>Some (Inr s)\<close> for the next state.
\<close>

datatype action =
    EnvPlanned env_spec
  | NodeStartRequested node_id
  | NodeStopRequested node_id
  | NodeDebugWaitRequested node_id bool
  | NodeDeleteRequested node_id
  | ContainerObserved node_id string "port option" "(string, port option) btree" "int option" bool
      container_observed
  | ContainerActionSettled node_id "pending_action option" "string + container_info option"
  | EnvCreateSettled "env_create_error + env_state"
  | EnvCreateProgress string string "string option" container_info
  | SidecarRestored string
  | EnvCreateWorking node_id "pending_action option"
  | VolumeObserved string bool
  | ConfigDriftObserved node_id sync_status "bool option"
  | OwnerSet workspace_owner

datatype action_rejected = AlreadyInFlight | NoEnvironment | NodeNotFound

section \<open>Requests (env.rs)\<close>

definition starting_placeholder :: "node_id \<Rightarrow> container_info" where
  "starting_placeholder n =
     \<lparr>ci_node_id = n,
      ci_desired = \<lparr>cd_running = True, cd_container_name = [], cd_domain = [], cd_raw_domain = [],
        cd_routes = [], cd_additional_hosts = [], cd_status_port = None, cd_config_hash = [],
        cd_source = None, cd_terminating = False, cd_debug_wait = False\<rparr>,
      ci_observed = default_observed,
      ci_pending_action = Some Starting\<rparr>"

definition put_container :: "workspace_state \<Rightarrow> env_state \<Rightarrow> container_info \<Rightarrow> node_id \<Rightarrow> workspace_state" where
  "put_container s e c n = s\<lparr>ws_env := Some (e\<lparr>es_containers := bt_insert n c (es_containers e)\<rparr>)\<rparr>"

definition lookup_mut :: "workspace_state \<Rightarrow> node_id \<Rightarrow> action_rejected + (env_state \<times> container_info)" where
  "lookup_mut s n =
     (case ws_env s of
        None \<Rightarrow> Inl NoEnvironment
      | Some e \<Rightarrow>
          if es_pending_create e \<noteq> None then Inl AlreadyInFlight
          else case map_of (es_containers e) n of None \<Rightarrow> Inl NodeNotFound | Some c \<Rightarrow> Inr (e, c))"

definition set_debug_wait :: "workspace_state \<Rightarrow> node_id \<Rightarrow> bool \<Rightarrow> action_rejected + workspace_state" where
  "set_debug_wait s n wait =
     (case ws_env s of
        None \<Rightarrow> Inl NoEnvironment
      | Some e \<Rightarrow>
          (case map_of (es_containers e) n of
             None \<Rightarrow> Inl NodeNotFound
           | Some c \<Rightarrow>
               if ci_pending_action c \<noteq> None then Inl AlreadyInFlight
               else Inr (put_container s e
                      (c\<lparr>ci_desired := (ci_desired c)\<lparr>cd_debug_wait := wait, cd_running := True\<rparr>,
                         ci_pending_action := Some Starting\<rparr>) n)))"

definition start_node :: "workspace_state \<Rightarrow> node_id \<Rightarrow> action_rejected + workspace_state" where
  "start_node s n =
     (case ws_env s of
        None \<Rightarrow> Inr (s\<lparr>ws_env := Some (default_env\<lparr>es_pending_create := Some (EnvNode n)\<rparr>)\<rparr>)
      | Some e \<Rightarrow>
          if es_pending_create e \<noteq> None then Inl AlreadyInFlight
          else (case map_of (es_containers e) n of
             Some c \<Rightarrow>
               if ci_pending_action c \<noteq> None then Inl AlreadyInFlight
               else Inr (put_container s e
                      (c\<lparr>ci_desired := (ci_desired c)\<lparr>cd_running := True\<rparr>,
                         ci_pending_action := Some Starting\<rparr>) n)
           | None \<Rightarrow> Inr (put_container s e (starting_placeholder n) n)))"

definition is_placeholder :: "container_info \<Rightarrow> bool" where
  "is_placeholder c = (cd_container_name (ci_desired c) = [])"

definition set_pending ::
  "workspace_state \<Rightarrow> node_id \<Rightarrow> pending_action \<Rightarrow> bool \<Rightarrow> action_rejected + workspace_state" where
  "set_pending s n pending desired_running =
     (case lookup_mut s n of
        Inl r \<Rightarrow> Inl r
      | Inr (e, c) \<Rightarrow>
          (let mark = Inr (put_container s e
                 (c\<lparr>ci_desired := (ci_desired c)\<lparr>cd_running := desired_running\<rparr>,
                    ci_pending_action := Some pending\<rparr>) n)
           in case ci_pending_action c of
                None \<Rightarrow> mark
              | Some Starting \<Rightarrow>
                  if cd_container_name (ci_desired c) = []
                  then Inr (s\<lparr>ws_env := Some (e\<lparr>es_containers := bt_remove n (es_containers e)\<rparr>)\<rparr>)
                  else mark
              | Some _ \<Rightarrow> Inl AlreadyInFlight))"

definition env_plan :: "workspace_state \<Rightarrow> env_spec \<Rightarrow> action_rejected + workspace_state" where
  "env_plan s plan =
     (let e = (case ws_env s of None \<Rightarrow> default_env | Some e \<Rightarrow> e)
      in if es_pending_create e \<noteq> None then Inl AlreadyInFlight
         else Inr (s\<lparr>ws_env := Some (e\<lparr>es_pending_create := Some plan\<rparr>)\<rparr>))"

definition wants_running :: "workspace_state \<Rightarrow> node_id \<Rightarrow> bool" where
  "wants_running s n =
     (case ws_env s of
        None \<Rightarrow> False
      | Some e \<Rightarrow> (case map_of (es_containers e) n of None \<Rightarrow> False | Some c \<Rightarrow> cd_running (ci_desired c)))"

fun env_reduce :: "workspace_state \<Rightarrow> action \<Rightarrow> (action_rejected + workspace_state) option" where
  "env_reduce s (EnvPlanned plan) = Some (env_plan s plan)"
| "env_reduce s (NodeStartRequested n) = Some (start_node s n)"
| "env_reduce s (NodeDebugWaitRequested n wait) = Some (set_debug_wait s n wait)"
| "env_reduce s (NodeStopRequested n) = Some (set_pending s n Stopping False)"
| "env_reduce s (NodeDeleteRequested n) = Some (set_pending s n Removing (wants_running s n))"
| "env_reduce s _ = None"

section \<open>Reports (observation.rs)\<close>

definition update_env :: "(env_state \<Rightarrow> env_state) \<Rightarrow> workspace_state \<Rightarrow> workspace_state" where
  "update_env f s = s\<lparr>ws_env := map_option f (ws_env s)\<rparr>"

definition update_container ::
  "node_id \<Rightarrow> (container_info \<Rightarrow> container_info) \<Rightarrow> workspace_state \<Rightarrow> workspace_state" where
  "update_container n f = update_env (\<lambda>e. e\<lparr>es_containers := bt_modify n f (es_containers e)\<rparr>)"

definition take_reading ::
  "string \<Rightarrow> port option \<Rightarrow> (string, port option) btree \<Rightarrow> int option \<Rightarrow> bool \<Rightarrow> container_observed
   \<Rightarrow> container_info \<Rightarrow> container_info" where
  "take_reading status published ports exit_code unseen based_on c =
     (let r = ci_observed c in
      if ci_pending_action c \<noteq> None \<or> \<not> same_reading r based_on then c
      else if unseen then c\<lparr>ci_observed := r\<lparr>co_unseen := True\<rparr>\<rparr>
      else c\<lparr>ci_observed := settle_interruption
               (r\<lparr>co_unseen := False, co_status := status, co_published_port := published,
                  co_ports := ports, co_exit_code := exit_code\<rparr>)
               (co_unseen r)\<rparr>)"

definition clear_create_marks :: "env_state \<Rightarrow> env_state" where
  "clear_create_marks e =
     e\<lparr>es_pending_create := None,
       es_containers := bt_map (\<lambda>_ c. c\<lparr>ci_pending_action := None\<rparr>)
         (bt_retain (\<lambda>_ c. \<not> is_placeholder c) (es_containers e))\<rparr>"

definition settle_action ::
  "node_id \<Rightarrow> pending_action option \<Rightarrow> string + container_info option \<Rightarrow> env_state \<Rightarrow> env_state" where
  "settle_action n act result e =
     (let current = (case map_of (es_containers e) n of None \<Rightarrow> None | Some c \<Rightarrow> ci_pending_action c)
      in if act \<noteq> None \<and> act \<noteq> current then e
         else case result of
           Inr (Some info) \<Rightarrow>
             e\<lparr>es_containers := bt_insert n (info\<lparr>ci_pending_action := None\<rparr>) (es_containers e)\<rparr>
         | Inr None \<Rightarrow> e\<lparr>es_containers := bt_remove n (es_containers e)\<rparr>
         | Inl _ \<Rightarrow> e\<lparr>es_containers := bt_modify n (\<lambda>c. c\<lparr>ci_pending_action := None\<rparr>) (es_containers e)\<rparr>)"

definition settle_create :: "workspace_state \<Rightarrow> env_create_error + env_state \<Rightarrow> workspace_state" where
  "settle_create s result =
     (let present = ws_env s \<noteq> None in
      case result of
        Inr run \<Rightarrow> if present then s\<lparr>ws_env := Some (clear_create_marks run)\<rparr> else s
      | Inl err \<Rightarrow>
          (case ece_partial err of
             Some run \<Rightarrow> if present then s\<lparr>ws_env := Some (clear_create_marks run)\<rparr> else s
           | None \<Rightarrow> update_env clear_create_marks s))"

definition create_working :: "node_id \<Rightarrow> pending_action option \<Rightarrow> env_state \<Rightarrow> env_state" where
  "create_working n act e =
     (case (act, map_of (es_containers e) n) of
        (Some a, Some c) \<Rightarrow>
          e\<lparr>es_containers := bt_insert n (c\<lparr>ci_pending_action := Some a\<rparr>) (es_containers e)\<rparr>
      | (Some _, None) \<Rightarrow> e\<lparr>es_containers := bt_insert n (starting_placeholder n) (es_containers e)\<rparr>
      | (None, Some c) \<Rightarrow>
          if is_placeholder c then e\<lparr>es_containers := bt_remove n (es_containers e)\<rparr>
          else e\<lparr>es_containers := bt_insert n (c\<lparr>ci_pending_action := None\<rparr>) (es_containers e)\<rparr>
      | (None, None) \<Rightarrow> e)"

definition create_progress ::
  "string \<Rightarrow> string \<Rightarrow> string option \<Rightarrow> container_info \<Rightarrow> env_state \<Rightarrow> env_state" where
  "create_progress network sidecar_name sidecar_ip info e =
     e\<lparr>es_network := network, es_sidecar_container_name := sidecar_name, es_sidecar_ip := sidecar_ip,
       es_containers :=
         bt_insert (ci_node_id info) (info\<lparr>ci_pending_action := None\<rparr>) (es_containers e)\<rparr>"

definition observe_volume :: "string \<Rightarrow> bool \<Rightarrow> env_state \<Rightarrow> env_state" where
  "observe_volume name present e =
     (let v = (case map_of (es_volumes e) name of
                 None \<Rightarrow> \<lparr>vi_desired_name = name, vi_observed_exists = False\<rparr>
               | Some v \<Rightarrow> v)
      in e\<lparr>es_volumes := bt_insert name (v\<lparr>vi_observed_exists := present\<rparr>) (es_volumes e)\<rparr>)"

definition note_drift :: "sync_status \<Rightarrow> bool option \<Rightarrow> container_info \<Rightarrow> container_info" where
  "note_drift drift seeded c =
     c\<lparr>ci_observed := (ci_observed c)\<lparr>co_sync := drift, co_seeded := seeded\<rparr>\<rparr>"

fun observation_reduce :: "workspace_state \<Rightarrow> action \<Rightarrow> (action_rejected + workspace_state) option" where
  "observation_reduce s (ContainerObserved n status published ports exit_code unseen based_on) =
     Some (Inr (update_container n
       (take_reading status published ports exit_code unseen based_on) s))"
| "observation_reduce s (ContainerActionSettled n act result) =
     Some (Inr (update_env (settle_action n act result) s))"
| "observation_reduce s (EnvCreateSettled result) = Some (Inr (settle_create s result))"
| "observation_reduce s (EnvCreateWorking n act) = Some (Inr (update_env (create_working n act) s))"
| "observation_reduce s (EnvCreateProgress network name ip info) =
     Some (Inr (update_env (create_progress network name ip info) s))"
| "observation_reduce s (SidecarRestored ip) =
     Some (Inr (update_env (\<lambda>e. e\<lparr>es_sidecar_ip := Some ip\<rparr>) s))"
| "observation_reduce s (VolumeObserved name present) =
     Some (Inr (update_env (observe_volume name present) s))"
| "observation_reduce s (ConfigDriftObserved n drift seeded) =
     Some (Inr (update_container n (note_drift drift seeded) s))"
| "observation_reduce s _ = None"

section \<open>The reducer\<close>

fun is_request :: "action \<Rightarrow> bool" where
  "is_request (EnvPlanned _) = True"
| "is_request (NodeStartRequested _) = True"
| "is_request (NodeStopRequested _) = True"
| "is_request (NodeDeleteRequested _) = True"
| "is_request (NodeDebugWaitRequested _ _) = True"
| "is_request _ = False"

definition reduce :: "workspace_state \<Rightarrow> action \<Rightarrow> (action_rejected + workspace_state) option" where
  "reduce s a =
     (case a of
        OwnerSet w \<Rightarrow> Some (Inr (s\<lparr>ws_owner := Some w\<rparr>))
      | _ \<Rightarrow> if is_request a then env_reduce s a else observation_reduce s a)"

text \<open>The node a request is about, and the reports whose payload is filed under its own id.\<close>

fun target_node :: "action \<Rightarrow> node_id option" where
  "target_node (NodeStartRequested n) = Some n"
| "target_node (NodeStopRequested n) = Some n"
| "target_node (NodeDeleteRequested n) = Some n"
| "target_node (NodeDebugWaitRequested n _) = Some n"
| "target_node (ContainerObserved n _ _ _ _ _ _) = Some n"
| "target_node (ContainerActionSettled n _ _) = Some n"
| "target_node (EnvCreateProgress _ _ _ info) = Some (ci_node_id info)"
| "target_node (EnvCreateWorking n _) = Some n"
| "target_node (ConfigDriftObserved n _ _) = Some n"
| "target_node _ = None"

fun report_ok :: "action \<Rightarrow> bool" where
  "report_ok (ContainerActionSettled n _ (Inr (Some info))) = (ci_node_id info = n)"
| "report_ok (EnvCreateSettled (Inr run)) = wf_env run"
| "report_ok (EnvCreateSettled (Inl err)) = (case ece_partial err of None \<Rightarrow> True | Some run \<Rightarrow> wf_env run)"
| "report_ok _ = True"

fun settles_create :: "action \<Rightarrow> bool" where
  "settles_create (EnvCreateSettled _) = True"
| "settles_create _ = False"

end
