(* ===== verification/Actor.thy ===== *)
theory Actor
  imports Reducer
begin

text \<open>
  The per-workspace actor (\<open>src/actor.rs\<close>): one queue, one reducer call per action, the state
  replaced only when the reducer accepts. \<open>reachable\<close> is the set of states the actor can publish
  from a given initial one.
\<close>

type_synonym reply = "action_rejected + unit"

definition actor_step :: "workspace_state \<Rightarrow> action \<Rightarrow> (reply \<times> workspace_state) option" where
  "actor_step current a =
     (case reduce current a of
        None \<Rightarrow> None
      | Some (Inr next) \<Rightarrow> Some (Inr (), next)
      | Some (Inl rejected) \<Rightarrow> Some (Inl rejected, current))"

fun actor_run :: "workspace_state \<Rightarrow> action list \<Rightarrow> (reply list \<times> workspace_state) option" where
  "actor_run current [] = Some ([], current)"
| "actor_run current (a # queue) =
     (case actor_step current a of
        None \<Rightarrow> None
      | Some (r, next) \<Rightarrow>
          (case actor_run next queue of
             None \<Rightarrow> None
           | Some (rs, final) \<Rightarrow> Some (r # rs, final)))"

inductive reachable :: "workspace_state \<Rightarrow> workspace_state \<Rightarrow> bool" for initial where
  init: "reachable initial initial"
| step: "reachable initial s \<Longrightarrow> report_ok a \<Longrightarrow> actor_step s a = Some (r, s') \<Longrightarrow> reachable initial s'"

inductive_cases reachable_stepE: "reachable initial s"

end
