(* ===== verification/Reducer_Props.thy ===== *)
theory Reducer_Props
  imports Reducer
begin

text \<open>
  What the reducer guarantees: it never panics and never refuses a report; it keeps the state well
  formed; requests implement a per-node lock; stale reports change nothing; a settled create leaves
  no mark behind.
\<close>

named_theorems reducer_defs "the operations of the reducer"

lemmas request_defs = start_node_def set_pending_def set_debug_wait_def env_plan_def lookup_mut_def
  put_container_def wants_running_def

lemmas report_defs = update_env_def update_container_def settle_action_def settle_create_def
  create_working_def create_progress_def observe_volume_def

declare request_defs [reducer_defs] and report_defs [reducer_defs]

section \<open>Totality\<close>

lemma reduce_total: "\<exists>r. reduce s a = Some r"
  by (cases a) (auto simp: reduce_def)

lemma reduce_report: "\<not> is_request a \<Longrightarrow> \<exists>s'. reduce s a = Some (Inr s')"
  by (cases a) (auto simp: reduce_def)

section \<open>Well-formedness\<close>

lemma wf_state_update_env: "wf_state s \<Longrightarrow> (\<And>e. wf_env e \<Longrightarrow> wf_env (f e)) \<Longrightarrow> wf_state (update_env f s)"
  by (auto simp: wf_state_def update_env_def split: option.splits)

lemma node_id_take_reading [simp]:
  "ci_node_id (take_reading st p ps x u b c) = ci_node_id c"
  by (auto simp: take_reading_def Let_def)

lemma node_id_note_drift [simp]: "ci_node_id (note_drift d sd c) = ci_node_id c"
  by (simp add: note_drift_def)

lemma node_id_placeholder [simp]: "ci_node_id (starting_placeholder n) = n"
  by (simp add: starting_placeholder_def)

lemma wf_env_clear_marks: "wf_env e \<Longrightarrow> wf_env (clear_create_marks e)"
  by (auto simp: wf_env_def clear_create_marks_def bt_get_retain split: option.splits if_splits)

lemma wf_env_pending_create [simp]: "wf_env (e\<lparr>es_pending_create := p\<rparr>) = wf_env e"
  by (simp add: wf_env_def)

lemma wf_env_sidecar [simp]: "wf_env (e\<lparr>es_sidecar_ip := ip\<rparr>) = wf_env e"
  by (simp add: wf_env_def)

lemma wf_env_settle_action:
  assumes "wf_env e" and "\<And>info. result = Inr (Some info) \<Longrightarrow> ci_node_id info = n"
  shows "wf_env (settle_action n act result e)"
proof -
  have "wf_env (e\<lparr>es_containers := bt_modify n (\<lambda>c. c\<lparr>ci_pending_action := None\<rparr>) (es_containers e)\<rparr>)"
    using assms(1) by (intro wf_env_modify) auto
  moreover have "wf_env (e\<lparr>es_containers := bt_remove n (es_containers e)\<rparr>)"
    using assms(1) by (rule wf_env_remove)
  moreover have "wf_env (e\<lparr>es_containers := bt_insert n (i\<lparr>ci_pending_action := None\<rparr>) (es_containers e)\<rparr>)"
    if "result = Inr (Some i)" for i
    using assms that by (intro wf_env_insert) auto
  ultimately show ?thesis
    using assms(1) by (auto simp: settle_action_def Let_def split: sum.splits option.splits)
qed

lemma wf_env_create_working: "wf_env e \<Longrightarrow> wf_env (create_working n act e)"
  by (auto simp: create_working_def wf_env_remove wf_env_insert wf_env_node_id split: option.splits)

lemma wf_env_create_progress: "wf_env e \<Longrightarrow> wf_env (create_progress nw nm ip info e)"
  by (simp add: create_progress_def wf_env_def)

lemma wf_env_observe_volume: "wf_env e \<Longrightarrow> wf_env (observe_volume nm x e)"
  by (auto simp: observe_volume_def wf_env_def Let_def)

lemma wf_state_put_container:
  "wf_env e \<Longrightarrow> ci_node_id c = n \<Longrightarrow> wf_state (put_container s e c n)"
  by (simp add: wf_state_def put_container_def wf_env_insert)

lemma wf_state_env: "wf_state s \<Longrightarrow> ws_env s = Some e \<Longrightarrow> wf_env e"
  by (simp add: wf_state_def)

lemma start_node_wf: "wf_state s \<Longrightarrow> start_node s n = Inr s' \<Longrightarrow> wf_state s'"
  by (cases "ws_env s")
    (auto simp: start_node_def wf_state_def put_container_def wf_env_insert wf_env_node_id
      split: option.splits if_splits)

lemma set_debug_wait_wf: "wf_state s \<Longrightarrow> set_debug_wait s n w = Inr s' \<Longrightarrow> wf_state s'"
  by (cases "ws_env s")
    (auto simp: set_debug_wait_def wf_state_def put_container_def wf_env_insert wf_env_node_id
      split: option.splits if_splits)

lemma lookup_mut_Inr:
  "lookup_mut s n = Inr (e, c) \<longleftrightarrow>
     ws_env s = Some e \<and> es_pending_create e = None \<and> map_of (es_containers e) n = Some c"
  by (auto simp: lookup_mut_def split: option.splits)

lemma set_pending_wf: "wf_state s \<Longrightarrow> set_pending s n p d = Inr s' \<Longrightarrow> wf_state s'"
  by (auto simp: set_pending_def Let_def lookup_mut_Inr wf_env_node_id wf_state_put_container
      wf_env_remove dest!: wf_state_env
      split: sum.splits option.splits pending_action.splits if_splits)
    (auto simp: wf_state_def wf_env_remove)

lemma env_plan_wf: "wf_state s \<Longrightarrow> env_plan s plan = Inr s' \<Longrightarrow> wf_state s'"
  by (auto simp: env_plan_def wf_state_def Let_def split: option.splits if_splits)

lemmas request_wf = start_node_wf set_debug_wait_wf set_pending_wf env_plan_wf

lemma settle_create_wf:
  assumes "wf_state s" and "report_ok (EnvCreateSettled result)"
  shows "wf_state (settle_create s result)"
proof (cases result)
  case (Inl err)
  have "wf_state (update_env clear_create_marks s)"
    using assms(1) by (rule wf_state_update_env) (rule wf_env_clear_marks)
  with assms Inl show ?thesis
    by (auto simp: settle_create_def wf_state_def wf_env_clear_marks split: option.splits)
next
  case (Inr run)
  with assms show ?thesis
    by (auto simp: settle_create_def wf_state_def wf_env_clear_marks split: option.splits)
qed

lemma settle_action_report_ok:
  "report_ok (ContainerActionSettled n act result) \<Longrightarrow> result = Inr (Some info) \<Longrightarrow> ci_node_id info = n"
  by simp

lemma observation_reduce_wf:
  assumes "wf_state s" and "report_ok a" and "observation_reduce s a = Some (Inr s')"
  shows "wf_state s'"
proof (cases a)
  case (ContainerActionSettled n act result)
  with assms show ?thesis
    by (auto intro!: wf_state_update_env wf_env_settle_action dest: settle_action_report_ok)
next
  case (EnvCreateSettled result)
  with assms settle_create_wf show ?thesis by auto
qed (use assms in \<open>auto simp: update_container_def wf_env_create_working wf_env_create_progress
       wf_env_observe_volume intro!: wf_state_update_env wf_env_modify\<close>)

lemma env_reduce_wf: "wf_state s \<Longrightarrow> env_reduce s a = Some (Inr s') \<Longrightarrow> wf_state s'"
  by (cases a) (auto dest: request_wf)

lemma reduce_wf:
  assumes "wf_state s" and "report_ok a" and "reduce s a = Some (Inr s')"
  shows "wf_state s'"
proof (cases "\<exists>w. a = OwnerSet w")
  case True
  with assms show ?thesis by (auto simp: reduce_def wf_state_def)
next
  case False
  then have "reduce s a = (if is_request a then env_reduce s a else observation_reduce s a)"
    by (cases a) (simp_all add: reduce_def)
  with assms show ?thesis
    by (auto split: if_splits intro: env_reduce_wf observation_reduce_wf)
qed

section \<open>One container of a workspace\<close>

definition container_at :: "workspace_state \<Rightarrow> node_id \<Rightarrow> container_info option" where
  "container_at s n = (case ws_env s of None \<Rightarrow> None | Some e \<Rightarrow> map_of (es_containers e) n)"

definition creating :: "workspace_state \<Rightarrow> env_spec option" where
  "creating s = (case ws_env s of None \<Rightarrow> None | Some e \<Rightarrow> es_pending_create e)"

lemma container_at_env: "ws_env s = Some e \<Longrightarrow> container_at s n = map_of (es_containers e) n"
  by (simp add: container_at_def)

lemma frame_settle_action:
  "m \<noteq> n \<Longrightarrow> map_of (es_containers (settle_action n act result e)) m = map_of (es_containers e) m"
  by (auto simp: settle_action_def Let_def split: sum.splits option.splits)

lemma frame_create_working:
  "m \<noteq> n \<Longrightarrow> map_of (es_containers (create_working n act e)) m = map_of (es_containers e) m"
  by (auto simp: create_working_def split: option.splits)

lemma frame_update_env:
  "(\<And>e. map_of (es_containers (f e)) m = map_of (es_containers e) m) \<Longrightarrow>
   container_at (update_env f s) m = container_at s m"
  by (auto simp: container_at_def update_env_def split: option.splits)

lemma frame_observation:
  assumes "observation_reduce s a = Some (Inr s')" and "target_node a = Some n" and "m \<noteq> n"
  shows "container_at s' m = container_at s m"
  using assms
  by (cases a) (auto simp: update_container_def create_progress_def frame_settle_action
      frame_create_working intro!: frame_update_env)

lemma frame_request:
  assumes "env_reduce s a = Some (Inr s')" and "target_node a = Some n" and "m \<noteq> n"
  shows "container_at s' m = container_at s m"
  using assms
  by (cases a) (auto simp: request_defs container_at_def default_env_def Let_def
      split: option.splits if_splits sum.splits prod.splits pending_action.splits)

lemma reduce_frame:
  assumes "reduce s a = Some (Inr s')" and "target_node a = Some n" and "m \<noteq> n"
  shows "container_at s' m = container_at s m"
  using assms frame_observation [of s a s'] frame_request [of s a s']
  by (cases a) (auto simp: reduce_def simp del: env_reduce.simps observation_reduce.simps)

section \<open>The lock protocol the requests implement\<close>

text \<open>
  What a client may rely on: per node a lock that is absent, idle, or held by an action; a create in
  flight holds every lock. Only a Start may be taken over, by a Stop or a Delete; a Start that has no
  container yet is then simply gone.
\<close>

datatype lock = Absent | Idle | Busy pending_action bool

datatype request = RStart | RStop | RDelete

definition lock_of :: "workspace_state \<Rightarrow> node_id \<Rightarrow> lock" where
  "lock_of s n =
     (case container_at s n of
        None \<Rightarrow> Absent
      | Some c \<Rightarrow>
          (case ci_pending_action c of
             None \<Rightarrow> Idle
           | Some p \<Rightarrow> Busy p (\<not> is_placeholder c)))"

fun lock_request :: "lock \<Rightarrow> request \<Rightarrow> bool \<Rightarrow> action_rejected + lock" where
  "lock_request Absent RStart has = Inr (Busy Starting False)"
| "lock_request Absent _ has = Inl NodeNotFound"
| "lock_request Idle RStart has = Inr (Busy Starting has)"
| "lock_request Idle RStop has = Inr (Busy Stopping has)"
| "lock_request Idle RDelete has = Inr (Busy Removing has)"
| "lock_request (Busy Starting True) RStop _ = Inr (Busy Stopping True)"
| "lock_request (Busy Starting True) RDelete _ = Inr (Busy Removing True)"
| "lock_request (Busy Starting False) RStop _ = Inr Absent"
| "lock_request (Busy Starting False) RDelete _ = Inr Absent"
| "lock_request (Busy _ _) _ _ = Inl AlreadyInFlight"

fun request_action :: "request \<Rightarrow> node_id \<Rightarrow> action" where
  "request_action RStart n = NodeStartRequested n"
| "request_action RStop n = NodeStopRequested n"
| "request_action RDelete n = NodeDeleteRequested n"

definition has_container :: "workspace_state \<Rightarrow> node_id \<Rightarrow> bool" where
  "has_container s n = (case container_at s n of None \<Rightarrow> False | Some c \<Rightarrow> \<not> is_placeholder c)"

lemmas lock_defs = lock_of_def container_at_def has_container_def is_placeholder_def

lemma start_node_lock:
  assumes "ws_env s = Some e" and "es_pending_create e = None"
  shows "map_sum id (\<lambda>s'. lock_of s' n) (start_node s n) = lock_request (lock_of s n) RStart (has_container s n)"
  using assms
  by (auto simp: start_node_def put_container_def lock_defs starting_placeholder_def
      split: option.splits pending_action.splits bool.splits)

lemma busy_rejects [simp]:
  "p \<noteq> Starting \<Longrightarrow> lock_request (Busy p b) r has = Inl AlreadyInFlight"
  "lock_request (Busy p b) RStart has = Inl AlreadyInFlight"
  by (cases p; cases b; cases r; simp)+

lemma set_pending_lock:
  assumes "ws_env s = Some e" and "es_pending_create e = None"
    and "(r, p) \<in> {(RStop, Stopping), (RDelete, Removing)}"
  shows "map_sum id (\<lambda>s'. lock_of s' n) (set_pending s n p d) = lock_request (lock_of s n) r (has_container s n)"
proof (cases "map_of (es_containers e) n")
  case None
  with assms show ?thesis
    by (auto simp: set_pending_def lookup_mut_def lock_defs)
next
  case (Some c)
  then have look: "lookup_mut s n = Inr (e, c)"
    using assms by (simp add: lookup_mut_Inr)
  show ?thesis
  proof (cases "ci_pending_action c")
    case None
    with assms look Some show ?thesis
      by (auto simp: set_pending_def Let_def put_container_def lock_defs)
  next
    case (Some q)
    with assms look \<open>map_of (es_containers e) n = Some c\<close> show ?thesis
      by (cases q; cases "cd_container_name (ci_desired c) = []")
        (auto simp: set_pending_def Let_def put_container_def lock_defs)
  qed
qed

end
