(* ===== verification/Actor_Props.thy ===== *)
theory Actor_Props
  imports Actor Reducer_Props
begin

text \<open>
  What the actor guarantees of every queue of actions: it always answers, it publishes well-formed
  states only, and a create in flight keeps every other job out until it settles.
\<close>

lemma actor_step_cases:
  assumes "actor_step s a = Some (r, s')"
  obtains (accepted) "reduce s a = Some (Inr s')" "r = Inr ()"
    | (rejected) e where "reduce s a = Some (Inl e)" "r = Inl e" "s' = s"
  using assms by (auto simp: actor_step_def split: option.splits sum.splits)

lemma actor_step_total: "\<exists>r s'. actor_step s a = Some (r, s')"
  using reduce_total [of s a] by (auto simp: actor_step_def split: sum.splits)

lemma actor_run_total_aux: "\<exists>rs s'. actor_run s queue = Some (rs, s') \<and> length rs = length queue"
proof (induction queue arbitrary: s)
  case (Cons a queue)
  obtain r s1 where "actor_step s a = Some (r, s1)" using actor_step_total by blast
  moreover obtain rs s2 where "actor_run s1 queue = Some (rs, s2)" "length rs = length queue"
    using Cons.IH by blast
  ultimately show ?case by simp
qed simp

lemma actor_run_append:
  "actor_run s (xs @ ys) =
     (case actor_run s xs of None \<Rightarrow> None
      | Some (rs, s') \<Rightarrow> (case actor_run s' ys of None \<Rightarrow> None | Some (qs, f) \<Rightarrow> Some (rs @ qs, f)))"
  by (induction xs arbitrary: s) (auto split: option.splits)

lemma actor_step_wf:
  "wf_state s \<Longrightarrow> report_ok a \<Longrightarrow> actor_step s a = Some (r, s') \<Longrightarrow> wf_state s'"
  by (erule actor_step_cases) (auto intro: reduce_wf)

lemma actor_run_replies:
  "actor_run s queue = Some (rs, s') \<Longrightarrow> i < length queue \<Longrightarrow> \<not> is_request (queue ! i) \<Longrightarrow> rs ! i = Inr ()"
proof (induction queue arbitrary: s rs i)
  case (Cons a queue)
  then obtain r s1 qs where st: "actor_step s a = Some (r, s1)" "actor_run s1 queue = Some (qs, s')" "rs = r # qs"
    by (auto split: option.splits)
  show ?case
  proof (cases i)
    case 0
    with Cons.prems st(1,3) reduce_report [of a s] show ?thesis
      by (auto elim: actor_step_cases)
  next
    case (Suc j)
    with Cons.prems st Cons.IH [OF st(2), of j] show ?thesis by simp
  qed
qed simp

section \<open>A create in flight\<close>

lemma creating_update_env:
  "(\<And>e. es_pending_create (f e) = es_pending_create e) \<Longrightarrow> creating (update_env f s) = creating s"
  by (auto simp: creating_def update_env_def split: option.splits)

lemma pending_create_settle_action [simp]:
  "es_pending_create (settle_action n act result e) = es_pending_create e"
  by (auto simp: settle_action_def Let_def split: sum.splits option.splits)

lemma pending_create_working [simp]:
  "es_pending_create (create_working n act e) = es_pending_create e"
  by (auto simp: create_working_def split: option.splits)

lemma observation_keeps_creating:
  assumes "observation_reduce s a = Some (Inr s')" and "\<not> settles_create a"
  shows "creating s' = creating s"
  using assms
  by (cases a) (auto simp: update_container_def create_progress_def observe_volume_def Let_def
      intro!: creating_update_env)

lemma create_refuses:
  assumes "creating s = Some plan"
  shows "env_plan s q = Inl AlreadyInFlight" and "start_node s n = Inl AlreadyInFlight"
    and "set_pending s n p d = Inl AlreadyInFlight"
  using assms by (auto simp: request_defs set_pending_def creating_def split: option.splits)

fun create_owns :: "action \<Rightarrow> bool" where
  "create_owns (EnvPlanned _) = True"
| "create_owns (NodeStartRequested _) = True"
| "create_owns (NodeStopRequested _) = True"
| "create_owns (NodeDeleteRequested _) = True"
| "create_owns _ = False"

lemma reduce_owned:
  assumes "creating s = Some plan" and "create_owns a"
  shows "reduce s a = Some (Inl AlreadyInFlight)"
  using assms create_refuses [OF assms(1)] by (cases a) (auto simp: reduce_def)

lemma debug_wait_keeps_creating: "set_debug_wait s n w = Inr s' \<Longrightarrow> creating s' = creating s"
  by (auto simp: set_debug_wait_def put_container_def creating_def split: option.splits if_splits)

lemma reduce_keeps_creating:
  assumes "creating s = Some plan" and "\<not> settles_create a" and "reduce s a = Some (Inr s')"
  shows "creating s' = Some plan"
proof (cases "is_request a")
  case True
  with assms reduce_owned [OF assms(1), of a] debug_wait_keeps_creating show ?thesis
    by (cases a) (auto simp: reduce_def)
next
  case False
  with assms observation_keeps_creating [of s a s'] show ?thesis
    by (cases a) (auto simp: reduce_def creating_def simp del: observation_reduce.simps)
qed

lemma create_run:
  assumes "creating s = Some plan" and "\<forall>a\<in>set queue. \<not> settles_create a"
    and "actor_run s queue = Some (rs, s')"
  shows "creating s' = Some plan \<and>
    (\<forall>i<length queue. create_owns (queue ! i) \<longrightarrow> rs ! i = Inl AlreadyInFlight)"
  using assms
proof (induction queue arbitrary: s rs)
  case (Cons a queue)
  then obtain r s1 qs where st: "actor_step s a = Some (r, s1)" "actor_run s1 queue = Some (qs, s')" "rs = r # qs"
    by (auto split: option.splits)
  have "creating s1 = Some plan"
    using st(1) Cons.prems(1,2) reduce_keeps_creating [of s plan a s1]
    by (auto elim!: actor_step_cases)
  moreover have "create_owns a \<Longrightarrow> r = Inl AlreadyInFlight"
    using st(1) reduce_owned [OF Cons.prems(1)] by (auto elim!: actor_step_cases)
  ultimately show ?case
    using Cons.IH [OF _ _ st(2)] Cons.prems(2) st(3) by (auto simp: nth_Cons split: nat.splits)
qed simp

end
