(* ===== verification/Converge.thy ===== *)
theory Converge
  imports Actor_Props
begin

text \<open>
  The effect that drives Docker off the state (\<open>src/effects/docker/converge.rs\<close>): what a converge does
  with a snapshot, its record of tasks in flight, the claims of a running action on the nodes it
  drives. What the tasks do to Docker is not here: a task is an
  id that lives until it settles or is called off.
\<close>

type_synonym pending_entry = "node_id \<times> pending_action"

definition extract_pending :: "workspace_state \<Rightarrow> pending_entry list" where
  "extract_pending s =
     (case ws_env s of
        None \<Rightarrow> []
      | Some e \<Rightarrow>
          if es_pending_create e \<noteq> None then []
          else filter_map (\<lambda>c. map_option (\<lambda>a. (ci_node_id c, a)) (ci_pending_action c)) (bt_values (es_containers e)))"

definition extract_pending_create :: "workspace_state \<Rightarrow> env_spec option" where
  "extract_pending_create s = (case ws_env s of None \<Rightarrow> None | Some e \<Rightarrow> es_pending_create e)"

section \<open>Plans\<close>

record converge_plan =
  cp_spawn :: "pending_entry list"
  cp_abort :: "node_id list"

definition plan_entry :: "(node_id, pending_action) btree \<Rightarrow> pending_entry \<Rightarrow> converge_plan \<Rightarrow> converge_plan" where
  "plan_entry in_flight entry p =
     (case map_of in_flight (fst entry) of
        Some a \<Rightarrow>
          if a = snd entry then p
          else p\<lparr>cp_abort := cp_abort p @ [fst entry], cp_spawn := cp_spawn p @ [entry]\<rparr>
      | None \<Rightarrow> p\<lparr>cp_spawn := cp_spawn p @ [entry]\<rparr>)"

definition plan_actions :: "(node_id, pending_action) btree \<Rightarrow> pending_entry list \<Rightarrow> converge_plan" where
  "plan_actions in_flight snapshot =
     (let p = fold (plan_entry in_flight) snapshot \<lparr>cp_spawn = [], cp_abort = []\<rparr>
      in p\<lparr>cp_abort := cp_abort p @ map fst (filter (\<lambda>(n, a).
             a = Starting \<and> \<not> list_ex (\<lambda>e. fst e = n) snapshot) in_flight)\<rparr>)"

definition starts :: "pending_action \<Rightarrow> bool" where
  "starts a = (a = Starting \<or> a = Restarting)"

definition without_progress ::
  "pending_entry list \<Rightarrow> (node_id, nat) btree \<Rightarrow> (node_id, pending_action) btree \<Rightarrow> pending_entry list" where
  "without_progress pending driven in_flight =
     filter (\<lambda>(n, a). \<not> (starts a \<and> bt_has driven n \<and> \<not> bt_has in_flight n)) pending"

definition plan_create :: "bool \<Rightarrow> env_spec option \<Rightarrow> env_spec option \<times> bool" where
  "plan_create in_flight snapshot =
     (case snapshot of
        Some plan \<Rightarrow> if \<not> in_flight then (Some plan, True) else (None, True)
      | None \<Rightarrow> (None, False))"

section \<open>Converging\<close>

text \<open>
  \<open>in_flight\<close> keeps for each node the action and the task that performs it; \<open>driven\<close> counts the
  running actions that claim a node.
\<close>

record docker_effect =
  de_in_flight :: "(node_id, pending_action \<times> nat) btree"
  de_create_in_flight :: bool
  de_driven :: "(node_id, nat) btree"

record converge_snapshot =
  sn_pending :: "pending_entry list"
  sn_create :: "env_spec option"

definition new_effect :: docker_effect where
  "new_effect = \<lparr>de_in_flight = [], de_create_in_flight = False, de_driven = []\<rparr>"

definition extract_converge :: "workspace_state \<Rightarrow> converge_snapshot" where
  "extract_converge s = \<lparr>sn_pending = extract_pending s, sn_create = extract_pending_create s\<rparr>"

datatype docker_event =
    CalledOff nat node_id
  | ActionSpawned nat node_id pending_action
  | CreateSpawned env_spec

definition abort_start :: "(nat \<Rightarrow> bool) \<Rightarrow> node_id \<Rightarrow> docker_event list \<times> docker_effect \<Rightarrow> docker_event list \<times> docker_effect" where
  "abort_start finished n acc =
     (case map_of (de_in_flight (snd acc)) n of
        None \<Rightarrow> acc
      | Some (_, task) \<Rightarrow>
          (if finished task then fst acc else fst acc @ [CalledOff task n],
           (snd acc)\<lparr>de_in_flight := bt_remove n (de_in_flight (snd acc))\<rparr>))"

definition spawn_entry :: "pending_entry \<Rightarrow> docker_event list \<times> docker_effect \<times> nat \<Rightarrow> docker_event list \<times> docker_effect \<times> nat" where
  "spawn_entry entry acc =
     (case acc of (events, d, task) \<Rightarrow>
        (events @ [ActionSpawned task (fst entry) (snd entry)],
         d\<lparr>de_in_flight := bt_insert (fst entry) (snd entry, task) (de_in_flight d)\<rparr>, task + 1))"

definition converge_docker ::
  "(nat \<Rightarrow> bool) \<Rightarrow> converge_snapshot \<Rightarrow> docker_effect \<Rightarrow> nat \<Rightarrow> docker_event list \<times> docker_effect \<times> nat" where
  "converge_docker finished snapshot d task =
     (let actions = map (\<lambda>(n, a, _). (n, a)) (de_in_flight d);
          pending = without_progress (sn_pending snapshot) (de_driven d) actions;
          p = plan_actions actions pending;
          (called_off, d1) = fold (abort_start finished) (cp_abort p) ([], d);
          d2 = d1\<lparr>de_in_flight := bt_retain (\<lambda>n _. list_ex (\<lambda>e. fst e = n) pending) (de_in_flight d1)\<rparr>;
          (events, d3, task') = fold spawn_entry (cp_spawn p) (called_off, d2, task);
          (to_create, still_creating) = plan_create (de_create_in_flight d3) (sn_create snapshot)
      in (events @ (case to_create of None \<Rightarrow> [] | Some plan \<Rightarrow> [CreateSpawned plan]),
          d3\<lparr>de_create_in_flight := still_creating\<rparr>, task'))"

section \<open>Claims on driven nodes\<close>

text \<open>What \<open>forward_progress\<close> does to \<open>driven\<close>: one claim per node and run, given back when the run ends.\<close>

definition claim_node :: "node_id \<Rightarrow> node_id list \<times> (node_id, nat) btree \<Rightarrow> node_id list \<times> (node_id, nat) btree" where
  "claim_node n acc =
     (if n \<in> set (fst acc) then acc
      else (fst acc @ [n],
            bt_insert n ((case map_of (snd acc) n of None \<Rightarrow> 0 | Some k \<Rightarrow> k) + 1) (snd acc)))"

definition release_node :: "node_id \<Rightarrow> (node_id, nat) btree \<Rightarrow> (node_id, nat) btree" where
  "release_node n driven =
     (case map_of driven n of
        None \<Rightarrow> driven
      | Some k \<Rightarrow> if k - 1 = 0 then bt_remove n driven else bt_insert n (k - 1) driven)"

definition release_all :: "node_id list \<Rightarrow> (node_id, nat) btree \<Rightarrow> (node_id, nat) btree" where
  "release_all mine driven = fold release_node mine driven"

section \<open>The effect, the actor and the tasks together\<close>

text \<open>
  A task runs, reports progress, gives its claims back when its progress channel has drained, and
  ends; its settle guard then sends its report, by a task of its own, so reports arrive in any order.
  A task that is called off sends the guard's default report. A look is one round of \<open>run_effect\<close>: it
  sees the newest state only, and skips a snapshot equal to the last.
\<close>

record run_task =
  rt_id :: nat
  rt_what :: "env_spec + pending_entry"
  rt_mine :: "node_id list"
  rt_drained :: bool

datatype report =
    ActionReport node_id pending_action "string + container_info option"
  | CreateReport "env_create_error + env_state"

record system =
  sy_state :: workspace_state
  sy_effect :: docker_effect
  sy_last :: "converge_snapshot option"
  sy_next_task :: nat
  sy_tasks :: "run_task list"
  sy_reports :: "report list"
  sy_leftover :: "node_id list list"

definition new_system :: "workspace_state \<Rightarrow> system" where
  "new_system s = \<lparr>sy_state = s, sy_effect = new_effect, sy_last = None, sy_next_task = 1, sy_tasks = [],
     sy_reports = [], sy_leftover = []\<rparr>"

definition find_task :: "system \<Rightarrow> nat \<Rightarrow> run_task option" where
  "find_task sy t = find (\<lambda>r. rt_id r = t) (sy_tasks sy)"

definition drop_task :: "nat \<Rightarrow> system \<Rightarrow> system" where
  "drop_task t sy = sy\<lparr>sy_tasks := filter (\<lambda>r. rt_id r \<noteq> t) (sy_tasks sy)\<rparr>"

definition dispatch :: "action \<Rightarrow> system \<Rightarrow> system option" where
  "dispatch a sy = map_option (\<lambda>(_, s'). sy\<lparr>sy_state := s'\<rparr>) (actor_step (sy_state sy) a)"

definition no_report :: string where
  "no_report = ''action task ended without reporting a result (likely a panic or cancellation)''"

definition no_create_report :: string where
  "no_create_report = ''environment creation task ended without reporting a result (likely a panic or cancellation)''"

definition report_action :: "report \<Rightarrow> action" where
  "report_action r = (case r of
     ActionReport n a result \<Rightarrow> ContainerActionSettled n (Some a) result
   | CreateReport result \<Rightarrow> EnvCreateSettled result)"

text \<open>A task that is called off or panics: its guards report for it, its claims drain later.\<close>

definition lost_report :: "run_task \<Rightarrow> report" where
  "lost_report r = (case rt_what r of
     Inr (n, a) \<Rightarrow> ActionReport n a (Inl no_report)
   | Inl _ \<Rightarrow> CreateReport (Inl (bare_create_error no_create_report)))"

definition lose_task :: "run_task \<Rightarrow> system \<Rightarrow> system" where
  "lose_task r sy =
     (drop_task (rt_id r) sy)\<lparr>sy_leftover := sy_leftover sy @ [rt_mine r],
       sy_reports := sy_reports sy @ [lost_report r]\<rparr>"

definition take_event :: "docker_event \<Rightarrow> system \<Rightarrow> system" where
  "take_event ev sy = (case ev of
     ActionSpawned t n a \<Rightarrow>
       sy\<lparr>sy_tasks := sy_tasks sy @ [\<lparr>rt_id = t, rt_what = Inr (n, a), rt_mine = [], rt_drained = False\<rparr>]\<rparr>
   | CreateSpawned plan \<Rightarrow>
       sy\<lparr>sy_tasks := sy_tasks sy @ [\<lparr>rt_id = sy_next_task sy, rt_what = Inl plan, rt_mine = [], rt_drained = False\<rparr>],
          sy_next_task := sy_next_task sy + 1\<rparr>
   | CalledOff t n \<Rightarrow> (case find_task sy t of None \<Rightarrow> sy | Some r \<Rightarrow> lose_task r sy))"

definition look :: "system \<Rightarrow> system" where
  "look sy =
     (let snapshot = extract_converge (sy_state sy) in
      if sy_last sy = Some snapshot then sy
      else (let (events, d, t) = converge_docker (\<lambda>t. find_task sy t = None) snapshot (sy_effect sy) (sy_next_task sy)
            in fold take_event events (sy\<lparr>sy_effect := d, sy_next_task := t, sy_last := Some snapshot\<rparr>)))"

datatype sys_step =
    Dispatched action
  | Look
  | TaskReports nat run_progress
  | TaskDrains nat
  | TaskCascades nat container_info
  | TaskEnds nat "string + container_info option"
  | CreateEnds nat "env_create_error + env_state"
  | TaskPanics nat
  | ReportArrives nat
  | LeftoverDrains nat

definition own_node :: "run_task \<Rightarrow> node_id option" where
  "own_node r = (case rt_what r of Inl _ \<Rightarrow> None | Inr (n, _) \<Rightarrow> Some n)"

definition set_task :: "run_task \<Rightarrow> system \<Rightarrow> system" where
  "set_task r sy = sy\<lparr>sy_tasks := map (\<lambda>q. if rt_id q = rt_id r then r else q) (sy_tasks sy)\<rparr>"

definition set_driven :: "(node_id, nat) btree \<Rightarrow> system \<Rightarrow> system" where
  "set_driven driven sy = sy\<lparr>sy_effect := (sy_effect sy)\<lparr>de_driven := driven\<rparr>\<rparr>"

text \<open>\<open>forward_progress\<close>: progress on the task's own node is passed over, the claim comes before the dispatch.\<close>

definition task_reports :: "run_task \<Rightarrow> run_progress \<Rightarrow> system \<Rightarrow> system option" where
  "task_reports r p sy = (case p of
     Planned start stop \<Rightarrow> Some sy
   | Working n act \<Rightarrow>
       if own_node r = Some n then Some sy
       else (let (mine, driven) = (if act \<noteq> None then claim_node n (rt_mine r, de_driven (sy_effect sy))
                                   else (rt_mine r, de_driven (sy_effect sy)))
             in dispatch (EnvCreateWorking n act) (set_driven driven (set_task (r\<lparr>rt_mine := mine\<rparr>) sy)))
   | NodeUp network name ip info \<Rightarrow>
       if own_node r = Some (ci_node_id info) then Some sy
       else dispatch (EnvCreateProgress network name ip info) sy)"

text \<open>What is dispatched from outside this effect: every action but the reports of its own tasks.\<close>

definition from_outside :: "action \<Rightarrow> bool" where
  "from_outside a = (case a of
     EnvCreateSettled _ \<Rightarrow> False | ContainerActionSettled _ _ _ \<Rightarrow> False
   | EnvCreateWorking _ _ \<Rightarrow> False | EnvCreateProgress _ _ _ _ \<Rightarrow> False | _ \<Rightarrow> True)"

text \<open>
  A task's result is about its own node, and a create's result is an environment (\<open>report_ok\<close>), as the
  orchestrator builds them.
\<close>

text \<open>One step; \<open>None\<close> where the step is not possible.\<close>

fun sys_do :: "sys_step \<Rightarrow> system \<Rightarrow> system option" where
  "sys_do (Dispatched a) sy = (if from_outside a then dispatch a sy else None)"
| "sys_do Look sy = Some (look sy)"
| "sys_do (TaskReports t p) sy =
     (case find_task sy t of
        Some r \<Rightarrow> if rt_drained r then None else task_reports r p sy
      | None \<Rightarrow> None)"
| "sys_do (TaskDrains t) sy =
     (case find_task sy t of
        Some r \<Rightarrow> if rt_drained r then None
                  else Some (set_driven (release_all (rt_mine r) (de_driven (sy_effect sy)))
                         (set_task (r\<lparr>rt_mine := [], rt_drained := True\<rparr>) sy))
      | None \<Rightarrow> None)"
| "sys_do (TaskCascades t info) sy =
     (case find_task sy t of
        Some r \<Rightarrow> if rt_drained r \<and> own_node r \<noteq> None
                  then dispatch (ContainerActionSettled (ci_node_id info) None (Inr (Some info))) sy else None
      | None \<Rightarrow> None)"
| "sys_do (TaskEnds t result) sy =
     (case find_task sy t of
        Some r \<Rightarrow>
          (case rt_what r of
             Inr (n, a) \<Rightarrow>
               if rt_drained r \<and> report_ok (ContainerActionSettled n (Some a) result)
               then Some ((drop_task t sy)\<lparr>sy_reports := sy_reports sy @ [ActionReport n a result]\<rparr>) else None
           | Inl _ \<Rightarrow> None)
      | None \<Rightarrow> None)"
| "sys_do (CreateEnds t result) sy =
     (case find_task sy t of
        Some r \<Rightarrow>
          (case rt_what r of
             Inl _ \<Rightarrow>
               if rt_drained r \<and> report_ok (EnvCreateSettled result)
               then Some ((drop_task t sy)\<lparr>sy_reports := sy_reports sy @ [CreateReport result]\<rparr>) else None
           | Inr _ \<Rightarrow> None)
      | None \<Rightarrow> None)"
| "sys_do (TaskPanics t) sy = map_option (\<lambda>r. lose_task r sy) (find_task sy t)"
| "sys_do (ReportArrives k) sy =
     (if k < length (sy_reports sy)
      then dispatch (report_action (sy_reports sy ! k))
             (sy\<lparr>sy_reports := take k (sy_reports sy) @ drop (k + 1) (sy_reports sy)\<rparr>)
      else None)"
| "sys_do (LeftoverDrains k) sy =
     (if k < length (sy_leftover sy)
      then Some (set_driven (release_all (sy_leftover sy ! k) (de_driven (sy_effect sy)))
             (sy\<lparr>sy_leftover := take k (sy_leftover sy) @ drop (k + 1) (sy_leftover sy)\<rparr>))
      else None)"

fun sys_run :: "sys_step list \<Rightarrow> system \<Rightarrow> system option" where
  "sys_run [] sy = Some sy"
| "sys_run (x # xs) sy = (case sys_do x sy of None \<Rightarrow> None | Some sy' \<Rightarrow> sys_run xs sy')"

end
