(* ===== verification/Converge_Props.thy ===== *)
theory Converge_Props
  imports Converge
begin

text \<open>
  What one converge does, exactly, and what the effect, the actor and the tasks keep together under
  every interleaving.
\<close>

section \<open>One converge\<close>

lemma map_of_actions: "map_of (map (\<lambda>(n, a, _). (n, a)) m) n = map_option fst (map_of m n)"
  by (induction m) auto

lemma plan_fold:
  "fold (plan_entry in_flight) pending p =
     \<lparr>cp_spawn = cp_spawn p @ filter (\<lambda>e. map_of in_flight (fst e) \<noteq> Some (snd e)) pending,
      cp_abort = cp_abort p @ map fst (filter (\<lambda>e. map_of in_flight (fst e) \<notin> {None, Some (snd e)}) pending)\<rparr>"
proof (induction pending arbitrary: p)
  case (Cons e pending)
  then show ?case by (simp add: plan_entry_def split: option.split)
qed simp

lemma plan_actions_eq:
  "plan_actions in_flight pending =
     \<lparr>cp_spawn = filter (\<lambda>e. map_of in_flight (fst e) \<noteq> Some (snd e)) pending,
      cp_abort = map fst (filter (\<lambda>e. map_of in_flight (fst e) \<notin> {None, Some (snd e)}) pending) @
        map fst (filter (\<lambda>(n, a). a = Starting \<and> \<not> list_ex (\<lambda>e. fst e = n) pending) in_flight)\<rparr>"
  by (simp add: plan_actions_def plan_fold Let_def)

lemma abort_start_cases:
  "map_of (de_in_flight d) n = None \<Longrightarrow> abort_start finished n (events, d) = (events, d)"
  "map_of (de_in_flight d) n = Some (a, t) \<Longrightarrow> abort_start finished n (events, d) =
     (if finished t then events else events @ [CalledOff t n], d\<lparr>de_in_flight := bt_remove n (de_in_flight d)\<rparr>)"
  by (simp_all add: abort_start_def)

lemma bt_get_fold_remove: "map_of (fold bt_remove ns m) k = (if k \<in> set ns then None else map_of m k)"
  by (induction ns arbitrary: m) auto

lemma bt_remove_absent: "map_of m n = None \<Longrightarrow> bt_remove n m = m"
  by (auto simp: bt_remove_def map_of_eq_None_iff intro!: filter_True)

text \<open>Calling off the nodes \<open>ns\<close>: which tasks, and what is left in flight.\<close>

definition called_off :: "(nat \<Rightarrow> bool) \<Rightarrow> node_id list \<Rightarrow> docker_effect \<Rightarrow> docker_event list" where
  "called_off finished ns d = fst (fold (abort_start finished) ns ([], d))"

definition only_calls_off :: "(node_id \<Rightarrow> nat \<Rightarrow> bool) \<Rightarrow> docker_event list \<Rightarrow> bool" where
  "only_calls_off P events \<longleftrightarrow> (\<forall>t n. CalledOff t n \<in> set events \<longleftrightarrow> P n t) \<and>
     (\<forall>ev\<in>set events. \<exists>t n. ev = CalledOff t n)"

lemma abort_fold:
  "\<exists>out. fold (abort_start finished) ns (events, d) =
       (events @ out, d\<lparr>de_in_flight := fold bt_remove ns (de_in_flight d)\<rparr>) \<and>
     only_calls_off (\<lambda>n t. n \<in> set ns \<and> (\<exists>a. map_of (de_in_flight d) n = Some (a, t)) \<and> \<not> finished t) out"
proof (induction ns arbitrary: events d)
  case Nil
  then show ?case by (simp add: only_calls_off_def)
next
  case (Cons m ns)
  show ?case
  proof (cases "map_of (de_in_flight d) m")
    case None
    from Cons.IH [of events d] None show ?thesis
      by (auto simp: abort_start_cases(1) bt_remove_absent only_calls_off_def)
  next
    case (Some at)
    obtain a t where at: "map_of (de_in_flight d) m = Some (a, t)" using Some by (cases at) simp
    let ?new = "if finished t then [] else [CalledOff t m]"
    let ?d = "d\<lparr>de_in_flight := bt_remove m (de_in_flight d)\<rparr>"
    obtain out where out: "fold (abort_start finished) ns (events @ ?new, ?d) =
        ((events @ ?new) @ out, ?d\<lparr>de_in_flight := fold bt_remove ns (de_in_flight ?d)\<rparr>)"
      "only_calls_off (\<lambda>n t. n \<in> set ns \<and> (\<exists>a. map_of (de_in_flight ?d) n = Some (a, t)) \<and> \<not> finished t) out"
      using Cons.IH by blast
    have "abort_start finished m (events, d) = (events @ ?new, ?d)"
      by (simp add: abort_start_cases(2) [OF at])
    with out(1) have "fold (abort_start finished) (m # ns) (events, d) =
        (events @ (?new @ out), d\<lparr>de_in_flight := fold bt_remove (m # ns) (de_in_flight d)\<rparr>)" by simp
    moreover have "CalledOff u n \<in> set (?new @ out) \<longleftrightarrow>
        n \<in> set (m # ns) \<and> (\<exists>a. map_of (de_in_flight d) n = Some (a, u)) \<and> \<not> finished u" for u n
      using out(2) at by (cases "n = m") (auto simp: only_calls_off_def)
    moreover have "\<forall>ev\<in>set (?new @ out). \<exists>t n. ev = CalledOff t n"
      using out(2) by (auto simp: only_calls_off_def)
    ultimately show ?thesis unfolding only_calls_off_def by blast
  qed
qed

lemma called_off_fold:
  "fold (abort_start finished) ns ([], d) =
     (called_off finished ns d, d\<lparr>de_in_flight := fold bt_remove ns (de_in_flight d)\<rparr>)"
  "only_calls_off (\<lambda>n t. n \<in> set ns \<and> (\<exists>a. map_of (de_in_flight d) n = Some (a, t)) \<and> \<not> finished t)
     (called_off finished ns d)"
  using abort_fold [of finished ns "[]" d] by (auto simp: called_off_def)

lemma spawn_fold:
  "fold spawn_entry es (events, d, task) =
     (events @ map (\<lambda>(t, e). ActionSpawned t (fst e) (snd e)) (enumerate task es),
      d\<lparr>de_in_flight := fold (\<lambda>(k, v). bt_insert k v) (map (\<lambda>(t, e). (fst e, snd e, t)) (enumerate task es)) (de_in_flight d)\<rparr>,
      task + length es)"
  by (induction es arbitrary: events d task) (simp_all add: spawn_entry_def)

text \<open>The pending entries a converge acts on.\<close>

definition acted_on :: "converge_snapshot \<Rightarrow> docker_effect \<Rightarrow> pending_entry list" where
  "acted_on sn d = without_progress (sn_pending sn) (de_driven d) (map (\<lambda>(n, a, _). (n, a)) (de_in_flight d))"

definition to_spawn :: "converge_snapshot \<Rightarrow> docker_effect \<Rightarrow> pending_entry list" where
  "to_spawn sn d = filter (\<lambda>e. map_option fst (map_of (de_in_flight d) (fst e)) \<noteq> Some (snd e)) (acted_on sn d)"

definition to_abort :: "converge_snapshot \<Rightarrow> docker_effect \<Rightarrow> node_id list" where
  "to_abort sn d = map fst (filter (\<lambda>e. map_option fst (map_of (de_in_flight d) (fst e)) \<notin> {None, Some (snd e)}) (acted_on sn d)) @
     map fst (filter (\<lambda>(n, a). a = Starting \<and> \<not> list_ex (\<lambda>e. fst e = n) (acted_on sn d))
       (map (\<lambda>(n, a, _). (n, a)) (de_in_flight d)))"

definition spawn_events :: "nat \<Rightarrow> pending_entry list \<Rightarrow> docker_event list" where
  "spawn_events task es = map (\<lambda>(t, e). ActionSpawned t (fst e) (snd e)) (enumerate task es)"

definition create_events :: "bool \<Rightarrow> env_spec option \<Rightarrow> docker_event list" where
  "create_events busy create = (case create of None \<Rightarrow> [] | Some plan \<Rightarrow> if busy then [] else [CreateSpawned plan])"

lemma converge_parts:
  "converge_docker finished sn d task =
     (called_off finished (to_abort sn d) d @ spawn_events task (to_spawn sn d) @ create_events (de_create_in_flight d) (sn_create sn),
      d\<lparr>de_in_flight := fold (\<lambda>(k, v). bt_insert k v) (map (\<lambda>(t, e). (fst e, snd e, t)) (enumerate task (to_spawn sn d)))
           (bt_retain (\<lambda>n _. list_ex (\<lambda>e. fst e = n) (acted_on sn d)) (fold bt_remove (to_abort sn d) (de_in_flight d))),
         de_create_in_flight := (sn_create sn \<noteq> None)\<rparr>,
      task + length (to_spawn sn d))"
proof -
  have "plan_actions (map (\<lambda>(n, a, _). (n, a)) (de_in_flight d)) (acted_on sn d) =
      \<lparr>cp_spawn = to_spawn sn d, cp_abort = to_abort sn d\<rparr>"
    by (simp add: plan_actions_eq map_of_actions to_spawn_def to_abort_def)
  then show ?thesis
    unfolding converge_docker_def Let_def acted_on_def [symmetric]
    by (simp add: called_off_fold(1) spawn_fold spawn_events_def plan_create_def create_events_def split: option.split)
qed

lemma in_enumerate_spawn:
  "ActionSpawned t n a \<in> set (spawn_events task es) \<longleftrightarrow> task \<le> t \<and> t < task + length es \<and> es ! (t - task) = (n, a)"
proof -
  have "ActionSpawned t n a \<in> set (spawn_events task es) \<longleftrightarrow> (t, n, a) \<in> set (enumerate task es)"
    by (force simp: spawn_events_def simp del: enumerate_simps)
  then show ?thesis by (auto simp: in_set_enumerate_eq)
qed

lemma map_of_enumerate:
  assumes "distinct (map fst es)"
  shows "map_of (rev (map (\<lambda>(t, e). (fst e, snd e, t)) (enumerate task es))) n = Some (a, t) \<longleftrightarrow>
      task \<le> t \<and> t < task + length es \<and> es ! (t - task) = (n, a)"
    "map_of (rev (map (\<lambda>(t, e). (fst e, snd e, t)) (enumerate task es))) n = None \<longleftrightarrow> n \<notin> fst ` set es"
proof -
  let ?xs = "map (\<lambda>(t, e). (fst e, snd e, t)) (enumerate task es)"
  have keys: "map fst ?xs = map fst es"
    by (induction es arbitrary: task) auto
  have "distinct (map fst (rev ?xs))" using assms keys by (simp add: rev_map [symmetric])
  then have "map_of (rev ?xs) n = Some (a, t) \<longleftrightarrow> (n, a, t) \<in> set ?xs" by (simp add: map_of_eq_Some_iff)
  also have "\<dots> \<longleftrightarrow> task \<le> t \<and> t < task + length es \<and> es ! (t - task) = (n, a)"
  proof -
    have "(n, a, t) \<in> set ?xs \<longleftrightarrow> (t, n, a) \<in> set (enumerate task es)" by force
    then show ?thesis by (auto simp: in_set_enumerate_eq)
  qed
  finally show "map_of (rev ?xs) n = Some (a, t) \<longleftrightarrow> task \<le> t \<and> t < task + length es \<and> es ! (t - task) = (n, a)" .
  have "fst ` set ?xs = fst ` set es" using keys by (metis set_map)
  then show "map_of (rev ?xs) n = None \<longleftrightarrow> n \<notin> fst ` set es" by (simp add: map_of_eq_None_iff)
qed

lemma map_of_distinct: "distinct (map fst es) \<Longrightarrow> (n, a) \<in> set es \<longleftrightarrow> map_of es n = Some a"
  by (auto dest: map_of_SomeD simp: map_of_eq_Some_iff)

lemma has_entry: "list_ex (\<lambda>e. fst e = n) es \<longleftrightarrow> map_of es n \<noteq> None"
  by (induction es) auto

lemma some_entry:
  assumes "distinct (map fst es)"
  shows "(\<exists>e\<in>set es. fst e = n \<and> Q e) \<longleftrightarrow> (\<exists>b. map_of es n = Some b \<and> Q (n, b))"
  using map_of_distinct [OF assms] by (metis fst_conv prod.collapse)

lemma in_actions:
  assumes "bt_wf m"
  shows "(n, a) \<in> set (map (\<lambda>(n, a, _). (n, a)) m) \<longleftrightarrow> (\<exists>t. map_of m n = Some (a, t))"
proof -
  have "(n, a) \<in> set (map (\<lambda>(n, a, _). (n, a)) m) \<longleftrightarrow> (\<exists>t. (n, a, t) \<in> set m)" by force
  then show ?thesis by (simp add: bt_in_set [OF assms])
qed

lemma abort_iff:
  assumes "distinct (map fst (acted_on sn d))" and "bt_wf (de_in_flight d)"
  shows "n \<in> set (to_abort sn d) \<longleftrightarrow>
    (\<exists>a t. map_of (de_in_flight d) n = Some (a, t) \<and>
       (case map_of (acted_on sn d) n of None \<Rightarrow> a = Starting | Some b \<Rightarrow> b \<noteq> a))"
proof -
  have "n \<in> set (to_abort sn d) \<longleftrightarrow>
      (\<exists>e\<in>set (acted_on sn d). fst e = n \<and> map_option fst (map_of (de_in_flight d) (fst e)) \<notin> {None, Some (snd e)}) \<or>
      (\<exists>a. (n, a) \<in> set (map (\<lambda>(n, a, _). (n, a)) (de_in_flight d)) \<and> a = Starting \<and>
        \<not> list_ex (\<lambda>e. fst e = n) (acted_on sn d))"
    unfolding to_abort_def set_append set_map set_filter Un_iff image_iff by (auto 0 3)
  also have "\<dots> \<longleftrightarrow>
      (\<exists>b. map_of (acted_on sn d) n = Some b \<and> map_option fst (map_of (de_in_flight d) n) \<notin> {None, Some b}) \<or>
      (\<exists>a t. map_of (de_in_flight d) n = Some (a, t) \<and> a = Starting \<and> map_of (acted_on sn d) n = None)"
    unfolding some_entry [OF assms(1)] in_actions [OF assms(2)] has_entry by auto
  finally show ?thesis by (auto split: option.splits)
qed

lemma to_spawn_iff:
  assumes "distinct (map fst (acted_on sn d))"
  shows "(n, a) \<in> set (to_spawn sn d) \<longleftrightarrow> map_of (acted_on sn d) n = Some a \<and> (\<nexists>t. map_of (de_in_flight d) n = Some (a, t))"
  using map_of_distinct [OF assms] by (auto simp: to_spawn_def)

lemma to_spawn_distinct: "distinct (map fst (acted_on sn d)) \<Longrightarrow> distinct (map fst (to_spawn sn d))"
  unfolding to_spawn_def by (rule distinct_map_filter)

abbreviation flight_after :: "converge_snapshot \<Rightarrow> docker_effect \<Rightarrow> nat \<Rightarrow> (node_id, pending_action \<times> nat) btree" where
  "flight_after sn d task \<equiv>
     fold (\<lambda>(k, v). bt_insert k v) (map (\<lambda>(t, e). (fst e, snd e, t)) (enumerate task (to_spawn sn d)))
       (bt_retain (\<lambda>n _. list_ex (\<lambda>e. fst e = n) (acted_on sn d)) (fold bt_remove (to_abort sn d) (de_in_flight d)))"

lemma flight_wf: "bt_wf (de_in_flight d) \<Longrightarrow> bt_wf (flight_after sn d task)"
  by (simp add: bt.wf_fold_ins bt.wf_fold_del)

lemma flight_spawned:
  assumes dist: "distinct (map fst (acted_on sn d))"
    and "ActionSpawned t n a \<in> set (spawn_events task (to_spawn sn d))"
  shows "map_of (flight_after sn d task) n = Some (a, t)"
proof -
  have "map_of (rev (map (\<lambda>(t, e). (fst e, snd e, t)) (enumerate task (to_spawn sn d)))) n = Some (a, t)"
    using map_of_enumerate(1) [OF to_spawn_distinct [OF dist], of task n a t] assms(2) by (simp add: in_enumerate_spawn)
  then show ?thesis by (simp add: bt.get_fold_ins)
qed

lemma flight_result:
  assumes dist: "distinct (map fst (acted_on sn d))" and wf: "bt_wf (de_in_flight d)"
  shows "(case map_of (acted_on sn d) n of
      None \<Rightarrow> map_of (flight_after sn d task) n = None
    | Some a \<Rightarrow> if map_option fst (map_of (de_in_flight d) n) = Some a
                then map_of (flight_after sn d task) n = map_of (de_in_flight d) n
                else \<exists>t. map_of (flight_after sn d task) n = Some (a, t) \<and>
                       ActionSpawned t n a \<in> set (spawn_events task (to_spawn sn d)))"
proof (cases "map_of (acted_on sn d) n")
  case None
  then have "n \<notin> fst ` set (to_spawn sn d)" by (auto simp: to_spawn_iff [OF dist])
  then have "map_of (rev (map (\<lambda>(t, e). (fst e, snd e, t)) (enumerate task (to_spawn sn d)))) n = None"
    using map_of_enumerate(2) [OF to_spawn_distinct [OF dist]] by simp
  moreover have "\<not> list_ex (\<lambda>e. fst e = n) (acted_on sn d)" using None by (auto simp: list_ex_iff map_of_eq_None_iff)
  ultimately show ?thesis using None wf by (simp add: bt.get_fold_ins bt_get_retain bt.wf_fold_del split: option.split)
next
  case (Some a)
  show ?thesis
  proof (cases "map_option fst (map_of (de_in_flight d) n) = Some a")
    case True
    then obtain t where t: "map_of (de_in_flight d) n = Some (a, t)" by auto
    then have "n \<notin> fst ` set (to_spawn sn d)" using Some by (auto simp: to_spawn_iff [OF dist])
    then have "map_of (rev (map (\<lambda>(t, e). (fst e, snd e, t)) (enumerate task (to_spawn sn d)))) n = None"
      using map_of_enumerate(2) [OF to_spawn_distinct [OF dist]] by simp
    moreover have "n \<notin> set (to_abort sn d)" using t Some by (simp add: abort_iff [OF dist wf])
    moreover have "list_ex (\<lambda>e. fst e = n) (acted_on sn d)" using Some by (simp add: has_entry)
    ultimately show ?thesis
      using Some True t wf by (simp add: bt.get_fold_ins bt_get_retain bt.wf_fold_del bt_get_fold_remove)
  next
    case False
    then have "(n, a) \<in> set (to_spawn sn d)" using Some by (auto simp: to_spawn_iff [OF dist])
    then obtain i where "i < length (to_spawn sn d)" "to_spawn sn d ! i = (n, a)" by (auto simp: in_set_conv_nth)
    then have "ActionSpawned (task + i) n a \<in> set (spawn_events task (to_spawn sn d))"
      by (simp add: in_enumerate_spawn)
    with flight_spawned [OF dist this] Some False show ?thesis by auto
  qed
qed

section \<open>One look\<close>

lemma take_called_off:
  assumes "only_calls_off P events"
  shows "\<exists>new left. fold take_event events sy =
      sy\<lparr>sy_tasks := filter (\<lambda>r. \<forall>n. CalledOff (rt_id r) n \<notin> set events) (sy_tasks sy),
         sy_reports := sy_reports sy @ map lost_report new, sy_leftover := sy_leftover sy @ left\<rparr> \<and>
      set new \<subseteq> {r \<in> set (sy_tasks sy). \<exists>n. CalledOff (rt_id r) n \<in> set events}"
proof -
  have "\<forall>ev\<in>set events. \<exists>t n. ev = CalledOff t n" using assms by (simp add: only_calls_off_def)
  then show ?thesis
  proof (induction events arbitrary: sy)
    case Nil
    have "fold take_event [] sy = sy\<lparr>sy_tasks := filter (\<lambda>r. \<forall>n. CalledOff (rt_id r) n \<notin> set []) (sy_tasks sy),
         sy_reports := sy_reports sy @ map lost_report [], sy_leftover := sy_leftover sy @ []\<rparr>" by simp
    then show ?case by (intro exI [of _ "[]"]) simp
  next
    case (Cons ev events)
    then obtain t n where ev: "ev = CalledOff t n" by auto
    show ?case
    proof (cases "find_task sy t")
      case None
      then have "\<forall>r\<in>set (sy_tasks sy). rt_id r \<noteq> t" by (auto simp: find_task_def find_None_iff)
      then have "filter (\<lambda>r. \<forall>n. CalledOff (rt_id r) n \<notin> set (ev # events)) (sy_tasks sy) =
          filter (\<lambda>r. \<forall>n. CalledOff (rt_id r) n \<notin> set events) (sy_tasks sy)"
        by (intro filter_cong refl) (auto simp: ev)
      moreover have "fold take_event (ev # events) sy = fold take_event events sy" using None by (simp add: ev take_event_def)
      moreover obtain new left where "fold take_event events sy =
          sy\<lparr>sy_tasks := filter (\<lambda>r. \<forall>n. CalledOff (rt_id r) n \<notin> set events) (sy_tasks sy),
             sy_reports := sy_reports sy @ map lost_report new, sy_leftover := sy_leftover sy @ left\<rparr>"
          "set new \<subseteq> {r \<in> set (sy_tasks sy). \<exists>n. CalledOff (rt_id r) n \<in> set events}"
        using Cons.IH [of sy] Cons.prems by auto
      moreover have "set events \<subseteq> set (ev # events)" by auto
      ultimately show ?thesis by (intro exI [of _ new] exI [of _ left]) (simp, blast)
    next
      case (Some r)
      then have r: "r \<in> set (sy_tasks sy)" "rt_id r = t" by (auto simp: find_task_def find_Some_iff)
      have ts: "sy_tasks (lose_task r sy) = filter (\<lambda>q. rt_id q \<noteq> t) (sy_tasks sy)"
          "sy_reports (lose_task r sy) = sy_reports sy @ [lost_report r]"
          "sy_leftover (lose_task r sy) = sy_leftover sy @ [rt_mine r]"
        by (simp_all add: lose_task_def drop_task_def r)
      obtain new left where nl: "fold take_event events (lose_task r sy) = (lose_task r sy)\<lparr>
           sy_tasks := filter (\<lambda>r. \<forall>n. CalledOff (rt_id r) n \<notin> set events) (sy_tasks (lose_task r sy)),
           sy_reports := sy_reports (lose_task r sy) @ map lost_report new,
           sy_leftover := sy_leftover (lose_task r sy) @ left\<rparr>"
         "set new \<subseteq> {q \<in> set (sy_tasks (lose_task r sy)). \<exists>n. CalledOff (rt_id q) n \<in> set events}"
        using Cons.IH [of "lose_task r sy"] Cons.prems by auto
      have "filter (\<lambda>q. \<forall>n. CalledOff (rt_id q) n \<notin> set (ev # events)) (sy_tasks sy) =
          filter (\<lambda>q. \<forall>n. CalledOff (rt_id q) n \<notin> set events) (filter (\<lambda>q. rt_id q \<noteq> t) (sy_tasks sy))"
        unfolding filter_filter by (intro filter_cong refl) (auto simp: ev)
      moreover have "take_event ev sy = lose_task r sy" using Some by (simp add: ev take_event_def)
      ultimately have "fold take_event (ev # events) sy = sy\<lparr>
           sy_tasks := filter (\<lambda>r. \<forall>n. CalledOff (rt_id r) n \<notin> set (ev # events)) (sy_tasks sy),
           sy_reports := sy_reports sy @ map lost_report (r # new), sy_leftover := sy_leftover sy @ rt_mine r # left\<rparr>"
        using nl(1) ts by (simp add: lose_task_def drop_task_def r)
      moreover have "set (r # new) \<subseteq> {q \<in> set (sy_tasks sy). \<exists>n. CalledOff (rt_id q) n \<in> set (ev # events)}"
        using nl(2) r ts(1) ev by auto
      ultimately show ?thesis by blast
    qed
  qed
qed

definition new_task :: "nat \<times> pending_entry \<Rightarrow> run_task" where
  "new_task x = \<lparr>rt_id = fst x, rt_what = Inr (snd x), rt_mine = [], rt_drained = False\<rparr>"

lemma take_spawned:
  "fold take_event (spawn_events task es) sy = sy\<lparr>sy_tasks := sy_tasks sy @ map new_task (enumerate task es)\<rparr>"
proof (induction es arbitrary: task sy)
  case (Cons e es)
  have "spawn_events task (e # es) = ActionSpawned task (fst e) (snd e) # spawn_events (Suc task) es"
    by (simp add: spawn_events_def)
  moreover have "take_event (ActionSpawned task (fst e) (snd e)) sy = sy\<lparr>sy_tasks := sy_tasks sy @ [new_task (task, e)]\<rparr>"
    by (simp add: take_event_def new_task_def)
  ultimately show ?case by (simp add: Cons.IH)
qed (simp add: spawn_events_def)

definition new_create :: "nat \<Rightarrow> env_spec \<Rightarrow> run_task" where
  "new_create t plan = \<lparr>rt_id = t, rt_what = Inl plan, rt_mine = [], rt_drained = False\<rparr>"

lemma pending_nodes:
  "\<forall>kc\<in>set m. ci_node_id (snd kc) = fst kc \<Longrightarrow>
   map fst (filter_map (\<lambda>c. map_option (\<lambda>a. (ci_node_id c, a)) (ci_pending_action c)) (map snd m)) =
   map fst (filter (\<lambda>kc. ci_pending_action (snd kc) \<noteq> None) m)"
  by (induction m) (auto split: option.split)

lemma wf_env_entries: "wf_env e \<Longrightarrow> kc \<in> set (es_containers e) \<Longrightarrow> ci_node_id (snd kc) = fst kc"
  using bt_in_set [of "es_containers e" "fst kc" "snd kc"] by (auto simp: wf_env_def)

lemma extract_distinct:
  assumes "wf_state s"
  shows "distinct (map fst (extract_pending s))"
proof (cases "ws_env s")
  case (Some e)
  have wf: "wf_env e" using assms Some by (simp add: wf_state_def)
  then have "distinct (map fst (es_containers e))" using bt_wf_distinct by (auto simp: wf_env_def)
  then have "distinct (map fst (filter_map (\<lambda>c. map_option (\<lambda>a. (ci_node_id c, a)) (ci_pending_action c)) (map snd (es_containers e))))"
    using pending_nodes [of "es_containers e"] wf_env_entries [OF wf] distinct_map_filter by fastforce
  with Some show ?thesis by (simp add: extract_pending_def bt_values_def)
qed (simp add: extract_pending_def)

lemma map_of_pending:
  assumes "wf_env e"
  shows "map_of (filter_map (\<lambda>c. map_option (\<lambda>a. (ci_node_id c, a)) (ci_pending_action c)) (map snd (es_containers e))) n =
    Option.bind (map_of (es_containers e) n) ci_pending_action"
proof -
  have "map_of (filter_map (\<lambda>c. map_option (\<lambda>a. (ci_node_id c, a)) (ci_pending_action c)) (map snd m)) n =
      Option.bind (map_of m n) ci_pending_action"
    if "\<forall>kc\<in>set m. ci_node_id (snd kc) = fst kc" "distinct (map fst m)" for m
    using that
  proof (induction m)
    case (Cons kc m)
    show ?case
    proof (cases "fst kc = n")
      case True
      then have "map_of m n = None" using Cons.prems(2) by (auto simp: map_of_eq_None_iff)
      with True Cons show ?thesis by (cases kc) (auto split: option.split)
    next
      case False
      with Cons show ?thesis by (cases kc) (auto split: option.split)
    qed
  qed simp
  moreover have "distinct (map fst (es_containers e))" using assms bt_wf_distinct by (auto simp: wf_env_def)
  ultimately show ?thesis using wf_env_entries [OF assms] by blast
qed

lemma acted_distinct: "wf_state s \<Longrightarrow> distinct (map fst (acted_on (extract_converge s) d))"
  unfolding acted_on_def without_progress_def
  by (rule distinct_map_filter) (simp add: extract_converge_def extract_distinct)

end
