(* ===== verification/Converge_System.thy ===== *)
theory Converge_System
  imports Converge_Props
begin

text \<open>
  The invariant of the effect, the actor and the tasks together: it holds after any steps, in any
  order.
\<close>

section \<open>What a look changes\<close>

abbreviation snap :: "system \<Rightarrow> converge_snapshot" where
  "snap sy \<equiv> extract_converge (sy_state sy)"

definition called_events :: "system \<Rightarrow> docker_event list" where
  "called_events sy = called_off (\<lambda>t. find_task sy t = None) (to_abort (snap sy) (sy_effect sy)) (sy_effect sy)"

definition new_creates :: "system \<Rightarrow> env_spec list" where
  "new_creates sy = (case sn_create (snap sy) of None \<Rightarrow> [] | Some plan \<Rightarrow>
     if de_create_in_flight (sy_effect sy) then [] else [plan])"

lemma look_skips: "sy_last sy = Some (snap sy) \<Longrightarrow> look sy = sy"
  by (simp add: look_def Let_def)

lemma look_parts:
  assumes "sy_last sy \<noteq> Some (snap sy)"
  obtains new left where
    "look sy = sy\<lparr>
       sy_effect := (sy_effect sy)\<lparr>de_in_flight := flight_after (snap sy) (sy_effect sy) (sy_next_task sy),
         de_create_in_flight := (sn_create (snap sy) \<noteq> None)\<rparr>,
       sy_last := Some (snap sy),
       sy_next_task := sy_next_task sy + length (to_spawn (snap sy) (sy_effect sy)) + length (new_creates sy),
       sy_tasks := filter (\<lambda>r. \<forall>n. CalledOff (rt_id r) n \<notin> set (called_events sy)) (sy_tasks sy) @
         map new_task (enumerate (sy_next_task sy) (to_spawn (snap sy) (sy_effect sy))) @
         map (new_create (sy_next_task sy + length (to_spawn (snap sy) (sy_effect sy)))) (new_creates sy),
       sy_reports := sy_reports sy @ map lost_report new,
       sy_leftover := sy_leftover sy @ left\<rparr>"
    "set new \<subseteq> {r \<in> set (sy_tasks sy). \<exists>n. CalledOff (rt_id r) n \<in> set (called_events sy)}"
proof -
  let ?S = "to_spawn (snap sy) (sy_effect sy)"
  let ?d = "(sy_effect sy)\<lparr>de_in_flight := flight_after (snap sy) (sy_effect sy) (sy_next_task sy),
         de_create_in_flight := (sn_create (snap sy) \<noteq> None)\<rparr>"
  let ?sy = "sy\<lparr>sy_effect := ?d, sy_next_task := sy_next_task sy + length ?S, sy_last := Some (snap sy)\<rparr>"
  have look: "look sy = fold take_event (create_events (de_create_in_flight (sy_effect sy)) (sn_create (snap sy)))
      (fold take_event (spawn_events (sy_next_task sy) ?S) (fold take_event (called_events sy) ?sy))"
    using assms by (simp add: look_def Let_def converge_parts called_events_def)
  obtain new left where c: "fold take_event (called_events sy) ?sy = ?sy\<lparr>
       sy_tasks := filter (\<lambda>r. \<forall>n. CalledOff (rt_id r) n \<notin> set (called_events sy)) (sy_tasks sy),
       sy_reports := sy_reports sy @ map lost_report new, sy_leftover := sy_leftover sy @ left\<rparr>"
     "set new \<subseteq> {r \<in> set (sy_tasks sy). \<exists>n. CalledOff (rt_id r) n \<in> set (called_events sy)}"
    using take_called_off [OF called_off_fold(2) [where finished = "\<lambda>t. find_task sy t = None" and ns = "to_abort (snap sy) (sy_effect sy)" and d = "sy_effect sy"], of ?sy]
    unfolding called_events_def by auto
  show thesis
  proof (rule that [OF _ c(2), of left])
    show "look sy = sy\<lparr>sy_effect := ?d, sy_last := Some (snap sy),
       sy_next_task := sy_next_task sy + length ?S + length (new_creates sy),
       sy_tasks := filter (\<lambda>r. \<forall>n. CalledOff (rt_id r) n \<notin> set (called_events sy)) (sy_tasks sy) @
         map new_task (enumerate (sy_next_task sy) ?S) @
         map (new_create (sy_next_task sy + length ?S)) (new_creates sy),
       sy_reports := sy_reports sy @ map lost_report new, sy_leftover := sy_leftover sy @ left\<rparr>"
      unfolding look c(1) take_spawned
      by (simp add: create_events_def new_creates_def take_event_def new_create_def split: option.split)
  qed
qed

lemma look_fields:
  assumes "sy_last sy \<noteq> Some (snap sy)"
  shows "sy_state (look sy) = sy_state sy" "sy_last (look sy) = Some (snap sy)"
    "de_in_flight (sy_effect (look sy)) = flight_after (snap sy) (sy_effect sy) (sy_next_task sy)"
    "de_create_in_flight (sy_effect (look sy)) = (sn_create (snap sy) \<noteq> None)"
    "de_driven (sy_effect (look sy)) = de_driven (sy_effect sy)"
    "sy_next_task (look sy) = sy_next_task sy + length (to_spawn (snap sy) (sy_effect sy)) + length (new_creates sy)"
    "sy_tasks (look sy) = filter (\<lambda>r. \<forall>n. CalledOff (rt_id r) n \<notin> set (called_events sy)) (sy_tasks sy) @
       map new_task (enumerate (sy_next_task sy) (to_spawn (snap sy) (sy_effect sy))) @
       map (new_create (sy_next_task sy + length (to_spawn (snap sy) (sy_effect sy)))) (new_creates sy)"
    "\<exists>new. sy_reports (look sy) = sy_reports sy @ map lost_report new \<and>
       set new \<subseteq> {r \<in> set (sy_tasks sy). \<exists>n. CalledOff (rt_id r) n \<in> set (called_events sy)}"
proof -
  obtain new left where look: "look sy = sy\<lparr>
       sy_effect := (sy_effect sy)\<lparr>de_in_flight := flight_after (snap sy) (sy_effect sy) (sy_next_task sy),
         de_create_in_flight := (sn_create (snap sy) \<noteq> None)\<rparr>,
       sy_last := Some (snap sy),
       sy_next_task := sy_next_task sy + length (to_spawn (snap sy) (sy_effect sy)) + length (new_creates sy),
       sy_tasks := filter (\<lambda>r. \<forall>n. CalledOff (rt_id r) n \<notin> set (called_events sy)) (sy_tasks sy) @
         map new_task (enumerate (sy_next_task sy) (to_spawn (snap sy) (sy_effect sy))) @
         map (new_create (sy_next_task sy + length (to_spawn (snap sy) (sy_effect sy)))) (new_creates sy),
       sy_reports := sy_reports sy @ map lost_report new,
       sy_leftover := sy_leftover sy @ left\<rparr>"
    and new: "set new \<subseteq> {r \<in> set (sy_tasks sy). \<exists>n. CalledOff (rt_id r) n \<in> set (called_events sy)}"
    by (rule look_parts [OF assms])
  show "\<exists>new. sy_reports (look sy) = sy_reports sy @ map lost_report new \<and>
       set new \<subseteq> {r \<in> set (sy_tasks sy). \<exists>n. CalledOff (rt_id r) n \<in> set (called_events sy)}"
    using new by (intro exI [of _ new]) (simp add: look)
qed (rule look_parts [OF assms], simp)+

section \<open>The invariant\<close>

definition is_create :: "run_task \<Rightarrow> bool" where
  "is_create r = (case rt_what r of Inl _ \<Rightarrow> True | Inr _ \<Rightarrow> False)"

definition is_create_report :: "report \<Rightarrow> bool" where
  "is_create_report rp = (case rp of CreateReport _ \<Rightarrow> True | ActionReport _ _ _ \<Rightarrow> False)"

text \<open>The creates that run or whose report is still on its way.\<close>

definition creates_alive :: "system \<Rightarrow> nat" where
  "creates_alive sy = length (filter is_create (sy_tasks sy)) + length (filter is_create_report (sy_reports sy))"

definition create_inv :: "system \<Rightarrow> bool" where
  "create_inv sy = (creates_alive sy \<le> 1 \<and>
     (creates_alive sy = 0 \<or> creating (sy_state sy) \<noteq> None \<and> de_create_in_flight (sy_effect sy)))"

definition tracked :: "system \<Rightarrow> node_id \<Rightarrow> pending_action \<Rightarrow> nat \<Rightarrow> bool" where
  "tracked sy n a t = (map_of (de_in_flight (sy_effect sy)) n = Some (a, t))"

definition task_inv :: "system \<Rightarrow> bool" where
  "task_inv sy = (bt_wf (de_in_flight (sy_effect sy)) \<and> distinct (map rt_id (sy_tasks sy)) \<and>
     (\<forall>r\<in>set (sy_tasks sy). rt_id r < sy_next_task sy) \<and>
     (\<forall>n a t. tracked sy n a t \<longrightarrow> t < sy_next_task sy \<and>
        (\<forall>r\<in>set (sy_tasks sy). rt_id r = t \<longrightarrow> rt_what r = Inr (n, a))) \<and>
     (\<forall>r\<in>set (sy_tasks sy). \<forall>n. rt_what r = Inr (n, Starting) \<longrightarrow> tracked sy n Starting (rt_id r)))"

definition state_inv :: "system \<Rightarrow> bool" where
  "state_inv sy = (wf_state (sy_state sy) \<and> (\<forall>rp\<in>set (sy_reports sy). report_ok (report_action rp)))"

definition system_inv :: "system \<Rightarrow> bool" where
  "system_inv sy = (state_inv sy \<and> task_inv sy \<and> create_inv sy)"

lemma called_iff:
  assumes "state_inv sy" and "task_inv sy"
  shows "CalledOff t n \<in> set (called_events sy) \<longleftrightarrow>
    (\<exists>a. tracked sy n a t \<and> find_task sy t \<noteq> None \<and>
      (case map_of (acted_on (snap sy) (sy_effect sy)) n of None \<Rightarrow> a = Starting | Some b \<Rightarrow> b \<noteq> a))"
proof -
  have "only_calls_off (\<lambda>n t. n \<in> set (to_abort (snap sy) (sy_effect sy)) \<and>
      (\<exists>a. map_of (de_in_flight (sy_effect sy)) n = Some (a, t)) \<and> find_task sy t \<noteq> None) (called_events sy)"
    unfolding called_events_def using called_off_fold(2) by fastforce
  moreover have "distinct (map fst (acted_on (snap sy) (sy_effect sy)))" "bt_wf (de_in_flight (sy_effect sy))"
    using assms by (auto simp: state_inv_def task_inv_def intro: acted_distinct)
  ultimately show ?thesis using abort_iff [of "snap sy" "sy_effect sy" n]
    by (auto simp: only_calls_off_def tracked_def)
qed

section \<open>A look keeps it\<close>

lemma find_task_iff: "find_task sy t \<noteq> None \<longleftrightarrow> t \<in> rt_id ` set (sy_tasks sy)"
  by (auto simp: find_task_def find_None_iff)

lemma in_new_tasks: "r \<in> set (map new_task (enumerate task es)) \<longleftrightarrow>
    (\<exists>n a. r = new_task (rt_id r, n, a) \<and> ActionSpawned (rt_id r) n a \<in> set (spawn_events task es))"
  by (force simp: new_task_def spawn_events_def simp del: enumerate_simps)

lemma new_task_simps [simp]: "rt_id (new_task x) = fst x" "rt_what (new_task x) = Inr (snd x)"
  by (simp_all add: new_task_def)

lemma new_create_simps [simp]: "rt_id (new_create t plan) = t" "rt_what (new_create t plan) = Inl plan"
  by (simp_all add: new_create_def)

lemma new_ids: "map rt_id (map new_task (enumerate n es)) = [n..<n + length es]"
proof (induction es arbitrary: n)
  case (Cons e es)
  have "[n..<n + length (e # es)] = n # [Suc n..<n + length (e # es)]" by (rule upt_conv_Cons) simp
  with Cons [of "Suc n"] show ?case by (simp del: upt_Suc)
qed simp

lemma new_creates_length: "length (new_creates sy) \<le> 1"
  by (simp add: new_creates_def split: option.split)

lemma look_task_inv:
  assumes st: "state_inv sy" and tk: "task_inv sy"
  shows "task_inv (look sy)"
proof (cases "sy_last sy = Some (snap sy)")
  case False
  note look = look_fields [OF False]
  let ?S = "to_spawn (snap sy) (sy_effect sy)" and ?p = "acted_on (snap sy) (sy_effect sy)" and ?N = "sy_next_task sy"
  let ?old = "filter (\<lambda>r. \<forall>n. CalledOff (rt_id r) n \<notin> set (called_events sy)) (sy_tasks sy)"
  have wf: "bt_wf (de_in_flight (sy_effect sy))" and dist: "distinct (map fst ?p)"
    using st tk by (auto simp: state_inv_def task_inv_def intro: acted_distinct)
  have old_ids: "rt_id r < ?N" if "r \<in> set (sy_tasks sy)" for r using tk that by (auto simp: task_inv_def)
  have spawned: "?N \<le> t \<and> t < ?N + length ?S" if "ActionSpawned t n a \<in> set (spawn_events ?N ?S)" for t n a
    using that by (simp add: in_enumerate_spawn)
  have in_new: "rt_id r \<ge> ?N \<and> rt_id r < ?N + length ?S" if "r \<in> set (map new_task (enumerate ?N ?S))" for r
    using that spawned unfolding in_new_tasks by blast
  have fl: "tracked (look sy) n a t \<longleftrightarrow> map_of (flight_after (snap sy) (sy_effect sy) ?N) n = Some (a, t)" for n a t
    by (simp add: look tracked_def)
  have tr: "tracked sy n a t \<and> map_of ?p n = Some a \<or> ActionSpawned t n a \<in> set (spawn_events ?N ?S)"
    if "tracked (look sy) n a t" for n a t
    using that [unfolded fl] flight_result [OF dist wf, where n = n and task = ?N] unfolding tracked_def
    by (auto split: option.splits if_splits)
  have sp: "tracked (look sy) n a t" if "ActionSpawned t n a \<in> set (spawn_events ?N ?S)" for n a t
    using flight_spawned [OF dist that] by (simp add: fl)
  have keep: "tracked (look sy) n a t" if "tracked sy n a t" "map_of ?p n = Some a" for n a t
    unfolding fl using that flight_result [OF dist wf, where n = n and task = ?N] by (simp add: tracked_def)
  have tasks: "sy_tasks (look sy) = ?old @ map new_task (enumerate ?N ?S) @ map (new_create (?N + length ?S)) (new_creates sy)"
    and nxt: "sy_next_task (look sy) = ?N + length ?S + length (new_creates sy)"
    by (simp_all add: look)
  have ids: "map rt_id (map new_task (enumerate ?N ?S)) = [?N..<?N + length ?S]"
    by (rule new_ids)
  show ?thesis
    unfolding task_inv_def
  proof (intro conjI allI ballI impI)
    show "bt_wf (de_in_flight (sy_effect (look sy)))" using flight_wf [OF wf] by (simp add: look)
    have "distinct (map rt_id ?old)" using tk by (simp add: task_inv_def distinct_map_filter)
    moreover have "set (map rt_id ?old) \<inter> set [?N..<?N + length ?S] = {}" using old_ids by fastforce
    moreover have "map rt_id (map (new_create (?N + length ?S)) (new_creates sy)) = (if new_creates sy = [] then [] else [?N + length ?S])"
      using new_creates_length [of sy] by (cases "new_creates sy") auto
    moreover have "?N + length ?S \<notin> set (map rt_id ?old)" using old_ids by fastforce
    ultimately show "distinct (map rt_id (sy_tasks (look sy)))"
      unfolding tasks map_append ids by auto
    show "rt_id r < sy_next_task (look sy)" if r: "r \<in> set (sy_tasks (look sy))" for r
    proof -
      consider "r \<in> set ?old" | "r \<in> set (map new_task (enumerate ?N ?S))"
        | "r \<in> set (map (new_create (?N + length ?S)) (new_creates sy))"
        using r unfolding tasks by auto
      then show ?thesis
      proof cases
        case 1
        then show ?thesis using old_ids [of r] nxt by simp
      next
        case 2
        then show ?thesis using in_new nxt by fastforce
      next
        case 3
        then have "new_creates sy \<noteq> []" "rt_id r = ?N + length ?S" by auto
        then show ?thesis using nxt by (cases "new_creates sy") auto
      qed
    qed
    fix n a t assume T: "tracked (look sy) n a t"
    show "t < sy_next_task (look sy)"
    proof -
      have "tracked sy n a t \<Longrightarrow> t < ?N" using tk by (auto simp: task_inv_def)
      with tr [OF T] spawned [of t n a] have "t < ?N + length ?S" by fastforce
      with nxt show ?thesis by simp
    qed
    fix r assume r: "r \<in> set (sy_tasks (look sy))" "rt_id r = t"
    from tr [OF T] show "rt_what r = Inr (n, a)"
    proof
      assume old: "tracked sy n a t \<and> map_of ?p n = Some a"
      then have "t < ?N" using tk by (auto simp: task_inv_def)
      then have "r \<in> set (sy_tasks sy)" using r in_new [of r] unfolding tasks by auto
      with old r(2) tk show ?thesis by (auto simp: task_inv_def)
    next
      assume new: "ActionSpawned t n a \<in> set (spawn_events ?N ?S)"
      then have "?N \<le> t" "t < ?N + length ?S" using spawned by auto
      then have "r \<in> set (map new_task (enumerate ?N ?S))" using r old_ids [of r] unfolding tasks by auto
      then obtain m b where "rt_what r = Inr (m, b)" "ActionSpawned t m b \<in> set (spawn_events ?N ?S)"
        unfolding in_new_tasks r(2) by (metis new_task_simps(2) snd_conv)
      with new show ?thesis by (simp add: in_enumerate_spawn)
    qed
  next
    fix r n assume r: "r \<in> set (sy_tasks (look sy))" and w: "rt_what r = Inr (n, Starting)"
    consider "r \<in> set ?old" | "r \<in> set (map new_task (enumerate ?N ?S))"
      | "r \<in> set (map (new_create (?N + length ?S)) (new_creates sy))"
      using r unfolding tasks by auto
    then show "tracked (look sy) n Starting (rt_id r)"
    proof cases
      case 1
      then have "tracked sy n Starting (rt_id r)" using w tk by (auto simp: task_inv_def)
      moreover have "find_task sy (rt_id r) \<noteq> None" using 1 unfolding find_task_iff by auto
      moreover have "CalledOff (rt_id r) n \<notin> set (called_events sy)" using 1 by auto
      ultimately have "map_of ?p n = Some Starting"
        unfolding called_iff [OF st tk] by (auto split: option.splits)
      with keep \<open>tracked sy n Starting (rt_id r)\<close> show ?thesis by blast
    next
      case 2
      then obtain m b where "rt_what r = Inr (m, b)" "ActionSpawned (rt_id r) m b \<in> set (spawn_events ?N ?S)"
        unfolding in_new_tasks by (metis new_task_simps(2) snd_conv)
      with w sp show ?thesis by simp
    next
      case 3
      with w show ?thesis by auto
    qed
  qed
qed (simp add: look_skips tk)

lemma snap_create: "sn_create (snap sy) = creating (sy_state sy)"
  by (simp add: extract_converge_def extract_pending_create_def creating_def)

lemma lost_report_ok: "report_ok (report_action (lost_report r))"
  by (auto simp: lost_report_def report_action_def bare_create_error_def split: sum.split)

lemma lost_report_kind: "is_create_report (lost_report r) = is_create r"
  by (auto simp: lost_report_def is_create_report_def is_create_def split: sum.split)

lemma called_are_actions:
  assumes "state_inv sy" "task_inv sy" "r \<in> set (sy_tasks sy)" "CalledOff (rt_id r) n \<in> set (called_events sy)"
  shows "\<not> is_create r"
proof -
  obtain a where "tracked sy n a (rt_id r)" using assms(4) unfolding called_iff [OF assms(1,2)] by auto
  with assms(2,3) show ?thesis by (auto simp: task_inv_def is_create_def)
qed

lemma look_creates:
  assumes "state_inv sy" "task_inv sy"
  shows "creates_alive (look sy) = creates_alive sy + (if sy_last sy = Some (snap sy) then 0 else length (new_creates sy))"
proof (cases "sy_last sy = Some (snap sy)")
  case False
  obtain new where reports: "sy_reports (look sy) = sy_reports sy @ map lost_report new"
    and new: "set new \<subseteq> {r \<in> set (sy_tasks sy). \<exists>n. CalledOff (rt_id r) n \<in> set (called_events sy)}"
    using look_fields(8) [OF False] by blast
  have "filter is_create (filter (\<lambda>r. \<forall>n. CalledOff (rt_id r) n \<notin> set (called_events sy)) (sy_tasks sy)) =
      filter is_create (sy_tasks sy)"
    unfolding filter_filter using called_are_actions [OF assms] by (intro filter_cong refl) blast
  moreover have "filter is_create (map new_task xs) = []" for xs
    by (auto simp: filter_empty_conv is_create_def)
  moreover have "filter is_create (map (new_create t) ps) = map (new_create t) ps" for t ps
    by (auto simp: filter_id_conv is_create_def)
  moreover have "filter is_create_report (map lost_report new) = []"
  proof -
    have "\<not> is_create r" if "r \<in> set new" for r using that new called_are_actions [OF assms] by blast
    then show ?thesis by (simp add: filter_empty_conv lost_report_kind)
  qed
  ultimately show ?thesis using False by (simp add: look_fields(7) [OF False] reports creates_alive_def)
qed (simp add: look_skips)

lemma look_state [simp]: "sy_state (look sy) = sy_state sy"
  using look_fields(1) by (cases "sy_last sy = Some (snap sy)") (simp_all add: look_skips)

lemma look_busy: "de_create_in_flight (sy_effect (look sy)) =
    (if sy_last sy = Some (snap sy) then de_create_in_flight (sy_effect sy) else creating (sy_state sy) \<noteq> None)"
  using look_fields(4) by (cases "sy_last sy = Some (snap sy)") (simp_all add: look_skips snap_create)

lemma look_inv:
  assumes "system_inv sy"
  shows "system_inv (look sy)"
proof -
  have st: "state_inv sy" and tk: "task_inv sy" and cr: "create_inv sy" using assms by (auto simp: system_inv_def)
  have "set (sy_reports (look sy)) \<subseteq> set (sy_reports sy) \<union> range lost_report"
  proof (cases "sy_last sy = Some (snap sy)")
    case False
    from look_fields(8) [OF this] show ?thesis by auto
  qed (simp add: look_skips)
  with st have "state_inv (look sy)" using lost_report_ok by (auto simp: state_inv_def)
  moreover have "create_inv (look sy)"
  proof (cases "sy_last sy = Some (snap sy)")
    case True
    with cr show ?thesis by (simp add: look_skips)
  next
    case False
    show ?thesis
    proof (cases "creating (sy_state sy)")
      case None
      with cr have "creates_alive sy = 0" by (auto simp: create_inv_def)
      moreover have "new_creates sy = []" using None by (simp add: new_creates_def snap_create)
      ultimately show ?thesis using look_creates [OF st tk] by (simp add: create_inv_def)
    next
      case (Some plan)
      have "creates_alive sy + length (new_creates sy) \<le> 1"
        using cr Some by (auto simp: create_inv_def new_creates_def snap_create)
      with False Some show ?thesis using look_creates [OF st tk] by (simp add: create_inv_def look_busy)
    qed
  qed
  ultimately show ?thesis using look_task_inv [OF st tk] by (simp add: system_inv_def)
qed

section \<open>Every other step keeps it\<close>

text \<open>The task part only depends on what is in flight and on the ids and purposes of the tasks.\<close>

lemma task_inv_sub:
  assumes "task_inv sy" and "de_in_flight (sy_effect sy') = de_in_flight (sy_effect sy)"
    and "sy_next_task sy' = sy_next_task sy" and "distinct (map rt_id (sy_tasks sy'))"
    and "\<And>r. r \<in> set (sy_tasks sy') \<Longrightarrow> \<exists>q\<in>set (sy_tasks sy). rt_id q = rt_id r \<and> rt_what q = rt_what r"
  shows "task_inv sy'"
proof -
  have tracked: "tracked sy' = tracked sy" by (intro ext) (simp add: tracked_def assms(2))
  show ?thesis
    unfolding task_inv_def tracked
  proof (intro conjI allI ballI impI)
    show "rt_id r < sy_next_task sy'" if "r \<in> set (sy_tasks sy')" for r
      using assms(5) [OF that] assms(1,3) by (auto simp: task_inv_def)
    show "rt_what r = Inr (n, a)" if "tracked sy n a t" "r \<in> set (sy_tasks sy')" "rt_id r = t" for r n a t
      using assms(5) [OF that(2)] assms(1) that(1,3) by (fastforce simp: task_inv_def)
    show "tracked sy n Starting (rt_id r)" if "r \<in> set (sy_tasks sy')" "rt_what r = Inr (n, Starting)" for r n
      using assms(5) [OF that(1)] assms(1) that(2) by (fastforce simp: task_inv_def)
  qed (use assms in \<open>auto simp: task_inv_def\<close>)
qed

lemma task_inv_same:
  assumes "task_inv sy" "sy_effect sy' = sy_effect sy" "sy_next_task sy' = sy_next_task sy" "sy_tasks sy' = sy_tasks sy"
  shows "task_inv sy'"
proof (rule task_inv_sub [OF assms(1)])
  show "distinct (map rt_id (sy_tasks sy'))" using assms(1,4) by (simp add: task_inv_def)
qed (use assms in auto)

lemma dispatch_fields:
  assumes "dispatch a sy = Some sy'"
  obtains r s' where "actor_step (sy_state sy) a = Some (r, s')" "sy' = sy\<lparr>sy_state := s'\<rparr>"
  using assms by (auto simp: dispatch_def)

lemma step_keeps_creating:
  assumes "actor_step s a = Some (r, s')" "\<not> settles_create a" "creating s \<noteq> None"
  shows "creating s' = creating s"
  using assms reduce_keeps_creating [of s _ a s'] by (cases rule: actor_step_cases [OF assms(1)]) auto

lemma dispatch_inv:
  assumes "system_inv sy" "dispatch a sy = Some sy'" "\<not> settles_create a" "report_ok a"
  shows "system_inv sy'"
proof -
  obtain r s' where d: "actor_step (sy_state sy) a = Some (r, s')" "sy' = sy\<lparr>sy_state := s'\<rparr>"
    by (rule dispatch_fields [OF assms(2)])
  have "creating (sy_state sy) \<noteq> None \<Longrightarrow> creating s' \<noteq> None"
    using step_keeps_creating [OF d(1) assms(3)] by simp
  moreover have "wf_state s'"
    using assms(1) actor_step_wf [OF _ assms(4) d(1)] by (simp add: system_inv_def state_inv_def)
  moreover have "task_inv sy'" by (rule task_inv_same [of sy]) (use assms(1) d(2) in \<open>simp_all add: system_inv_def\<close>)
  ultimately show ?thesis
    using assms(1) d(2) by (auto simp: system_inv_def state_inv_def create_inv_def creates_alive_def)
qed

lemma driven_inv: "system_inv (set_driven driven sy) = system_inv sy"
  by (simp add: system_inv_def state_inv_def create_inv_def creates_alive_def task_inv_def tracked_def set_driven_def)

lemma find_taskD:
  assumes "find_task sy t = Some r"
  shows "r \<in> set (sy_tasks sy)" "rt_id r = t"
  using assms by (auto simp: find_task_def find_Some_iff)

lemma set_task_inv:
  assumes inv: "system_inv sy" and r: "find_task sy t = Some r" and same: "rt_id q = rt_id r" "rt_what q = rt_what r"
  shows "system_inv (set_task q sy)"
proof -
  have dist: "distinct (map rt_id (sy_tasks sy))" using inv by (simp add: system_inv_def task_inv_def)
  have ids: "map rt_id (sy_tasks (set_task q sy)) = map rt_id (sy_tasks sy)" by (simp add: set_task_def)
  have what: "map is_create (sy_tasks (set_task q sy)) = map is_create (sy_tasks sy)"
  proof -
    have "is_create (if rt_id x = rt_id q then q else x) = is_create x" if "x \<in> set (sy_tasks sy)" for x
    proof (cases "rt_id x = rt_id q")
      case True
      then have "x = r" using dist that find_taskD [OF r] same(1) by (auto simp: distinct_map inj_on_def)
      with True show ?thesis by (simp add: is_create_def same)
    qed simp
    then show ?thesis by (simp add: set_task_def)
  qed
  have len: "length (filter is_create xs) = length (filter id (map is_create xs))" for xs by (induction xs) auto
  have "task_inv (set_task q sy)"
  proof (rule task_inv_sub [of sy])
    show "distinct (map rt_id (sy_tasks (set_task q sy)))" using ids dist by simp
    show "\<exists>p\<in>set (sy_tasks sy). rt_id p = rt_id x \<and> rt_what p = rt_what x" if "x \<in> set (sy_tasks (set_task q sy))" for x
      using that find_taskD [OF r] same by (auto simp: set_task_def split: if_splits)
  qed (use inv in \<open>simp_all add: system_inv_def set_task_def\<close>)
  moreover have "creates_alive (set_task q sy) = creates_alive sy"
    unfolding creates_alive_def len what by (simp add: set_task_def)
  ultimately show ?thesis
    using inv by (simp add: system_inv_def state_inv_def create_inv_def set_task_def)
qed

lemma drop_count:
  assumes "distinct (map rt_id rs)" "r \<in> set rs" "rt_id r = t"
  shows "length (filter is_create (filter (\<lambda>q. rt_id q \<noteq> t) rs)) + (if is_create r then 1 else 0) = length (filter is_create rs)"
  using assms
proof (induction rs)
  case (Cons q rs)
  show ?case
  proof (cases "q = r")
    case True
    then have "\<forall>x\<in>set rs. rt_id x \<noteq> t" using Cons.prems by (auto simp: image_iff)
    then have "filter (\<lambda>q. rt_id q \<noteq> t) rs = rs" by simp
    with True Cons.prems show ?thesis by simp
  next
    case False
    then have "rt_id q \<noteq> t" using Cons.prems by (auto simp: image_iff)
    with False Cons show ?thesis by auto
  qed
qed simp

text \<open>A task that ends, by itself or not, hands over to its report.\<close>

lemma hand_over_inv:
  assumes inv: "system_inv sy" and r: "find_task sy t = Some r"
    and rp: "is_create_report rp = is_create r" "report_ok (report_action rp)"
    and sy': "sy_state sy' = sy_state sy" "sy_effect sy' = sy_effect sy" "sy_next_task sy' = sy_next_task sy"
      "sy_tasks sy' = filter (\<lambda>q. rt_id q \<noteq> t) (sy_tasks sy)" "sy_reports sy' = sy_reports sy @ [rp]"
  shows "system_inv sy'"
proof -
  have dist: "distinct (map rt_id (sy_tasks sy))" using inv by (simp add: system_inv_def task_inv_def)
  have "creates_alive sy' = creates_alive sy"
    using drop_count [OF dist find_taskD [OF r]] rp(1) sy' by (cases "is_create r") (simp_all add: creates_alive_def)
  moreover have "task_inv sy'"
    by (rule task_inv_sub [of sy]) (use inv dist sy' in \<open>auto simp: system_inv_def distinct_map_filter\<close>)
  ultimately show ?thesis
    using inv rp(2) sy' by (auto simp: system_inv_def state_inv_def create_inv_def)
qed

lemma remove_count:
  assumes "k < length xs"
  shows "length (filter P (take k xs @ drop (k + 1) xs)) + (if P (xs ! k) then 1 else 0) = length (filter P xs)"
proof -
  have "length (filter P xs) = length (filter P (take k xs @ xs ! k # drop (Suc k) xs))"
    using id_take_nth_drop [OF assms] by simp
  then show ?thesis by simp
qed

lemma report_arrives_inv:
  assumes inv: "system_inv sy" and k: "k < length (sy_reports sy)"
    and d: "dispatch (report_action (sy_reports sy ! k)) (sy\<lparr>sy_reports := take k (sy_reports sy) @ drop (k + 1) (sy_reports sy)\<rparr>) = Some sy'"
  shows "system_inv sy'"
proof -
  let ?rp = "sy_reports sy ! k"
  let ?sy = "sy\<lparr>sy_reports := take k (sy_reports sy) @ drop (k + 1) (sy_reports sy)\<rparr>"
  have ok: "report_ok (report_action ?rp)" using inv k by (simp add: system_inv_def state_inv_def)
  have sub: "set (sy_reports ?sy) \<subseteq> set (sy_reports sy)" using set_take_subset set_drop_subset by fastforce
  have tk: "task_inv ?sy" by (rule task_inv_same [of sy]) (use inv in \<open>simp_all add: system_inv_def\<close>)
  have count: "creates_alive ?sy + (if is_create_report ?rp then 1 else 0) = creates_alive sy"
    using remove_count [OF k, of is_create_report] by (simp add: creates_alive_def)
  show ?thesis
  proof (cases "is_create_report ?rp")
    case False
    then have "creates_alive ?sy = creates_alive sy" using count by simp
    then have "system_inv ?sy"
      using inv sub tk by (auto simp: system_inv_def state_inv_def create_inv_def)
    moreover have "\<not> settles_create (report_action ?rp)"
      using False by (simp add: is_create_report_def report_action_def split: report.splits)
    ultimately show ?thesis using dispatch_inv [OF _ d _ ok] by simp
  next
    case True
    then have none: "creates_alive ?sy = 0" using count inv by (auto simp: system_inv_def create_inv_def)
    obtain r s' where st: "actor_step (sy_state ?sy) (report_action ?rp) = Some (r, s')" "sy' = ?sy\<lparr>sy_state := s'\<rparr>"
      by (rule dispatch_fields [OF d])
    have "wf_state s'" using inv actor_step_wf [OF _ ok st(1)] by (simp add: system_inv_def state_inv_def)
    moreover have "task_inv sy'" by (rule task_inv_same [OF tk]) (simp_all add: st(2))
    moreover have "creates_alive sy' = 0" using none st(2) by (simp add: creates_alive_def)
    ultimately show ?thesis
      using inv sub st(2) by (auto simp: system_inv_def state_inv_def create_inv_def)
  qed
qed

lemma task_reports_inv:
  assumes "system_inv sy" "find_task sy t = Some r" "task_reports r p sy = Some sy'"
  shows "system_inv sy'"
proof (cases p)
  case (Planned start stop)
  then show ?thesis using assms by (simp add: task_reports_def)
next
  case (Working n act)
  show ?thesis
  proof (cases "own_node r = Some n")
    case False
    obtain mine driven where m: "(if act \<noteq> None then claim_node n (rt_mine r, de_driven (sy_effect sy))
         else (rt_mine r, de_driven (sy_effect sy))) = (mine, driven)" by fastforce
    have "system_inv (set_driven driven (set_task (r\<lparr>rt_mine := mine\<rparr>) sy))"
      using set_task_inv [OF assms(1,2), of "r\<lparr>rt_mine := mine\<rparr>"] by (simp add: driven_inv)
    moreover have "dispatch (EnvCreateWorking n act) (set_driven driven (set_task (r\<lparr>rt_mine := mine\<rparr>) sy)) = Some sy'"
      using assms(3) Working False m by (simp add: task_reports_def)
    ultimately show ?thesis by (rule dispatch_inv) simp_all
  qed (use assms Working in \<open>simp add: task_reports_def\<close>)
next
  case (NodeUp network name ip info)
  then show ?thesis
    using assms dispatch_inv [OF assms(1), of "EnvCreateProgress network name ip info" sy']
    by (auto simp: task_reports_def split: if_splits)
qed

lemma outside_ok: "from_outside a \<Longrightarrow> \<not> settles_create a" "from_outside a \<Longrightarrow> report_ok a"
  by (cases a; simp add: from_outside_def)+

lemma sys_do_inv:
  assumes inv: "system_inv sy" and do_it: "sys_do x sy = Some sy'"
  shows "system_inv sy'"
proof (cases x)
  case (Dispatched a)
  then have a: "from_outside a" "dispatch a sy = Some sy'" using do_it by (auto split: if_splits)
  show ?thesis by (rule dispatch_inv [OF inv a(2)]) (simp_all add: outside_ok [OF a(1)])
next
  case Look
  with do_it look_inv [OF inv] show ?thesis by auto
next
  case (TaskReports t p)
  with do_it task_reports_inv [OF inv] show ?thesis by (auto split: option.splits if_splits)
next
  case (TaskDrains t)
  with do_it set_task_inv [OF inv] show ?thesis by (auto simp: driven_inv split: option.splits if_splits)
next
  case (TaskCascades t info)
  with do_it dispatch_inv [OF inv, of "ContainerActionSettled (ci_node_id info) None (Inr (Some info))" sy']
  show ?thesis by (auto split: option.splits if_splits)
next
  case (TaskEnds t result)
  then obtain r n a where r: "find_task sy t = Some r" "rt_what r = Inr (n, a)"
      "report_ok (ContainerActionSettled n (Some a) result)"
      "sy' = (drop_task t sy)\<lparr>sy_reports := sy_reports sy @ [ActionReport n a result]\<rparr>"
    using do_it by (auto split: option.splits sum.splits if_splits)
  show ?thesis
    by (rule hand_over_inv [OF inv r(1), of "ActionReport n a result"])
      (use r in \<open>simp_all add: drop_task_def is_create_def is_create_report_def report_action_def\<close>)
next
  case (CreateEnds t result)
  then obtain r plan where r: "find_task sy t = Some r" "rt_what r = Inl plan"
      "report_ok (EnvCreateSettled result)"
      "sy' = (drop_task t sy)\<lparr>sy_reports := sy_reports sy @ [CreateReport result]\<rparr>"
    using do_it by (auto split: option.splits sum.splits if_splits)
  show ?thesis
    by (rule hand_over_inv [OF inv r(1), of "CreateReport result"])
      (use r in \<open>simp_all add: drop_task_def is_create_def is_create_report_def report_action_def\<close>)
next
  case (TaskPanics t)
  then obtain r where r: "find_task sy t = Some r" "sy' = lose_task r sy" using do_it by auto
  show ?thesis
    by (rule hand_over_inv [OF inv r(1), of "lost_report r"])
      (use r find_taskD [OF r(1)] in \<open>simp_all add: lose_task_def drop_task_def lost_report_ok lost_report_kind\<close>)
next
  case (ReportArrives k)
  with do_it report_arrives_inv [OF inv] show ?thesis by (auto split: if_splits)
next
  case (LeftoverDrains k)
  have "task_inv (sy\<lparr>sy_leftover := left\<rparr>)" for left
    by (rule task_inv_same [of sy]) (use inv in \<open>simp_all add: system_inv_def\<close>)
  then have "system_inv (sy\<lparr>sy_leftover := left\<rparr>)" for left
    using inv by (simp add: system_inv_def state_inv_def create_inv_def creates_alive_def)
  with LeftoverDrains do_it show ?thesis by (auto simp: driven_inv split: if_splits)
qed

lemma sys_run_inv: "system_inv sy \<Longrightarrow> sys_run xs sy = Some sy' \<Longrightarrow> system_inv sy'"
proof (induction xs arbitrary: sy)
  case (Cons x xs)
  then obtain sy1 where "sys_do x sy = Some sy1" "sys_run xs sy1 = Some sy'" by (auto split: option.splits)
  with Cons.IH [of sy1] sys_do_inv [OF Cons.prems(1)] show ?case by simp
qed simp

lemma new_system_inv: "wf_state s \<Longrightarrow> system_inv (new_system s)"
  by (simp add: system_inv_def state_inv_def task_inv_def create_inv_def creates_alive_def new_system_def
      new_effect_def tracked_def)

end
