(* ===== verification/Converge_Sync.thy ===== *)
theory Converge_Sync
  imports Converge_System
begin

text \<open>
  When the effect looks after every step, so that it misses no state, nothing that was asked for is
  lost: each mark has its task, and a create in flight has the task that creates it.
\<close>

definition pending_at :: "system \<Rightarrow> node_id \<Rightarrow> pending_action option" where
  "pending_at sy n = map_of (extract_pending (sy_state sy)) n"

definition action_alive :: "system \<Rightarrow> node_id \<Rightarrow> pending_action \<Rightarrow> nat \<Rightarrow> bool" where
  "action_alive sy n a t = (t \<in> rt_id ` set (sy_tasks sy) \<or> (\<exists>result. ActionReport n a result \<in> set (sy_reports sy)))"

definition create_alive :: "system \<Rightarrow> env_spec \<Rightarrow> bool" where
  "create_alive sy plan = ((\<exists>r\<in>set (sy_tasks sy). rt_what r = Inl plan) \<or>
     (\<exists>result. CreateReport result \<in> set (sy_reports sy)))"

text \<open>The nodes a step claims for the run that reports it.\<close>

fun claims :: "sys_step \<Rightarrow> node_id set" where
  "claims (TaskReports _ (Working n (Some _))) = {n}"
| "claims _ = {}"

definition sync_inv :: "node_id set \<Rightarrow> system \<Rightarrow> bool" where
  "sync_inv D sy = (system_inv sy \<and> sy_last sy = Some (snap sy) \<and>
     (\<forall>n a t. tracked sy n a t \<longrightarrow> pending_at sy n = Some a \<and> action_alive sy n a t) \<and>
     (\<forall>n a. pending_at sy n = Some a \<longrightarrow> (\<exists>t. tracked sy n a t) \<or> starts a \<and> n \<in> D) \<and>
     (\<forall>plan. creating (sy_state sy) = Some plan \<longrightarrow> create_alive sy plan) \<and>
     de_create_in_flight (sy_effect sy) = (creating (sy_state sy) \<noteq> None) \<and>
     (\<forall>n. bt_has (de_driven (sy_effect sy)) n \<longrightarrow> n \<in> D))"

definition sync_do :: "sys_step \<Rightarrow> system \<Rightarrow> system option" where
  "sync_do x sy = map_option look (sys_do x sy)"

fun sync_run :: "sys_step list \<Rightarrow> system \<Rightarrow> system option" where
  "sync_run [] sy = Some sy"
| "sync_run (x # xs) sy = (case sync_do x sy of None \<Rightarrow> None | Some sy' \<Rightarrow> sync_run xs sy')"

section \<open>One step before its look\<close>

lemma settled_not_pending:
  assumes "wf_state s" and step: "actor_step s (ContainerActionSettled n (Some a) result) = Some (r, s')"
    and ok: "report_ok (ContainerActionSettled n (Some a) result)"
  shows "map_of (extract_pending s') n \<noteq> Some a"
proof (cases "ws_env s")
  case None
  then have "s' = s" using step by (auto simp: actor_step_def reduce_def update_env_def)
  with None show ?thesis by (simp add: extract_pending_def)
next
  case (Some e)
  then have s': "ws_env s' = Some (settle_action n (Some a) result e)"
    using step by (auto simp: actor_step_def reduce_def update_env_def)
  have "wf_state s'" by (rule actor_step_wf [OF assms(1) ok step])
  then have wf: "wf_env (settle_action n (Some a) result e)" using s' by (simp add: wf_state_def)
  have "Option.bind (map_of (es_containers (settle_action n (Some a) result e)) n) ci_pending_action \<noteq> Some a"
    by (cases "map_of (es_containers e) n")
      (auto simp: settle_action_def Let_def split: sum.splits option.splits)
  then show ?thesis using s' map_of_pending [OF wf] by (simp add: extract_pending_def bt_values_def)
qed

lemma create_settled: "actor_step s (EnvCreateSettled result) = Some (r, s') \<Longrightarrow> creating s' = None"
  by (auto simp: actor_step_def reduce_def settle_create_def creating_def clear_create_marks_def
      update_env_def Let_def split: sum.splits option.splits if_splits)

lemma hand_over_alive:
  assumes r: "find_task sy t = Some r" and inv: "task_inv sy" and tr: "tracked sy n a u"
    and sy': "sy_tasks sy' = filter (\<lambda>q. rt_id q \<noteq> t) (sy_tasks sy)" "sy_reports sy' = sy_reports sy @ [rp]"
    and rp: "\<And>m b. rt_what r = Inr (m, b) \<Longrightarrow> \<exists>res. rp = ActionReport m b res"
    and "action_alive sy n a u"
  shows "action_alive sy' n a u"
proof (cases "u = t")
  case True
  then have "rt_what r = Inr (n, a)" using inv tr find_taskD [OF r] by (auto simp: task_inv_def)
  with rp sy'(2) show ?thesis by (auto simp: action_alive_def)
next
  case False
  with assms(7) sy' show ?thesis by (auto simp: action_alive_def)
qed

lemma hand_over_create:
  assumes "find_task sy t = Some r" "create_alive sy plan"
    and "sy_tasks sy' = filter (\<lambda>q. rt_id q \<noteq> t) (sy_tasks sy)" "sy_reports sy' = sy_reports sy @ [rp]"
    and "distinct (map rt_id (sy_tasks sy))"
    and "is_create_report rp = is_create r"
  shows "create_alive sy' plan"
proof (cases "is_create r")
  case True
  then show ?thesis using assms(4,6) by (auto simp: create_alive_def is_create_report_def split: report.splits)
next
  case False
  then have "rt_id q \<noteq> t" if "q \<in> set (sy_tasks sy)" "rt_what q = Inl plan" for q
    using that assms(5) find_taskD [OF assms(1)] by (auto simp: distinct_map inj_on_def is_create_def)
  then show ?thesis using assms(2-4) by (auto simp: create_alive_def)
qed

text \<open>What a step other than a look leaves, as far as the next look can tell.\<close>

definition step_facts :: "node_id set \<Rightarrow> system \<Rightarrow> system \<Rightarrow> bool" where
  "step_facts C sy sy' = (de_in_flight (sy_effect sy') = de_in_flight (sy_effect sy) \<and>
     de_create_in_flight (sy_effect sy') = de_create_in_flight (sy_effect sy) \<and> sy_last sy' = sy_last sy \<and>
     (\<forall>n a t. tracked sy n a t \<longrightarrow> action_alive sy n a t \<longrightarrow> action_alive sy' n a t \<or> pending_at sy' n \<noteq> Some a) \<and>
     (\<forall>plan. creating (sy_state sy) = Some plan \<longrightarrow> create_alive sy plan \<longrightarrow>
        creating (sy_state sy') = None \<or> creating (sy_state sy') = Some plan \<and> create_alive sy' plan) \<and>
     (\<forall>n. bt_has (de_driven (sy_effect sy')) n \<longrightarrow> bt_has (de_driven (sy_effect sy)) n \<or> n \<in> C))"

lemma dispatch_facts:
  assumes "dispatch a sy = Some sy'" "\<not> settles_create a"
  shows "step_facts {} sy sy'"
proof -
  obtain r s' where d: "actor_step (sy_state sy) a = Some (r, s')" "sy' = sy\<lparr>sy_state := s'\<rparr>"
    by (rule dispatch_fields [OF assms(1)])
  then show ?thesis using step_keeps_creating [OF d(1) assms(2)]
    by (simp add: step_facts_def action_alive_def create_alive_def)
qed

lemma release_has: "bt_has (release_node m driven) n \<Longrightarrow> bt_has driven n"
  by (auto simp: release_node_def bt_has_iff split: option.splits if_splits)

lemma release_all_has: "bt_has (release_all mine driven) n \<Longrightarrow> bt_has driven n"
  unfolding release_all_def by (induction mine arbitrary: driven) (auto dest: release_has)

lemma claim_has: "claim_node m (mine, driven) = (mine', driven') \<Longrightarrow> bt_has driven' n \<Longrightarrow> bt_has driven n \<or> n = m"
  by (auto simp: claim_node_def bt_has_iff split: if_splits)

lemma hand_over_facts:
  assumes inv: "task_inv sy" and r: "find_task sy t = Some r"
    and rp: "is_create_report rp = is_create r" "\<And>m b. rt_what r = Inr (m, b) \<Longrightarrow> \<exists>res. rp = ActionReport m b res"
    and sy': "sy_state sy' = sy_state sy" "sy_effect sy' = sy_effect sy" "sy_last sy' = sy_last sy"
      "sy_tasks sy' = filter (\<lambda>q. rt_id q \<noteq> t) (sy_tasks sy)" "sy_reports sy' = sy_reports sy @ [rp]"
  shows "step_facts {} sy sy'"
proof -
  have "action_alive sy' n a u" if "tracked sy n a u" "action_alive sy n a u" for n a u
    by (rule hand_over_alive [OF r inv that(1) sy'(4,5) rp(2) that(2)])
  moreover have "create_alive sy' plan" if "create_alive sy plan" for plan
    using hand_over_create [OF r that sy'(4,5) _ rp(1)] inv by (simp add: task_inv_def)
  ultimately show ?thesis using sy' by (auto simp: step_facts_def)
qed

lemma set_task_alive:
  assumes "task_inv sy" "find_task sy t = Some r" "rt_id q = rt_id r" "rt_what q = rt_what r"
  shows "action_alive (set_task q sy) n a u = action_alive sy n a u" "create_alive (set_task q sy) plan = create_alive sy plan"
proof -
  note r = find_taskD [OF assms(2)]
  have only: "x = r" if "x \<in> set (sy_tasks sy)" "rt_id x = rt_id r" for x
    using assms(1) r that by (auto simp: task_inv_def distinct_map inj_on_def)
  have "map rt_id (sy_tasks (set_task q sy)) = map rt_id (sy_tasks sy)" by (simp add: set_task_def)
  from arg_cong [OF this, of set] have "rt_id ` set (sy_tasks (set_task q sy)) = rt_id ` set (sy_tasks sy)" by simp
  then show "action_alive (set_task q sy) n a u = action_alive sy n a u"
    by (simp add: action_alive_def set_task_def)
  have "(\<exists>x\<in>set (sy_tasks (set_task q sy)). rt_what x = Inl plan) \<longleftrightarrow> (\<exists>x\<in>set (sy_tasks sy). rt_what x = Inl plan)"
    (is "?L \<longleftrightarrow> ?R")
  proof
    assume ?L
    then show ?R using r(1) assms(3,4) by (auto simp: set_task_def split: if_splits)
  next
    assume ?R
    then obtain x where x: "x \<in> set (sy_tasks sy)" "rt_what x = Inl plan" by blast
    then have "rt_what (if rt_id x = rt_id q then q else x) = Inl plan" using only [of x] assms(3,4) by auto
    moreover have "(if rt_id x = rt_id q then q else x) \<in> (\<lambda>p. if rt_id p = rt_id q then q else p) ` set (sy_tasks sy)"
      using x(1) by (rule imageI)
    then have "(if rt_id x = rt_id q then q else x) \<in> set (sy_tasks (set_task q sy))" by (simp add: set_task_def)
    ultimately show ?L by (rule bexI)
  qed
  then show "create_alive (set_task q sy) plan = create_alive sy plan"
    by (simp add: create_alive_def set_task_def)
qed

lemma step_facts_trans:
  assumes "step_facts {} mid sy2" and same: "sy_state mid = sy_state sy" "sy_last mid = sy_last sy"
      "de_in_flight (sy_effect mid) = de_in_flight (sy_effect sy)"
      "de_create_in_flight (sy_effect mid) = de_create_in_flight (sy_effect sy)"
    and "\<And>n a t. action_alive mid n a t = action_alive sy n a t" "\<And>plan. create_alive mid plan = create_alive sy plan"
    and "\<And>n. bt_has (de_driven (sy_effect mid)) n \<Longrightarrow> bt_has (de_driven (sy_effect sy)) n \<or> n \<in> C"
  shows "step_facts C sy sy2"
proof -
  have "tracked mid = tracked sy" by (intro ext) (simp add: same tracked_def)
  then show ?thesis using assms(1) same assms(6-) by (auto simp: step_facts_def)
qed

lemma step_facts_same:
  assumes "sy_state sy' = sy_state sy" "sy_last sy' = sy_last sy"
      "de_in_flight (sy_effect sy') = de_in_flight (sy_effect sy)"
      "de_create_in_flight (sy_effect sy') = de_create_in_flight (sy_effect sy)"
    and "\<And>n a t. action_alive sy' n a t = action_alive sy n a t" "\<And>plan. create_alive sy' plan = create_alive sy plan"
    and "\<And>n. bt_has (de_driven (sy_effect sy')) n \<Longrightarrow> bt_has (de_driven (sy_effect sy)) n \<or> n \<in> C"
  shows "step_facts C sy sy'"
  by (rule step_facts_trans [where mid = sy', OF _ assms]) (simp add: step_facts_def)

lemma report_facts:
  assumes inv: "system_inv sy" and k: "k < length (sy_reports sy)"
    and d: "dispatch (report_action (sy_reports sy ! k)) (sy\<lparr>sy_reports := take k (sy_reports sy) @ drop (k + 1) (sy_reports sy)\<rparr>) = Some sy'"
  shows "step_facts {} sy sy'"
proof -
  let ?rp = "sy_reports sy ! k" and ?rest = "take k (sy_reports sy) @ drop (k + 1) (sy_reports sy)"
  have all: "set (sy_reports sy) = insert ?rp (set ?rest)"
    using arg_cong [OF id_take_nth_drop [OF k], of set] by simp
  have ok: "report_ok (report_action ?rp)" and wf: "wf_state (sy_state sy)"
    using inv k by (auto simp: system_inv_def state_inv_def)
  obtain r s' where st: "actor_step (sy_state sy) (report_action ?rp) = Some (r, s')"
      "sy' = sy\<lparr>sy_reports := ?rest, sy_state := s'\<rparr>"
    using dispatch_fields [OF d] by auto
  have act: "action_alive sy' n a t \<or> pending_at sy' n \<noteq> Some a" if "action_alive sy n a t" for n a t
  proof (cases "\<exists>res. ?rp = ActionReport n a res")
    case True
    then obtain res where "report_action ?rp = ContainerActionSettled n (Some a) res" by (auto simp: report_action_def)
    with settled_not_pending [OF wf, of n a res r s'] st ok show ?thesis by (simp add: pending_at_def)
  next
    case False
    then have "ActionReport n a res \<in> set ?rest" if "ActionReport n a res \<in> set (sy_reports sy)" for res
      using that all by (metis insertE)
    with that st(2) show ?thesis unfolding action_alive_def by auto
  qed
  have cr: "creating s' = None \<or> creating s' = Some plan \<and> create_alive sy' plan"
    if "creating (sy_state sy) = Some plan" "create_alive sy plan" for plan
  proof (cases "is_create_report ?rp")
    case True
    then obtain res where "report_action ?rp = EnvCreateSettled res"
      by (auto simp: report_action_def is_create_report_def split: report.splits)
    with create_settled st(1) show ?thesis by auto
  next
    case False
    then have "\<not> settles_create (report_action ?rp)"
      by (simp add: report_action_def is_create_report_def split: report.splits)
    moreover have "create_alive sy' plan"
      using that(2) all False st(2) by (auto simp: create_alive_def is_create_report_def split: report.splits)
    ultimately show ?thesis using step_keeps_creating [OF st(1)] that(1) by simp
  qed
  show ?thesis using act cr st(2) by (simp add: step_facts_def)
qed

lemma sys_do_facts:
  assumes inv: "system_inv sy" and do_it: "sys_do x sy = Some sy'" and x: "x \<noteq> Look"
  shows "step_facts (claims x) sy sy'"
proof -
  have tk: "task_inv sy" using inv by (simp add: system_inv_def)
  have mono: "step_facts {} sy sy' \<Longrightarrow> step_facts C sy sy'" for C sy' by (auto simp: step_facts_def)
  show ?thesis
  proof (cases x)
    case (Dispatched a)
    then have a: "from_outside a" "dispatch a sy = Some sy'" using do_it by (auto split: if_splits)
    show ?thesis by (rule mono, rule dispatch_facts [OF a(2)]) (simp add: outside_ok [OF a(1)])
  next
    case (TaskReports t p)
    then obtain r where r: "find_task sy t = Some r" and rep: "task_reports r p sy = Some sy'"
      using do_it by (auto split: option.splits if_splits)
    show ?thesis
    proof (cases p)
      case (Planned start stop)
      then show ?thesis using rep by (auto simp: task_reports_def step_facts_def)
    next
      case (Working n act)
      show ?thesis
      proof (cases "own_node r = Some n")
        case True
        then show ?thesis using rep Working by (auto simp: task_reports_def step_facts_def)
      next
        case False
        obtain mine driven where m: "(if act \<noteq> None then claim_node n (rt_mine r, de_driven (sy_effect sy))
             else (rt_mine r, de_driven (sy_effect sy))) = (mine, driven)" by fastforce
        let ?sy = "set_driven driven (set_task (r\<lparr>rt_mine := mine\<rparr>) sy)"
        have driven: "bt_has (de_driven (sy_effect sy)) k \<or> k \<in> claims x" if "bt_has driven k" for k
        proof (cases act)
          case None
          with m that show ?thesis by simp
        next
          case (Some a)
          then have "claim_node n (rt_mine r, de_driven (sy_effect sy)) = (mine, driven)" using m by simp
          with claim_has that Some show ?thesis by (simp add: TaskReports Working)
        qed
        have alive: "action_alive ?sy n a t = action_alive sy n a t" "create_alive ?sy plan = create_alive sy plan" for n a t plan
          using set_task_alive [OF tk r, of "r\<lparr>rt_mine := mine\<rparr>"]
          by (simp_all add: set_driven_def action_alive_def create_alive_def)
        have "step_facts {} ?sy sy'"
        proof -
          have "dispatch (EnvCreateWorking n act) ?sy = Some sy'"
            using rep Working False m by (simp add: task_reports_def)
          then show ?thesis by (rule dispatch_facts) simp
        qed
        show ?thesis
        proof (rule step_facts_trans [where mid = ?sy])
          show "step_facts {} ?sy sy'" by fact
          show "action_alive ?sy n a t = action_alive sy n a t" for n a t by (rule alive(1))
          show "create_alive ?sy plan = create_alive sy plan" for plan by (rule alive(2))
          show "bt_has (de_driven (sy_effect sy)) k \<or> k \<in> claims x" if "bt_has (de_driven (sy_effect ?sy)) k" for k
            using that driven [of k] by (simp add: set_driven_def)
        qed (simp_all add: set_driven_def set_task_def)
      qed
    next
      case (NodeUp network name ip info)
      show ?thesis
      proof (cases "own_node r = Some (ci_node_id info)")
        case True
        then show ?thesis using rep NodeUp by (auto simp: task_reports_def step_facts_def)
      next
        case False
        then have "dispatch (EnvCreateProgress network name ip info) sy = Some sy'"
          using rep NodeUp by (simp add: task_reports_def)
        from dispatch_facts [OF this] have "step_facts {} sy sy'" by simp
        then show ?thesis by (rule mono)
      qed
    qed
  next
    case (TaskDrains t)
    then obtain r where r: "find_task sy t = Some r"
        "sy' = set_driven (release_all (rt_mine r) (de_driven (sy_effect sy))) (set_task (r\<lparr>rt_mine := [], rt_drained := True\<rparr>) sy)"
      using do_it by (auto split: option.splits if_splits)
    have alive: "action_alive sy' n a u = action_alive sy n a u" "create_alive sy' plan = create_alive sy plan" for n a u plan
      using set_task_alive [OF tk r(1), of "r\<lparr>rt_mine := [], rt_drained := True\<rparr>"]
      by (simp_all add: r(2) set_driven_def action_alive_def create_alive_def)
    show ?thesis
    proof (rule step_facts_same)
      show "bt_has (de_driven (sy_effect sy)) n \<or> n \<in> claims x" if "bt_has (de_driven (sy_effect sy')) n" for n
        using that release_all_has by (simp add: r(2) set_driven_def)
    qed (simp_all add: alive, simp_all add: r(2) set_driven_def set_task_def)
  next
    case (TaskCascades t info)
    then have "dispatch (ContainerActionSettled (ci_node_id info) None (Inr (Some info))) sy = Some sy'"
      using do_it by (auto split: option.splits if_splits)
    from dispatch_facts [OF this] have "step_facts {} sy sy'" by simp
    then show ?thesis by (rule mono)
  next
    case (TaskEnds t result)
    then obtain r n a where r: "find_task sy t = Some r" "rt_what r = Inr (n, a)"
        "sy' = (drop_task t sy)\<lparr>sy_reports := sy_reports sy @ [ActionReport n a result]\<rparr>"
      using do_it by (auto split: option.splits sum.splits if_splits)
    show ?thesis
      by (rule mono, rule hand_over_facts [OF tk r(1), of "ActionReport n a result"])
        (use r in \<open>simp_all add: drop_task_def is_create_def is_create_report_def\<close>)
  next
    case (CreateEnds t result)
    then obtain r plan where r: "find_task sy t = Some r" "rt_what r = Inl plan"
        "sy' = (drop_task t sy)\<lparr>sy_reports := sy_reports sy @ [CreateReport result]\<rparr>"
      using do_it by (auto split: option.splits sum.splits if_splits)
    show ?thesis
      by (rule mono, rule hand_over_facts [OF tk r(1), of "CreateReport result"])
        (use r in \<open>simp_all add: drop_task_def is_create_def is_create_report_def\<close>)
  next
    case (TaskPanics t)
    then obtain r where r: "find_task sy t = Some r" "sy' = lose_task r sy" using do_it by auto
    show ?thesis
    proof (rule mono, rule hand_over_facts [OF tk r(1), of "lost_report r"])
      show "\<exists>res. lost_report r = ActionReport m b res" if "rt_what r = Inr (m, b)" for m b
        using that by (simp add: lost_report_def)
    qed (use r find_taskD [OF r(1)] in \<open>simp_all add: lose_task_def drop_task_def lost_report_kind\<close>)
  next
    case (ReportArrives k)
    then have "step_facts {} sy sy'" using do_it report_facts [OF inv] by (auto split: if_splits)
    then show ?thesis by (rule mono)
  next
    case (LeftoverDrains k)
    then have sy': "sy' = set_driven (release_all (sy_leftover sy ! k) (de_driven (sy_effect sy)))
        (sy\<lparr>sy_leftover := take k (sy_leftover sy) @ drop (k + 1) (sy_leftover sy)\<rparr>)"
      using do_it by (auto split: if_splits)
    show ?thesis
    proof (rule step_facts_same)
      show "bt_has (de_driven (sy_effect sy)) n \<or> n \<in> claims x" if "bt_has (de_driven (sy_effect sy')) n" for n
        using that release_all_has by (simp add: sy' set_driven_def)
    qed (simp_all add: sy' set_driven_def action_alive_def create_alive_def)
  qed (use x in simp)
qed

section \<open>The look after it\<close>

lemma acted_subset:
  assumes "map_of (acted_on (snap sy) d) n = Some a" and "wf_state (sy_state sy)"
  shows "pending_at sy n = Some a"
proof -
  have "(n, a) \<in> set (acted_on (snap sy) d)" using assms(1) by (rule map_of_SomeD)
  then have "(n, a) \<in> set (extract_pending (sy_state sy))"
    by (simp add: acted_on_def without_progress_def extract_converge_def)
  then show ?thesis using map_of_distinct [OF extract_distinct [OF assms(2)]] by (simp add: pending_at_def)
qed

lemma acted_unless_driven:
  assumes "pending_at sy n = Some a" and "wf_state (sy_state sy)"
    and "\<not> (starts a \<and> bt_has (de_driven d) n)"
  shows "map_of (acted_on (snap sy) d) n = Some a"
proof -
  have "(n, a) \<in> set (extract_pending (sy_state sy))" using assms(1) by (auto simp: pending_at_def dest: map_of_SomeD)
  then have "(n, a) \<in> set (acted_on (snap sy) d)"
    using assms(3) by (auto simp: acted_on_def without_progress_def extract_converge_def)
  then show ?thesis using map_of_distinct [OF acted_distinct [OF assms(2)]] by simp
qed

lemma look_fresh:
  assumes inv: "system_inv mid" and changed: "sy_last mid \<noteq> Some (snap mid)"
    and alive: "\<And>n a t. tracked mid n a t \<Longrightarrow> pending_at mid n = Some a \<Longrightarrow> action_alive mid n a t"
    and create: "\<And>plan. creating (sy_state mid) = Some plan \<Longrightarrow> de_create_in_flight (sy_effect mid) \<Longrightarrow> create_alive mid plan"
    and driven: "\<And>n. bt_has (de_driven (sy_effect mid)) n \<Longrightarrow> n \<in> E"
  shows "sync_inv E (look mid)"
proof -
  have st: "state_inv mid" and tk: "task_inv mid" and wf: "wf_state (sy_state mid)"
    using inv by (auto simp: system_inv_def state_inv_def)
  let ?p = "acted_on (snap mid) (sy_effect mid)"
  note look = look_fields [OF changed]
  have wf_d: "bt_wf (de_in_flight (sy_effect mid))" using tk by (simp add: task_inv_def)
  note dist = acted_distinct [OF wf, of "sy_effect mid"]
  have pend: "pending_at (look mid) n = pending_at mid n" for n by (simp add: pending_at_def)
  have after: "case map_of ?p n of None \<Rightarrow> \<nexists>a t. tracked (look mid) n a t
      | Some a \<Rightarrow> if \<exists>t. tracked mid n a t then \<forall>b t. tracked (look mid) n b t = tracked mid n b t
           else \<exists>t. (\<forall>b u. tracked (look mid) n b u = (b = a \<and> u = t)) \<and>
             ActionSpawned t n a \<in> set (spawn_events (sy_next_task mid) (to_spawn (snap mid) (sy_effect mid)))" for n
    using flight_result [OF dist wf_d, where n = n and task = "sy_next_task mid"]
    unfolding tracked_def look(3) by (cases "map_of ?p n") (auto split: if_splits)
  have kept: "action_alive (look mid) n a t" if t: "tracked mid n a t" and p: "map_of ?p n = Some a" for n a t
  proof (cases "t \<in> rt_id ` set (sy_tasks mid)")
    case True
    have "CalledOff t m \<notin> set (called_events mid)" for m
    proof
      assume "CalledOff t m \<in> set (called_events mid)"
      then obtain b where b: "tracked mid m b t" "case map_of ?p m of None \<Rightarrow> b = Starting | Some c \<Rightarrow> c \<noteq> b"
        unfolding called_iff [OF st tk] by auto
      obtain r where r: "r \<in> set (sy_tasks mid)" "rt_id r = t" using True by auto
      have what: "\<And>k c. tracked mid k c t \<Longrightarrow> rt_what r = Inr (k, c)"
        using tk r unfolding task_inv_def by blast
      have "m = n \<and> b = a" using what [OF b(1)] what [of n a] t by simp
      with b(2) p show False by simp
    qed
    with True show ?thesis by (auto simp: action_alive_def look(7))
  next
    case False
    then obtain res where "ActionReport n a res \<in> set (sy_reports mid)"
      using alive [OF t acted_subset [OF p wf]] by (auto simp: action_alive_def)
    then show ?thesis using look(8) by (auto simp: action_alive_def)
  qed
  have spawned: "action_alive (look mid) n a t"
    if "ActionSpawned t n a \<in> set (spawn_events (sy_next_task mid) (to_spawn (snap mid) (sy_effect mid)))" for n a t
  proof -
    have "new_task (t, n, a) \<in> set (map new_task (enumerate (sy_next_task mid) (to_spawn (snap mid) (sy_effect mid))))"
      unfolding in_new_tasks using that by auto
    then have "new_task (t, n, a) \<in> set (sy_tasks (look mid))" by (simp add: look(7))
    then show ?thesis unfolding action_alive_def by force
  qed
  show ?thesis
    unfolding sync_inv_def
  proof (intro conjI allI impI)
    show "system_inv (look mid)" by (rule look_inv [OF inv])
    show "sy_last (look mid) = Some (snap (look mid))" by (simp add: look(2))
    fix n a t assume T: "tracked (look mid) n a t"
    then have p: "map_of ?p n = Some a"
      using after [of n] by (auto simp: tracked_def split: option.splits if_splits)
    then show "pending_at (look mid) n = Some a" using acted_subset [OF p wf] by (simp add: pend)
    show "action_alive (look mid) n a t"
    proof (cases "\<exists>u. tracked mid n a u")
      case True
      then have "tracked mid n a t" using after [of n] p T by simp
      then show ?thesis using kept p by simp
    next
      case False
      with after [of n] p obtain u where u: "\<forall>b v. tracked (look mid) n b v = (b = a \<and> v = u)"
          "ActionSpawned u n a \<in> set (spawn_events (sy_next_task mid) (to_spawn (snap mid) (sy_effect mid)))"
        by (simp only: if_False option.case) blast
      then have "t = u" using T by simp
      with spawned [OF u(2)] show ?thesis by simp
    qed
  next
    fix n a assume "pending_at (look mid) n = Some a"
    then have P: "pending_at mid n = Some a" by (simp add: pend)
    show "(\<exists>t. tracked (look mid) n a t) \<or> starts a \<and> n \<in> E"
    proof (cases "starts a \<and> bt_has (de_driven (sy_effect mid)) n")
      case True
      with driven show ?thesis by blast
    next
      case False
      then have "map_of ?p n = Some a" by (rule acted_unless_driven [OF P wf])
      with after [of n] show ?thesis by (auto split: if_splits)
    qed
  next
    fix plan assume "creating (sy_state (look mid)) = Some plan"
    then have c: "creating (sy_state mid) = Some plan" by simp
    show "create_alive (look mid) plan"
    proof (cases "de_create_in_flight (sy_effect mid)")
      case False
      then have "new_creates mid = [plan]" using c by (simp add: new_creates_def snap_create)
      then have "\<exists>r\<in>set (sy_tasks (look mid)). rt_what r = Inl plan" by (simp add: look(7))
      then show ?thesis by (simp add: create_alive_def)
    next
      case True
      then have "create_alive mid plan" using create [OF c] by simp
      then show ?thesis
      proof (cases "\<exists>r\<in>set (sy_tasks mid). rt_what r = Inl plan")
        case True
        then obtain r where r: "r \<in> set (sy_tasks mid)" "rt_what r = Inl plan" by blast
        then have "\<forall>n. CalledOff (rt_id r) n \<notin> set (called_events mid)"
          using called_are_actions [OF st tk r(1)] by (auto simp: is_create_def)
        with r have "r \<in> set (sy_tasks (look mid))" by (simp add: look(7))
        with r(2) show ?thesis by (auto simp: create_alive_def)
      next
        case False
        with \<open>create_alive mid plan\<close> obtain res where "CreateReport res \<in> set (sy_reports mid)"
          by (auto simp: create_alive_def)
        then show ?thesis using look(8) by (auto simp: create_alive_def)
      qed
    qed
  next
    show "de_create_in_flight (sy_effect (look mid)) = (creating (sy_state (look mid)) \<noteq> None)"
      by (simp add: look(4) snap_create)
    show "n \<in> E" if "bt_has (de_driven (sy_effect (look mid))) n" for n
      using that driven by (simp add: look(5))
  qed
qed

lemma look_sync:
  assumes sync: "sync_inv D sy" and inv: "system_inv mid" and facts: "step_facts C sy mid"
  shows "sync_inv (D \<union> C) (look mid)"
proof -
  have last: "sy_last mid = Some (snap sy)" using sync facts by (simp add: sync_inv_def step_facts_def)
  have tr: "tracked mid = tracked sy" using facts by (intro ext) (simp add: step_facts_def tracked_def)
  have driven: "bt_has (de_driven (sy_effect mid)) n \<Longrightarrow> n \<in> D \<union> C" for n
    using sync facts by (auto simp: sync_inv_def step_facts_def)
  have alive: "action_alive mid n a t" if "tracked sy n a t" "pending_at mid n = Some a" for n a t
  proof -
    have "action_alive sy n a t" using sync that(1) unfolding sync_inv_def by blast
    with facts that show ?thesis unfolding step_facts_def by blast
  qed
  have busy: "de_create_in_flight (sy_effect mid) = (creating (sy_state sy) \<noteq> None)"
    using sync facts by (simp add: sync_inv_def step_facts_def)
  have old_create: "create_alive mid plan \<and> creating (sy_state sy) = Some plan"
    if c: "creating (sy_state mid) = Some plan" "creating (sy_state sy) \<noteq> None" for plan
  proof -
    obtain q where q: "creating (sy_state sy) = Some q" using c(2) by auto
    then have "create_alive sy q" using sync unfolding sync_inv_def by blast
    with facts q c(1) show ?thesis unfolding step_facts_def by fastforce
  qed
  have st: "state_inv mid" and tk: "task_inv mid" and wf: "wf_state (sy_state mid)"
    using inv by (auto simp: system_inv_def state_inv_def)
  show ?thesis
  proof (cases "sy_last mid = Some (snap mid)")
    case True
    then have same: "snap mid = snap sy" using last by simp
    then have pend: "pending_at mid n = pending_at sy n" and cr: "creating (sy_state mid) = creating (sy_state sy)" for n
      by (simp_all add: extract_converge_def pending_at_def flip: snap_create)
    show ?thesis
      using sync inv True alive driven old_create pend cr busy unfolding look_skips [OF True] sync_inv_def tr
      by auto
  next
    case False
    show ?thesis
    proof (rule look_fresh [OF inv False])
      show "action_alive mid n a t" if "tracked mid n a t" "pending_at mid n = Some a" for n a t
        using alive that by (simp add: tr)
      show "create_alive mid plan" if "creating (sy_state mid) = Some plan" "de_create_in_flight (sy_effect mid)" for plan
        using old_create [OF that(1)] that(2) busy by simp
    qed (rule driven)
  qed
qed

lemma sync_do_inv:
  assumes "sync_inv D sy" "sync_do x sy = Some sy'"
  shows "sync_inv (D \<union> claims x) sy'"
proof -
  obtain mid where mid: "sys_do x sy = Some mid" "sy' = look mid" using assms(2) by (auto simp: sync_do_def)
  have inv: "system_inv sy" using assms(1) by (simp add: sync_inv_def)
  show ?thesis
  proof (cases "x = Look")
    case True
    have "sy_last sy = Some (snap sy)" using assms(1) by (simp add: sync_inv_def)
    then have "sy' = sy" using True mid by (simp add: look_skips)
    with True assms(1) show ?thesis by simp
  next
    case False
    show ?thesis
      unfolding mid(2) by (rule look_sync [OF assms(1) sys_do_inv [OF inv mid(1)] sys_do_facts [OF inv mid(1) False]])
  qed
qed

lemma sync_run_inv:
  "sync_inv D sy \<Longrightarrow> sync_run xs sy = Some sy' \<Longrightarrow> sync_inv (D \<union> \<Union> (claims ` set xs)) sy'"
proof (induction xs arbitrary: D sy)
  case (Cons x xs)
  then obtain sy1 where "sync_do x sy = Some sy1" "sync_run xs sy1 = Some sy'" by (auto split: option.splits)
  with Cons.IH [OF sync_do_inv [OF Cons.prems(1)]] show ?case by (simp add: Un_assoc)
qed simp

lemma first_look:
  assumes "wf_state s"
  shows "sync_inv {} (look (new_system s))"
proof (rule look_fresh [OF new_system_inv [OF assms]])
qed (simp_all add: new_system_def new_effect_def tracked_def bt_has_iff)

lemma one_by_id:
  assumes "distinct (map rt_id rs)" and "\<And>r q. r \<in> set rs \<Longrightarrow> q \<in> set rs \<Longrightarrow> P r \<Longrightarrow> P q \<Longrightarrow> rt_id r = rt_id q"
  shows "length (filter P rs) \<le> 1"
proof (cases "filter P rs")
  case (Cons r qs)
  then have "r \<in> set (filter P rs)" by simp
  then have r: "r \<in> set rs" "P r" by simp_all
  have "rt_id q = rt_id r" if "q \<in> set (filter P rs)" for q using assms(2) [of q r] r that by simp
  then have "rt_id ` set (filter P rs) \<subseteq> {rt_id r}" by blast
  then have "card (rt_id ` set (filter P rs)) \<le> card {rt_id r}" by (intro card_mono) simp_all
  moreover have "card (rt_id ` set (filter P rs)) = length (filter P rs)"
    using distinct_card [OF distinct_map_filter [OF assms(1), of P]] by simp
  ultimately show ?thesis by simp
qed simp

end
