(* ===== verification/State_Claims.thy ===== *)
theory State_Claims
  imports Actor_Props
begin

text \<open>
  The properties of the state machine and its actor, each with a concrete instance: the states below
  hold one running container \<open>web\<close>, idle or with a create in flight.
\<close>

definition sample_desired :: container_desired where
  "sample_desired = \<lparr>cd_running = True, cd_container_name = ''fghj-web'', cd_domain = ''web.fghj.internal'',
     cd_raw_domain = ''web.fghj.raw.internal'', cd_routes = [], cd_additional_hosts = [],
     cd_status_port = None, cd_config_hash = [], cd_source = None, cd_terminating = False,
     cd_debug_wait = False\<rparr>"

definition sample_container :: "node_id \<Rightarrow> container_info" where
  "sample_container n = \<lparr>ci_node_id = n, ci_desired = sample_desired,
     ci_observed = default_observed\<lparr>co_status := ''running''\<rparr>, ci_pending_action = None\<rparr>"

definition sample_env :: env_state where
  "sample_env = default_env\<lparr>es_containers := [(''web'', sample_container ''web'')]\<rparr>"

definition sample_idle :: workspace_state where
  "sample_idle = \<lparr>ws_path = ''/w'', ws_owner = None, ws_env = Some sample_env\<rparr>"

definition sample_creating :: workspace_state where
  "sample_creating =
     sample_idle\<lparr>ws_env := Some (sample_env\<lparr>es_pending_create := Some (EnvFlow ''dev'')\<rparr>)\<rparr>"

lemmas sample_defs = sample_creating_def sample_idle_def sample_env_def sample_container_def
  sample_desired_def default_env_def default_observed_def

lemma sample_wf: "wf_state sample_idle" "wf_state sample_creating"
  by (auto simp: sample_defs wf_state_def wf_env_def bt_wf_def)

section \<open>The actor\<close>

text \<open>
  The actor never panics and never loses an action: whatever the queue, each action gets one
  reply, and a report (anything but the five requests) is always accepted.
\<close>
theorem actor_always_answers:
  "\<exists>rs s'. actor_run s queue = Some (rs, s') \<and> length rs = length queue \<and>
     (\<forall>i<length queue. \<not> is_request (queue ! i) \<longrightarrow> rs ! i = Inr ())"
  using actor_run_total_aux [of s queue] actor_run_replies [of s queue] by metis

theorem actor_always_answers_witness:
  "\<exists>rs s'. actor_run sample_idle [NodeStopRequested ''db'', SidecarRestored ''10.0.0.2''] = Some (rs, s') \<and>
     rs ! 1 = Inr ()"
proof -
  obtain rs s' where r: "actor_run sample_idle [NodeStopRequested ''db'', SidecarRestored ''10.0.0.2''] = Some (rs, s')"
    and "\<forall>i<2. \<not> is_request ([NodeStopRequested ''db'', SidecarRestored ''10.0.0.2''] ! i) \<longrightarrow> rs ! i = Inr ()"
    using actor_always_answers [of sample_idle "[NodeStopRequested ''db'', SidecarRestored ''10.0.0.2'']"] by auto
  then have "rs ! 1 = Inr ()" by auto
  with r show ?thesis by blast
qed



text \<open>
  C1: A create in flight owns the environment until its own settle: whatever else is queued, it stays
  the create in flight, and every Start, Stop, Delete and create request is refused as in flight.
\<close>
theorem create_owns_environment:
  assumes "creating s = Some plan" and "\<forall>a\<in>set queue. \<not> settles_create a"
    and "actor_run s queue = Some (rs, s')"
  shows "creating s' = Some plan \<and>
    (\<forall>i<length queue. create_owns (queue ! i) \<longrightarrow> rs ! i = Inl AlreadyInFlight)"
  using assms by (rule create_run)

theorem create_owns_environment_witness:
  "\<exists>rs s'. actor_run sample_creating [SidecarRestored ''10.0.0.2'', NodeStopRequested ''web''] = Some (rs, s') \<and>
     creating s' = Some (EnvFlow ''dev'') \<and> rs ! 1 = Inl AlreadyInFlight"
proof -
  let ?q = "[SidecarRestored ''10.0.0.2'', NodeStopRequested ''web'']"
  obtain rs s' where run: "actor_run sample_creating ?q = Some (rs, s')"
    using actor_run_total_aux by blast
  have "creating sample_creating = Some (EnvFlow ''dev'')"
    by (simp add: creating_def sample_creating_def)
  from create_owns_environment [OF this _ run]
  have "creating s' = Some (EnvFlow ''dev'') \<and> rs ! 1 = Inl AlreadyInFlight" by auto
  with run show ?thesis by blast
qed

section \<open>Requests and reports\<close>



text \<open>
  An accepted action about one node leaves every other node's container exactly as it was.
\<close>
theorem actions_touch_one_node:
  assumes "reduce s a = Some (Inr s')" and "target_node a = Some n" and "m \<noteq> n"
  shows "container_at s' m = container_at s m"
  using assms by (rule reduce_frame)

theorem actions_touch_one_node_witness:
  "\<exists>s'. reduce sample_idle (NodeStartRequested ''db'') = Some (Inr s') \<and>
     container_at s' ''web'' = Some (sample_container ''web'')"
proof -
  obtain s' where s': "reduce sample_idle (NodeStartRequested ''db'') = Some (Inr s')"
    by (simp add: reduce_def start_node_def sample_defs)
  have "container_at s' ''web'' = container_at sample_idle ''web''"
    by (rule actions_touch_one_node [OF s', of "''db''"]) simp_all
  with s' show ?thesis
    by (simp add: container_at_def sample_idle_def sample_env_def)
qed

lemma clear_marks_no_create [simp]: "es_pending_create (clear_create_marks e) = None"
  by (simp add: clear_create_marks_def)

lemma clear_marks_clean:
  "map_of (es_containers (clear_create_marks e)) n = Some c \<Longrightarrow>
     ci_pending_action c = None \<and> \<not> is_placeholder c"
  by (auto simp: clear_create_marks_def bt_retain_def is_placeholder_def dest!: map_of_SomeD)

lemma clear_marks_keeps:
  assumes "wf_env e"
  shows "map_of (es_containers (clear_create_marks e)) n =
    (case map_of (es_containers e) n of
       None \<Rightarrow> None
     | Some c \<Rightarrow> if is_placeholder c then None else Some (c\<lparr>ci_pending_action := None\<rparr>))"
  using assms by (auto simp: clear_create_marks_def wf_env_def bt_get_retain split: option.splits)

text \<open>
  When a create settles, succeeded, failed half way or failed outright, nothing is left in
  flight: no create, no pending action on any container, no placeholder for a container that never
  came to be.
\<close>
theorem create_settles_clean:
  assumes "reduce s (EnvCreateSettled result) = Some (Inr s')"
  shows "creating s' = None \<and>
    (\<forall>n c. container_at s' n = Some c \<longrightarrow> ci_pending_action c = None \<and> \<not> is_placeholder c)"
proof -
  have s': "s' = settle_create s result" using assms by (simp add: reduce_def)
  have "ws_env s' = None \<or> (\<exists>e. ws_env s' = Some (clear_create_marks e))"
    by (cases "ws_env s") (auto simp: s' settle_create_def update_env_def Let_def split: sum.splits option.splits)
  then show ?thesis
    by (auto simp: creating_def container_at_def dest!: clear_marks_clean)
qed

theorem create_settles_clean_witness:
  "creating (sample_creating\<lparr>ws_env := Some (clear_create_marks sample_env)\<rparr>) = None"
  using create_settles_clean [of sample_creating "Inr sample_env"
      "sample_creating\<lparr>ws_env := Some (clear_create_marks sample_env)\<rparr>"]
  by (simp add: reduce_def settle_create_def sample_creating_def)

text \<open>
  A report that is out of date changes nothing: a settle for an action the node is no longer
  doing (a Stop took over from its Start), and a reading taken while an action is in flight or from
  another state than the one recorded.
\<close>
theorem stale_reports_are_ignored:
  assumes "container_at s n = Some c"
    and "(\<exists>p result. a = ContainerActionSettled n (Some p) result \<and> ci_pending_action c \<noteq> Some p) \<or>
         (\<exists>st pub ports x u b. a = ContainerObserved n st pub ports x u b \<and> wf_state s \<and>
            (ci_pending_action c \<noteq> None \<or> \<not> same_reading (ci_observed c) b))"
  shows "reduce s a = Some (Inr s)"
proof -
  obtain e where e: "ws_env s = Some e" and c: "map_of (es_containers e) n = Some c"
    using assms(1) by (auto simp: container_at_def split: option.splits)
  have same: "s\<lparr>ws_env := Some e\<rparr> = s" using e by simp
  from assms(2) consider
      (settle) p result where "a = ContainerActionSettled n (Some p) result" "ci_pending_action c \<noteq> Some p"
    | (reading) st pub ports x u b where "a = ContainerObserved n st pub ports x u b" "wf_state s"
        "ci_pending_action c \<noteq> None \<or> \<not> same_reading (ci_observed c) b"
    by blast
  then show ?thesis
  proof cases
    case settle
    then show ?thesis
      using e c same by (simp add: reduce_def update_env_def settle_action_def Let_def)
  next
    case reading
    have wf: "bt_wf (es_containers e)"
      using wf_state_env [OF reading(2) e] by (simp add: wf_env_def)
    have "take_reading st pub ports x u b c = c"
      using reading(3) by (auto simp: take_reading_def Let_def)
    then have "bt_modify n (take_reading st pub ports x u b) (es_containers e) = es_containers e"
      using wf c by (intro bt_wf_eqI) auto
    then show ?thesis
      using reading(1) e same by (simp add: reduce_def update_container_def update_env_def)
  qed
qed

theorem stale_reports_are_ignored_witness:
  "reduce sample_idle (ContainerActionSettled ''web'' (Some Starting) (Inl ''timed out'')) =
     Some (Inr sample_idle)"
  by (rule stale_reports_are_ignored [of _ "''web''" "sample_container ''web''"])
    (simp_all add: container_at_def sample_defs)

lemma reading_ignores_drift:
  "take_reading st pub ports x u b (note_drift d sd c) = note_drift d sd (take_reading st pub ports x u b c)"
  by (auto simp: take_reading_def note_drift_def same_reading_def settle_interruption_def is_up_def Let_def)

lemma bt_modify_modify: "bt_modify k f (bt_modify k g m) = bt_modify k (\<lambda>x. f (g x)) m"
  by (induction m) (auto simp: bt_modify_def)

lemma update_container_twice:
  "update_container n f (update_container n g s) = update_container n (\<lambda>c. f (g c)) s"
  by (cases "ws_env s") (auto simp: update_container_def update_env_def bt_modify_modify)

text \<open>
  The two observers of one container, the state poll and the config-drift check, do not race: in
  either order they leave the same state, so a drift verdict in between never makes a reading stale.
\<close>
theorem observers_commute:
  "actor_run s [ConfigDriftObserved n d seeded, ContainerObserved n st pub ports x u b] =
   actor_run s [ContainerObserved n st pub ports x u b, ConfigDriftObserved n d seeded]"
  by (simp add: actor_step_def reduce_def update_container_twice reading_ignores_drift)

text \<open>
  A container that is down although it should run is reported Interrupted when it went down
  unwatched (its last reading was unseen) or was already interrupted, and Crashed when it went down
  under observation.
\<close>
theorem down_container_verdict:
  assumes "container_at s n = Some c" and "ci_pending_action c = None"
    and "cd_running (ci_desired c)" and "\<not> cd_terminating (ci_desired c)"
    and "st \<notin> {''running'', ''restarting'', ''paused'', ''removed''}"
  shows "\<exists>s' c'. reduce s (ContainerObserved n st pub ports x False (ci_observed c)) = Some (Inr s') \<and>
    container_at s' n = Some c' \<and>
    condition c' = (if co_unseen (ci_observed c) \<or> co_interrupted (ci_observed c) then CInterrupted else CCrashed)"
proof -
  obtain e where e: "ws_env s = Some e" and c: "map_of (es_containers e) n = Some c"
    using assms(1) by (auto simp: container_at_def split: option.splits)
  let ?t = "take_reading st pub ports x False (ci_observed c)"
  have "condition (?t c) = (if co_unseen (ci_observed c) \<or> co_interrupted (ci_observed c) then CInterrupted else CCrashed)"
    using assms(2-5) by (auto simp: take_reading_def same_reading_def settle_interruption_def is_up_def condition_def Let_def)
  moreover have "container_at (update_container n ?t s) n = Some (?t c)"
    using e c by (simp add: container_at_def update_container_def update_env_def)
  ultimately show ?thesis by (simp add: reduce_def)
qed

theorem down_container_verdict_witness:
  "\<exists>s' c'. reduce sample_idle (ContainerObserved ''web'' ''exited'' None [] (Some 1) False
       (ci_observed (sample_container ''web''))) = Some (Inr s') \<and>
    container_at s' ''web'' = Some c' \<and> condition c' = CCrashed"
  using down_container_verdict [of sample_idle "''web''" "sample_container ''web''" "''exited''" None "[]" "Some 1"]
  by (simp add: container_at_def sample_defs)

text \<open>
  A debug-wait request is not held off by a create in flight, unlike every other request: it is
  accepted, and then lost, because the environment the create settles with replaces the one it
  changed, exactly as if it had never been asked.
\<close>
theorem debug_wait_lost_in_create:
  assumes "creating s = Some plan" and "container_at s n = Some c" and "ci_pending_action c = None"
  shows "map_option snd (actor_run s [NodeDebugWaitRequested n w, EnvCreateSettled (Inr run)]) =
           map_option snd (actor_run s [EnvCreateSettled (Inr run)]) \<and>
         map_option (hd \<circ> fst) (actor_run s [NodeDebugWaitRequested n w, EnvCreateSettled (Inr run)]) = Some (Inr ())"
proof -
  obtain e where e: "ws_env s = Some e" and c: "map_of (es_containers e) n = Some c"
    using assms(2) by (auto simp: container_at_def split: option.splits)
  then show ?thesis
    using assms(3) by (simp add: actor_step_def reduce_def set_debug_wait_def settle_create_def put_container_def)
qed

theorem debug_wait_lost_in_create_witness:
  "map_option snd (actor_run sample_creating [NodeDebugWaitRequested ''web'' True, EnvCreateSettled (Inr sample_env)]) =
   map_option snd (actor_run sample_creating [EnvCreateSettled (Inr sample_env)])"
  using debug_wait_lost_in_create [of sample_creating "EnvFlow ''dev''" "''web''" "sample_container ''web''" True sample_env]
  by (simp add: creating_def container_at_def sample_defs)

end
