(* ===== verification/Converge_Claims.thy ===== *)
theory Converge_Claims
  imports Converge_Sync State_Claims
begin

text \<open>The properties of the Docker effect with the actor and the tasks around it.\<close>

section \<open>One converge\<close>

text \<open>
  One converge does exactly what its snapshot asks. A task is called off exactly when it still runs
  and its node's mark has become another action, or a start's mark has gone; afterwards exactly the
  marked nodes are in flight (those a running action drives apart), a node whose action is unchanged
  with the task it had, every other one with a fresh task that was spawned for that very action.
\<close>
theorem converge_exact:
  assumes "wf_state s" and "bt_wf (de_in_flight d)"
    and "converge_docker finished (extract_converge s) d task = (events, d', task')"
  shows "(CalledOff t n \<in> set events) =
      (\<exists>a. map_of (de_in_flight d) n = Some (a, t) \<and> \<not> finished t \<and>
        (case map_of (acted_on (extract_converge s) d) n of None \<Rightarrow> a = Starting | Some b \<Rightarrow> b \<noteq> a)) \<and>
    (case map_of (acted_on (extract_converge s) d) n of
        None \<Rightarrow> map_of (de_in_flight d') n = None
      | Some a \<Rightarrow>
          if map_option fst (map_of (de_in_flight d) n) = Some a
          then map_of (de_in_flight d') n = map_of (de_in_flight d) n
          else (\<exists>t. map_of (de_in_flight d') n = Some (a, t) \<and> task \<le> t \<and> t < task' \<and> ActionSpawned t n a \<in> set events))"
proof -
  note dist = acted_distinct [OF assms(1), of d]
  let ?sn = "extract_converge s"
  have ev: "events = called_off finished (to_abort ?sn d) d @ spawn_events task (to_spawn ?sn d) @
      create_events (de_create_in_flight d) (sn_create ?sn)"
    and d': "de_in_flight d' = flight_after ?sn d task" and t': "task' = task + length (to_spawn ?sn d)"
    using assms(3) unfolding converge_parts by auto
  have "CalledOff t n \<in> set events \<longleftrightarrow> CalledOff t n \<in> set (called_off finished (to_abort ?sn d) d)"
    unfolding ev by (auto simp: spawn_events_def create_events_def split: option.splits)
  also have "\<dots> \<longleftrightarrow> n \<in> set (to_abort ?sn d) \<and> (\<exists>a. map_of (de_in_flight d) n = Some (a, t)) \<and> \<not> finished t"
    using called_off_fold(2) [where finished = finished and ns = "to_abort ?sn d" and d = d]
    by (simp add: only_calls_off_def)
  also have "\<dots> \<longleftrightarrow> (\<exists>a. map_of (de_in_flight d) n = Some (a, t) \<and> \<not> finished t \<and>
        (case map_of (acted_on ?sn d) n of None \<Rightarrow> a = Starting | Some b \<Rightarrow> b \<noteq> a))"
    unfolding abort_iff [OF dist assms(2)] by auto
  finally have called: "CalledOff t n \<in> set events \<longleftrightarrow> (\<exists>a. map_of (de_in_flight d) n = Some (a, t) \<and> \<not> finished t \<and>
        (case map_of (acted_on ?sn d) n of None \<Rightarrow> a = Starting | Some b \<Rightarrow> b \<noteq> a))" .
  have fresh: "task \<le> u \<and> u < task' \<and> ActionSpawned u n a \<in> set events"
    if "ActionSpawned u n a \<in> set (spawn_events task (to_spawn ?sn d))" for u a
    using that unfolding ev t' by (simp add: in_enumerate_spawn)
  show ?thesis
  proof (intro conjI)
    show "(CalledOff t n \<in> set events) = (\<exists>a. map_of (de_in_flight d) n = Some (a, t) \<and> \<not> finished t \<and>
        (case map_of (acted_on ?sn d) n of None \<Rightarrow> a = Starting | Some b \<Rightarrow> b \<noteq> a))" by (rule called)
  next
    show "case map_of (acted_on ?sn d) n of
        None \<Rightarrow> map_of (de_in_flight d') n = None
      | Some a \<Rightarrow>
          if map_option fst (map_of (de_in_flight d) n) = Some a
          then map_of (de_in_flight d') n = map_of (de_in_flight d) n
          else (\<exists>t. map_of (de_in_flight d') n = Some (a, t) \<and> task \<le> t \<and> t < task' \<and> ActionSpawned t n a \<in> set events)"
    proof (cases "map_of (acted_on ?sn d) n")
      case None
      then show ?thesis using flight_result [OF dist assms(2), where n = n and task = task] by (simp add: d')
    next
      case (Some a)
      have r: "if map_option fst (map_of (de_in_flight d) n) = Some a
          then map_of (de_in_flight d') n = map_of (de_in_flight d) n
          else \<exists>t. map_of (de_in_flight d') n = Some (a, t) \<and> ActionSpawned t n a \<in> set (spawn_events task (to_spawn ?sn d))"
        using flight_result [OF dist assms(2), where n = n and task = task] Some by (simp add: d')
      show ?thesis
      proof (cases "map_option fst (map_of (de_in_flight d) n) = Some a")
        case True
        then show ?thesis unfolding Some option.case using r by (simp only: if_True simp_thms)
      next
        case False
        then obtain u where "map_of (de_in_flight d') n = Some (a, u)"
            "ActionSpawned u n a \<in> set (spawn_events task (to_spawn ?sn d))"
          using r by (simp only: if_False) blast
        with fresh False show ?thesis unfolding Some option.case by (metis (no_types))
      qed
    qed
  qed
qed

theorem converge_exact_witness:
  "\<exists>events d' t. converge_docker (\<lambda>_. False)
       (extract_converge (sample_idle\<lparr>ws_env := Some (sample_env\<lparr>es_containers :=
          [(''web'', (sample_container ''web'')\<lparr>ci_pending_action := Some Stopping\<rparr>)]\<rparr>)\<rparr>))
       (new_effect\<lparr>de_in_flight := [(''web'', Starting, 1)]\<rparr>) 2 = (events, d', t) \<and>
     CalledOff 1 ''web'' \<in> set events \<and> (\<exists>u. map_of (de_in_flight d') ''web'' = Some (Stopping, u))"
proof -
  let ?s = "sample_idle\<lparr>ws_env := Some (sample_env\<lparr>es_containers :=
          [(''web'', (sample_container ''web'')\<lparr>ci_pending_action := Some Stopping\<rparr>)]\<rparr>)\<rparr>"
  let ?d = "new_effect\<lparr>de_in_flight := [(''web'', Starting, 1)]\<rparr>"
  obtain events d' t where c: "converge_docker (\<lambda>_. False) (extract_converge ?s) ?d 2 = (events, d', t)"
    by (metis prod_cases3)
  have wf: "wf_state ?s" "bt_wf (de_in_flight ?d)"
    by (auto simp: sample_defs wf_state_def wf_env_def bt_wf_def)
  have acted: "map_of (acted_on (extract_converge ?s) ?d) ''web'' = Some Stopping" by code_simp
  have flight: "map_of (de_in_flight ?d) ''web'' = Some (Starting, 1)" by simp
  from converge_exact [OF wf c, of 1 "''web''"] c acted flight show ?thesis by fastforce
qed

section \<open>All interleavings\<close>

text \<open>
  C11: Whatever happens, in whatever order, with states the effect misses, tasks that panic or are called
  off and reports that arrive late: at most one create runs or is still to be reported, and at most
  one start task runs for a node, which is the one the effect has on record for it.
\<close>
theorem one_create_one_start:
  assumes "wf_state s" and "sys_run steps (new_system s) = Some sy"
  shows "length (filter is_create (sy_tasks sy)) + length (filter is_create_report (sy_reports sy)) \<le> 1 \<and>
    length (filter (\<lambda>r. rt_what r = Inr (n, Starting)) (sy_tasks sy)) \<le> 1 \<and>
    (\<forall>r\<in>set (sy_tasks sy). rt_what r = Inr (n, Starting) \<longrightarrow>
       map_of (de_in_flight (sy_effect sy)) n = Some (Starting, rt_id r))"
proof -
  have inv: "system_inv sy" by (rule sys_run_inv [OF new_system_inv [OF assms(1)] assms(2)])
  then have "task_inv sy" by (simp add: system_inv_def)
  then have track: "\<forall>r\<in>set (sy_tasks sy). rt_what r = Inr (n, Starting) \<longrightarrow>
      map_of (de_in_flight (sy_effect sy)) n = Some (Starting, rt_id r)"
    unfolding task_inv_def tracked_def by blast
  have "distinct (map rt_id (sy_tasks sy))" using inv by (simp add: system_inv_def task_inv_def)
  then have "length (filter (\<lambda>r. rt_what r = Inr (n, Starting)) (sy_tasks sy)) \<le> 1"
  proof (rule one_by_id)
    fix r q
    assume "r \<in> set (sy_tasks sy)" "q \<in> set (sy_tasks sy)" "rt_what r = Inr (n, Starting)" "rt_what q = Inr (n, Starting)"
    with track have "Some (Starting, rt_id r) = Some (Starting, rt_id q)" by metis
    then show "rt_id r = rt_id q" by simp
  qed
  with inv track show ?thesis by (simp add: system_inv_def create_inv_def creates_alive_def)
qed

theorem one_create_one_start_witness:
  "\<exists>sy. sys_run [Dispatched (NodeStopRequested ''web''), Look, Dispatched (EnvPlanned (EnvFlow ''a'')), Look]
       (new_system sample_idle) = Some sy \<and>
     length (filter is_create (sy_tasks sy)) + length (filter is_create_report (sy_reports sy)) \<le> 1"
proof -
  let ?steps = "[Dispatched (NodeStopRequested ''web''), Look, Dispatched (EnvPlanned (EnvFlow ''a'')), Look]"
  have "sys_run ?steps (new_system sample_idle) \<noteq> None" by code_simp
  then obtain sy where sy: "sys_run ?steps (new_system sample_idle) = Some sy" by blast
  from one_create_one_start [OF sample_wf(1) sy] sy show ?thesis by blast
qed

section \<open>No state missed\<close>



section \<open>A state missed\<close>

text \<open>A create is pending, none runs, and the effect believes one does.\<close>

definition wedged :: "env_spec \<Rightarrow> system \<Rightarrow> bool" where
  "wedged plan sy = (system_inv sy \<and> creating (sy_state sy) = Some plan \<and>
     de_create_in_flight (sy_effect sy) \<and> creates_alive sy = 0)"

lemma no_creates: "creates_alive sy = 0 \<longleftrightarrow> (\<forall>r\<in>set (sy_tasks sy). \<not> is_create r) \<and> (\<forall>rp\<in>set (sy_reports sy). \<not> is_create_report rp)"
  by (auto simp: creates_alive_def filter_empty_conv)

lemma dispatch_wedged:
  assumes "dispatch a mid = Some sy'" "\<not> settles_create a" "creating (sy_state mid) = Some plan" "creates_alive mid = 0"
  shows "creating (sy_state sy') = Some plan \<and> creates_alive sy' = 0"
proof -
  obtain r s' where d: "actor_step (sy_state mid) a = Some (r, s')" "sy' = mid\<lparr>sy_state := s'\<rparr>"
    by (rule dispatch_fields [OF assms(1)])
  with step_keeps_creating [OF d(1) assms(2)] assms(3,4) show ?thesis by (simp add: creates_alive_def)
qed

lemma do_wedged:
  assumes inv: "system_inv sy" and do_it: "sys_do x sy = Some sy'" and x: "x \<noteq> Look"
    and cr: "creating (sy_state sy) = Some plan" and none: "creates_alive sy = 0"
  shows "creating (sy_state sy') = Some plan \<and> creates_alive sy' = 0"
proof (cases x)
  case (Dispatched a)
  then have a: "from_outside a" "dispatch a sy = Some sy'" using do_it by (auto split: if_splits)
  show ?thesis by (rule dispatch_wedged [OF a(2) _ cr none]) (simp add: outside_ok [OF a(1)])
next
  case (TaskReports t p)
  then obtain r where r: "find_task sy t = Some r" and rep: "task_reports r p sy = Some sy'"
    using do_it by (auto split: option.splits if_splits)
  show ?thesis
  proof (cases p)
    case (Planned start stop)
    then show ?thesis using rep cr none by (simp add: task_reports_def)
  next
    case (Working n act)
    show ?thesis
    proof (cases "own_node r = Some n")
      case True
      then show ?thesis using rep Working cr none by (simp add: task_reports_def)
    next
      case False
      obtain mine driven where m: "(if act \<noteq> None then claim_node n (rt_mine r, de_driven (sy_effect sy))
           else (rt_mine r, de_driven (sy_effect sy))) = (mine, driven)" by fastforce
      let ?mid = "set_driven driven (set_task (r\<lparr>rt_mine := mine\<rparr>) sy)"
      have d: "dispatch (EnvCreateWorking n act) ?mid = Some sy'"
        using rep Working False m by (simp add: task_reports_def)
      have "\<not> is_create r" using none find_taskD(1) [OF r] by (simp add: no_creates)
      then have "creates_alive ?mid = 0"
        using none by (auto simp: no_creates set_driven_def set_task_def is_create_def split: if_splits)
      moreover have "creating (sy_state ?mid) = Some plan" using cr by (simp add: set_driven_def set_task_def)
      ultimately show ?thesis using dispatch_wedged [OF d] by simp
    qed
  next
    case (NodeUp network name ip info)
    show ?thesis
    proof (cases "own_node r = Some (ci_node_id info)")
      case True
      then show ?thesis using rep NodeUp cr none by (simp add: task_reports_def)
    next
      case False
      then have "dispatch (EnvCreateProgress network name ip info) sy = Some sy'"
        using rep NodeUp by (simp add: task_reports_def)
      from dispatch_wedged [OF this _ cr none] show ?thesis by simp
    qed
  qed
next
  case (TaskDrains t)
  then obtain r where r: "find_task sy t = Some r"
      "sy' = set_driven (release_all (rt_mine r) (de_driven (sy_effect sy))) (set_task (r\<lparr>rt_mine := [], rt_drained := True\<rparr>) sy)"
    using do_it by (auto split: option.splits if_splits)
  have "\<not> is_create r" using none find_taskD(1) [OF r(1)] by (simp add: no_creates)
  then show ?thesis
    using none cr unfolding r(2) by (auto simp: no_creates set_driven_def set_task_def is_create_def split: if_splits)
next
  case (TaskCascades t info)
  then have "dispatch (ContainerActionSettled (ci_node_id info) None (Inr (Some info))) sy = Some sy'"
    using do_it by (auto split: option.splits if_splits)
  from dispatch_wedged [OF this _ cr none] show ?thesis by simp
next
  case (TaskEnds t result)
  then show ?thesis using do_it none cr
    by (auto simp: no_creates drop_task_def is_create_report_def split: option.splits sum.splits if_splits)
next
  case (CreateEnds t result)
  then obtain r q where "find_task sy t = Some r" "rt_what r = Inl q"
    using do_it by (auto split: option.splits sum.splits)
  then show ?thesis using none find_taskD(1) by (fastforce simp: no_creates is_create_def)
next
  case (TaskPanics t)
  then obtain r where r: "find_task sy t = Some r" "sy' = lose_task r sy" using do_it by auto
  with none cr find_taskD(1) [OF r(1)] show ?thesis
    by (auto simp: no_creates lose_task_def drop_task_def lost_report_kind)
next
  case (ReportArrives k)
  let ?mid = "sy\<lparr>sy_reports := take k (sy_reports sy) @ drop (k + 1) (sy_reports sy)\<rparr>"
  have k: "k < length (sy_reports sy)" and d: "dispatch (report_action (sy_reports sy ! k)) ?mid = Some sy'"
    using ReportArrives do_it by (auto split: if_splits)
  have "\<not> is_create_report (sy_reports sy ! k)" using none k by (simp add: no_creates)
  then have "\<not> settles_create (report_action (sy_reports sy ! k))"
    by (simp add: is_create_report_def report_action_def split: report.splits)
  moreover have "creates_alive ?mid = 0"
    using none set_take_subset [of k "sy_reports sy"] set_drop_subset [of "k + 1" "sy_reports sy"]
    by (auto simp: no_creates)
  ultimately show ?thesis using dispatch_wedged [OF d] cr by simp
next
  case (LeftoverDrains k)
  then show ?thesis using do_it none cr by (auto simp: no_creates set_driven_def split: if_splits)
qed (use x in simp)

lemma wedged_step:
  assumes w: "wedged plan sy" and do_it: "sys_do x sy = Some sy'"
  shows "wedged plan sy'"
proof -
  have inv: "system_inv sy" and cr: "creating (sy_state sy) = Some plan" and none: "creates_alive sy = 0"
    and busy: "de_create_in_flight (sy_effect sy)" using w by (auto simp: wedged_def)
  show ?thesis
  proof (cases "x = Look")
    case True
    then have "sy' = look sy" using do_it by simp
    moreover have "new_creates sy = []" using busy by (simp add: new_creates_def split: option.split)
    ultimately show ?thesis
      using look_inv [OF inv] look_creates [of sy] inv cr none busy by (simp add: wedged_def system_inv_def look_busy)
  next
    case False
    show ?thesis
      using do_wedged [OF inv do_it False cr none] sys_do_inv [OF inv do_it] sys_do_facts [OF inv do_it False] busy
      by (simp add: wedged_def step_facts_def)
  qed
qed

lemma wedged_run: "wedged plan sy \<Longrightarrow> sys_run xs sy = Some sy' \<Longrightarrow> wedged plan sy'"
proof (induction xs arbitrary: sy)
  case (Cons x xs)
  then obtain sy1 where "sys_do x sy = Some sy1" "sys_run xs sy1 = Some sy'" by (auto split: option.splits)
  with Cons.IH [of sy1] wedged_step [OF Cons.prems(1)] show ?case by simp
qed simp

text \<open>A create fails, and the next is asked for before the effect looks again.\<close>

definition quick_retry :: "sys_step list" where
  "quick_retry = [Dispatched (EnvPlanned (EnvFlow ''a'')), Look, TaskDrains 1,
     CreateEnds 1 (Inl (bare_create_error ''build failed'')), ReportArrives 0,
     Dispatched (EnvPlanned (EnvFlow ''b'')), Look]"

lemma quick_retry_wedges: "\<exists>sy. sys_run quick_retry (new_system sample_idle) = Some sy \<and> wedged (EnvFlow ''b'') sy"
proof -
  have "map_option (\<lambda>sy. (creating (sy_state sy), de_create_in_flight (sy_effect sy), creates_alive sy))
      (sys_run quick_retry (new_system sample_idle)) = Some (Some (EnvFlow ''b''), True, 0)" by code_simp
  then obtain sy where sy: "sys_run quick_retry (new_system sample_idle) = Some sy"
      "creating (sy_state sy) = Some (EnvFlow ''b'')" "de_create_in_flight (sy_effect sy)" "creates_alive sy = 0" by auto
  with sys_run_inv [OF new_system_inv [OF sample_wf(1)] sy(1)] show ?thesis by (simp add: wedged_def)
qed

lemma sys_run_append: "sys_run (xs @ ys) sy = Option.bind (sys_run xs sy) (sys_run ys)"
  by (induction xs arbitrary: sy) (auto split: option.split)

text \<open>
  A state the effect misses can be lost for good. A create settles and the next one is asked for
  before the effect has looked: it sees one create after another as the same one still in flight, so
  the new create never gets a task, and after any further steps it is still pending with nobody to
  settle it, while every Start, Stop, Delete and switch is refused as already in flight.
\<close>
theorem missed_settle_wedges_create:
  "sys_run quick_retry (new_system sample_idle) \<noteq> None \<and>
   (case sys_run (quick_retry @ later) (new_system sample_idle) of
      None \<Rightarrow> True
    | Some sy \<Rightarrow> creating (sy_state sy) = Some (EnvFlow ''b'') \<and>
        filter is_create (sy_tasks sy) = [] \<and> filter is_create_report (sy_reports sy) = [] \<and>
        reduce (sy_state sy) (EnvPlanned plan) = Some (Inl AlreadyInFlight) \<and>
        reduce (sy_state sy) (NodeStartRequested n) = Some (Inl AlreadyInFlight))"
proof -
  obtain sy where sy: "sys_run quick_retry (new_system sample_idle) = Some sy" "wedged (EnvFlow ''b'') sy"
    using quick_retry_wedges by blast
  have "creating (sy_state sy') = Some (EnvFlow ''b'') \<and>
        filter is_create (sy_tasks sy') = [] \<and> filter is_create_report (sy_reports sy') = [] \<and>
        reduce (sy_state sy') (EnvPlanned plan) = Some (Inl AlreadyInFlight) \<and>
        reduce (sy_state sy') (NodeStartRequested n) = Some (Inl AlreadyInFlight)"
    if "sys_run later sy = Some sy'" for sy'
  proof -
    have w: "wedged (EnvFlow ''b'') sy'" by (rule wedged_run [OF sy(2) that])
    then show ?thesis
      using reduce_owned [of "sy_state sy'" "EnvFlow ''b''"] by (simp add: wedged_def creates_alive_def)
  qed
  then show ?thesis using sy(1) by (simp add: sys_run_append split: option.split)
qed

section \<open>Marks overwritten\<close>

definition two_up :: workspace_state where
  "two_up = sample_idle\<lparr>ws_env := Some (default_env\<lparr>es_containers :=
     [(''db'', sample_container ''db''), (''web'', sample_container ''web'')]\<rparr>)\<rparr>"

text \<open>The tasks and the marks after some steps.\<close>

definition outcome_of :: "sys_step list \<Rightarrow> workspace_state \<Rightarrow> ((nat \<times> (env_spec + pending_entry)) list \<times> pending_entry list) option" where
  "outcome_of steps s = map_option (\<lambda>sy. (map (\<lambda>r. (rt_id r, rt_what r)) (sy_tasks sy), extract_pending (sy_state sy)))
     (sys_run steps (new_system s))"

text \<open>
  A user's Stop loses against another run's progress. \<open>web\<close> is starting and \<open>db\<close> is being stopped
  when the run for \<open>web\<close> reports that it recreates \<open>db\<close>: the Stop's mark is overwritten, its task is
  called off, and \<open>db\<close> gets a start task of its own beside the run that starts it. And a create that
  settles wipes the mark of a Stop that is still running, so that a Start is accepted and runs beside it.
\<close>
theorem stop_overrun_by_runs:
  "(outcome_of [Dispatched (NodeStartRequested ''web''), Look, Dispatched (NodeStopRequested ''db''), Look,
      TaskReports 1 (Working ''db'' (Some Starting)), Look] two_up =
     Some ([(1, Inr (''web'', Starting)), (3, Inr (''db'', Starting))], [(''db'', Starting), (''web'', Starting)])) \<and>
   (outcome_of [Dispatched (NodeStopRequested ''web''), Look, Dispatched (EnvPlanned (EnvFlow ''a'')), Look,
      TaskDrains 2, CreateEnds 2 (Inl (bare_create_error ''build failed'')), ReportArrives 0, Look,
      Dispatched (NodeStartRequested ''web''), Look] two_up =
     Some ([(1, Inr (''web'', Stopping)), (3, Inr (''web'', Starting))], [(''web'', Starting)]))"
  by code_simp

end
