(* ===== verification/RawNet.thy ===== *)
theory RawNet
  imports Rust_Strings
begin

text \<open>
  The raw zone (\<open>src/raw_net\<close>): every node gets a virtual address in \<open>127.223.0.0/16\<close>
  (\<open>mod.rs\<close>) and fghjd forwards that address to the port Docker published (\<open>forward.rs\<close>).
  \<open>digest\<close> stands for SHA-256 (crate \<open>sha2\<close>), \<open>os_calls\<close> for the operating system: adding a
  loopback alias and binding a listener, each of which may fail.
\<close>

type_synonym ip = "32 word"
type_synonym port16 = "16 word"
type_synonym addr = "ip \<times> port16"

definition ipv4 :: "nat \<Rightarrow> nat \<Rightarrow> nat \<Rightarrow> nat \<Rightarrow> ip" where
  "ipv4 a b c d = of_nat (((a * 256 + b) * 256 + c) * 256 + d)"

definition octets :: "ip \<Rightarrow> nat list" where
  "octets i = (let n = unat i in [n div 16777216, n div 65536 mod 256, n div 256 mod 256, n mod 256])"

definition show_ip :: "ip \<Rightarrow> string" where
  "show_ip i = join ''.'' (map show_nat (octets i))"

section \<open>Virtual addresses (mod.rs)\<close>

definition POOL_BASE :: ip where
  "POOL_BASE = ipv4 127 223 0 0"

definition POOL_SIZE :: "32 word" where
  "POOL_SIZE = push_bit 16 1"

definition virtual_ip_for :: "(string \<Rightarrow> 8 word list) \<Rightarrow> string \<Rightarrow> ip" where
  "virtual_ip_for digest name =
     (let d = digest name;
          hash = ipv4 (unat (d ! 0)) (unat (d ! 1)) (unat (d ! 2)) (unat (d ! 3));
          offset = 1 + hash mod (POOL_SIZE - 2)
      in POOL_BASE + offset)"

definition slot_of :: "ip \<Rightarrow> 32 word" where
  "slot_of i = i - POOL_BASE - 1"

record raw_endpoint =
  re_domain :: string
  re_ports :: "(string, port16) btree"

record route_spec =
  rs_virtual_ip :: ip
  rs_container_port :: port16
  rs_host_port :: port16

definition routes_for ::
  "(string \<Rightarrow> 8 word list) \<Rightarrow> raw_endpoint list \<Rightarrow> (string, ip) btree \<Rightarrow> route_spec list" where
  "routes_for digest endpoints assigned =
     concat (map (\<lambda>ep.
       let virtual_ip = (case map_of assigned (re_domain ep) of
                           Some i \<Rightarrow> i | None \<Rightarrow> virtual_ip_for digest (re_domain ep))
       in filter_map (\<lambda>(p, host_port).
            case parse_u16 p of
              None \<Rightarrow> None
            | Some container_port \<Rightarrow>
                Some \<lparr>rs_virtual_ip = virtual_ip, rs_container_port = container_port,
                      rs_host_port = host_port\<rparr>)
          (re_ports ep)) endpoints)"

definition free_at :: "port16 list \<Rightarrow> addr set \<Rightarrow> ip \<Rightarrow> bool" where
  "free_at ports claimed i = (\<forall>p\<in>set ports. (i, p) \<notin> claimed)"

definition probe :: "32 word \<Rightarrow> nat \<Rightarrow> ip" where
  "probe start step = POOL_BASE + 1 + (start + of_nat step) mod (POOL_SIZE - 2)"

definition pick_ip :: "ip option \<Rightarrow> ip \<Rightarrow> port16 list \<Rightarrow> addr set \<Rightarrow> ip" where
  "pick_ip preferred naive ports claimed =
     (let search = (case find (free_at ports claimed)
                      (map (probe (slot_of naive)) [0..<unat (POOL_SIZE - 2)]) of
                      Some i \<Rightarrow> i | None \<Rightarrow> naive)
      in case preferred of
           Some i \<Rightarrow> if free_at ports claimed i then i else search
         | None \<Rightarrow> search)"

definition endpoint_ports :: "raw_endpoint \<Rightarrow> port16 list" where
  "endpoint_ports ep = filter_map parse_u16 (bt_keys (re_ports ep))"

definition assign_one ::
  "(string \<Rightarrow> 8 word list) \<Rightarrow> (string, ip) btree \<Rightarrow> raw_endpoint \<Rightarrow> addr set \<times> (string, ip) btree
   \<Rightarrow> addr set \<times> (string, ip) btree" where
  "assign_one digest previous ep acc =
     (let ports = endpoint_ports ep;
          naive = virtual_ip_for digest (re_domain ep);
          i = pick_ip (map_of previous (re_domain ep)) naive ports (fst acc)
      in (fst acc \<union> (\<lambda>p. (i, p)) ` set ports, bt_insert (re_domain ep) i (snd acc)))"

definition assign_order :: "raw_endpoint list \<Rightarrow> (string, ip) btree \<Rightarrow> raw_endpoint list" where
  "assign_order endpoints previous =
     sort_key re_domain (filter (\<lambda>ep. bt_has previous (re_domain ep)) endpoints) @
     sort_key re_domain (filter (\<lambda>ep. \<not> bt_has previous (re_domain ep)) endpoints)"

definition assign ::
  "(string \<Rightarrow> 8 word list) \<Rightarrow> raw_endpoint list \<Rightarrow> (string, ip) btree \<Rightarrow> addr set \<Rightarrow> (string, ip) btree" where
  "assign digest endpoints previous taken =
     snd (fold (assign_one digest previous) (assign_order endpoints previous) (taken, []))"

section \<open>The forwarder (forward.rs)\<close>

datatype os_result = Done | InUse | Failed string

record os_calls =
  os_add_alias :: "ip \<Rightarrow> os_result"
  os_bind :: "addr \<Rightarrow> os_result"

record forwarder =
  fw_listeners :: "(addr, port16) btree"
  fw_aliases :: "ip set"

definition no_listeners :: forwarder where
  "no_listeners = \<lparr>fw_listeners = [], fw_aliases = {}\<rparr>"

text \<open>\<open>listen\<close>: the alias first, kept even when the bind then fails.\<close>

definition fw_listen :: "os_calls \<Rightarrow> addr \<Rightarrow> port16 \<Rightarrow> forwarder \<Rightarrow> os_result \<times> forwarder" where
  "fw_listen os a host_port fw =
     (let aliased = (if fst a \<in> fw_aliases fw then Done else os_add_alias os (fst a))
      in case aliased of
           Done \<Rightarrow>
             (let fw' = fw\<lparr>fw_aliases := insert (fst a) (fw_aliases fw)\<rparr>
              in case os_bind os a of
                   Done \<Rightarrow> (Done, fw'\<lparr>fw_listeners := bt_insert a host_port (fw_listeners fw')\<rparr>)
                 | r \<Rightarrow> (r, fw'))
         | r \<Rightarrow> (r, fw))"

definition fw_apply_one ::
  "os_calls \<Rightarrow> addr \<times> port16 \<Rightarrow> forwarder \<times> addr list \<times> string list \<Rightarrow> forwarder \<times> addr list \<times> string list" where
  "fw_apply_one os route acc =
     (case (route, acc) of
        ((a, host_port), (fw, taken, errors)) \<Rightarrow>
          if bt_has (fw_listeners fw) a
          then (fw\<lparr>fw_listeners := bt_insert a host_port (fw_listeners fw)\<rparr>, taken, errors)
          else (case fw_listen os a host_port fw of
             (Done, fw') \<Rightarrow> (fw', taken, errors)
           | (InUse, fw') \<Rightarrow> (fw', taken @ [a], errors)
           | (Failed e, fw') \<Rightarrow>
               (fw', taken, errors @ [show_ip (fst a) @ '':'' @ show_nat (unat (snd a)) @ '': '' @ e])))"

definition desired_listeners :: "route_spec list \<Rightarrow> (addr, port16) btree" where
  "desired_listeners routes =
     bt_of_list (map (\<lambda>r. ((rs_virtual_ip r, rs_container_port r), rs_host_port r)) routes)"

definition drop_unused_aliases :: "forwarder \<Rightarrow> forwarder" where
  "drop_unused_aliases fw = fw\<lparr>fw_aliases := fw_aliases fw \<inter> fst ` fst ` set (fw_listeners fw)\<rparr>"

definition fw_apply :: "os_calls \<Rightarrow> route_spec list \<Rightarrow> forwarder \<Rightarrow> (string + addr list) \<times> forwarder" where
  "fw_apply os routes fw =
     (let desired = desired_listeners routes;
          kept = fw\<lparr>fw_listeners := bt_retain (\<lambda>a _. bt_has desired a) (fw_listeners fw)\<rparr>
      in case fold (fw_apply_one os) desired (kept, [], []) of
           (fw', taken, errors) \<Rightarrow>
             (if errors \<noteq> [] then Inl (''failed to listen on '' @ join ''; '' errors) else Inr taken,
              drop_unused_aliases fw'))"

definition fw_status :: "forwarder \<Rightarrow> route_spec list" where
  "fw_status fw = map (\<lambda>((i, p), host_port).
     \<lparr>rs_virtual_ip = i, rs_container_port = p, rs_host_port = host_port\<rparr>) (fw_listeners fw)"

section \<open>Reconciling (mod.rs)\<close>

record raw_net =
  rn_assignments :: "(string, ip) btree"
  rn_taken :: "addr set"
  rn_desired :: "route_spec list"
  rn_forwarder :: forwarder

definition raw_init :: raw_net where
  "raw_init = \<lparr>rn_assignments = [], rn_taken = {}, rn_desired = [], rn_forwarder = no_listeners\<rparr>"

definition resolve_raw :: "(string \<Rightarrow> 8 word list) \<Rightarrow> (string, ip) btree \<Rightarrow> string \<Rightarrow> ip" where
  "resolve_raw digest table name =
     (case map_of table name of Some i \<Rightarrow> i | None \<Rightarrow> virtual_ip_for digest name)"

definition reconcile_round ::
  "(string \<Rightarrow> 8 word list) \<Rightarrow> os_calls \<Rightarrow> raw_endpoint list \<Rightarrow> raw_net \<Rightarrow> (string + addr list) \<times> raw_net" where
  "reconcile_round digest os endpoints rn =
     (let table = assign digest endpoints (rn_assignments rn) (rn_taken rn);
          routes = routes_for digest endpoints table
      in case fw_apply os routes (rn_forwarder rn) of
           (busy, fw) \<Rightarrow>
             (busy, rn\<lparr>rn_assignments := table, rn_desired := routes, rn_forwarder := fw\<rparr>))"

definition MAX_ROUNDS :: nat where
  "MAX_ROUNDS = 8"

text \<open>One operating system reading per round, since its answers may differ between rounds.\<close>

fun reconcile_rounds ::
  "(string \<Rightarrow> 8 word list) \<Rightarrow> (nat \<Rightarrow> os_calls) \<Rightarrow> raw_endpoint list \<Rightarrow> nat \<Rightarrow> raw_net
   \<Rightarrow> (string + unit) \<times> raw_net" where
  "reconcile_rounds digest os endpoints 0 rn = (Inr (), rn)"
| "reconcile_rounds digest os endpoints (Suc n) rn =
     (case reconcile_round digest (os n) endpoints rn of
        (Inl e, rn') \<Rightarrow> (Inl e, rn')
      | (Inr busy, rn') \<Rightarrow>
          if busy = [] then (Inr (), rn')
          else reconcile_rounds digest os endpoints n (rn'\<lparr>rn_taken := rn_taken rn' \<union> set busy\<rparr>))"

definition raw_reconcile ::
  "(string \<Rightarrow> 8 word list) \<Rightarrow> (nat \<Rightarrow> os_calls) \<Rightarrow> raw_endpoint list \<Rightarrow> raw_net \<Rightarrow> (string + unit) \<times> raw_net" where
  "raw_reconcile digest os endpoints rn = reconcile_rounds digest os endpoints MAX_ROUNDS rn"

definition route_health :: "raw_net \<Rightarrow> route_spec list \<times> route_spec list" where
  "route_health rn =
     (let listening = (\<lambda>r. (rs_virtual_ip r, rs_container_port r)) ` set (fw_status (rn_forwarder rn))
      in (rn_desired rn,
          filter (\<lambda>r. (rs_virtual_ip r, rs_container_port r) \<notin> listening) (rn_desired rn)))"

definition raw_clear :: "raw_net \<Rightarrow> raw_net" where
  "raw_clear rn = rn\<lparr>rn_assignments := [], rn_desired := [], rn_forwarder := no_listeners\<rparr>"

end
