(* ===== verification/Routing.thy ===== *)
theory Routing
  imports Workspace_State RawNet
begin

text \<open>
  Names to backends: the projections of the daemon's states (\<open>src/state/query.rs\<close>), the zone
  predicates (\<open>src/dns/mod.rs\<close>), the host's DNS answers (\<open>src/daemon/routing.rs\<close>), the route
  table written for the sidecar (\<open>src/orchestrator/route_table.rs\<close>), the sidecar's own
  resolution (\<open>src/bin/fghj-sidecar.rs\<close>) and the managed hosts (\<open>src/effects/hosts.rs\<close>).
\<close>

type_synonym states = "(string, workspace_state) btree"

section \<open>Projections (query.rs)\<close>

definition env_containers :: "workspace_state \<Rightarrow> container_info list" where
  "env_containers s = (case ws_env s of None \<Rightarrow> [] | Some e \<Rightarrow> bt_values (es_containers e))"

definition is_running :: "container_info \<Rightarrow> bool" where
  "is_running c = (co_status (ci_observed c) = ''running'')"

definition running_containers :: "states \<Rightarrow> container_info list" where
  "running_containers states = filter is_running (concat (map env_containers (bt_values states)))"

definition live_host_port :: "container_info \<Rightarrow> port_route \<Rightarrow> port" where
  "live_host_port c r =
     (case map_of (co_ports (ci_observed c)) (pr_container_port r) of
        Some (Some p) \<Rightarrow> p
      | _ \<Rightarrow> pr_host_port r)"

record route_target =
  rt_workspace :: string
  rt_node_id :: node_id
  rt_port :: port

definition matches_suffix :: "string \<Rightarrow> string \<Rightarrow> bool" where
  "matches_suffix host suffix = (host = suffix \<or> ends_with host (''.'' @ suffix))"

definition find_route :: "states \<Rightarrow> (port_route \<Rightarrow> bool) \<Rightarrow> route_target option" where
  "find_route states P =
     find_map (\<lambda>(workspace, s).
       find_map (\<lambda>c.
         (case find P (cd_routes (ci_desired c)) of
            None \<Rightarrow> None
          | Some r \<Rightarrow> Some \<lparr>rt_workspace = workspace, rt_node_id = ci_node_id c,
                            rt_port = live_host_port c r\<rparr>))
         (filter is_running (env_containers s)))
       states"

definition exact_match :: "string \<Rightarrow> port_route \<Rightarrow> bool" where
  "exact_match host r = (\<not> pr_wildcard r \<and> pr_domain r = host)"

definition wildcard_match :: "string \<Rightarrow> port_route \<Rightarrow> bool" where
  "wildcard_match host r = (pr_wildcard r \<and> matches_suffix host (pr_domain r))"

definition resolve_route :: "states \<Rightarrow> string \<Rightarrow> route_target option" where
  "resolve_route states host =
     (case find_route states (exact_match host) of
        Some t \<Rightarrow> Some t
      | None \<Rightarrow> find_route states (wildcard_match host))"

definition wildcard_suffixes :: "states \<Rightarrow> string list" where
  "wildcard_suffixes states =
     sorted_dedup (concat (map (\<lambda>c. map pr_domain (filter pr_wildcard (cd_routes (ci_desired c))))
       (running_containers states)))"

definition raw_endpoints :: "states \<Rightarrow> raw_endpoint list" where
  "raw_endpoints states =
     map (\<lambda>c. \<lparr>re_domain = cd_raw_domain (ci_desired c),
               re_ports = filter_map (\<lambda>(p, hp). map_option (\<lambda>h. (p, h)) hp) (co_ports (ci_observed c))\<rparr>)
       (running_containers states)"

section \<open>Zones and DNS answers (dns, routing.rs)\<close>

definition ZONE :: string where "ZONE = ''fghj.internal''"
definition ZONE_SUFFIX :: string where "ZONE_SUFFIX = ''.fghj.internal''"
definition ZONE_RAW :: string where "ZONE_RAW = ''fghj.raw.internal''"
definition PROXY_IP :: ip where "PROXY_IP = ipv4 127 222 0 1"

definition in_zone :: "string \<Rightarrow> bool" where
  "in_zone qname = (qname = ZONE \<or> ends_with qname ZONE_SUFFIX)"

definition matches_zone :: "string \<Rightarrow> string \<Rightarrow> bool" where
  "matches_zone qname zone = (qname = zone \<or> ends_with qname (''.'' @ zone))"

definition RESERVED_ALIAS_TLDS :: "string list" where
  "RESERVED_ALIAS_TLDS = [''local'', ''test'', ''internal'', ''localhost'']"

definition is_reserved_alias :: "string \<Rightarrow> bool" where
  "is_reserved_alias host = list_ex (\<lambda>tld. host = tld \<or> ends_with host (''.'' @ tld)) RESERVED_ALIAS_TLDS"

definition cert_eligible :: "string \<Rightarrow> bool \<Rightarrow> bool" where
  "cert_eligible name routed = (in_zone name \<or> is_reserved_alias name \<and> routed)"

definition host_answer ::
  "(string \<Rightarrow> 8 word list) \<Rightarrow> (string, ip) btree \<Rightarrow> states \<Rightarrow> string \<Rightarrow> ip option" where
  "host_answer digest table states qname =
     (if in_zone qname \<or> list_ex (matches_zone qname) (wildcard_suffixes states) then Some PROXY_IP
      else if matches_zone qname ZONE_RAW then Some (resolve_raw digest table qname)
      else None)"

definition os_resolver_zones :: "states \<Rightarrow> string list" where
  "os_resolver_zones states = [ZONE, ZONE_RAW] @ wildcard_suffixes states"

definition extract_hosts :: "states \<Rightarrow> string list" where
  "extract_hosts states =
     sorted_dedup (concat (map (\<lambda>c. cd_additional_hosts (ci_desired c)) (running_containers states)))"

section \<open>The sidecar (route_table.rs, fghj-sidecar.rs)\<close>

record route_file_entry =
  rf_lookup :: string
  rf_wildcard :: bool
  rf_connect_host :: string
  rf_connect_port :: port
  rf_node_id :: node_id

definition route_file_entry_of :: "container_info \<Rightarrow> port_route \<Rightarrow> route_file_entry option" where
  "route_file_entry_of c r =
     (case parse_u16 (hd (split_char (pr_container_port r) (CHR ''/''))) of
        None \<Rightarrow> None
      | Some connect_port \<Rightarrow>
          Some \<lparr>rf_lookup = pr_domain r, rf_wildcard = pr_wildcard r,
                rf_connect_host = cd_raw_domain (ci_desired c), rf_connect_port = connect_port,
                rf_node_id = ci_node_id c\<rparr>)"

definition route_file_entries :: "container_info list \<Rightarrow> route_file_entry list" where
  "route_file_entries containers =
     concat (map (\<lambda>c. filter_map (route_file_entry_of c) (cd_routes (ci_desired c))) containers)"

record backend =
  be_host :: string
  be_port :: port
  be_traffic :: "node_id option"

definition sidecar_resolve :: "route_file_entry list \<Rightarrow> string \<Rightarrow> backend option" where
  "sidecar_resolve routes host =
     map_option (\<lambda>r. \<lparr>be_host = rf_connect_host r, be_port = rf_connect_port r,
                      be_traffic = (if rf_node_id r \<noteq> [] then Some (rf_node_id r) else None)\<rparr>)
       (case find (\<lambda>r. \<not> rf_wildcard r \<and> rf_lookup r = host) routes of
          Some r \<Rightarrow> Some r
        | None \<Rightarrow> find (\<lambda>r. rf_wildcard r \<and>
              (host = rf_lookup r \<or> ends_with host (''.'' @ rf_lookup r))) routes)"

definition sidecar_answer :: "ip \<Rightarrow> route_file_entry list \<Rightarrow> string \<Rightarrow> ip option" where
  "sidecar_answer own_ip routes qname = map_option (\<lambda>_. own_ip) (sidecar_resolve routes qname)"

section \<open>The interface of a route resolver\<close>

text \<open>
  Both resolvers search a list of rules in order, exact rules first: a rule is a domain, whether it
  is a wildcard, and what it leads to.
\<close>

type_synonym 'b rule = "string \<times> bool \<times> 'b"

fun exact_rule :: "string \<Rightarrow> 'b rule \<Rightarrow> 'b option" where
  "exact_rule host (d, w, b) = (if \<not> w \<and> d = host then Some b else None)"

fun wildcard_rule :: "string \<Rightarrow> 'b rule \<Rightarrow> 'b option" where
  "wildcard_rule host (d, w, b) = (if w \<and> matches_suffix host d then Some b else None)"

definition two_pass :: "'b rule list \<Rightarrow> string \<Rightarrow> 'b option" where
  "two_pass rules host =
     (case find_map (exact_rule host) rules of
        Some b \<Rightarrow> Some b
      | None \<Rightarrow> find_map (wildcard_rule host) rules)"

fun rule_names :: "string \<Rightarrow> 'b rule \<Rightarrow> bool" where
  "rule_names host (d, w, b) = (if w then matches_suffix host d else d = host)"

lemma exact_rule_Some: "exact_rule host x = Some b \<longleftrightarrow> x = (host, False, b)"
  by (cases x) auto

lemma wildcard_rule_Some: "wildcard_rule host x = Some b \<longleftrightarrow> (\<exists>d. x = (d, True, b) \<and> matches_suffix host d)"
  by (cases x) auto

lemma rule_names_None: "\<not> rule_names host x \<longleftrightarrow> exact_rule host x = None \<and> wildcard_rule host x = None"
  by (cases x) auto

locale route_resolver =
  fixes lookup_name :: "'t \<Rightarrow> string \<Rightarrow> 'b option"
    and rules :: "'t \<Rightarrow> 'b rule list"
  assumes lookup_rules: "lookup_name t host = two_pass (rules t) host"
begin

lemma exact_wins:
  assumes "(host, False, b) \<in> set (rules t)"
  shows "\<exists>b'. lookup_name t host = Some b' \<and> (host, False, b') \<in> set (rules t)"
proof -
  have "find_map (exact_rule host) (rules t) \<noteq> None"
    unfolding find_map_None using assms by (metis exact_rule_Some option.distinct(1))
  then obtain b' where b': "find_map (exact_rule host) (rules t) = Some b'" by auto
  then have "(host, False, b') \<in> set (rules t)" by (metis exact_rule_Some find_map_SomeD)
  with b' show ?thesis by (simp add: lookup_rules two_pass_def)
qed

lemma lookup_None: "lookup_name t host = None \<longleftrightarrow> (\<forall>x\<in>set (rules t). \<not> rule_names host x)"
proof (cases "find_map (exact_rule host) (rules t)")
  case None
  then have l: "lookup_name t host = find_map (wildcard_rule host) (rules t)"
    by (simp add: lookup_rules two_pass_def)
  show ?thesis
    unfolding l using None by (simp add: find_map_None rule_names_None)
next
  case (Some b)
  then have "\<exists>x\<in>set (rules t). rule_names host x"
    using find_map_SomeD [OF Some] rule_names_None by (metis option.distinct(1))
  with Some show ?thesis by (auto simp: lookup_rules two_pass_def)
qed

lemma lookup_SomeD:
  assumes "lookup_name t host = Some b"
  shows "(host, False, b) \<in> set (rules t) \<or>
    (\<exists>d. (d, True, b) \<in> set (rules t) \<and> matches_suffix host d \<and> (\<forall>b'. (host, False, b') \<notin> set (rules t)))"
proof (cases "find_map (exact_rule host) (rules t)")
  case None
  with assms have "find_map (wildcard_rule host) (rules t) = Some b" by (simp add: lookup_rules two_pass_def)
  then obtain d where d: "(d, True, b) \<in> set (rules t)" "matches_suffix host d"
    by (metis wildcard_rule_Some find_map_SomeD)
  have "(host, False, b') \<notin> set (rules t)" for b'
    using None unfolding find_map_None by (metis exact_rule_Some option.distinct(1))
  with d show ?thesis by blast
next
  case (Some b')
  with assms have "b' = b" by (simp add: lookup_rules two_pass_def)
  with Some show ?thesis by (metis exact_rule_Some find_map_SomeD)
qed

end

definition host_rules :: "states \<Rightarrow> route_target rule list" where
  "host_rules states =
     concat (map (\<lambda>(workspace, s). concat (map (\<lambda>c. map (\<lambda>r.
       (pr_domain r, pr_wildcard r, \<lparr>rt_workspace = workspace, rt_node_id = ci_node_id c,
                                     rt_port = live_host_port c r\<rparr>))
       (cd_routes (ci_desired c))) (filter is_running (env_containers s)))) states)"

definition entry_backend :: "route_file_entry \<Rightarrow> backend" where
  "entry_backend r = \<lparr>be_host = rf_connect_host r, be_port = rf_connect_port r,
     be_traffic = (if rf_node_id r \<noteq> [] then Some (rf_node_id r) else None)\<rparr>"

definition sidecar_rules :: "route_file_entry list \<Rightarrow> backend rule list" where
  "sidecar_rules = map (\<lambda>r. (rf_lookup r, rf_wildcard r, entry_backend r))"

lemma find_map_find: "find_map (\<lambda>x. if P x then Some (f x) else None) xs = map_option f (find P xs)"
  by (induction xs) auto

lemma find_route_target:
  "(case find P rs of None \<Rightarrow> None | Some r \<Rightarrow> Some (f r)) = find_map (\<lambda>r. if P r then Some (f r) else None) rs"
  by (simp add: find_map_find map_option_case)

lemma find_route_rules:
  assumes "\<And>r (b :: route_target). pick (pr_domain r, pr_wildcard r, b) = (if P r then Some b else None)"
  shows "find_route states P = find_map pick (host_rules states)"
  unfolding find_route_def host_rules_def find_map_concat find_map_map
  by (intro find_map_cong)
    (auto simp: find_map_concat find_map_map comp_def assms find_route_target split: prod.splits)

lemma resolve_route_rules: "resolve_route states host = two_pass (host_rules states) host"
  unfolding resolve_route_def two_pass_def
  by (simp add: exact_match_def wildcard_match_def
      find_route_rules [of "exact_rule host" "exact_match host"]
      find_route_rules [of "wildcard_rule host" "wildcard_match host"] cong: option.case_cong)

interpretation host: route_resolver resolve_route host_rules
  by unfold_locales (rule resolve_route_rules)

lemma sidecar_resolve_rules: "sidecar_resolve routes host = two_pass (sidecar_rules routes) host"
  unfolding sidecar_resolve_def two_pass_def sidecar_rules_def find_map_map
  by (simp add: comp_def find_map_find matches_suffix_def entry_backend_def [abs_def] split: option.splits)

interpretation sidecar: route_resolver sidecar_resolve sidecar_rules
  by unfold_locales (rule sidecar_resolve_rules)

end
