(* ===== verification/Dns_Wire.thy ===== *)
theory Dns_Wire
  imports Words Routing
begin

text \<open>
  The DNS messages of \<open>src/dns/mod.rs\<close>: reading a query, building the response, and what the server does
  with a packet. Bytes are 8-bit words; \<open>None\<close> is a packet that is dropped.
\<close>

unbundle bit_operations_syntax

section \<open>Queries\<close>

record dns_query =
  q_id :: "16 word"
  q_opcode :: byte
  q_rd :: bool
  q_qname :: string
  q_qtype :: "16 word"
  q_qclass :: "16 word"
  q_question_bytes :: "byte list"

text \<open>The loop over the labels of the name, from a position; the position after the closing zero byte.\<close>

function read_labels :: "byte list \<Rightarrow> nat \<Rightarrow> string list \<Rightarrow> (string list \<times> nat) option" where
  "read_labels buf pos labels =
     (if length buf \<le> pos then None
      else let len = unat (buf ! pos) in
        if len = 0 then Some (labels, pos + 1)
        else if buf ! pos AND 0xC0 \<noteq> 0 then None
        else if length buf < pos + 1 + len then None
        else read_labels buf (pos + 1 + len) (labels @ [from_utf8_lossy (take len (drop (pos + 1) buf))]))"
  by auto

termination
  by (relation "measure (\<lambda>(buf, pos, labels). length buf - pos)") auto

declare read_labels.simps [simp del]

definition parse_query :: "byte list \<Rightarrow> dns_query option" where
  "parse_query buf =
     (if length buf < 12 then None
      else let id = from_be16 (buf ! 0) (buf ! 1);
               flags0 = buf ! 2;
               opcode = drop_bit 3 flags0 AND 0x0F;
               rd = (flags0 AND 0x01 \<noteq> 0);
               qdcount = from_be16 (buf ! 4) (buf ! 5)
           in if qdcount \<noteq> 1 then None
              else case read_labels buf 12 [] of
                None \<Rightarrow> None
              | Some (labels, pos) \<Rightarrow>
                  if length buf < pos + 4 then None
                  else Some
                    \<lparr>q_id = id, q_opcode = opcode, q_rd = rd, q_qname = join ''.'' labels,
                     q_qtype = from_be16 (buf ! pos) (buf ! (pos + 1)),
                     q_qclass = from_be16 (buf ! (pos + 2)) (buf ! (pos + 3)),
                     q_question_bytes = take (pos + 4 - 12) (drop 12 buf)\<rparr>)"

section \<open>Responses\<close>

definition TYPE_A :: "16 word" where "TYPE_A = 1"
definition CLASS_IN :: "16 word" where "CLASS_IN = 1"
definition ANSWER_TTL :: "32 word" where "ANSWER_TTL = 5"

definition answer_hit :: "dns_query \<Rightarrow> ip option \<Rightarrow> bool" where
  "answer_hit q a = (a \<noteq> None \<and> q_qtype q = TYPE_A \<and> q_qclass q = CLASS_IN)"

definition rcode_of :: "dns_query \<Rightarrow> ip option \<Rightarrow> byte" where
  "rcode_of q a = (if q_opcode q \<noteq> 0 then 4 else if a \<noteq> None then 0 else 3)"

definition build_response :: "dns_query \<Rightarrow> ip option \<Rightarrow> byte list" where
  "build_response q a =
     (let flags0 = 0x80 OR push_bit 3 (q_opcode q AND 0x0F) OR (if a \<noteq> None then 0x04 else 0) OR (if q_rd q then 0x01 else 0);
          flags1 = rcode_of q a AND 0x0F
      in to_be16 (q_id q) @ [flags0, flags1] @ to_be16 1 @ to_be16 (if answer_hit q a then 1 else 0) @ to_be16 0 @ to_be16 0 @
         q_question_bytes q @
         (if answer_hit q a
          then [0xC0, 0x0C] @ to_be16 TYPE_A @ to_be16 CLASS_IN @ to_be32 ANSWER_TTL @ to_be16 4 @ map of_nat (octets (the a))
          else []))"

section \<open>The server\<close>

datatype dns_reaction = Dropped | Forwarded "byte list" | Answered "byte list"

text \<open>A packet is read into a buffer of 512 bytes; the rest of a longer one is lost.\<close>

definition serve_packet :: "(string \<Rightarrow> ip option) \<Rightarrow> bool \<Rightarrow> byte list \<Rightarrow> dns_reaction" where
  "serve_packet answer_for upstream packet =
     (let buf = take 512 packet in
      case parse_query buf of
        None \<Rightarrow> Dropped
      | Some query \<Rightarrow>
          (let answer = answer_for (to_lowercase (q_qname query)) in
           if answer = None \<and> upstream then Forwarded buf
           else Answered (build_response query answer)))"

end
