(* ===== verification/Dns_Claims.thy ===== *)
theory Dns_Claims
  imports Dns_Wire
begin

text \<open>The properties of the DNS server: what it understands, and what it answers.\<close>

unbundle bit_operations_syntax

section \<open>Questions on the wire\<close>

definition encode_name :: "byte list list \<Rightarrow> byte list" where
  "encode_name labels = concat (map (\<lambda>l. of_nat (length l) # l) labels) @ [0]"

definition label_ok :: "byte list \<Rightarrow> bool" where
  "label_ok l = (l \<noteq> [] \<and> length l < 64)"

definition encode_question :: "byte list list \<Rightarrow> 16 word \<Rightarrow> 16 word \<Rightarrow> byte list" where
  "encode_question labels qtype qclass = encode_name labels @ to_be16 qtype @ to_be16 qclass"

lemma encode_name_simps [simp]:
  "encode_name [] = [0]" "encode_name (l # ls) = of_nat (length l) # l @ encode_name ls"
  by (simp_all add: encode_name_def)

lemma unat_label_length: "label_ok l \<Longrightarrow> unat (of_nat (length l) :: byte) = length l"
  by (simp add: label_ok_def unat_byte)

lemma read_labels_encode:
  "list_all label_ok ls \<Longrightarrow> read_labels (pre @ encode_name ls @ rest) (length pre) acc =
     Some (acc @ map from_utf8_lossy ls, length pre + length (encode_name ls))"
proof (induction ls arbitrary: pre acc)
  case Nil
  then show ?case by (subst read_labels.simps) (simp add: nth_append)
next
  case (Cons l ls)
  then have l: "label_ok l" by simp
  have len: "unat (of_nat (length l) :: byte) = length l" by (rule unat_label_length [OF l])
  have clear: "(of_nat (length l) :: byte) AND 0xC0 = 0" unfolding top_bits_clear len using l by (simp add: label_ok_def)
  let ?pre = "pre @ of_nat (length l) # l"
  have "read_labels (?pre @ encode_name ls @ rest) (length ?pre) (acc @ [from_utf8_lossy l]) =
      Some ((acc @ [from_utf8_lossy l]) @ map from_utf8_lossy ls, length ?pre + length (encode_name ls))"
    by (rule Cons.IH) (use Cons.prems in simp)
  moreover have "l \<noteq> []" using l by (simp add: label_ok_def)
  ultimately show ?case by (subst read_labels.simps) (simp add: nth_append len clear Let_def)
qed

lemma read_labels_decode:
  "read_labels buf pos acc = Some (labels, p) \<Longrightarrow>
     \<exists>ls. list_all label_ok ls \<and> labels = acc @ map from_utf8_lossy ls \<and> p = pos + length (encode_name ls) \<and>
       p \<le> length buf \<and> take (length (encode_name ls)) (drop pos buf) = encode_name ls"
proof (induction buf pos acc rule: read_labels.induct)
  case (1 buf pos acc)
  let ?len = "unat (buf ! pos)"
  have inside: "pos < length buf" using 1(2) by (subst (asm) read_labels.simps) (simp split: if_splits)
  have here: "drop pos buf = buf ! pos # drop (Suc pos) buf" using inside by (simp add: Cons_nth_drop_Suc)
  show ?case
  proof (cases "?len = 0")
    case True
    then have "labels = acc" "p = pos + 1" using 1(2) inside by (subst (asm) read_labels.simps, simp)+
    moreover have "buf ! pos = 0" using True by (simp add: unat_eq_0)
    ultimately show ?thesis using inside here by (intro exI [of _ "[]"]) simp
  next
    case False
    have clear: "buf ! pos AND 0xC0 = 0" and fits: "pos + 1 + ?len \<le> length buf"
      and rest: "read_labels buf (pos + 1 + ?len) (acc @ [from_utf8_lossy (take ?len (drop (pos + 1) buf))]) = Some (labels, p)"
      using 1(2) inside False by (subst (asm) read_labels.simps, simp add: Let_def split: if_splits)+
    let ?l = "take ?len (drop (pos + 1) buf)"
    have l: "label_ok ?l" "length ?l = ?len" using clear False fits by (auto simp: label_ok_def top_bits_clear)
    from 1(1) [OF _ refl False _ _ rest] inside clear fits obtain ls where ls: "list_all label_ok ls"
      "labels = (acc @ [from_utf8_lossy ?l]) @ map from_utf8_lossy ls" "p = pos + 1 + ?len + length (encode_name ls)"
      "p \<le> length buf" "take (length (encode_name ls)) (drop (pos + 1 + ?len) buf) = encode_name ls" by auto
    have prefix: "take (length (encode_name (l # ls))) ((b # l) @ rest) = encode_name (l # ls)"
      if "b = of_nat (length l)" "take (length (encode_name ls)) rest = encode_name ls" for b l and rest :: "byte list"
      using that by simp
    have "drop pos buf = (buf ! pos # ?l) @ drop (pos + 1 + ?len) buf"
      using append_take_drop_id [of ?len "drop (pos + 1) buf"] here by (simp add: add.commute)
    with prefix [of "buf ! pos" ?l "drop (pos + 1 + ?len) buf"] l(2) ls(5)
    have "take (length (encode_name (?l # ls))) (drop pos buf) = encode_name (?l # ls)" by simp
    with ls l show ?thesis by (intro exI [of _ "?l # ls"]) simp
  qed
qed

lemma split_header:
  assumes "12 \<le> length buf"
  obtains b0 b1 f0 f1 b4 b5 counts body where "buf = [b0, b1, f0, f1, b4, b5] @ counts @ body" "length counts = 6"
proof -
  have "buf = take 6 buf @ take 6 (drop 6 buf) @ drop 12 buf"
    using append_take_drop_id [of 6 buf] append_take_drop_id [of 6 "drop 6 buf"] by simp
  moreover obtain b0 b1 f0 f1 b4 b5 where "take 6 buf = [b0, b1, f0, f1, b4, b5]"
    using assms by (auto simp: numeral_eq_Suc Suc_le_length_iff)
  moreover have "length (take 6 (drop 6 buf)) = 6" using assms by simp
  ultimately show thesis using that by metis
qed

lemma split_four:
  assumes "4 \<le> length xs"
  obtains a b c d rest where "xs = [a, b, c, d] @ rest"
  using assms by (auto simp: numeral_eq_Suc Suc_le_length_iff)

definition query_of :: "16 word \<Rightarrow> byte \<Rightarrow> byte list list \<Rightarrow> 16 word \<Rightarrow> 16 word \<Rightarrow> dns_query" where
  "query_of ident flags0 labels qtype qclass =
     \<lparr>q_id = ident, q_opcode = drop_bit 3 flags0 AND 0x0F, q_rd = (flags0 AND 0x01 \<noteq> 0),
      q_qname = join ''.'' (map from_utf8_lossy labels), q_qtype = qtype, q_qclass = qclass,
      q_question_bytes = encode_question labels qtype qclass\<rparr>"

lemma parse_encoded:
  assumes counts: "length counts = 6" and ok: "list_all label_ok labels"
  shows "parse_query (to_be16 ident @ [f0, f1] @ to_be16 1 @ counts @ encode_question labels qtype qclass @ rest) =
    Some (query_of ident f0 labels qtype qclass)"
proof -
  let ?pre = "to_be16 ident @ [f0, f1] @ to_be16 1 @ counts"
  let ?tail = "to_be16 qtype @ to_be16 qclass @ rest"
  let ?buf = "to_be16 ident @ [f0, f1] @ to_be16 1 @ counts @ encode_question labels qtype qclass @ rest"
  have pre: "length ?pre = 12" using counts by simp
  have buf: "?buf = ?pre @ encode_name labels @ ?tail" by (simp add: encode_question_def)
  have labels: "read_labels ?buf 12 [] = Some (map from_utf8_lossy labels, 12 + length (encode_name labels))"
    using read_labels_encode [OF ok, of ?pre ?tail "[]"] unfolding pre buf by simp
  have header: "from_be16 (?buf ! 0) (?buf ! 1) = ident" "?buf ! 2 = f0" "from_be16 (?buf ! 4) (?buf ! 5) = 1"
    using from_to_be16 [of ident] from_to_be16 [of 1] by (simp_all add: to_be16_def)
  let ?pos = "12 + length (encode_name labels)"
  have at: "?buf ! (?pos + i) = ?tail ! i" for i
    unfolding buf using pre by (metis append.assoc length_append nth_append_length_plus)
  have type: "from_be16 (?buf ! ?pos) (?buf ! (?pos + 1)) = qtype"
    "from_be16 (?buf ! (?pos + 2)) (?buf ! (?pos + 3)) = qclass"
    using at [of 0] at [of 1] at [of 2] at [of 3] from_to_be16 [of qtype] from_to_be16 [of qclass]
    by (simp_all add: to_be16_def)
  have question: "take (?pos + 4 - 12) (drop 12 ?buf) = encode_question labels qtype qclass"
    unfolding buf using pre by (simp add: encode_question_def)
  have len: "12 \<le> length ?buf" "?pos + 4 \<le> length ?buf" unfolding buf using counts by simp_all
  from len(1) have "parse_query ?buf = Some \<lparr>q_id = ident, q_opcode = drop_bit 3 f0 AND 0x0F, q_rd = (f0 AND 0x01 \<noteq> 0),
      q_qname = join ''.'' (map from_utf8_lossy labels), q_qtype = qtype, q_qclass = qclass,
      q_question_bytes = encode_question labels qtype qclass\<rparr>"
    unfolding parse_query_def Let_def header labels option.case prod.case type question using len(2)
    by (simp only: if_not_P not_less simp_thms if_False)
  then show ?thesis by (simp only: query_of_def)
qed

lemma parse_decodes:
  assumes "parse_query buf = Some q"
  shows "\<exists>f0 f1 counts labels rest. length counts = 6 \<and> list_all label_ok labels \<and>
    buf = to_be16 (q_id q) @ [f0, f1] @ to_be16 1 @ counts @ encode_question labels (q_qtype q) (q_qclass q) @ rest \<and>
    q = query_of (q_id q) f0 labels (q_qtype q) (q_qclass q)"
proof -
  have "12 \<le> length buf" using assms by (simp add: parse_query_def split: if_splits)
  then obtain b0 b1 f0 f1 b4 b5 counts body where b: "buf = [b0, b1, f0, f1, b4, b5] @ counts @ body" "length counts = 6"
    by (rule split_header)
  have body: "drop 12 buf = body" unfolding b(1) using b(2) by simp
  from assms obtain labels p where l: "read_labels buf 12 [] = Some (labels, p)" "p + 4 \<le> length buf" "from_be16 b4 b5 = 1"
    unfolding parse_query_def by (auto simp: b(1) Let_def not_less split: if_splits option.splits)
  from read_labels_decode [OF l(1)] obtain ls where ls: "list_all label_ok ls" "p = 12 + length (encode_name ls)"
    "take (length (encode_name ls)) body = encode_name ls" unfolding body by auto
  let ?tail = "drop (length (encode_name ls)) body"
  have split: "body = encode_name ls @ ?tail" using append_take_drop_id [of "length (encode_name ls)" body] ls(3) by simp
  have "4 \<le> length ?tail" using l(2) ls(2) b by simp
  then obtain t0 t1 c0 c1 rest where tail: "?tail = [t0, t1, c0, c1] @ rest" by (rule split_four)
  have "buf = to_be16 (from_be16 b0 b1) @ [f0, f1] @ to_be16 1 @ counts @
      encode_question ls (from_be16 t0 t1) (from_be16 c0 c1) @ rest"
    unfolding b(1) encode_question_def to_from_be16 l(3) [symmetric] using split tail by simp
  moreover from parse_encoded [OF b(2) ls(1)] this have "q = query_of (from_be16 b0 b1) f0 ls (from_be16 t0 t1) (from_be16 c0 c1)"
    using assms by simp
  moreover from this have "q_id q = from_be16 b0 b1" "q_qtype q = from_be16 t0 t1" "q_qclass q = from_be16 c0 c1"
    by (simp_all add: query_of_def)
  ultimately show ?thesis using b(2) ls(1) by metis
qed

text \<open>
  C17: The server understands exactly the well-formed queries: a header with one question, whose name is a list
  of labels of 1 to 63 bytes, followed by a type and a class; whatever follows the question is ignored, and
  every other packet, truncated or with a compressed name, is dropped.
\<close>
theorem dns_parse_exact:
  "parse_query buf = Some q \<longleftrightarrow>
    (\<exists>flags0 flags1 counts labels rest. length counts = 6 \<and> list_all label_ok labels \<and>
       buf = to_be16 (q_id q) @ [flags0, flags1] @ to_be16 1 @ counts @
         encode_question labels (q_qtype q) (q_qclass q) @ rest \<and>
       q = query_of (q_id q) flags0 labels (q_qtype q) (q_qclass q))"
  using parse_decodes [of buf q] parse_encoded by metis

section \<open>Responses\<close>

lemma opcode_small: "(o' :: byte) AND 0x0F = o' \<Longrightarrow> \<exists>n<16. o' = of_nat n"
proof -
  assume o: "o' AND 0x0F = o'"
  have "unat o' < 16"
  proof -
    have "(0x0F :: byte) = mask 4" by (simp add: mask_eq_exp_minus_1)
    then have "o' = take_bit 4 o'" using o by (metis take_bit_eq_mask)
    then have "unat o' = unat o' mod 2 ^ 4" by (metis unsigned_take_bit_eq take_bit_eq_mod)
    moreover have "unat o' mod 2 ^ 4 < 16" by simp
    ultimately show ?thesis by linarith
  qed
  then show ?thesis by (intro exI [of _ "unat o'"]) simp
qed

definition response_flags :: "dns_query \<Rightarrow> ip option \<Rightarrow> byte" where
  "response_flags q a = 0x80 OR push_bit 3 (q_opcode q AND 0x0F) OR (if a \<noteq> None then 0x04 else 0) OR (if q_rd q then 0x01 else 0)"

lemma response_flags_back:
  assumes "q_opcode q AND 0x0F = q_opcode q"
  shows "drop_bit 3 (response_flags q a) AND 0x0F = q_opcode q" "(response_flags q a AND 0x01 \<noteq> 0) = q_rd q"
proof -
  from opcode_small [OF assms] obtain n where n: "n < 16" "q_opcode q = of_nat n" by blast
  then have "n \<in> {0, 1, 2, 3, 4, 5, 6, 7, 8, 9, 10, 11, 12, 13, 14, 15}"
    unfolding insert_iff empty_iff by presburger
  then show "drop_bit 3 (response_flags q a) AND 0x0F = q_opcode q" "(response_flags q a AND 0x01 \<noteq> 0) = q_rd q"
    unfolding response_flags_def n(2) by (cases "q_rd q"; cases a; auto)+
qed

definition answer_record :: "ip \<Rightarrow> byte list" where
  "answer_record a = [0xC0, 0x0C] @ to_be16 TYPE_A @ to_be16 CLASS_IN @ to_be32 ANSWER_TTL @ to_be16 4 @ map of_nat (octets a)"

definition response_counts :: "dns_query \<Rightarrow> ip option \<Rightarrow> byte list" where
  "response_counts q a = to_be16 (if answer_hit q a then 1 else 0) @ to_be16 0 @ to_be16 0"

lemma build_response_parts:
  "build_response q a = to_be16 (q_id q) @ [response_flags q a, rcode_of q a AND 0x0F] @ to_be16 1 @ response_counts q a @
     q_question_bytes q @ (if answer_hit q a then answer_record (the a) else [])"
  by (simp add: build_response_def response_flags_def response_counts_def answer_record_def Let_def)

lemma nibble_twice: "(x :: byte) AND 0x0F AND 0x0F = x AND 0x0F"
  by (simp add: and.assoc)

lemma response_parses:
  assumes "parse_query buf = Some q"
  shows "parse_query (build_response q a) = Some q"
proof -
  from parse_decodes [OF assms] obtain f0 f1 counts labels rest where
    ok: "list_all label_ok labels" and q: "q = query_of (q_id q) f0 labels (q_qtype q) (q_qclass q)" by blast
  have op: "q_opcode q AND 0x0F = q_opcode q"
  proof -
    have "q_opcode q = drop_bit 3 f0 AND 0x0F" using arg_cong [OF q, of q_opcode] by (simp add: query_of_def)
    then show ?thesis using nibble_twice by simp
  qed
  have question: "q_question_bytes q = encode_question labels (q_qtype q) (q_qclass q)"
    by (subst (1) q) (simp only: query_of_def dns_query.simps)
  have "length (response_counts q a) = 6" by (simp add: response_counts_def)
  from parse_encoded [OF this ok]
  have "parse_query (build_response q a) = Some (query_of (q_id q) (response_flags q a) labels (q_qtype q) (q_qclass q))"
    unfolding build_response_parts question by blast
  also have "query_of (q_id q) (response_flags q a) labels (q_qtype q) (q_qclass q) = q"
  proof -
    have "q_qname q = join ''.'' (map from_utf8_lossy labels)" using arg_cong [OF q, of q_qname] by (simp add: query_of_def)
    then show ?thesis
      unfolding query_of_def response_flags_back(1) [OF op] response_flags_back(2) [OF op] by (simp flip: question)
  qed
  finally show ?thesis .
qed

lemma question_length: "parse_query buf = Some q \<Longrightarrow> length (q_question_bytes q) + 12 \<le> length buf"
  by (auto simp: parse_query_def Let_def not_less split: if_splits option.splits)

text \<open>
  C18: What the server answers is a response to the question that was asked: read back, it has the query's
  identifier, opcode, name, type and class and is marked as a response; its only answer, present exactly for an
  address query of a name it knows, ends with that name's address; it is at most 16 bytes longer than the query;
  and a server with an upstream answers only the names it knows.
\<close>
theorem dns_answers_the_question:
  assumes "serve_packet answer_for upstream packet = Answered resp"
  shows "\<exists>q. parse_query (take 512 packet) = Some q \<and> parse_query resp = Some q \<and>
    bit (resp ! 2) 7 \<and> length resp \<le> length packet + 16 \<and> length resp \<le> 528 \<and>
    (let a = answer_for (to_lowercase (q_qname q)) in
       (upstream \<longrightarrow> a \<noteq> None) \<and>
       from_be16 (resp ! 6) (resp ! 7) = (if a \<noteq> None \<and> q_qtype q = TYPE_A \<and> q_qclass q = CLASS_IN then 1 else 0) \<and>
       (a \<noteq> None \<and> q_qtype q = TYPE_A \<and> q_qclass q = CLASS_IN \<longrightarrow>
          drop (length resp - 4) resp = map of_nat (octets (the a))))"
proof -
  from assms obtain q where q: "parse_query (take 512 packet) = Some q"
    and resp: "resp = build_response q (answer_for (to_lowercase (q_qname q)))"
    and up: "upstream \<longrightarrow> answer_for (to_lowercase (q_qname q)) \<noteq> None"
    by (auto simp: serve_packet_def Let_def split: option.splits if_splits)
  let ?a = "answer_for (to_lowercase (q_qname q))"
  have parts: "resp = to_be16 (q_id q) @ [response_flags q ?a, rcode_of q ?a AND 0x0F] @ to_be16 1 @ response_counts q ?a @
     q_question_bytes q @ (if answer_hit q ?a then answer_record (the ?a) else [])"
    unfolding resp build_response_parts ..
  have rec: "length (answer_record x) = 16" for x by (simp add: answer_record_def octets_def Let_def)
  have "length resp = 12 + length (q_question_bytes q) + (if answer_hit q ?a then 16 else 0)"
    unfolding parts by (simp add: response_counts_def rec)
  moreover note question_length [OF q]
  ultimately have len: "length resp \<le> length packet + 16" "length resp \<le> 528" by (simp_all split: if_splits)
  have flags: "resp ! 2 = response_flags q ?a" unfolding parts by (simp add: to_be16_def)
  have "bit (response_flags q ?a) 7" by (simp add: response_flags_def bit_or_iff)
  then have qr: "bit (resp ! 2) 7" unfolding flags .
  have at: "resp ! 6 = response_counts q ?a ! 0" "resp ! 7 = response_counts q ?a ! 1"
    unfolding parts by (simp_all add: to_be16_def response_counts_def)
  have counts: "from_be16 (resp ! 6) (resp ! 7) = (if answer_hit q ?a then 1 else 0)"
    using from_to_be16 [of "if answer_hit q ?a then 1 else 0"] unfolding at response_counts_def
    by (simp add: to_be16_def)
  have last: "drop (length resp - 4) resp = map of_nat (octets (the ?a))" if "answer_hit q ?a"
  proof -
    have "\<exists>front. resp = front @ map of_nat (octets (the ?a))"
      by (rule exI [of _ "to_be16 (q_id q) @ [response_flags q ?a, rcode_of q ?a AND 0x0F] @ to_be16 1 @ response_counts q ?a @
        q_question_bytes q @ [0xC0, 0x0C] @ to_be16 TYPE_A @ to_be16 CLASS_IN @ to_be32 ANSWER_TTL @ to_be16 4"])
        (subst parts, simp only: answer_record_def that if_True append_assoc)
    then obtain front where "resp = front @ map of_nat (octets (the ?a))" ..
    moreover have "length (octets (the ?a)) = 4" by (simp add: octets_def Let_def)
    ultimately show ?thesis by simp
  qed
  have again: "parse_query resp = Some q" unfolding resp by (rule response_parses [OF q])
  show ?thesis
  proof (intro exI conjI)
    show "let a = ?a in (upstream \<longrightarrow> a \<noteq> None) \<and>
       from_be16 (resp ! 6) (resp ! 7) = (if a \<noteq> None \<and> q_qtype q = TYPE_A \<and> q_qclass q = CLASS_IN then 1 else 0) \<and>
       (a \<noteq> None \<and> q_qtype q = TYPE_A \<and> q_qclass q = CLASS_IN \<longrightarrow>
          drop (length resp - 4) resp = map of_nat (octets (the a)))"
      using up counts last unfolding Let_def answer_hit_def by blast
  qed (fact q again qr len)+
qed

definition sample_packet :: "byte list" where
  "sample_packet = to_be16 7 @ [1, 0] @ to_be16 1 @ replicate 6 0 @
     encode_question [[100, 98], map of_nat [102, 103, 104, 106], map of_nat [105, 110, 116, 101, 114, 110, 97, 108]] TYPE_A CLASS_IN @ []"

theorem dns_answers_the_question_witness:
  "\<exists>resp q. serve_packet (\<lambda>_. Some PROXY_IP) True sample_packet = Answered resp \<and> parse_query resp = Some q"
proof -
  have short: "take 512 sample_packet = sample_packet"
    by (simp add: sample_packet_def encode_question_def encode_name_def)
  have "\<exists>q. parse_query sample_packet = Some q"
    unfolding sample_packet_def by (rule exI, rule parse_encoded) (simp_all add: label_ok_def)
  then obtain q where "parse_query sample_packet = Some q" ..
  then obtain resp where "serve_packet (\<lambda>_. Some PROXY_IP) True sample_packet = Answered resp"
    by (simp add: serve_packet_def short Let_def)
  from dns_answers_the_question [OF this] this show ?thesis by blast
qed

end
