(* ===== verification/Config.thy ===== *)
theory Config
  imports Rust_Strings
begin

text \<open>
  What a \<open>.fghj.yaml\<close> says (\<open>src/resolver/config.rs\<close>, \<open>service.rs\<close>, \<open>dependency.rs\<close>,
  \<open>port.rs\<close>, \<open>volume.rs\<close>, \<open>name.rs\<close>, \<open>version.rs\<close>, \<open>build_source.rs\<close>,
  \<open>repo_url.rs\<close>, \<open>warning.rs\<close>). Parsing YAML is the crate \<open>serde_yaml\<close> and is not
  modelled: the values start where serde's end, with \<open>parse_name\<close> and \<open>parse_version\<close> as the
  checks its custom deserializers run. Message texts are byte strings; \<open>em_dash\<close> is the UTF-8 dash.
\<close>

definition em_dash :: string where
  "em_dash = [CHR 0xE2, CHR 0x80, CHR 0x94]"

section \<open>Warnings (warning.rs)\<close>

datatype severity = Blocking | Advisory

record warning =
  w_severity :: severity
  w_message :: string

definition blocking :: "string \<Rightarrow> warning" where
  "blocking m = \<lparr>w_severity = Blocking, w_message = m\<rparr>"

definition advisory :: "string \<Rightarrow> warning" where
  "advisory m = \<lparr>w_severity = Advisory, w_message = m\<rparr>"

definition is_blocking :: "warning \<Rightarrow> bool" where
  "is_blocking w = (w_severity w = Blocking)"

section \<open>Names and versions (name.rs, version.rs)\<close>

definition why_invalid :: "string \<Rightarrow> string option" where
  "why_invalid s =
     (if s = [] then Some ''a name cannot be empty''
      else case find is_upper s of
        Some c \<Rightarrow> Some ([CHR 0x27, c, CHR 0x27] @ '' is uppercase; names are lowercase because they become DNS labels, which are case-insensitive'')
      | None \<Rightarrow>
          (case find (\<lambda>c. \<not> (is_lower c \<or> is_digit c \<or> c = CHR ''-'')) s of
             Some c \<Rightarrow> Some ([CHR 0x27, c, CHR 0x27] @ '' is not allowed; names may contain only lowercase letters, digits and dashes'')
           | None \<Rightarrow> if starts_with s ''-'' then Some ''a name cannot start with a dash'' else None))"

definition quoted :: "string \<Rightarrow> string" where
  "quoted s = [CHR 0x27] @ s @ [CHR 0x27]"

definition parse_name :: "string \<Rightarrow> string + string" where
  "parse_name s =
     (case why_invalid s of
        Some why \<Rightarrow> Inl (''invalid name '' @ quoted s @ '': '' @ why)
      | None \<Rightarrow> Inr s)"

record version =
  v_major :: "32 word"
  v_minor :: "32 word"

definition SCHEMA_VERSION :: version where
  "SCHEMA_VERSION = \<lparr>v_major = 2, v_minor = 0\<rparr>"

definition show_version :: "version \<Rightarrow> string" where
  "show_version v = show_nat (unat (v_major v)) @ ''.'' @ show_nat (unat (v_minor v))"

definition parse_version :: "string \<Rightarrow> string + version" where
  "parse_version s =
     (case split_once s (CHR ''.'') of
        None \<Rightarrow> Inl (''version '' @ quoted s @ '' is not major.minor (expected something like '' @ [CHR 0x22] @ ''2.0'' @ [CHR 0x22] @ '')'')
      | Some (major, minor) \<Rightarrow>
          (case parse_u32 major of
             None \<Rightarrow> Inl (''version '' @ quoted s @ '' has a non-numeric major version ('' @ quoted major @ '')'')
           | Some ma \<Rightarrow>
               (case parse_u32 minor of
                  None \<Rightarrow> Inl (''version '' @ quoted s @ '' has a non-numeric minor version ('' @ quoted minor @ '')'')
                | Some mi \<Rightarrow>
                    if ma \<noteq> v_major SCHEMA_VERSION
                    then Inl (''version '' @ quoted s @ '' is not supported: this fghj understands '' @
                           show_nat (unat (v_major SCHEMA_VERSION)) @ ''.x. A different major version means this file says something this build would read differently, so it is refused rather than guessed at'')
                    else Inr \<lparr>v_major = ma, v_minor = mi\<rparr>)))"

definition is_newer_minor_than_supported :: "version \<Rightarrow> bool" where
  "is_newer_minor_than_supported v = (v_minor SCHEMA_VERSION < v_minor v)"

section \<open>Dependencies (dependency.rs)\<close>

datatype dep_condition = ServiceStarted | ServiceHealthy | ServiceCompletedSuccessfully

fun condition_str :: "dep_condition \<Rightarrow> string" where
  "condition_str ServiceStarted = ''service_started''"
| "condition_str ServiceHealthy = ''service_healthy''"
| "condition_str ServiceCompletedSuccessfully = ''service_completed_successfully''"

record depends_on_entry =
  de_condition :: dep_condition
  de_required :: bool

definition default_entry :: depends_on_entry where
  "default_entry = \<lparr>de_condition = ServiceStarted, de_required = True\<rparr>"

datatype depends_on =
    DependsList "string list"
  | DependsMap "(string, depends_on_entry option) btree"

fun depends_entries :: "depends_on \<Rightarrow> (string \<times> depends_on_entry) list" where
  "depends_entries (DependsList names) = map (\<lambda>n. (n, default_entry)) names"
| "depends_entries (DependsMap m) =
     map (\<lambda>(n, e). (n, case e of None \<Rightarrow> default_entry | Some e \<Rightarrow> e)) m"

datatype target = Bare string | Qualified string string

definition parse_target :: "string \<Rightarrow> target" where
  "parse_target s =
     (case split_once s (CHR ''/'') of Some (alias, name) \<Rightarrow> Qualified alias name | None \<Rightarrow> Bare s)"

section \<open>Ports, volumes, hosts (port.rs, volume.rs)\<close>

record port_config =
  pc_primary :: bool
  pc_name :: "string option"
  pc_host_port :: "16 word option"
  pc_wildcard :: bool

definition default_port_config :: port_config where
  "default_port_config = \<lparr>pc_primary = False, pc_name = None, pc_host_port = None, pc_wildcard = False\<rparr>"

datatype backing_ports = PortList "string list" | PortMap "(string, port_config) btree"

fun ports_into_map :: "backing_ports \<Rightarrow> (string, port_config) btree" where
  "ports_into_map (PortList l) = bt_of_list (map (\<lambda>p. (p, default_port_config)) l)"
| "ports_into_map (PortMap m) = m"

datatype volume_mount =
    BindMount string string bool
  | NamedVolume string string bool bool

datatype host_alias = BareHost string | DetailedHost string bool

fun alias_host :: "host_alias \<Rightarrow> string" where
  "alias_host (BareHost h) = h"
| "alias_host (DetailedHost h _) = h"

fun alias_wildcard :: "host_alias \<Rightarrow> bool" where
  "alias_wildcard (BareHost _) = False"
| "alias_wildcard (DetailedHost _ w) = w"

section \<open>Services and components (config.rs, service.rs)\<close>

record build_secret =
  bs_id :: string
  bs_file :: string

record build =
  b_context :: string
  b_dockerfile :: string
  b_dockerfile_inline :: "string option"
  b_args :: "(string, string) btree"
  b_target :: "string option"
  b_ssh :: bool
  b_secrets :: "build_secret list"

definition default_context :: string where "default_context = ''.''"
definition default_dockerfile :: string where "default_dockerfile = ''Dockerfile''"
definition default_restart :: string where "default_restart = ''no''"
definition default_stop_grace_period :: nat where "default_stop_grace_period = 10"
definition default_run_policy :: string where "default_run_policy = ''on_start''"

record healthcheck =
  hc_test :: "string list"
  hc_interval :: "nat option"
  hc_timeout :: "nat option"
  hc_start_period :: "nat option"
  hc_retries :: "nat option"

datatype environment = EnvMap "(string, string) btree" | EnvList "string list"

fun env_pairs :: "environment \<Rightarrow> string list" where
  "env_pairs (EnvMap m) = map (\<lambda>(k, v). k @ ''='' @ v) m"
| "env_pairs (EnvList l) = l"

record service_config =
  sc_build :: "build option"
  sc_image :: "string option"
  sc_ports :: backing_ports
  sc_environment :: environment
  sc_env_file :: "string list"
  sc_command :: "string list"
  sc_volumes :: "volume_mount list"
  sc_additional_hosts :: "host_alias list"
  sc_restart :: "string option"
  sc_stop_signal :: "string option"
  sc_stop_grace_period :: nat
  sc_user :: "string option"
  sc_working_dir :: "string option"
  sc_labels :: "(string, string) btree"
  sc_cap_add :: "string list"
  sc_cap_drop :: "string list"
  sc_privileged :: bool
  sc_extra_hosts :: "string list"
  sc_healthcheck :: "healthcheck option"
  sc_platform :: "string option"
  sc_debug :: "16 word option"
  sc_run :: "string option"
  sc_migrates :: "string option"
  sc_seeds :: "string list"
  sc_depends_on :: depends_on

definition restart_or_default :: "service_config \<Rightarrow> string" where
  "restart_or_default s = (case sc_restart s of None \<Rightarrow> default_restart | Some r \<Rightarrow> r)"

datatype include_config = IncludeUrl string | IncludeDetailed string "string option"

fun include_repo :: "include_config \<Rightarrow> string" where
  "include_repo (IncludeUrl r) = r"
| "include_repo (IncludeDetailed r _) = r"

fun include_branch :: "include_config \<Rightarrow> string option" where
  "include_branch (IncludeUrl _) = None"
| "include_branch (IncludeDetailed _ b) = b"

record component_config =
  cc_version :: version
  cc_include :: "(string, include_config) btree"
  cc_services :: "(string, service_config) btree"
  cc_flows :: "(string, string list) btree"

section \<open>Git URLs (repo_url.rs, build_source.rs)\<close>

definition rsplit_last :: "(char \<Rightarrow> bool) \<Rightarrow> string \<Rightarrow> string" where
  "rsplit_last P s = last (split_on s P)"

definition repo_name_from_url :: "string \<Rightarrow> string" where
  "repo_name_from_url repo = trim_end_str (rsplit_last (\<lambda>c. c = CHR ''/'') repo) ''.git''"

definition strip_first_prefix :: "string list \<Rightarrow> string \<Rightarrow> string" where
  "strip_first_prefix prefixes u =
     (case find_map (strip_prefix u) prefixes of Some rest \<Rightarrow> rest | None \<Rightarrow> u)"

definition replace_first_colon :: "string \<Rightarrow> string" where
  "replace_first_colon s = (case split_once s (CHR '':'') of Some (a, b) \<Rightarrow> a @ ''/'' @ b | None \<Rightarrow> s)"

definition trim_end_slash :: "string \<Rightarrow> string" where
  "trim_end_slash s = rev (dropWhile (\<lambda>c. c = CHR ''/'') (rev s))"

definition normalize_repo_url :: "string \<Rightarrow> string" where
  "normalize_repo_url repo =
     (let u = strip_first_prefix [''ssh://'', ''https://'', ''http://''] (trim repo);
          u' = (case strip_prefix u ''git@'' of Some rest \<Rightarrow> replace_first_colon rest | None \<Rightarrow> u)
      in to_lowercase (trim_end_slash (trim_end_str u' ''.git'')))"

record remote_context =
  rc_url :: string
  rc_reference :: "string option"
  rc_subdir :: "string option"

definition SOURCES_DIR :: string where "SOURCES_DIR = ''_fghj_sources''"

definition is_remote :: "string \<Rightarrow> bool" where
  "is_remote context = list_ex (starts_with context) [''https://'', ''http://'', ''ssh://'', ''git@'', ''file://'']"

definition non_empty :: "string \<Rightarrow> string option" where
  "non_empty s = (if s \<noteq> [] then Some s else None)"

definition parse_remote :: "string \<Rightarrow> remote_context option" where
  "parse_remote context =
     (if \<not> is_remote context then None
      else let (url, fragment) = (case split_once context (CHR ''#'') of Some p \<Rightarrow> p | None \<Rightarrow> (context, []));
               (reference, subdir) = (case split_once fragment (CHR '':'') of Some p \<Rightarrow> p | None \<Rightarrow> (fragment, []))
           in Some \<lparr>rc_url = url, rc_reference = non_empty reference,
                    rc_subdir = non_empty (trim_matches subdir (\<lambda>c. c = CHR ''/''))\<rparr>)"

definition source_path :: "string \<Rightarrow> string option \<Rightarrow> string" where
  "source_path url reference =
     (let name = trim_end_str (rsplit_last (\<lambda>c. c = CHR ''/'' \<or> c = CHR '':'') (trim_end_slash url)) ''.git''
      in case reference of
           Some r \<Rightarrow> SOURCES_DIR @ ''/'' @ name @ ''@'' @ map (\<lambda>c. if c = CHR ''/'' then CHR ''-'' else c) r
         | None \<Rightarrow> SOURCES_DIR @ ''/'' @ name)"

definition looks_like_commit :: "string \<Rightarrow> bool" where
  "looks_like_commit reference = (7 \<le> length reference \<and> length reference \<le> 40 \<and> list_all is_hexdigit reference)"

definition subdir_is_contained :: "string \<Rightarrow> bool" where
  "subdir_is_contained subdir =
     (\<not> starts_with subdir ''/'' \<and> \<not> list_ex (\<lambda>seg. seg = ''..'') (split_char subdir (CHR ''/'')))"

end
