(* ===== verification/Graph.thy ===== *)
theory Graph
  imports Config
begin

text \<open>
  The resolved graph (\<open>src/resolver/graph.rs\<close>): nodes, edges, the closure over what a node needs
  to start, and migrations. \<open>worklist\<close> is the loop the source writes three times: a stack of nodes
  to look at and the set of those found.
\<close>

record build_source =
  bsrc_url :: string
  bsrc_reference :: "string option"
  bsrc_path :: string
  bsrc_downloaded :: bool
  bsrc_head :: "string option"
  bsrc_dirty :: bool

record node_build =
  nb_context :: string
  nb_dockerfile :: string
  nb_dockerfile_inline :: "string option"
  nb_source :: "build_source option"
  nb_args :: "(string, string) btree"
  nb_target :: "string option"
  nb_ssh :: bool
  nb_secrets :: "build_secret list"

record node =
  n_id :: string
  n_label :: string
  n_kind :: string
  n_image :: "string option"
  n_branch :: "string option"
  n_repo :: "string option"
  n_local_path :: "string option"
  n_domain :: string
  n_downloaded :: bool
  n_dirty :: bool
  n_head :: "string option"
  n_flows :: "string list"
  n_includes :: "(string, string) btree"
  n_build :: "node_build option"
  n_ports :: "(string, port_config) btree"
  n_environment :: "string list"
  n_command :: "string list"
  n_volumes :: "volume_mount list"
  n_additional_hosts :: "string list"
  n_wildcard_hosts :: "string list"
  n_env_file :: "string list"
  n_restart :: string
  n_stop_signal :: "string option"
  n_stop_grace_period :: nat
  n_user :: "string option"
  n_working_dir :: "string option"
  n_labels :: "(string, string) btree"
  n_cap_add :: "string list"
  n_cap_drop :: "string list"
  n_privileged :: bool
  n_extra_hosts :: "string list"
  n_healthcheck :: "healthcheck option"
  n_platform :: "string option"
  n_run_policy :: "string option"
  n_migrates :: "string option"
  n_seeds :: "string list"
  n_debug :: "16 word option"

record checkout =
  ck_branch :: "string option"
  ck_head :: "string option"
  ck_dirty :: bool

definition build_checkout :: "node \<Rightarrow> checkout option" where
  "build_checkout n =
     map_option (\<lambda>b. case nb_source b of
         Some src \<Rightarrow> \<lparr>ck_branch = bsrc_reference src, ck_head = bsrc_head src, ck_dirty = bsrc_dirty src\<rparr>
       | None \<Rightarrow> \<lparr>ck_branch = n_branch n, ck_head = n_head n, ck_dirty = n_dirty n\<rparr>) (n_build n)"

record edge =
  e_from :: string
  e_to :: string
  e_kind :: string
  e_required :: bool
  e_condition :: "string option"
  e_via_flow :: "string option"
  e_flows :: "string list"
  e_implied :: bool

definition needed_to_start :: "edge \<Rightarrow> bool" where
  "needed_to_start e = (e_kind e = ''depends-on'' \<and> e_required e)"

record graph =
  g_workspace_name :: string
  g_nodes :: "node list"
  g_edges :: "edge list"
  g_flows :: "string list"
  g_warnings :: "warning list"

section \<open>The worklist\<close>

type_synonym 'a pairs = "('a \<times> 'a) list"

definition push_next :: "'a \<Rightarrow> 'a \<times> 'a \<Rightarrow> 'a set \<times> 'a list \<Rightarrow> 'a set \<times> 'a list" where
  "push_next current p acc =
     (if fst p = current \<and> snd p \<notin> fst acc then (insert (snd p) (fst acc), snd acc @ [snd p]) else acc)"

text \<open>What is left to find, and the length of the stack, bound the loop.\<close>

definition unseen_targets :: "'a pairs \<Rightarrow> 'a set \<Rightarrow> nat" where
  "unseen_targets ps seen = card (snd ` set ps - seen)"

lemma push_next_measure:
  assumes "p \<in> set ps"
  shows "unseen_targets ps (fst (push_next current p acc)) < unseen_targets ps (fst acc) \<or>
    push_next current p acc = acc"
proof (cases "fst p = current \<and> snd p \<notin> fst acc")
  case True
  have "snd ` set ps - insert (snd p) (fst acc) \<subset> snd ` set ps - fst acc"
    using assms True by auto
  then have "card (snd ` set ps - insert (snd p) (fst acc)) < card (snd ` set ps - fst acc)"
    by (intro psubset_card_mono) auto
  with True show ?thesis by (simp add: push_next_def unseen_targets_def)
next
  case False
  then have "push_next current p acc = acc" by (auto simp: push_next_def)
  then show ?thesis by simp
qed

lemma push_all_measure:
  "set qs \<subseteq> set ps \<Longrightarrow>
     unseen_targets ps (fst (fold (push_next current) qs acc)) < unseen_targets ps (fst acc) \<or>
     fold (push_next current) qs acc = acc"
proof (induction qs arbitrary: acc)
  case (Cons q qs)
  from Cons.prems have q: "q \<in> set ps" "set qs \<subseteq> set ps" by auto
  note IH = Cons.IH [OF q(2), of "push_next current q acc"]
  from push_next_measure [OF q(1), of current acc] show ?case
  proof
    assume "unseen_targets ps (fst (push_next current q acc)) < unseen_targets ps (fst acc)"
    with IH show ?thesis by (metis fold_simps(2) order_less_trans)
  next
    assume "push_next current q acc = acc"
    with IH show ?thesis by simp
  qed
qed simp

function worklist :: "'a pairs \<Rightarrow> 'a set \<Rightarrow> 'a list \<Rightarrow> 'a set" where
  "worklist ps seen queue =
     (if queue = [] then seen
      else let acc = fold (push_next (last queue)) ps (seen, butlast queue)
           in worklist ps (fst acc) (snd acc))"
  by pat_completeness auto
termination
proof (relation "inv_image (less_than <*lex*> less_than) (\<lambda>(ps, seen, queue). (unseen_targets ps seen, length queue))", goal_cases)
  case 1
  show ?case by (intro wf_inv_image wf_lex_prod wf_less_than)
next
  case (2 ps seen queue acc)
  then show ?case
    using push_all_measure [of ps ps "last queue" "(seen, butlast queue)"]
    by (cases "fold (push_next (last queue)) ps (seen, butlast queue)") auto
qed

declare worklist.simps [simp del]

definition needed_pairs :: "edge list \<Rightarrow> string pairs" where
  "needed_pairs edges = map (\<lambda>e. (e_from e, e_to e)) (filter needed_to_start edges)"

definition required_closure :: "edge list \<Rightarrow> string set \<Rightarrow> string set" where
  "required_closure edges seeds = worklist (needed_pairs edges) seeds (sorted_list_of_set seeds)"

section \<open>Migrations\<close>

definition missing_migrations :: "node list \<Rightarrow> string set \<Rightarrow> string set" where
  "missing_migrations nodes start =
     n_id ` set (filter (\<lambda>n. (case n_migrates n of None \<Rightarrow> False | Some s \<Rightarrow> s \<in> start) \<and> n_id n \<notin> start) nodes)"

definition needed :: "edge list \<Rightarrow> (string \<times> string) set" where
  "needed edges = set (needed_pairs edges)"

lemma fold_push_fst: "fst acc \<subseteq> fst (fold (push_next c) qs acc)"
proof (induction qs arbitrary: acc)
  case (Cons q qs)
  have "fst acc \<subseteq> fst (push_next c q acc)" by (auto simp: push_next_def)
  with Cons.IH [of "push_next c q acc"] show ?case by auto
qed simp

lemma worklist_seen: "seen \<subseteq> worklist ps seen queue"
proof (induction ps seen queue rule: worklist.induct)
  case (1 ps seen queue)
  show ?case
  proof (cases "queue = []")
    case True
    then show ?thesis by (simp add: worklist.simps)
  next
    case False
    then show ?thesis
      using 1 [OF False refl] fold_push_fst [of "(seen, butlast queue)" "last queue" ps]
      by (subst worklist.simps) (auto simp: Let_def)
  qed
qed

lemma required_closure_seeds: "seeds \<subseteq> required_closure edges seeds"
  by (simp add: required_closure_def worklist_seen)

function add_migrations :: "node list \<Rightarrow> edge list \<Rightarrow> string set \<Rightarrow> string set" where
  "add_migrations nodes edges start =
     (let missing = missing_migrations nodes start
      in if missing = {} then start
         else add_migrations nodes edges (start \<union> required_closure edges missing))"
  by pat_completeness auto
termination
proof (relation "measure (\<lambda>(nodes, edges, start). card (n_id ` set nodes - start))", goal_cases)
  case 1
  show ?case by simp
next
  case (2 nodes edges start missing)
  then obtain x where x: "x \<in> missing" by auto
  have "x \<in> required_closure edges missing" using x required_closure_seeds by blast
  moreover have "x \<in> n_id ` set nodes - start" using x 2 by (auto simp: missing_migrations_def)
  ultimately have "n_id ` set nodes - (start \<union> required_closure edges missing) \<subset> n_id ` set nodes - start"
    by auto
  then show ?case by (simp add: psubset_card_mono)
qed

declare add_migrations.simps [simp del]

section \<open>What a start covers\<close>

definition with_migrations :: "graph \<Rightarrow> string list \<Rightarrow> string list" where
  "with_migrations g ids =
     (let start = add_migrations (g_nodes g) (g_edges g) (set ids)
      in ids @ filter (\<lambda>i. i \<notin> set ids) (sorted_list_of_set start))"

definition start_ids :: "graph \<Rightarrow> string option \<Rightarrow> string + string list" where
  "start_ids g flow =
     (case flow of
        None \<Rightarrow> Inr (map n_id (g_nodes g))
      | Some f \<Rightarrow>
          if f \<notin> set (g_flows g)
          then Inl (''no flow named '' @ quoted f @ '' '' @ em_dash @ '' flows are written `{repo}/{flow}`; this workspace has: '' @
                 (if g_flows g = [] then ''none'' else join '', '' (g_flows g)))
          else Inr (map n_id (filter (\<lambda>n. f \<in> set (n_flows n)) (g_nodes g))))"

definition start_advisories :: "graph \<Rightarrow> string list \<Rightarrow> string list" where
  "start_advisories g ids =
     map (\<lambda>(from, to). quoted from @ '' needs '' @ quoted to @ '' at runtime, but this run doesn'' @ [CHR 0x27] @ ''t start it'')
       (sorted_dedup (map (\<lambda>e. (e_from e, case e_via_flow e of Some f \<Rightarrow> f | None \<Rightarrow> e_to e))
         (filter (\<lambda>e. e_from e \<in> set ids \<and> e_to e \<notin> set ids)
           (filter (\<lambda>e. e_kind e = ''depends-on'' \<and> \<not> e_required e) (g_edges g)))))"

definition blocking_warnings :: "graph \<Rightarrow> warning list" where
  "blocking_warnings g = filter is_blocking (g_warnings g)"

definition refuse_if_blocked :: "graph \<Rightarrow> string + unit" where
  "refuse_if_blocked g =
     (let bs = blocking_warnings g in
      if bs = [] then Inr ()
      else Inl (''refusing to start: the workspace has '' @ show_nat (length bs) @
                '' unresolved configuration '' @ (if length bs = 1 then ''problem'' else ''problems'') @ '':'' @ [CHR 0x0A] @
                join [CHR 0x0A] (map (\<lambda>w. ''  - '' @ w_message w) bs)))"

end
