(* ===== verification/Naming.thy ===== *)
theory Naming
  imports Graph
begin

text \<open>
  Names derived from node ids: Docker labels (\<open>src/util/label.rs\<close>), domains, container, network and
  volume names (\<open>src/orchestrator/domain.rs\<close>, \<open>naming.rs\<close>), node ids and references
  (\<open>src/resolver/visit.rs\<close>), and the FQDN templates of environment values
  (\<open>src/orchestrator/fqdn_template.rs\<close>).
\<close>

section \<open>Labels, domains, Docker names\<close>

definition push_label_char :: "char \<Rightarrow> string \<Rightarrow> string" where
  "push_label_char c out =
     (if is_alnum c then out @ [c]
      else if ends_with out ''-'' then out else out @ ''-'')"

definition sanitize_label :: "string \<Rightarrow> string" where
  "sanitize_label s = trim_matches (fold push_label_char (to_lowercase s) []) (\<lambda>c. c = CHR ''-'')"

datatype domain_zone = Http | Raw

fun zone_suffix :: "domain_zone \<Rightarrow> string" where
  "zone_suffix Http = ''fghj.internal''"
| "zone_suffix Raw = ''fghj.raw.internal''"

definition derive_domain :: "string \<Rightarrow> string \<Rightarrow> domain_zone \<Rightarrow> string" where
  "derive_domain node workspace_name zone =
     node @ ''.'' @ sanitize_label workspace_name @ ''.'' @ zone_suffix zone"

definition network_name :: "string \<Rightarrow> string" where
  "network_name workspace_name = ''fghj-'' @ sanitize_label workspace_name @ ''-default''"

definition container_name :: "string \<Rightarrow> string \<Rightarrow> string" where
  "container_name workspace_name node =
     ''fghj-'' @ sanitize_label workspace_name @ ''-default-'' @ sanitize_label node"

definition sidecar_name :: "string \<Rightarrow> string" where
  "sidecar_name workspace_name = ''fghj-'' @ sanitize_label workspace_name @ ''-default-sidecar''"

definition derive_volume_name :: "string \<Rightarrow> string option \<Rightarrow> string \<Rightarrow> string" where
  "derive_volume_name name owner workspace_name =
     (let key = (case owner of Some owner \<Rightarrow> name @ ''.'' @ owner | None \<Rightarrow> name)
      in ''fghj-vol-'' @ sanitize_label (derive_domain key workspace_name Http))"

section \<open>Node ids and references\<close>

definition node_id_of :: "string \<Rightarrow> string \<Rightarrow> string" where
  "node_id_of name local_path = name @ ''.'' @ local_path"

definition reference_target_id :: "string \<Rightarrow> (string, string) btree \<Rightarrow> string \<Rightarrow> string option" where
  "reference_target_id local_path includes path =
     (case parse_target path of
        Bare name \<Rightarrow> Some (node_id_of name local_path)
      | Qualified alias name \<Rightarrow> map_option (\<lambda>t. node_id_of name t) (map_of includes alias))"

section \<open>FQDN templates\<close>

definition TOKEN_RAW :: string where "TOKEN_RAW = ''${FGHJ_SERVICE_FQDN''"
definition TOKEN_HTTP :: string where "TOKEN_HTTP = ''${FGHJ_SERVICE_FQDN_HTTP''"

lemma find_str_bound: "find_str s p = Some i \<Longrightarrow> i + length p \<le> length s"
proof (induction s arbitrary: i)
  case (Cons c s)
  show ?case
  proof (cases "strip_prefix (c # s) p")
    case None
    with Cons show ?thesis by auto
  next
    case (Some r)
    then have "c # s = p @ r" by (simp add: strip_prefix_Some)
    then have "length (c # s) = length p + length r" by (metis length_append)
    with Some Cons.prems show ?thesis by simp
  qed
qed (auto split: if_splits)

definition find_char :: "string \<Rightarrow> char \<Rightarrow> nat option" where
  "find_char s c = find_str s [c]"

function fqdn_template_paths :: "string \<Rightarrow> string list" where
  "fqdn_template_paths rest =
     (case find_str rest TOKEN_RAW of
        None \<Rightarrow> []
      | Some start \<Rightarrow>
          (let after_token = drop (start + length TOKEN_RAW) rest;
               after = (case strip_prefix after_token ''_HTTP'' of Some r \<Rightarrow> r | None \<Rightarrow> after_token)
           in case find_char after (CHR ''}'') of
                None \<Rightarrow> []
              | Some e \<Rightarrow>
                  (case strip_prefix (take e after) '':'' of Some path \<Rightarrow> [path] | None \<Rightarrow> []) @
                  fqdn_template_paths (drop (Suc e) after)))"
  by pat_completeness auto
termination
proof (relation "measure length", goal_cases)
  case (2 rest start after_token after e)
  then have s: "start + length TOKEN_RAW \<le> length rest" by (simp add: find_str_bound)
  have "length after \<le> length after_token"
    unfolding 2(3) using strip_prefix_length [of after_token "''_HTTP''"] by (auto split: option.splits)
  then have "length after < length rest" using 2 s by (simp add: TOKEN_RAW_def)
  then show ?case by simp
qed simp

declare fqdn_template_paths.simps [simp del]

definition sibling_domain :: "node \<Rightarrow> string \<Rightarrow> graph \<Rightarrow> domain_zone \<Rightarrow> string option" where
  "sibling_domain n path g zone =
     (case n_local_path n of
        None \<Rightarrow> None
      | Some local_path \<Rightarrow>
          (case reference_target_id local_path (n_includes n) path of
             None \<Rightarrow> None
           | Some i \<Rightarrow>
               map_option (\<lambda>sib. derive_domain (n_id sib) (g_workspace_name g) zone)
                 (find (\<lambda>m. n_id m = i) (g_nodes g))))"

function expand_templates :: "(string \<Rightarrow> domain_zone \<Rightarrow> string option) \<Rightarrow> string \<Rightarrow> string \<Rightarrow> string \<Rightarrow> string" where
  "expand_templates sibling own_raw own_http rest =
     (case find_str rest TOKEN_RAW of
        None \<Rightarrow> rest
      | Some start \<Rightarrow>
          (let at = drop start rest;
               http = starts_with at TOKEN_HTTP;
               token_len = (if http then length TOKEN_HTTP else length TOKEN_RAW);
               zone = (if http then Http else Raw);
               own_domain = (if http then own_http else own_raw)
           in case find_char at (CHR ''}'') of
                None \<Rightarrow> rest
              | Some end_rel \<Rightarrow>
                  (let inner = drop token_len (take end_rel at);
                       resolved = (case strip_prefix inner '':'' of
                                     None \<Rightarrow> Some own_domain
                                   | Some name \<Rightarrow> sibling name zone)
                   in take start rest @
                      (case resolved of Some domain \<Rightarrow> domain | None \<Rightarrow> take (Suc end_rel) at) @
                      expand_templates sibling own_raw own_http (drop (Suc end_rel) at))))"
  by pat_completeness auto
termination
proof (relation "measure (\<lambda>(_, _, _, rest). length rest)", goal_cases)
  case (2 sibling own_raw own_http rest start at http token_len zone own_domain end_rel inner resolved)
  then have "end_rel + 1 \<le> length at" using find_str_bound [of at "[CHR ''}'']"] by (simp add: find_char_def)
  with 2 show ?case by simp
qed simp

declare expand_templates.simps [simp del]

definition expand_service_fqdn_templates :: "string \<Rightarrow> node \<Rightarrow> string \<Rightarrow> string \<Rightarrow> graph \<Rightarrow> string" where
  "expand_service_fqdn_templates val n own_raw_domain own_http_domain g =
     expand_templates (\<lambda>path zone. sibling_domain n path g zone) own_raw_domain own_http_domain val"

end
