(* ===== verification/Dockerignore.thy ===== *)
theory Dockerignore
  imports Naming
begin

text \<open>
  The filter of a build context (\<open>src/dockerignore.rs\<close>): the patterns of a \<open>.dockerignore\<close>, the matching of
  one path segment with its backtracking star, of whole paths, and the verdict on a path.
\<close>

record ignore_pattern =
  ig_exclusion :: bool
  ig_segments :: "string list"

section \<open>Parsing\<close>

definition parse_ignore_line :: "string \<Rightarrow> ignore_pattern option" where
  "parse_ignore_line raw =
     (let line = trim raw in
      if line = [] \<or> starts_with line ''#'' then None
      else let (exclusion, body) = (case strip_prefix line ''!'' of Some rest \<Rightarrow> (True, trim rest) | None \<Rightarrow> (False, line));
               body = trim_start_matches body (\<lambda>c. c = CHR ''/'');
               segments = filter (\<lambda>s. s \<noteq> [] \<and> s \<noteq> ''.'') (split_char body (CHR ''/''))
           in if segments = [] then None else Some \<lparr>ig_exclusion = exclusion, ig_segments = segments\<rparr>)"

definition parse_dockerignore :: "string \<Rightarrow> ignore_pattern list" where
  "parse_dockerignore text = filter_map parse_ignore_line (lines text)"

definition load_dockerignore :: "string option \<Rightarrow> ignore_pattern list" where
  "load_dockerignore file = (case file of Some text \<Rightarrow> parse_dockerignore text | None \<Rightarrow> [])"

definition has_exclusions :: "ignore_pattern list \<Rightarrow> bool" where
  "has_exclusions ps = list_ex ig_exclusion ps"

section \<open>One segment\<close>

text \<open>
  The loop of \<open>matches_one\<close> with its two positions and the position to resume at; \<open>None\<close> when the rounds,
  counted down, have run out. \<open>match_rounds\<close> is enough for any pattern and name.
\<close>

fun match_loop :: "nat \<Rightarrow> string \<Rightarrow> string \<Rightarrow> nat \<Rightarrow> nat \<Rightarrow> (nat \<times> nat) option \<Rightarrow> bool option" where
  "match_loop 0 p n pi ni star = None"
| "match_loop (Suc k) p n pi ni star =
     (if ni < length n then
        if pi < length p \<and> (p ! pi = CHR ''?'' \<or> p ! pi = n ! ni) then match_loop k p n (pi + 1) (ni + 1) star
        else if pi < length p \<and> p ! pi = CHR ''*'' then match_loop k p n (pi + 1) ni (Some (pi, ni))
        else case star of
            Some (sp, sn) \<Rightarrow> match_loop k p n (sp + 1) (sn + 1) (Some (sp, sn + 1))
          | None \<Rightarrow> Some False
      else Some (list_all (\<lambda>c. c = CHR ''*'') (drop pi p)))"

definition match_rounds :: "string \<Rightarrow> string \<Rightarrow> nat" where
  "match_rounds p n = (length n + 1) * (length p + length n + 1) + length p + length n + 1"

definition matches_one :: "string \<Rightarrow> string \<Rightarrow> bool" where
  "matches_one p n = (match_loop (match_rounds p n) p n 0 0 None = Some True)"

section \<open>Paths\<close>

fun matches_segments :: "string list \<Rightarrow> string list \<Rightarrow> bool" where
  "matches_segments [] path = (path = [])"
| "matches_segments (head # rest) path =
     (if head = ''**'' then list_ex (\<lambda>skip. matches_segments rest (drop skip path)) [0..<Suc (length path)]
      else case path of first # tail \<Rightarrow> matches_one head first \<and> matches_segments rest tail | [] \<Rightarrow> False)"

definition pattern_matches :: "ignore_pattern \<Rightarrow> string \<Rightarrow> bool" where
  "pattern_matches p path = matches_segments (ig_segments p) (split_char path (CHR ''/''))"

function matches_ancestor_from :: "ignore_pattern \<Rightarrow> string \<Rightarrow> nat \<Rightarrow> bool" where
  "matches_ancestor_from p path start =
     (case find_str (drop start path) ''/'' of
        None \<Rightarrow> False
      | Some i \<Rightarrow> pattern_matches p (take (start + i) path) \<or> matches_ancestor_from p path (start + i + 1))"
  by auto

termination
proof (relation "measure (\<lambda>(p, path, start). length path - start)", goal_cases)
  case (2 p path start i)
  then show ?case using find_str_bound [of "drop start path" "''/''" i] by simp
qed simp

declare matches_ancestor_from.simps [simp del]

definition excluded_by :: "ignore_pattern \<Rightarrow> string \<Rightarrow> bool \<Rightarrow> bool" where
  "excluded_by p path excluded =
     (if ig_exclusion p \<noteq> excluded then excluded
      else if pattern_matches p path \<or> matches_ancestor_from p path 0 then \<not> ig_exclusion p else excluded)"

definition excludes :: "ignore_pattern list \<Rightarrow> string \<Rightarrow> bool" where
  "excludes ps path = fold (\<lambda>p. excluded_by p path) ps False"

section \<open>The files that are sent\<close>

text \<open>
  \<open>append_filtered\<close> of \<open>src/docker/image.rs\<close>, on the tree of files it walks: a directory has its entries in
  the order they are read, or cannot be read; a file may not be readable; a broken link has no metadata.
\<close>

datatype context_entry = PlainFile bool | Directory "(string \<times> context_entry) list option" | BrokenLink

type_synonym context_dir = "(string \<times> context_entry) list option"

record context_walk =
  cw_stack :: "(string \<times> context_dir) list"
  cw_sent :: "string list"

definition relative_path :: "string \<Rightarrow> string \<Rightarrow> string" where
  "relative_path dir name = (if dir = [] then name else dir @ ''/'' @ name)"

definition take_entry ::
  "string list \<Rightarrow> ignore_pattern list \<Rightarrow> string \<Rightarrow> string \<times> context_entry \<Rightarrow> context_walk \<Rightarrow> string + context_walk" where
  "take_entry always ps dir entry w =
     (let rel = relative_path dir (fst entry); skipped = (rel \<notin> set always \<and> excludes ps rel) in
      case snd entry of
        BrokenLink \<Rightarrow> Inr w
      | Directory es \<Rightarrow>
          if skipped
          then Inr (if has_exclusions ps then w\<lparr>cw_stack := cw_stack w @ [(rel, es)]\<rparr> else w)
          else Inr (w\<lparr>cw_stack := cw_stack w @ [(rel, es)], cw_sent := cw_sent w @ [rel]\<rparr>)
      | PlainFile readable \<Rightarrow>
          if skipped then Inr w
          else if readable then Inr (w\<lparr>cw_sent := cw_sent w @ [rel]\<rparr>)
          else Inl (''failed to tar '' @ rel))"

fun take_entries ::
  "string list \<Rightarrow> ignore_pattern list \<Rightarrow> string \<Rightarrow> (string \<times> context_entry) list \<Rightarrow> context_walk \<Rightarrow> string + context_walk" where
  "take_entries always ps dir [] w = Inr w"
| "take_entries always ps dir (e # es) w =
     (case take_entry always ps dir e w of Inl err \<Rightarrow> Inl err | Inr w' \<Rightarrow> take_entries always ps dir es w')"

fun entry_size :: "context_entry \<Rightarrow> nat" where
  "entry_size (Directory (Some es)) = Suc (sum_list (map (\<lambda>e. entry_size (snd e)) es))"
| "entry_size _ = 1"

definition dir_size :: "context_dir \<Rightarrow> nat" where
  "dir_size d = entry_size (Directory d)"

definition stack_size :: "(string \<times> context_dir) list \<Rightarrow> nat" where
  "stack_size stack = sum_list (map (\<lambda>d. dir_size (snd d)) stack)"

lemma entry_size_pos: "0 < entry_size e"
  by (cases e rule: entry_size.cases) simp_all

lemma take_entries_size:
  "take_entries always ps dir es w = Inr w' \<Longrightarrow>
     stack_size (cw_stack w') \<le> stack_size (cw_stack w) + sum_list (map (\<lambda>e. entry_size (snd e)) es)"
proof (induction es arbitrary: w)
  case (Cons e es)
  then obtain mid where mid: "take_entry always ps dir e w = Inr mid" "take_entries always ps dir es mid = Inr w'"
    by (auto split: sum.splits)
  have "stack_size (cw_stack mid) \<le> stack_size (cw_stack w) + entry_size (snd e)"
    using mid(1) by (auto simp: take_entry_def Let_def stack_size_def dir_size_def split: context_entry.splits if_splits)
  with Cons.IH [OF mid(2)] show ?case by simp
qed simp

function walk_context :: "string list \<Rightarrow> ignore_pattern list \<Rightarrow> context_walk \<Rightarrow> string + string list" where
  "walk_context always ps w =
     (if cw_stack w = [] then Inr (cw_sent w)
      else case last (cw_stack w) of
          (dir, None) \<Rightarrow> Inl (''failed to read build context '' @ dir)
        | (dir, Some es) \<Rightarrow>
            (case take_entries always ps dir es (w\<lparr>cw_stack := butlast (cw_stack w)\<rparr>) of
               Inl err \<Rightarrow> Inl err
             | Inr w' \<Rightarrow> walk_context always ps w'))"
  by auto

termination
proof (relation "measure (\<lambda>(always, ps, w). stack_size (cw_stack w))", goal_cases)
  case (2 always ps w dir d es w')
  have "cw_stack w = butlast (cw_stack w) @ [(dir, Some es)]" using 2(1,2,3) by simp
  then have "stack_size (cw_stack w) = stack_size (butlast (cw_stack w) @ [(dir, Some es)])" by (rule arg_cong)
  then have "stack_size (cw_stack w) = stack_size (butlast (cw_stack w)) + dir_size (Some es)" by (simp add: stack_size_def)
  with take_entries_size [OF 2(4)] show ?case by (simp add: dir_size_def)
qed simp

declare walk_context.simps [simp del]

definition trim_start_str :: "string \<Rightarrow> string \<Rightarrow> string" where
  "trim_start_str s p = rev (trim_end_str (rev s) (rev p))"

definition append_filtered :: "context_dir \<Rightarrow> ignore_pattern list \<Rightarrow> string \<Rightarrow> string + string list" where
  "append_filtered root ps dockerfile =
     walk_context [trim_start_str dockerfile ''./'', ''.dockerignore''] ps \<lparr>cw_stack = [([], root)], cw_sent = []\<rparr>"

definition INLINE_DOCKERFILE :: string where "INLINE_DOCKERFILE = ''.fghj.Dockerfile''"

text \<open>
  \<open>tar_build_context\<close>: the patterns, with \<open>.git\<close> last where it is left out, and the archive. Archiving a whole
  directory (\<open>append_dir_all\<close> of the tar library) is a parameter.
\<close>

definition context_patterns :: "bool \<Rightarrow> string option \<Rightarrow> ignore_pattern list" where
  "context_patterns skip_git_dir file =
     (if skip_git_dir
      then parse_dockerignore ((case file of Some text \<Rightarrow> text | None \<Rightarrow> []) @ [CHR 0x0A] @ ''.git'' @ [CHR 0x0A])
      else load_dockerignore file)"

definition tar_build_context ::
  "(context_dir \<Rightarrow> string + string list) \<Rightarrow> context_dir \<Rightarrow> string option \<Rightarrow> string \<Rightarrow> string option \<Rightarrow> bool \<Rightarrow>
     string + string list" where
  "tar_build_context append_dir_all root file dockerfile inline skip_git_dir =
     (let ignore = context_patterns skip_git_dir file in
      case (if ignore = [] then append_dir_all root else append_filtered root ignore dockerfile) of
        Inl e \<Rightarrow> Inl e
      | Inr sent \<Rightarrow> Inr (sent @ (if inline \<noteq> None then [INLINE_DOCKERFILE] else [])))"

end
