(* ===== verification/Dockerignore_Props.thy ===== *)
theory Dockerignore_Props
  imports Dockerignore
begin

text \<open>
  What a pattern means, without positions to resume at, and that the loop of \<open>matches_one\<close> decides it.
\<close>

section \<open>Globs\<close>

fun glob :: "string \<Rightarrow> string \<Rightarrow> bool" where
  "glob [] n = (n = [])"
| "glob (c # p) n =
     (if c = CHR ''*'' then \<exists>k\<le>length n. glob p (drop k n)
      else case n of [] \<Rightarrow> False | x # n' \<Rightarrow> (c = CHR ''?'' \<or> c = x) \<and> glob p n')"

fun glob_path :: "string list \<Rightarrow> string list \<Rightarrow> bool" where
  "glob_path [] path = (path = [])"
| "glob_path (head # rest) path =
     (if head = ''**'' then \<exists>k\<le>length path. glob_path rest (drop k path)
      else case path of first # tail \<Rightarrow> glob head first \<and> glob_path rest tail | [] \<Rightarrow> False)"

lemma glob_stars: "glob p [] \<longleftrightarrow> list_all (\<lambda>c. c = CHR ''*'') p"
  by (induction p) auto

lemma glob_literal:
  "CHR ''*'' \<notin> set s \<Longrightarrow> glob (s @ r) m \<Longrightarrow> length s \<le> length m \<and> glob r (drop (length s) m)"
proof (induction s arbitrary: m)
  case (Cons c s)
  then obtain x m' where m: "m = x # m'" "glob (s @ r) m'" by (cases m) auto
  with Cons.IH [OF _ m(2)] Cons.prems(1) show ?case by simp
qed simp

section \<open>The loop\<close>

text \<open>
  What is still to be decided at a point of the loop: the rest of the pattern against the rest of the name, or
  the pattern after the last star against a later part of it.
\<close>

definition open_match :: "string \<Rightarrow> string \<Rightarrow> nat \<Rightarrow> nat \<Rightarrow> (nat \<times> nat) option \<Rightarrow> bool" where
  "open_match p n pi ni star \<longleftrightarrow> glob (drop pi p) (drop ni n) \<or>
     (\<exists>sp sn k. star = Some (sp, sn) \<and> sn < k \<and> k \<le> length n \<and> glob (drop (sp + 1) p) (drop k n))"

definition loop_ok :: "string \<Rightarrow> string \<Rightarrow> nat \<Rightarrow> nat \<Rightarrow> (nat \<times> nat) option \<Rightarrow> bool" where
  "loop_ok p n pi ni star \<longleftrightarrow> pi \<le> length p \<and> ni \<le> length n \<and>
     (\<forall>sp sn. star = Some (sp, sn) \<longrightarrow> sp < pi \<and> sn + (pi - (sp + 1)) = ni \<and>
        CHR ''*'' \<notin> set (take (pi - (sp + 1)) (drop (sp + 1) p)))"

definition rounds_left :: "string \<Rightarrow> string \<Rightarrow> nat \<Rightarrow> nat \<Rightarrow> (nat \<times> nat) option \<Rightarrow> nat" where
  "rounds_left p n pi ni star =
     (case star of None \<Rightarrow> length n + 1 | Some (_, sn) \<Rightarrow> length n - sn) * (length p + length n + 1) +
       (length p - pi) + (length n - ni)"

lemma after_star:
  assumes ok: "loop_ok p n pi ni (Some (sp, sn))" and k: "sn < k" "glob (drop (sp + 1) p) (drop k n)" "k \<le> length n"
  shows "k + (pi - (sp + 1)) \<le> length n \<and> glob (drop pi p) (drop (k + (pi - (sp + 1))) n)"
proof -
  let ?s = "take (pi - (sp + 1)) (drop (sp + 1) p)"
  have len: "length ?s = pi - (sp + 1)" and lit: "CHR ''*'' \<notin> set ?s" and pi: "sp + 1 \<le> pi"
    using ok by (auto simp: loop_ok_def)
  have "drop (sp + 1) p = ?s @ drop pi p"
    using append_take_drop_id [of "pi - (sp + 1)" "drop (sp + 1) p"] pi by simp
  with k(2) have "glob (?s @ drop pi p) (drop k n)" by simp
  from glob_literal [OF lit this] k(3) show ?thesis unfolding len by (auto simp: add.commute)
qed

lemma match_loop_decides:
  assumes name: "CHR ''*'' \<notin> set n"
  shows "loop_ok p n pi ni star \<Longrightarrow> rounds_left p n pi ni star < k \<Longrightarrow>
    match_loop k p n pi ni star = Some (open_match p n pi ni star)"
proof (induction k arbitrary: pi ni star)
  case (Suc k)
  note ok = Suc.prems(1)
  have bounds: "pi \<le> length p" "ni \<le> length n" using ok by (simp_all add: loop_ok_def)
  show ?case
  proof (cases "ni < length n")
    case False
    then have ni: "ni = length n" using bounds by simp
    have "\<not> (sn < j \<and> j \<le> length n \<and> glob (drop (sp + 1) p) (drop j n))" if star: "star = Some (sp, sn)" for sp sn j
    proof
      assume j: "sn < j \<and> j \<le> length n \<and> glob (drop (sp + 1) p) (drop j n)"
      have "j + (pi - (sp + 1)) \<le> length n" using after_star [OF ok [unfolded star]] j by blast
      moreover have "sn + (pi - (sp + 1)) = ni" using ok star by (simp add: loop_ok_def)
      ultimately show False using j ni by simp
    qed
    then have "open_match p n pi ni star \<longleftrightarrow> glob (drop pi p) []" using ni by (auto simp: open_match_def)
    with False show ?thesis by (simp add: glob_stars)
  next
    case True
    have rest_n: "drop ni n = n ! ni # drop (Suc ni) n" using True by (simp add: Cons_nth_drop_Suc)
    have rest_p: "pi < length p \<Longrightarrow> drop pi p = p ! pi # drop (Suc pi) p" by (simp add: Cons_nth_drop_Suc)
    have plain: "n ! ni \<noteq> CHR ''*''" using name True by (metis nth_mem)
    consider (same) "pi < length p" "p ! pi = CHR ''?'' \<or> p ! pi = n ! ni"
      | (star) "pi < length p" "p ! pi = CHR ''*''" "\<not> (p ! pi = CHR ''?'' \<or> p ! pi = n ! ni)"
      | (differ) "\<not> (pi < length p \<and> (p ! pi = CHR ''?'' \<or> p ! pi = n ! ni))" "\<not> (pi < length p \<and> p ! pi = CHR ''*'')"
      by blast
    then show ?thesis
    proof cases
      case same
      then have lit: "p ! pi \<noteq> CHR ''*''" using plain by auto
      have ok': "loop_ok p n (pi + 1) (ni + 1) star"
      proof -
        have "take (Suc pi - (sp + 1)) (drop (sp + 1) p) = take (pi - (sp + 1)) (drop (sp + 1) p) @ [p ! pi]"
          if "sp < pi" for sp
        proof -
          have "Suc pi - (sp + 1) = Suc (pi - (sp + 1))" using that by simp
          moreover have "drop (sp + 1) p ! (pi - (sp + 1)) = p ! pi" using that same(1) by simp
          ultimately show ?thesis using that same(1) by (simp add: take_Suc_conv_app_nth)
        qed
        then show ?thesis using ok same(1) True lit by (auto simp: loop_ok_def)
      qed
      have "rounds_left p n (pi + 1) (ni + 1) star < k"
        using Suc.prems(2) same(1) True by (simp add: rounds_left_def)
      from Suc.IH [OF ok' this] same True have "match_loop (Suc k) p n pi ni star = Some (open_match p n (pi + 1) (ni + 1) star)"
        by simp
      moreover have "glob (drop pi p) (drop ni n) = glob (drop (pi + 1) p) (drop (ni + 1) n)"
        using same lit rest_n rest_p by simp
      ultimately show ?thesis by (simp add: open_match_def)
    next
      case star
      let ?star = "Some (pi, ni)"
      have ok': "loop_ok p n (pi + 1) ni ?star" using star True by (simp add: loop_ok_def)
      have left: "rounds_left p n (pi + 1) ni ?star < k"
      proof -
        have "length n - ni \<le> (case star of None \<Rightarrow> length n + 1 | Some (_, sn) \<Rightarrow> length n - sn)"
          using ok by (auto simp: loop_ok_def split: option.splits)
        then have "(length n - ni) * (length p + length n + 1) \<le>
            (case star of None \<Rightarrow> length n + 1 | Some (_, sn) \<Rightarrow> length n - sn) * (length p + length n + 1)"
          by (rule mult_right_mono) simp
        moreover have "length p - (pi + 1) < length p - pi" using star(1) by simp
        ultimately show ?thesis using Suc.prems(2) unfolding rounds_left_def option.case prod.case by linarith
      qed
      have here: "match_loop (Suc k) p n pi ni star = match_loop k p n (pi + 1) ni ?star"
        using star True by simp
      have "open_match p n (pi + 1) ni ?star \<longleftrightarrow> (\<exists>j\<ge>ni. j \<le> length n \<and> glob (drop (pi + 1) p) (drop j n))"
        using bounds(2) unfolding open_match_def by (auto simp: le_less)
      moreover have "glob (drop pi p) (drop ni n) \<longleftrightarrow> (\<exists>j\<ge>ni. j \<le> length n \<and> glob (drop (pi + 1) p) (drop j n))"
      proof -
        have "glob (drop pi p) (drop ni n) \<longleftrightarrow> (\<exists>j\<le>length n - ni. glob (drop (pi + 1) p) (drop (ni + j) n))"
          using star rest_p by (simp add: add.commute)
        also have "\<dots> \<longleftrightarrow> (\<exists>j\<ge>ni. j \<le> length n \<and> glob (drop (pi + 1) p) (drop j n))"
          using bounds(2) by (metis le_add_diff_inverse le_add1 le_diff_conv2 add.commute add_le_imp_le_diff nat_add_left_cancel_le)
        finally show ?thesis .
      qed
      moreover have "\<exists>j\<ge>ni. j \<le> length n \<and> glob (drop (pi + 1) p) (drop j n)"
        if old: "star = Some (sp, sn)" "sn < j" "j \<le> length n" "glob (drop (sp + 1) p) (drop j n)" for sp sn j
      proof -
        let ?j = "j + (pi - (sp + 1))"
        from after_star [OF ok [unfolded old(1)] old(2,4,3)] have g: "?j \<le> length n" "glob (drop pi p) (drop ?j n)" by auto
        have "ni \<le> ?j" using ok old by (auto simp: loop_ok_def)
        from g(2) obtain i where "i \<le> length (drop ?j n)" "glob (drop (pi + 1) p) (drop i (drop ?j n))"
          using star rest_p by auto
        then show ?thesis using g(1) \<open>ni \<le> ?j\<close> by (intro exI [of _ "?j + i"]) (auto simp: add.commute)
      qed
      ultimately have "open_match p n pi ni star = open_match p n (pi + 1) ni ?star"
        unfolding open_match_def [of p n pi ni star] by blast
      with here Suc.IH [OF ok' left] show ?thesis by simp
    next
      case differ
      have no: "\<not> glob (drop pi p) (drop ni n)"
      proof (cases "pi < length p")
        case True
        then show ?thesis using differ rest_n rest_p by auto
      next
        case False
        then show ?thesis using rest_n by simp
      qed
      show ?thesis
      proof (cases star)
        case None
        then have "match_loop (Suc k) p n pi ni star = Some False" using differ True by auto
        then show ?thesis using no None by (simp add: open_match_def)
      next
        case (Some s)
        obtain sp sn where s: "s = (sp, sn)" by (rule prod.exhaust)
        have st: "sp < pi" "sn \<le> ni" using ok Some s by (auto simp: loop_ok_def)
        have ok': "loop_ok p n (sp + 1) (sn + 1) (Some (sp, sn + 1))"
          using st bounds True by (simp add: loop_ok_def)
        have left: "rounds_left p n (sp + 1) (sn + 1) (Some (sp, sn + 1)) < k"
        proof -
          have "(length n - sn) * (length p + length n + 1) =
              (length n - (sn + 1)) * (length p + length n + 1) + (length p + length n + 1)"
            using st True by (metis Suc_diff_Suc add.commute add.right_neutral add_Suc_right le_less_trans mult_Suc One_nat_def)
          moreover have "length p - (sp + 1) \<le> length p" "length n - (sn + 1) \<le> length n" by simp_all
          ultimately show ?thesis
            using Suc.prems(2) unfolding rounds_left_def Some s option.case prod.case by linarith
        qed
        have here: "match_loop (Suc k) p n pi ni star = match_loop k p n (sp + 1) (sn + 1) (Some (sp, sn + 1))"
          using differ True Some s by auto
        have "open_match p n pi ni star = open_match p n (sp + 1) (sn + 1) (Some (sp, sn + 1))"
        proof -
          have "(\<exists>j. sn < j \<and> j \<le> length n \<and> glob (drop (sp + 1) p) (drop j n)) \<longleftrightarrow>
              glob (drop (sp + 1) p) (drop (sn + 1) n) \<or> (\<exists>j. sn + 1 < j \<and> j \<le> length n \<and> glob (drop (sp + 1) p) (drop j n))"
          proof -
            have split: "sn < j \<longleftrightarrow> j = sn + 1 \<or> sn + 1 < j" for j by auto
            have "sn + 1 \<le> length n" using st True by simp
            then show ?thesis unfolding split by blast
          qed
          with no Some s show ?thesis by (simp add: open_match_def)
        qed
        with here Suc.IH [OF ok' left] show ?thesis by simp
      qed
    qed
  qed
qed simp

lemma matches_one_glob: "CHR ''*'' \<notin> set n \<Longrightarrow> matches_one p n = glob p n"
proof -
  assume n: "CHR ''*'' \<notin> set n"
  have "loop_ok p n 0 0 None" by (simp add: loop_ok_def)
  moreover have "rounds_left p n 0 0 None < match_rounds p n" by (simp add: rounds_left_def match_rounds_def)
  ultimately have "match_loop (match_rounds p n) p n 0 0 None = Some (open_match p n 0 0 None)"
    by (rule match_loop_decides [OF n])
  then show "matches_one p n = glob p n" by (simp add: matches_one_def open_match_def)
qed

section \<open>Paths\<close>

lemma matches_segments_glob:
  "\<forall>s\<in>set path. CHR ''*'' \<notin> set s \<Longrightarrow> matches_segments segs path = glob_path segs path"
proof (induction segs arbitrary: path)
  case (Cons head rest)
  show ?case
  proof (cases "head = ''**''")
    case True
    have "matches_segments rest (drop k path) = glob_path rest (drop k path)" for k
      by (rule Cons.IH) (use Cons.prems in \<open>auto dest: in_set_dropD\<close>)
    moreover have "set [0..<Suc (length path)] = {k. k \<le> length path}" by (simp only: set_upt) auto
    ultimately show ?thesis using True by (simp only: matches_segments.simps glob_path.simps list_ex_iff if_True) auto
  next
    case False
    then show ?thesis using Cons by (cases path) (auto simp: matches_one_glob)
  qed
qed simp

lemma set_split_on: "w \<in> set (split_on s P) \<Longrightarrow> set w \<subseteq> set s"
proof (induction s arbitrary: w)
  case (Cons x s)
  obtain v vs where "split_on s P = v # vs" by (meson neq_Nil_conv split_on_ne)
  with Cons.prems Cons.IH have "w = [] \<or> set w \<subseteq> set s \<or> (w = x # v \<and> set v \<subseteq> set s)"
    by (cases "P x") auto
  then show ?case by auto
qed simp

lemma find_slash_None: "find_str s ''/'' = None \<longleftrightarrow> CHR ''/'' \<notin> set s"
  by (induction s) auto

lemma find_slash_Some:
  "find_str s ''/'' = Some i \<Longrightarrow> i < length s \<and> s ! i = CHR ''/'' \<and> (\<forall>j<i. s ! j \<noteq> CHR ''/'')"
proof (induction s arbitrary: i)
  case (Cons c s)
  show ?case
  proof (cases "c = CHR ''/''")
    case True
    with Cons.prems show ?thesis by simp
  next
    case False
    with Cons.prems obtain k where k: "find_str s ''/'' = Some k" "i = Suc k" by auto
    from Cons.IH [OF k(1)] k(2) False show ?thesis by (auto simp: less_Suc_eq_0_disj)
  qed
qed simp

lemma matches_ancestor_iff:
  "matches_ancestor_from p path start \<longleftrightarrow>
     (\<exists>i\<ge>start. i < length path \<and> path ! i = CHR ''/'' \<and> pattern_matches p (take i path))"
proof (induction p path start rule: matches_ancestor_from.induct)
  case (1 p path start)
  show ?case
  proof (cases "find_str (drop start path) ''/''")
    case None
    then have no: "CHR ''/'' \<notin> set (drop start path)" by (simp add: find_slash_None)
    have "\<not> (start \<le> i \<and> i < length path \<and> path ! i = CHR ''/'')" for i
    proof
      assume i: "start \<le> i \<and> i < length path \<and> path ! i = CHR ''/''"
      then have "drop start path ! (i - start) = CHR ''/''" "i - start < length (drop start path)" by auto
      with no show False by (metis nth_mem)
    qed
    with None show ?thesis by (subst matches_ancestor_from.simps) auto
  next
    case (Some k)
    from find_slash_Some [OF Some] have k: "start + k < length path" "path ! (start + k) = CHR ''/''"
      "\<forall>j<k. path ! (start + j) \<noteq> CHR ''/''" by auto
    have first: "start + k \<le> i" if "start \<le> i" "path ! i = CHR ''/''" for i
    proof (rule ccontr)
      assume "\<not> start + k \<le> i"
      with that(1) have "i - start < k" by simp
      with k(3) have "path ! (start + (i - start)) \<noteq> CHR ''/''" by blast
      with that show False by simp
    qed
    have "matches_ancestor_from p path start \<longleftrightarrow> pattern_matches p (take (start + k) path) \<or>
        (\<exists>i\<ge>start + k + 1. i < length path \<and> path ! i = CHR ''/'' \<and> pattern_matches p (take i path))"
      using Some 1 [OF Some] by (subst matches_ancestor_from.simps) simp
    also have "\<dots> \<longleftrightarrow> (\<exists>i\<ge>start. i < length path \<and> path ! i = CHR ''/'' \<and> pattern_matches p (take i path))"
    proof
      assume "pattern_matches p (take (start + k) path) \<or>
        (\<exists>i\<ge>start + k + 1. i < length path \<and> path ! i = CHR ''/'' \<and> pattern_matches p (take i path))"
      then show "\<exists>i\<ge>start. i < length path \<and> path ! i = CHR ''/'' \<and> pattern_matches p (take i path)"
      proof
        assume "pattern_matches p (take (start + k) path)"
        with k(1,2) show ?thesis by (intro exI [of _ "start + k"]) simp
      next
        assume "\<exists>i\<ge>start + k + 1. i < length path \<and> path ! i = CHR ''/'' \<and> pattern_matches p (take i path)"
        then obtain i where "start + k + 1 \<le> i" "i < length path" "path ! i = CHR ''/''" "pattern_matches p (take i path)" by blast
        then show ?thesis by (intro exI [of _ i]) simp
      qed
    next
      assume "\<exists>i\<ge>start. i < length path \<and> path ! i = CHR ''/'' \<and> pattern_matches p (take i path)"
      then obtain i where i: "start \<le> i" "i < length path" "path ! i = CHR ''/''" "pattern_matches p (take i path)" by blast
      from first [OF i(1,3)] have "i = start + k \<or> start + k + 1 \<le> i" by linarith
      with i show "pattern_matches p (take (start + k) path) \<or>
        (\<exists>i\<ge>start + k + 1. i < length path \<and> path ! i = CHR ''/'' \<and> pattern_matches p (take i path))" by blast
    qed
    finally show ?thesis .
  qed
qed

definition within :: "string \<Rightarrow> string \<Rightarrow> bool" where
  "within path anc \<longleftrightarrow> path = anc \<or> (\<exists>r. path = anc @ ''/'' @ r)"

lemma within_refl [simp]: "within path path"
  by (simp add: within_def)

lemma within_trans: "within a b \<Longrightarrow> within b c \<Longrightarrow> within a c"
  by (auto simp: within_def)

lemma hits_iff:
  "pattern_matches p path \<or> matches_ancestor_from p path 0 \<longleftrightarrow> (\<exists>anc. within path anc \<and> pattern_matches p anc)"
proof -
  have "(\<exists>i\<ge>0. i < length path \<and> path ! i = CHR ''/'' \<and> pattern_matches p (take i path)) \<longleftrightarrow>
      (\<exists>anc r. path = anc @ ''/'' @ r \<and> pattern_matches p anc)"
  proof
    assume "\<exists>i\<ge>0. i < length path \<and> path ! i = CHR ''/'' \<and> pattern_matches p (take i path)"
    then obtain i where i: "i < length path" "path ! i = CHR ''/''" "pattern_matches p (take i path)" by blast
    have "path = take i path @ ''/'' @ drop (Suc i) path" using id_take_nth_drop [OF i(1)] i(2) by simp
    with i(3) show "\<exists>anc r. path = anc @ ''/'' @ r \<and> pattern_matches p anc" by blast
  next
    assume "\<exists>anc r. path = anc @ ''/'' @ r \<and> pattern_matches p anc"
    then obtain anc r where "path = anc @ ''/'' @ r" "pattern_matches p anc" by blast
    then show "\<exists>i\<ge>0. i < length path \<and> path ! i = CHR ''/'' \<and> pattern_matches p (take i path)"
      by (intro exI [of _ "length anc"]) simp
  qed
  moreover have "matches_ancestor_from p path 0 \<longleftrightarrow>
      (\<exists>i\<ge>0. i < length path \<and> path ! i = CHR ''/'' \<and> pattern_matches p (take i path))" by (rule matches_ancestor_iff)
  moreover have "(\<exists>anc. within path anc \<and> pattern_matches p anc) \<longleftrightarrow>
      pattern_matches p path \<or> (\<exists>anc r. path = anc @ ''/'' @ r \<and> pattern_matches p anc)"
    unfolding within_def by blast
  ultimately show ?thesis by (simp only:)
qed

lemma excluded_by_eq:
  "excluded_by p path e = (if \<exists>anc. within path anc \<and> pattern_matches p anc then \<not> ig_exclusion p else e)"
  unfolding excluded_by_def hits_iff by auto

lemma excludes_snoc: "excludes (ps @ [p]) path = excluded_by p path (excludes ps path)"
  by (simp add: excludes_def)

text \<open>Without a pattern that re-includes, what lies in an excluded directory is excluded.\<close>

lemma excludes_below:
  "\<not> has_exclusions ps \<Longrightarrow> excludes ps dir \<Longrightarrow> within path dir \<Longrightarrow> excludes ps path"
proof (induction ps rule: rev_induct)
  case Nil
  then show ?case by (simp add: excludes_def)
next
  case (snoc p ps)
  have no: "\<not> has_exclusions ps" "\<not> ig_exclusion p" using snoc.prems(1) by (auto simp: has_exclusions_def)
  show ?case
  proof (cases "\<exists>anc. within dir anc \<and> pattern_matches p anc")
    case True
    then have "\<exists>anc. within path anc \<and> pattern_matches p anc" using within_trans [OF snoc.prems(3)] by blast
    then show ?thesis using no by (simp add: excludes_snoc excluded_by_eq)
  next
    case False
    then have "excludes ps dir" using snoc.prems(2) by (simp add: excludes_snoc excluded_by_eq)
    from snoc.IH [OF no(1) this snoc.prems(3)] no show ?thesis by (simp add: excludes_snoc excluded_by_eq)
  qed
qed

end
