(* ===== verification/Dockerignore_Claims.thy ===== *)
theory Dockerignore_Claims
  imports Dockerignore_Props "HOL-Library.Multiset"
begin

text \<open>
  The properties of the build context filter: what a path's verdict is, and which files of a context are sent.
\<close>

section \<open>The verdict on a path\<close>

text \<open>A pattern hits a path when the path, or a directory the path lies in, is an instance of the pattern.\<close>

definition hits :: "ignore_pattern \<Rightarrow> string \<Rightarrow> bool" where
  "hits p path \<longleftrightarrow> (\<exists>anc. within path anc \<and> glob_path (ig_segments p) (split_char anc (CHR ''/'')))"

lemma within_chars: "within path anc \<Longrightarrow> set anc \<subseteq> set path"
  by (auto simp: within_def)

lemma matches_glob:
  assumes "CHR ''*'' \<notin> set path"
  shows "pattern_matches p path = glob_path (ig_segments p) (split_char path (CHR ''/''))"
proof -
  have "CHR ''*'' \<notin> set s" if "s \<in> set (split_char path (CHR ''/''))" for s
    using set_split_on [OF that] assms by blast
  then show ?thesis unfolding pattern_matches_def by (intro matches_segments_glob) blast
qed

lemma hits_matches:
  assumes "CHR ''*'' \<notin> set path"
  shows "hits p path \<longleftrightarrow> (\<exists>anc. within path anc \<and> pattern_matches p anc)"
proof -
  have "pattern_matches p anc = glob_path (ig_segments p) (split_char anc (CHR ''/''))" if "within path anc" for anc
    using within_chars [OF that] assms by (intro matches_glob) blast
  then show ?thesis unfolding hits_def by blast
qed



text \<open>
  The names the loop gets wrong hold a star: the literal comparison comes before the star of the pattern, which
  then takes one character only and leaves no position to resume at.
\<close>

lemma star_misses_starred_name: "glob ''*'' ''*x'' \<and> \<not> matches_one ''*'' ''*x''"
  by (auto simp: matches_one_def match_rounds_def eval_nat_numeral)

section \<open>What is walked\<close>

fun entry_paths :: "string \<Rightarrow> string \<Rightarrow> context_entry \<Rightarrow> string list" where
  "entry_paths dir name (PlainFile readable) = [relative_path dir name]"
| "entry_paths dir name BrokenLink = []"
| "entry_paths dir name (Directory None) = [relative_path dir name]"
| "entry_paths dir name (Directory (Some es)) =
     relative_path dir name # concat (map (\<lambda>(n, e). entry_paths (relative_path dir name) n e) es)"

fun entry_readable :: "context_entry \<Rightarrow> bool" where
  "entry_readable (PlainFile readable) = readable"
| "entry_readable BrokenLink = True"
| "entry_readable (Directory None) = False"
| "entry_readable (Directory (Some es)) = list_all (\<lambda>(n, e). entry_readable e) es"

definition list_paths :: "string \<Rightarrow> (string \<times> context_entry) list \<Rightarrow> string list" where
  "list_paths dir es = concat (map (\<lambda>(n, e). entry_paths dir n e) es)"

fun dir_paths :: "string \<times> context_dir \<Rightarrow> string list" where
  "dir_paths (dir, None) = []"
| "dir_paths (dir, Some es) = list_paths dir es"

definition sent_always :: "string \<Rightarrow> string list" where
  "sent_always dockerfile = [trim_start_str dockerfile ''./'', ''.dockerignore'']"

definition wanted :: "string list \<Rightarrow> ignore_pattern list \<Rightarrow> string \<Rightarrow> bool" where
  "wanted always ps p \<longleftrightarrow> p \<in> set always \<or> \<not> excludes ps p"

text \<open>Nothing that is always sent lies in a directory that is not walked.\<close>

definition reachable_always :: "string list \<Rightarrow> ignore_pattern list \<Rightarrow> bool" where
  "reachable_always always ps \<longleftrightarrow>
     has_exclusions ps \<or> (\<forall>a\<in>set always. \<forall>dir r. a = dir @ ''/'' @ r \<longrightarrow> \<not> excludes ps dir)"

definition named_in :: "string \<Rightarrow> (string \<times> context_entry) list \<Rightarrow> bool" where
  "named_in dir es \<longleftrightarrow> dir \<noteq> [] \<or> (\<forall>e\<in>set es. fst e \<noteq> [])"

definition still_wanted :: "string list \<Rightarrow> ignore_pattern list \<Rightarrow> context_walk \<Rightarrow> string multiset" where
  "still_wanted always ps w =
     mset (cw_sent w) + filter_mset (wanted always ps) (mset (concat (map dir_paths (cw_stack w))))"

lemma paths_within:
  "p \<in> set (entry_paths dir name e) \<Longrightarrow> relative_path dir name \<noteq> [] \<Longrightarrow> within p (relative_path dir name)"
proof (induction dir name e rule: entry_paths.induct)
  case (4 dir name es)
  show ?case
  proof (cases "p = relative_path dir name")
    case True
    then show ?thesis by simp
  next
    case False
    let ?d = "relative_path dir name"
    from 4(2) False obtain n e where e: "(n, e) \<in> set es" "p \<in> set (entry_paths ?d n e)" by auto
    have below: "relative_path ?d n = ?d @ ''/'' @ n" using 4(3) by (simp add: relative_path_def)
    have "within p (relative_path ?d n)" using 4(1) [OF e(1) refl e(2)] below by simp
    moreover have "within (relative_path ?d n) ?d" unfolding below within_def by blast
    ultimately show ?thesis by (rule within_trans)
  qed
qed simp_all

text \<open>What lies in a directory that is not walked is not wanted.\<close>

lemma pruned_unwanted:
  assumes "reachable_always always ps" and "\<not> has_exclusions ps"
    and "\<not> wanted always ps dir" and "within p dir"
  shows "\<not> wanted always ps p"
proof -
  have "excludes ps p" using excludes_below assms(2-4) unfolding wanted_def by blast
  moreover have "p \<notin> set always"
    using assms unfolding reachable_always_def wanted_def within_def by blast
  ultimately show ?thesis by (simp add: wanted_def)
qed


lemma take_entry_wanted:
  assumes "take_entry always ps dir e w = Inr w'" and "reachable_always always ps" and "relative_path dir (fst e) \<noteq> []"
  shows "still_wanted always ps w' =
    still_wanted always ps w + filter_mset (wanted always ps) (mset (entry_paths dir (fst e) (snd e)))"
proof -
  let ?W = "wanted always ps" and ?rel = "relative_path dir (fst e)"
  have sk: "(?rel \<notin> set always \<and> excludes ps ?rel) = (\<not> ?W ?rel)" by (auto simp: wanted_def)
  note step = assms(1) [unfolded take_entry_def Let_def sk]
  show ?thesis
  proof (cases "snd e")
    case (PlainFile readable)
    then show ?thesis using step by (auto simp: still_wanted_def split: if_splits)
  next
    case BrokenLink
    then show ?thesis using step by (auto simp: still_wanted_def)
  next
    case (Directory d)
    show ?thesis
    proof (cases "?W ?rel \<or> has_exclusions ps")
      case True
      then have "still_wanted always ps w' = still_wanted always ps w +
          filter_mset ?W (mset (?rel # dir_paths (?rel, d)))"
        using step Directory by (auto simp: still_wanted_def)
      moreover have "entry_paths dir (fst e) (snd e) = ?rel # dir_paths (?rel, d)"
        using Directory by (cases d) (simp_all add: list_paths_def)
      ultimately show ?thesis by simp
    next
      case False
      have "filter ?W (entry_paths dir (fst e) (snd e)) = []"
        using pruned_unwanted [OF assms(2), of ?rel] paths_within [OF _ assms(3)] False
        by (auto simp: filter_empty_conv)
      then have "filter_mset ?W (mset (entry_paths dir (fst e) (snd e))) = {#}" by (simp flip: mset_filter)
      then show ?thesis using step Directory False by simp
    qed
  qed
qed

lemma take_entries_wanted:
  "take_entries always ps dir es w = Inr w' \<Longrightarrow> reachable_always always ps \<Longrightarrow> named_in dir es \<Longrightarrow>
     still_wanted always ps w' = still_wanted always ps w + filter_mset (wanted always ps) (mset (list_paths dir es))"
proof (induction es arbitrary: w)
  case (Cons e es)
  then obtain mid where mid: "take_entry always ps dir e w = Inr mid" "take_entries always ps dir es mid = Inr w'"
    by (auto split: sum.splits)
  have "relative_path dir (fst e) \<noteq> []" "named_in dir es" using Cons.prems(3) by (auto simp: named_in_def relative_path_def)
  with take_entry_wanted [OF mid(1) Cons.prems(2)] Cons.IH [OF mid(2) Cons.prems(2)] show ?case
    by (simp add: list_paths_def case_prod_beta)
qed (simp add: list_paths_def)

text \<open>The directories waiting to be read, other than the root, have a name.\<close>

definition stack_named :: "context_walk \<Rightarrow> bool" where
  "stack_named w \<longleftrightarrow> (\<forall>dir es. (dir, Some es) \<in> set (cw_stack w) \<longrightarrow> named_in dir es)"

lemma take_entries_named:
  "take_entries always ps dir es w = Inr w' \<Longrightarrow> named_in dir es \<Longrightarrow> stack_named w \<Longrightarrow> stack_named w'"
proof (induction es arbitrary: w)
  case (Cons e es)
  then obtain mid where mid: "take_entry always ps dir e w = Inr mid" "take_entries always ps dir es mid = Inr w'"
    by (auto split: sum.splits)
  have rel: "relative_path dir (fst e) \<noteq> []" "named_in dir es" using Cons.prems(2) by (auto simp: named_in_def relative_path_def)
  then have "named_in (relative_path dir (fst e)) es'" for es' by (simp add: named_in_def)
  then have "stack_named mid" using mid(1) Cons.prems(3)
    by (auto simp: take_entry_def Let_def stack_named_def split: context_entry.splits if_splits)
  then show ?case by (rule Cons.IH [OF mid(2) rel(2)])
qed simp

lemma walk_sends_wanted:
  "walk_context always ps w = Inr sent \<Longrightarrow> reachable_always always ps \<Longrightarrow> stack_named w \<Longrightarrow>
     mset sent = still_wanted always ps w"
proof (induction always ps w rule: walk_context.induct)
  case (1 always ps w)
  show ?case
  proof (cases "cw_stack w = []")
    case True
    with 1(2) show ?thesis by (simp add: walk_context.simps [of always ps w] still_wanted_def)
  next
    case False
    obtain dir d where top: "last (cw_stack w) = (dir, d)" by (rule prod.exhaust)
    with False 1(2) obtain es where es: "d = Some es"
      by (cases d) (auto simp: walk_context.simps [of always ps w])
    let ?w = "w\<lparr>cw_stack := butlast (cw_stack w)\<rparr>"
    from False top es 1(2) obtain w' where w': "take_entries always ps dir es ?w = Inr w'" "walk_context always ps w' = Inr sent"
      by (auto simp: walk_context.simps [of always ps w] split: sum.splits)
    have stack: "cw_stack w = butlast (cw_stack w) @ [(dir, Some es)]"
      using False top es by (metis append_butlast_last_id)
    have named: "named_in dir es" "stack_named ?w"
      using 1(4) False top es last_in_set [OF False] by (auto simp: stack_named_def dest: in_set_butlastD)
    have "mset sent = still_wanted always ps w'"
      using 1(1) [OF False top [symmetric] es w'(1)] w'(2) 1(3) take_entries_named [OF w'(1) named] by simp
    also have "\<dots> = still_wanted always ps ?w + filter_mset (wanted always ps) (mset (list_paths dir es))"
      by (rule take_entries_wanted [OF w'(1) 1(3) named(1)])
    also have "\<dots> = still_wanted always ps w"
    proof -
      have "concat (map dir_paths (cw_stack w)) = concat (map dir_paths (butlast (cw_stack w))) @ list_paths dir es"
        by (subst stack) simp
      then show ?thesis by (simp add: still_wanted_def)
    qed
    finally show ?thesis .
  qed
qed

text \<open>A tree that can be read is archived.\<close>

definition stack_readable :: "context_walk \<Rightarrow> bool" where
  "stack_readable w \<longleftrightarrow> (\<forall>(dir, d)\<in>set (cw_stack w). entry_readable (Directory d))"

lemma take_entries_succeeds:
  "list_all (\<lambda>(n, e). entry_readable e) es \<Longrightarrow> stack_readable w \<Longrightarrow>
     \<exists>w'. take_entries always ps dir es w = Inr w' \<and> stack_readable w'"
proof (induction es arbitrary: w)
  case (Cons e es)
  have "\<exists>mid. take_entry always ps dir e w = Inr mid \<and> stack_readable mid"
    using Cons.prems
    by (cases "snd e") (auto simp: take_entry_def Let_def stack_readable_def case_prod_beta)
  then obtain mid where "take_entry always ps dir e w = Inr mid" "stack_readable mid" by blast
  with Cons.IH [of mid] Cons.prems(1) show ?case by simp
qed simp

lemma walk_succeeds: "stack_readable w \<Longrightarrow> \<exists>sent. walk_context always ps w = Inr sent"
proof (induction always ps w rule: walk_context.induct)
  case (1 always ps w)
  show ?case
  proof (cases "cw_stack w = []")
    case True
    then show ?thesis by (simp add: walk_context.simps [of always ps w])
  next
    case False
    obtain dir d where top: "last (cw_stack w) = (dir, d)" by (rule prod.exhaust)
    then have "entry_readable (Directory d)" using 1(2) last_in_set [OF False] by (auto simp: stack_readable_def)
    then obtain es where es: "d = Some es" "list_all (\<lambda>(n, e). entry_readable e) es" by (cases d) auto
    have "stack_readable (w\<lparr>cw_stack := butlast (cw_stack w)\<rparr>)"
      using 1(2) by (auto simp: stack_readable_def dest: in_set_butlastD)
    from take_entries_succeeds [OF es(2) this, of always ps dir] obtain w' where
      w': "take_entries always ps dir es (w\<lparr>cw_stack := butlast (cw_stack w)\<rparr>) = Inr w'" "stack_readable w'" by blast
    from 1(1) [OF False top [symmetric] es(1) w'] show ?thesis
      using False top es(1) w'(1) by (simp add: walk_context.simps [of always ps w])
  qed
qed


definition sample_tree :: "(string \<times> context_entry) list" where
  "sample_tree = [(''docker'', Directory (Some [(''Dockerfile'', PlainFile True)])), (''main.rs'', PlainFile True)]"

definition docker_pattern :: ignore_pattern where
  "docker_pattern = \<lparr>ig_exclusion = False, ig_segments = [''docker'']\<rparr>"

lemma parse_docker: "parse_dockerignore ''docker'' = [docker_pattern]"
  by (simp add: parse_dockerignore_def parse_ignore_line_def docker_pattern_def lines_def strip_cr_def filter_map_def
      trim_def trim_matches_def trim_start_matches_def is_space_def starts_with_def Let_def)

lemma docker_excludes: "excludes [docker_pattern] ''docker''" "\<not> excludes [docker_pattern] ''main.rs''"
  by (simp_all add: excludes_def excluded_by_def matches_glob docker_pattern_def matches_ancestor_from.simps)


text \<open>
  A Dockerfile in an ignored directory is not sent, although it is always to be sent: without a pattern that
  re-includes, the directory is not walked.
\<close>

lemma dockerfile_in_ignored_dir_is_missing:
  "append_filtered (Some sample_tree) (parse_dockerignore ''docker'') ''docker/Dockerfile'' = Inr [''main.rs''] \<and>
   ''docker/Dockerfile'' \<in> set (list_paths [] sample_tree) \<and> list_all (\<lambda>(n, e). entry_readable e) sample_tree"
proof -
  have trim: "trim_start_str ''docker/Dockerfile'' ''./'' = ''docker/Dockerfile''"
    by (simp add: trim_start_str_def trim_end_str.simps)
  show ?thesis unfolding parse_docker append_filtered_def trim
    by (simp add: sample_tree_def walk_context.simps take_entry_def relative_path_def docker_excludes Let_def
        has_exclusions_def list_paths_def) (simp add: docker_pattern_def)
qed

section \<open>The directory of git\<close>

lemma split_on_cons: "P x \<Longrightarrow> split_on (a @ x # b) P = split_on a P @ split_on b P"
proof (induction a)
  case Nil
  obtain w ws where "split_on b P = w # ws" by (meson neq_Nil_conv split_on_ne)
  with Nil show ?case by simp
next
  case (Cons c a)
  obtain w ws where "split_on a P = w # ws" by (meson neq_Nil_conv split_on_ne)
  with Cons show ?case by simp
qed

definition git_pattern :: ignore_pattern where
  "git_pattern = \<lparr>ig_exclusion = False, ig_segments = [''.git'']\<rparr>"

text \<open>The pattern of \<open>.git\<close> comes last, whatever the file ends with.\<close>

lemma git_pattern_last: "\<exists>ps. context_patterns True file = ps @ [git_pattern]"
proof -
  let ?text = "case file of Some text \<Rightarrow> text | None \<Rightarrow> []"
  have git: "split_on (''.git'' @ [CHR 0x0A]) (\<lambda>x. x = CHR 0x0A) = [''.git'', []]" by simp
  have "split_char (?text @ [CHR 0x0A] @ ''.git'' @ [CHR 0x0A]) (CHR 0x0A) = split_char ?text (CHR 0x0A) @ [''.git'', []]"
    using split_on_cons [of "\<lambda>x. x = CHR 0x0A" "CHR 0x0A" ?text "''.git'' @ [CHR 0x0A]"] unfolding git by simp
  then have "lines (?text @ [CHR 0x0A] @ ''.git'' @ [CHR 0x0A]) = map strip_cr (split_char ?text (CHR 0x0A)) @ [''.git'']"
    by (simp add: lines_def Let_def strip_cr_def butlast_append)
  moreover have "parse_ignore_line ''.git'' = Some git_pattern"
    by (simp add: parse_ignore_line_def git_pattern_def trim_def trim_matches_def trim_start_matches_def is_space_def
        starts_with_def Let_def)
  ultimately show ?thesis
    by (simp add: context_patterns_def parse_dockerignore_def filter_map_def)
qed

lemma git_excluded:
  assumes "within p ''.git''"
  shows "excludes (context_patterns True file) p"
proof -
  obtain ps where ps: "context_patterns True file = ps @ [git_pattern]" using git_pattern_last by blast
  have "pattern_matches git_pattern ''.git''" by (simp add: matches_glob git_pattern_def)
  with assms have "\<exists>anc. within p anc \<and> pattern_matches git_pattern anc" by blast
  then show ?thesis unfolding ps excludes_snoc excluded_by_eq by (simp add: git_pattern_def)
qed

definition only_wanted :: "string list \<Rightarrow> ignore_pattern list \<Rightarrow> context_walk \<Rightarrow> bool" where
  "only_wanted always ps w \<longleftrightarrow> (\<forall>p\<in>set (cw_sent w). wanted always ps p)"

lemma take_entries_only_wanted:
  "take_entries always ps dir es w = Inr w' \<Longrightarrow> only_wanted always ps w \<Longrightarrow> only_wanted always ps w'"
proof (induction es arbitrary: w)
  case (Cons e es)
  then obtain mid where mid: "take_entry always ps dir e w = Inr mid" "take_entries always ps dir es mid = Inr w'"
    by (auto split: sum.splits)
  have "only_wanted always ps mid" using mid(1) Cons.prems(2)
    by (auto simp: take_entry_def Let_def only_wanted_def wanted_def split: context_entry.splits if_splits)
  then show ?case by (rule Cons.IH [OF mid(2)])
qed simp

lemma walk_only_wanted:
  "walk_context always ps w = Inr sent \<Longrightarrow> only_wanted always ps w \<Longrightarrow> p \<in> set sent \<Longrightarrow> wanted always ps p"
proof (induction always ps w rule: walk_context.induct)
  case (1 always ps w)
  show ?case
  proof (cases "cw_stack w = []")
    case True
    with 1(2-4) show ?thesis by (auto simp: walk_context.simps [of always ps w] only_wanted_def)
  next
    case False
    obtain dir d where top: "last (cw_stack w) = (dir, d)" by (rule prod.exhaust)
    with False 1(2) obtain es where es: "d = Some es"
      by (cases d) (auto simp: walk_context.simps [of always ps w])
    let ?w = "w\<lparr>cw_stack := butlast (cw_stack w)\<rparr>"
    from False top es 1(2) obtain w' where w': "take_entries always ps dir es ?w = Inr w'" "walk_context always ps w' = Inr sent"
      by (auto simp: walk_context.simps [of always ps w] split: sum.splits)
    have "only_wanted always ps ?w" using 1(3) by (simp add: only_wanted_def)
    from 1(1) [OF False top [symmetric] es w'(1) w'(2) take_entries_only_wanted [OF w'(1) this] 1(4)] show ?thesis .
  qed
qed

text \<open>
  with the directory of git left out, nothing of \<open>.git\<close> is in the archive, whatever the \<open>.dockerignore\<close> of the
  context re-includes and whatever it ends with, the Dockerfile alone excepted.
\<close>

theorem git_dir_never_sent:
  assumes "tar_build_context append_dir_all root file dockerfile inline True = Inr sent"
    and "p \<in> set sent" and "within p ''.git''"
  shows "p = trim_start_str dockerfile ''./''"
proof -
  let ?ps = "context_patterns True file" and ?always = "[trim_start_str dockerfile ''./'', ''.dockerignore'']"
  obtain ps where "?ps = ps @ [git_pattern]" using git_pattern_last by blast
  then have "?ps \<noteq> []" by simp
  with assms(1) obtain out where out: "append_filtered root ?ps dockerfile = Inr out"
    "sent = out @ (if inline \<noteq> None then [INLINE_DOCKERFILE] else [])"
    by (auto simp: tar_build_context_def Let_def split: sum.splits)
  have "p \<noteq> INLINE_DOCKERFILE" "p \<noteq> ''.dockerignore''" using assms(3) by (auto simp: within_def INLINE_DOCKERFILE_def)
  with assms(2) out(2) have p: "p \<in> set out" by (auto split: if_splits)
  have "wanted ?always ?ps p"
    by (rule walk_only_wanted [OF out(1) [unfolded append_filtered_def] _ p]) (simp add: only_wanted_def)
  then show ?thesis using git_excluded [OF assms(3)] \<open>p \<noteq> ''.dockerignore''\<close> by (simp add: wanted_def)
qed

lemma reincluding_patterns: "has_exclusions (context_patterns True (Some ''!.git/Dockerfile''))"
  by (simp add: context_patterns_def parse_dockerignore_def parse_ignore_line_def lines_def strip_cr_def filter_map_def
      trim_def trim_matches_def trim_start_matches_def is_space_def starts_with_def has_exclusions_def Let_def)

lemma git_dir_never_sent_witness:
  "''.git/Dockerfile'' = trim_start_str ''.git/Dockerfile'' ''./''"
proof -
  let ?ps = "context_patterns True (Some ''!.git/Dockerfile'')"
  let ?root = "Some [(''.git'', Directory (Some [(''Dockerfile'', PlainFile True), (''config'', PlainFile True)]))]"
  have ex: "excludes ?ps ''.git''" "excludes ?ps ''.git/config''" by (simp_all add: git_excluded within_def)
  have trim: "trim_start_str ''.git/Dockerfile'' ''./'' = ''.git/Dockerfile''"
    by (simp add: trim_start_str_def trim_end_str.simps)
  have "?ps \<noteq> []" using reincluding_patterns by (auto simp: has_exclusions_def)
  moreover have "append_filtered ?root ?ps ''.git/Dockerfile'' = Inr [''.git/Dockerfile'']"
    unfolding append_filtered_def trim
    by (simp add: walk_context.simps take_entry_def relative_path_def ex Let_def reincluding_patterns)
  ultimately have "tar_build_context (\<lambda>_. Inl ''unused'') ?root (Some ''!.git/Dockerfile'') ''.git/Dockerfile'' None True =
      Inr [''.git/Dockerfile'']" by (simp add: tar_build_context_def)
  from git_dir_never_sent [OF this, of "''.git/Dockerfile''"] show ?thesis by (simp add: within_def)
qed

end
