(* ===== verification/Workspace_Paths.thy ===== *)
theory Workspace_Paths
  imports Config Naming "HOL-Library.Word"
begin

text \<open>
  The directories workspaces live in: their ids (\<open>src/daemon/workspace_id.rs\<close>), the domain label two of them
  must not share and the nesting of one in another (\<open>src/daemon/registry.rs\<close>), and the innermost
  workspace around a directory (\<open>src/lib.rs\<close>). A path is its components, which is how \<open>Path\<close>
  compares paths, prefixes and file names; its text is what is displayed and hashed, a character of the
  model standing for a byte.
\<close>

unbundle bit_operations_syntax

section \<open>Paths\<close>

record fs_path =
  fp_absolute :: bool
  fp_names :: "string list"

definition path_text :: "fs_path \<Rightarrow> string" where
  "path_text p = (if fp_absolute p then ''/'' else []) @ join ''/'' (fp_names p)"

definition file_name :: "fs_path \<Rightarrow> string option" where
  "file_name p =
     (if fp_names p = [] \<or> last (fp_names p) = ''..'' then None else Some (last (fp_names p)))"

definition within :: "fs_path \<Rightarrow> fs_path \<Rightarrow> bool" where
  "within p base =
     (fp_absolute p = fp_absolute base \<and> take (length (fp_names base)) (fp_names p) = fp_names base)"

definition child_path :: "fs_path \<Rightarrow> string list \<Rightarrow> fs_path" where
  "child_path p names = p\<lparr>fp_names := fp_names p @ names\<rparr>"

definition stem_of :: "fs_path \<Rightarrow> string" where
  "stem_of p = (case file_name p of Some n \<Rightarrow> n | None \<Rightarrow> ''workspace'')"

definition domain_label :: "fs_path \<Rightarrow> string" where
  "domain_label p = sanitize_label (stem_of p)"

text \<open>\<open>max_by_key\<close> keeps the last of the deepest.\<close>

fun last_max_by :: "('a \<Rightarrow> nat) \<Rightarrow> 'a list \<Rightarrow> 'a option" where
  "last_max_by f [] = None"
| "last_max_by f (x # xs) =
     (case last_max_by f xs of None \<Rightarrow> Some x | Some y \<Rightarrow> if f y < f x then Some x else Some y)"

definition component_count :: "fs_path \<Rightarrow> nat" where
  "component_count p = (if fp_absolute p then 1 else 0) + length (fp_names p)"

definition enclosing_workspace :: "fs_path \<Rightarrow> fs_path list \<Rightarrow> fs_path option" where
  "enclosing_workspace cwd candidates = last_max_by component_count (filter (within cwd) candidates)"

section \<open>Nesting\<close>

definition nesting_conflict :: "fs_path \<Rightarrow> fs_path \<Rightarrow> string option" where
  "nesting_conflict candidate existing =
     (if candidate = existing then None
      else if within candidate existing then
        Some (path_text candidate @ '' is inside the already-wired workspace '' @ path_text existing
          @ ''. Workspaces cannot nest '' @ em_dash
          @ '' wire it separately outside that directory, or stop the outer workspace first.'')
      else if within existing candidate then
        Some (path_text candidate @ '' contains the already-wired workspace '' @ path_text existing
          @ ''. Workspaces cannot nest '' @ em_dash
          @ '' wire a directory that doesn'' @ [CHR 0x27] @ ''t enclose it, or stop the inner workspace first.'')
      else None)"

section \<open>Ids\<close>

definition fnv_step :: "char \<Rightarrow> 64 word \<Rightarrow> 64 word" where
  "fnv_step b hash = (hash XOR of_nat (code b)) * 0x100000001b3"

definition path_hash :: "string \<Rightarrow> 64 word" where
  "path_hash s = fold fnv_step s 0xcbf29ce484222325"

definition hex_digit :: "nat \<Rightarrow> char" where
  "hex_digit n = char_of (if n < 10 then 48 + n else 87 + n)"

fun show_hex :: "nat \<Rightarrow> string" where
  "show_hex n = (if n < 16 then [hex_digit n] else show_hex (n div 16) @ [hex_digit (n mod 16)])"

declare show_hex.simps [simp del]

definition pad_left :: "char \<Rightarrow> nat \<Rightarrow> string \<Rightarrow> string" where
  "pad_left c n s = replicate (n - length s) c @ s"

definition slug :: "string \<Rightarrow> string" where
  "slug stem = map (\<lambda>c. if is_alnum c then lower_char c else CHR ''-'') stem"

definition workspace_id :: "fs_path \<Rightarrow> string" where
  "workspace_id p =
     slug (stem_of p) @ ''-'' @ pad_left (CHR ''0'') 12 (show_hex (unat (path_hash (path_text p))))"

section \<open>Equal ids make equal labels\<close>

text \<open>
  A hash may collide. What follows it in no case: the slug ends at the last dash, and the label is a
  function of the slug, so two directories with the same id also have the same domain label.
\<close>

lemma code_hex_digit: "n < 16 \<Longrightarrow> code (hex_digit n) = (if n < 10 then 48 + n else 87 + n)"
  by (simp add: code_def hex_digit_def)

lemma hex_digit_no_dash: "n < 16 \<Longrightarrow> hex_digit n \<noteq> CHR ''-''"
proof
  assume "n < 16" "hex_digit n = CHR ''-''"
  then have "code (CHR ''-'') = (if n < 10 then 48 + n else 87 + n)" using code_hex_digit by metis
  then show False by (simp add: code_def split: if_splits)
qed

lemma show_hex_no_dash: "CHR ''-'' \<notin> set (show_hex n)"
proof (induction n rule: show_hex.induct)
  case (1 n)
  show ?case
  proof (cases "n < 16")
    case True
    with hex_digit_no_dash [OF True] show ?thesis by (subst show_hex.simps) auto
  next
    case False
    then show ?thesis
      using 1 [OF False] hex_digit_no_dash [of "n mod 16"] by (subst show_hex.simps) auto
  qed
qed

lemma last_dash:
  assumes "a @ [d] @ x = b @ [d] @ y" and "d \<notin> set x" and "d \<notin> set y"
  shows "a = b \<and> x = y"
proof -
  from assms(1) obtain us where "a = b @ us \<and> us @ d # x = d # y \<or> a @ us = b \<and> d # x = us @ d # y"
    by (auto simp: append_eq_append_conv2)
  with assms(2,3) show ?thesis by (cases us) auto
qed

lemma id_slug: "workspace_id p = workspace_id q \<Longrightarrow> slug (stem_of p) = slug (stem_of q)"
proof -
  let ?h = "\<lambda>p. pad_left (CHR ''0'') 12 (show_hex (unat (path_hash (path_text p))))"
  have dash: "CHR ''-'' \<notin> set (?h p)" for p using show_hex_no_dash by (auto simp: pad_left_def)
  assume "workspace_id p = workspace_id q"
  then have "slug (stem_of p) @ [CHR ''-''] @ ?h p = slug (stem_of q) @ [CHR ''-''] @ ?h q"
    by (simp add: workspace_id_def)
  from last_dash [OF this dash dash] show ?thesis by simp
qed

lemma lower_alnum: "is_alnum (lower_char c) = is_alnum c"
  by (auto simp: is_alnum_def lower_char_def is_upper_def is_lower_def is_digit_def code_def)

lemma dash_not_alnum: "\<not> is_alnum (CHR ''-'')"
  by code_simp

lemma push_slug:
  "fold push_label_char (to_lowercase s) out = fold push_label_char (slug s) out"
proof (induction s arbitrary: out)
  case (Cons c s)
  have "push_label_char (lower_char c) out = push_label_char (if is_alnum c then lower_char c else CHR ''-'') out"
    using lower_alnum [of c] dash_not_alnum by (cases "is_alnum c") (simp_all add: push_label_char_def)
  with Cons show ?case by (simp add: slug_def to_lowercase_def)
qed (simp add: slug_def to_lowercase_def)

lemma id_label: "workspace_id p = workspace_id q \<Longrightarrow> domain_label p = domain_label q"
  using id_slug [of p q] by (simp add: domain_label_def sanitize_label_def push_slug)

section \<open>Overlap\<close>

lemma path_within_refl [simp]: "within p p" by (simp add: within_def)

lemma within_iff_prefix:
  "within p base \<longleftrightarrow> fp_absolute p = fp_absolute base \<and> (\<exists>rest. fp_names p = fp_names base @ rest)"
proof
  assume "within p base"
  then show "fp_absolute p = fp_absolute base \<and> (\<exists>rest. fp_names p = fp_names base @ rest)"
    by (metis append_take_drop_id within_def)
qed (auto simp: within_def)

lemma within_anti: "within p q \<Longrightarrow> within q p \<Longrightarrow> p = q"
  by (cases p; cases q) (auto simp: within_iff_prefix)

lemma path_within_trans: "within p q \<Longrightarrow> within q r \<Longrightarrow> within p r"
  unfolding within_iff_prefix by (metis append_assoc)

lemma within_chain: "within p q \<Longrightarrow> within p r \<Longrightarrow> within q r \<or> within r q"
  unfolding within_iff_prefix by (metis append_eq_append_conv2)

definition apart :: "fs_path \<Rightarrow> fs_path \<Rightarrow> bool" where
  "apart p q = (\<not> within p q \<and> \<not> within q p \<and> domain_label p \<noteq> domain_label q)"

lemma apart_sym: "apart p q \<Longrightarrow> apart q p"
  by (auto simp: apart_def)

lemma no_nesting: "nesting_conflict c e = None \<longleftrightarrow> c = e \<or> \<not> within c e \<and> \<not> within e c"
  by (auto simp: nesting_conflict_def)

lemma last_max_by_exact:
  "last_max_by f xs = Some x \<Longrightarrow> x \<in> set xs \<and> (\<forall>y\<in>set xs. f y \<le> f x)"
proof (induction xs arbitrary: x)
  case (Cons z xs)
  show ?case
  proof (cases "last_max_by f xs")
    case None
    with Cons.prems show ?thesis by (cases xs) (auto split: option.splits if_splits)
  next
    case (Some y)
    from Cons.IH [OF Some] Some Cons.prems show ?thesis by (force split: if_splits)
  qed
qed simp

lemma last_max_by_None: "last_max_by f xs = None \<longleftrightarrow> xs = []"
  by (cases xs) (auto split: option.splits)

text \<open>The innermost workspace around a directory, whatever the order of the candidates.\<close>

lemma enclosing_is_innermost:
  "enclosing_workspace cwd candidates = Some w \<longleftrightarrow>
     w \<in> set candidates \<and> within cwd w \<and> (\<forall>v\<in>set candidates. within cwd v \<longrightarrow> within w v)"
proof
  assume some: "enclosing_workspace cwd candidates = Some w"
  from last_max_by_exact [OF some [unfolded enclosing_workspace_def]]
  have w: "w \<in> set candidates" "within cwd w"
    and deepest: "\<And>v. v \<in> set candidates \<Longrightarrow> within cwd v \<Longrightarrow> component_count v \<le> component_count w" by auto
  have "within w v" if "v \<in> set candidates" "within cwd v" for v
    using deepest [OF that] within_chain [OF w(2) that(2)]
    by (auto simp: component_count_def within_iff_prefix split: if_splits)
  with w show "w \<in> set candidates \<and> within cwd w \<and> (\<forall>v\<in>set candidates. within cwd v \<longrightarrow> within w v)" by blast
next
  assume w: "w \<in> set candidates \<and> within cwd w \<and> (\<forall>v\<in>set candidates. within cwd v \<longrightarrow> within w v)"
  then have "filter (within cwd) candidates \<noteq> []" by (auto simp: filter_empty_conv)
  then obtain u where u: "enclosing_workspace cwd candidates = Some u"
    using last_max_by_None by (auto simp: enclosing_workspace_def)
  from last_max_by_exact [OF u [unfolded enclosing_workspace_def]] w
  have "within cwd u" "u \<in> set candidates" "component_count w \<le> component_count u" by auto
  with w have "within w u" "component_count w \<le> component_count u" by auto
  then have "w = u" by (cases w; cases u) (auto simp: within_iff_prefix component_count_def)
  with u show "enclosing_workspace cwd candidates = Some w" by simp
qed

end
