(* ===== verification/Steps.thy ===== *)
theory Steps
  imports Main "HOL-Library.State_Monad"
begin

text \<open>
  Sequences of effectful calls. An \<open>async fn\<close> that is awaited to its end is a computation of
  \<open>State_Monad\<close>; \<open>and_then\<close> is the question mark operator, \<open>keeps\<close> says that a computation leaves a part of
  the state alone, \<open>yields\<close> that its result has a property wherever it starts.
\<close>

named_theorems keeps_intros "computations that leave a part of the state alone"
named_theorems yields_intros "what a computation returns"
named_theorems ok_iff "when a computation returns a value rather than an error"

type_synonym 'a result = "string + 'a"
type_synonym ('s, 'a) fallible = "('s, 'a result) state"

definition ok :: "'a \<Rightarrow> ('s, 'a) fallible" where
  "ok x = State_Monad.return (Inr x)"

definition fails :: "string \<Rightarrow> ('s, 'a) fallible" where
  "fails e = State_Monad.return (Inl e)"

definition and_then :: "('s, 'e + 'a) state \<Rightarrow> ('a \<Rightarrow> ('s, 'e + 'b) state) \<Rightarrow> ('s, 'e + 'b) state" where
  "and_then m f = do {
     r \<leftarrow> m;
     case r of Inl e \<Rightarrow> State_Monad.return (Inl e) | Inr x \<Rightarrow> f x }"

text \<open>\<open>anyhow::Context\<close>: the alternate display of an error lists its contexts, outermost first.\<close>

definition context_of :: "string \<Rightarrow> 'a result \<Rightarrow> 'a result" where
  "context_of what r = (case r of Inl e \<Rightarrow> Inl (what @ '': '' @ e) | Inr x \<Rightarrow> Inr x)"

definition with_context :: "string \<Rightarrow> ('s, 'a) fallible \<Rightarrow> ('s, 'a) fallible" where
  "with_context what m = do { r \<leftarrow> m; State_Monad.return (context_of what r) }"

fun each :: "('a \<Rightarrow> 'v \<Rightarrow> ('s, 'v) state) \<Rightarrow> 'a list \<Rightarrow> 'v \<Rightarrow> ('s, 'v) state" where
  "each f [] v = State_Monad.return v"
| "each f (x # xs) v = do { v' \<leftarrow> f x v; each f xs v' }"

fun each_ok :: "('a \<Rightarrow> 'v \<Rightarrow> ('s, 'v) fallible) \<Rightarrow> 'a list \<Rightarrow> 'v \<Rightarrow> ('s, 'v) fallible" where
  "each_ok f [] v = ok v"
| "each_ok f (x # xs) v = and_then (f x v) (each_ok f xs)"

section \<open>Runs\<close>

lemma run_ok [simp]: "run_state (ok x) s = (Inr x, s)"
  by (simp add: ok_def)

lemma run_fails [simp]: "run_state (fails e) s = (Inl e, s)"
  by (simp add: fails_def)

lemma run_and_then:
  "run_state (and_then m f) s =
     (case run_state m s of (Inl e, s') \<Rightarrow> (Inl e, s') | (Inr x, s') \<Rightarrow> run_state (f x) s')"
  by (auto simp: and_then_def split: prod.splits sum.splits)

lemma run_and_then_Inr [ok_iff]:
  "run_state (and_then m f) s = (Inr y, s') \<longleftrightarrow>
     (\<exists>x mid. run_state m s = (Inr x, mid) \<and> run_state (f x) mid = (Inr y, s'))"
  by (auto simp: run_and_then split: prod.splits sum.splits)

lemma run_with_context:
  "run_state (with_context what m) s = (case run_state m s of (r, s') \<Rightarrow> (context_of what r, s'))"
  by (simp add: with_context_def)

lemma run_with_context_Inr [ok_iff]:
  "run_state (with_context what m) s = (Inr y, s') \<longleftrightarrow> run_state m s = (Inr y, s')"
  by (auto simp: run_with_context context_of_def split: prod.splits sum.splits)

lemma run_each_append:
  "run_state (each f (xs @ ys) v) s = (case run_state (each f xs v) s of (v', s') \<Rightarrow> run_state (each f ys v') s')"
  by (induction xs arbitrary: v s) (simp_all split: prod.splits)

section \<open>What a computation leaves alone\<close>

definition keeps :: "('s \<Rightarrow> 'p) \<Rightarrow> ('s, 'a) state \<Rightarrow> bool" where
  "keeps part m = (\<forall>s. part (snd (run_state m s)) = part s)"

lemma keepsD: "keeps part m \<Longrightarrow> run_state m s = (r, s') \<Longrightarrow> part s' = part s"
  unfolding keeps_def by (metis snd_conv)

lemma keeps_return [keeps_intros]: "keeps part (State_Monad.return x)"
  by (simp add: keeps_def)

lemma keeps_get [keeps_intros]: "keeps part State_Monad.get"
  by (simp add: keeps_def)

lemma keeps_ok [keeps_intros]: "keeps part (ok x)"
  by (simp add: keeps_def)

lemma keeps_fails [keeps_intros]: "keeps part (fails e)"
  by (simp add: keeps_def)

lemma keeps_bind [keeps_intros]: "keeps part m \<Longrightarrow> (\<And>x. keeps part (f x)) \<Longrightarrow> keeps part (State_Monad.bind m f)"
  by (simp add: keeps_def split: prod.splits) (metis snd_conv)

lemma keeps_and_then [keeps_intros]: "keeps part m \<Longrightarrow> (\<And>x. keeps part (f x)) \<Longrightarrow> keeps part (and_then m f)"
  by (simp add: keeps_def run_and_then split: prod.splits sum.splits) (metis snd_conv)

lemma keeps_context [keeps_intros]: "keeps part m \<Longrightarrow> keeps part (with_context what m)"
  by (simp add: keeps_def run_with_context split: prod.splits) (metis snd_conv)

lemma keeps_each [keeps_intros]: "(\<And>x v. keeps part (f x v)) \<Longrightarrow> keeps part (each f xs v)"
  by (induction xs arbitrary: v) (auto intro: keeps_intros)

lemma keeps_each_ok [keeps_intros]: "(\<And>x v. keeps part (f x v)) \<Longrightarrow> keeps part (each_ok f xs v)"
  by (induction xs arbitrary: v) (auto intro: keeps_intros)

lemma keeps_if [keeps_intros]: "(b \<Longrightarrow> keeps part m) \<Longrightarrow> (\<not> b \<Longrightarrow> keeps part m') \<Longrightarrow> keeps part (if b then m else m')"
  by simp

lemma keeps_option [keeps_intros]:
  "(x = None \<Longrightarrow> keeps part m) \<Longrightarrow> (\<And>y. x = Some y \<Longrightarrow> keeps part (f y)) \<Longrightarrow>
     keeps part (case x of None \<Rightarrow> m | Some y \<Rightarrow> f y)"
  by (cases x) auto

lemma keeps_sum [keeps_intros]:
  "(\<And>e. x = Inl e \<Longrightarrow> keeps part (m e)) \<Longrightarrow> (\<And>y. x = Inr y \<Longrightarrow> keeps part (f y)) \<Longrightarrow>
     keeps part (case x of Inl e \<Rightarrow> m e | Inr y \<Rightarrow> f y)"
  by (cases x) auto

lemma keeps_prod [keeps_intros]: "(\<And>a b. x = (a, b) \<Longrightarrow> keeps part (f a b)) \<Longrightarrow> keeps part (case x of (a, b) \<Rightarrow> f a b)"
  by (cases x) auto

lemma keeps_let [keeps_intros]: "(\<And>x. x = t \<Longrightarrow> keeps part (f x)) \<Longrightarrow> keeps part (let x = t in f x)"
  by simp

section \<open>What a computation returns\<close>

definition yields :: "('s, 'a) state \<Rightarrow> ('a \<Rightarrow> bool) \<Rightarrow> bool" where
  "yields m Q = (\<forall>s. Q (fst (run_state m s)))"

definition yields_ok :: "('s, 'e + 'a) state \<Rightarrow> ('a \<Rightarrow> bool) \<Rightarrow> bool" where
  "yields_ok m Q = yields m (\<lambda>r. case r of Inl e \<Rightarrow> True | Inr x \<Rightarrow> Q x)"

lemma yieldsD: "yields m Q \<Longrightarrow> run_state m s = (r, s') \<Longrightarrow> Q r"
  unfolding yields_def by (metis fst_conv)

lemma yields_okD: "yields_ok m Q \<Longrightarrow> run_state m s = (Inr x, s') \<Longrightarrow> Q x"
  unfolding yields_ok_def by (drule (1) yieldsD) simp

lemma yields_ok_return [yields_intros]:
  "(\<And>x. r = Inr x \<Longrightarrow> Q x) \<Longrightarrow> yields_ok (State_Monad.return r) Q"
  by (simp add: yields_ok_def yields_def split: sum.splits)

lemma yields_ok_ok [yields_intros]: "Q x \<Longrightarrow> yields_ok (ok x) Q"
  by (simp add: yields_ok_def yields_def)

lemma yields_ok_fails [yields_intros]: "yields_ok (fails e) Q"
  by (simp add: yields_ok_def yields_def)

lemma yields_ok_bind [yields_intros]: "(\<And>x. yields_ok (f x) Q) \<Longrightarrow> yields_ok (State_Monad.bind m f) Q"
  by (simp add: yields_ok_def yields_def split: prod.splits)

lemma yields_ok_and_then: "yields_ok m R \<Longrightarrow> (\<And>x. R x \<Longrightarrow> yields_ok (f x) Q) \<Longrightarrow> yields_ok (and_then m f) Q"
  by (simp add: yields_ok_def yields_def run_and_then split: prod.splits sum.splits) (metis fst_conv sum.case(2))

lemma yields_ok_and_then_any [yields_intros]: "(\<And>x. yields_ok (f x) Q) \<Longrightarrow> yields_ok (and_then m f) Q"
  by (rule yields_ok_and_then [where R = "\<lambda>_. True"]) (simp_all add: yields_ok_def yields_def split: sum.splits)

lemma yields_ok_if [yields_intros]:
  "(b \<Longrightarrow> yields_ok m Q) \<Longrightarrow> (\<not> b \<Longrightarrow> yields_ok m' Q) \<Longrightarrow> yields_ok (if b then m else m') Q"
  by simp

lemma yields_ok_option [yields_intros]:
  "(x = None \<Longrightarrow> yields_ok m Q) \<Longrightarrow> (\<And>y. x = Some y \<Longrightarrow> yields_ok (f y) Q) \<Longrightarrow>
     yields_ok (case x of None \<Rightarrow> m | Some y \<Rightarrow> f y) Q"
  by (cases x) auto

lemma yields_ok_sum [yields_intros]:
  "(\<And>e. x = Inl e \<Longrightarrow> yields_ok (m e) Q) \<Longrightarrow> (\<And>y. x = Inr y \<Longrightarrow> yields_ok (f y) Q) \<Longrightarrow>
     yields_ok (case x of Inl e \<Rightarrow> m e | Inr y \<Rightarrow> f y) Q"
  by (cases x) auto

lemma yields_ok_let [yields_intros]: "(\<And>x. x = t \<Longrightarrow> yields_ok (f x) Q) \<Longrightarrow> yields_ok (let x = t in f x) Q"
  by simp

lemma yields_ok_prod [yields_intros]:
  "(\<And>a b. x = (a, b) \<Longrightarrow> yields_ok (f a b) Q) \<Longrightarrow> yields_ok (case x of (a, b) \<Rightarrow> f a b) Q"
  by (cases x) auto

section \<open>A part of a larger state\<close>

definition on_part :: "('h \<Rightarrow> 'w) \<Rightarrow> ('w \<Rightarrow> 'h \<Rightarrow> 'h) \<Rightarrow> ('w, 'a) state \<Rightarrow> ('h, 'a) state" where
  "on_part get_part put_part m =
     State (\<lambda>h. case run_state m (get_part h) of (r, w) \<Rightarrow> (r, put_part w h))"

lemma run_on_part [simp]:
  "run_state (on_part g p m) h = (case run_state m (g h) of (r, w) \<Rightarrow> (r, p w h))"
  by (simp add: on_part_def)

lemma keeps_on_part [keeps_intros]: "(\<And>w h. part (p w h) = part h) \<Longrightarrow> keeps part (on_part g p m)"
  by (simp add: keeps_def split: prod.splits)

definition modify_state :: "('s \<Rightarrow> 's) \<Rightarrow> ('s, unit) state" where
  "modify_state f = State (\<lambda>s. ((), f s))"

lemma run_modify_state [simp]: "run_state (modify_state f) s = ((), f s)"
  by (simp add: modify_state_def)

lemma keeps_modify [keeps_intros]: "(\<And>s. part (f s) = part s) \<Longrightarrow> keeps part (modify_state f)"
  by (simp add: keeps_def)

end
