(* ===== verification/Host.thy ===== *)
theory Host
  imports Steps Graph RawNet Workspace_State
begin

text \<open>
  What the orchestrator calls and does not contain: the Docker engine through bollard, the image
  builder, clocks, the files it reads. They are one record of computations on a world of any type
  (\<open>api\<close>), so that a theorem about the orchestrator holds for everything the host may do. The host state
  adds the tables the orchestrator writes (\<open>src/persistence/sqlite/events.rs\<close>, \<open>seeds.rs\<close>), whose
  statements may fail, and the reports it has sent.
\<close>

section \<open>What Docker is asked and answers\<close>

datatype docker_error = ServerError nat string | OtherError string

fun docker_message :: "docker_error \<Rightarrow> string" where
  "docker_message (ServerError _ m) = m"
| "docker_message (OtherError m) = m"

record container_state =
  cst_status :: "string option"
  cst_exit_code :: "int option"
  cst_health :: "string option"

text \<open>
  The fields of an inspection that the source reads. A port is bound to a list of bindings, of
  which the host port is kept; a mount has a type and a name.
\<close>

record inspect_response =
  ir_id :: "string option"
  ir_state :: "container_state option"
  ir_ports :: "(string \<times> string option list option) list"
  ir_networks :: "(string \<times> string option) list"
  ir_mounts :: "(string option \<times> string option) list"

record container_summary =
  sm_names :: "string list option"
  sm_state :: "string option"
  sm_status :: "string option"
  sm_ports :: "(port \<times> string option \<times> port option) list"

datatype restart_policy_name = ALWAYS | ON_FAILURE | UNLESS_STOPPED | NO

record health_config =
  hcf_test :: "string list"
  hcf_interval :: "int option"
  hcf_timeout :: "int option"
  hcf_start_period :: "int option"
  hcf_retries :: "int option"

record create_body =
  cb_image :: string
  cb_cmd :: "string list option"
  cb_env :: "string list"
  cb_labels :: "(string, string) btree"
  cb_exposed_ports :: "string list"
  cb_port_bindings :: "(string, string option) btree"
  cb_user :: "string option"
  cb_working_dir :: "string option"
  cb_stop_signal :: "string option"
  cb_stop_timeout :: int
  cb_healthcheck :: "health_config option"
  cb_binds :: "string list option"
  cb_restart_policy :: restart_policy_name
  cb_cap_add :: "string list option"
  cb_cap_drop :: "string list option"
  cb_privileged :: bool
  cb_extra_hosts :: "string list option"
  cb_dns :: "string list option"
  cb_network :: string
  cb_aliases :: "string list"
  cb_ipv4_address :: "string option"

record ipam_config =
  ic_subnet :: "string option"
  ic_gateway :: "string option"
  ic_ip_range :: "string option"

record network_request =
  nr_name :: string
  nr_labels :: "(string, string) btree"
  nr_ipam :: "ipam_config list option"

text \<open>What goes into the hash of a node's configuration (\<open>DesiredSpec\<close> in \<open>src/orchestrator/spec.rs\<close>).\<close>

record desired_spec =
  dsp_image :: string
  dsp_command :: "string list"
  dsp_env :: "string list"
  dsp_ports :: "(string \<times> port option) list"
  dsp_binds :: "string list"
  dsp_restart :: string
  dsp_stop_signal :: "string option"
  dsp_stop_grace_period :: nat
  dsp_user :: "string option"
  dsp_working_dir :: "string option"
  dsp_labels :: "(string, string) btree"
  dsp_cap_add :: "string list"
  dsp_cap_drop :: "string list"
  dsp_privileged :: bool
  dsp_extra_hosts :: "string list"
  dsp_healthcheck :: "healthcheck option"
  dsp_platform :: "string option"
  dsp_build :: "node_build option"
  dsp_source :: "(string option \<times> bool) option"

section \<open>The interface\<close>

type_synonym ('w, 'a) call = "('w, docker_error + 'a) state"

record 'w api =
  ap_inspect_container :: "string \<Rightarrow> ('w, inspect_response) call"
  ap_list_containers :: "string \<Rightarrow> ('w, container_summary list) call"
  ap_create_container :: "string \<Rightarrow> string option \<Rightarrow> create_body \<Rightarrow> ('w, unit) call"
  ap_start_container :: "string \<Rightarrow> ('w, unit) call"
  ap_stop_container :: "string \<Rightarrow> ('w, unit) call"
  ap_restart_container :: "string \<Rightarrow> ('w, unit) call"
  ap_remove_container :: "string \<Rightarrow> bool \<Rightarrow> ('w, unit) call"
  ap_create_network :: "network_request \<Rightarrow> ('w, unit) call"
  ap_inspect_network :: "string \<Rightarrow> ('w, ipam_config list option) call"
  ap_remove_network :: "string \<Rightarrow> ('w, unit) call"
  ap_create_volume :: "string \<Rightarrow> (string, string) btree \<Rightarrow> ('w, unit) call"
  ap_list_volumes :: "string \<Rightarrow> ('w, string list option) call"
  ap_inspect_volume :: "string \<Rightarrow> ('w, int option) call"
  ap_remove_volume :: "string \<Rightarrow> ('w, unit) call"
  ap_image_is_local :: "string \<Rightarrow> ('w, bool) fallible"
  ap_pull_image :: "string \<Rightarrow> string option \<Rightarrow> ('w, unit) fallible"
  ap_build_node_image :: "string \<Rightarrow> string \<Rightarrow> node_build \<Rightarrow> string \<Rightarrow> string option \<Rightarrow> ('w, unit) fallible"
  ap_ensure_sidecar_image :: "('w, unit) fallible"
  ap_canonicalize :: "string \<Rightarrow> ('w, string) fallible"
  ap_create_dir_all :: "string \<Rightarrow> ('w, unit) fallible"
  ap_path_exists :: "string \<Rightarrow> ('w, bool) state"
  ap_write_file :: "string \<Rightarrow> string \<Rightarrow> ('w, unit) fallible"
  ap_set_mode :: "string \<Rightarrow> nat \<Rightarrow> ('w, unit) fallible"
  ap_rename :: "string \<Rightarrow> string \<Rightarrow> ('w, unit) fallible"
  ap_new_token :: "('w, string) fallible"
  ap_read_file :: "string \<Rightarrow> ('w, string) fallible"
  ap_owner_home :: "('w, string option) state"
  ap_now :: "('w, nat) state"
  ap_sleep :: "nat \<Rightarrow> ('w, unit) state"
  ap_unix_ms :: "('w, nat) state"
  ap_sql_fails :: "('w, string option) state"
  ap_hash :: "desired_spec \<Rightarrow> string"

section \<open>The host\<close>

record event_row =
  ev_node :: string
  ev_action :: string
  ev_seq :: int
  ev_ts :: nat
  ev_step :: string
  ev_status :: string
  ev_detail :: "string option"

record seeded_data =
  sd_data :: string
  sd_at :: nat

record 'w host =
  h_world :: 'w
  h_events :: "event_row list"
  h_seeds :: "(string, seeded_data) btree"
  h_reports :: "run_progress list"

definition world :: "('w, 'a) state \<Rightarrow> ('w host, 'a) state" where
  "world m = on_part h_world (\<lambda>w h. h\<lparr>h_world := w\<rparr>) m"

definition report :: "run_progress \<Rightarrow> ('w host, unit) state" where
  "report p = modify_state (\<lambda>h. h\<lparr>h_reports := h_reports h @ [p]\<rparr>)"

text \<open>A statement either fails, changing nothing, or reads and writes the tables.\<close>

definition sql :: "'w api \<Rightarrow> ('w host \<Rightarrow> 'a \<times> 'w host) \<Rightarrow> ('w host, 'a) fallible" where
  "sql A statement = do {
     failed \<leftarrow> world (ap_sql_fails A);
     case failed of
       Some e \<Rightarrow> fails e
     | None \<Rightarrow> State (\<lambda>h. case statement h of (x, h') \<Rightarrow> (Inr x, h')) }"

definition in_cycle :: "string \<Rightarrow> string \<Rightarrow> event_row \<Rightarrow> bool" where
  "in_cycle n act e = (ev_node e = n \<and> ev_action e = act)"

definition begin_event_cycle :: "'w api \<Rightarrow> string \<Rightarrow> string \<Rightarrow> ('w host, unit) fallible" where
  "begin_event_cycle A n act =
     sql A (\<lambda>h. ((), h\<lparr>h_events := filter (\<lambda>e. \<not> in_cycle n act e) (h_events h)\<rparr>))"

definition next_seq :: "string \<Rightarrow> string \<Rightarrow> event_row list \<Rightarrow> int" where
  "next_seq n act rows = fold (\<lambda>e m. max m (ev_seq e + 1)) (filter (in_cycle n act) rows) 0"

definition append_event ::
  "'w api \<Rightarrow> string \<Rightarrow> string \<Rightarrow> string \<Rightarrow> string \<Rightarrow> string option \<Rightarrow> ('w host, unit) fallible" where
  "append_event A n act step status detail = do {
     ts \<leftarrow> world (ap_unix_ms A);
     sql A (\<lambda>h. ((), h\<lparr>h_events := h_events h @
       [\<lparr>ev_node = n, ev_action = act, ev_seq = next_seq n act (h_events h), ev_ts = ts,
         ev_step = step, ev_status = status, ev_detail = detail\<rparr>]\<rparr>)) }"

definition cycle_has_error :: "'w api \<Rightarrow> string \<Rightarrow> string \<Rightarrow> ('w host, bool) fallible" where
  "cycle_has_error A n act =
     sql A (\<lambda>h. (list_ex (\<lambda>e. in_cycle n act e \<and> ev_status e = ''error'') (h_events h), h))"

definition list_events :: "'w api \<Rightarrow> string \<Rightarrow> string \<Rightarrow> ('w host, event_row list) fallible" where
  "list_events A n act = sql A (\<lambda>h. (sort_key ev_seq (filter (in_cycle n act) (h_events h)), h))"

definition load_seed :: "'w api \<Rightarrow> string \<Rightarrow> ('w host, seeded_data option) fallible" where
  "load_seed A n = sql A (\<lambda>h. (map_of (h_seeds h) n, h))"

definition save_seed :: "'w api \<Rightarrow> string \<Rightarrow> string \<Rightarrow> ('w host, unit) fallible" where
  "save_seed A n d = do {
     ts \<leftarrow> world (ap_unix_ms A);
     sql A (\<lambda>h. ((), h\<lparr>h_seeds := bt_insert n \<lparr>sd_data = d, sd_at = ts div 1000\<rparr> (h_seeds h)\<rparr>)) }"

section \<open>Narration\<close>

text \<open>
  \<open>Events\<close> of \<open>src/orchestrator/events.rs\<close>: a failure to record is printed and dropped.
\<close>

definition ev_begin :: "'w api \<Rightarrow> string \<Rightarrow> string \<Rightarrow> ('w host, unit) state" where
  "ev_begin A n act = do { _ \<leftarrow> begin_event_cycle A n act; State_Monad.return () }"

definition ev_record ::
  "'w api \<Rightarrow> string \<Rightarrow> string \<Rightarrow> string \<Rightarrow> string \<Rightarrow> string option \<Rightarrow> ('w host, unit) state" where
  "ev_record A n act step status detail = do {
     _ \<leftarrow> append_event A n act step status detail;
     State_Monad.return () }"

definition ev_running :: "'w api \<Rightarrow> string \<Rightarrow> string \<Rightarrow> string \<Rightarrow> ('w host, unit) state" where
  "ev_running A n act step = ev_record A n act step ''running'' None"

definition ev_ok :: "'w api \<Rightarrow> string \<Rightarrow> string \<Rightarrow> string \<Rightarrow> ('w host, unit) state" where
  "ev_ok A n act step = ev_record A n act step ''ok'' None"

definition ev_failed :: "'w api \<Rightarrow> string \<Rightarrow> string \<Rightarrow> string \<Rightarrow> string \<Rightarrow> ('w host, unit) state" where
  "ev_failed A n act step detail = ev_record A n act step ''error'' (Some detail)"

definition ev_failed_unless_reported ::
  "'w api \<Rightarrow> string \<Rightarrow> string \<Rightarrow> string \<Rightarrow> string \<Rightarrow> ('w host, unit) state" where
  "ev_failed_unless_reported A n act step detail = do {
     already \<leftarrow> cycle_has_error A n act;
     if already = Inr True then State_Monad.return () else ev_failed A n act step detail }"

definition open_steps :: "event_row list \<Rightarrow> string list" where
  "open_steps rows =
     fold (\<lambda>e open_now. filter (\<lambda>s. s \<noteq> ev_step e) open_now @
             (if ev_status e = ''running'' then [ev_step e] else [])) rows []"

definition record_start_called_off :: "'w api \<Rightarrow> string \<Rightarrow> ('w host, unit) state" where
  "record_start_called_off A n = do {
     rows \<leftarrow> list_events A n ''start'';
     case rows of
       Inl _ \<Rightarrow> State_Monad.return ()
     | Inr rows \<Rightarrow> each (\<lambda>s _. ev_record A n ''start'' s ''cancelled'' (Some ''called off'')) (open_steps rows) () }"

section \<open>What they leave alone\<close>

lemma keeps_world [keeps_intros]: "(\<And>w h. part (h\<lparr>h_world := w\<rparr>) = part h) \<Longrightarrow> keeps part (world m)"
  unfolding world_def by (rule keeps_on_part)

lemma keeps_sql:
  "(\<And>w h. part (h\<lparr>h_world := w\<rparr>) = part h) \<Longrightarrow> (\<And>h. part (snd (f h)) = part h) \<Longrightarrow> keeps part (sql A f)"
proof -
  assume w: "\<And>w h. part (h\<lparr>h_world := w\<rparr>) = part h" and f: "\<And>h. part (snd (f h)) = part h"
  have "keeps part (State (\<lambda>h. case f h of (x, h') \<Rightarrow> (Inr x, h')))"
    using f by (simp add: keeps_def split: prod.splits) (metis snd_conv)
  then show ?thesis unfolding sql_def by (intro keeps_intros w) simp_all
qed

lemma run_world [simp]:
  "run_state (world m) h = (case run_state m (h_world h) of (r, w) \<Rightarrow> (r, h\<lparr>h_world := w\<rparr>))"
  by (simp add: world_def)

lemma run_report [simp]: "run_state (report p) h = ((), h\<lparr>h_reports := h_reports h @ [p]\<rparr>)"
  by (simp add: report_def)

lemmas ev_defs = ev_begin_def ev_record_def ev_running_def ev_ok_def ev_failed_def ev_failed_unless_reported_def
lemmas sql_defs = begin_event_cycle_def append_event_def cycle_has_error_def list_events_def load_seed_def save_seed_def

lemma keeps_reports_sql [keeps_intros]:
  "keeps h_reports (begin_event_cycle A n act)" "keeps h_reports (append_event A n act s t d)"
  "keeps h_reports (cycle_has_error A n act)" "keeps h_reports (list_events A n act)"
  "keeps h_reports (load_seed A n)" "keeps h_reports (save_seed A n x)"
  unfolding sql_defs by (intro keeps_intros keeps_sql; simp)+

lemma keeps_seeds_sql [keeps_intros]:
  "keeps h_seeds (begin_event_cycle A n act)" "keeps h_seeds (append_event A n act s t d)"
  "keeps h_seeds (cycle_has_error A n act)" "keeps h_seeds (list_events A n act)" "keeps h_seeds (load_seed A n)"
  unfolding sql_defs by (intro keeps_intros keeps_sql; simp)+

lemma keeps_ev:
  assumes "\<And>n act. keeps part (begin_event_cycle A n act)" "\<And>n act s t d. keeps part (append_event A n act s t d)"
    "\<And>n act. keeps part (cycle_has_error A n act)"
  shows "keeps part (ev_begin A n act)" "keeps part (ev_record A n act s t d)" "keeps part (ev_running A n act s)"
    "keeps part (ev_ok A n act s)" "keeps part (ev_failed A n act s e)" "keeps part (ev_failed_unless_reported A n act s e)"
  unfolding ev_defs by (intro keeps_intros assms)+

lemmas keeps_ev_reports [keeps_intros] = keeps_ev [OF keeps_reports_sql(1,2,3)]
lemmas keeps_ev_seeds [keeps_intros] = keeps_ev [OF keeps_seeds_sql(1,2,3)]

end
