(* ===== verification/Docker_Client.thy ===== *)
theory Docker_Client
  imports Host
begin

text \<open>
  The wrappers over the Docker engine: containers (\<open>src/docker/container.rs\<close>), volumes
  (\<open>volume.rs\<close>) and networks (\<open>network.rs\<close>), and what is told of images (\<open>image.rs\<close>). Listing logs, exec and the
  building of images are not modelled.
\<close>

section \<open>Running a container\<close>

definition restart_policy_of :: "string \<Rightarrow> restart_policy_name" where
  "restart_policy_of restart =
     (if restart = ''always'' then ALWAYS else if restart = ''on-failure'' then ON_FAILURE
      else if restart = ''unless-stopped'' then UNLESS_STOPPED else NO)"

record run_opts =
  ro_name :: string
  ro_network :: string
  ro_aliases :: "string list"
  ro_ipv4_address :: "string option"
  ro_env :: "string list"
  ro_ports :: "(string \<times> port option) list"
  ro_image :: string
  ro_command :: "string list"
  ro_project :: string
  ro_service_name :: string
  ro_binds :: "string list"
  ro_restart_policy :: string
  ro_stop_signal :: "string option"
  ro_stop_grace_period :: nat
  ro_user :: "string option"
  ro_working_dir :: "string option"
  ro_labels :: "(string, string) btree"
  ro_cap_add :: "string list"
  ro_cap_drop :: "string list"
  ro_privileged :: bool
  ro_extra_hosts :: "string list"
  ro_dns :: "string list"
  ro_healthcheck :: "healthcheck option"
  ro_platform :: "string option"

definition run_labels :: "run_opts \<Rightarrow> (string, string) btree" where
  "run_labels opts =
     (let labels = bt_insert ''com.docker.compose.oneoff'' ''False''
            (bt_insert ''com.docker.compose.service'' (ro_service_name opts)
              (bt_insert ''com.docker.compose.project'' (ro_project opts) (ro_labels opts)));
          hash = (case map_of labels ''fghj.config_hash'' of Some h \<Rightarrow> h | None \<Rightarrow> [])
      in bt_insert ''com.docker.compose.config-hash'' hash labels)"

definition port_key :: "string \<Rightarrow> string" where
  "port_key p = hd (split_char p (CHR ''/'')) @ ''/tcp''"

text \<open>Seconds become nanoseconds as a 64-bit product that wraps, read as a signed number.\<close>

definition nanos :: "nat \<Rightarrow> int" where
  "nanos s = sint (of_nat s * 1000000000 :: 64 word)"

definition health_config_of :: "healthcheck \<Rightarrow> health_config" where
  "health_config_of hc =
     \<lparr>hcf_test = hc_test hc, hcf_interval = map_option nanos (hc_interval hc),
      hcf_timeout = map_option nanos (hc_timeout hc), hcf_start_period = map_option nanos (hc_start_period hc),
      hcf_retries = map_option int (hc_retries hc)\<rparr>"

definition none_if_empty :: "'a list \<Rightarrow> 'a list option" where
  "none_if_empty xs = (if xs = [] then None else Some xs)"

definition create_body_of :: "run_opts \<Rightarrow> create_body" where
  "create_body_of opts =
     \<lparr>cb_image = ro_image opts, cb_cmd = none_if_empty (ro_command opts), cb_env = ro_env opts,
      cb_labels = run_labels opts, cb_exposed_ports = map (\<lambda>p. port_key (fst p)) (ro_ports opts),
      cb_port_bindings = bt_of_list (map (\<lambda>(p, hp). (port_key p, map_option (\<lambda>x. show_nat (unat x)) hp)) (ro_ports opts)),
      cb_user = ro_user opts, cb_working_dir = ro_working_dir opts, cb_stop_signal = ro_stop_signal opts,
      cb_stop_timeout = sint (of_nat (ro_stop_grace_period opts) :: 64 word),
      cb_healthcheck = map_option health_config_of (ro_healthcheck opts),
      cb_binds = none_if_empty (ro_binds opts), cb_restart_policy = restart_policy_of (ro_restart_policy opts),
      cb_cap_add = none_if_empty (ro_cap_add opts), cb_cap_drop = none_if_empty (ro_cap_drop opts),
      cb_privileged = ro_privileged opts, cb_extra_hosts = none_if_empty (ro_extra_hosts opts),
      cb_dns = none_if_empty (ro_dns opts), cb_network = ro_network opts, cb_aliases = ro_aliases opts,
      cb_ipv4_address = ro_ipv4_address opts\<rparr>"

definition engine :: "string \<Rightarrow> ('w, 'a) call \<Rightarrow> ('w, 'a) fallible" where
  "engine what m = do {
     r \<leftarrow> m;
     State_Monad.return (case r of Inl e \<Rightarrow> Inl (what @ '': '' @ docker_message e) | Inr x \<Rightarrow> Inr x) }"

definition stop_engine_container :: "'w api \<Rightarrow> string \<Rightarrow> ('w, unit) state" where
  "stop_engine_container A name = do { _ \<leftarrow> ap_stop_container A name; State_Monad.return () }"

definition stop_and_remove :: "'w api \<Rightarrow> string \<Rightarrow> ('w, unit) state" where
  "stop_and_remove A name = do {
     _ \<leftarrow> ap_stop_container A name;
     _ \<leftarrow> ap_remove_container A name False;
     State_Monad.return () }"

text \<open>The anonymous volumes of the container go too.\<close>

definition discard :: "'w api \<Rightarrow> string \<Rightarrow> ('w, unit) state" where
  "discard A name = do {
     _ \<leftarrow> ap_stop_container A name;
     _ \<leftarrow> ap_remove_container A name True;
     State_Monad.return () }"

definition run_container :: "'w api \<Rightarrow> run_opts \<Rightarrow> ('w, unit) fallible" where
  "run_container A opts =
     (let what = ''docker run '' @ ro_name opts @ '' failed'' in
      do {
        _ \<leftarrow> stop_and_remove A (ro_name opts);
        and_then (engine what (ap_create_container A (ro_name opts) (ro_platform opts) (create_body_of opts))) (\<lambda>_.
          do {
            r \<leftarrow> ap_start_container A (ro_name opts);
            case r of
              Inr _ \<Rightarrow> ok ()
            | Inl e \<Rightarrow> do {
                _ \<leftarrow> ap_remove_container A (ro_name opts) False;
                fails (what @ '': '' @ docker_message e) } }) })"

definition restart_engine_container :: "'w api \<Rightarrow> string \<Rightarrow> ('w, unit) fallible" where
  "restart_engine_container A name = engine (''docker restart '' @ name @ '' failed'') (ap_restart_container A name)"

section \<open>Looking at containers\<close>

definition inspect_engine :: "'w api \<Rightarrow> string \<Rightarrow> ('w, inspect_response option) fallible" where
  "inspect_engine A name = do {
     r \<leftarrow> ap_inspect_container A name;
     case r of
       Inr entry \<Rightarrow> ok (Some entry)
     | Inl (ServerError status m) \<Rightarrow>
         if status = 404 then ok None else fails (''docker inspect_container failed: '' @ m)
     | Inl (OtherError m) \<Rightarrow> fails (''docker inspect_container failed: '' @ m) }"

record container_status =
  cts_status :: string
  cts_exit_code :: "int option"
  cts_host_ports :: "(string \<times> port) list"

text \<open>The map is a \<open>HashMap\<close>: a later entry for a key replaces an earlier one.\<close>

definition host_port_of :: "container_status \<Rightarrow> string \<Rightarrow> port option" where
  "host_port_of s p =
     map_of (rev (cts_host_ports s)) (if CHR ''/'' \<in> set p then p else p @ ''/tcp'')"

definition published_ports :: "container_status \<Rightarrow> (string \<times> port) list" where
  "published_ports s =
     map (\<lambda>(p, host). ((case strip_prefix (rev p) (rev ''/tcp'') of Some r \<Rightarrow> rev r | None \<Rightarrow> p), host)) (cts_host_ports s)"

definition bound_port :: "string option list option \<Rightarrow> port option" where
  "bound_port bindings = (case bindings of
     Some (Some p # _) \<Rightarrow> parse_u16 p
   | _ \<Rightarrow> None)"

definition status_of_inspection :: "inspect_response \<Rightarrow> container_status" where
  "status_of_inspection r =
     \<lparr>cts_status = (case ir_state r of
          Some s \<Rightarrow> (case cst_status s of Some x \<Rightarrow> x | None \<Rightarrow> ''unknown'')
        | None \<Rightarrow> ''unknown''),
      cts_exit_code = (case ir_state r of Some s \<Rightarrow> cst_exit_code s | None \<Rightarrow> None),
      cts_host_ports = filter_map (\<lambda>(k, b). map_option (Pair k) (bound_port b)) (ir_ports r)\<rparr>"

definition inspect_status :: "'w api \<Rightarrow> string \<Rightarrow> ('w, container_status option) fallible" where
  "inspect_status A name =
     and_then (inspect_engine A name) (\<lambda>r. ok (map_option status_of_inspection r))"

definition parse_i64 :: "string \<Rightarrow> int option" where
  "parse_i64 s =
     (let (neg, ds) = (case s of
            c # r \<Rightarrow> if c = CHR ''-'' then (True, r) else if c = CHR ''+'' then (False, r) else (False, s)
          | [] \<Rightarrow> (False, s));
          v = int (digits_value ds)
      in if ds = [] \<or> \<not> list_all is_digit ds then None
         else if neg then (if v \<le> 2 ^ 63 then Some (- v) else None)
         else if v < 2 ^ 63 then Some v else None)"

definition exit_code_in :: "string \<Rightarrow> int option" where
  "exit_code_in text =
     (case split_once text (CHR ''('') of
        None \<Rightarrow> None
      | Some (_, rest) \<Rightarrow>
          (case split_once rest (CHR '')'') of
             None \<Rightarrow> None
           | Some (c, _) \<Rightarrow> parse_i64 (trim c)))"

definition listed_state :: "container_summary \<Rightarrow> string" where
  "listed_state s = (case sm_state s of Some x \<Rightarrow> if x = [] then ''unknown'' else x | None \<Rightarrow> ''unknown'')"

definition listed_ports :: "container_summary \<Rightarrow> (string \<times> port) list" where
  "listed_ports s = filter_map (\<lambda>(private, typ, public).
       map_option (Pair (show_nat (unat private) @ ''/'' @
         (case typ of Some t \<Rightarrow> if t = [] then ''tcp'' else t | None \<Rightarrow> ''tcp''))) public) (sm_ports s)"

definition list_one :: "'w api \<Rightarrow> container_summary \<Rightarrow> (string, container_status) btree \<Rightarrow>
    ('w, (string, container_status) btree) fallible" where
  "list_one A s statuses =
     (case sm_names s of
        Some (n # _) \<Rightarrow>
          (let name = trim_start_matches n (\<lambda>c. c = CHR ''/'');
               status = listed_state s
           in and_then
                (case (case sm_status s of Some t \<Rightarrow> exit_code_in t | None \<Rightarrow> None) of
                   Some x \<Rightarrow> ok (Some x)
                 | None \<Rightarrow>
                     if status \<in> {''exited'', ''dead''}
                     then and_then (inspect_status A name) (\<lambda>r. ok (case r of Some x \<Rightarrow> cts_exit_code x | None \<Rightarrow> None))
                     else ok (Some 0))
                (\<lambda>exit_code. ok (bt_insert name
                   \<lparr>cts_status = status, cts_exit_code = exit_code, cts_host_ports = listed_ports s\<rparr> statuses)))
      | _ \<Rightarrow> ok statuses)"

definition list_statuses :: "'w api \<Rightarrow> string \<Rightarrow> ('w, (string, container_status) btree) fallible" where
  "list_statuses A project =
     and_then (engine ''docker list_containers failed'' (ap_list_containers A (''com.docker.compose.project='' @ project)))
       (\<lambda>listed. each_ok (list_one A) listed [])"

definition inspect_network_ip :: "'w api \<Rightarrow> string \<Rightarrow> string \<Rightarrow> ('w, string option) fallible" where
  "inspect_network_ip A name network =
     and_then (inspect_engine A name) (\<lambda>r. ok (case r of
        None \<Rightarrow> None
      | Some i \<Rightarrow> (case map_of (ir_networks i) network of
          Some (Some ip) \<Rightarrow> if ip = [] then None else Some ip
        | _ \<Rightarrow> None)))"

definition inspect_health :: "'w api \<Rightarrow> string \<Rightarrow> ('w, string option) fallible" where
  "inspect_health A name =
     and_then (inspect_engine A name) (\<lambda>r. ok (case r of
        None \<Rightarrow> None
      | Some i \<Rightarrow> (case ir_state i of Some s \<Rightarrow> cst_health s | None \<Rightarrow> None)))"

section \<open>Volumes\<close>

definition ensure_volume :: "'w api \<Rightarrow> string \<Rightarrow> string \<Rightarrow> ('w, unit) fallible" where
  "ensure_volume A name project =
     engine ''docker create_volume failed'' (ap_create_volume A name [(''com.docker.compose.project'', project)])"

definition list_volumes :: "'w api \<Rightarrow> string \<Rightarrow> ('w, string list) fallible" where
  "list_volumes A project =
     and_then (engine ''docker list_volumes failed'' (ap_list_volumes A (''com.docker.compose.project='' @ project)))
       (\<lambda>r. ok (case r of Some vs \<Rightarrow> vs | None \<Rightarrow> []))"

definition remove_volume :: "'w api \<Rightarrow> string \<Rightarrow> ('w, unit) fallible" where
  "remove_volume A name = engine (''docker remove_volume '' @ name @ '' failed'') (ap_remove_volume A name)"

definition show_int :: "int \<Rightarrow> string" where
  "show_int i = (if i < 0 then ''-'' @ show_nat (nat (- i)) else show_nat (nat i))"

definition mount_identity :: "'w api \<Rightarrow> string option \<times> string option \<Rightarrow> string list \<Rightarrow> ('w, string list) fallible" where
  "mount_identity A m identity =
     (case m of
        (Some typ, Some name) \<Rightarrow>
          if typ \<noteq> ''volume'' then ok identity
          else and_then (engine ''docker inspect_volume failed'' (ap_inspect_volume A name)) (\<lambda>created.
            ok (identity @ [name @ ''@'' @ (case created of Some at \<Rightarrow> show_int at | None \<Rightarrow> [])]))
      | _ \<Rightarrow> ok identity)"

definition data_identity :: "'w api \<Rightarrow> string \<Rightarrow> ('w, string list option) fallible" where
  "data_identity A container =
     and_then (inspect_engine A container) (\<lambda>r. case r of
        None \<Rightarrow> ok None
      | Some i \<Rightarrow>
          and_then (each_ok (mount_identity A) (ir_mounts i) []) (\<lambda>identity.
            ok (Some (sort (if identity = []
              then [''container:'' @ (case ir_id i of Some x \<Rightarrow> x | None \<Rightarrow> [])] else identity)))))"

section \<open>Images (image.rs)\<close>

text \<open>The last place of a character.\<close>

fun rfind_char :: "string \<Rightarrow> char \<Rightarrow> nat option" where
  "rfind_char [] c = None"
| "rfind_char (x # xs) c =
     (case rfind_char xs c of Some i \<Rightarrow> Some (Suc i) | None \<Rightarrow> if x = c then Some 0 else None)"

definition split_reference :: "string \<Rightarrow> string \<times> string" where
  "split_reference reference =
     (case split_once reference CHR ''@'' of
        Some (name, digest) \<Rightarrow> (name, digest)
      | None \<Rightarrow>
          (case rfind_char reference CHR '':'' of
             Some i \<Rightarrow>
               if CHR ''/'' \<notin> set (drop i reference) then (take i reference, drop (i + 1) reference)
               else (reference, ''latest'')
           | None \<Rightarrow> (reference, ''latest'')))"

text \<open>What the log shows of a pull: the status of a layer or of the whole, but not every tick.\<close>

definition pull_line :: "string \<Rightarrow> string option \<times> string option \<Rightarrow> string option" where
  "pull_line tag info =
     (case info of
        (_, None) \<Rightarrow> None
      | (layer, Some status) \<Rightarrow>
          if status \<in> {''Downloading'', ''Extracting'', ''Waiting'', ''Verifying Checksum''} then None
          else Some ((case layer of Some i \<Rightarrow> if i \<noteq> tag then i @ '': '' else [] | None \<Rightarrow> []) @ status @ [CHR 0x0A]))"

definition pull_lines :: "string \<Rightarrow> (string option \<times> string option) list \<Rightarrow> string list" where
  "pull_lines reference infos = filter_map (pull_line (snd (split_reference reference))) infos"

definition failure_marker :: string where
  "failure_marker = [CHR 0x22] @ '' did not complete successfully: exit code: ''"

definition split_step_failure :: "string \<Rightarrow> string option \<times> string option" where
  "split_step_failure message =
     (case strip_prefix message (''process '' @ [CHR 0x22]) of
        None \<Rightarrow> (None, None)
      | Some rest \<Rightarrow>
          (case find_str rest failure_marker of
             None \<Rightarrow> (None, None)
           | Some at \<Rightarrow>
               (let step = take at rest; exit = trim (drop (at + length failure_marker) rest)
                in if step = [] \<or> exit = [] then (None, None) else (Some step, Some exit))))"

definition describe_step_failure :: "string \<Rightarrow> string \<Rightarrow> string \<Rightarrow> string \<Rightarrow> string" where
  "describe_step_failure tag dockerfile context_dir message =
     (let message = trim message in
      ''build of '' @ tag @ '' failed'' @
      (case split_step_failure message of
         (Some step, Some exit) \<Rightarrow> [CHR 0x0A] @ ''failing step: '' @ step @ [CHR 0x0A] @ ''exit code: '' @ exit
       | _ \<Rightarrow> [CHR 0x0A] @ message) @
      [CHR 0x0A, CHR 0x0A] @ ''Step output is not captured: BuildKit streams it over a gRPC '' @
      ''channel the Docker API client fghjd uses does not expose. To see it:'' @ [CHR 0x0A] @ ''  docker build -f '' @
      dockerfile @ '' '' @ context_dir)"

record image_platform =
  ip_architecture :: string
  ip_os :: string
  ip_variant :: "string option"

definition parse_platform :: "string \<Rightarrow> image_platform result" where
  "parse_platform platform =
     (let parts = split_on platform (\<lambda>c. c = CHR ''/'');
          part = (\<lambda>i. if i < length parts then Some (parts ! i) else None);
          os = (case part 0 of Some s \<Rightarrow> s | None \<Rightarrow> []);
          architecture = (case part 1 of Some s \<Rightarrow> s | None \<Rightarrow> [])
      in if os = [] \<or> architecture = []
         then Inl (''`platform: '' @ platform @ ''` is not a valid OCI platform:              it needs at least os/arch, e.g. linux/arm64'')
         else Inr \<lparr>ip_architecture = architecture, ip_os = os, ip_variant = part 2\<rparr>)"

text \<open>A tagged name splits into the name, whose registry may have a port, and the tag.\<close>

lemma rfind_append: "c \<notin> set ys \<Longrightarrow> rfind_char (xs @ c # ys) c = Some (length xs)"
proof -
  assume "c \<notin> set ys"
  then have "rfind_char ys c = None" by (induction ys) auto
  then show ?thesis by (induction xs) auto
qed

lemma tagged_reference:
  assumes "CHR ''@'' \<notin> set name" and "set tag \<inter> {CHR ''@'', CHR '':'', CHR ''/''} = {}"
  shows "split_reference (name @ CHR '':'' # tag) = (name, tag)"
proof -
  have "split_once (name @ CHR '':'' # tag) CHR ''@'' = None"
    using assms by (simp add: split_once_None)
  moreover have "rfind_char (name @ CHR '':'' # tag) CHR '':'' = Some (length name)"
    using assms by (intro rfind_append) blast
  ultimately show ?thesis using assms(2) by (simp add: split_reference_def)
qed

lemma untagged_reference:
  assumes "CHR ''@'' \<notin> set name" and "CHR '':'' \<notin> set path" and "CHR ''@'' \<notin> set path"
  shows "split_reference (name @ CHR ''/'' # path) =
    (name @ CHR ''/'' # path, ''latest'')"
proof -
  have none: "split_once (name @ CHR ''/'' # path) CHR ''@'' = None"
    using assms by (simp add: split_once_None)
  have late: "rfind_char xs c = Some i \<Longrightarrow> i < length xs" for xs c i
    by (induction xs arbitrary: i) (auto split: option.splits if_splits)
  have before: "i < length name" if "rfind_char (name @ CHR ''/'' # path) CHR '':'' = Some i" for i
  proof -
    have "rfind_char path CHR '':'' = None" using assms(2) by (induction path) auto
    then have "rfind_char (CHR ''/'' # path) CHR '':'' = None" by simp
    then have "rfind_char (name @ CHR ''/'' # path) CHR '':'' = rfind_char name CHR '':''"
      by (induction name) (simp_all split: option.splits)
    with that late show ?thesis by simp
  qed
  show ?thesis using none before by (auto simp: split_reference_def split: option.splits)
qed

lemma step_failure_found:
  assumes "step \<noteq> []" "find_str (step @ failure_marker @ exit) failure_marker = Some (length step)" "trim exit \<noteq> []"
  shows "split_step_failure (''process '' @ [CHR 0x22] @ step @ failure_marker @ exit) = (Some step, Some (trim exit))"
  using assms by (simp add: split_step_failure_def Let_def)

end
