(* ===== verification/Node_Spec.thy ===== *)
theory Node_Spec
  imports Docker_Client Naming
begin

text \<open>
  The container a node's configuration asks for (\<open>src/orchestrator/node_spec.rs\<close>), the hash that tells
  whether it has changed (\<open>spec.rs\<close>), and env files (\<open>src/util/env_file.rs\<close>). Building an image is a call
  of the interface. An \<open>expect\<close> that fails is an error here.
\<close>

section \<open>Env files\<close>

definition quoted_with :: "char \<Rightarrow> string \<Rightarrow> bool" where
  "quoted_with q v = (starts_with v [q] \<and> ends_with v [q])"

definition unquote :: "string \<Rightarrow> string" where
  "unquote v =
     (if 2 \<le> length v \<and> (quoted_with (CHR 0x22) v \<or> quoted_with (CHR 0x27) v)
      then butlast (tl v) else v)"

definition env_line :: "string \<Rightarrow> string option" where
  "env_line l =
     (case split_once l (CHR ''='') of
        None \<Rightarrow> None
      | Some (key, v) \<Rightarrow> Some (trim key @ ''='' @ unquote (trim v)))"

definition parse_env_file :: "string \<Rightarrow> string list" where
  "parse_env_file contents =
     filter_map env_line
       (filter (\<lambda>l. l \<noteq> [] \<and> \<not> starts_with l ''#'') (map trim (lines contents)))"

section \<open>Paths on the host\<close>

definition join_path :: "string \<Rightarrow> string \<Rightarrow> string" where
  "join_path base p =
     (if starts_with p ''/'' then p
      else if base = [] \<or> ends_with base ''/'' then base @ p
      else base @ ''/'' @ p)"

definition host_path :: "string \<Rightarrow> string \<Rightarrow> string option \<Rightarrow> string result" where
  "host_path raw repo_root home =
     (let rest = (case strip_prefix raw ''~'' of
            Some [] \<Rightarrow> Some []
          | Some r \<Rightarrow> strip_prefix r ''/''
          | None \<Rightarrow> None)
      in case rest of
           None \<Rightarrow> Inr (join_path repo_root raw)
         | Some rest \<Rightarrow>
             (case home of
                None \<Rightarrow> Inl (raw @ '' is under a home directory, but this workspace's owner has none'')
              | Some home \<Rightarrow> Inr (join_path home rest)))"

section \<open>The spec and its hash\<close>

record node_spec =
  sp_container_name :: string
  sp_domain :: string
  sp_raw_domain :: string
  sp_aliases :: "string list"
  sp_image :: string
  sp_port_list :: "(string \<times> port option) list"
  sp_binds :: "string list"
  sp_env :: "string list"

definition desired_spec_of :: "node \<Rightarrow> node_spec \<Rightarrow> desired_spec" where
  "desired_spec_of n spec =
     \<lparr>dsp_image = sp_image spec, dsp_command = n_command n, dsp_env = sp_env spec, dsp_ports = sp_port_list spec,
      dsp_binds = sp_binds spec, dsp_restart = n_restart n, dsp_stop_signal = n_stop_signal n,
      dsp_stop_grace_period = n_stop_grace_period n, dsp_user = n_user n, dsp_working_dir = n_working_dir n,
      dsp_labels = n_labels n, dsp_cap_add = n_cap_add n, dsp_cap_drop = n_cap_drop n,
      dsp_privileged = n_privileged n, dsp_extra_hosts = n_extra_hosts n, dsp_healthcheck = n_healthcheck n,
      dsp_platform = n_platform n, dsp_build = n_build n,
      dsp_source = map_option (\<lambda>c. (ck_head c, ck_dirty c)) (build_checkout n)\<rparr>"

definition spec_hash :: "'w api \<Rightarrow> node \<Rightarrow> node_spec \<Rightarrow> string" where
  "spec_hash A n spec = ap_hash A (desired_spec_of n spec)"

section \<open>Resolving a spec\<close>

record orchestrator =
  orc_workspace :: string
  orc_root :: string
  orc_sidecar_image :: string

definition certs_dir :: "orchestrator \<Rightarrow> string" where
  "certs_dir orc = join_path (orc_root orc) ''certs''"

definition CERTS_MOUNT :: string where "CERTS_MOUNT = ''/etc/fghj/certs''"

definition image_tag :: "node \<Rightarrow> node_build \<Rightarrow> string" where
  "image_tag n b =
     (let branch = (case nb_source b of
            Some src \<Rightarrow> (case bsrc_reference src of Some r \<Rightarrow> r | None \<Rightarrow> ''default'')
          | None \<Rightarrow> (case n_branch n of Some r \<Rightarrow> r | None \<Rightarrow> ''local''))
      in ''fghj/'' @ sanitize_label (n_id n) @ '':'' @ sanitize_label branch)"

definition resolve_image :: "'w api \<Rightarrow> string option \<Rightarrow> node \<Rightarrow> bool \<Rightarrow> ('w, string) fallible" where
  "resolve_image A repo_root n side_effects =
     (case n_build n of
        Some b \<Rightarrow>
          (case repo_root of
             None \<Rightarrow> fails (''node '' @ n_id n @ '' has a build but no local_path to build from'')
           | Some root \<Rightarrow>
               (let tag = image_tag n b in
                if side_effects
                then and_then (ap_build_node_image A (n_id n) root b tag (n_platform n)) (\<lambda>_. ok tag)
                else ok tag))
      | None \<Rightarrow>
          (case n_image n of
             Some img \<Rightarrow> ok img
           | None \<Rightarrow> fails (''node '' @ n_id n @ '' has neither a build nor an image'')))"

definition ports_of :: "node \<Rightarrow> (string \<times> port option) list" where
  "ports_of n =
     (let declared = map (\<lambda>(p, cfg). (p, pc_host_port cfg)) (n_ports n)
      in case n_debug n of
           None \<Rightarrow> declared
         | Some d \<Rightarrow>
             (let key = show_nat (unat d) in if bt_has (n_ports n) key then declared else declared @ [(key, None)]))"

definition read_only_suffix :: "bool \<Rightarrow> string" where
  "read_only_suffix ro = (if ro then '':ro'' else [])"

definition needs_root :: "string \<Rightarrow> string option \<Rightarrow> ('w, string) fallible" where
  "needs_root what repo_root =
     (case repo_root of
        Some root \<Rightarrow> ok root
      | None \<Rightarrow> fails (''panicked: node with '' @ what @ '' has a resolved checkout root''))"

definition bind_volume ::
  "'w api \<Rightarrow> graph \<Rightarrow> node \<Rightarrow> string option \<Rightarrow> string option \<Rightarrow> bool \<Rightarrow> volume_mount \<Rightarrow> string list \<Rightarrow>
     ('w, string list) fallible" where
  "bind_volume A g n repo_root home side_effects v binds =
     (case v of
        BindMount host container read_only \<Rightarrow>
          and_then (needs_root ''volumes'' repo_root) (\<lambda>root.
            case host_path host root home of
              Inl e \<Rightarrow> fails e
            | Inr path \<Rightarrow> do {
                real \<leftarrow> ap_canonicalize A path;
                ok (binds @ [(case real of Inr r \<Rightarrow> r | Inl _ \<Rightarrow> path) @ '':'' @ container @ read_only_suffix read_only]) })
      | NamedVolume name container read_only shared \<Rightarrow>
          (let owner = (if shared then None else Some (n_id n));
               volume_name = derive_volume_name name owner (g_workspace_name g)
           in and_then (if side_effects then ensure_volume A volume_name (g_workspace_name g) else ok ()) (\<lambda>_.
                ok (binds @ [volume_name @ '':'' @ container @ read_only_suffix read_only]))))"

definition read_env_file ::
  "'w api \<Rightarrow> string option \<Rightarrow> string option \<Rightarrow> string \<Rightarrow> string list \<Rightarrow> ('w, string list) fallible" where
  "read_env_file A repo_root home p env =
     and_then (needs_root ''env_file'' repo_root) (\<lambda>root.
       case host_path p root home of
         Inl e \<Rightarrow> fails e
       | Inr path \<Rightarrow>
           and_then (with_context (''failed to read env_file '' @ path) (ap_read_file A path)) (\<lambda>contents.
             ok (env @ parse_env_file contents)))"

definition resolve_node_spec ::
  "'w api \<Rightarrow> orchestrator \<Rightarrow> graph \<Rightarrow> node \<Rightarrow> bool \<Rightarrow> ('w, node_spec) fallible" where
  "resolve_node_spec A orc g n side_effects =
     (let domain = derive_domain (n_id n) (g_workspace_name g) Http;
          raw_domain = derive_domain (n_id n) (g_workspace_name g) Raw;
          repo_root = map_option (join_path (orc_workspace orc)) (n_local_path n)
      in do {
        home \<leftarrow> ap_owner_home A;
        and_then (resolve_image A repo_root n side_effects) (\<lambda>img.
        and_then (each_ok (bind_volume A g n repo_root home side_effects) (n_volumes n)
                    [certs_dir orc @ '':'' @ CERTS_MOUNT @ '':ro'']) (\<lambda>binds.
        and_then (each_ok (read_env_file A repo_root home) (n_env_file n) []) (\<lambda>env.
        ok \<lparr>sp_container_name = container_name (g_workspace_name g) (n_id n),
            sp_domain = domain,
            sp_raw_domain = raw_domain,
            sp_aliases = raw_domain # filter_map (\<lambda>p. map_option (\<lambda>name. name @ ''.'' @ raw_domain) (pc_name p)) (bt_values (n_ports n)),
            sp_image = img,
            sp_port_list = ports_of n,
            sp_binds = binds,
            sp_env = map (\<lambda>entry. expand_service_fqdn_templates entry n raw_domain domain g)
                       (env @ n_environment n)\<rparr>))) })"

end
