(* ===== verification/Sidecar_Files.thy ===== *)
theory Sidecar_Files
  imports Node_Spec
begin

text \<open>
  The files a sidecar mounts (\<open>src/orchestrator/route_table.rs\<close>): its folder of routes, the token its capture
  port asks for, and a copy of the certificate authority it signs with.
\<close>

section \<open>Paths\<close>

text \<open>A path as the debug format prints it; characters that it would escape are printed as they are.\<close>

definition debug_path :: "string \<Rightarrow> string" where
  "debug_path p = [CHR 0x22] @ p @ [CHR 0x22]"

definition sidecar_routes_dir :: "orchestrator \<Rightarrow> string \<Rightarrow> string" where
  "sidecar_routes_dir orc network = join_path (join_path (orc_root orc) ''runs'') network"

definition sidecar_routes_path :: "orchestrator \<Rightarrow> string \<Rightarrow> string" where
  "sidecar_routes_path orc network = join_path (sidecar_routes_dir orc network) ''routes.json''"

definition sidecar_ca_dir :: "orchestrator \<Rightarrow> string" where
  "sidecar_ca_dir orc = join_path (orc_root orc) ''sidecar-ca''"

definition ca_dir :: "orchestrator \<Rightarrow> string" where
  "ca_dir orc = join_path (orc_root orc) ''ca''"

definition signing_cert_path :: "string \<Rightarrow> string" where
  "signing_cert_path dir = join_path dir ''signing-cert.pem''"

definition signing_key_path :: "string \<Rightarrow> string" where
  "signing_key_path dir = join_path dir ''signing-key.pem''"

definition TOKEN_FILE :: string where "TOKEN_FILE = ''capture-token''"

section \<open>The token and the copy of the authority\<close>

definition make_dir :: "'w api \<Rightarrow> string \<Rightarrow> ('w, unit) fallible" where
  "make_dir A dir = with_context (''failed to create '' @ debug_path dir) (ap_create_dir_all A dir)"

definition write_capture_token :: "'w api \<Rightarrow> string \<Rightarrow> string \<Rightarrow> ('w, string) fallible" where
  "write_capture_token A path tmp =
     and_then (ap_new_token A) (\<lambda>token.
     and_then (with_context (''failed to write '' @ debug_path tmp) (ap_write_file A tmp token)) (\<lambda>_.
     and_then (with_context (''failed to set permissions on '' @ debug_path tmp) (ap_set_mode A tmp 420)) (\<lambda>_.
     and_then (with_context (''failed to rename into '' @ debug_path path) (ap_rename A tmp path)) (\<lambda>_.
     ok token))))"

definition sidecar_capture_token :: "'w api \<Rightarrow> orchestrator \<Rightarrow> string \<Rightarrow> ('w, string) fallible" where
  "sidecar_capture_token A orc network =
     (let path = join_path (sidecar_routes_dir orc network) TOKEN_FILE;
          tmp = path @ ''.tmp''
      in do {
        known \<leftarrow> ap_read_file A path;
        case known of
          Inr token \<Rightarrow>
            if trim token \<noteq> [] then ok (trim token) else write_capture_token A path tmp
        | Inl _ \<Rightarrow> write_capture_token A path tmp })"

definition copy_ca_file :: "'w api \<Rightarrow> string \<Rightarrow> string \<times> string \<Rightarrow> unit \<Rightarrow> ('w, unit) fallible" where
  "copy_ca_file A dir p _ =
     (let (src, dest_name) = p; dest = join_path dir dest_name in
      and_then (with_context (''failed to read '' @ debug_path src) (ap_read_file A src)) (\<lambda>bytes.
      and_then (with_context (''failed to write '' @ debug_path dest) (ap_write_file A dest bytes)) (\<lambda>_.
      with_context (''failed to set permissions on '' @ debug_path dest) (ap_set_mode A dest 420))))"

definition refresh_sidecar_ca_copy :: "'w api \<Rightarrow> orchestrator \<Rightarrow> ('w, string) fallible" where
  "refresh_sidecar_ca_copy A orc =
     (let dir = sidecar_ca_dir orc in
      and_then (make_dir A dir) (\<lambda>_.
      and_then (each_ok (copy_ca_file A dir)
          [(signing_cert_path (ca_dir orc), ''ca-cert.pem''), (signing_key_path (ca_dir orc), ''ca-key.pem'')] ()) (\<lambda>_.
      ok dir)))"

section \<open>What the sidecar mounts\<close>

definition sidecar_binds :: "'w api \<Rightarrow> orchestrator \<Rightarrow> string \<Rightarrow> ('w, string list) fallible" where
  "sidecar_binds A orc network =
     (let routes_dir = sidecar_routes_dir orc network; routes_path = sidecar_routes_path orc network in
      and_then (make_dir A routes_dir) (\<lambda>_.
      and_then (do {
          present \<leftarrow> ap_path_exists A routes_path;
          if present then ok ()
          else with_context (''failed to create '' @ debug_path routes_path) (ap_write_file A routes_path ''[]'') }) (\<lambda>_.
      and_then (sidecar_capture_token A orc network) (\<lambda>_.
      and_then (with_context (''failed to canonicalize '' @ debug_path routes_dir) (ap_canonicalize A routes_dir)) (\<lambda>routes_dir.
      and_then (refresh_sidecar_ca_copy A orc) (\<lambda>ca_dir.
      and_then (with_context ''failed to canonicalize the sidecar CA directory'' (ap_canonicalize A ca_dir)) (\<lambda>ca_dir.
      ok [routes_dir @ '':/etc/fghj-sidecar/routes:ro'', ca_dir @ '':/etc/fghj-sidecar/ca:ro''])))))))"

end
