(* ===== verification/Removal.thy ===== *)
theory Removal
  imports Workspace_Paths Sidecar_Files Activity
begin

text \<open>
  What the daemon keeps and how it takes a workspace down: the state of the registry with its two files
  (\<open>src/persistence/index.rs\<close>), and the removal of a workspace (\<open>src/daemon/removal.rs\<close>). A file holds a
  map, or is missing or corrupt (\<open>None\<close>); it is replaced as a whole or not at all. Reads, writes, Docker
  and the rest of the host are calls on a world of any type. Discards that the source joins run one
  after the other here, in the order of their names.
\<close>

section \<open>The state\<close>

text \<open>
  \<open>dm_tasks\<close> holds the abort handle of each workspace's converging task, \<open>dm_converging\<close> the tasks that
  run, \<open>dm_teardowns\<close> the background removals with their jobs. All but the world and the two files is gone
  when the daemon stops.
\<close>

type_synonym index = "(string, fs_path) btree"

record 'w daemon =
  dm_world :: 'w
  dm_index_file :: "index option"
  dm_removing_file :: "index option"
  dm_by_id :: index
  dm_actors :: "(string, nat) btree"
  dm_tasks :: "(string, nat) btree"
  dm_converging :: "nat list"
  dm_next :: nat
  dm_log :: activity_log
  dm_teardowns :: "(nat \<times> string \<times> fs_path) list"

record 'w daemon_api =
  da_engine :: "'w api"
  da_orchestrator :: orchestrator
  da_canonicalize :: "fs_path \<Rightarrow> ('w, fs_path option) state"
  da_exists :: "fs_path \<Rightarrow> ('w, bool) state"
  da_create_dir_all :: "fs_path \<Rightarrow> ('w, unit) fallible"
  da_remove_dir_all :: "string \<Rightarrow> ('w, unit) fallible"
  da_made_by_root :: "fs_path \<Rightarrow> ('w, bool) state"
  da_is_root :: "('w, bool) state"
  da_chown :: "fs_path \<Rightarrow> 32 word \<Rightarrow> 32 word \<Rightarrow> ('w, unit) fallible"
  da_git_clone :: "string \<Rightarrow> fs_path \<Rightarrow> workspace_owner option \<Rightarrow> ('w, string option) fallible"
  da_open_workspace :: "string \<Rightarrow> fs_path \<Rightarrow> ('w, unit) fallible"
  da_set_owner :: "string \<Rightarrow> workspace_owner \<Rightarrow> ('w, unit) fallible"
  da_reads :: "('w, bool) state"
  da_saves :: "('w, unit) fallible"

definition on_world :: "('w, 'a) state \<Rightarrow> ('w daemon, 'a) state" where
  "on_world m = on_part dm_world (\<lambda>w d. d\<lparr>dm_world := w\<rparr>) m"

lemma run_on_world: "run_state (on_world m) d = (case run_state m (dm_world d) of (r, w) \<Rightarrow> (r, d\<lparr>dm_world := w\<rparr>))"
  by (simp add: on_world_def)

section \<open>The files\<close>

definition load_index :: "'w daemon_api \<Rightarrow> ('w daemon \<Rightarrow> index option) \<Rightarrow> ('w daemon, index) state" where
  "load_index D file = do {
     readable \<leftarrow> on_world (da_reads D);
     d \<leftarrow> State_Monad.get;
     State_Monad.return (if readable then case file d of Some m \<Rightarrow> m | None \<Rightarrow> [] else []) }"

definition save_index :: "'w daemon_api \<Rightarrow> ('w daemon \<Rightarrow> 'w daemon) \<Rightarrow> ('w daemon, unit) fallible" where
  "save_index D write = and_then (on_world (da_saves D)) (\<lambda>_. do { modify_state write; ok () })"

abbreviation write_index :: "index \<Rightarrow> 'w daemon \<Rightarrow> 'w daemon" where
  "write_index m \<equiv> dm_index_file_update (\<lambda>_. Some m)"

abbreviation write_removing :: "index \<Rightarrow> 'w daemon \<Rightarrow> 'w daemon" where
  "write_removing m \<equiv> dm_removing_file_update (\<lambda>_. Some m)"

definition pending :: "'w daemon_api \<Rightarrow> ('w daemon, index) state" where
  "pending D = load_index D dm_removing_file"

definition add_removal :: "'w daemon_api \<Rightarrow> string \<Rightarrow> fs_path \<Rightarrow> ('w daemon, unit) fallible" where
  "add_removal D i path = do {
     m \<leftarrow> load_index D dm_removing_file;
     save_index D (write_removing (bt_insert i path m)) }"

definition finish_removal :: "'w daemon_api \<Rightarrow> string \<Rightarrow> ('w daemon, unit) fallible" where
  "finish_removal D i = do {
     m \<leftarrow> load_index D dm_removing_file;
     save_index D (write_removing (bt_remove i m)) }"

section \<open>The job\<close>

text \<open>The log's own fuel never runs out on a well-formed log (\<open>Activity_Props\<close>); the clock is the world's.\<close>

definition on_log :: "(nat \<Rightarrow> activity_log \<Rightarrow> activity_log option) \<Rightarrow> 'w daemon_api \<Rightarrow> ('w daemon, unit) state" where
  "on_log f D = do {
     now \<leftarrow> on_world (ap_unix_ms (da_engine D));
     modify_state (\<lambda>d. d\<lparr>dm_log := (case f now (dm_log d) of Some l \<Rightarrow> l | None \<Rightarrow> dm_log d)\<rparr>) }"

definition append_job :: "'w daemon_api \<Rightarrow> nat \<Rightarrow> string \<Rightarrow> ('w daemon, unit) state" where
  "append_job D job text = on_log (\<lambda>_. append_log job text) D"

definition queued_child :: "'w daemon_api \<Rightarrow> nat \<Rightarrow> string \<Rightarrow> ('w daemon, nat) state" where
  "queued_child D job key = do {
     now \<leftarrow> on_world (ap_unix_ms (da_engine D));
     d \<leftarrow> State_Monad.get;
     let (child, l) = queued_child_of_kind job None key now (dm_log d);
     modify_state (\<lambda>d. d\<lparr>dm_log := l\<rparr>);
     State_Monad.return child }"

definition job_step :: "'w daemon_api \<Rightarrow> nat \<Rightarrow> ('w daemon, unit) fallible \<Rightarrow> ('w daemon, unit) fallible" where
  "job_step D job work = do {
     on_log (\<lambda>now l. Some (begin_job job now l)) D;
     result \<leftarrow> work;
     on_log (settle_job job result) D;
     State_Monad.return result }"

section \<open>Tearing a workspace down\<close>

definition SWEEPS :: nat where "SWEEPS = 3"

definition found_containers :: "'w daemon_api \<Rightarrow> string \<Rightarrow> ('w daemon, string list) fallible" where
  "found_containers D network =
     and_then
       (with_context ''failed to list the workspace's containers'' (on_world (list_statuses (da_engine D) network)))
       (\<lambda>listed. ok (sort (bt_keys listed)))"

definition line_of :: "string \<Rightarrow> string" where
  "line_of text = text @ line_break"

fun sweep :: "nat \<Rightarrow> 'w daemon_api \<Rightarrow> string \<Rightarrow> nat \<Rightarrow> ('w daemon, unit) fallible" where
  "sweep 0 D network step = ok ()"
| "sweep (Suc k) D network step =
     and_then (found_containers D network) (\<lambda>found.
       if found = [] then ok ()
       else do {
         each (\<lambda>c _. append_job D step (line_of (''removing container '' @ c))) found ();
         each (\<lambda>c _. on_world (discard (da_engine D) c)) found ();
         sweep k D network step })"

definition remove_containers :: "'w daemon_api \<Rightarrow> string \<Rightarrow> string \<Rightarrow> nat \<Rightarrow> ('w daemon, unit) fallible" where
  "remove_containers D name network step =
     and_then (sweep SWEEPS D network step) (\<lambda>_. do {
       on_world (discard (da_engine D) (sidecar_name name));
       and_then (found_containers D network) (\<lambda>left.
         if left \<noteq> [] then fails (''containers still there: '' @ join '', '' left)
         else let routes = sidecar_routes_dir (da_orchestrator D) network in do {
           exists \<leftarrow> on_world (ap_path_exists (da_engine D) routes);
           if exists then with_context (''failed to remove '' @ routes) (on_world (da_remove_dir_all D routes))
           else ok () }) })"

definition teardown_network :: "'w daemon_api \<Rightarrow> string \<Rightarrow> nat \<Rightarrow> ('w daemon, unit) fallible" where
  "teardown_network D network step = do {
     append_job D step (line_of (''removing network '' @ network));
     _ \<leftarrow> on_world (ap_remove_network (da_engine D) network);
     seen \<leftarrow> on_world (ap_inspect_network (da_engine D) network);
     case seen of
       Inr _ \<Rightarrow> fails (''network '' @ network @ '' is still there'')
     | Inl _ \<Rightarrow> ok () }"

definition volume_step :: "'w daemon_api \<Rightarrow> nat \<Rightarrow> string \<Rightarrow> unit \<Rightarrow> ('w daemon, unit) fallible" where
  "volume_step D step v u = do {
     append_job D step (line_of (''removing volume '' @ v));
     on_world (remove_volume (da_engine D) v) }"

definition remove_volumes :: "'w daemon_api \<Rightarrow> string \<Rightarrow> nat \<Rightarrow> ('w daemon, unit) fallible" where
  "remove_volumes D name step =
     and_then (with_context ''failed to list the workspace's volumes'' (on_world (list_volumes (da_engine D) name)))
       (\<lambda>volumes. each_ok (volume_step D step) (sort volumes) ())"

text \<open>\<open>workspace_name\<close> resolves the path once more.\<close>

definition workspace_name :: "'w daemon_api \<Rightarrow> fs_path \<Rightarrow> ('w daemon, string) state" where
  "workspace_name D path = do {
     real \<leftarrow> on_world (da_canonicalize D path);
     State_Monad.return (stem_of (case real of Some r \<Rightarrow> r | None \<Rightarrow> path)) }"

definition teardown :: "'w daemon_api \<Rightarrow> fs_path \<Rightarrow> nat \<Rightarrow> ('w daemon, unit) fallible" where
  "teardown D path job = do {
     name \<leftarrow> workspace_name D path;
     let network = network_name name;
     append_job D job (line_of (''removing '' @ path_text path @ '' ('' @ network @ '')''));
     containers \<leftarrow> queued_child D job ''containers'';
     net \<leftarrow> queued_child D job ''network'';
     volumes \<leftarrow> queued_child D job ''volumes'';
     and_then (job_step D containers (remove_containers D name network containers)) (\<lambda>_.
     and_then (job_step D net (teardown_network D network net)) (\<lambda>_.
     and_then (job_step D volumes (remove_volumes D name volumes)) (\<lambda>_. do {
       append_job D job (line_of ''removed'');
       ok () }))) }"

section \<open>The background job of a removal\<close>

definition ACTIVITY_KEY :: string where "ACTIVITY_KEY = ''remove''"

text \<open>The job that runs already is joined: the task is spawned only with a job of its own.\<close>

definition spawn_teardown :: "'w daemon_api \<Rightarrow> string \<Rightarrow> fs_path \<Rightarrow> ('w daemon, activity option) state" where
  "spawn_teardown D i path = do {
     now \<leftarrow> on_world (ap_unix_ms (da_engine D));
     d \<leftarrow> State_Monad.get;
     case start_job (Some i) KRemove ACTIVITY_KEY now (dm_log d) of
       None \<Rightarrow> State_Monad.return None
     | Some (Inl running) \<Rightarrow> State_Monad.return (Some running)
     | Some (Inr (job, l)) \<Rightarrow> do {
         modify_state (\<lambda>d. d\<lparr>dm_log := l, dm_teardowns := dm_teardowns d @ [(job, i, path)]\<rparr>);
         State_Monad.return (find_activity l job) } }"

text \<open>The task itself, from its start to its end.\<close>

definition run_teardown :: "'w daemon_api \<Rightarrow> nat \<times> string \<times> fs_path \<Rightarrow> ('w daemon, unit result) state" where
  "run_teardown D task = (case task of (job, i, path) \<Rightarrow> do {
     result \<leftarrow> and_then (teardown D path job) (\<lambda>_. finish_removal D i);
     on_log (settle_job job result) D;
     modify_state (\<lambda>d. d\<lparr>dm_teardowns := filter (\<lambda>t. t \<noteq> task) (dm_teardowns d)\<rparr>);
     State_Monad.return result })"

end
