(* ===== verification/Registry.thy ===== *)
theory Registry
  imports Removal
begin

text \<open>
  The daemon's registry of workspaces (\<open>src/daemon/registry.rs\<close>): which are wired, what runs for each, and
  how the two files follow. Maps whose order the source leaves open are walked in the order of their ids.
  A call to \<open>resolve\<close> is two stretches without a wait that other calls can come between
  (\<open>check_wire\<close>, \<open>commit_wire\<close>); a call that runs alone is one after the other.
\<close>

section \<open>Wiring\<close>

text \<open>\<open>canonicalize_lossy\<close>: the ancestors from the path itself upwards.\<close>

fun canonicalize_up :: "'w daemon_api \<Rightarrow> fs_path \<Rightarrow> nat \<Rightarrow> ('w daemon, fs_path) state" where
  "canonicalize_up D path n = do {
     real \<leftarrow> on_world (da_canonicalize D (path\<lparr>fp_names := take n (fp_names path)\<rparr>));
     case real of
       Some r \<Rightarrow> State_Monad.return (child_path r (drop n (fp_names path)))
     | None \<Rightarrow> (case n of 0 \<Rightarrow> State_Monad.return path | Suc m \<Rightarrow> canonicalize_up D path m) }"

declare canonicalize_up.simps [simp del]

definition canonicalize_lossy :: "'w daemon_api \<Rightarrow> fs_path \<Rightarrow> ('w daemon, fs_path) state" where
  "canonicalize_lossy D path = canonicalize_up D path (length (fp_names path))"

definition take_path :: "'w daemon_api \<Rightarrow> workspace_owner \<Rightarrow> fs_path \<Rightarrow> ('w daemon, unit) fallible" where
  "take_path D owner path = do {
     root \<leftarrow> on_world (da_is_root D);
     if \<not> root then ok () else on_world (da_chown D path (wo_uid owner) (wo_gid owner)) }"

definition take_workspace :: "'w daemon_api \<Rightarrow> workspace_owner \<Rightarrow> fs_path \<Rightarrow> ('w daemon, unit) fallible" where
  "take_workspace D owner workspace = do {
     made_by_root \<leftarrow> on_world (da_made_by_root D workspace);
     let dot = child_path workspace [''.fghj''];
     each_ok
       (\<lambda>path _. do {
          exists \<leftarrow> on_world (da_exists D path);
          if exists
          then with_context (''failed to hand '' @ path_text path @ '' to its owner'') (take_path D owner path)
          else ok () })
       ((if made_by_root then [workspace] else [])
          @ [dot, child_path dot [''fghj.db''], child_path workspace [SOURCES_DIR]]) () }"

definition resolve_workspace ::
  "'w daemon_api \<Rightarrow> string option \<Rightarrow> fs_path option \<Rightarrow> workspace_owner option \<Rightarrow> ('w daemon, fs_path) fallible" where
  "resolve_workspace D entry workspace owner =
     (let workspace = (case workspace of Some p \<Rightarrow> p | None \<Rightarrow> \<lparr>fp_absolute = False, fp_names = [''.'']\<rparr>) in
      and_then
        (with_context (''failed to create workspace dir '' @ path_text workspace)
           (on_world (da_create_dir_all D workspace))) (\<lambda>_.
      and_then (case owner of Some own \<Rightarrow> take_workspace D own workspace | None \<Rightarrow> ok ()) (\<lambda>_.
      case entry of
        None \<Rightarrow> ok workspace
      | Some url \<Rightarrow>
          (let dest = child_path workspace [repo_name_from_url url] in do {
             there \<leftarrow> on_world (da_exists D dest);
             if there then ok workspace
             else and_then
               (with_context (''failed to run git clone for '' @ url) (on_world (da_git_clone D url dest owner)))
               (\<lambda>refused. case refused of
                  None \<Rightarrow> ok workspace
                | Some stderr \<Rightarrow> fails (''git clone failed for '' @ url @ '': '' @ trim stderr)) }))))"

definition wire_conflict :: "fs_path \<Rightarrow> fs_path \<Rightarrow> string option" where
  "wire_conflict canonical path =
     (case nesting_conflict canonical path of
        Some conflict \<Rightarrow> Some conflict
      | None \<Rightarrow>
          if canonical \<noteq> path \<and> domain_label canonical = domain_label path
          then Some (path_text canonical @ '' and the already-wired workspace '' @ path_text path
                 @ '' both derive the domain segment '' @ [CHR 0x27] @ domain_label canonical @ [CHR 0x27]
                 @ '', so their services would claim identical *.fghj.internal names. Rename one folder.'')
          else None)"

definition being_removed :: "fs_path \<Rightarrow> index \<Rightarrow> string option" where
  "being_removed canonical removing =
     map_option
       (\<lambda>path. path_text path @ '' is still being removed, and '' @ path_text canonical
          @ '' would get the same container and network names. Wire it again once that'' @ [CHR 0x27] @ ''s done.'')
       (find (\<lambda>path. domain_label path = domain_label canonical) (bt_values removing))"

text \<open>The check before anything is created, then the one on what \<open>resolve_workspace\<close> made.\<close>

definition check_nesting :: "'w daemon_api \<Rightarrow> fs_path option \<Rightarrow> ('w daemon, unit) fallible" where
  "check_nesting D workspace =
     (case workspace of
        None \<Rightarrow> ok ()
      | Some p \<Rightarrow> do {
          canonical \<leftarrow> canonicalize_lossy D p;
          d \<leftarrow> State_Monad.get;
          case find_map (nesting_conflict canonical) (bt_values (dm_by_id d)) of
            Some conflict \<Rightarrow> fails conflict
          | None \<Rightarrow> ok () })"

definition check_canonical :: "'w daemon_api \<Rightarrow> fs_path \<Rightarrow> ('w daemon, fs_path) fallible" where
  "check_canonical D path = do {
     real \<leftarrow> on_world (da_canonicalize D path);
     let canonical = (case real of Some r \<Rightarrow> r | None \<Rightarrow> path);
     d \<leftarrow> State_Monad.get;
     case find_map (wire_conflict canonical) (bt_values (dm_by_id d)) of
       Some conflict \<Rightarrow> fails conflict
     | None \<Rightarrow> do {
         removing \<leftarrow> pending D;
         case being_removed canonical removing of
           Some conflict \<Rightarrow> fails conflict
         | None \<Rightarrow> ok canonical } }"

definition check_wire ::
  "'w daemon_api \<Rightarrow> string option \<Rightarrow> fs_path option \<Rightarrow> workspace_owner option \<Rightarrow> ('w daemon, fs_path) fallible" where
  "check_wire D entry workspace owner =
     and_then (check_nesting D workspace) (\<lambda>_.
     and_then (resolve_workspace D entry workspace owner) (check_canonical D))"

text \<open>The actor, its converging task and its place in the maps. A handle that is replaced in \<open>dm_tasks\<close> does not stop its task.\<close>

definition wire_actor :: "string \<Rightarrow> 'w daemon \<Rightarrow> 'w daemon" where
  "wire_actor i d =
     d\<lparr>dm_converging := dm_converging d @ [dm_next d],
       dm_actors := bt_insert i (dm_next d) (dm_actors d),
       dm_tasks := bt_insert i (dm_next d) (dm_tasks d),
       dm_next := dm_next d + 1\<rparr>"

definition record_owner :: "'w daemon_api \<Rightarrow> string \<Rightarrow> fs_path \<Rightarrow> workspace_owner option \<Rightarrow> ('w daemon, unit) fallible" where
  "record_owner D i canonical owner =
     (case owner of
        None \<Rightarrow> ok ()
      | Some own \<Rightarrow> and_then (take_workspace D own canonical) (\<lambda>_. on_world (da_set_owner D i own)))"

text \<open>What follows once the workspace's database is open.\<close>

definition enter_workspace :: "'w daemon_api \<Rightarrow> fs_path \<Rightarrow> ('w daemon, unit) fallible" where
  "enter_workspace D canonical =
     (let i = workspace_id canonical in do {
        modify_state (\<lambda>d. wire_actor i (d\<lparr>dm_by_id := bt_insert i canonical (dm_by_id d)\<rparr>));
        index \<leftarrow> load_index D dm_index_file;
        save_index D (write_index (bt_insert i canonical index)) })"

definition commit_wire :: "'w daemon_api \<Rightarrow> workspace_owner option \<Rightarrow> fs_path \<Rightarrow> ('w daemon, string \<times> fs_path) fallible" where
  "commit_wire D owner canonical =
     (let i = workspace_id canonical in do {
        d \<leftarrow> State_Monad.get;
        and_then
          (case map_of (dm_by_id d) i of
             Some _ \<Rightarrow> ok ()
           | None \<Rightarrow> and_then (on_world (da_open_workspace D i canonical)) (\<lambda>_. enter_workspace D canonical)) (\<lambda>_.
        and_then (record_owner D i canonical owner) (\<lambda>_. ok (i, canonical))) })"

definition resolve ::
  "'w daemon_api \<Rightarrow> string option \<Rightarrow> fs_path option \<Rightarrow> workspace_owner option
     \<Rightarrow> ('w daemon, string \<times> fs_path) fallible" where
  "resolve D entry workspace owner = and_then (check_wire D entry workspace owner) (commit_wire D owner)"

section \<open>Removing\<close>

definition drop_workspace :: "string \<Rightarrow> 'w daemon \<Rightarrow> 'w daemon" where
  "drop_workspace i d =
     d\<lparr>dm_by_id := bt_remove i (dm_by_id d),
       dm_actors := bt_remove i (dm_actors d),
       dm_converging := (case map_of (dm_tasks d) i of
          Some t \<Rightarrow> filter (\<lambda>u. u \<noteq> t) (dm_converging d)
        | None \<Rightarrow> dm_converging d),
       dm_tasks := bt_remove i (dm_tasks d)\<rparr>"

definition unlist :: "'w daemon_api \<Rightarrow> string \<Rightarrow> ('w daemon, unit) state" where
  "unlist D i = do {
     index \<leftarrow> load_index D dm_index_file;
     _ \<leftarrow> save_index D (write_index (bt_remove i index));
     State_Monad.return () }"

definition remove_workspace :: "'w daemon_api \<Rightarrow> string \<Rightarrow> ('w daemon, activity option) fallible" where
  "remove_workspace D i = do {
     d \<leftarrow> State_Monad.get;
     case map_of (dm_by_id d) i of
       None \<Rightarrow> do {
         removing \<leftarrow> pending D;
         case map_of removing i of
           None \<Rightarrow> ok None
         | Some path \<Rightarrow> do { job \<leftarrow> spawn_teardown D i path; ok job } }
     | Some path \<Rightarrow>
         and_then (add_removal D i path) (\<lambda>_. do {
           modify_state (drop_workspace i);
           unlist D i;
           job \<leftarrow> spawn_teardown D i path;
           ok job }) }"

section \<open>Starting\<close>

definition load_one :: "'w daemon_api \<Rightarrow> string \<times> fs_path \<Rightarrow> index \<Rightarrow> ('w daemon, index) state" where
  "load_one D entry by_id = (case entry of (i, path) \<Rightarrow> do {
     exists \<leftarrow> on_world (da_exists D path);
     if \<not> exists then State_Monad.return by_id
     else do {
       opened \<leftarrow> on_world (da_open_workspace D i path);
       State_Monad.return (case opened of Inr _ \<Rightarrow> bt_insert i path by_id | Inl _ \<Rightarrow> by_id) } })"

definition empty_memory :: "'w daemon \<Rightarrow> 'w daemon" where
  "empty_memory d =
     d\<lparr>dm_by_id := [], dm_actors := [], dm_tasks := [], dm_converging := [], dm_next := 0,
       dm_log := empty_log, dm_teardowns := []\<rparr>"

definition save_kept :: "'w daemon_api \<Rightarrow> index \<Rightarrow> index \<Rightarrow> ('w daemon, unit) fallible" where
  "save_kept D kept index = (if kept = index then ok () else save_index D (write_index kept))"

text \<open>A pair of loaded workspaces that overlap is warned about only.\<close>

definition load_from :: "'w daemon_api \<Rightarrow> ('w daemon, unit) state" where
  "load_from D = do {
     modify_state empty_memory;
     removing \<leftarrow> pending D;
     index \<leftarrow> load_index D dm_index_file;
     let kept = bt_retain (\<lambda>i _. \<not> bt_has removing i) index;
     _ \<leftarrow> save_kept D kept index;
     by_id \<leftarrow> each (load_one D) kept [];
     modify_state (\<lambda>d. fold wire_actor (bt_keys by_id) (d\<lparr>dm_by_id := by_id\<rparr>));
     each (\<lambda>(i, path) _. do { _ \<leftarrow> spawn_teardown D i path; State_Monad.return () }) removing () }"

section \<open>What a daemon lives through\<close>

text \<open>
  A call runs to its end, a background removal runs to its end, the daemon stops and is started again, or
  the rest of the host moves on: a removal cut short by a stop has changed the world alone.
\<close>

inductive life_step :: "'w daemon_api \<Rightarrow> 'w daemon \<Rightarrow> 'w daemon \<Rightarrow> bool" for D where
  ls_wire: "run_state (resolve D entry workspace owner) d = (r, d') \<Longrightarrow> life_step D d d'"
| ls_remove: "run_state (remove_workspace D i) d = (r, d') \<Longrightarrow> life_step D d d'"
| ls_teardown: "task \<in> set (dm_teardowns d) \<Longrightarrow> run_state (run_teardown D task) d = (r, d') \<Longrightarrow> life_step D d d'"
| ls_world: "life_step D d (d\<lparr>dm_world := w\<rparr>)"

text \<open>From no files at all; \<open>lives\<close> adds restarts.\<close>

definition first_start :: "'w \<Rightarrow> 'w daemon" where
  "first_start w =
     \<lparr>dm_world = w, dm_index_file = None, dm_removing_file = None, dm_by_id = [], dm_actors = [], dm_tasks = [],
      dm_converging = [], dm_next = 0, dm_log = empty_log, dm_teardowns = []\<rparr>"

inductive lives :: "'w daemon_api \<Rightarrow> 'w daemon \<Rightarrow> bool" for D where
  lv_first: "run_state (load_from D) (first_start w) = (r, d) \<Longrightarrow> lives D d"
| lv_step: "lives D d \<Longrightarrow> life_step D d d' \<Longrightarrow> lives D d'"
| lv_restart: "lives D d \<Longrightarrow> run_state (load_from D) d = (r, d') \<Longrightarrow> lives D d'"

end
