(* ===== verification/Cycles.thy ===== *)
theory Cycles
  imports Graph
begin

text \<open>
  Dependency-cycle detection (\<open>src/resolver/cycles.rs\<close>): a depth-first walk with the path on a
  stack. \<open>walk\<close> returns \<open>None\<close> when its fuel (a bound on the recursion depth) runs out or where the
  source's \<open>expect\<close> would panic; \<open>Graph_Claims\<close> shows neither happens.
\<close>

record walk_state =
  wk_done :: "string set"
  wk_stack :: "string list"
  wk_on_stack :: "string set"
  wk_cycles :: "string list list"

type_synonym adjacency = "(string, string list) btree"

definition adjacency_of :: "edge list \<Rightarrow> adjacency" where
  "adjacency_of edges =
     bt_map (\<lambda>_ ts. sorted_dedup ts)
       (fold (\<lambda>(a, b) m. bt_insert a ((case map_of m a of None \<Rightarrow> [] | Some ts \<Rightarrow> ts) @ [b]) m)
         (needed_pairs edges) [])"

definition targets_of :: "adjacency \<Rightarrow> string \<Rightarrow> string list" where
  "targets_of adj i = (case map_of adj i of None \<Rightarrow> [] | Some ts \<Rightarrow> ts)"

definition from_first :: "string \<Rightarrow> string list \<Rightarrow> string list option" where
  "from_first x xs = (if x \<in> set xs then Some (dropWhile (\<lambda>n. n \<noteq> x) xs) else None)"

fun fold_option :: "('a \<Rightarrow> 's \<Rightarrow> 's option) \<Rightarrow> 'a list \<Rightarrow> 's \<Rightarrow> 's option" where
  "fold_option f [] s = Some s"
| "fold_option f (x # xs) s = (case f x s of None \<Rightarrow> None | Some s' \<Rightarrow> fold_option f xs s')"

text \<open>One step of the loop over a node's targets, \<open>recurse\<close> being the walk of an unseen one.\<close>

definition visit :: "(string \<Rightarrow> walk_state \<Rightarrow> walk_state option) \<Rightarrow> string \<Rightarrow> walk_state \<Rightarrow> walk_state option" where
  "visit recurse next s =
     (if next \<in> wk_on_stack s then
        (case from_first next (wk_stack s) of
           None \<Rightarrow> None
         | Some cycle \<Rightarrow> Some (s\<lparr>wk_cycles := wk_cycles s @ [cycle]\<rparr>))
      else if next \<notin> wk_done s then recurse next s
      else Some s)"

definition push_node :: "string \<Rightarrow> walk_state \<Rightarrow> walk_state" where
  "push_node i s = s\<lparr>wk_stack := wk_stack s @ [i], wk_on_stack := insert i (wk_on_stack s)\<rparr>"

definition pop_node :: "string \<Rightarrow> walk_state \<Rightarrow> walk_state" where
  "pop_node i s = s\<lparr>wk_stack := butlast (wk_stack s), wk_on_stack := wk_on_stack s - {i},
                    wk_done := insert i (wk_done s)\<rparr>"

fun walk :: "nat \<Rightarrow> adjacency \<Rightarrow> string \<Rightarrow> walk_state \<Rightarrow> walk_state option" where
  "walk 0 adj i s = None"
| "walk (Suc fuel) adj i s =
     map_option (pop_node i)
       (fold_option (visit (\<lambda>next s. walk fuel adj next s)) (targets_of adj i) (push_node i s))"

definition graph_size :: "adjacency \<Rightarrow> nat" where
  "graph_size adj = length adj + length (concat (map snd adj))"

definition walk_roots :: "adjacency \<Rightarrow> walk_state option" where
  "walk_roots adj =
     fold_option (\<lambda>root s. if root \<in> wk_done s then Some s else walk (Suc (graph_size adj)) adj root s)
       (bt_keys adj) \<lparr>wk_done = {}, wk_stack = [], wk_on_stack = {}, wk_cycles = []\<rparr>"

definition find_cycles :: "edge list \<Rightarrow> string list list option" where
  "find_cycles edges = map_option wk_cycles (walk_roots (adjacency_of edges))"

text \<open>Rotations of one loop are one cycle: the first of those with the same sorted key is kept.\<close>

fun dedup_by_key :: "'a::linorder list set \<Rightarrow> 'a list list \<Rightarrow> 'a list list" where
  "dedup_by_key seen [] = []"
| "dedup_by_key seen (c # cs) =
     (if sort c \<in> seen then dedup_by_key seen cs else c # dedup_by_key (insert (sort c) seen) cs)"

definition cycle_warning :: "string list \<Rightarrow> warning" where
  "cycle_warning cycle = blocking (''dependency cycle: '' @ join '' -> '' cycle @ '' -> '' @ hd cycle @
     ''. Each waits for the next to start, so none of them can'')"

definition check_cycles :: "edge list \<Rightarrow> warning list option" where
  "check_cycles edges = map_option (\<lambda>cs. map cycle_warning (dedup_by_key {} cs)) (find_cycles edges)"

end
