(* ===== verification/Resolver.thy ===== *)
theory Resolver
  imports Naming Cycles
begin

text \<open>
  The resolver (\<open>src/resolver\<close>): \<open>ResolveCtx\<close> and its phases (\<open>visit.rs\<close>, \<open>validate.rs\<close>), the
  uniqueness checks (\<open>uniqueness.rs\<close>) and the workspace scan's verdicts (\<open>workspace_scan.rs\<close>). What
  git says of a checkout is a parameter (\<open>git_seen\<close>, \<open>repo_facts\<close>). Flows are in \<open>Flows\<close>, the
  composition of the phases in \<open>Universe\<close>.
\<close>

record repo_facts =
  fa_repo :: "string option"
  fa_branch :: "string option"
  fa_head :: "string option"
  fa_dirty :: bool

definition default_facts :: repo_facts where
  "default_facts = \<lparr>fa_repo = None, fa_branch = None, fa_head = None, fa_dirty = False\<rparr>"

record git_seen =
  gs_exists :: bool
  gs_head :: "string option"
  gs_dirty :: bool

record resolve_ctx =
  rx_git :: "string \<Rightarrow> git_seen"
  rx_scanned :: "(string, component_config) btree"
  rx_repo_index :: "(string, string) btree"
  rx_facts :: "(string, repo_facts) btree"
  rx_stub_repo_ids :: "(string, string) btree"
  rx_includes :: "(string, (string, string) btree) btree"
  rx_nodes :: "(string, node) btree"
  rx_edges :: "edge list"
  rx_warnings :: "warning list"
  rx_seeds_pulled :: "(string \<times> string) list"

definition new_ctx ::
  "(string \<Rightarrow> git_seen) \<Rightarrow> (string, component_config) btree \<Rightarrow> (string, string) btree \<Rightarrow> (string, repo_facts) btree
   \<Rightarrow> resolve_ctx" where
  "new_ctx git scanned repo_index facts =
     \<lparr>rx_git = git, rx_scanned = scanned, rx_repo_index = repo_index, rx_facts = facts, rx_stub_repo_ids = [],
      rx_includes = [], rx_nodes = [], rx_edges = [], rx_warnings = [], rx_seeds_pulled = []\<rparr>"

definition warn :: "warning \<Rightarrow> resolve_ctx \<Rightarrow> resolve_ctx" where
  "warn w cx = cx\<lparr>rx_warnings := rx_warnings cx @ [w]\<rparr>"

definition warn_if :: "bool \<Rightarrow> warning \<Rightarrow> resolve_ctx \<Rightarrow> resolve_ctx" where
  "warn_if b w cx = (if b then warn w cx else cx)"

definition is_scanned :: "resolve_ctx \<Rightarrow> string \<Rightarrow> bool" where
  "is_scanned cx local_path = bt_has (rx_scanned cx) local_path"

section \<open>Checks of one service (validate.rs)\<close>

definition check_build :: "string \<Rightarrow> build \<Rightarrow> resolve_ctx \<Rightarrow> remote_context option \<times> resolve_ctx" where
  "check_build i b cx =
     (let cx1 = warn_if (b_dockerfile_inline b \<noteq> None \<and> b_dockerfile b \<noteq> default_dockerfile)
            (blocking (quoted i @ '' sets both `dockerfile` and `dockerfile_inline`; set one: the inline Dockerfile, or the path of one in the context'')) cx
      in case parse_remote (b_context b) of
           None \<Rightarrow> (None, cx1)
         | Some remote \<Rightarrow>
             (Some remote,
              case rc_subdir remote of
                Some subdir \<Rightarrow>
                  warn_if (\<not> subdir_is_contained subdir)
                    (blocking (quoted i @ '' builds from '' @ quoted subdir @ '' of '' @ rc_url remote @
                      '', which is outside the clone; a subdir must be a relative path without `..`'')) cx1
              | None \<Rightarrow> cx1))"

definition primaries :: "(string, port_config) btree \<Rightarrow> string list" where
  "primaries ports = map fst (filter (\<lambda>(_, cfg). pc_primary cfg) ports)"

definition check_port_config :: "string \<Rightarrow> (string, port_config) btree \<Rightarrow> resolve_ctx \<Rightarrow> resolve_ctx" where
  "check_port_config i ports cx =
     fold (\<lambda>(p, cfg). warn_if (pc_wildcard cfg \<and> \<not> pc_primary cfg \<and> pc_name cfg = None)
         (advisory (quoted i @ '' port '' @ p @ '' sets wildcard but is neither primary nor named; there'' @ [CHR 0x27] @ ''s no domain to wildcard'')))
       ports
       (warn_if (1 < length (primaries ports))
         (blocking (quoted i @ '' declares more than one primary port ('' @ join '', '' (primaries ports) @ ''); only one can sit at its own domain'')) cx)"

definition well_formed_signal :: "string \<Rightarrow> bool" where
  "well_formed_signal s = (starts_with s ''SIG'' \<and> 3 < length s \<and> list_all (\<lambda>c. is_upper c \<or> is_digit c) (drop 3 s))"

definition check_stop_signal :: "string \<Rightarrow> string option \<Rightarrow> resolve_ctx \<Rightarrow> resolve_ctx" where
  "check_stop_signal i signal cx =
     (case signal of
        None \<Rightarrow> cx
      | Some s \<Rightarrow> warn_if (\<not> well_formed_signal s)
          (blocking (quoted i @ '' sets stop_signal '' @ quoted s @ '', which is not a signal name '' @ em_dash @
            '' write the SIG-prefixed uppercase form, e.g. SIGTERM or SIGQUIT'')) cx)"

definition check_healthcheck :: "string \<Rightarrow> healthcheck option \<Rightarrow> resolve_ctx \<Rightarrow> resolve_ctx" where
  "check_healthcheck i hc cx =
     (case hc of
        None \<Rightarrow> cx
      | Some h \<Rightarrow> warn_if (hc_test h = [])
          (blocking (quoted i @ '' declares a healthcheck with an empty `test` '' @ em_dash @ '' Docker reads that as '' @
            [CHR 0x22] @ ''inherit the image'' @ [CHR 0x27] @ ''s own healthcheck'' @ [CHR 0x22] @
            '', so this node would get none of its own; write the command, e.g. test: ['' @ [CHR 0x22] @ ''CMD'' @ [CHR 0x22] @
            '', '' @ [CHR 0x22] @ ''pg_isready'' @ [CHR 0x22] @ '']'')) cx)"

definition check_ports :: "string \<Rightarrow> service_config \<Rightarrow> (string, port_config) btree \<Rightarrow> resolve_ctx \<Rightarrow> resolve_ctx" where
  "check_ports i service ports cx =
     warn_if (sc_additional_hosts service \<noteq> [] \<and> primaries ports = [])
       (advisory (quoted i @ '' declares additional_hosts but no primary port; those hosts won'' @ [CHR 0x27] @ ''t be routed to anything''))
       (check_healthcheck i (sc_healthcheck service)
         (check_stop_signal i (sc_stop_signal service) (check_port_config i ports cx)))"

definition source_claims :: "(string, node) btree \<Rightarrow> (string, (string, string list) btree) btree" where
  "source_claims nodes =
     fold (\<lambda>n m. case Option.bind (n_build n) nb_source of
         None \<Rightarrow> m
       | Some src \<Rightarrow>
           (let urls = (case map_of m (bsrc_path src) of None \<Rightarrow> [] | Some u \<Rightarrow> u);
                url = normalize_repo_url (bsrc_url src);
                ids = (case map_of urls url of None \<Rightarrow> [] | Some is \<Rightarrow> is)
            in bt_insert (bsrc_path src) (bt_insert url (ids @ [n_id n]) urls) m)) (bt_values nodes) []"

definition check_source_paths :: "resolve_ctx \<Rightarrow> resolve_ctx" where
  "check_source_paths cx =
     fold (\<lambda>(path, urls). warn_if (1 < length urls)
         (blocking (join '', '' (sort (concat (bt_values urls))) @ '' build from different repos ('' @ join '', '' (bt_keys urls) @
           '') that would share the clone '' @ path @ ''; pin different refs, or build from one of them'')))
       (source_claims (rx_nodes cx)) cx"

section \<open>Phase 1: nodes (visit.rs)\<close>

definition read_build_source :: "(string \<Rightarrow> git_seen) \<Rightarrow> remote_context \<Rightarrow> build_source" where
  "read_build_source git remote =
     (let path = source_path (rc_url remote) (rc_reference remote);
          seen = git path
      in \<lparr>bsrc_url = rc_url remote, bsrc_reference = rc_reference remote, bsrc_path = path,
          bsrc_downloaded = gs_exists seen, bsrc_head = (if gs_exists seen then gs_head seen else None),
          bsrc_dirty = (gs_exists seen \<and> gs_dirty seen)\<rparr>)"

definition service_kind :: "string \<Rightarrow> service_config \<Rightarrow> resolve_ctx \<Rightarrow> string \<times> resolve_ctx" where
  "service_kind i service cx =
     (case (sc_build service, sc_image service) of
        (Some _, None) \<Rightarrow> (''service'', cx)
      | (None, Some _) \<Rightarrow> (''backing'', cx)
      | (Some _, Some _) \<Rightarrow>
          (''service'', warn (blocking (quoted i @ '' sets both `build` and `image` '' @ em_dash @
             '' fghj names the images it builds itself, so set one: `build` for your code, `image` for a published one'')) cx)
      | (None, None) \<Rightarrow>
          (''service'', warn (blocking (quoted i @ '' sets neither `build` nor `image`, so there is nothing to run'')) cx))"

definition service_build :: "resolve_ctx \<Rightarrow> remote_context option \<Rightarrow> build \<Rightarrow> node_build" where
  "service_build cx remote b =
     \<lparr>nb_context = (case remote of
         Some r \<Rightarrow> (case rc_subdir r of Some d \<Rightarrow> d | None \<Rightarrow> ''.'') | None \<Rightarrow> b_context b),
      nb_dockerfile = b_dockerfile b, nb_dockerfile_inline = b_dockerfile_inline b,
      nb_source = map_option (read_build_source (rx_git cx)) remote, nb_args = b_args b, nb_target = b_target b,
      nb_ssh = b_ssh b, nb_secrets = b_secrets b\<rparr>"

definition service_node ::
  "string \<Rightarrow> string \<Rightarrow> string \<Rightarrow> repo_facts \<Rightarrow> service_config \<Rightarrow> (string, port_config) btree \<Rightarrow> node_build option \<Rightarrow> node" where
  "service_node local_path name kind facts service ports build =
     \<lparr>n_id = node_id_of name local_path, n_label = name, n_kind = kind, n_image = sc_image service,
      n_branch = fa_branch facts, n_repo = fa_repo facts, n_local_path = Some local_path, n_domain = [],
      n_downloaded = True, n_dirty = fa_dirty facts, n_head = fa_head facts, n_flows = [], n_includes = [],
      n_build = build, n_ports = ports, n_environment = env_pairs (sc_environment service),
      n_command = sc_command service, n_volumes = sc_volumes service,
      n_additional_hosts = map alias_host (filter (\<lambda>h. \<not> alias_wildcard h) (sc_additional_hosts service)),
      n_wildcard_hosts = map alias_host (filter alias_wildcard (sc_additional_hosts service)),
      n_env_file = sc_env_file service, n_restart = restart_or_default service,
      n_stop_signal = sc_stop_signal service, n_stop_grace_period = sc_stop_grace_period service,
      n_user = sc_user service, n_working_dir = sc_working_dir service, n_labels = sc_labels service,
      n_cap_add = sc_cap_add service, n_cap_drop = sc_cap_drop service, n_privileged = sc_privileged service,
      n_extra_hosts = sc_extra_hosts service, n_healthcheck = sc_healthcheck service,
      n_platform = sc_platform service, n_run_policy = None, n_migrates = None, n_seeds = [],
      n_debug = sc_debug service\<rparr>"

definition add_service_node :: "string \<Rightarrow> repo_facts \<Rightarrow> string \<times> service_config \<Rightarrow> resolve_ctx \<Rightarrow> resolve_ctx" where
  "add_service_node local_path facts entry cx =
     (case entry of (name, service) \<Rightarrow>
       (let i = node_id_of name local_path;
            (kind, cx1) = service_kind i service cx;
            ports = ports_into_map (sc_ports service);
            cx2 = check_ports i service ports cx1;
            (remote, cx3) = (case sc_build service of None \<Rightarrow> (None, cx2) | Some b \<Rightarrow> check_build i b cx2);
            n = service_node local_path name kind facts service ports
                  (map_option (service_build cx3 remote) (sc_build service))
        in cx3\<lparr>rx_nodes := bt_insert i n (rx_nodes cx3)\<rparr>))"

definition add_repo_nodes :: "string \<times> component_config \<Rightarrow> resolve_ctx \<Rightarrow> resolve_ctx" where
  "add_repo_nodes repo cx =
     (case repo of (local_path, component) \<Rightarrow>
       fold (add_service_node local_path
              (case map_of (rx_facts cx) local_path of None \<Rightarrow> default_facts | Some f \<Rightarrow> f))
         (cc_services component)
         (warn_if (cc_services component = []) (advisory (quoted local_path @ '' declares no services'')) cx))"

section \<open>Phase 2: includes\<close>

definition stub_node :: "string \<Rightarrow> string \<Rightarrow> string option \<Rightarrow> node" where
  "stub_node stub_id repo default_branch =
     \<lparr>n_id = stub_id, n_label = stub_id, n_kind = ''service'', n_image = None, n_branch = default_branch,
      n_repo = Some repo, n_local_path = Some stub_id, n_domain = [], n_downloaded = False, n_dirty = False,
      n_head = None, n_flows = [], n_includes = [], n_build = None, n_ports = [], n_environment = [],
      n_command = [], n_volumes = [], n_additional_hosts = [], n_wildcard_hosts = [], n_env_file = [],
      n_restart = default_restart, n_stop_signal = None, n_stop_grace_period = default_stop_grace_period,
      n_user = None, n_working_dir = None, n_labels = [], n_cap_add = [], n_cap_drop = [],
      n_privileged = False, n_extra_hosts = [], n_healthcheck = None, n_platform = None,
      n_run_policy = None, n_migrates = None, n_seeds = [], n_debug = None\<rparr>"

definition stub :: "string \<Rightarrow> string \<Rightarrow> string \<Rightarrow> string option \<Rightarrow> resolve_ctx \<Rightarrow> string \<times> resolve_ctx" where
  "stub norm local_path repo default_branch cx =
     (let stub_id = (case map_of (rx_stub_repo_ids cx) norm of Some s \<Rightarrow> s | None \<Rightarrow> local_path);
          cx1 = cx\<lparr>rx_stub_repo_ids := bt_insert norm stub_id (rx_stub_repo_ids cx)\<rparr>
      in (stub_id,
          if bt_has (rx_nodes cx1) stub_id then cx1
          else cx1\<lparr>rx_nodes := bt_insert stub_id (stub_node stub_id repo default_branch) (rx_nodes cx1)\<rparr>))"

definition add_include ::
  "string \<Rightarrow> component_config \<Rightarrow> string \<times> include_config \<Rightarrow> (string, string) btree \<times> resolve_ctx
   \<Rightarrow> (string, string) btree \<times> resolve_ctx" where
  "add_include local_path component entry acc =
     (case (entry, acc) of ((alias, inc), (resolved, cx)) \<Rightarrow>
       (let cx1 = warn_if (bt_has (cc_services component) alias \<or> bt_has (cc_flows component) alias)
              (blocking (quoted local_path @ '' uses '' @ quoted alias @ '' both as an include alias and as a service or flow name, so a bare '' @
                 quoted alias @ '' could mean either '' @ em_dash @ '' rename one'')) cx;
            repo = include_repo inc;
            norm = normalize_repo_url repo;
            found = (case map_of (rx_repo_index cx1) norm of Some t \<Rightarrow> t | None \<Rightarrow> repo_name_from_url repo);
            (target, cx2) = (if is_scanned cx1 found then (found, cx1)
                             else stub norm found repo (include_branch inc) cx1)
        in (bt_insert alias target resolved, cx2)))"

definition add_includes :: "string \<times> component_config \<Rightarrow> resolve_ctx \<Rightarrow> resolve_ctx" where
  "add_includes repo cx =
     (case repo of (local_path, component) \<Rightarrow>
       (let (resolved, cx1) = fold (add_include local_path component) (cc_include component) ([], cx);
            cx2 = fold (\<lambda>flow. warn_if (bt_has (cc_services component) flow)
                (blocking (quoted local_path @ '' has a service and a flow both named '' @ quoted flow @ '', so a bare '' @
                   quoted flow @ '' in a flow could mean either '' @ em_dash @ '' rename one'')))
              (bt_keys (cc_flows component)) cx1
        in cx2\<lparr>rx_nodes := bt_map (\<lambda>_ n. if n_local_path n = Some local_path \<and> n_downloaded n
                                         then n\<lparr>n_includes := resolved\<rparr> else n) (rx_nodes cx2),
               rx_includes := bt_insert local_path resolved (rx_includes cx2)\<rparr>))"

section \<open>Phase 3: tasks\<close>

definition completed_targets :: "component_config \<Rightarrow> string set" where
  "completed_targets component =
     set (concat (map (\<lambda>service. map fst (filter (\<lambda>(t, entry).
         de_condition entry = ServiceCompletedSuccessfully \<and> bt_has (cc_services component) t)
       (depends_entries (sc_depends_on service)))) (bt_values (cc_services component))))"

definition check_store ::
  "string \<Rightarrow> component_config \<Rightarrow> string \<Rightarrow> string \<Rightarrow> string \<Rightarrow> resolve_ctx \<Rightarrow> string option \<times> resolve_ctx" where
  "check_store local_path component name field store cx =
     (let i = node_id_of name local_path in
      if store = name
      then (None, warn (blocking (quoted i @ '' names itself in `'' @ field @ ''`'')) cx)
      else if \<not> bt_has (cc_services component) store
      then (None, warn (blocking (quoted i @ '' '' @ field @ '' '' @ quoted store @ '', but '' @ quoted local_path @
             '' has no service by that name '' @ em_dash @ '' a store is in the same repo as what migrates or seeds it'')) cx)
      else (Some (node_id_of store local_path), cx))"

definition check_stores ::
  "string \<Rightarrow> component_config \<Rightarrow> string \<Rightarrow> service_config \<Rightarrow> resolve_ctx \<Rightarrow> (string option \<times> string list) \<times> resolve_ctx" where
  "check_stores local_path component name service cx =
     (let i = node_id_of name local_path in
      if sc_migrates service = None \<and> sc_seeds service = [] then ((None, []), cx)
      else
        (let cx1 = warn_if (sc_run service \<noteq> None)
               (blocking (quoted i @ '' sets `run` alongside `'' @ (if sc_migrates service \<noteq> None then ''migrates'' else ''seeds'') @
                  ''` '' @ em_dash @ '' that decides when it runs; drop `run`'')) cx;
             cx2 = warn_if (sc_migrates service \<noteq> None \<and> sc_seeds service \<noteq> [])
               (blocking (quoted i @ '' sets both `migrates` and `seeds` '' @ em_dash @
                  '' a migration runs on every start and a seed only on new data, so split it into two services'')) cx1;
             (migrates, cx3) = (case sc_migrates service of
                  None \<Rightarrow> (None, cx2)
                | Some m \<Rightarrow> check_store local_path component name ''migrates'' m cx2);
             (seeds, cx4) = fold (\<lambda>s (out, c). case check_store local_path component name ''seeds'' s c of
                  (None, c') \<Rightarrow> (out, c') | (Some x, c') \<Rightarrow> (out @ [x], c')) (sc_seeds service) ([], cx3)
         in ((migrates, seeds), cx4)))"

definition mark_task :: "string \<Rightarrow> component_config \<Rightarrow> string \<times> service_config \<Rightarrow> resolve_ctx \<Rightarrow> resolve_ctx" where
  "mark_task local_path component entry cx =
     (case entry of (name, service) \<Rightarrow>
       (let i = node_id_of name local_path;
            store_task = (sc_migrates service \<noteq> None \<or> sc_seeds service \<noteq> [])
        in if name \<notin> completed_targets component \<and> sc_run service = None \<and> \<not> store_task then cx
           else
             (let cx1 = warn_if (sc_healthcheck service \<noteq> None)
                    (blocking (''task '' @ quoted i @ '' declares a healthcheck '' @ em_dash @
                       '' a task is done when it exits 0, and an exited container can never report healthy'')) cx;
                  cx2 = warn_if (sc_restart service \<noteq> None \<and> sc_restart service \<noteq> Some ''no'')
                    (blocking (''task '' @ quoted i @ '' sets `restart` '' @ em_dash @
                       '' a container whose purpose is to exit would be restarted forever; leave it unset'')) cx1;
                  cx3 = warn_if (sc_command service = [])
                    (blocking (''task '' @ quoted i @ '' declares no `command` '' @ em_dash @
                       '' a task is its command, and one without would run the image'' @ [CHR 0x27] @ ''s default CMD and never exit'')) cx2;
                  run = (case sc_run service of None \<Rightarrow> default_run_policy | Some r \<Rightarrow> r);
                  cx4 = warn_if (run \<noteq> ''on_start'' \<and> run \<noteq> ''once'')
                    (blocking (''task '' @ quoted i @ '' sets `run: '' @ run @ ''` '' @ em_dash @ '' it is '' @
                       [CHR 0x22] @ ''on_start'' @ [CHR 0x22] @ '' or '' @ [CHR 0x22] @ ''once'' @ [CHR 0x22])) cx3;
                  ((migrates, seeds), cx5) = check_stores local_path component name service cx4
              in cx5\<lparr>rx_nodes := bt_modify i (\<lambda>n. n\<lparr>n_kind := ''task'', n_run_policy := Some run,
                     n_healthcheck := None, n_migrates := migrates, n_seeds := seeds\<rparr>) (rx_nodes cx5)\<rparr>)))"

definition mark_tasks :: "string \<times> component_config \<Rightarrow> resolve_ctx \<Rightarrow> resolve_ctx" where
  "mark_tasks repo cx =
     (case repo of (local_path, component) \<Rightarrow> fold (mark_task local_path component) (cc_services component) cx)"

end
