(* ===== verification/Members.thy ===== *)
theory Members
  imports Resolver
begin

text \<open>
  The members of flows and repos (\<open>src/resolver/flows.rs\<close>, and the alias look-ups of
  \<open>visit.rs\<close>). The recursions carry a set of what was expanded; \<open>fuel\<close> bounds their depth, and
  \<open>Members_Props\<close> shows that the fuel used is always enough.
\<close>

definition has_alias :: "resolve_ctx \<Rightarrow> string \<Rightarrow> string \<Rightarrow> bool" where
  "has_alias cx local_path alias =
     (case map_of (rx_includes cx) local_path of None \<Rightarrow> False | Some m \<Rightarrow> bt_has m alias)"

definition alias_target :: "resolve_ctx \<Rightarrow> string \<Rightarrow> string \<Rightarrow> string option" where
  "alias_target cx local_path alias =
     (case map_of (rx_includes cx) local_path of None \<Rightarrow> None | Some m \<Rightarrow> map_of m alias)"

definition alias_or_self :: "resolve_ctx \<Rightarrow> string \<Rightarrow> string \<Rightarrow> string" where
  "alias_or_self cx local_path alias = (case alias_target cx local_path alias of Some t \<Rightarrow> t | None \<Rightarrow> alias)"

definition flow_label :: "resolve_ctx \<Rightarrow> string \<Rightarrow> target \<Rightarrow> string" where
  "flow_label cx local_path t =
     (case t of
        Bare alias \<Rightarrow> alias_or_self cx local_path alias
      | Qualified alias name \<Rightarrow> alias_or_self cx local_path alias @ ''/'' @ name)"

section \<open>Repos\<close>

definition included_repos :: "resolve_ctx \<Rightarrow> string \<Rightarrow> string list" where
  "included_repos cx repo = (case map_of (rx_includes cx) repo of None \<Rightarrow> [] | Some m \<Rightarrow> bt_values m)"

definition own_members :: "resolve_ctx \<Rightarrow> string \<Rightarrow> string set" where
  "own_members cx repo =
     (if \<not> is_scanned cx repo then (if bt_has (rx_nodes cx) repo then {repo} else {})
      else n_id ` set (filter (\<lambda>n. n_downloaded n \<and> n_local_path n = Some repo) (bt_values (rx_nodes cx))))"

fun repo_members :: "nat \<Rightarrow> resolve_ctx \<Rightarrow> string \<Rightarrow> string set \<times> string set \<Rightarrow> string set \<times> string set" where
  "repo_members 0 cx repo acc = acc"
| "repo_members (Suc fuel) cx repo acc =
     (if repo \<in> fst acc then acc
      else let acc' = (insert repo (fst acc), snd acc \<union> own_members cx repo)
           in if \<not> is_scanned cx repo then acc'
              else fold (\<lambda>t. repo_members fuel cx t) (included_repos cx repo) acc')"

definition repo_fuel :: "resolve_ctx \<Rightarrow> nat" where
  "repo_fuel cx = 2 + length (concat (map bt_values (bt_values (rx_includes cx))))"

section \<open>Flows\<close>

definition check_foreign_flow :: "resolve_ctx \<Rightarrow> string \<Rightarrow> string \<Rightarrow> string \<Rightarrow> string + unit" where
  "check_foreign_flow cx alias repo name =
     (case map_of (rx_scanned cx) repo of
        None \<Rightarrow> Inr ()
      | Some component \<Rightarrow>
          if bt_has (cc_flows component) name then Inr ()
          else
            (let available = (if cc_flows component = [] then ''it publishes none, so name '' @ quoted alias @ '' to start all of it''
                   else ''use one of its flows: '' @ join '', '' (map (\<lambda>f. alias @ ''/'' @ f) (bt_keys (cc_flows component))))
             in if bt_has (cc_services component) name
                then Inl (''names '' @ quoted (alias @ ''/'' @ name) @ '', which is a service '' @ em_dash @ '' '' @ alias @
                       [CHR 0x27] @ ''s services are internal; '' @ available)
                else Inl (''names '' @ quoted (alias @ ''/'' @ name) @ '', but '' @ quoted repo @ '' has no flow named '' @
                       quoted name @ ''; '' @ available)))"

record expansion =
  ex_seen :: "(string \<times> string) set"
  ex_out :: "string set"
  ex_errors :: "string list"

definition no_expansion :: expansion where
  "no_expansion = \<lparr>ex_seen = {}, ex_out = {}, ex_errors = []\<rparr>"

definition ex_error :: "nat \<Rightarrow> string \<Rightarrow> expansion \<Rightarrow> expansion" where
  "ex_error depth e acc = (if depth = 0 then acc\<lparr>ex_errors := ex_errors acc @ [e]\<rparr> else acc)"

definition expand_entry ::
  "(string \<Rightarrow> string \<Rightarrow> nat \<Rightarrow> expansion \<Rightarrow> expansion) \<Rightarrow> resolve_ctx \<Rightarrow> component_config \<Rightarrow> string \<Rightarrow> nat \<Rightarrow> string
   \<Rightarrow> expansion \<Rightarrow> expansion" where
  "expand_entry recurse cx component repo depth entry acc =
     (let unknown = ex_error depth (''names '' @ quoted entry @ '', but '' @ quoted repo @ '' has no service, flow or include by that name'') acc
      in case parse_target entry of
           Bare name \<Rightarrow>
             if bt_has (cc_services component) name then acc\<lparr>ex_out := insert (node_id_of name repo) (ex_out acc)\<rparr>
             else if bt_has (cc_flows component) name then recurse repo name (depth + 1) acc
             else if has_alias cx repo name
             then acc\<lparr>ex_out := snd (repo_members (repo_fuel cx) cx (alias_or_self cx repo name) ({}, ex_out acc))\<rparr>
             else unknown
         | Qualified alias name \<Rightarrow>
             if has_alias cx repo alias then
               (case check_foreign_flow cx alias (alias_or_self cx repo alias) name of
                  Inr _ \<Rightarrow> recurse (alias_or_self cx repo alias) name (depth + 1) acc
                | Inl e \<Rightarrow> ex_error depth e acc)
             else unknown)"

fun expand_flow :: "nat \<Rightarrow> resolve_ctx \<Rightarrow> string \<Rightarrow> string \<Rightarrow> nat \<Rightarrow> expansion \<Rightarrow> expansion" where
  "expand_flow 0 cx repo flow depth acc = acc"
| "expand_flow (Suc fuel) cx repo flow depth acc =
     (if (repo, flow) \<in> ex_seen acc then acc
      else let acc' = acc\<lparr>ex_seen := insert (repo, flow) (ex_seen acc)\<rparr>
           in case map_of (rx_scanned cx) repo of
                None \<Rightarrow> if bt_has (rx_nodes cx) repo then acc'\<lparr>ex_out := insert repo (ex_out acc')\<rparr> else acc'
              | Some component \<Rightarrow>
                  (case map_of (cc_flows component) flow of
                     None \<Rightarrow> acc'
                   | Some entries \<Rightarrow>
                       fold (expand_entry (\<lambda>r f d a. expand_flow fuel cx r f d a) cx component repo depth) entries acc'))"

definition flow_fuel :: "resolve_ctx \<Rightarrow> nat" where
  "flow_fuel cx = 2 + length (concat (concat (map (\<lambda>c. bt_values (cc_flows c)) (bt_values (rx_scanned cx)))))"

definition foreign_members :: "resolve_ctx \<Rightarrow> string \<Rightarrow> target \<Rightarrow> string + string list" where
  "foreign_members cx local_path t =
     (case t of
        Bare alias \<Rightarrow>
          (let repo = alias_or_self cx local_path alias
           in Inr (sorted_list_of_set
                (snd (repo_members (repo_fuel cx) cx repo (set (included_repos cx repo) - {repo}, {})))))
      | Qualified alias name \<Rightarrow>
          (case alias_target cx local_path alias of
             None \<Rightarrow> Inl (''names '' @ quoted (alias @ ''/'' @ name) @ '', but '' @ quoted local_path @
                       '' has no include named '' @ quoted alias)
           | Some repo \<Rightarrow>
               (case check_foreign_flow cx alias repo name of
                  Inl e \<Rightarrow> Inl e
                | Inr _ \<Rightarrow> Inr (sorted_list_of_set (ex_out (expand_flow (flow_fuel cx) cx repo name 1 no_expansion))))))"

end
