(* ===== verification/Phases.thy ===== *)
theory Phases
  imports Members
begin

text \<open>
  The resolver's phases 4 to 6 (\<open>src/resolver/visit.rs\<close>): dependency edges, the edges that stores,
  migrations and seeds imply, and the check of FQDN references.
\<close>

section \<open>Phase 4: dependency edges\<close>

definition dependency :: "string \<Rightarrow> string \<Rightarrow> bool \<Rightarrow> dep_condition \<Rightarrow> string option \<Rightarrow> edge" where
  "dependency from to required condition via_flow =
     \<lparr>e_from = from, e_to = to, e_kind = ''depends-on'', e_required = required,
      e_condition = Some (condition_str condition), e_via_flow = via_flow, e_flows = [], e_implied = False\<rparr>"

definition push_dependency ::
  "string \<Rightarrow> string \<Rightarrow> bool \<Rightarrow> dep_condition \<Rightarrow> string option \<Rightarrow> resolve_ctx \<Rightarrow> resolve_ctx" where
  "push_dependency from to required condition via_flow cx =
     cx\<lparr>rx_edges := rx_edges cx @ [dependency from to required condition via_flow]\<rparr>"

definition check_condition :: "string \<Rightarrow> string \<Rightarrow> dep_condition \<Rightarrow> resolve_ctx \<Rightarrow> resolve_ctx" where
  "check_condition from to condition cx =
     (case map_of (rx_nodes cx) to of
        None \<Rightarrow> cx
      | Some target \<Rightarrow>
          if condition = ServiceCompletedSuccessfully then cx
          else if n_kind target = ''task''
          then warn (blocking (quoted from @ '' waits on '' @ quoted to @ '' with `'' @ condition_str condition @
                 ''`, but something else waits on it with `service_completed_successfully`, which makes it a task '' @ em_dash @
                 '' wait on it that way everywhere'')) cx
          else if condition = ServiceHealthy \<and> n_healthcheck target = None
          then warn (blocking (quoted from @ '' waits on '' @ quoted to @ '' with `service_healthy`, but '' @ quoted to @
                 '' declares no healthcheck'')) cx
          else cx)"

definition check_runtime_condition :: "string \<Rightarrow> string \<Rightarrow> dep_condition \<Rightarrow> resolve_ctx \<Rightarrow> resolve_ctx" where
  "check_runtime_condition from key condition cx =
     (case condition of
        ServiceStarted \<Rightarrow> cx
      | ServiceCompletedSuccessfully \<Rightarrow>
          warn (blocking (quoted from @ '' waits on '' @ quoted key @
            '' with `service_completed_successfully` but marks it `required: false` '' @ em_dash @
            '' a task has to finish before its dependent starts, so it is needed to start; drop `required: false`, or give the task `run:` and list it in a flow instead'')) cx
      | ServiceHealthy \<Rightarrow>
          warn (advisory (quoted from @ '' waits on '' @ quoted key @
            '' with `service_healthy`, which is ignored: it'' @ [CHR 0x27] @ ''s `required: false`, and nothing waits on a runtime dependency'')) cx)"

definition target_alias :: "target \<Rightarrow> string" where
  "target_alias t = (case t of Bare a \<Rightarrow> a | Qualified a _ \<Rightarrow> a)"

definition is_seed_node :: "resolve_ctx \<Rightarrow> string \<Rightarrow> bool" where
  "is_seed_node cx i = (case map_of (rx_nodes cx) i of None \<Rightarrow> False | Some n \<Rightarrow> n_seeds n \<noteq> [])"

definition push_member ::
  "string \<Rightarrow> depends_on_entry \<Rightarrow> string \<Rightarrow> string \<Rightarrow> resolve_ctx \<Rightarrow> resolve_ctx" where
  "push_member from entry via to cx =
     (if is_seed_node cx to then
        (if de_required entry then cx\<lparr>rx_seeds_pulled := rx_seeds_pulled cx @ [(from, to)]\<rparr> else cx)
      else push_dependency from to (de_required entry) (de_condition entry) (Some via) cx)"

definition add_foreign_dependency ::
  "string \<Rightarrow> string \<Rightarrow> string \<Rightarrow> depends_on_entry \<Rightarrow> target \<Rightarrow> resolve_ctx \<Rightarrow> resolve_ctx" where
  "add_foreign_dependency local_path from key entry t cx =
     (if de_condition entry = ServiceCompletedSuccessfully
      then warn (blocking (quoted from @ '' waits on '' @ quoted key @ '' with `condition: service_completed_successfully` '' @
             em_dash @ '' another repo'' @ [CHR 0x27] @ ''s flow is waited on until it is up, it never completes'')) cx
      else
        (let cx1 = (if de_required entry then cx else check_runtime_condition from key (de_condition entry) cx)
         in case foreign_members cx1 local_path t of
              Inl e \<Rightarrow> warn (blocking (quoted from @ '' '' @ e)) cx1
            | Inr members \<Rightarrow> fold (push_member from entry (flow_label cx1 local_path t)) members cx1))"

definition add_dependency ::
  "string \<Rightarrow> component_config \<Rightarrow> string \<Rightarrow> string \<times> depends_on_entry \<Rightarrow> resolve_ctx \<Rightarrow> resolve_ctx" where
  "add_dependency local_path component from dep cx =
     (case dep of (key, entry) \<Rightarrow>
       (let t = parse_target key;
            local = (case t of Bare target \<Rightarrow> if bt_has (cc_services component) target then Some target else None | _ \<Rightarrow> None);
            own_flow = (case t of Bare target \<Rightarrow> if bt_has (cc_flows component) target then Some target else None | _ \<Rightarrow> None)
        in case local of
             Some target \<Rightarrow>
               (let to = node_id_of target local_path in
                if to = from then warn (blocking (quoted from @ '' depends on itself'')) cx
                else push_dependency from to (de_required entry) (de_condition entry) None
                       (if de_required entry then check_condition from to (de_condition entry) cx
                        else check_runtime_condition from key (de_condition entry) cx))
           | None \<Rightarrow>
               (case own_flow of
                  Some target \<Rightarrow>
                    warn (blocking (quoted from @ '' depends on '' @ quoted target @ '', which is a flow in this repo '' @ em_dash @
                      '' within a repo, `depends_on` names services'')) cx
                | None \<Rightarrow>
                    if \<not> has_alias cx local_path (target_alias t)
                    then warn (blocking (quoted from @ '' depends on '' @ quoted key @ '', but '' @ quoted local_path @
                           '' has no service and no include named '' @ quoted (target_alias t))) cx
                    else add_foreign_dependency local_path from key entry t cx)))"

definition add_dependency_edges :: "string \<times> component_config \<Rightarrow> resolve_ctx \<Rightarrow> resolve_ctx" where
  "add_dependency_edges repo cx =
     (case repo of (local_path, component) \<Rightarrow>
       fold (\<lambda>(name, service). fold (add_dependency local_path component (node_id_of name local_path))
               (depends_entries (sc_depends_on service))) (cc_services component) cx)"

section \<open>Phase 5: stores\<close>

definition store_tasks :: "(string, node) btree \<Rightarrow> (string \<times> string list) list" where
  "store_tasks nodes =
     sort (map (\<lambda>n. (n_id n, (case n_migrates n of None \<Rightarrow> [] | Some s \<Rightarrow> [s]) @ n_seeds n))
       (filter (\<lambda>n. n_migrates n \<noteq> None \<or> n_seeds n \<noteq> []) (bt_values nodes)))"

definition store_edge :: "string \<Rightarrow> string \<Rightarrow> resolve_ctx \<Rightarrow> resolve_ctx" where
  "store_edge task store cx =
     (case map_of (rx_nodes cx) store of
        None \<Rightarrow> cx
      | Some target \<Rightarrow>
          if n_kind target = ''task''
          then warn (blocking (quoted task @ '' names '' @ quoted store @ '' as a store, but '' @ quoted store @ '' is a task '' @ em_dash @
                 '' a store is something that stays up'')) cx
          else if list_ex (\<lambda>e. e_from e = task \<and> e_to e = store) (rx_edges cx) then cx
          else push_dependency task store True
                 (if n_healthcheck target \<noteq> None then ServiceHealthy else ServiceStarted) None cx)"

definition note_migration :: "string \<Rightarrow> (string, string) btree \<times> resolve_ctx \<Rightarrow> (string, string) btree \<times> resolve_ctx" where
  "note_migration task acc =
     (case acc of (migrations, cx) \<Rightarrow>
       (case Option.bind (map_of (rx_nodes cx) task) n_migrates of
          None \<Rightarrow> (migrations, cx)
        | Some store \<Rightarrow>
            (bt_insert store task migrations,
             case map_of migrations store of
               None \<Rightarrow> cx
             | Some other \<Rightarrow>
                 warn (blocking (quoted other @ '' and '' @ quoted task @ '' both migrate '' @ quoted store @ '' '' @ em_dash @
                   '' one migration per store, so their order can'' @ [CHR 0x27] @ ''t be a guess'')) cx)))"

definition add_store_task :: "string \<times> string list \<Rightarrow> (string, string) btree \<times> resolve_ctx \<Rightarrow> (string, string) btree \<times> resolve_ctx" where
  "add_store_task entry acc =
     (case (entry, acc) of ((task, stores), (migrations, cx)) \<Rightarrow>
       note_migration task (migrations, fold (store_edge task) stores cx))"

definition implied_edge :: "edge \<Rightarrow> string \<Rightarrow> edge" where
  "implied_edge e migration =
     \<lparr>e_from = e_from e, e_to = migration, e_kind = ''depends-on'', e_required = True,
      e_condition = Some (condition_str ServiceCompletedSuccessfully), e_via_flow = e_via_flow e,
      e_flows = [], e_implied = True\<rparr>"

definition imply_one ::
  "edge list \<Rightarrow> (string, string) btree \<Rightarrow> edge \<Rightarrow> (string \<times> string) set \<times> edge list \<Rightarrow> (string \<times> string) set \<times> edge list" where
  "imply_one edges migrations e acc =
     (case map_of migrations (e_to e) of
        None \<Rightarrow> acc
      | Some migration \<Rightarrow>
          if e_from e = migration \<or> list_ex (\<lambda>x. e_from x = e_from e \<and> e_to x = migration) edges \<or>
             (e_from e, migration) \<in> fst acc
          then acc
          else (insert (e_from e, migration) (fst acc), snd acc @ [implied_edge e migration]))"

definition implied_edges :: "edge list \<Rightarrow> (string, string) btree \<Rightarrow> edge list" where
  "implied_edges edges migrations =
     snd (fold (imply_one edges migrations) (filter needed_to_start edges) ({}, []))"

definition add_store_edges :: "resolve_ctx \<Rightarrow> resolve_ctx" where
  "add_store_edges cx =
     (case fold add_store_task (store_tasks (rx_nodes cx)) ([], cx) of
        (migrations, cx1) \<Rightarrow> cx1\<lparr>rx_edges := rx_edges cx1 @ implied_edges (rx_edges cx1) migrations\<rparr>)"

section \<open>Phase 6: references\<close>

definition target_repo_is_stub :: "resolve_ctx \<Rightarrow> (string, string) btree \<Rightarrow> string \<Rightarrow> bool" where
  "target_repo_is_stub cx includes path =
     (case parse_target path of
        Bare _ \<Rightarrow> False
      | Qualified alias _ \<Rightarrow> (case map_of includes alias of None \<Rightarrow> False | Some repo \<Rightarrow> \<not> is_scanned cx repo))"

definition check_reference :: "node \<Rightarrow> string \<Rightarrow> string \<Rightarrow> string set \<times> resolve_ctx \<Rightarrow> string set \<times> resolve_ctx" where
  "check_reference n local_path path acc =
     (case acc of (seen, cx) \<Rightarrow>
       if path \<in> seen then acc
       else (insert path seen,
         (case reference_target_id local_path (n_includes n) path of
            None \<Rightarrow> warn (blocking (quoted (n_id n) @ '' references '' @ quoted path @ '' in a ${FGHJ_SERVICE_FQDN:'' @
                [CHR 0xE2, CHR 0x80, CHR 0xA6] @ ''} template, but '' @ quoted local_path @
                '' has no service and no include named '' @ quoted (hd (split_char path (CHR ''/''))))) cx
          | Some to \<Rightarrow>
              if bt_has (rx_nodes cx) to \<or> target_repo_is_stub cx (n_includes n) path then cx
              else warn (blocking (quoted (n_id n) @ '' references '' @ quoted path @ '' in a ${FGHJ_SERVICE_FQDN:'' @
                [CHR 0xE2, CHR 0x80, CHR 0xA6] @ ''} template, but there is no such service'')) cx)))"

definition check_node_references :: "node \<Rightarrow> resolve_ctx \<Rightarrow> resolve_ctx" where
  "check_node_references n cx =
     (if \<not> n_downloaded n then cx
      else case n_local_path n of
             None \<Rightarrow> cx
           | Some local_path \<Rightarrow>
               snd (fold (check_reference n local_path)
                 (concat (map fqdn_template_paths (n_environment n))) ({}, cx)))"

definition check_references :: "resolve_ctx \<Rightarrow> resolve_ctx" where
  "check_references cx = fold check_node_references (bt_values (rx_nodes cx)) cx"

end
