(* ===== verification/Universe.thy ===== *)
theory Universe
  imports Phases
begin

text \<open>
  Flow membership (\<open>src/resolver/flows.rs\<close>), the checks on derived names (\<open>uniqueness.rs\<close>) and the
  resolver as a whole (\<open>universe.rs\<close>, \<open>workspace_scan.rs\<close>).
\<close>

section \<open>Flow membership (flows.rs)\<close>

definition missing_seeds :: "(string \<times> string) list \<Rightarrow> string set \<Rightarrow> string set" where
  "missing_seeds pulled start = snd ` set (filter (\<lambda>(from, seed). from \<in> start \<and> seed \<notin> start) pulled)"

lemma add_migrations_seen: "start \<subseteq> add_migrations nodes edges start"
proof (induction nodes edges start rule: add_migrations.induct)
  case (1 nodes edges start)
  show ?case
  proof (cases "missing_migrations nodes start = {}")
    case True
    then show ?thesis by (subst add_migrations.simps) simp
  next
    case False
    with 1 [OF refl False] show ?thesis by (subst add_migrations.simps) (simp add: Let_def)
  qed
qed

function add_pulled_seeds :: "(string \<times> string) list \<Rightarrow> node list \<Rightarrow> edge list \<Rightarrow> string set \<Rightarrow> string set" where
  "add_pulled_seeds pulled nodes edges start =
     (let missing = missing_seeds pulled start
      in if missing = {} then start
         else add_pulled_seeds pulled nodes edges
                (add_migrations nodes edges (start \<union> required_closure edges missing)))"
  by pat_completeness auto
termination
proof (relation "measure (\<lambda>(pulled, nodes, edges, start). card (snd ` set pulled - start))", goal_cases)
  case 1
  show ?case by simp
next
  case (2 pulled nodes edges start missing)
  then obtain x where x: "x \<in> missing" by auto
  have sub: "start \<union> required_closure edges missing \<subseteq> add_migrations nodes edges (start \<union> required_closure edges missing)"
    by (rule add_migrations_seen)
  have "x \<in> add_migrations nodes edges (start \<union> required_closure edges missing)"
    using x required_closure_seeds sub by blast
  moreover have "x \<in> snd ` set pulled - start" using x 2 by (force simp: missing_seeds_def)
  ultimately have "snd ` set pulled - add_migrations nodes edges (start \<union> required_closure edges missing)
      \<subset> snd ` set pulled - start"
    using sub by blast
  then show ?case by (simp add: psubset_card_mono)
qed

declare add_pulled_seeds.simps [simp del]

definition flow_start :: "resolve_ctx \<Rightarrow> string set \<Rightarrow> string set" where
  "flow_start cx members =
     add_pulled_seeds (rx_seeds_pulled cx) (bt_values (rx_nodes cx)) (rx_edges cx)
       (add_migrations (bt_values (rx_nodes cx)) (rx_edges cx) (required_closure (rx_edges cx) members))"

definition resolve_one_flow ::
  "string \<Rightarrow> string \<Rightarrow> resolve_ctx \<times> (string \<times> string set) list \<Rightarrow> resolve_ctx \<times> (string \<times> string set) list" where
  "resolve_one_flow repo flow acc =
     (case acc of (cx, memberships) \<Rightarrow>
       (let i = repo @ ''/'' @ flow;
            ex = expand_flow (flow_fuel cx) cx repo flow 0 no_expansion;
            cx1 = fold (\<lambda>e. warn (blocking (''flow '' @ quoted i @ '' '' @ e))) (ex_errors ex) cx
        in (cx1, memberships @ [(i, flow_start cx1 (ex_out ex))])))"

definition record_membership :: "string \<times> string set \<Rightarrow> resolve_ctx \<Rightarrow> resolve_ctx" where
  "record_membership m cx =
     (case m of (i, start) \<Rightarrow>
       cx\<lparr>rx_nodes := bt_map (\<lambda>k n. if k \<in> start then n\<lparr>n_flows := n_flows n @ [i]\<rparr> else n) (rx_nodes cx),
          rx_edges := map (\<lambda>e. if e_from e \<in> start \<and> e_to e \<in> start then e\<lparr>e_flows := e_flows e @ [i]\<rparr> else e) (rx_edges cx)\<rparr>)"

definition flow_memberships :: "resolve_ctx \<Rightarrow> resolve_ctx \<times> (string \<times> string set) list" where
  "flow_memberships cx =
     fold (\<lambda>(repo, component). fold (resolve_one_flow repo) (bt_keys (cc_flows component))) (rx_scanned cx) (cx, [])"

definition resolve_flows :: "resolve_ctx \<Rightarrow> string list \<times> resolve_ctx" where
  "resolve_flows cx =
     (case flow_memberships cx of
        (cx1, memberships) \<Rightarrow> (map fst memberships, fold record_membership memberships cx1))"

section \<open>Derived names (uniqueness.rs)\<close>

datatype claim = ClaimDomain | ClaimNamedPort | ClaimAdditionalHost | ClaimWildcardHost

fun describe_claim :: "claim \<Rightarrow> string" where
  "describe_claim ClaimDomain = ''its own domain''"
| "describe_claim ClaimNamedPort = ''a named port''"
| "describe_claim ClaimAdditionalHost = ''additional_hosts''"
| "describe_claim ClaimWildcardHost = ''wildcard additional_hosts''"

definition node_claims :: "node \<Rightarrow> (string \<times> string \<times> claim) list" where
  "node_claims n =
     (if \<not> n_downloaded n \<and> n_kind n = ''service'' then []
      else [(n_domain n, n_id n, ClaimDomain)] @
        filter_map (\<lambda>cfg. map_option (\<lambda>name. (name @ ''.'' @ n_domain n, n_id n, ClaimNamedPort)) (pc_name cfg)) (bt_values (n_ports n)) @
        map (\<lambda>h. (h, n_id n, ClaimAdditionalHost)) (n_additional_hosts n) @
        map (\<lambda>h. (h, n_id n, ClaimWildcardHost)) (n_wildcard_hosts n))"

definition group_by_name :: "('k::linorder \<times> 'v) list \<Rightarrow> ('k, 'v list) btree" where
  "group_by_name ps = fold (\<lambda>(k, v) m. bt_insert k ((case map_of m k of None \<Rightarrow> [] | Some vs \<Rightarrow> vs) @ [v]) m) ps []"

definition check_domains :: "node list \<Rightarrow> warning list" where
  "check_domains nodes =
     map (\<lambda>(name, c). blocking (quoted name @ '' is claimed by more than one node ('' @
         join '', '' (map (\<lambda>(i, cl). i @ '' ('' @ describe_claim cl @ '')'') c) @
         ''); only one will receive its traffic, and which one is unspecified''))
       (filter (\<lambda>(_, c). 1 < length c) (group_by_name (concat (map node_claims nodes))))"

definition check_container_names :: "node list \<Rightarrow> warning list" where
  "check_container_names nodes =
     map (\<lambda>(label, ids). blocking (''node ids '' @ join '', '' ids @ '' all reduce to the container name suffix '' @ quoted label @
         '' (dots and hyphens both become '' @ quoted ''-'' @ ''); only the first to start will get a container''))
       (filter (\<lambda>(_, ids). 1 < length ids) (group_by_name (map (\<lambda>n. (sanitize_label (n_id n), n_id n)) nodes)))"

definition check_derived_name_collisions :: "node list \<Rightarrow> warning list" where
  "check_derived_name_collisions nodes = check_domains nodes @ check_container_names nodes"

section \<open>The scan's verdicts and the whole resolve (workspace_scan.rs, universe.rs)\<close>

text \<open>\<open>found\<close> lists the directories that have a \<open>.fghj.yaml\<close>, each parsed or with the parse error.\<close>

definition scan_one ::
  "string \<times> (string + component_config) \<Rightarrow> (string, component_config) btree \<times> warning list
   \<Rightarrow> (string, component_config) btree \<times> warning list" where
  "scan_one entry acc =
     (case (entry, acc) of
        ((local_path, Inr component), (components, warnings)) \<Rightarrow>
          (bt_insert local_path component components,
           if is_newer_minor_than_supported (cc_version component)
           then warnings @ [advisory (quoted local_path @ '' declares version '' @ show_version (cc_version component) @
                  '' but this fghj implements '' @ show_version SCHEMA_VERSION @ ''; anything added after '' @
                  show_version SCHEMA_VERSION @ '' is ignored'')]
           else warnings)
      | ((local_path, Inl e), (components, warnings)) \<Rightarrow>
          (components, warnings @ [blocking (quoted local_path @
             '' has an unreadable .fghj.yaml, so nothing it declares is in the graph: '' @ e)]))"

definition scan_workspace ::
  "(string \<times> (string + component_config)) list \<Rightarrow> (string, component_config) btree \<times> warning list" where
  "scan_workspace found = fold scan_one found ([], [])"

definition index_repos :: "(string, component_config) btree \<Rightarrow> (string, repo_facts) btree \<Rightarrow> (string, string) btree" where
  "index_repos scanned facts =
     fold (\<lambda>local_path m. case Option.bind (map_of facts local_path) fa_repo of
         None \<Rightarrow> m
       | Some repo \<Rightarrow>
           if bt_has m (normalize_repo_url repo) then m else bt_insert (normalize_repo_url repo) local_path m)
       (bt_keys scanned) []"

definition run_phases :: "resolve_ctx \<Rightarrow> resolve_ctx" where
  "run_phases cx =
     (let scanned = rx_scanned cx
      in check_source_paths (check_references (add_store_edges
           (fold add_dependency_edges scanned (fold mark_tasks scanned
             (fold add_includes scanned (fold add_repo_nodes scanned cx)))))))"

definition resolve_universe ::
  "string \<Rightarrow> (string \<Rightarrow> git_seen) \<Rightarrow> (string, repo_facts) btree \<Rightarrow> (string \<times> (string + component_config)) list
   \<Rightarrow> graph option" where
  "resolve_universe workspace_name git facts found =
     (let (scanned, scan_warnings) = scan_workspace found;
          (flows, cx) = resolve_flows (run_phases (new_ctx git scanned (index_repos scanned facts) facts));
          nodes = map (\<lambda>n. n\<lparr>n_domain := derive_domain (n_id n) workspace_name Http\<rparr>)
                    (sort_key n_id (bt_values (rx_nodes cx)))
      in map_option (\<lambda>cycles.
           \<lparr>g_workspace_name = workspace_name, g_nodes = nodes, g_edges = rx_edges cx, g_flows = flows,
            g_warnings = scan_warnings @ rx_warnings cx @ check_derived_name_collisions nodes @ cycles\<rparr>)
         (check_cycles (rx_edges cx)))"

end
