(* ===== verification/Downloads.thy ===== *)
theory Downloads
  imports Registry Universe Words "HOL-Library.Option_ord"
begin

text \<open>
  Pulling what a workspace lacks (\<open>src/downloads.rs\<close>): repositories and build sources are cloned layer by layer
  until the resolved graph misses nothing, then the images are fetched. A pull is a job of the daemon's log;
  git, the file system and the reading of the workspace are calls on a world of any type. The two pipes
  of a git process are the chunks in the order they are read. The loop over the layers carries fuel, and
  None is a pull that is still going.
\<close>

section \<open>The world of a pull\<close>

text \<open>What a resolve reads of the workspace: its name, the checkouts' facts, the sources, the scanned files.\<close>

record workspace_reading =
  wr_name :: string
  wr_git :: "string \<Rightarrow> git_seen"
  wr_facts :: "(string, repo_facts) btree"
  wr_found :: "(string \<times> (string + component_config)) list"

datatype agent = AgentNone | AgentSession | AgentOther

text \<open>
  \<open>pu_git\<close> runs git as the owner: it cannot be run, or it prints chunks and ends, with the status that is not
  success. \<open>pu_owner\<close> is who owns the workspace.
\<close>

record 'w pull_api =
  pu_daemon :: "'w daemon_api"
  pu_workspace :: fs_path
  pu_owner :: "workspace_owner option"
  pu_read :: "('w, workspace_reading) fallible"
  pu_origin :: "fs_path \<Rightarrow> ('w, string option) state"
  pu_git :: "workspace_owner option \<Rightarrow> string list \<Rightarrow> ('w, byte list list \<times> string option) fallible"
  pu_live_sock :: "workspace_owner \<Rightarrow> ('w, string option) state"
  pu_is_session_agent :: "string \<Rightarrow> ('w, bool) state"

text \<open>The folder of a path that a graph names.\<close>

definition folder_in :: "fs_path \<Rightarrow> string \<Rightarrow> fs_path" where
  "folder_in workspace p = child_path workspace (filter (\<lambda>s. s \<noteq> [] \<and> s \<noteq> ''.'') (split_on p (\<lambda>c. c = CHR ''/'')))"

definition resolve_now :: "'w pull_api \<Rightarrow> ('w daemon, graph) fallible" where
  "resolve_now P = and_then (on_world (pu_read P)) (\<lambda>r.
     case resolve_universe (wr_name r) (wr_git r) (wr_facts r) (wr_found r) of
       Some g \<Rightarrow> ok g
     | None \<Rightarrow> fails ''resolve_universe panicked'')"

section \<open>The job\<close>

definition log_len :: "nat \<Rightarrow> activity_log \<Rightarrow> nat" where
  "log_len job l = (case find_activity l job of None \<Rightarrow> 0 | Some a \<Rightarrow> length (ac_log a))"

definition log_from :: "nat \<Rightarrow> nat \<Rightarrow> activity_log \<Rightarrow> string" where
  "log_from job start l = (case find_activity l job of None \<Rightarrow> [] | Some a \<Rightarrow> drop start (ac_log a))"

definition child_job :: "'w daemon_api \<Rightarrow> nat \<Rightarrow> string \<Rightarrow> ('w daemon, nat) state" where
  "child_job D job key = do {
     now \<leftarrow> on_world (ap_unix_ms (da_engine D));
     d \<leftarrow> State_Monad.get;
     let (child, l) = child_of_kind job None key now (dm_log d);
     modify_state (\<lambda>d. d\<lparr>dm_log := l\<rparr>);
     State_Monad.return child }"

definition settling :: "'w daemon_api \<Rightarrow> nat \<Rightarrow> ('w daemon, unit) fallible \<Rightarrow> ('w daemon, unit) fallible" where
  "settling D job work = do {
     result \<leftarrow> work;
     on_log (settle_job job result) D;
     State_Monad.return result }"

definition stream_chunk :: "byte list \<Rightarrow> string" where
  "stream_chunk buf = map (\<lambda>c. if c = CHR 0x0D then CHR 0x0A else c) (from_utf8_lossy buf)"

section \<open>Git\<close>

definition ensure_checkout_is :: "'w pull_api \<Rightarrow> fs_path \<Rightarrow> string \<Rightarrow> ('w daemon, unit) fallible" where
  "ensure_checkout_is P dest repo = do {
     origin \<leftarrow> on_world (pu_origin P dest);
     case origin of
       None \<Rightarrow> fails (path_text dest @ '' already exists but is not a git checkout with an `origin` remote; fghj cannot confirm it is ''
           @ repo @ ''. Remove or rename it, then pull again.'')
     | Some origin \<Rightarrow>
         if normalize_repo_url origin = normalize_repo_url repo then ok ()
         else fails (path_text dest @ '' is a checkout of '' @ origin @ '', not '' @ repo
           @ ''. Both repos want the same workspace folder because it is named after the last segment of the URL. ''
           @ ''fghj cannot hold both; rename or remove the existing checkout.'') }"

definition failure_hint :: "string \<Rightarrow> bool \<Rightarrow> bool \<Rightarrow> agent \<Rightarrow> string option" where
  "failure_hint output has_owner as_root agent =
     (if \<not> list_ex (contains_str output)
          [''Permission denied (publickey'', ''Authentication failed'', ''could not read Username'']
      then None
      else case (has_owner, as_root, agent) of
          (False, True, _) \<Rightarrow> Some (''git ran as root, with root'' @ [CHR 0x27]
            @ ''s keys: this workspace has no recorded owner and its folder belongs to root. ''
            @ ''Run `fghj wire` from your own user, then pull again.'')
        | (False, False, _) \<Rightarrow> None
        | (True, _, AgentNone) \<Rightarrow> Some (''git ran as you, with the keys in your ~/.ssh and no ssh-agent. A key with a ''
            @ ''passphrase needs one: run `ssh-add`, then pull again. If your keys live in ''
            @ ''another agent (1Password and the like), set `IdentityAgent` in ~/.ssh/config or run `fghj wire` from your shell.'')
        | (True, _, AgentSession) \<Rightarrow> Some (''git ran as you, with your login session'' @ [CHR 0x27]
            @ ''s ssh-agent. If your keys live in another agent ''
            @ ''(1Password and the like), set `IdentityAgent` in ~/.ssh/config or run ''
            @ ''`fghj wire` from your shell. Otherwise check `ssh-add -l` lists your key.'')
        | (True, _, AgentOther) \<Rightarrow> Some (''git ran as you, with your ssh-agent. If your key has a passphrase, check ''
            @ ''`ssh-add -l` lists it; otherwise check your account can read this repository.''))"

definition agent_of :: "'w pull_api \<Rightarrow> ('w daemon, agent) state" where
  "agent_of P =
     (case pu_owner P of
        None \<Rightarrow> State_Monad.return AgentNone
      | Some own \<Rightarrow> do {
          sock \<leftarrow> on_world (pu_live_sock P own);
          case sock of
            None \<Rightarrow> State_Monad.return AgentNone
          | Some s \<Rightarrow> do {
              session \<leftarrow> on_world (pu_is_session_agent P s);
              State_Monad.return (if session then AgentSession else AgentOther) } })"

definition refusal_hint :: "'w pull_api \<Rightarrow> string \<Rightarrow> ('w daemon, string option) state" where
  "refusal_hint P output = do {
     as_root \<leftarrow> on_world (da_is_root (pu_daemon P));
     agent \<leftarrow> agent_of P;
     State_Monad.return (failure_hint output (pu_owner P \<noteq> None) as_root agent) }"

definition run_git_logged :: "'w pull_api \<Rightarrow> string list \<Rightarrow> nat \<Rightarrow> ('w daemon, unit) fallible" where
  "run_git_logged P args job = do {
     d \<leftarrow> State_Monad.get;
     let log_start = log_len job (dm_log d);
     and_then (with_context ''failed to spawn git'' (on_world (pu_git P (pu_owner P) args))) (\<lambda>(chunks, failed). do {
       each (\<lambda>c _. append_job (pu_daemon P) job (stream_chunk c)) chunks ();
       case failed of
         None \<Rightarrow> ok ()
       | Some status \<Rightarrow> do {
           d \<leftarrow> State_Monad.get;
           hint \<leftarrow> refusal_hint P (log_from job log_start (dm_log d));
           (case hint of
              None \<Rightarrow> State_Monad.return ()
            | Some h \<Rightarrow> append_job (pu_daemon P) job (line_break @ ''hint: '' @ h @ line_break));
           fails (''git exited with '' @ status) } }) }"

definition run_git_clone_logged ::
  "'w pull_api \<Rightarrow> string \<Rightarrow> string \<Rightarrow> string \<Rightarrow> nat \<Rightarrow> ('w daemon, unit) fallible" where
  "run_git_clone_logged P repo branch local_path job =
     (let dest = folder_in (pu_workspace P) local_path in do {
        exists \<leftarrow> on_world (da_exists (pu_daemon P) dest);
        if exists then ensure_checkout_is P dest repo
        else do {
          append_job (pu_daemon P) job (line_of (''$ git clone --branch '' @ branch @ '' '' @ repo @ '' '' @ local_path));
          with_context (''git clone failed for '' @ repo @ '' (branch '' @ branch @ '')'')
            (run_git_logged P
               [''clone'', ''--progress'', ''--branch'', branch, ''--single-branch'', repo, path_text dest] job) } })"

text \<open>The commit a source is pinned to, when its reference looks like one.\<close>

definition pinned_commit :: "build_source \<Rightarrow> string option" where
  "pinned_commit src =
     (case bsrc_reference src of Some r \<Rightarrow> if looks_like_commit r then Some r else None | None \<Rightarrow> None)"

definition branch_args :: "build_source \<Rightarrow> string list" where
  "branch_args src =
     (case (bsrc_reference src, pinned_commit src) of
        (Some r, None) \<Rightarrow> [''--branch'', r, ''--single-branch'']
      | _ \<Rightarrow> [])"

definition checkout_commit :: "'w pull_api \<Rightarrow> build_source \<Rightarrow> fs_path \<Rightarrow> string \<Rightarrow> nat \<Rightarrow> ('w daemon, unit) fallible" where
  "checkout_commit P src dest commit job = do {
     append_job (pu_daemon P) job (line_of (''$ git checkout --detach '' @ commit));
     r \<leftarrow> run_git_logged P [''-C'', path_text dest, ''checkout'', ''--detach'', commit] job;
     case r of
       Inr u \<Rightarrow> ok ()
     | Inl e \<Rightarrow> do {
         removed \<leftarrow> on_world (da_remove_dir_all (pu_daemon P) (path_text dest));
         fails (bsrc_url src @ '' has no commit '' @ commit @ '': '' @ e) } }"

definition clone_source_logged :: "'w pull_api \<Rightarrow> build_source \<Rightarrow> nat \<Rightarrow> ('w daemon, unit) fallible" where
  "clone_source_logged P src job =
     (let dest = folder_in (pu_workspace P) (bsrc_path src);
          sources = child_path (pu_workspace P) [SOURCES_DIR] in do {
        exists \<leftarrow> on_world (da_exists (pu_daemon P) dest);
        if exists then ensure_checkout_is P dest (bsrc_url src)
        else and_then (with_context (''failed to create '' @ path_text sources)
                 (on_world (da_create_dir_all (pu_daemon P) sources))) (\<lambda>_.
             and_then (case pu_owner P of
                 None \<Rightarrow> ok ()
               | Some own \<Rightarrow> with_context (''failed to hand '' @ path_text sources @ '' to the owner'')
                   (take_path (pu_daemon P) own sources)) (\<lambda>_. do {
             append_job (pu_daemon P) job (line_of (''$ git clone ''
               @ (case (bsrc_reference src, pinned_commit src) of (Some r, None) \<Rightarrow> ''--branch '' @ r @ '' '' | _ \<Rightarrow> [])
               @ bsrc_url src @ '' '' @ bsrc_path src));
             and_then (with_context (''git clone failed for '' @ bsrc_url src)
                 (run_git_logged P
                    ([''clone'', ''--progress''] @ branch_args src @ [bsrc_url src, path_text dest]) job)) (\<lambda>_.
             case pinned_commit src of
               None \<Rightarrow> ok ()
             | Some commit \<Rightarrow> checkout_commit P src dest commit job) })) })"

section \<open>Images\<close>

definition images_run_by :: "node list \<Rightarrow> (string \<times> string option) list" where
  "images_run_by nodes =
     sorted_dedup (filter_map (\<lambda>n. map_option (\<lambda>i. (i, n_platform n)) (n_image n))
       (filter (\<lambda>n. n_build n = None) nodes))"

definition missing_images :: "'w pull_api \<Rightarrow> node list \<Rightarrow> ('w daemon, (string \<times> string option) list) fallible" where
  "missing_images P nodes =
     each_ok (\<lambda>(reference, platform) missing.
         and_then (on_world (ap_image_is_local (da_engine (pu_daemon P)) reference)) (\<lambda>there.
           ok (if there then missing else missing @ [(reference, platform)])))
       (images_run_by nodes) []"

definition pull_step :: "'w pull_api \<Rightarrow> string \<times> string option \<Rightarrow> nat \<Rightarrow> ('w daemon, unit) fallible" where
  "pull_step P img step =
     (case img of (reference, platform) \<Rightarrow>
        job_step (pu_daemon P) step (do {
          append_job (pu_daemon P) step (line_of (case platform of
              Some p \<Rightarrow> ''$ docker pull --platform '' @ p @ '' '' @ reference
            | None \<Rightarrow> ''$ docker pull '' @ reference));
          on_world (ap_pull_image (da_engine (pu_daemon P)) reference platform) }))"

definition pull_images_logged :: "'w pull_api \<Rightarrow> node list \<Rightarrow> nat \<Rightarrow> ('w daemon, unit) fallible" where
  "pull_images_logged P nodes job =
     and_then (missing_images P nodes) (\<lambda>missing.
       if missing = [] then ok ()
       else do {
         group \<leftarrow> child_job (pu_daemon P) job ''images'';
         steps \<leftarrow> each (\<lambda>(reference, _) steps. do {
             step \<leftarrow> queued_child (pu_daemon P) group reference;
             State_Monad.return (steps @ [step]) }) missing [];
         settling (pu_daemon P) group (each_ok (\<lambda>(img, step) _. pull_step P img step) (zip missing steps) ()) })"

section \<open>The layers\<close>

definition missing_source :: "node \<Rightarrow> build_source option" where
  "missing_source n =
     (case Option.bind (n_build n) nb_source of
        Some s \<Rightarrow> if bsrc_downloaded s then None else Some s
      | None \<Rightarrow> None)"

definition clone_stub_logged :: "'w pull_api \<Rightarrow> node \<Rightarrow> nat \<Rightarrow> ('w daemon, unit) fallible" where
  "clone_stub_logged P n job =
     (case n_repo n of
        None \<Rightarrow> fails (''stub node '' @ n_id n @ '' has no repo to clone'')
      | Some repo \<Rightarrow>
          run_git_clone_logged P repo (case n_branch n of Some b \<Rightarrow> b | None \<Rightarrow> ''main'')
            (case n_local_path n of Some p \<Rightarrow> p | None \<Rightarrow> n_id n) job)"

definition clone_node_logged :: "'w pull_api \<Rightarrow> string \<Rightarrow> nat \<Rightarrow> ('w daemon, unit) fallible" where
  "clone_node_logged P node_id job =
     and_then (resolve_now P) (\<lambda>g.
       case find (\<lambda>n. n_id n = node_id) (g_nodes g) of
         None \<Rightarrow> fails (''no such node: '' @ node_id)
       | Some n \<Rightarrow>
           (case missing_source n of
              Some src \<Rightarrow> clone_source_logged P src job
            | None \<Rightarrow>
                if n_downloaded n then do { append_job (pu_daemon P) job (line_of ''already downloaded''); ok () }
                else clone_stub_logged P n job))"

fun dedup_by :: "('a \<Rightarrow> 'k) \<Rightarrow> 'a list \<Rightarrow> 'a list" where
  "dedup_by f (x # y # zs) = (if f x = f y then dedup_by f (x # zs) else x # dedup_by f (y # zs))"
| "dedup_by f xs = xs"

definition wanted_nodes :: "graph \<Rightarrow> string option \<Rightarrow> node list result" where
  "wanted_nodes g flow =
     (case start_ids g flow of
        Inl e \<Rightarrow> Inl e
      | Inr ids \<Rightarrow> Inr (filter (\<lambda>n. n_id n \<in> set ids) (g_nodes g)))"

definition missing_nodes :: "node list \<Rightarrow> node list" where
  "missing_nodes wanted = filter (\<lambda>n. \<not> n_downloaded n) wanted"

definition missing_sources :: "node list \<Rightarrow> build_source list" where
  "missing_sources wanted = dedup_by bsrc_path (sort_key bsrc_path (filter_map missing_source wanted))"

definition stub_path :: "node \<Rightarrow> string" where
  "stub_path n = (case n_local_path n of Some p \<Rightarrow> p | None \<Rightarrow> n_id n)"

definition clone_layer ::
  "'w pull_api \<Rightarrow> build_source list \<Rightarrow> node list \<Rightarrow> nat \<Rightarrow> ('w daemon, unit) fallible" where
  "clone_layer P sources missing job =
     and_then
       (each_ok (\<lambda>src _. do {
           clone \<leftarrow> child_job (pu_daemon P) job (bsrc_path src);
           settling (pu_daemon P) clone (clone_source_logged P src clone) }) sources ())
       (\<lambda>_. each_ok (\<lambda>n _. do {
           clone \<leftarrow> child_job (pu_daemon P) job (stub_path n);
           settling (pu_daemon P) clone (clone_stub_logged P n clone) }) missing ())"

text \<open>A round of the loop says whether nothing was left to pull.\<close>

definition pull_round :: "'w pull_api \<Rightarrow> string option \<Rightarrow> bool \<Rightarrow> nat \<Rightarrow> ('w daemon, bool) fallible" where
  "pull_round P flow images job =
     and_then (resolve_now P) (\<lambda>g.
     and_then (State_Monad.return (wanted_nodes g flow)) (\<lambda>wanted.
       let missing = missing_nodes wanted;
           sources = missing_sources wanted
       in if missing = [] \<and> sources = [] then
            and_then (if images then pull_images_logged P wanted job else ok ()) (\<lambda>_. do {
              append_job (pu_daemon P) job (line_break @ line_of ''nothing left to pull'');
              ok True })
          else and_then (clone_layer P sources missing job) (\<lambda>_. ok False)))"

fun pull_rounds :: "nat \<Rightarrow> 'w pull_api \<Rightarrow> string option \<Rightarrow> bool \<Rightarrow> nat \<Rightarrow> ('w daemon, unit result option) state" where
  "pull_rounds 0 P flow images job = State_Monad.return None"
| "pull_rounds (Suc k) P flow images job = do {
     r \<leftarrow> pull_round P flow images job;
     case r of
       Inl e \<Rightarrow> State_Monad.return (Some (Inl e))
     | Inr True \<Rightarrow> State_Monad.return (Some (Inr ()))
     | Inr False \<Rightarrow> pull_rounds k P flow images job }"

definition pull_all_logged ::
  "nat \<Rightarrow> 'w pull_api \<Rightarrow> string option \<Rightarrow> bool \<Rightarrow> nat \<Rightarrow> ('w daemon, unit result option) state" where
  "pull_all_logged k P flow images job = do {
     made \<leftarrow> with_context (''failed to create workspace dir '' @ path_text (pu_workspace P))
       (on_world (da_create_dir_all (pu_daemon P) (pu_workspace P)));
     case made of
       Inl e \<Rightarrow> State_Monad.return (Some (Inl e))
     | Inr _ \<Rightarrow> pull_rounds k P flow images job }"

section \<open>Jobs\<close>

definition pull_all_key :: "string option \<Rightarrow> string" where
  "pull_all_key flow = (case flow of Some f \<Rightarrow> ''pull-flow:'' @ f | None \<Rightarrow> ''pull-all'')"

text \<open>A pull that runs already under the key is joined; else the new job's thread is to run.\<close>

definition spawn_pull :: "'w pull_api \<Rightarrow> string \<Rightarrow> string \<Rightarrow> ('w daemon, (activity + nat) option) state" where
  "spawn_pull P ws key = do {
     now \<leftarrow> on_world (ap_unix_ms (da_engine (pu_daemon P)));
     d \<leftarrow> State_Monad.get;
     case start_job (Some ws) KPull key now (dm_log d) of
       None \<Rightarrow> State_Monad.return None
     | Some (Inl running) \<Rightarrow> State_Monad.return (Some (Inl running))
     | Some (Inr (job, l)) \<Rightarrow> do {
         modify_state (\<lambda>d. d\<lparr>dm_log := l\<rparr>);
         State_Monad.return (Some (Inr job)) } }"

definition node_key :: "string \<Rightarrow> string" where
  "node_key node_id = ''node:'' @ node_id"

definition pull_node :: "'w pull_api \<Rightarrow> string \<Rightarrow> nat \<Rightarrow> ('w daemon, unit) fallible" where
  "pull_node P node_id job = settling (pu_daemon P) job
     (and_then (clone_node_logged P node_id job) (\<lambda>_.
      and_then (resolve_now P) (\<lambda>g.
        pull_images_logged P (filter (\<lambda>n. n_id n = node_id) (g_nodes g)) job)))"

definition pull_all :: "nat \<Rightarrow> 'w pull_api \<Rightarrow> string option \<Rightarrow> nat \<Rightarrow> ('w daemon, unit result option) state" where
  "pull_all k P flow job = do {
     result \<leftarrow> pull_all_logged k P flow True job;
     case result of
       None \<Rightarrow> State_Monad.return None
     | Some r \<Rightarrow> do {
         on_log (settle_job job r) (pu_daemon P);
         State_Monad.return (Some r) } }"

end
