(* ===== verification/Registry_Props.thy ===== *)
theory Registry_Props
  imports Registry Activity_Props
begin

text \<open>
  What each operation of the registry changes (\<open>resolve_runs\<close>, \<open>remove_runs\<close>, \<open>teardown_runs\<close>, \<open>load_runs\<close>),
  the invariant \<open>registry_ok\<close>, and the life of a daemon (\<open>lives\<close>): it keeps the invariant, a mark goes with a finished
  removal alone, a start takes the marked removals up again, the wired workspaces stay apart and, on a disk
  that works, are those of the index. \<open>fixed\<close> is all of the
  state but the world, \<open>core\<close> leaves out the jobs as well.
\<close>

section \<open>What the steps leave alone\<close>

definition fixed :: "'w daemon \<Rightarrow> _" where
  "fixed d = (dm_index_file d, dm_removing_file d, dm_by_id d, dm_actors d, dm_tasks d, dm_converging d, dm_next d,
     dm_log d, dm_teardowns d)"

definition core :: "'w daemon \<Rightarrow> _" where
  "core d = (dm_index_file d, dm_removing_file d, dm_by_id d, dm_actors d, dm_tasks d, dm_converging d, dm_next d)"

lemma keeps_on_world [keeps_intros]: "keeps fixed (on_world m)" "keeps core (on_world m)" "keeps dm_teardowns (on_world m)"
  by (auto simp: on_world_def fixed_def core_def intro!: keeps_intros)

lemma keeps_core: "keeps fixed m \<Longrightarrow> keeps core m"
  by (auto simp: keeps_def fixed_def core_def)

lemma keeps_loads [keeps_intros]: "keeps fixed (load_index D file)" "keeps fixed (pending D)"
  by (auto simp: load_index_def pending_def intro!: keeps_intros)

lemma keeps_log [keeps_intros]: "keeps core (on_log f D)" "keeps dm_teardowns (on_log f D)"
  by (auto simp: on_log_def intro!: keeps_intros) (auto simp: core_def)

lemma keeps_append [keeps_intros]: "keeps core (append_job D job t)"  "keeps dm_teardowns (append_job D job t)"
  by (auto simp: append_job_def intro!: keeps_intros)

lemma keeps_child [keeps_intros]: "keeps core (queued_child D job key)" "keeps dm_teardowns (queued_child D job key)"
  by (auto simp: queued_child_def Let_def intro!: keeps_intros split: prod.splits) (auto simp: core_def)

lemma keeps_step [keeps_intros]: "keeps core work \<Longrightarrow> keeps core (job_step D job work)"
  by (auto simp: job_step_def intro!: keeps_intros)

lemma keeps_found [keeps_intros]: "keeps core (found_containers D n)"
  by (auto simp: found_containers_def intro!: keeps_intros)

lemma keeps_sweep [keeps_intros]: "keeps core (sweep k D n s)"
  by (induction k) (auto intro!: keeps_intros)

lemma keeps_teardown [keeps_intros]: "keeps core (teardown D path job)"
  by (auto simp: teardown_def workspace_name_def remove_containers_def teardown_network_def remove_volumes_def volume_step_def
    Let_def intro!: keeps_intros)

lemma keeps_up [keeps_intros]: "keeps fixed (canonicalize_up D path n)"
  by (induction n) (subst canonicalize_up.simps, auto intro!: keeps_intros)+

lemma keeps_take [keeps_intros]: "keeps fixed (take_workspace D ow p)"
  by (auto simp: take_workspace_def take_path_def Let_def intro!: keeps_intros)

lemma keeps_check [keeps_intros]:
  "keeps fixed (check_nesting D workspace)" "keeps fixed (resolve_workspace D entry workspace owner)"
  "keeps fixed (check_canonical D path)"
  by (auto simp: check_nesting_def check_canonical_def canonicalize_lossy_def resolve_workspace_def Let_def
    intro!: keeps_intros)

lemma keeps_check_wire [keeps_intros]: "keeps fixed (check_wire D entry workspace owner)"
  by (auto simp: check_wire_def intro!: keeps_intros)

lemma keeps_owner [keeps_intros]: "keeps fixed (record_owner D i c ow)"
  by (auto simp: record_owner_def intro!: keeps_intros)

lemma keeps_spawn [keeps_intros]: "keeps core (spawn_teardown D i path)"
  by (auto simp: spawn_teardown_def intro!: keeps_intros) (auto simp: core_def)

section \<open>Runs\<close>

lemma same_but_world: "fixed d' = fixed d \<Longrightarrow> d' = d\<lparr>dm_world := dm_world d'\<rparr>"
  by (simp add: fixed_def)

lemma core_world [simp]: "core (d\<lparr>dm_world := w\<rparr>) = core d"
  by (simp add: core_def)

lemma fixed_core: "fixed d' = fixed d \<Longrightarrow> core d' = core d"
  by (simp add: fixed_def core_def)

definition entries :: "index option \<Rightarrow> index" where
  "entries file = (case file of Some m \<Rightarrow> m | None \<Rightarrow> [])"

lemma entries_simps [simp]: "entries None = []" "entries (Some m) = m"
  by (simp_all add: entries_def)

definition reads_work :: "'w daemon_api \<Rightarrow> bool" where
  "reads_work D = yields (da_reads D) (\<lambda>readable. readable)"

definition saves_work :: "'w daemon_api \<Rightarrow> bool" where
  "saves_work D = yields (da_saves D) (\<lambda>r. r = Inr ())"

lemma load_index_runs:
  "run_state (load_index D file) d = (m, d') \<Longrightarrow> fixed d' = fixed d"
  by (rule keepsD [OF keeps_loads(1)])

lemma load_index_reads:
  assumes "reads_work D" and "\<And>w. file (d\<lparr>dm_world := w\<rparr>) = file d" and "run_state (load_index D file) d = (m, d')"
  shows "m = entries (file d)"
  using assms by (auto simp: load_index_def run_on_world reads_work_def yields_def entries_def split: prod.splits)
    (metis fst_conv)+

lemma save_index_runs:
  assumes "run_state (save_index D write) d = (r, d')"
  obtains (refused) e where "r = Inl e" "fixed d' = fixed d"
  | (saved) w where "r = Inr ()" "d' = write (d\<lparr>dm_world := w\<rparr>)"
  using assms by (auto simp: save_index_def run_and_then run_on_world fixed_def split: prod.splits sum.splits)

lemma save_works:
  assumes "saves_work D" and run: "run_state (save_index D f) d = (r, d')"
  shows "r = Inr ()"
proof -
  obtain q w where save: "run_state (da_saves D) (dm_world d) = (q, w)" by fastforce
  with yieldsD [OF assms(1) [unfolded saves_work_def] save] run show ?thesis by (simp add: save_index_def run_and_then run_on_world)
qed

definition wired :: "fs_path \<Rightarrow> 'w daemon \<Rightarrow> 'w daemon" where
  "wired c d = wire_actor (workspace_id c) (d\<lparr>dm_by_id := bt_insert (workspace_id c) c (dm_by_id d)\<rparr>)"

definition listed :: "fs_path \<Rightarrow> index \<Rightarrow> 'w daemon \<Rightarrow> 'w daemon" where
  "listed c m d = write_index (bt_insert (workspace_id c) c m) (wired c d)"

lemma enter_runs:
  assumes run: "run_state (enter_workspace D c) d = (r, d')"
  obtains (refused) e where "r = Inl e" "fixed d' = fixed (wired c d)" "\<not> saves_work D"
  | (saved) m where "r = Inr ()" "reads_work D \<Longrightarrow> m = entries (dm_index_file d)" "fixed d' = fixed (listed c m d)"
proof -
  obtain m d1 where load: "run_state (load_index D dm_index_file) (wired c d) = (m, d1)"
    and save: "run_state (save_index D (write_index (bt_insert (workspace_id c) c m))) d1 = (r, d')"
    using run by (auto simp: enter_workspace_def Let_def wired_def split: prod.splits)
  from load_index_runs [OF load] have d1: "fixed d1 = fixed (wired c d)" .
  have m: "reads_work D \<Longrightarrow> m = entries (dm_index_file d)"
    using load_index_reads [OF _ _ load] by (simp add: wired_def wire_actor_def)
  from save show ?thesis
  proof (cases rule: save_index_runs)
    case (refused e)
    with d1 that(1) save_works [OF _ save] show ?thesis by auto
  next
    case (saved w)
    with d1 have "fixed d' = fixed (listed c m d)" by (simp add: fixed_def listed_def)
    with saved m that(2) show ?thesis by blast
  qed
qed

text \<open>What lets a path be wired.\<close>

definition clear :: "fs_path \<Rightarrow> 'w daemon \<Rightarrow> bool" where
  "clear c d =
     ((\<forall>p\<in>set (bt_values (dm_by_id d)). p = c \<or> apart c p) \<and>
      (\<forall>p\<in>set (bt_values (entries (dm_removing_file d))). domain_label p \<noteq> domain_label c))"

lemma no_wire_conflict: "wire_conflict c p = None \<longleftrightarrow> p = c \<or> apart c p"
  by (auto simp: wire_conflict_def apart_def no_nesting split: option.splits)
    (simp_all add: nesting_conflict_def split: if_splits)

lemma not_being_removed: "being_removed c m = None \<longleftrightarrow> (\<forall>p\<in>set (bt_values m). domain_label p \<noteq> domain_label c)"
  by (auto simp: being_removed_def find_None_iff)

lemma pending_reads:
  "reads_work D \<Longrightarrow> run_state (pending D) d = (m, d') \<Longrightarrow> m = entries (dm_removing_file d)"
  unfolding pending_def by (rule load_index_reads) simp_all

lemma fixed_parts:
  "fixed d' = fixed d \<Longrightarrow> dm_by_id d' = dm_by_id d \<and> dm_removing_file d' = dm_removing_file d \<and>
     dm_index_file d' = dm_index_file d \<and> dm_log d' = dm_log d \<and> dm_teardowns d' = dm_teardowns d"
  by (simp add: fixed_def)

lemma clear_fixed: "fixed d' = fixed d \<Longrightarrow> clear c d' = clear c d"
  by (drule fixed_parts) (simp add: clear_def)

lemma check_canonical_runs:
  assumes run: "run_state (check_canonical D path) d = (Inr c, d')" and reads: "reads_work D"
  shows "clear c d"
proof -
  from run obtain w m d1 where none: "find_map (wire_conflict c) (bt_values (dm_by_id d)) = None"
    "being_removed c m = None" and load: "run_state (pending D) (d\<lparr>dm_world := w\<rparr>) = (m, d1)"
    by (auto simp: check_canonical_def run_on_world Let_def split: prod.splits option.splits)
  from pending_reads [OF reads load] none show ?thesis
    by (auto simp: clear_def find_map_None no_wire_conflict not_being_removed)
qed

lemma check_runs:
  assumes run: "run_state (check_wire D entry workspace owner) d = (Inr c, d')" and reads: "reads_work D"
  shows "clear c d"
proof -
  from run obtain path d1 d2 where steps: "run_state (check_nesting D workspace) d = (Inr (), d1)"
    "run_state (resolve_workspace D entry workspace owner) d1 = (Inr path, d2)"
    "run_state (check_canonical D path) d2 = (Inr c, d')"
    by (auto simp: check_wire_def run_and_then_Inr)
  from keepsD [OF keeps_check(1) steps(1)] keepsD [OF keeps_check(2) steps(2)] have "fixed d2 = fixed d" by simp
  from clear_fixed [OF this] check_canonical_runs [OF steps(3) reads] show ?thesis by simp
qed

text \<open>\<open>resolve\<close>: it fails and changes nothing but the world, it answers with a workspace that is wired
already, it wires one whose index entry could not be saved, or it wires and lists one.\<close>

lemma resolve_runs:
  assumes run: "run_state (resolve D entry workspace owner) d = (r, d')" and reads: "reads_work D"
  obtains (refused) e where "r = Inl e" "fixed d' = fixed d"
  | (already) c where "clear c d" "map_of (dm_by_id d) (workspace_id c) \<noteq> None" "fixed d' = fixed d"
      "\<And>x. r = Inr x \<Longrightarrow> x = (workspace_id c, c)"
  | (unsaved) c e where "clear c d" "map_of (dm_by_id d) (workspace_id c) = None" "r = Inl e"
      "fixed d' = fixed (wired c d)" "\<not> saves_work D"
  | (wired) c where "clear c d" "map_of (dm_by_id d) (workspace_id c) = None"
      "fixed d' = fixed (listed c (entries (dm_index_file d)) d)" "\<And>x. r = Inr x \<Longrightarrow> x = (workspace_id c, c)"
proof -
  obtain q d1 where check: "run_state (check_wire D entry workspace owner) d = (q, d1)" by fastforce
  have d1: "fixed d1 = fixed d" by (rule keepsD [OF keeps_check_wire check])
  note p1 = fixed_parts [OF d1]
  show ?thesis
  proof (cases q)
    case (Inl e)
    with run check d1 show ?thesis by (intro that(1)) (auto simp: resolve_def run_and_then)
  next
    case (Inr c)
    have clear: "clear c d" using check_runs [OF check [unfolded Inr] reads] .
    from run check Inr have commit: "run_state (commit_wire D owner c) d1 = (r, d')"
      by (simp add: resolve_def run_and_then)
    let ?i = "workspace_id c"
    let ?last = "\<lambda>_. and_then (record_owner D ?i c owner) (\<lambda>_. ok (?i, c))"
    have last: "fixed s' = fixed s \<and> (\<forall>x. r' = Inr x \<longrightarrow> x = (?i, c))" if "run_state (?last ()) s = (r', s')" for r' s s'
      using that keepsD [OF keeps_owner] by (auto simp: run_and_then split: prod.splits sum.splits)
    show ?thesis
    proof (cases "map_of (dm_by_id d) ?i")
      case (Some p)
      with commit p1 have "run_state (?last ()) d1 = (r, d')"
        by (simp add: commit_wire_def Let_def run_and_then)
      with last [of d1 r d'] Some clear d1 show ?thesis by (intro that(2) [of c]) auto
    next
      case None
      obtain op d2 where opened: "run_state (on_world (da_open_workspace D ?i c)) d1 = (op, d2)" by fastforce
      have d2: "fixed d2 = fixed d" using keepsD [OF keeps_on_world(1) opened] d1 by simp
      show ?thesis
      proof (cases op)
        case (Inl e)
        with commit None p1 d2 opened show ?thesis
          by (intro that(1)) (auto simp: commit_wire_def Let_def run_and_then)
      next
        case (Inr u)
        obtain q3 d3 where enter: "run_state (enter_workspace D c) d2 = (q3, d3)" by fastforce
        have same: "fixed (wired c d2) = fixed (wired c d)" "fixed (listed c m d2) = fixed (listed c m d)" for m
          using d2 by (simp_all add: fixed_def wired_def listed_def wire_actor_def)
        from enter show ?thesis
        proof (cases rule: enter_runs)
          case (refused e)
          with commit None p1 opened Inr enter same clear show ?thesis
            by (intro that(3) [of c e]) (auto simp: commit_wire_def Let_def run_and_then)
        next
          case (saved m)
          with commit None p1 opened Inr enter have "run_state (?last ()) d3 = (r, d')"
            by (simp add: commit_wire_def Let_def run_and_then)
          with last [of d3 r d'] saved same reads fixed_parts [OF d2] None clear show ?thesis by (intro that(4) [of c]) auto
        qed
      qed
    qed
  qed
qed

text \<open>\<open>remove\<close>: nothing but a job, or the mark is set and the workspace dropped, whether or not the index
could be saved.\<close>

lemma remove_runs:
  assumes run: "run_state (remove_workspace D i) d = (r, d')" and reads: "reads_work D"
  obtains (same) "core d' = core d"
  | (removed) p x where "map_of (dm_by_id d) i = Some p" "r = Inr x"
      "\<not> saves_work D \<and> core d' = core (drop_workspace i (write_removing (bt_insert i p (entries (dm_removing_file d))) d))
         \<or> core d' = core (write_index (bt_remove i (entries (dm_index_file d)))
             (drop_workspace i (write_removing (bt_insert i p (entries (dm_removing_file d))) d)))"
proof (cases "map_of (dm_by_id d) i")
  case None
  then have "run_state (do { removing \<leftarrow> pending D;
         case map_of removing i of
           None \<Rightarrow> ok None
         | Some path \<Rightarrow> do { job \<leftarrow> spawn_teardown D i path; ok job } }) d = (r, d')"
    using run by (simp add: remove_workspace_def)
  then have "core d' = core d" by (rule keepsD [rotated]) (intro keeps_intros keeps_core [OF keeps_loads(2)])
  with that(1) show ?thesis .
next
  case (Some p)
  obtain m d1 where load: "run_state (load_index D dm_removing_file) d = (m, d1)" by fastforce
  have m: "m = entries (dm_removing_file d)" by (rule load_index_reads [OF reads _ load]) simp
  from load_index_runs [OF load] have d1: "fixed d1 = fixed d" .
  let ?marked = "write_removing (bt_insert i p (entries (dm_removing_file d)))"
  obtain q d2 where save: "run_state (save_index D ?marked) d1 = (q, d2)" by fastforce
  from save show ?thesis
  proof (cases rule: save_index_runs)
    case (refused e)
    with run Some load m save have "d' = d2" by (simp add: remove_workspace_def add_removal_def run_and_then)
    with fixed_core [OF refused(2)] fixed_core [OF d1] that(1) show ?thesis by simp
  next
    case (saved w)
    let ?d3 = "drop_workspace i d2"
    have d3: "core ?d3 = core (drop_workspace i (?marked d))" "dm_index_file ?d3 = dm_index_file d"
      using saved d1 by (simp_all add: core_def fixed_def drop_workspace_def split: option.split)
    obtain n d4 where load2: "run_state (load_index D dm_index_file) ?d3 = (n, d4)" by fastforce
    have n: "n = entries (dm_index_file d)" using load_index_reads [OF reads _ load2] d3(2) by simp
    from load_index_runs [OF load2] have d4: "fixed d4 = fixed ?d3" .
    obtain q2 d5 where save2: "run_state (save_index D (write_index (bt_remove i n))) d4 = (q2, d5)" by fastforce
    obtain job d6 where spawn: "run_state (spawn_teardown D i p) d5 = (job, d6)" by fastforce
    have "r = Inr job" "d' = d6"
      using run Some load m save saved(1) load2 save2 spawn
      by (simp_all add: remove_workspace_def add_removal_def unlist_def run_and_then)
    moreover have "core d6 = core d5" by (rule keepsD [OF keeps_spawn spawn])
    moreover have "\<not> saves_work D \<and> core d5 = core (drop_workspace i (?marked d))
        \<or> core d5 = core (write_index (bt_remove i (entries (dm_index_file d))) (drop_workspace i (?marked d)))"
      using save2
    proof (cases rule: save_index_runs)
      case (refused e)
      with fixed_core [OF refused(2)] fixed_core [OF d4] d3(1) save_works [OF _ save2] show ?thesis by auto
    next
      case (saved w)
      with fixed_core [OF d4] d3(1) n show ?thesis by (simp add: core_def)
    qed
    ultimately show ?thesis using Some by (intro that(2) [of p job]) simp_all
  qed
qed

lemma teardown_runs:
  assumes run: "run_state (run_teardown D (job, i, p)) d = (r, d')" and reads: "reads_work D"
  obtains (same) e where "r = Inl e" "core d' = core d"
  | (finished) "r = Inr ()" "core d' = core (write_removing (bt_remove i (entries (dm_removing_file d))) d)"
proof -
  obtain q d1 where work: "run_state (and_then (teardown D p job) (\<lambda>_. finish_removal D i)) d = (q, d1)" by fastforce
  have "core d' = core d1 \<and> r = q"
  proof -
    let ?m = "do { on_log (settle_job job q) D;
        modify_state (\<lambda>d. d\<lparr>dm_teardowns := filter (\<lambda>t. t \<noteq> (job, i, p)) (dm_teardowns d)\<rparr>);
        State_Monad.return q }"
    have "keeps core ?m" by (auto intro!: keeps_intros) (simp add: core_def)
    moreover have "run_state ?m d1 = (r, d')" using run work by (simp add: run_teardown_def)
    ultimately have "core d' = core d1" by (rule keepsD)
    with \<open>run_state ?m d1 = (r, d')\<close> show ?thesis by (simp split: prod.splits)
  qed
  moreover obtain q0 d0 where tear: "run_state (teardown D p job) d = (q0, d0)" by fastforce
  have d0: "core d0 = core d" by (rule keepsD [OF keeps_teardown tear])
  show ?thesis
  proof (cases q0)
    case (Inl e)
    with work tear have "d1 = d0" "q = Inl e" by (simp_all add: run_and_then)
    with d0 calculation that(1) show ?thesis by simp
  next
    case (Inr u)
    obtain m d2 where load: "run_state (load_index D dm_removing_file) d0 = (m, d2)" by fastforce
    have m: "m = entries (dm_removing_file d)"
      using load_index_reads [OF reads _ load] d0 by (simp add: core_def)
    have d2: "core d2 = core d" using fixed_core [OF load_index_runs [OF load]] d0 by simp
    from work tear Inr load have "run_state (save_index D (write_removing (bt_remove i m))) d2 = (q, d1)"
      by (simp add: run_and_then finish_removal_def)
    then show ?thesis
    proof (cases rule: save_index_runs)
      case (refused e)
      with fixed_core [OF refused(2)] d2 calculation that(1) show ?thesis by simp
    next
      case (saved w)
      with d2 m calculation that(2) show ?thesis by (simp add: core_def)
    qed
  qed
qed

section \<open>The tasks of the wired workspaces\<close>

definition tasks_ok :: "'w daemon \<Rightarrow> bool" where
  "tasks_ok d =
     (bt_wf (dm_tasks d) \<and> dm_actors d = dm_tasks d \<and> distinct (dm_converging d) \<and>
      set (dm_converging d) = ran (map_of (dm_tasks d)) \<and>
      (\<forall>i j t. map_of (dm_tasks d) i = Some t \<longrightarrow> map_of (dm_tasks d) j = Some t \<longrightarrow> i = j) \<and>
      (\<forall>t\<in>set (dm_converging d). t < dm_next d))"

lemma wire_actor_parts [simp]:
  "dm_by_id (wire_actor i d) = dm_by_id d" "dm_index_file (wire_actor i d) = dm_index_file d"
  "dm_removing_file (wire_actor i d) = dm_removing_file d" "dm_tasks (wire_actor i d) = bt_insert i (dm_next d) (dm_tasks d)"
  by (simp_all add: wire_actor_def)

lemma dom_bt_insert: "dom (map_of (bt_insert i v m)) = insert i (dom (map_of m))"
  by (auto simp: dom_def)

lemma dom_bt_remove: "dom (map_of (bt_remove i m)) = dom (map_of m) - {i}"
  by (auto simp: dom_def)

lemma wire_actor_ok:
  assumes ok: "tasks_ok d" and new: "map_of (dm_tasks d) i = None"
  shows "tasks_ok (wire_actor i d)"
proof -
  have fresh: "dm_next d \<notin> ran (map_of (dm_tasks d))" using ok by (auto simp: tasks_ok_def)
  then have "map_of (dm_tasks d) j \<noteq> Some (dm_next d)" for j by (auto simp: ran_def)
  moreover have "map_of (bt_insert i (dm_next d) (dm_tasks d)) = (map_of (dm_tasks d))(i \<mapsto> dm_next d)"
    by (rule ext) simp
  ultimately show ?thesis
    using ok fresh new by (auto simp: tasks_ok_def wire_actor_def intro: less_SucI)
qed

lemma wire_all_parts [simp]:
  "dm_by_id (fold wire_actor ids d) = dm_by_id d" "dm_index_file (fold wire_actor ids d) = dm_index_file d"
  "dm_removing_file (fold wire_actor ids d) = dm_removing_file d"
  by (induction ids arbitrary: d) simp_all

lemma wire_all_dom: "dom (map_of (dm_tasks (fold wire_actor ids d))) = dom (map_of (dm_tasks d)) \<union> set ids"
  by (induction ids arbitrary: d) (simp_all add: dom_bt_insert)

lemma wire_all_ok:
  "tasks_ok d \<Longrightarrow> distinct ids \<Longrightarrow> set ids \<inter> dom (map_of (dm_tasks d)) = {} \<Longrightarrow> tasks_ok (fold wire_actor ids d)"
proof (induction ids arbitrary: d)
  case (Cons i ids)
  then have "map_of (dm_tasks d) i = None" by auto
  with Cons.prems(1) have "tasks_ok (wire_actor i d)" by (rule wire_actor_ok)
  moreover have "set ids \<inter> dom (map_of (dm_tasks (wire_actor i d))) = {}"
    using Cons.prems unfolding wire_actor_parts dom_bt_insert by auto
  ultimately show ?case using Cons.IH Cons.prems(2) by simp
qed simp

lemma ran_drop:
  assumes t: "m i = Some t" and only: "\<And>j. m j = Some t \<Longrightarrow> j = i"
  shows "ran (m(i := None)) = ran m - {t}"
proof (rule set_eqI)
  fix b
  show "b \<in> ran (m(i := None)) \<longleftrightarrow> b \<in> ran m - {t}"
  proof (cases "b = t")
    case True
    have "(m(i := None)) j \<noteq> Some t" for j using only [of j] by (cases "j = i") auto
    with True show ?thesis unfolding ran_def by blast
  next
    case False
    then have "(m(i := None)) j = Some b \<longleftrightarrow> m j = Some b" for j using t by (cases "j = i") simp_all
    with False show ?thesis unfolding ran_def by blast
  qed
qed

lemma drop_ok:
  assumes ok: "tasks_ok d"
  shows "tasks_ok (drop_workspace i d)"
proof -
  have m: "map_of (bt_remove i (dm_tasks d)) = (map_of (dm_tasks d))(i := None)" by (rule ext) simp
  show ?thesis
  proof (cases "map_of (dm_tasks d) i")
    case None
    then have "map_of (bt_remove i (dm_tasks d)) = map_of (dm_tasks d)" using m by (simp add: fun_upd_idem)
    with ok None show ?thesis unfolding tasks_ok_def drop_workspace_def by simp
  next
    case (Some t)
    with ok have inj: "map_of (dm_tasks d) j = Some t \<Longrightarrow> j = i" for j unfolding tasks_ok_def by blast
    have "ran (map_of (bt_remove i (dm_tasks d))) = ran (map_of (dm_tasks d)) - {t}"
      unfolding m by (rule ran_drop [of "map_of (dm_tasks d)", OF Some inj])
    with ok Some show ?thesis unfolding tasks_ok_def drop_workspace_def by auto
  qed
qed

section \<open>The registry's invariant\<close>

definition own_ids :: "index \<Rightarrow> bool" where
  "own_ids m = (bt_wf m \<and> (\<forall>i p. map_of m i = Some p \<longrightarrow> i = workspace_id p))"

definition registry_ok :: "'w daemon \<Rightarrow> bool" where
  "registry_ok d =
     (own_ids (dm_by_id d) \<and> own_ids (entries (dm_index_file d)) \<and> own_ids (entries (dm_removing_file d)) \<and>
      tasks_ok d \<and> dom (map_of (dm_tasks d)) = dom (map_of (dm_by_id d)) \<and>
      dom (map_of (dm_by_id d)) \<inter> dom (map_of (entries (dm_removing_file d))) = {})"

lemma registry_ok_core: "core d' = core d \<Longrightarrow> registry_ok d \<Longrightarrow> registry_ok d'"
  by (simp add: core_def registry_ok_def tasks_ok_def)

lemma registry_ok_index: "registry_ok d \<Longrightarrow> own_ids m \<Longrightarrow> registry_ok (write_index m d)"
  by (simp add: registry_ok_def tasks_ok_def)

lemma own_ids_insert: "own_ids m \<Longrightarrow> own_ids (bt_insert (workspace_id c) c m)"
  by (auto simp: own_ids_def split: if_splits)

lemma own_ids_remove: "own_ids m \<Longrightarrow> own_ids (bt_remove i m)"
  by (auto simp: own_ids_def split: if_splits)

lemma wired_parts [simp]:
  "dm_by_id (wired c d) = bt_insert (workspace_id c) c (dm_by_id d)" "dm_index_file (wired c d) = dm_index_file d"
  "dm_removing_file (wired c d) = dm_removing_file d"
  by (simp_all add: wired_def)

lemma wired_ok:
  assumes ok: "registry_ok d" and clear: "clear c d" and new: "map_of (dm_by_id d) (workspace_id c) = None"
  shows "registry_ok (wired c d)"
proof -
  have unmarked: "map_of (entries (dm_removing_file d)) (workspace_id c) = None"
  proof (rule ccontr)
    assume "map_of (entries (dm_removing_file d)) (workspace_id c) \<noteq> None"
    then obtain q where q: "map_of (entries (dm_removing_file d)) (workspace_id c) = Some q" by blast
    with ok have "workspace_id c = workspace_id q" by (simp add: registry_ok_def own_ids_def)
    then have "domain_label q = domain_label c" by (metis id_label)
    with clear bt_values_mono [OF q] show False by (simp add: clear_def)
  qed
  have tasks: "map_of (dm_tasks d) (workspace_id c) = None" using ok new by (auto simp: registry_ok_def)
  have "tasks_ok (d\<lparr>dm_by_id := bt_insert (workspace_id c) c (dm_by_id d)\<rparr>)"
    using ok by (simp add: registry_ok_def tasks_ok_def)
  from wire_actor_ok [OF this] tasks have "tasks_ok (wired c d)" by (simp add: wired_def)
  moreover have "dom (map_of (dm_tasks (wired c d))) = insert (workspace_id c) (dom (map_of (dm_by_id d)))"
    using ok by (simp add: wired_def dom_bt_insert registry_ok_def)
  ultimately show ?thesis
    using ok unmarked by (simp add: registry_ok_def own_ids_insert dom_bt_insert domIff)
qed

lemma listed_ok:
  assumes ok: "registry_ok d" and "clear c d" "map_of (dm_by_id d) (workspace_id c) = None"
  shows "registry_ok (listed c (entries (dm_index_file d)) d)"
proof -
  have "own_ids (entries (dm_index_file d))" using ok by (simp add: registry_ok_def)
  with registry_ok_index [OF wired_ok [OF assms] own_ids_insert] show ?thesis unfolding listed_def .
qed

lemma drop_parts [simp]:
  "dm_by_id (drop_workspace i d) = bt_remove i (dm_by_id d)" "dm_index_file (drop_workspace i d) = dm_index_file d"
  "dm_removing_file (drop_workspace i d) = dm_removing_file d" "dm_tasks (drop_workspace i d) = bt_remove i (dm_tasks d)"
  by (simp_all add: drop_workspace_def)

lemma dropped_ok:
  assumes ok: "registry_ok d" and p: "map_of (dm_by_id d) i = Some p"
  shows "registry_ok (drop_workspace i (write_removing (bt_insert i p (entries (dm_removing_file d))) d))"
    and "registry_ok (write_index (bt_remove i (entries (dm_index_file d)))
      (drop_workspace i (write_removing (bt_insert i p (entries (dm_removing_file d))) d)))"
proof -
  let ?d = "write_removing (bt_insert i p (entries (dm_removing_file d))) d"
  have "i = workspace_id p" using ok p by (simp add: registry_ok_def own_ids_def)
  moreover have "tasks_ok (drop_workspace i ?d)"
    using ok by (intro drop_ok) (simp add: registry_ok_def tasks_ok_def)
  moreover have "own_ids (bt_insert (workspace_id p) p (entries (dm_removing_file d)))" "own_ids (bt_remove i (dm_by_id d))"
    using ok by (simp_all add: registry_ok_def own_ids_insert own_ids_remove)
  ultimately show *: "registry_ok (drop_workspace i ?d)"
    using ok by (auto simp: registry_ok_def dom_bt_insert dom_bt_remove)
  show "registry_ok (write_index (bt_remove i (entries (dm_index_file d))) (drop_workspace i ?d))"
    using ok by (intro registry_ok_index [OF * own_ids_remove]) (simp add: registry_ok_def)
qed

section \<open>A start\<close>

lemma keeps_load_one [keeps_intros]: "keeps fixed (load_one D e m)"
  by (auto simp: load_one_def intro!: keeps_intros)

lemma load_one_runs:
  "run_state (load_one D (i, p) m) d = (m', d') \<Longrightarrow> m' = m \<or> m' = bt_insert i p m"
  by (auto simp: load_one_def run_on_world split: prod.splits if_splits sum.splits)

lemma load_each_runs:
  "run_state (each (load_one D) es m) d = (m', d') \<Longrightarrow> bt_wf m \<Longrightarrow>
     bt_wf m' \<and> set m' \<subseteq> set m \<union> set es"
proof (induction es arbitrary: m d)
  case (Cons e es)
  obtain i p where e: "e = (i, p)" by (cases e)
  obtain m1 d1 where first: "run_state (load_one D e m) d = (m1, d1)" by fastforce
  with Cons.prems(1) have rest: "run_state (each (load_one D) es m1) d1 = (m', d')" by simp
  from load_one_runs [OF first [unfolded e]] Cons.prems(2) have "bt_wf m1" "set m1 \<subseteq> insert e (set m)"
    by (auto simp: set_bt_insert e)
  with Cons.IH [OF rest] show ?case by auto
qed simp

text \<open>When every listed workspace is there and opens, all are loaded.\<close>

definition opens_all :: "'w daemon_api \<Rightarrow> bool" where
  "opens_all D =
     (\<forall>i p. yields (da_exists D p) (\<lambda>there. there) \<and> yields (da_open_workspace D i p) (\<lambda>r. r = Inr ()))"

lemma load_one_opens:
  assumes opens: "opens_all D" and run: "run_state (load_one D (i, p) m) d = (m', d')"
  shows "m' = bt_insert i p m"
proof -
  obtain there w where there: "run_state (da_exists D p) (dm_world d) = (there, w)" by fastforce
  obtain opened w' where opened: "run_state (da_open_workspace D i p) w = (opened, w')" by fastforce
  from opens have "yields (da_exists D p) (\<lambda>there. there)" "yields (da_open_workspace D i p) (\<lambda>r. r = Inr ())"
    by (simp_all add: opens_all_def)
  with yieldsD [OF _ there] yieldsD [OF _ opened] have "there" "opened = Inr ()" by blast+
  then show ?thesis using run there opened by (simp add: load_one_def run_on_world)
qed

lemma load_each_opens:
  "opens_all D \<Longrightarrow> run_state (each (load_one D) es m) d = (m', d') \<Longrightarrow> m' = bt_extend m es"
proof (induction es arbitrary: m d)
  case (Cons e es)
  obtain i p where e: "e = (i, p)" by (cases e)
  obtain m1 d1 where first: "run_state (load_one D e m) d = (m1, d1)" by fastforce
  with Cons.prems(2) have "run_state (each (load_one D) es m1) d1 = (m', d')" by simp
  from Cons.IH [OF Cons.prems(1) this] load_one_opens [OF Cons.prems(1) first [unfolded e]] show ?case
    by (simp add: bt_extend_def e)
qed (simp add: bt_extend_def)

lemma bt_extend_itself: "bt_wf es \<Longrightarrow> bt_extend [] es = es"
proof (rule bt_wf_eqI)
  assume wf: "bt_wf es"
  fix k
  have "map_of (rev es) k = map_of es k"
    using bt_wf_distinct [OF wf] map_of_inject_set [of "rev es" es] by (simp add: rev_map [symmetric])
  then show "map_of (bt_extend [] es) k = map_of es k"
    unfolding bt_extend_def bt.get_fold_ins by (simp split: option.splits)
qed simp_all

text \<open>What holds after a start: the marks are what they were, nothing marked is wired, and each wired
workspace has its one task.\<close>

definition kept_index :: "'w daemon \<Rightarrow> index" where
  "kept_index d = bt_retain (\<lambda>i _. \<not> bt_has (entries (dm_removing_file d)) i) (entries (dm_index_file d))"

definition spawn_all :: "'w daemon_api \<Rightarrow> index \<Rightarrow> ('w daemon, unit) state" where
  "spawn_all D removing = each (\<lambda>(i, path) _. do { _ \<leftarrow> spawn_teardown D i path; State_Monad.return () }) removing ()"

lemma keeps_spawn_all: "keeps core (spawn_all D m)"
  unfolding spawn_all_def by (rule keeps_each) (auto intro!: keeps_intros split: prod.splits)

lemma wire_actor_world: "wire_actor i (d\<lparr>dm_world := w\<rparr>) = (wire_actor i d)\<lparr>dm_world := w\<rparr>"
  by (simp add: wire_actor_def)

lemma wire_all_world:
  "fold wire_actor ids (d\<lparr>dm_world := w\<rparr>) = (fold wire_actor ids d)\<lparr>dm_world := w\<rparr>"
  by (induction ids arbitrary: d) (simp_all add: wire_actor_world)

lemma wire_all_fixed:
  fixes d d' :: "'w daemon"
  assumes "fixed d' = fixed d"
  shows "fixed (fold wire_actor ids (d'\<lparr>dm_by_id := m\<rparr>)) = fixed (fold wire_actor ids (d\<lparr>dm_by_id := m\<rparr>))"
proof -
  from same_but_world [OF assms] obtain w where w: "d' = d\<lparr>dm_world := w\<rparr>" by blast
  then have "d'\<lparr>dm_by_id := m\<rparr> = (d\<lparr>dm_by_id := m\<rparr>)\<lparr>dm_world := w\<rparr>" by simp
  then show ?thesis by (simp only: wire_all_world) (simp add: fixed_def)
qed

lemma save_kept_runs:
  assumes run: "run_state (save_kept D kept idx) d = (r, d')"
  shows "fixed d' = fixed d \<or> fixed d' = fixed (write_index kept d)"
    and "saves_work D \<Longrightarrow> idx = entries (dm_index_file d) \<Longrightarrow> entries (dm_index_file d') = kept"
proof -
  show "fixed d' = fixed d \<or> fixed d' = fixed (write_index kept d)"
  proof (cases "kept = idx")
    case False
    with run have "run_state (save_index D (write_index kept)) d = (r, d')" by (simp add: save_kept_def)
    then show ?thesis by (cases rule: save_index_runs) (simp_all add: fixed_def)
  qed (use run in \<open>simp add: save_kept_def\<close>)
  assume saves: "saves_work D" and idx: "idx = entries (dm_index_file d)"
  show "entries (dm_index_file d') = kept"
  proof (cases "kept = idx")
    case False
    with run have "run_state (save_index D (write_index kept)) d = (r, d')" by (simp add: save_kept_def)
    from this save_works [OF saves this] show ?thesis by (cases rule: save_index_runs) simp_all
  qed (use run idx in \<open>simp add: save_kept_def\<close>)
qed

lemma load_runs:
  fixes D :: "'w daemon_api"
  assumes run: "run_state (load_from D) d = (r, d')" and reads: "reads_work D"
  obtains (started) by_id and d1 d2 :: "'w daemon" where
    "fixed d1 = fixed (empty_memory d) \<or>
       fixed d1 = fixed (write_index (kept_index d) (empty_memory d))"
    "saves_work D \<Longrightarrow> entries (dm_index_file d1) = kept_index d"
    "bt_wf (kept_index d) \<Longrightarrow> bt_wf by_id \<and> set by_id \<subseteq> set (kept_index d)"
    "opens_all D \<Longrightarrow> by_id = bt_extend [] (kept_index d)"
    "fixed d2 = fixed (fold wire_actor (bt_keys by_id) (d1\<lparr>dm_by_id := by_id\<rparr>))"
    "run_state (spawn_all D (entries (dm_removing_file d))) d2 = (r, d')"
proof -
  obtain m e1 where load1: "run_state (pending D) (empty_memory d) = (m, e1)" by fastforce
  have m: "m = entries (dm_removing_file d)" using pending_reads [OF reads load1] by (simp add: empty_memory_def)
  have e1: "fixed e1 = fixed (empty_memory d)" by (rule keepsD [OF keeps_loads(2) load1])
  obtain idx e2 where load2: "run_state (load_index D dm_index_file) e1 = (idx, e2)" by fastforce
  have idx: "idx = entries (dm_index_file d)"
    using load_index_reads [OF reads _ load2] fixed_parts [OF e1] by (simp add: empty_memory_def)
  have e2: "fixed e2 = fixed (empty_memory d)" using load_index_runs [OF load2] e1 by simp
  let ?kept = "kept_index d"
  have kept: "bt_retain (\<lambda>i _. \<not> bt_has m i) idx = ?kept" by (simp add: kept_index_def m idx)
  obtain q d1 where save: "run_state (save_kept D ?kept idx) e2 = (q, d1)" by fastforce
  obtain by_id d2 where each: "run_state (each (load_one D) ?kept []) d1 = (by_id, d2)" by fastforce
  let ?d3 = "fold wire_actor (bt_keys by_id) (d2\<lparr>dm_by_id := by_id\<rparr>)"
  have spawn: "run_state (spawn_all D m) ?d3 = (r, d')"
    using run load1 load2 save each kept by (simp add: load_from_def Let_def spawn_all_def)
  have "fixed (write_index ?kept e2) = fixed (write_index ?kept (empty_memory d))" using e2 by (simp add: fixed_def)
  with save_kept_runs(1) [OF save] e2
  have "fixed d1 = fixed (empty_memory d) \<or> fixed d1 = fixed (write_index ?kept (empty_memory d))" by simp
  moreover have "entries (dm_index_file d1) = ?kept" if "saves_work D"
    using save_kept_runs(2) [OF save that] idx fixed_parts [OF e2] by (simp add: empty_memory_def)
  moreover have "bt_wf ?kept \<Longrightarrow> bt_wf by_id \<and> set by_id \<subseteq> set ?kept" using load_each_runs [OF each] by simp
  moreover have "opens_all D \<Longrightarrow> by_id = bt_extend [] ?kept" using load_each_opens [OF _ each] .
  moreover have "fixed d2 = fixed d1" by (rule keepsD [OF _ each]) (intro keeps_intros)
  then have "fixed ?d3 = fixed (fold wire_actor (bt_keys by_id) (d1\<lparr>dm_by_id := by_id\<rparr>))" by (rule wire_all_fixed)
  ultimately show ?thesis using that [of d1 by_id ?d3] spawn m by simp
qed

lemma load_ok:
  assumes run: "run_state (load_from D) d = (r, d')" and reads: "reads_work D"
    and idx: "own_ids (entries (dm_index_file d))" and rem: "own_ids (entries (dm_removing_file d))"
  shows "registry_ok d' \<and> dm_removing_file d' = dm_removing_file d"
proof -
  have wf: "bt_wf (kept_index d)" using idx by (simp add: kept_index_def own_ids_def)
  have kept: "own_ids (kept_index d)"
    using idx by (auto simp: kept_index_def own_ids_def bt_get_retain split: option.splits if_splits)
  from run reads show ?thesis
  proof (cases rule: load_runs)
    case (started by_id d1 d2)
    from started(3) [OF wf] have by_id: "bt_wf by_id" "set by_id \<subseteq> set (kept_index d)" by simp_all
    let ?e = "d1\<lparr>dm_by_id := by_id\<rparr>"
    have e: "dm_removing_file ?e = dm_removing_file d" "own_ids (entries (dm_index_file ?e))" "tasks_ok ?e" "dm_tasks ?e = []"
      using started(1) idx kept by (auto simp: fixed_def empty_memory_def tasks_ok_def)
    have "distinct (bt_keys by_id)" using bt_wf_distinct [OF by_id(1)] by (simp add: bt_keys_def)
    then have "tasks_ok (fold wire_actor (bt_keys by_id) ?e)" using e by (intro wire_all_ok) simp_all
    moreover have own: "own_ids by_id"
      using by_id kept by (auto simp: own_ids_def dest!: map_of_SomeD) (metis bt_in_set subsetD)
    moreover have "map_of (entries (dm_removing_file d)) i = None" if "map_of by_id i \<noteq> None" for i
    proof -
      from that by_id(2) obtain p where "(i, p) \<in> set (kept_index d)" by (auto dest!: map_of_SomeD)
      then show ?thesis by (simp add: kept_index_def set_bt_retain bt_has_iff)
    qed
    moreover have "dom (map_of (dm_tasks (fold wire_actor (bt_keys by_id) ?e))) = dom (map_of by_id)"
      unfolding wire_all_dom e(4) by (simp add: bt_keys_def dom_map_of_conv_image_fst)
    ultimately have "registry_ok (fold wire_actor (bt_keys by_id) ?e)"
      using e rem by (auto simp: registry_ok_def)
    from registry_ok_core [OF fixed_core [OF started(5)] this] keepsD [OF keeps_spawn_all started(6)]
    have "registry_ok d'" by (metis registry_ok_core)
    moreover have "dm_removing_file d' = dm_removing_file d"
      using keepsD [OF keeps_spawn_all started(6)] fixed_parts [OF started(5)] e(1) by (simp add: core_def)
    ultimately show ?thesis by simp
  qed
qed

section \<open>Every reachable registry\<close>

lemma life_ok:
  assumes step: "life_step D d d'" and reads: "reads_work D" and ok: "registry_ok d"
  shows "registry_ok d'"
  using step
proof (cases rule: life_step.cases)
  case (ls_wire entry workspace owner r)
  from this reads show ?thesis
  proof (cases rule: resolve_runs)
    case (refused e)
    with registry_ok_core [OF fixed_core ok] show ?thesis by blast
  next
    case (already c)
    with registry_ok_core [OF fixed_core ok] show ?thesis by blast
  next
    case (unsaved c e)
    with registry_ok_core [OF fixed_core wired_ok [OF ok]] show ?thesis by blast
  next
    case (wired c)
    with registry_ok_core [OF fixed_core listed_ok [OF ok]] show ?thesis by blast
  qed
next
  case (ls_remove i r)
  from this reads show ?thesis
  proof (cases rule: remove_runs)
    case same
    from registry_ok_core [OF this ok] show ?thesis .
  next
    case (removed p x)
    from removed(3) registry_ok_core dropped_ok [OF ok removed(1)] show ?thesis by metis
  qed
next
  case (ls_teardown task r)
  obtain job i p where task: "task = (job, i, p)" by (cases task)
  from ls_teardown(2) [unfolded task] reads show ?thesis
  proof (cases rule: teardown_runs)
    case (same e)
    from registry_ok_core [OF same(2) ok] show ?thesis .
  next
    case finished
    have "registry_ok (write_removing (bt_remove i (entries (dm_removing_file d))) d)"
      using ok own_ids_remove [of "entries (dm_removing_file d)" i] by (auto simp: registry_ok_def tasks_ok_def dom_bt_remove)
    from registry_ok_core [OF finished(2) this] show ?thesis .
  qed
next
  case (ls_world w)
  with registry_ok_core [OF core_world ok] show ?thesis by simp
qed

lemma lives_ok: "lives D d \<Longrightarrow> reads_work D \<Longrightarrow> registry_ok d"
proof (induction rule: lives.induct)
  case (lv_first w r d)
  with load_ok [OF lv_first(1) lv_first(2)] show ?case by (simp add: first_start_def own_ids_def)
next
  case (lv_step d d')
  with life_ok show ?case by blast
next
  case (lv_restart d r d')
  then have "own_ids (entries (dm_index_file d))" "own_ids (entries (dm_removing_file d))"
    by (simp_all add: registry_ok_def)
  with load_ok [OF lv_restart(2) lv_restart(4)] show ?case by simp
qed

section \<open>Removals\<close>

lemma mark_stays:
  assumes step: "life_step D d d'" and reads: "reads_work D" and ok: "registry_ok d"
    and mark: "map_of (entries (dm_removing_file d)) i = Some p"
  shows "map_of (entries (dm_removing_file d')) i = Some p \<or>
    (\<exists>job q. (job, i, q) \<in> set (dm_teardowns d) \<and> run_state (run_teardown D (job, i, q)) d = (Inr (), d'))"
  using step
proof (cases rule: life_step.cases)
  case (ls_wire entry workspace owner r)
  from this reads show ?thesis
    by (cases rule: resolve_runs) (use mark in \<open>auto dest!: fixed_parts simp: listed_def\<close>)
next
  case (ls_remove j r)
  from this reads show ?thesis
  proof (cases rule: remove_runs)
    case same
    with mark show ?thesis by (simp add: core_def)
  next
    case (removed q x)
    with ok mark have "j \<noteq> i" by (auto simp: registry_ok_def)
    with removed(3) mark show ?thesis by (auto simp: core_def)
  qed
next
  case (ls_teardown task r)
  obtain job j q where task: "task = (job, j, q)" by (cases task)
  from ls_teardown(2) [unfolded task] reads show ?thesis
  proof (cases rule: teardown_runs)
    case (same e)
    with mark show ?thesis by (simp add: core_def)
  next
    case finished
    show ?thesis
    proof (cases "j = i")
      case True
      with finished(1) ls_teardown task show ?thesis by auto
    qed (use finished mark in \<open>simp add: core_def\<close>)
  qed
next
  case (ls_world w)
  with mark show ?thesis by simp
qed

lemma spawn_teardown_starts:
  assumes run: "run_state (spawn_teardown D i p) d = (x, d')"
    and new: "\<forall>a\<in>set (al_items (dm_log d)). ac_workspace_id a \<noteq> Some i"
  shows "(\<exists>job. dm_teardowns d' = dm_teardowns d @ [(job, i, p)]) \<and>
    (\<forall>a\<in>set (al_items (dm_log d')). ac_workspace_id a = Some i \<or> a \<in> set (al_items (dm_log d)))"
proof -
  have "find_top (dm_log d) (Some i) KRemove ACTIVITY_KEY = None"
    using new by (auto simp: find_top_def find_None_iff)
  with run show ?thesis
    by (auto simp: spawn_teardown_def run_on_world start_job_def push_activity_def Let_def split: prod.splits)
qed

lemma spawn_all_starts:
  "run_state (spawn_all D m) d = (x, d') \<Longrightarrow> distinct (map fst m) \<Longrightarrow>
     \<forall>a\<in>set (al_items (dm_log d)). \<forall>i\<in>fst ` set m. ac_workspace_id a \<noteq> Some i \<Longrightarrow>
     set (dm_teardowns d) \<subseteq> set (dm_teardowns d') \<and> (\<forall>(i, p)\<in>set m. \<exists>job. (job, i, p) \<in> set (dm_teardowns d'))"
proof (induction m arbitrary: d)
  case Nil
  then show ?case by (simp add: spawn_all_def)
next
  case (Cons e m)
  obtain i p where e: "e = (i, p)" by (cases e)
  obtain y d1 where first: "run_state (spawn_teardown D i p) d = (y, d1)" by fastforce
  with Cons.prems(1) have rest: "run_state (spawn_all D m) d1 = (x, d')" by (simp add: spawn_all_def e)
  from Cons.prems(3) have "\<forall>a\<in>set (al_items (dm_log d)). ac_workspace_id a \<noteq> Some i" by (simp add: e)
  from spawn_teardown_starts [OF first this] obtain job where
    job: "dm_teardowns d1 = dm_teardowns d @ [(job, i, p)]" and
    log: "\<forall>a\<in>set (al_items (dm_log d1)). ac_workspace_id a = Some i \<or> a \<in> set (al_items (dm_log d))" by blast
  have "\<forall>a\<in>set (al_items (dm_log d1)). \<forall>j\<in>fst ` set m. ac_workspace_id a \<noteq> Some j"
    using log Cons.prems(2,3) by (force simp: e)
  from Cons.IH [OF rest _ this] Cons.prems(2) job show ?case by (fastforce simp: e)
qed

lemma restart_spawns:
  assumes run: "run_state (load_from D) d = (r, d')" and reads: "reads_work D" and wf: "bt_wf (entries (dm_removing_file d))"
    and mark: "map_of (entries (dm_removing_file d)) i = Some p"
  shows "\<exists>job. (job, i, p) \<in> set (dm_teardowns d')"
  using run reads
proof (cases rule: load_runs)
  case (started by_id d1 d2)
  from started(1) have "dm_log d1 = empty_log" by (auto simp: fixed_def empty_memory_def)
  moreover have "dm_log (fold wire_actor ids e) = dm_log e" for ids and e :: "'a daemon"
    by (induction ids arbitrary: e) (simp_all add: wire_actor_def)
  ultimately have "al_items (dm_log d2) = []" using fixed_parts [OF started(5)] by (simp add: empty_log_def)
  with spawn_all_starts [OF started(6) bt_wf_distinct [OF wf]] map_of_SomeD [OF mark] show ?thesis by auto
qed

section \<open>Overlap\<close>

definition wired_apart :: "index \<Rightarrow> bool" where
  "wired_apart m = (\<forall>i j p q. map_of m i = Some p \<longrightarrow> map_of m j = Some q \<longrightarrow> i \<noteq> j \<longrightarrow> apart p q)"

lemma wired_apart_remove: "wired_apart m \<Longrightarrow> wired_apart (bt_remove i m)"
  by (auto simp: wired_apart_def split: if_splits)

lemma wired_apart_insert:
  assumes m: "wired_apart (dm_by_id d)" and own: "own_ids (dm_by_id d)" and clear: "clear c d"
  shows "wired_apart (bt_insert (workspace_id c) c (dm_by_id d))"
proof -
  have new: "apart c p" if "map_of (dm_by_id d) i = Some p" "i \<noteq> workspace_id c" for i p
    using that own clear bt_values_mono [OF that(1)] by (auto simp: own_ids_def clear_def)
  show ?thesis
    using m new apart_sym by (auto simp: wired_apart_def split: if_splits)
qed

lemma stays_apart:
  assumes step: "life_step D d d'" and reads: "reads_work D" and ok: "registry_ok d" and m: "wired_apart (dm_by_id d)"
  shows "wired_apart (dm_by_id d')"
  using step
proof (cases rule: life_step.cases)
  case (ls_wire entry workspace owner r)
  have own: "own_ids (dm_by_id d)" using ok by (simp add: registry_ok_def)
  from ls_wire reads show ?thesis
    by (cases rule: resolve_runs)
      (use m wired_apart_insert [OF m own] in \<open>auto dest!: fixed_parts simp: listed_def\<close>)
next
  case (ls_remove j r)
  from this reads show ?thesis
    by (cases rule: remove_runs) (use m wired_apart_remove [OF m] in \<open>auto simp: core_def\<close>)
next
  case (ls_teardown task r)
  obtain job j q where task: "task = (job, j, q)" by (cases task)
  from ls_teardown(2) [unfolded task] reads show ?thesis
    by (cases rule: teardown_runs) (use m in \<open>simp_all add: core_def\<close>)
next
  case (ls_world w)
  with m show ?thesis by simp
qed

section \<open>Restarts\<close>

lemma kept_all:
  assumes ok: "registry_ok d" and same: "entries (dm_index_file d) = dm_by_id d"
  shows "kept_index d = dm_by_id d"
proof -
  have "\<not> bt_has (entries (dm_removing_file d)) (fst e)" if "e \<in> set (dm_by_id d)" for e
  proof -
    from that have "fst e \<in> dom (map_of (dm_by_id d))" by (simp add: dom_map_of_conv_image_fst)
    with ok show ?thesis by (auto simp: registry_ok_def bt_has_iff)
  qed
  then show ?thesis by (simp add: kept_index_def same bt_retain_def)
qed

lemma load_restores:
  assumes run: "run_state (load_from D) d = (r, d')" and reads: "reads_work D" and saves: "saves_work D" and opens: "opens_all D"
    and kept: "kept_index d = m" and wf: "bt_wf m"
  shows "dm_by_id d' = m \<and> entries (dm_index_file d') = m"
  using run reads
proof (cases rule: load_runs)
  case (started by_id d1 d2)
  have "by_id = m" using started(4) [OF opens] bt_extend_itself [OF wf] kept by simp
  moreover have "entries (dm_index_file d1) = m" using started(2) [OF saves] kept by simp
  ultimately show ?thesis
    using keepsD [OF keeps_spawn_all started(6)] fixed_parts [OF started(5)] by (simp add: core_def)
qed

lemma index_follows:
  assumes step: "life_step D d d'" and reads: "reads_work D" and saves: "saves_work D" and ok: "registry_ok d"
    and same: "entries (dm_index_file d) = dm_by_id d"
  shows "entries (dm_index_file d') = dm_by_id d'"
  using step
proof (cases rule: life_step.cases)
  case (ls_wire entry workspace owner r)
  from this reads show ?thesis
    by (cases rule: resolve_runs) (use saves same in \<open>auto dest!: fixed_parts simp: listed_def\<close>)
next
  case (ls_remove j r)
  from this reads show ?thesis
    by (cases rule: remove_runs) (use saves same in \<open>auto simp: core_def\<close>)
next
  case (ls_teardown task r)
  obtain job j q where task: "task = (job, j, q)" by (cases task)
  from ls_teardown(2) [unfolded task] reads show ?thesis
    by (cases rule: teardown_runs) (use same in \<open>simp_all add: core_def\<close>)
next
  case (ls_world w)
  with same show ?thesis by simp
qed

lemma index_is_wired:
  "lives D d \<Longrightarrow> reads_work D \<Longrightarrow> saves_work D \<Longrightarrow> opens_all D \<Longrightarrow>
     entries (dm_index_file d) = dm_by_id d \<and> wired_apart (dm_by_id d)"
proof (induction rule: lives.induct)
  case (lv_first w r d)
  have "kept_index (first_start w) = []" by (simp add: kept_index_def first_start_def bt_retain_def)
  from load_restores [OF lv_first(1) lv_first(2,3,4) this] show ?case by (simp add: wired_apart_def)
next
  case (lv_step d d')
  note ok = lives_ok [OF lv_step(1,4)]
  from lv_step index_follows [OF lv_step(2,4,5) ok] stays_apart [OF lv_step(2,4) ok] show ?case by blast
next
  case (lv_restart d r d')
  note ok = lives_ok [OF lv_restart(1,4)]
  from lv_restart have same: "entries (dm_index_file d) = dm_by_id d" and "wired_apart (dm_by_id d)" by simp_all
  with load_restores [OF lv_restart(2,4,5,6) kept_all [OF ok same]] ok show ?case
    by (simp add: registry_ok_def own_ids_def)
qed

end
