(* ===== verification/Removal_Props.thy ===== *)
theory Removal_Props
  imports Removal
begin

text \<open>
  What a removal leaves of a workspace in Docker. \<open>lessens\<close> says that a computation adds nothing to a set
  read off the state; \<open>honest\<close> is what is asked of Docker: nothing appears while the removal runs, a
  listing is complete, an inspection fails for missing networks alone, and a volume reported as removed is.
\<close>

named_theorems lessens_intros "computations that add nothing to a part of the state"

definition lessens :: "('s \<Rightarrow> 'p set) \<Rightarrow> ('s, 'a) state \<Rightarrow> bool" where
  "lessens part m = (\<forall>s. part (snd (run_state m s)) \<subseteq> part s)"

lemma lessensD: "lessens part m \<Longrightarrow> run_state m s = (r, s') \<Longrightarrow> part s' \<subseteq> part s"
  unfolding lessens_def by (metis snd_conv)

lemma lessens_keeps: "keeps part m \<Longrightarrow> lessens part m"
  by (simp add: lessens_def keeps_def)

lemma lessens_return [lessens_intros]: "lessens part (State_Monad.return x)"
  by (simp add: lessens_def)

lemma lessens_get [lessens_intros]: "lessens part State_Monad.get"
  by (simp add: lessens_def)

lemma lessens_ok [lessens_intros]: "lessens part (ok x)"
  by (simp add: lessens_def)

lemma lessens_fails [lessens_intros]: "lessens part (fails e)"
  by (simp add: lessens_def)

lemma lessens_bind [lessens_intros]:
  assumes "lessens part m" and "\<And>x. lessens part (f x)"
  shows "lessens part (State_Monad.bind m f)"
  unfolding lessens_def
proof
  fix s
  obtain x s1 where m: "run_state m s = (x, s1)" by fastforce
  from lessensD [OF assms(1) m] assms(2) [of x] m show "part (snd (run_state (State_Monad.bind m f) s)) \<subseteq> part s"
    by (auto simp: lessens_def)
qed

lemma lessens_and_then [lessens_intros]:
  assumes "lessens part m" and "\<And>x. lessens part (f x)"
  shows "lessens part (and_then m f)"
  unfolding and_then_def by (intro lessens_bind assms) (auto intro: lessens_intros assms split: sum.split)

lemma lessens_context [lessens_intros]: "lessens part m \<Longrightarrow> lessens part (with_context what m)"
  unfolding with_context_def by (intro lessens_bind) (auto intro: lessens_intros)

lemma lessens_each [lessens_intros]: "(\<And>x v. lessens part (f x v)) \<Longrightarrow> lessens part (each f xs v)"
  by (induction xs arbitrary: v) (auto intro: lessens_intros)

lemma lessens_each_ok [lessens_intros]: "(\<And>x v. lessens part (f x v)) \<Longrightarrow> lessens part (each_ok f xs v)"
  by (induction xs arbitrary: v) (auto intro: lessens_intros)

lemma lessens_if [lessens_intros]:
  "lessens part m \<Longrightarrow> lessens part m' \<Longrightarrow> lessens part (if b then m else m')"
  by simp

lemma lessens_option [lessens_intros]:
  "lessens part m \<Longrightarrow> (\<And>y. lessens part (f y)) \<Longrightarrow> lessens part (case x of None \<Rightarrow> m | Some y \<Rightarrow> f y)"
  by (cases x) auto

lemma lessens_sum [lessens_intros]:
  "(\<And>e. lessens part (m e)) \<Longrightarrow> (\<And>y. lessens part (f y)) \<Longrightarrow> lessens part (case x of Inl e \<Rightarrow> m e | Inr y \<Rightarrow> f y)"
  by (cases x) auto

lemma lessens_world [lessens_intros]: "lessens part m \<Longrightarrow> lessens (\<lambda>d. part (dm_world d)) (on_world m)"
  by (auto simp: lessens_def on_world_def split: prod.splits) (metis snd_conv subsetD)

lemma lessens_modify [lessens_intros]: "(\<And>s. part (f s) \<subseteq> part s) \<Longrightarrow> lessens part (modify_state f)"
  by (simp add: lessens_def)

section \<open>An honest Docker\<close>

record 'w docker_view =
  dv_containers :: "'w \<Rightarrow> (string \<times> string) set"
  dv_networks :: "'w \<Rightarrow> string set"
  dv_volumes :: "'w \<Rightarrow> (string \<times> string) set"

definition quiet_calls :: "'w daemon_api \<Rightarrow> ('w \<Rightarrow> 'p set) \<Rightarrow> bool" where
  "quiet_calls D part =
     (let A = da_engine D in
      (\<forall>n. lessens part (ap_inspect_container A n)) \<and> (\<forall>f. lessens part (ap_list_containers A f)) \<and>
      (\<forall>n. lessens part (ap_stop_container A n)) \<and> (\<forall>n v. lessens part (ap_remove_container A n v)) \<and>
      (\<forall>n. lessens part (ap_inspect_network A n)) \<and> (\<forall>n. lessens part (ap_remove_network A n)) \<and>
      (\<forall>f. lessens part (ap_list_volumes A f)) \<and> (\<forall>n. lessens part (ap_remove_volume A n)) \<and>
      lessens part (ap_unix_ms A) \<and> (\<forall>p. lessens part (ap_path_exists A p)) \<and>
      (\<forall>p. lessens part (da_remove_dir_all D p)) \<and> (\<forall>p. lessens part (da_canonicalize D p)) \<and>
      lessens part (da_reads D) \<and> lessens part (da_saves D))"

definition is_named :: "container_summary \<Rightarrow> bool" where
  "is_named s = (case sm_names s of Some (n # _) \<Rightarrow> True | _ \<Rightarrow> False)"

definition project_filter :: "string \<Rightarrow> string" where
  "project_filter p = ''com.docker.compose.project='' @ p"

definition honest :: "'w daemon_api \<Rightarrow> 'w docker_view \<Rightarrow> bool" where
  "honest D V =
     (let A = da_engine D in
      quiet_calls D (dv_containers V) \<and> quiet_calls D (dv_networks V) \<and> quiet_calls D (dv_volumes V) \<and>
      (\<forall>p w l w' c. run_state (ap_list_containers A (project_filter p)) w = (Inr l, w') \<longrightarrow>
         (c, p) \<in> dv_containers V w' \<longrightarrow> (\<exists>s\<in>set l. is_named s)) \<and>
      (\<forall>n w e w'. run_state (ap_inspect_network A n) w = (Inl e, w') \<longrightarrow> n \<notin> dv_networks V w') \<and>
      (\<forall>p w r w' v. run_state (ap_list_volumes A (project_filter p)) w = (Inr r, w') \<longrightarrow>
         (v, p) \<in> dv_volumes V w' \<longrightarrow> v \<in> set (case r of Some vs \<Rightarrow> vs | None \<Rightarrow> [])) \<and>
      (\<forall>n w w' p. run_state (ap_remove_volume A n) w = (Inr (), w') \<longrightarrow> (n, p) \<notin> dv_volumes V w'))"

section \<open>What the steps add nothing to\<close>

lemma quietD:
  assumes "quiet_calls D part"
  shows "lessens part (ap_inspect_container (da_engine D) n)" "lessens part (ap_list_containers (da_engine D) f)"
    "lessens part (ap_stop_container (da_engine D) n)" "lessens part (ap_remove_container (da_engine D) n b)"
    "lessens part (ap_inspect_network (da_engine D) n)" "lessens part (ap_remove_network (da_engine D) n)"
    "lessens part (ap_list_volumes (da_engine D) f)" "lessens part (ap_remove_volume (da_engine D) n)"
    "lessens part (ap_unix_ms (da_engine D))" "lessens part (ap_path_exists (da_engine D) p)"
    "lessens part (da_remove_dir_all D p)" "lessens part (da_canonicalize D path)"
    "lessens part (da_reads D)" "lessens part (da_saves D)"
  using assms by (simp_all add: quiet_calls_def Let_def)

lemma lessens_engine [lessens_intros]: "lessens part m \<Longrightarrow> lessens part (engine what m)"
  unfolding engine_def by (intro lessens_intros)

lemma lessens_discard: "quiet_calls D part \<Longrightarrow> lessens part (discard (da_engine D) c)"
  unfolding discard_def by (intro lessens_intros quietD)

lemma lessens_inspect: "quiet_calls D part \<Longrightarrow> lessens part (inspect_status (da_engine D) c)"
  unfolding inspect_status_def inspect_engine_def
  by (intro lessens_intros quietD) (auto intro: lessens_intros split: docker_error.split sum.split)

lemma lessens_list_one: "quiet_calls D part \<Longrightarrow> lessens part (list_one (da_engine D) s m)"
  unfolding list_one_def Let_def
  by (auto intro!: lessens_intros lessens_inspect split: option.split list.split)

lemma lessens_list: "quiet_calls D part \<Longrightarrow> lessens part (list_statuses (da_engine D) p)"
  unfolding list_statuses_def by (intro lessens_intros quietD lessens_list_one)

lemma lessens_on_log: "quiet_calls D part \<Longrightarrow> lessens (\<lambda>d. part (dm_world d)) (on_log f D)"
  unfolding on_log_def by (intro lessens_intros quietD) simp_all

lemma lessens_append: "quiet_calls D part \<Longrightarrow> lessens (\<lambda>d. part (dm_world d)) (append_job D job t)"
  unfolding append_job_def by (rule lessens_on_log)

lemma lessens_step:
  "quiet_calls D part \<Longrightarrow> lessens (\<lambda>d. part (dm_world d)) work \<Longrightarrow> lessens (\<lambda>d. part (dm_world d)) (job_step D job work)"
  unfolding job_step_def by (intro lessens_intros lessens_on_log)

lemma lessens_found: "quiet_calls D part \<Longrightarrow> lessens (\<lambda>d. part (dm_world d)) (found_containers D n)"
  unfolding found_containers_def by (intro lessens_intros lessens_list)

lemma lessens_network: "quiet_calls D part \<Longrightarrow> lessens (\<lambda>d. part (dm_world d)) (teardown_network D n s)"
  unfolding teardown_network_def by (intro lessens_intros lessens_append quietD)

lemma lessens_volumes: "quiet_calls D part \<Longrightarrow> lessens (\<lambda>d. part (dm_world d)) (remove_volumes D n s)"
  unfolding remove_volumes_def volume_step_def list_volumes_def remove_volume_def by (intro lessens_intros lessens_append quietD)

section \<open>What each step leaves\<close>

lemma list_one_keys:
  assumes "run_state (list_one A s m) w = (Inr m', w')"
  shows "fst ` set m \<subseteq> fst ` set m'" and "is_named s \<Longrightarrow> m' \<noteq> []"
proof -
  have "fst ` set m \<subseteq> fst ` set m' \<and> (is_named s \<longrightarrow> m' \<noteq> [])"
  proof (cases "\<exists>n ns. sm_names s = Some (n # ns)")
    case True
    then obtain n ns where "sm_names s = Some (n # ns)" by blast
    with assms obtain k v where "m' = bt_insert k v m" by (auto simp: list_one_def Let_def run_and_then_Inr)
    then show ?thesis by (auto simp: bt_insert_fst_set bt_insert_def)
  next
    case False
    with assms show ?thesis by (auto simp: list_one_def is_named_def split: option.splits list.splits)
  qed
  then show "fst ` set m \<subseteq> fst ` set m'" "is_named s \<Longrightarrow> m' \<noteq> []" by simp_all
qed

lemma list_each_keys:
  "run_state (each_ok (list_one A) l m) w = (Inr m', w') \<Longrightarrow> fst ` set m \<subseteq> fst ` set m' \<and> (\<forall>s\<in>set l. is_named s \<longrightarrow> m' \<noteq> [])"
proof (induction l arbitrary: m w)
  case (Cons s l)
  from Cons.prems obtain m1 w1 where first: "run_state (list_one A s m) w = (Inr m1, w1)"
    and rest: "run_state (each_ok (list_one A) l m1) w1 = (Inr m', w')" by (auto simp: run_and_then_Inr)
  from list_one_keys [OF first] Cons.IH [OF rest] show ?case by auto
qed simp

lemma none_found:
  assumes honest: "honest D V" and run: "run_state (found_containers D network) d = (Inr [], d')"
  shows "(c, network) \<notin> dv_containers V (dm_world d')"
proof
  assume there: "(c, network) \<in> dv_containers V (dm_world d')"
  from run obtain m w' where statuses: "run_state (list_statuses (da_engine D) network) (dm_world d) = (Inr m, w')"
    and m: "sort (bt_keys m) = []" and d': "dm_world d' = w'"
    by (auto simp: found_containers_def run_and_then_Inr run_with_context_Inr on_world_def split: prod.splits)
  from m have m: "m = []" by (simp add: bt_keys_def flip: length_0_conv)
  from statuses obtain l w1 where
    listed: "run_state (ap_list_containers (da_engine D) (project_filter network)) (dm_world d) = (Inr l, w1)" and
    each: "run_state (each_ok (list_one (da_engine D)) l []) w1 = (Inr [], w')"
    by (auto simp: list_statuses_def engine_def run_and_then_Inr project_filter_def m split: prod.splits sum.splits)
  have "lessens (dv_containers V) (each_ok (list_one (da_engine D)) l [])"
    using honest by (intro lessens_intros lessens_list_one) (simp add: honest_def Let_def)
  from lessensD [OF this each] there d' have "(c, network) \<in> dv_containers V w1" by auto
  with honest listed obtain s where "s \<in> set l" "is_named s" unfolding honest_def Let_def by metis
  with list_each_keys [OF each] show False by auto
qed

lemma containers_removed:
  assumes honest: "honest D V" and run: "run_state (remove_containers D name network step) d = (Inr (), d')"
  shows "(c, network) \<notin> dv_containers V (dm_world d')"
proof -
  obtain d1 d2 where found: "run_state (found_containers D network) d1 = (Inr [], d2)"
    and rest: "run_state (let routes = sidecar_routes_dir (da_orchestrator D) network in do {
           exists \<leftarrow> on_world (ap_path_exists (da_engine D) routes);
           if exists then with_context (''failed to remove '' @ routes) (on_world (da_remove_dir_all D routes))
           else ok () }) d2 = (Inr (), d')"
  proof -
    from run obtain mid where swept: "run_state (sweep SWEEPS D network step) d = (Inr (), mid)"
      by (auto simp: remove_containers_def run_and_then_Inr)
    obtain x d1 where "run_state (on_world (discard (da_engine D) (sidecar_name name))) mid = (x, d1)" by (meson surj_pair)
    with run swept that show ?thesis
      by (auto simp: remove_containers_def run_and_then split: prod.splits sum.splits if_splits)
  qed
  have "quiet_calls D (dv_containers V)" using honest by (simp add: honest_def Let_def)
  then have "lessens (\<lambda>d. dv_containers V (dm_world d)) (let routes = sidecar_routes_dir (da_orchestrator D) network in do {
           exists \<leftarrow> on_world (ap_path_exists (da_engine D) routes);
           if exists then with_context (''failed to remove '' @ routes) (on_world (da_remove_dir_all D routes))
           else ok () })"
    unfolding Let_def by (intro lessens_intros quietD)
  from lessensD [OF this rest] none_found [OF honest found] show ?thesis by auto
qed

lemma network_removed:
  assumes honest: "honest D V" and run: "run_state (teardown_network D network step) d = (Inr (), d')"
  shows "network \<notin> dv_networks V (dm_world d')"
proof -
  from run obtain e w where "run_state (ap_inspect_network (da_engine D) network) w = (Inl e, dm_world d')"
    by (auto simp: teardown_network_def on_world_def split: prod.splits sum.splits)
  with honest show ?thesis unfolding honest_def Let_def by metis
qed

lemma each_volume_removed:
  "run_state (each_ok (volume_step D step) vs u) d = (Inr r, d') \<Longrightarrow> honest D V \<Longrightarrow>
     v \<in> set vs \<Longrightarrow> (v, p) \<notin> dv_volumes V (dm_world d')"
proof (induction vs arbitrary: u d)
  case (Cons x vs)
  have quiet: "quiet_calls D (dv_volumes V)" using Cons.prems(2) by (simp add: honest_def Let_def)
  from Cons.prems(1) obtain u1 d1 where first: "run_state (volume_step D step x u) d = (Inr u1, d1)"
    and rest: "run_state (each_ok (volume_step D step) vs u1) d1 = (Inr r, d')" by (auto simp: run_and_then_Inr)
  show ?case
  proof (cases "v \<in> set vs")
    case True
    from Cons.IH [OF rest Cons.prems(2) this] show ?thesis .
  next
    case False
    with Cons.prems(3) have x: "x = v" by simp
    from first obtain w where "run_state (ap_remove_volume (da_engine D) v) w = (Inr (), dm_world d1)"
      by (auto simp: volume_step_def remove_volume_def engine_def on_world_def x split: prod.splits sum.splits)
    with Cons.prems(2) have "(v, p) \<notin> dv_volumes V (dm_world d1)" unfolding honest_def Let_def by metis
    moreover have "lessens (\<lambda>d. dv_volumes V (dm_world d)) (each_ok (volume_step D step) vs u1)"
      unfolding volume_step_def remove_volume_def by (intro lessens_intros lessens_append quietD quiet)
    from lessensD [OF this rest] have "dv_volumes V (dm_world d') \<subseteq> dv_volumes V (dm_world d1)" .
    ultimately show ?thesis by auto
  qed
qed simp

lemma list_volumes_runs:
  assumes "run_state (list_volumes A p) w = (Inr vs, w')"
  obtains r where "run_state (ap_list_volumes A (project_filter p)) w = (Inr r, w')"
    "vs = (case r of Some vs \<Rightarrow> vs | None \<Rightarrow> [])"
  using assms by (auto simp: list_volumes_def engine_def run_and_then_Inr project_filter_def split: prod.splits sum.splits)

lemma volumes_removed:
  assumes honest: "honest D V" and run: "run_state (remove_volumes D name step) d = (Inr (), d')"
  shows "(v, name) \<notin> dv_volumes V (dm_world d')"
proof
  assume there: "(v, name) \<in> dv_volumes V (dm_world d')"
  have quiet: "quiet_calls D (dv_volumes V)" using honest by (simp add: honest_def Let_def)
  from run obtain vs w1 where list: "run_state (list_volumes (da_engine D) name) (dm_world d) = (Inr vs, w1)"
    and each: "run_state (each_ok (volume_step D step) (sort vs) ()) (d\<lparr>dm_world := w1\<rparr>) = (Inr (), d')"
    by (auto simp: remove_volumes_def run_and_then_Inr run_with_context_Inr run_on_world split: prod.splits)
  from list obtain r where listed: "run_state (ap_list_volumes (da_engine D) (project_filter name)) (dm_world d) = (Inr r, w1)"
    and vs: "vs = (case r of Some vs \<Rightarrow> vs | None \<Rightarrow> [])" by (rule list_volumes_runs)
  have "lessens (\<lambda>d. dv_volumes V (dm_world d)) (each_ok (volume_step D step) vs u)" for vs u
    unfolding volume_step_def remove_volume_def by (intro lessens_intros lessens_append quietD quiet)
  from lessensD [OF this each] there have "(v, name) \<in> dv_volumes V w1" by auto
  with honest listed have "v \<in> set vs" unfolding honest_def Let_def vs by metis
  with each_volume_removed [OF each honest, of v name] there show False by simp
qed

section \<open>The whole removal\<close>

text \<open>The network's name, and the name the volumes are labelled with, as the removal finds it.\<close>

definition removed_name :: "'w daemon_api \<Rightarrow> fs_path \<Rightarrow> 'w daemon \<Rightarrow> string" where
  "removed_name D path d = fst (run_state (workspace_name D path) d)"

lemma step_ok:
  assumes "run_state (job_step D job work) d = (Inr (), d')"
  obtains d1 d2 where "run_state work d1 = (Inr (), d2)" "dm_world d' = snd (run_state (ap_unix_ms (da_engine D)) (dm_world d2))"
proof -
  obtain d1 where "run_state (on_log (\<lambda>now l. Some (begin_job job now l)) D) d = ((), d1)" by (metis surj_pair old.unit.exhaust)
  moreover obtain r d2 where "run_state work d1 = (r, d2)" by (meson surj_pair)
  ultimately show ?thesis
    using assms that [of d1 d2] by (auto simp: job_step_def on_log_def run_on_world split: prod.splits)
qed

lemma teardown_steps:
  assumes "run_state (teardown D path job) d = (Inr (), d')"
  obtains name c1 c2 c3 e0 e1 e2 e3 where "name = removed_name D path d"
    "run_state (job_step D c1 (remove_containers D name (network_name name) c1)) e0 = (Inr (), e1)"
    "run_state (job_step D c2 (teardown_network D (network_name name) c2)) e1 = (Inr (), e2)"
    "run_state (job_step D c3 (remove_volumes D name c3)) e2 = (Inr (), e3)"
    "run_state (append_job D job (line_of ''removed'')) e3 = ((), d')"
proof -
  obtain name a0 where name: "run_state (workspace_name D path) d = (name, a0)" by (meson surj_pair)
  obtain u a1 where log: "run_state (append_job D job (line_of (''removing '' @ path_text path @ '' ('' @ network_name name @ '')''))) a0 = (u, a1)"
    by (meson surj_pair)
  obtain c1 a2 where c1: "run_state (queued_child D job ''containers'') a1 = (c1, a2)" by (meson surj_pair)
  obtain c2 a3 where c2: "run_state (queued_child D job ''network'') a2 = (c2, a3)" by (meson surj_pair)
  obtain c3 e0 where c3: "run_state (queued_child D job ''volumes'') a3 = (c3, e0)" by (meson surj_pair)
  from assms name log c1 c2 c3 have rest: "run_state
    (and_then (job_step D c1 (remove_containers D name (network_name name) c1)) (\<lambda>_.
     and_then (job_step D c2 (teardown_network D (network_name name) c2)) (\<lambda>_.
     and_then (job_step D c3 (remove_volumes D name c3)) (\<lambda>_. do {
       append_job D job (line_of ''removed'');
       ok () })))) e0 = (Inr (), d')"
    by (simp add: teardown_def Let_def)
  from rest obtain e1 e2 e3 where
    steps: "run_state (job_step D c1 (remove_containers D name (network_name name) c1)) e0 = (Inr (), e1)"
      "run_state (job_step D c2 (teardown_network D (network_name name) c2)) e1 = (Inr (), e2)"
      "run_state (job_step D c3 (remove_volumes D name c3)) e2 = (Inr (), e3)"
    and last: "run_state (do { append_job D job (line_of ''removed''); ok () }) e3 = (Inr (), d')"
    by (auto simp: run_and_then_Inr simp del: run_state_bind)
  from last have "run_state (append_job D job (line_of ''removed'')) e3 = ((), d')"
    by (cases "run_state (append_job D job (line_of ''removed'')) e3") simp
  with steps name that show ?thesis by (simp add: removed_name_def)
qed

lemma torn_down:
  assumes honest: "honest D V" and run: "run_state (teardown D path job) d = (Inr (), d')"
  shows "(c, network_name (removed_name D path d)) \<notin> dv_containers V (dm_world d') \<and>
    network_name (removed_name D path d) \<notin> dv_networks V (dm_world d') \<and>
    (v, removed_name D path d) \<notin> dv_volumes V (dm_world d')"
  using run
proof (rule teardown_steps)
  fix name c1 c2 c3 e0 e1 e2 e3
  assume name: "name = removed_name D path d"
    and containers: "run_state (job_step D c1 (remove_containers D name (network_name name) c1)) e0 = (Inr (), e1)"
    and network: "run_state (job_step D c2 (teardown_network D (network_name name) c2)) e1 = (Inr (), e2)"
    and volumes: "run_state (job_step D c3 (remove_volumes D name c3)) e2 = (Inr (), e3)"
    and last: "run_state (append_job D job (line_of ''removed'')) e3 = ((), d')"
  have quiet: "quiet_calls D (dv_containers V)" "quiet_calls D (dv_networks V)" "quiet_calls D (dv_volumes V)"
    using honest by (simp_all add: honest_def Let_def)
  have tick: "part (snd (run_state (ap_unix_ms (da_engine D)) w)) \<subseteq> part w" if "quiet_calls D part" for part :: "'a \<Rightarrow> 'p set" and w
    using quietD(9) [OF that] by (simp add: lessens_def)
  have later: "part (dm_world d') \<subseteq> part (dm_world e3)" "part (dm_world e3) \<subseteq> part (dm_world e2)"
    "part (dm_world e2) \<subseteq> part (dm_world e1)" if q: "quiet_calls D part" for part :: "'a \<Rightarrow> 'p set"
    using lessensD [OF lessens_append [OF q] last] lessensD [OF lessens_step [OF q lessens_volumes [OF q]] volumes]
      lessensD [OF lessens_step [OF q lessens_network [OF q]] network] by simp_all
  from containers have "(c, network_name name) \<notin> dv_containers V (dm_world e1)"
    by (rule step_ok) (use containers_removed [OF honest] tick [OF quiet(1)] in \<open>metis subsetD\<close>)
  moreover from network have "network_name name \<notin> dv_networks V (dm_world e2)"
    by (rule step_ok) (use network_removed [OF honest] tick [OF quiet(2)] in \<open>metis subsetD\<close>)
  moreover from volumes have "(v, name) \<notin> dv_volumes V (dm_world e3)"
    by (rule step_ok) (use volumes_removed [OF honest] tick [OF quiet(3)] in \<open>metis subsetD\<close>)
  ultimately show ?thesis
    using later [OF quiet(1)] later [OF quiet(2)] later [OF quiet(3)] name by blast
qed

end
