(* ===== verification/Waiting.thy ===== *)
theory Waiting
  imports Docker_Client
begin

text \<open>
  Waiting for a container (\<open>src/orchestrator/health.rs\<close>): budgets are deadlines on the monotonic clock, in
  nanoseconds; a wait polls until something is settled or its deadline has passed. The polls are counted
  down from \<open>polls_within\<close>, which is enough whenever the clock moves on while a task sleeps.
\<close>

abbreviation secs :: "nat \<Rightarrow> nat" where "secs n \<equiv> n * 1000000000"

definition PER_NODE_LIMIT :: nat where "PER_NODE_LIMIT = secs 120"
definition RUN_LIMIT :: nat where "RUN_LIMIT = secs 300"

definition new_budget :: "'w api \<Rightarrow> nat \<Rightarrow> ('w, nat) state" where
  "new_budget A limit = do { now \<leftarrow> ap_now A; State_Monad.return (now + limit) }"

definition allowance :: "'w api \<Rightarrow> nat \<Rightarrow> ('w, nat) state" where
  "allowance A deadline = do { now \<leftarrow> ap_now A; State_Monad.return (min (deadline - now) PER_NODE_LIMIT) }"

definition is_exhausted :: "'w api \<Rightarrow> nat \<Rightarrow> ('w, bool) state" where
  "is_exhausted A deadline = do { left \<leftarrow> allowance A deadline; State_Monad.return (left = 0) }"

record run_budget =
  rb_health :: nat
  rb_tasks :: nat

definition default_budget :: "'w api \<Rightarrow> ('w, run_budget) state" where
  "default_budget A = do {
     health \<leftarrow> new_budget A RUN_LIMIT;
     tasks \<leftarrow> new_budget A RUN_LIMIT;
     State_Monad.return \<lparr>rb_health = health, rb_tasks = tasks\<rparr> }"

section \<open>Polling\<close>

text \<open>One poll settles the wait or not; \<open>None\<close> when the polls have run out.\<close>

fun poll_until ::
  "nat \<Rightarrow> 'w api \<Rightarrow> nat \<Rightarrow> ('w, 'a option) state \<Rightarrow> 'a \<Rightarrow> nat \<Rightarrow> ('w, 'a option) state" where
  "poll_until 0 A poll look timed_out deadline = State_Monad.return None"
| "poll_until (Suc k) A poll look timed_out deadline = do {
     seen \<leftarrow> look;
     case seen of
       Some outcome \<Rightarrow> State_Monad.return (Some outcome)
     | None \<Rightarrow> do {
         now \<leftarrow> ap_now A;
         if deadline - now = 0 then State_Monad.return (Some timed_out)
         else do {
           _ \<leftarrow> ap_sleep A (min poll (deadline - now));
           poll_until k A poll look timed_out deadline } } }"

definition polls_within :: "nat \<Rightarrow> nat \<Rightarrow> nat" where
  "polls_within poll limit = limit div poll + 2"

definition wait_until :: "'w api \<Rightarrow> nat \<Rightarrow> ('w, 'a option) state \<Rightarrow> 'a \<Rightarrow> nat \<Rightarrow> ('w, 'a option) state" where
  "wait_until A poll look timed_out limit = do {
     now \<leftarrow> ap_now A;
     poll_until (polls_within poll limit) A poll look timed_out (now + limit) }"

datatype health_outcome = Healthy | Settled | HealthTimedOut

definition look_healthy :: "'w api \<Rightarrow> string \<Rightarrow> ('w, health_outcome option) state" where
  "look_healthy A name = do {
     r \<leftarrow> inspect_health A name;
     State_Monad.return (case r of
         Inr (Some status) \<Rightarrow>
           if status = ''healthy'' then Some Healthy else if status = ''unhealthy'' then Some Settled else None
       | Inr None \<Rightarrow> Some Settled
       | Inl _ \<Rightarrow> None) }"

definition HEALTH_POLL :: nat where "HEALTH_POLL = secs 2"

definition wait_for_healthy :: "'w api \<Rightarrow> string \<Rightarrow> nat \<Rightarrow> ('w, health_outcome option) state" where
  "wait_for_healthy A name limit = wait_until A HEALTH_POLL (look_healthy A name) HealthTimedOut limit"

datatype task_outcome = Completed | Failed "int option" | TaskTimedOut

definition look_exited :: "'w api \<Rightarrow> string \<Rightarrow> ('w, task_outcome option) state" where
  "look_exited A name = do {
     r \<leftarrow> inspect_status A name;
     State_Monad.return (case r of
         Inr None \<Rightarrow> Some (Failed None)
       | Inr (Some s) \<Rightarrow>
           if cts_status s \<noteq> ''running'' \<and> cts_status s \<noteq> ''created''
           then Some (if cts_exit_code s = Some 0 then Completed else Failed (cts_exit_code s))
           else None
       | Inl _ \<Rightarrow> None) }"

definition EXIT_POLL :: nat where "EXIT_POLL = 500000000"

definition wait_for_exit :: "'w api \<Rightarrow> string \<Rightarrow> nat \<Rightarrow> ('w, task_outcome option) state" where
  "wait_for_exit A name limit = wait_until A EXIT_POLL (look_exited A name) TaskTimedOut limit"

section \<open>A clock that moves on\<close>

text \<open>
  What the waits rely on: reading the clock gives the time of the call, no call takes time back, and a sleep
  lasts at least as long as it was asked to (\<open>tokio::time::sleep\<close>).
\<close>

definition passes :: "('w \<Rightarrow> nat) \<Rightarrow> ('w, 'a) state \<Rightarrow> bool" where
  "passes time m = (\<forall>w. time w \<le> time (snd (run_state m w)))"

definition clocked :: "'w api \<Rightarrow> ('w \<Rightarrow> nat) \<Rightarrow> bool" where
  "clocked A time \<longleftrightarrow>
     (\<forall>w. time w \<le> fst (run_state (ap_now A) w) \<and>
          fst (run_state (ap_now A) w) \<le> time (snd (run_state (ap_now A) w))) \<and>
     (\<forall>d w. time w + d \<le> time (snd (run_state (ap_sleep A d) w))) \<and>
     (\<forall>name. passes time (ap_inspect_container A name))"

lemma passesD: "passes time m \<Longrightarrow> run_state m w = (r, w') \<Longrightarrow> time w \<le> time w'"
  unfolding passes_def by (metis snd_conv)

lemma clocked_now: "clocked A time \<Longrightarrow> run_state (ap_now A) w = (t, w') \<Longrightarrow> time w \<le> t \<and> t \<le> time w'"
  unfolding clocked_def by (metis fst_conv snd_conv)

lemma clocked_sleep: "clocked A time \<Longrightarrow> run_state (ap_sleep A d) w = (r, w') \<Longrightarrow> time w + d \<le> time w'"
  unfolding clocked_def by (metis snd_conv)

lemma passes_bind_return: "passes time m \<Longrightarrow> passes time (do { r \<leftarrow> m; State_Monad.return (f r) })"
  by (simp add: passes_def split: prod.splits) (metis snd_conv)

lemma passes_inspect: "clocked A time \<Longrightarrow> passes time (inspect_engine A name)"
  by (auto simp: clocked_def passes_def inspect_engine_def split: prod.splits sum.splits docker_error.splits)
    (metis snd_conv)+

lemma passes_and_then_ok: "passes time m \<Longrightarrow> passes time (and_then m (\<lambda>x. ok (f x)))"
  by (simp add: passes_def run_and_then split: prod.splits sum.splits) (metis snd_conv)

lemma passes_looks:
  assumes "clocked A time"
  shows "passes time (look_healthy A name)" "passes time (look_exited A name)"
  unfolding look_healthy_def look_exited_def inspect_health_def inspect_status_def
  by (intro passes_bind_return passes_and_then_ok passes_inspect [OF assms])+

text \<open>
  Every poll but the last sleeps a whole interval or up to the deadline; a wait that times out has lasted to
  its deadline, and any other outcome is what the last look saw.
\<close>

lemma poll_until_ends:
  assumes clock: "clocked A time" and look: "passes time look" and poll: "0 < poll"
  shows "deadline \<le> time w + k * poll \<Longrightarrow>
    \<exists>r w'. run_state (poll_until (Suc k) A poll look out deadline) w = (Some r, w') \<and>
      (deadline \<le> time w' \<or> (\<exists>v. run_state look v = (Some r, w')))"
proof (induction k arbitrary: w)
  case 0
  obtain seen w1 where l: "run_state look w = (seen, w1)" by fastforce
  obtain t w2 where n: "run_state (ap_now A) w1 = (t, w2)" by fastforce
  have t: "time w1 \<le> t" "t \<le> time w2" using clocked_now [OF clock n] by auto
  have "time w \<le> time w1" by (rule passesD [OF look l])
  with 0 t have "deadline - t = 0" "deadline \<le> time w2" by simp_all
  then show ?case using l n by (cases seen) auto
next
  case (Suc k)
  obtain seen w1 where l: "run_state look w = (seen, w1)" by fastforce
  show ?case
  proof (cases seen)
    case (Some r)
    with l show ?thesis by auto
  next
    case None
    obtain t w2 where n: "run_state (ap_now A) w1 = (t, w2)" by fastforce
    have t: "time w1 \<le> t" "t \<le> time w2" using clocked_now [OF clock n] by auto
    have w: "time w \<le> time w1" by (rule passesD [OF look l])
    show ?thesis
    proof (cases "deadline - t = 0")
      case True
      with t have "deadline \<le> time w2" by simp
      with l None n True show ?thesis by auto
    next
      case False
      obtain u w3 where s: "run_state (ap_sleep A (min poll (deadline - t))) w2 = (u, w3)" by (meson surj_pair)
      have "time w2 + min poll (deadline - t) \<le> time w3" by (rule clocked_sleep [OF clock s])
      then have "deadline \<le> time w3 + k * poll" using Suc.prems t w by (auto simp: min_def split: if_splits)
      from Suc.IH [OF this] l None n False s show ?thesis by simp
    qed
  qed
qed

lemma wait_until_ends:
  assumes clock: "clocked A time" and look: "passes time look" and poll: "0 < poll"
  shows "\<exists>r w'. run_state (wait_until A poll look out limit) w = (Some r, w') \<and>
    (time w + limit \<le> time w' \<or> (\<exists>v. run_state look v = (Some r, w')))"
proof -
  obtain t w1 where n: "run_state (ap_now A) w = (t, w1)" by fastforce
  have t: "time w \<le> t" "t \<le> time w1" using clocked_now [OF clock n] by auto
  have "limit \<le> (limit div poll + 1) * poll"
    using poll by (metis add.commute add_mult_distrib div_mult_mod_eq less_imp_le_nat mod_less_divisor mult_1
      nat_add_left_cancel_le)
  then have "t + limit \<le> time w1 + (limit div poll + 1) * poll" using t by simp
  from poll_until_ends [OF clock look poll this, of out] obtain r w' where
    "run_state (poll_until (polls_within poll limit) A poll look out (t + limit)) w1 = (Some r, w')"
    "t + limit \<le> time w' \<or> (\<exists>v. run_state look v = (Some r, w'))"
    by (auto simp: polls_within_def)
  with n t show ?thesis by (fastforce simp: wait_until_def)
qed

lemma poll_positive: "0 < HEALTH_POLL" "0 < EXIT_POLL"
  by (simp_all add: HEALTH_POLL_def EXIT_POLL_def)

end
