(* ===== verification/Docker_Net.thy ===== *)
theory Docker_Net
  imports Docker_Client
begin

text \<open>
  The environment's network (\<open>src/docker/network.rs\<close>): created, read back and created again with the subnet
  Docker picked, so that the lower half of it stays free for the sidecar (\<open>Layout\<close>).
\<close>

unbundle bit_operations_syntax

section \<open>IPv4 texts\<close>

definition parse_octet :: "string \<Rightarrow> nat option" where
  "parse_octet s =
     (if s \<noteq> [] \<and> length s \<le> 3 \<and> list_all is_digit s \<and> (hd s = CHR ''0'' \<longrightarrow> length s = 1) \<and> digits_value s < 256
      then Some (digits_value s) else None)"

definition parse_ipv4 :: "string \<Rightarrow> ip option" where
  "parse_ipv4 s =
     (case map parse_octet (split_char s (CHR ''.'')) of
        [Some a, Some b, Some c, Some d] \<Rightarrow> Some (ipv4 a b c d)
      | _ \<Rightarrow> None)"

section \<open>The layout of a subnet\<close>

record layout =
  ly_sidecar :: string
  ly_dynamic_range :: string

definition layout_of :: "string \<Rightarrow> layout option" where
  "layout_of subnet =
     (case split_once subnet (CHR ''/'') of
        None \<Rightarrow> None
      | Some (b, p) \<Rightarrow>
          (case (parse_ipv4 b, parse_u32 p) of
             (Some base, Some prefix) \<Rightarrow>
               if \<not> (1 \<le> prefix \<and> prefix \<le> 29) then None
               else let size = push_bit (unat (32 - prefix)) (1 :: 32 word);
                        base = base AND NOT (size - 1)
                    in Some \<lparr>ly_sidecar = show_ip (base + 2),
                             ly_dynamic_range = show_ip (base + size div 2) @ ''/'' @ show_nat (unat (prefix + 1))\<rparr>
           | _ \<Rightarrow> None))"

section \<open>Networks\<close>

datatype created = New | AlreadyThere

definition create_network :: "'w api \<Rightarrow> network_request \<Rightarrow> ('w, created) fallible" where
  "create_network A request = do {
     r \<leftarrow> ap_create_network A request;
     case r of
       Inr _ \<Rightarrow> ok New
     | Inl (ServerError status m) \<Rightarrow>
         if status = 409 then ok AlreadyThere else fails (''docker create_network failed: '' @ m)
     | Inl (OtherError m) \<Rightarrow> fails (''docker create_network failed: '' @ m) }"

definition config_layout :: "ipam_config \<Rightarrow> layout option" where
  "config_layout c = (case ic_subnet c of Some s \<Rightarrow> layout_of s | None \<Rightarrow> None)"

definition ipv4_config :: "'w api \<Rightarrow> string \<Rightarrow> ('w, ipam_config option) fallible" where
  "ipv4_config A network =
     and_then (engine ''docker inspect_network failed'' (ap_inspect_network A network)) (\<lambda>r.
       ok (find (\<lambda>c. config_layout c \<noteq> None) (case r of Some cs \<Rightarrow> cs | None \<Rightarrow> [])))"

definition network_labels :: "string \<Rightarrow> (string, string) btree" where
  "network_labels project =
     bt_insert ''com.docker.compose.project'' project (bt_insert ''com.docker.compose.network'' ''default'' [])"

definition pinned_request :: "network_request \<Rightarrow> ipam_config \<Rightarrow> layout \<Rightarrow> network_request" where
  "pinned_request request picked layout = request\<lparr>nr_ipam := Some
     [\<lparr>ic_subnet = ic_subnet picked, ic_gateway = ic_gateway picked, ic_ip_range = Some (ly_dynamic_range layout)\<rparr>]\<rparr>"

definition ensure_network :: "'w api \<Rightarrow> string \<Rightarrow> string \<Rightarrow> ('w, unit) fallible" where
  "ensure_network A name project =
     (let request = \<lparr>nr_name = name, nr_labels = network_labels project, nr_ipam = None\<rparr> in
      and_then (create_network A request) (\<lambda>c.
        case c of
          AlreadyThere \<Rightarrow> ok ()
        | New \<Rightarrow>
            and_then (ipv4_config A name) (\<lambda>picked.
              case picked of
                None \<Rightarrow> ok ()
              | Some picked \<Rightarrow>
                  (case config_layout picked of
                     None \<Rightarrow> ok ()
                   | Some layout \<Rightarrow> do {
                       _ \<leftarrow> ap_remove_network A name;
                       r \<leftarrow> create_network A (pinned_request request picked layout);
                       case r of
                         Inr _ \<Rightarrow> ok ()
                       | Inl _ \<Rightarrow> and_then (create_network A request) (\<lambda>_. ok ()) }))))"

definition sidecar_address :: "'w api \<Rightarrow> string \<Rightarrow> ('w, string option) fallible" where
  "sidecar_address A network =
     and_then (ipv4_config A network) (\<lambda>c. ok (case c of
        None \<Rightarrow> None
      | Some config \<Rightarrow> (case config_layout config of
          None \<Rightarrow> None
        | Some layout \<Rightarrow>
            if ic_ip_range config = Some (ly_dynamic_range layout) then Some (ly_sidecar layout) else None)))"

section \<open>Addresses in a subnet\<close>

lemma show_nat_small: "n < 10 \<Longrightarrow> show_nat n = [char_of (48 + n)]"
  by (subst show_nat.simps) simp

lemma show_nat_large: "\<not> n < 10 \<Longrightarrow> show_nat n = show_nat (n div 10) @ [char_of (48 + n mod 10)]"
  by (subst show_nat.simps) simp

lemma hd_show_nat: "0 < n \<Longrightarrow> hd (show_nat n) \<noteq> CHR ''0''"
proof (induction n rule: less_induct)
  case (less n)
  show ?case
  proof (cases "n < 10")
    case True
    moreover have "code (CHR ''0'') = 48" by (simp add: code_def)
    moreover have "code (char_of (48 + n)) = 48 + n" using True by simp
    ultimately have "char_of (48 + n) \<noteq> CHR ''0''" using less.prems by force
    with True show ?thesis by (simp add: show_nat_small)
  next
    case False
    then have "hd (show_nat (n div 10)) \<noteq> CHR ''0''" by (intro less.IH) auto
    with False show ?thesis by (simp add: show_nat_large)
  qed
qed

lemma length_show_nat: "n < 1000 \<Longrightarrow> length (show_nat n) \<le> 3"
proof -
  have two: "length (show_nat n) \<le> 2" if "n < 100" for n
    by (cases "n < 10") (use that in \<open>simp_all add: show_nat_small show_nat_large\<close>)
  show "n < 1000 \<Longrightarrow> length (show_nat n) \<le> 3"
    by (cases "n < 10") (use two [of "n div 10"] in \<open>simp_all add: show_nat_small show_nat_large\<close>)
qed

lemma parse_octet_show [simp]: "n < 256 \<Longrightarrow> parse_octet (show_nat n) = Some n"
proof (cases "n = 0")
  case True
  have "parse_octet (show_nat 0) = Some (digits_value (show_nat 0))"
    using show_nat_digits [of 0] by (simp add: parse_octet_def length_show_nat) (simp add: show_nat_small)
  with True show ?thesis by simp
qed (simp add: parse_octet_def show_nat_digits hd_show_nat length_show_nat)

lemma octets_less: "n \<in> set (octets i) \<Longrightarrow> n < 256"
proof -
  have "unat i < 2 ^ 32" using unsigned_less [of i] by simp
  then have "unat i div 16777216 < 256" by simp
  then show "n \<in> set (octets i) \<Longrightarrow> n < 256" by (auto simp: octets_def Let_def)
qed

lemma ipv4_octets: "ipv4 (octets i ! 0) (octets i ! 1) (octets i ! 2) (octets i ! 3) = i"
proof -
  let ?n = "unat i"
  have "((?n div 16777216 * 256 + ?n div 65536 mod 256) * 256 + ?n div 256 mod 256) * 256 + ?n mod 256 = ?n"
  proof -
    have a: "?n div 16777216 = ?n div 256 div 256 div 256" "?n div 65536 = ?n div 256 div 256"
      by (simp_all add: div_mult2_eq [symmetric])
    show ?thesis unfolding a by (metis div_mult_mod_eq)
  qed
  then show ?thesis by (simp add: ipv4_def octets_def Let_def)
qed

lemma split_digits: "list_all is_digit s \<Longrightarrow> \<forall>x\<in>set s. \<not> x = CHR ''.''"
  by (auto simp: list_all_iff is_digit_def code_def)

lemma parse_show_ip: "parse_ipv4 (show_ip i) = Some i"
proof -
  obtain a b c d where abcd: "octets i = [a, b, c, d]" by (simp add: octets_def Let_def)
  have lt: "a < 256" "b < 256" "c < 256" "d < 256" using octets_less [of _ i] abcd by auto
  have sep: "\<forall>x\<in>set (show_nat n). \<not> x = CHR ''.''" for n by (rule split_digits [OF show_nat_digits])
  have "split_char (show_ip i) (CHR ''.'') = [show_nat a, show_nat b, show_nat c, show_nat d]"
    by (simp add: show_ip_def abcd split_on_append [OF _ sep] split_on_none [OF sep])
  then show ?thesis using lt ipv4_octets [of i] by (simp add: parse_ipv4_def abcd)
qed

end
