(* ===== verification/Start_Node.thy ===== *)
theory Start_Node
  imports Sidecar_Files Waiting Docker_Net Routing
begin

text \<open>
  Starting, restarting, stopping and removing one node's container (\<open>src/orchestrator/start_node.rs\<close>,
  \<open>lifecycle.rs\<close>), the records of seeds (\<open>seeds.rs\<close>) and the sidecar (\<open>sidecar.rs\<close>). The locks per node and
  the capture of logs, which runs beside the start, are not modelled.
\<close>

record start_context =
  sc_network :: string
  sc_sidecar_ip :: "string option"
  sc_budget :: run_budget
  sc_debug_wait :: bool
  sc_wait_ready :: bool

section \<open>Before the start\<close>

definition debug_wait_overrides :: "node_spec \<Rightarrow> node \<Rightarrow> bool \<Rightarrow> string list \<times> healthcheck option" where
  "debug_wait_overrides spec n debug_wait =
     (if debug_wait then (sp_env spec @ [''FGHJ_DEBUG_WAIT=1''], None)
      else (sp_env spec, n_healthcheck n))"

definition show_bool :: "bool \<Rightarrow> string" where
  "show_bool b = (if b then ''true'' else ''false'')"

definition insert_some :: "string \<Rightarrow> string option \<Rightarrow> (string, string) btree \<Rightarrow> (string, string) btree" where
  "insert_some k v m = (case v of Some x \<Rightarrow> bt_insert k x m | None \<Rightarrow> m)"

definition start_labels :: "node \<Rightarrow> string \<Rightarrow> (string, string) btree" where
  "start_labels n config_hash =
     (let labels = bt_insert ''fghj.config_hash'' config_hash (n_labels n)
      in case build_checkout n of
           None \<Rightarrow> labels
         | Some c \<Rightarrow> bt_insert ''fghj.source_dirty'' (show_bool (ck_dirty c))
                       (insert_some ''fghj.source_head'' (ck_head c)
                         (insert_some ''fghj.source_branch'' (ck_branch c) labels)))"

definition start_opts :: "node \<Rightarrow> node_spec \<Rightarrow> start_context \<Rightarrow> string \<Rightarrow> run_opts" where
  "start_opts n spec start config_hash =
     (let (env, healthcheck) = debug_wait_overrides spec n (sc_debug_wait start) in
      \<lparr>ro_name = sp_container_name spec, ro_network = sc_network start, ro_aliases = sp_aliases spec,
       ro_ipv4_address = None, ro_env = env, ro_ports = sp_port_list spec, ro_image = sp_image spec,
       ro_command = n_command n, ro_project = sc_network start, ro_service_name = n_id n,
       ro_binds = sp_binds spec, ro_restart_policy = n_restart n, ro_stop_signal = n_stop_signal n,
       ro_stop_grace_period = n_stop_grace_period n, ro_user = n_user n, ro_working_dir = n_working_dir n,
       ro_labels = start_labels n config_hash, ro_cap_add = n_cap_add n, ro_cap_drop = n_cap_drop n,
       ro_privileged = n_privileged n, ro_extra_hosts = n_extra_hosts n,
       ro_dns = (case sc_sidecar_ip start of Some ip \<Rightarrow> [ip, ''127.0.0.11''] | None \<Rightarrow> []),
       ro_healthcheck = healthcheck, ro_platform = n_platform n\<rparr>)"

definition status_port_of :: "node \<Rightarrow> string option" where
  "status_port_of n =
     (case find (\<lambda>(p, cfg). pc_primary cfg) (n_ports n) of
        Some (p, _) \<Rightarrow> Some p
      | None \<Rightarrow> (case n_ports n of (p, _) # _ \<Rightarrow> Some p | [] \<Rightarrow> None))"

section \<open>Routes of a started container\<close>

definition inspected_port :: "container_status option \<Rightarrow> string \<Rightarrow> port option" where
  "inspected_port inspected p = (case inspected of Some s \<Rightarrow> host_port_of s p | None \<Rightarrow> None)"

definition route_to :: "string \<Rightarrow> port \<Rightarrow> bool \<Rightarrow> string \<Rightarrow> port_route" where
  "route_to domain host_port wildcard container_port =
     \<lparr>pr_domain = domain, pr_host_port = host_port, pr_wildcard = wildcard,
      pr_container_port = container_port, pr_https = cert_eligible domain True\<rparr>"

definition port_routes :: "string \<Rightarrow> (string, port option) btree \<Rightarrow> string \<times> port_config \<Rightarrow> port_route list" where
  "port_routes domain host_ports p =
     (let (container_port, cfg) = p in
      if \<not> pc_primary cfg \<and> pc_name cfg = None then []
      else case map_of host_ports container_port of
        Some (Some host_port) \<Rightarrow>
          (if pc_primary cfg then [route_to domain host_port (pc_wildcard cfg) container_port] else []) @
          (case pc_name cfg of
             Some name \<Rightarrow> [route_to (name @ ''.'' @ domain) host_port (pc_wildcard cfg) container_port]
           | None \<Rightarrow> [])
      | _ \<Rightarrow> [])"

definition alias_routes :: "node \<Rightarrow> port_route \<Rightarrow> port_route list" where
  "alias_routes n r =
     map (\<lambda>host. route_to host (pr_host_port r) False (pr_container_port r)) (n_additional_hosts n) @
     map (\<lambda>suffix. route_to suffix (pr_host_port r) True (pr_container_port r)) (n_wildcard_hosts n)"

definition start_routes :: "node \<Rightarrow> string \<Rightarrow> (string, port option) btree \<Rightarrow> port_route list \<times> string list" where
  "start_routes n domain host_ports =
     (let routes = concat (map (port_routes domain host_ports) (n_ports n))
      in case find (\<lambda>r. pr_domain r = domain) routes of
           None \<Rightarrow> (routes, [])
         | Some r \<Rightarrow> (routes @ alias_routes n r, n_additional_hosts n))"

section \<open>Waiting for a started container\<close>

definition show_secs :: "nat \<Rightarrow> string" where
  "show_secs d = show_nat (d div secs 1)"

definition task_failure :: "task_outcome \<Rightarrow> bool \<Rightarrow> nat \<Rightarrow> string option" where
  "task_failure outcome spent left = (case outcome of
     Completed \<Rightarrow> None
   | Failed (Some x) \<Rightarrow> Some (''task exited with code '' @ show_int x)
   | Failed None \<Rightarrow> Some ''task container disappeared before it reported an exit code''
   | TaskTimedOut \<Rightarrow>
       Some (if spent then ''the run's task budget is spent; this task was never waited on''
             else ''task was still running after '' @ show_secs left @ ''s; a task is expected to exit''))"

definition exit_code_of :: "task_outcome \<Rightarrow> int option" where
  "exit_code_of outcome = (case outcome of Completed \<Rightarrow> Some 0 | Failed x \<Rightarrow> x | TaskTimedOut \<Rightarrow> None)"

text \<open>The status and exit code of a task that has finished well.\<close>

definition await_task ::
  "'w api \<Rightarrow> node \<Rightarrow> string \<Rightarrow> run_budget \<Rightarrow> string \<Rightarrow> ('w host, string \<times> int option) fallible" where
  "await_task A n name budget status = do {
     _ \<leftarrow> ev_running A (n_id n) ''start'' ''waiting for exit'';
     left \<leftarrow> world (allowance A (rb_tasks budget));
     spent \<leftarrow> world (is_exhausted A (rb_tasks budget));
     outcome \<leftarrow> (if spent then State_Monad.return (Some TaskTimedOut) else world (wait_for_exit A name left));
     let outcome = (case outcome of Some x \<Rightarrow> x | None \<Rightarrow> TaskTimedOut) in
     case task_failure outcome spent left of
       Some failure \<Rightarrow> do {
         _ \<leftarrow> ev_failed A (n_id n) ''start'' ''waiting for exit'' failure;
         fails (''task '' @ n_id n @ '' failed: '' @ failure) }
     | None \<Rightarrow> do {
         _ \<leftarrow> ev_ok A (n_id n) ''start'' ''waiting for exit'';
         ok ((if outcome \<noteq> TaskTimedOut then ''exited'' else status), exit_code_of outcome) } }"

definition health_detail :: "health_outcome \<Rightarrow> bool \<Rightarrow> nat \<Rightarrow> string option" where
  "health_detail outcome spent left = (case outcome of
     Healthy \<Rightarrow> None
   | Settled \<Rightarrow> Some ''container settled without reporting healthy; continuing''
   | HealthTimedOut \<Rightarrow>
       Some (if spent then ''the run's health-wait budget is spent; not waiting on this node''
             else ''gave up after '' @ show_secs left @ ''s without a healthy report; continuing''))"

definition wait_healthy :: "'w api \<Rightarrow> string \<Rightarrow> string \<Rightarrow> run_budget \<Rightarrow> ('w host, unit) state" where
  "wait_healthy A node name budget = do {
     _ \<leftarrow> ev_running A node ''start'' ''waiting for healthcheck'';
     left \<leftarrow> world (allowance A (rb_health budget));
     spent \<leftarrow> world (is_exhausted A (rb_health budget));
     outcome \<leftarrow> (if spent then State_Monad.return (Some HealthTimedOut) else world (wait_for_healthy A name left));
     ev_record A node ''start'' ''waiting for healthcheck'' ''ok''
       (health_detail (case outcome of Some x \<Rightarrow> x | None \<Rightarrow> HealthTimedOut) spent left) }"

section \<open>Starting a node\<close>

definition started_info ::
  "node \<Rightarrow> node_spec \<Rightarrow> string \<Rightarrow> bool \<Rightarrow> container_status option \<Rightarrow> string \<Rightarrow> int option \<Rightarrow> container_info" where
  "started_info n spec config_hash debug_wait inspected status exit_code =
     (let host_ports = bt_of_list (map (\<lambda>(p, _). (p, inspected_port inspected p)) (sp_port_list spec));
          (routes, hosts) = start_routes n (sp_domain spec) host_ports
      in \<lparr>ci_node_id = n_id n,
          ci_desired =
            \<lparr>cd_running = (n_kind n \<noteq> ''task''), cd_container_name = sp_container_name spec,
             cd_domain = sp_domain spec, cd_raw_domain = sp_raw_domain spec, cd_routes = routes,
             cd_additional_hosts = hosts, cd_status_port = status_port_of n, cd_config_hash = config_hash,
             cd_source = map_option (\<lambda>c. \<lparr>cs_branch = ck_branch c, cs_head = ck_head c, cs_dirty = ck_dirty c\<rparr>)
               (build_checkout n),
             cd_terminating = (n_kind n = ''task''), cd_debug_wait = debug_wait\<rparr>,
          ci_observed =
            \<lparr>co_status = status,
             co_published_port = (case status_port_of n of Some p \<Rightarrow> inspected_port inspected p | None \<Rightarrow> None),
             co_ports = host_ports, co_sync = Synced, co_exit_code = exit_code, co_interrupted = False,
             co_unseen = False, co_seeded = None\<rparr>,
          ci_pending_action = None\<rparr>)"

text \<open>A step that narrates its start, its end or its failure.\<close>

definition narrated :: "'w api \<Rightarrow> string \<Rightarrow> string \<Rightarrow> ('w, 'a) fallible \<Rightarrow> ('w host, 'a) fallible" where
  "narrated A node step m = do {
     _ \<leftarrow> ev_running A node ''start'' step;
     r \<leftarrow> world m;
     case r of
       Inl e \<Rightarrow> do { _ \<leftarrow> ev_failed A node ''start'' step e; fails e }
     | Inr x \<Rightarrow> do { _ \<leftarrow> ev_ok A node ''start'' step; ok x } }"

definition resolved_for_start ::
  "'w api \<Rightarrow> orchestrator \<Rightarrow> graph \<Rightarrow> node \<Rightarrow> ('w host, node_spec) fallible" where
  "resolved_for_start A orc g n = do {
     _ \<leftarrow> ev_begin A (n_id n) ''start'';
     _ \<leftarrow> ev_running A (n_id n) ''start'' ''resolving config'';
     r \<leftarrow> world (resolve_node_spec A orc g n True);
     case r of
       Inl e \<Rightarrow> do { _ \<leftarrow> ev_failed_unless_reported A (n_id n) ''start'' ''resolving config'' e; fails e }
     | Inr spec \<Rightarrow> do { _ \<leftarrow> ev_ok A (n_id n) ''start'' ''resolving config''; ok spec } }"

definition pulled_image :: "'w api \<Rightarrow> node \<Rightarrow> node_spec \<Rightarrow> ('w host, unit) fallible" where
  "pulled_image A n spec = do {
     r \<leftarrow> world (ap_image_is_local A (sp_image spec));
     if r = Inr False
     then narrated A (n_id n) (''pulling '' @ sp_image spec) (ap_pull_image A (sp_image spec) (n_platform n))
     else ok () }"

definition start_node_up ::
  "'w api \<Rightarrow> orchestrator \<Rightarrow> graph \<Rightarrow> node \<Rightarrow> start_context \<Rightarrow> ('w host, container_info) fallible" where
  "start_node_up A orc g n start =
     and_then (resolved_for_start A orc g n) (\<lambda>spec.
     let config_hash = spec_hash A n spec in
     and_then (pulled_image A n spec) (\<lambda>_.
     and_then (narrated A (n_id n) ''creating container'' (run_container A (start_opts n spec start config_hash))) (\<lambda>_.
     and_then (world (inspect_status A (sp_container_name spec))) (\<lambda>inspected.
     let status = (case inspected of Some s \<Rightarrow> cts_status s | None \<Rightarrow> ''unknown'') in
     and_then
       (if n_kind n = ''task''
        then await_task A n (sp_container_name spec) (sc_budget start) status
        else if n_healthcheck n \<noteq> None \<and> sc_wait_ready start
        then do { _ \<leftarrow> wait_healthy A (n_id n) (sp_container_name spec) (sc_budget start); ok (status, None) }
        else ok (status, None)) (\<lambda>(status, exit_code). do {
       _ \<leftarrow> ev_ok A (n_id n) ''start'' ''ready'';
       ok (started_info n spec config_hash (sc_debug_wait start) inspected status exit_code) })))))"

section \<open>Restarting, stopping, removing\<close>

definition moved_route :: "container_status \<Rightarrow> port_route \<Rightarrow> port_route" where
  "moved_route s r = (case host_port_of s (pr_container_port r) of Some p \<Rightarrow> r\<lparr>pr_host_port := p\<rparr> | None \<Rightarrow> r)"

definition reinspected :: "container_info \<Rightarrow> container_status option \<Rightarrow> container_info" where
  "reinspected info inspected =
     (let info = info\<lparr>ci_pending_action := None\<rparr> in
      case inspected of
        None \<Rightarrow> info
      | Some s \<Rightarrow>
          (let d = ci_desired info; r = ci_observed info in
           info\<lparr>ci_desired := d\<lparr>cd_routes := map (moved_route s) (cd_routes d)\<rparr>,
                ci_observed := r\<lparr>co_ports := bt_map (\<lambda>p _. host_port_of s p) (co_ports r),
                  co_published_port := (case cd_status_port d of Some p \<Rightarrow> host_port_of s p
                                        | None \<Rightarrow> co_published_port r),
                  co_status := cts_status s\<rparr>\<rparr>))"

definition restart_in_place ::
  "'w api \<Rightarrow> node \<Rightarrow> container_info \<Rightarrow> string \<Rightarrow> run_budget \<Rightarrow> bool \<Rightarrow> ('w host, container_info) fallible" where
  "restart_in_place A n existing why budget wait_ready =
     (let name = cd_container_name (ci_desired existing) in do {
        _ \<leftarrow> ev_begin A (n_id n) ''start'';
        _ \<leftarrow> ev_record A (n_id n) ''start'' ''restarting container'' ''running'' (Some why);
        r \<leftarrow> world (restart_engine_container A name);
        case r of
          Inl e \<Rightarrow> do { _ \<leftarrow> ev_failed A (n_id n) ''start'' ''restarting container'' e; fails e }
        | Inr _ \<Rightarrow> do {
            _ \<leftarrow> ev_ok A (n_id n) ''start'' ''restarting container'';
            _ \<leftarrow> (if n_healthcheck n \<noteq> None \<and> wait_ready \<and> \<not> cd_debug_wait (ci_desired existing)
                 then wait_healthy A (n_id n) name budget else State_Monad.return ());
            _ \<leftarrow> ev_ok A (n_id n) ''start'' ''ready'';
            and_then (world (inspect_status A name)) (\<lambda>inspected. ok (reinspected existing inspected)) } })"

definition stop_node :: "'w api \<Rightarrow> string \<Rightarrow> container_info \<Rightarrow> ('w host, container_info) fallible" where
  "stop_node A node container =
     (let name = cd_container_name (ci_desired container) in do {
        _ \<leftarrow> ev_begin A node ''stop'';
        _ \<leftarrow> ev_running A node ''stop'' ''stopping container'';
        _ \<leftarrow> world (stop_engine_container A name);
        r \<leftarrow> world (inspect_status A name);
        let status = (case r of Inr (Some s) \<Rightarrow> cts_status s | _ \<Rightarrow> ''exited'') in do {
          _ \<leftarrow> ev_ok A node ''stop'' ''stopping container'';
          ok (container\<lparr>ci_desired := (ci_desired container)\<lparr>cd_running := False\<rparr>,
                ci_observed := (ci_observed container)\<lparr>co_status := status\<rparr>,
                ci_pending_action := None\<rparr>) } })"

definition remove_node :: "'w api \<Rightarrow> string \<Rightarrow> container_info \<Rightarrow> ('w host, unit) fallible" where
  "remove_node A node container = do {
     _ \<leftarrow> ev_begin A node ''stop'';
     _ \<leftarrow> ev_running A node ''stop'' ''removing container'';
     _ \<leftarrow> world (stop_and_remove A (cd_container_name (ci_desired container)));
     _ \<leftarrow> ev_ok A node ''stop'' ''removing container'';
     ok () }"

section \<open>Seeds\<close>

definition store_data :: "'w api \<Rightarrow> graph \<Rightarrow> string \<Rightarrow> string list \<Rightarrow> ('w, string list) fallible" where
  "store_data A g store parts =
     and_then (data_identity A (container_name (g_workspace_name g) store)) (\<lambda>r.
       case r of
         None \<Rightarrow> fails ''no such container''
       | Some identity \<Rightarrow> ok (parts @ [store @ ''='' @ join '','' identity]))"

definition seeded_data_of :: "'w api \<Rightarrow> graph \<Rightarrow> node \<Rightarrow> ('w, string option) state" where
  "seeded_data_of A g n = do {
     r \<leftarrow> each_ok (store_data A g) (n_seeds n) [];
     State_Monad.return (case r of Inl _ \<Rightarrow> None | Inr parts \<Rightarrow> Some (join '';'' parts)) }"

definition seeded_at :: "'w api \<Rightarrow> graph \<Rightarrow> node \<Rightarrow> ('w host, nat option) state" where
  "seeded_at A g n = do {
     d \<leftarrow> world (seeded_data_of A g n);
     case d of
       None \<Rightarrow> State_Monad.return None
     | Some d \<Rightarrow> do {
         r \<leftarrow> load_seed A (n_id n);
         State_Monad.return (case r of
             Inr (Some seeded) \<Rightarrow> if sd_data seeded = d then Some (sd_at seeded) else None
           | _ \<Rightarrow> None) } }"

definition ago :: "int \<Rightarrow> string" where
  "ago s =
     (if s < 60 then ''just now''
      else let (n, unit_of) = (if s < 3600 then (s div 60, ''minute'')
                               else if s < 86400 then (s div 3600, ''hour'') else (s div 86400, ''day''))
           in show_int n @ '' '' @ unit_of @ (if n = 1 then [] else ''s'') @ '' ago'')"

definition already_seeded :: "'w api \<Rightarrow> graph \<Rightarrow> node \<Rightarrow> ('w host, bool) state" where
  "already_seeded A g n = do {
     at \<leftarrow> seeded_at A g n;
     case at of
       None \<Rightarrow> State_Monad.return False
     | Some at \<Rightarrow> do {
         _ \<leftarrow> ev_begin A (n_id n) ''start'';
         now \<leftarrow> world (ap_unix_ms A);
         _ \<leftarrow> ev_record A (n_id n) ''start'' ''seeding'' ''ok''
               (Some (''skipped: '' @ join '', '' (n_seeds n) @ '' still hold'' @
                  (if length (n_seeds n) = 1 then ''s'' else []) @ '' the data this seeded '' @
                  ago (int (now div 1000) - int at)));
         State_Monad.return True } }"

definition record_seeded :: "'w api \<Rightarrow> graph \<Rightarrow> node \<Rightarrow> ('w host, bool) state" where
  "record_seeded A g n = do {
     d \<leftarrow> world (seeded_data_of A g n);
     case d of
       None \<Rightarrow> State_Monad.return False
     | Some d \<Rightarrow> do {
         r \<leftarrow> save_seed A (n_id n) d;
         State_Monad.return (case r of Inl _ \<Rightarrow> False | Inr _ \<Rightarrow> True) } }"

section \<open>The sidecar\<close>

definition SIDECAR_SERVICE :: string where "SIDECAR_SERVICE = ''fghj-sidecar''"

definition sidecar_running :: "'w api \<Rightarrow> string \<Rightarrow> ('w, bool) state" where
  "sidecar_running A name = do {
     r \<leftarrow> inspect_status A name;
     State_Monad.return (case r of Inr (Some s) \<Rightarrow> cts_status s = ''running'' | _ \<Rightarrow> False) }"

definition CAPTURE_PORT :: nat where "CAPTURE_PORT = 7480"

definition sidecar_opts :: "orchestrator \<Rightarrow> string \<Rightarrow> string \<Rightarrow> string option \<Rightarrow> string list \<Rightarrow> run_opts" where
  "sidecar_opts orc name network address binds =
     \<lparr>ro_name = name, ro_network = network, ro_aliases = [], ro_ipv4_address = address, ro_env = [],
      ro_ports = [(show_nat CAPTURE_PORT, None)], ro_image = orc_sidecar_image orc, ro_command = [],
      ro_project = network, ro_service_name = SIDECAR_SERVICE, ro_binds = binds,
      ro_restart_policy = ''unless-stopped'', ro_stop_signal = None, ro_stop_grace_period = 2,
      ro_user = None, ro_working_dir = None, ro_labels = [], ro_cap_add = [], ro_cap_drop = [],
      ro_privileged = False, ro_extra_hosts = [], ro_dns = [], ro_healthcheck = None, ro_platform = None\<rparr>"

definition ensure_sidecar_named :: "'w api \<Rightarrow> orchestrator \<Rightarrow> string \<Rightarrow> string \<Rightarrow> ('w, string) fallible" where
  "ensure_sidecar_named A orc name network = do {
     alive \<leftarrow> sidecar_running A name;
     and_then (if alive then inspect_network_ip A name network else ok None) (\<lambda>ip.
       case ip of
         Some ip \<Rightarrow> ok ip
       | None \<Rightarrow>
           and_then (ap_ensure_sidecar_image A) (\<lambda>_.
           and_then (sidecar_address A network) (\<lambda>address.
           and_then (sidecar_binds A orc network) (\<lambda>binds.
           and_then (with_context ''failed to start this run's sidecar proxy''
                       (run_container A (sidecar_opts orc name network address binds))) (\<lambda>_.
           and_then (inspect_network_ip A name network) (\<lambda>ip.
             case ip of
               Some ip \<Rightarrow> ok ip
             | None \<Rightarrow> fails ''sidecar proxy started but has no address on its own network'')))))) }"

definition ensure_sidecar :: "'w api \<Rightarrow> orchestrator \<Rightarrow> string \<Rightarrow> string \<Rightarrow> ('w, string \<times> string) fallible" where
  "ensure_sidecar A orc workspace_name network =
     (let name = sidecar_name workspace_name
      in and_then (ensure_sidecar_named A orc name network) (\<lambda>ip. ok (name, ip)))"

definition restore_sidecar :: "'w api \<Rightarrow> orchestrator \<Rightarrow> env_state \<Rightarrow> ('w, string) fallible" where
  "restore_sidecar A orc env = ensure_sidecar_named A orc (es_sidecar_container_name env) (es_network env)"

section \<open>What a start leaves alone and returns\<close>

lemma keeps_narrated [keeps_intros]: "keeps h_reports (narrated A node step m)"
  unfolding narrated_def by (intro keeps_intros) simp_all

lemma keeps_wait_healthy [keeps_intros]: "keeps h_reports (wait_healthy A node name budget)"
  unfolding wait_healthy_def by (intro keeps_intros) simp_all

lemma keeps_await_task [keeps_intros]: "keeps h_reports (await_task A n name budget status)"
  unfolding await_task_def by (intro keeps_intros) simp_all

lemma keeps_start_node [keeps_intros]: "keeps h_reports (start_node_up A orc g n start)"
  unfolding start_node_up_def resolved_for_start_def pulled_image_def
  by (intro keeps_intros) simp_all

lemma keeps_restart_in_place [keeps_intros]: "keeps h_reports (restart_in_place A n c why budget ready)"
  unfolding restart_in_place_def by (intro keeps_intros) simp_all

lemma keeps_stop_node [keeps_intros]: "keeps h_reports (stop_node A node c)"
  unfolding stop_node_def by (intro keeps_intros) simp_all

lemma keeps_seeds [keeps_intros]:
  "keeps h_reports (already_seeded A g n)" "keeps h_reports (record_seeded A g n)"
  unfolding already_seeded_def record_seeded_def seeded_at_def by (intro keeps_intros; simp)+

lemma start_node_info:
  "yields_ok (start_node_up A orc g n start)
     (\<lambda>info. \<exists>spec inspected status exit_code.
        info = started_info n spec (spec_hash A n spec) (sc_debug_wait start) inspected status exit_code)"
  unfolding start_node_up_def Let_def by (intro yields_intros) auto

lemma restart_info: "yields_ok (restart_in_place A n c why budget ready) (\<lambda>info. \<exists>inspected. info = reinspected c inspected)"
  unfolding restart_in_place_def Let_def by (intro yields_intros) auto

lemma started_info_simps [simp]:
  "ci_node_id (started_info n spec h d i s x) = n_id n"
  "ci_pending_action (started_info n spec h d i s x) = None"
  "cd_config_hash (ci_desired (started_info n spec h d i s x)) = h"
  "cd_container_name (ci_desired (started_info n spec h d i s x)) = sp_container_name spec"
  "cd_running (ci_desired (started_info n spec h d i s x)) = (n_kind n \<noteq> ''task'')"
  by (simp_all add: started_info_def Let_def split: prod.splits)

lemma reinspected_simps [simp]:
  "ci_node_id (reinspected c i) = ci_node_id c" "ci_pending_action (reinspected c i) = None"
  "cd_config_hash (ci_desired (reinspected c i)) = cd_config_hash (ci_desired c)"
  by (simp_all add: reinspected_def Let_def split: option.splits)

end
