(* ===== verification/Order.thy ===== *)
theory Order
  imports Graph
begin

text \<open>
  Start order (\<open>src/orchestrator/order.rs\<close>): rounds that place every node whose start requirements
  are placed, the closures over requirements and dependents, and the book-keeping of failures.
\<close>

section \<open>Rounds\<close>

definition start_deps :: "string list \<Rightarrow> edge list \<Rightarrow> string \<Rightarrow> string set" where
  "start_deps ids edges i =
     e_to ` set (filter (\<lambda>e. needed_to_start e \<and> e_from e \<in> set ids \<and> e_to e \<in> set ids \<and> e_from e = i) edges)"

text \<open>One round: \<open>ordered\<close> grows during the round, so a node may follow one placed in the same round.\<close>

fun topo_round :: "(string \<Rightarrow> string set) \<Rightarrow> string list \<Rightarrow> string list \<Rightarrow> string list \<Rightarrow> string list \<times> string list" where
  "topo_round deps [] ordered later = (ordered, later)"
| "topo_round deps (i # rest) ordered later =
     (if deps i \<subseteq> set ordered then topo_round deps rest (ordered @ [i]) later
      else topo_round deps rest ordered (later @ [i]))"

lemma topo_round_length:
  "topo_round deps rest ordered later = (ordered', later') \<Longrightarrow>
     length ordered' + length later' = length rest + length ordered + length later \<and> length ordered \<le> length ordered'"
  by (induction deps rest ordered later rule: topo_round.induct) (auto split: if_splits)

function topo_rounds :: "(string \<Rightarrow> string set) \<Rightarrow> string list \<Rightarrow> string list \<Rightarrow> string list" where
  "topo_rounds deps remaining ordered =
     (if remaining = [] then ordered
      else case topo_round deps remaining ordered [] of
             (ordered', later) \<Rightarrow>
               if length ordered' = length ordered then ordered' @ later
               else topo_rounds deps later ordered')"
  by pat_completeness auto
termination
  by (relation "measure (\<lambda>(deps, remaining, ordered). length remaining)")
    (auto dest!: topo_round_length [OF sym])

declare topo_rounds.simps [simp del]

definition topological_start_order :: "string list \<Rightarrow> edge list \<Rightarrow> string list" where
  "topological_start_order node_ids edges = topo_rounds (start_deps node_ids edges) (sort node_ids) []"

section \<open>Who waits on whom\<close>

definition waited_on :: "string list \<Rightarrow> edge list \<Rightarrow> string set" where
  "waited_on ids edges =
     e_to ` set (filter (\<lambda>e. needed_to_start e \<and> e_from e \<in> set ids \<and> e_to e \<in> set ids) edges)"

definition closure_order :: "string \<Rightarrow> string pairs \<Rightarrow> edge list \<Rightarrow> string list" where
  "closure_order i directed edges =
     topological_start_order
       (sorted_list_of_set (worklist (filter (\<lambda>p. snd p \<noteq> i) directed) {} [i])) edges"

definition requirements_of :: "string \<Rightarrow> edge list \<Rightarrow> string list" where
  "requirements_of i edges = closure_order i (needed_pairs edges) edges"

definition dependents_of :: "string \<Rightarrow> edge list \<Rightarrow> string list" where
  "dependents_of i edges = closure_order i (map (\<lambda>(a, b). (b, a)) (needed_pairs edges)) edges"

section \<open>Outcomes of a start\<close>

record start_outcomes =
  so_requirements :: "(string, string list) btree"
  so_failed :: "(string, string) btree"
  so_blocked :: "(string, string) btree"

definition push_entry :: "'k::linorder \<Rightarrow> 'v \<Rightarrow> ('k, 'v list) btree \<Rightarrow> ('k, 'v list) btree" where
  "push_entry k v m = bt_insert k ((case map_of m k of None \<Rightarrow> [] | Some vs \<Rightarrow> vs) @ [v]) m"

definition new_outcomes :: "string list \<Rightarrow> edge list \<Rightarrow> start_outcomes" where
  "new_outcomes ids edges =
     \<lparr>so_requirements = fold (\<lambda>e. push_entry (e_from e) (e_to e))
        (filter (\<lambda>e. needed_to_start e \<and> e_from e \<in> set ids \<and> e_to e \<in> set ids) edges) [],
      so_failed = [], so_blocked = []\<rparr>"

definition blocked_by :: "start_outcomes \<Rightarrow> string \<Rightarrow> string option" where
  "blocked_by out i =
     (let reqs = (case map_of (so_requirements out) i of None \<Rightarrow> [] | Some ds \<Rightarrow> ds);
          causes = filter_map (\<lambda>d. if bt_has (so_failed out) d then Some d else map_of (so_blocked out) d) reqs
      in case sort causes of [] \<Rightarrow> None | c # _ \<Rightarrow> Some c)"

definition outcome_fail :: "string \<Rightarrow> string \<Rightarrow> start_outcomes \<Rightarrow> start_outcomes" where
  "outcome_fail i err out = out\<lparr>so_failed := bt_insert i err (so_failed out)\<rparr>"

definition outcome_block :: "string \<Rightarrow> string \<Rightarrow> start_outcomes \<Rightarrow> start_outcomes" where
  "outcome_block i cause out = out\<lparr>so_blocked := bt_insert i cause (so_blocked out)\<rparr>"

definition outcome_error :: "start_outcomes \<Rightarrow> string option" where
  "outcome_error out =
     (if so_failed out = [] then None
      else Some (join [CHR 0x0A] (map (\<lambda>(i, err).
        let victims = map fst (filter (\<lambda>(_, cause). cause = i) (so_blocked out))
        in if victims = [] then i @ '': '' @ err
           else i @ '': '' @ err @ '' (blocked: '' @ join '', '' victims @ '')'') (so_failed out))))"

end
