(* ===== verification/Orchestrate.thy ===== *)
theory Orchestrate
  imports Start_Node Order
begin

text \<open>
  Bringing an environment up (\<open>src/orchestrator/orchestrate.rs\<close>): the one start path behind a create and the
  Start button. It walks the start order, leaves alone what is alive and current, restarts what lost a
  requirement for a moment, starts the rest, and blocks what needs a node that failed. What is printed to the
  daemon's log is left out; an index that fails is an error that starts with \<open>panicked\<close>.
\<close>

section \<open>Decisions\<close>

definition task_already_done :: "node \<Rightarrow> container_info option \<Rightarrow> bool" where
  "task_already_done n prior =
     (n_kind n = ''task'' \<and> n_run_policy n = Some ''once'' \<and>
      (case prior of Some c \<Rightarrow> co_exit_code (ci_observed c) = Some 0 | None \<Rightarrow> False))"

definition top_up_may_skip :: "bool \<Rightarrow> container_info option \<Rightarrow> string option \<Rightarrow> bool" where
  "top_up_may_skip alive existing fresh_hash =
     (alive \<and> (case existing of
        Some e \<Rightarrow> (case fresh_hash of None \<Rightarrow> True | Some h \<Rightarrow> h = cd_config_hash (ci_desired e))
      | None \<Rightarrow> False))"

definition bounced_requirement :: "graph \<Rightarrow> node \<Rightarrow> string set \<Rightarrow> string option" where
  "bounced_requirement g n bounced =
     find (\<lambda>d. d \<in> bounced)
       (map e_to (filter (\<lambda>e. needed_to_start e \<and> e_from e = n_id n) (g_edges g)))"

definition restarts_with :: "env_state \<Rightarrow> string \<Rightarrow> bool" where
  "restarts_with prior i = (case map_of (es_containers prior) i of
     Some c \<Rightarrow> ci_pending_action c = None \<and> \<not> cd_terminating (ci_desired c) \<and> co_status (ci_observed c) = ''running''
   | None \<Rightarrow> False)"

definition restart_targets :: "string \<Rightarrow> graph \<Rightarrow> env_state \<Rightarrow> string list" where
  "restart_targets i g prior =
     requirements_of i (g_edges g) @ [i] @ filter (restarts_with prior) (dependents_of i (g_edges g))"

definition stop_order :: "graph \<Rightarrow> string list \<Rightarrow> env_state \<Rightarrow> string list" where
  "stop_order g keep s =
     rev (topological_start_order
       (map ci_node_id (filter (\<lambda>c. co_status (ci_observed c) = ''running'' \<and> ci_node_id c \<notin> set keep)
         (bt_values (es_containers s)))) (g_edges g))"

section \<open>One node\<close>

record run_vars =
  rv_state :: env_state
  rv_outcomes :: start_outcomes
  rv_recreated :: "string set"
  rv_bounced :: "string set"
  rv_started :: "string list"

record run_context =
  rc_restart :: "string option"
  rc_network :: string
  rc_waited :: "string set"
  rc_budget :: run_budget

definition node_up :: "env_state \<Rightarrow> container_info \<Rightarrow> run_progress" where
  "node_up s info = NodeUp (es_network s) (es_sidecar_container_name s) (es_sidecar_ip s) info"

definition file_container :: "container_info \<Rightarrow> env_state \<Rightarrow> env_state" where
  "file_container info s = s\<lparr>es_containers := bt_insert (ci_node_id info) info (es_containers s)\<rparr>"

definition store_recreated :: "node \<Rightarrow> string set \<Rightarrow> bool" where
  "store_recreated n recreated = (case n_migrates n of Some store \<Rightarrow> store \<in> recreated | None \<Rightarrow> False)"

definition settled_before :: "node \<Rightarrow> string option \<Rightarrow> container_info option \<Rightarrow> string set \<Rightarrow> bool" where
  "settled_before n restart existing recreated =
     (if restart \<noteq> None
      then (case existing of
          Some c \<Rightarrow> ci_pending_action c \<noteq> None \<or>
            n_kind n = ''task'' \<and> co_exit_code (ci_observed c) = Some 0 \<and> \<not> store_recreated n recreated
        | None \<Rightarrow> False)
      else task_already_done n existing)"

definition is_alive :: "'w api \<Rightarrow> string \<Rightarrow> ('w, bool) state" where
  "is_alive A name = sidecar_running A name"

definition fresh_hash ::
  "'w api \<Rightarrow> orchestrator \<Rightarrow> graph \<Rightarrow> node \<Rightarrow> ('w, string option) state" where
  "fresh_hash A orc g n = do {
     r \<leftarrow> resolve_node_spec A orc g n False;
     State_Monad.return (case r of Inr spec \<Rightarrow> Some (spec_hash A n spec) | Inl _ \<Rightarrow> None) }"

definition record_blocked :: "'w api \<Rightarrow> string \<Rightarrow> string \<Rightarrow> ('w host, unit) state" where
  "record_blocked A i by = do {
     _ \<leftarrow> ev_begin A i ''start'';
     ev_failed A i ''start'' ''blocked'' (''blocked by '' @ by @ '': it failed, and this can't start without it'') }"

definition node_failed :: "string \<Rightarrow> string \<Rightarrow> run_vars \<Rightarrow> ('w host, run_vars) state" where
  "node_failed i e rv = do {
     _ \<leftarrow> report (Working i None);
     State_Monad.return (rv\<lparr>rv_outcomes := outcome_fail i e (rv_outcomes rv)\<rparr>) }"

definition node_done :: "string \<Rightarrow> container_info \<Rightarrow> run_vars \<Rightarrow> ('w host, run_vars) state" where
  "node_done i info rv = do {
     _ \<leftarrow> report (node_up (rv_state rv) info);
     State_Monad.return (rv\<lparr>rv_state := file_container info (rv_state rv), rv_started := rv_started rv @ [i]\<rparr>) }"

definition bounce_node ::
  "'w api \<Rightarrow> run_context \<Rightarrow> node \<Rightarrow> container_info \<Rightarrow> string \<Rightarrow> run_vars \<Rightarrow> ('w host, run_vars) state" where
  "bounce_node A rc n existing dep rv =
     (let why = dep @ (if dep \<in> rv_recreated rv then '' was recreated'' else '' was restarted'') @
            '', and this can't start without it''
      in do {
        _ \<leftarrow> report (Working (n_id n) (Some Restarting));
        r \<leftarrow> restart_in_place A n existing why (rc_budget rc) (n_id n \<in> rc_waited rc);
        case r of
          Inr info \<Rightarrow> node_done (n_id n) info (rv\<lparr>rv_bounced := insert (n_id n) (rv_bounced rv)\<rparr>)
        | Inl e \<Rightarrow> node_failed (n_id n) e rv })"

definition launch_node ::
  "'w api \<Rightarrow> orchestrator \<Rightarrow> graph \<Rightarrow> run_context \<Rightarrow> node \<Rightarrow> container_info option \<Rightarrow> run_vars \<Rightarrow>
     ('w host, run_vars) state" where
  "launch_node A orc g rc n existing rv = do {
     _ \<leftarrow> report (Working (n_id n) (Some Starting));
     r \<leftarrow> start_node_up A orc g n
       \<lparr>sc_network = rc_network rc, sc_sidecar_ip = es_sidecar_ip (rv_state rv), sc_budget = rc_budget rc,
        sc_debug_wait = (case existing of Some c \<Rightarrow> cd_debug_wait (ci_desired c) | None \<Rightarrow> False),
        sc_wait_ready = (n_id n \<in> rc_waited rc)\<rparr>;
     case r of
       Inl e \<Rightarrow> node_failed (n_id n) e rv
     | Inr info \<Rightarrow>
         (let rv = (if n_kind n = ''task'' then rv
                    else rv\<lparr>rv_recreated := insert (n_id n) (rv_recreated rv),
                            rv_bounced := insert (n_id n) (rv_bounced rv)\<rparr>)
          in do {
            info \<leftarrow> (if n_seeds n = [] then State_Monad.return info
                     else do {
                       kept \<leftarrow> record_seeded A g n;
                       State_Monad.return (info\<lparr>ci_observed := (ci_observed info)\<lparr>co_seeded := Some kept\<rparr>\<rparr>) });
            node_done (n_id n) info rv }) }"

definition act_on ::
  "'w api \<Rightarrow> orchestrator \<Rightarrow> graph \<Rightarrow> run_context \<Rightarrow> node \<Rightarrow> container_info option \<Rightarrow> bool \<Rightarrow> run_vars \<Rightarrow>
     ('w host, run_vars) state" where
  "act_on A orc g rc n existing alive rv =
     (let forced = (rc_restart rc = Some (n_id n)) in
      case (if alive \<and> \<not> forced then (bounced_requirement g n (rv_bounced rv), existing) else (None, None)) of
        (Some dep, Some c) \<Rightarrow> bounce_node A rc n c dep rv
      | _ \<Rightarrow> do {
          _ \<leftarrow> (if alive \<and> \<not> forced
               then ev_ok A (n_id n) ''create'' ''recreating container: config changed since it was started''
               else State_Monad.return ());
          launch_node A orc g rc n existing rv })"

definition bring_up_node ::
  "'w api \<Rightarrow> orchestrator \<Rightarrow> graph \<Rightarrow> run_context \<Rightarrow> node \<Rightarrow> run_vars \<Rightarrow> ('w host, run_vars) state" where
  "bring_up_node A orc g rc n rv =
     (let forced = (rc_restart rc = Some (n_id n));
          existing = map_of (es_containers (rv_state rv)) (n_id n)
      in do {
        settled \<leftarrow> (if forced then State_Monad.return False
                    else if settled_before n (rc_restart rc) existing (rv_recreated rv) then State_Monad.return True
                    else if n_seeds n \<noteq> [] then already_seeded A g n
                    else State_Monad.return False);
        if settled then State_Monad.return rv
        else do {
          alive \<leftarrow> world (is_alive A (container_name (g_workspace_name g) (n_id n)));
          hash \<leftarrow> (if alive \<and> existing \<noteq> None \<and> rc_restart rc = None then world (fresh_hash A orc g n)
                  else State_Monad.return None);
          if \<not> forced \<and> bounced_requirement g n (rv_bounced rv) = None \<and> top_up_may_skip alive existing hash
          then State_Monad.return rv
          else case blocked_by (rv_outcomes rv) (n_id n) of
            Some by \<Rightarrow>
              if alive then State_Monad.return rv
              else do {
                _ \<leftarrow> record_blocked A (n_id n) by;
                State_Monad.return (rv\<lparr>rv_outcomes := outcome_block (n_id n) by (rv_outcomes rv)\<rparr>) }
          | None \<Rightarrow> act_on A orc g rc n existing alive rv } })"

section \<open>The run\<close>

definition node_named :: "graph \<Rightarrow> string \<Rightarrow> node option" where
  "node_named g i = find (\<lambda>n. n_id n = i) (rev (g_nodes g))"

definition bring_up_id ::
  "'w api \<Rightarrow> orchestrator \<Rightarrow> graph \<Rightarrow> run_context \<Rightarrow> string \<Rightarrow> run_vars \<Rightarrow> ('w host, run_vars) fallible" where
  "bring_up_id A orc g rc i rv =
     (case node_named g i of
        None \<Rightarrow> fails (''panicked: no node '' @ i)
      | Some n \<Rightarrow> do { rv' \<leftarrow> bring_up_node A orc g rc n rv; ok rv' })"

definition stop_one :: "'w api \<Rightarrow> string \<Rightarrow> env_state \<Rightarrow> ('w host, env_state) fallible" where
  "stop_one A i s =
     (case map_of (es_containers s) i of
        None \<Rightarrow> fails (''panicked: no container '' @ i)
      | Some c \<Rightarrow> do {
          _ \<leftarrow> report (Working i (Some Stopping));
          r \<leftarrow> stop_node A i c;
          case r of
            Inr info \<Rightarrow> do {
              _ \<leftarrow> report (node_up s info);
              ok (s\<lparr>es_containers := bt_insert i info (es_containers s)\<rparr>) }
          | Inl e \<Rightarrow> do { _ \<leftarrow> report (Working i None); ok s } })"

record brought_up =
  bu_state :: env_state
  bu_outcomes :: start_outcomes
  bu_started :: "string list"

definition target_ids :: "graph \<Rightarrow> env_spec \<Rightarrow> string option \<Rightarrow> env_state option \<Rightarrow> string list result" where
  "target_ids g spec restart prior = (case spec of
     EnvFlow flow \<Rightarrow> start_ids g (Some flow)
   | EnvNode i \<Rightarrow>
       if i \<notin> n_id ` set (g_nodes g) then Inl (''no such node: '' @ i)
       else Inr (with_migrations g (case (restart, prior) of
           (Some _, Some prior) \<Rightarrow> restart_targets i g prior
         | _ \<Rightarrow> requirements_of i (g_edges g) @ [i])))"

definition on_network :: "string \<Rightarrow> string \<times> string \<Rightarrow> env_state option \<Rightarrow> env_state" where
  "on_network network sidecar prior =
     (case prior of Some s \<Rightarrow> s | None \<Rightarrow> default_env)
       \<lparr>es_network := network, es_sidecar_container_name := fst sidecar, es_sidecar_ip := Some (snd sidecar)\<rparr>"

definition run_nodes ::
  "'w api \<Rightarrow> orchestrator \<Rightarrow> graph \<Rightarrow> string option \<Rightarrow> string \<Rightarrow> string list \<Rightarrow> env_state \<Rightarrow>
     ('w host, brought_up) fallible" where
  "run_nodes A orc g restart network targets s = do {
     budget \<leftarrow> world (default_budget A);
     and_then
       (each_ok (bring_up_id A orc g
          \<lparr>rc_restart = restart, rc_network = network, rc_waited = waited_on targets (g_edges g), rc_budget = budget\<rparr>)
        (topological_start_order targets (g_edges g))
        \<lparr>rv_state = s, rv_outcomes = new_outcomes targets (g_edges g), rv_recreated = {}, rv_bounced = {},
         rv_started = []\<rparr>)
       (\<lambda>rv. ok \<lparr>bu_state = rv_state rv, bu_outcomes = rv_outcomes rv, bu_started = rv_started rv\<rparr>) }"

definition bring_up ::
  "'w api \<Rightarrow> orchestrator \<Rightarrow> graph \<Rightarrow> env_spec \<Rightarrow> env_state option \<Rightarrow> string option \<Rightarrow>
     ('w host, brought_up) fallible" where
  "bring_up A orc g spec prior restart =
     (case target_ids g spec restart prior of
        Inl e \<Rightarrow> fails e
      | Inr targets \<Rightarrow>
          (let network = network_name (g_workspace_name g) in
           and_then (world (ensure_network A network network)) (\<lambda>_.
           and_then (world (ensure_sidecar A orc (g_workspace_name g) network)) (\<lambda>sidecar.
             let s = on_network network sidecar prior;
                 outside = (case spec of EnvFlow _ \<Rightarrow> stop_order g targets s | EnvNode _ \<Rightarrow> [])
             in do {
               _ \<leftarrow> report (Planned (topological_start_order targets (g_edges g)) outside);
               and_then (each_ok (stop_one A) outside s) (run_nodes A orc g restart network targets) }))))"

definition ensure_running ::
  "'w api \<Rightarrow> orchestrator \<Rightarrow> graph \<Rightarrow> env_spec \<Rightarrow> env_state option \<Rightarrow>
     ('w host, env_create_error + env_state) state" where
  "ensure_running A orc g spec prior = do {
     r \<leftarrow> bring_up A orc g spec prior None;
     State_Monad.return (case r of
         Inl e \<Rightarrow> Inl (bare_create_error e)
       | Inr up \<Rightarrow> (case outcome_error (bu_outcomes up) of
           None \<Rightarrow> Inr (bu_state up)
         | Some message \<Rightarrow> Inl \<lparr>ece_message = message, ece_partial = Some (bu_state up)\<rparr>)) }"

record restarted =
  rs_node :: "string + container_info"
  rs_others :: "container_info list"

definition restarted_of :: "string \<Rightarrow> brought_up \<Rightarrow> restarted result" where
  "restarted_of i up =
     (let containers = es_containers (bu_state up);
          others = map (map_of containers) (filter (\<lambda>j. j \<noteq> i) (bu_started up));
          node = (if i \<in> set (bu_started up) then map_option Inr (map_of containers i)
                  else Some (Inl (case outcome_error (bu_outcomes up) of
                       Some e \<Rightarrow> e | None \<Rightarrow> i @ '' was not started'')))
      in if None \<in> set others \<or> node = None then Inl ''panicked: no such container''
         else Inr \<lparr>rs_node = the node, rs_others = map the others\<rparr>)"

definition restart_node ::
  "'w api \<Rightarrow> orchestrator \<Rightarrow> graph \<Rightarrow> string \<Rightarrow> env_state \<Rightarrow> ('w host, restarted) fallible" where
  "restart_node A orc g i prior =
     and_then (bring_up A orc g (EnvNode i) (Some prior) (Some i))
       (\<lambda>up. State_Monad.return (restarted_of i up))"

end
