(* ===== verification/Order_Props.thy ===== *)
theory Order_Props
  imports Order "HOL-Library.Multiset"
begin

text \<open>
  The worklist computes reachability, migrations a least closed set, and the rounds a permutation in
  which, without a cycle, every requirement comes first.
\<close>

section \<open>The worklist\<close>

lemma fold_push:
  assumes "fold (push_next c) qs (seen, queue) = (seen', queue')"
  shows "seen' = seen \<union> {b. (c, b) \<in> set qs} \<and>
    (\<exists>new. queue' = queue @ new \<and> set new = {b. (c, b) \<in> set qs} - seen)"
  using assms
proof (induction qs arbitrary: seen queue)
  case (Cons q qs)
  obtain a b where q: "q = (a, b)" by (cases q)
  show ?case
  proof (cases "a = c \<and> b \<notin> seen")
    case True
    then have "push_next c q (seen, queue) = (insert b seen, queue @ [b])"
      using q by (simp add: push_next_def)
    with Cons.prems have "fold (push_next c) qs (insert b seen, queue @ [b]) = (seen', queue')" by simp
    from Cons.IH [OF this] obtain new where n: "seen' = insert b seen \<union> {b. (c, b) \<in> set qs}"
      "queue' = (queue @ [b]) @ new" "set new = {b. (c, b) \<in> set qs} - insert b seen" by blast
    have "seen' = seen \<union> {b. (c, b) \<in> set (q # qs)}" using True q n(1) by auto
    moreover have "queue' = queue @ (b # new)" "set (b # new) = {b. (c, b) \<in> set (q # qs)} - seen"
      using True q n(2,3) by auto
    ultimately show ?thesis by blast
  next
    case False
    then have "push_next c q (seen, queue) = (seen, queue)"
      using q by (auto simp: push_next_def)
    with Cons.prems have "fold (push_next c) qs (seen, queue) = (seen', queue')" by simp
    from Cons.IH [OF this] obtain new where n: "seen' = seen \<union> {b. (c, b) \<in> set qs}"
      "queue' = queue @ new" "set new = {b. (c, b) \<in> set qs} - seen" by blast
    have "seen' = seen \<union> {b. (c, b) \<in> set (q # qs)}" using False q n(1) by auto
    moreover have "set new = {b. (c, b) \<in> set (q # qs)} - seen" using False q n(3) by auto
    ultimately show ?thesis using n(2) by blast
  qed
qed simp

lemma worklist_step:
  assumes "queue \<noteq> []"
  obtains new where
    "worklist ps seen queue = worklist ps (seen \<union> {b. (last queue, b) \<in> set ps}) (butlast queue @ new)"
    "set new = {b. (last queue, b) \<in> set ps} - seen"
proof -
  obtain seen' queue' where f: "fold (push_next (last queue)) ps (seen, butlast queue) = (seen', queue')"
    by fastforce
  from fold_push [OF f] obtain new where n: "seen' = seen \<union> {b. (last queue, b) \<in> set ps}"
    "queue' = butlast queue @ new" "set new = {b. (last queue, b) \<in> set ps} - seen" by blast
  have "worklist ps seen queue = worklist ps seen' queue'"
    using assms f by (subst worklist.simps) (simp add: Let_def)
  with n that show ?thesis by simp
qed

lemma worklist_induct_step:
  assumes "\<And>ps seen. P ps seen []"
    and "\<And>ps seen queue new. queue \<noteq> [] \<Longrightarrow> set new = {b. (last queue, b) \<in> set ps} - seen \<Longrightarrow>
      worklist ps seen queue = worklist ps (seen \<union> {b. (last queue, b) \<in> set ps}) (butlast queue @ new) \<Longrightarrow>
      P ps (seen \<union> {b. (last queue, b) \<in> set ps}) (butlast queue @ new) \<Longrightarrow> P ps seen queue"
  shows "P ps seen queue"
proof (induction ps seen queue rule: worklist.induct)
  case (1 ps seen queue)
  show ?case
  proof (cases "queue = []")
    case True
    with assms(1) show ?thesis by simp
  next
    case False
    obtain seen' queue' where f: "fold (push_next (last queue)) ps (seen, butlast queue) = (seen', queue')"
      by fastforce
    from fold_push [OF f] obtain new where n: "seen' = seen \<union> {b. (last queue, b) \<in> set ps}"
      "queue' = butlast queue @ new" "set new = {b. (last queue, b) \<in> set ps} - seen" by blast
    have "worklist ps seen queue = worklist ps seen' queue'"
      using False f by (subst worklist.simps) (simp add: Let_def)
    with assms(2) [OF False n(3)] n 1 [OF False refl] f show ?thesis by simp
  qed
qed

lemma worklist_sound: "worklist ps seen queue \<subseteq> seen \<union> (set ps)\<^sup>+ `` set queue"
proof (induction ps seen queue rule: worklist_induct_step)
  case (1 ps seen)
  then show ?case by (simp add: worklist.simps)
next
  case (2 ps seen queue new)
  let ?c = "last queue"
  have c: "?c \<in> set queue" using 2(1) by simp
  have "(set ps)\<^sup>+ `` set (butlast queue @ new) \<subseteq> (set ps)\<^sup>+ `` set queue"
  proof
    fix y assume "y \<in> (set ps)\<^sup>+ `` set (butlast queue @ new)"
    then obtain x where x: "x \<in> set (butlast queue) \<or> x \<in> set new" "(x, y) \<in> (set ps)\<^sup>+" by auto
    from x(1) show "y \<in> (set ps)\<^sup>+ `` set queue"
    proof
      assume "x \<in> set (butlast queue)"
      with x(2) show ?thesis by (auto dest: in_set_butlastD)
    next
      assume "x \<in> set new"
      with 2(2) have "(?c, x) \<in> set ps" by auto
      with x(2) have "(?c, y) \<in> (set ps)\<^sup>+" by (meson trancl_into_trancl2)
      with c show ?thesis by auto
    qed
  qed
  moreover have "{b. (?c, b) \<in> set ps} \<subseteq> (set ps)\<^sup>+ `` set queue" using c by auto
  ultimately show ?case using 2(4) unfolding 2(3) by blast
qed

lemma worklist_complete:
  "(\<forall>x\<in>set queue. \<forall>y. (x, y) \<in> set ps \<longrightarrow> y \<in> worklist ps seen queue) \<and>
   (\<forall>x\<in>worklist ps seen queue - seen. \<forall>y. (x, y) \<in> set ps \<longrightarrow> y \<in> worklist ps seen queue)"
proof (induction ps seen queue rule: worklist_induct_step)
  case (1 ps seen)
  then show ?case by (simp add: worklist.simps)
next
  case (2 ps seen queue new)
  let ?c = "last queue"
  let ?W = "worklist ps seen queue"
  have q: "set queue = insert ?c (set (butlast queue))"
    using 2(1) by (metis append_butlast_last_id insert_is_Un list.simps(15) rotate1.simps(2) set_rotate1)
  have seen: "seen \<union> {b. (?c, b) \<in> set ps} \<subseteq> ?W" using 2(3) worklist_seen by metis
  from 2(4) have IH1: "\<forall>x\<in>set (butlast queue @ new). \<forall>y. (x, y) \<in> set ps \<longrightarrow> y \<in> ?W"
    and IH2: "\<forall>x\<in>?W - (seen \<union> {b. (?c, b) \<in> set ps}). \<forall>y. (x, y) \<in> set ps \<longrightarrow> y \<in> ?W"
    unfolding 2(3) by blast+
  have "y \<in> ?W" if "x \<in> ?W - seen" "(x, y) \<in> set ps" for x y
  proof (cases "x \<in> {b. (?c, b) \<in> set ps}")
    case True
    with 2(2) that(1) have "x \<in> set new" by auto
    with IH1 that(2) show ?thesis by auto
  next
    case False
    with IH2 that show ?thesis by auto
  qed
  moreover have "y \<in> ?W" if "x \<in> set queue" "(x, y) \<in> set ps" for x y
    using that q seen IH1 by auto
  ultimately show ?case by blast
qed

lemma worklist_reaches: "worklist ps {} queue = (set ps)\<^sup>+ `` set queue"
proof
  show "worklist ps {} queue \<subseteq> (set ps)\<^sup>+ `` set queue" using worklist_sound [of ps "{}" queue] by simp
  show "(set ps)\<^sup>+ `` set queue \<subseteq> worklist ps {} queue"
  proof
    fix y assume "y \<in> (set ps)\<^sup>+ `` set queue"
    then obtain x where "x \<in> set queue" "(x, y) \<in> (set ps)\<^sup>+" by auto
    from this(2,1) show "y \<in> worklist ps {} queue"
      by (induction rule: trancl_induct) (use worklist_complete [of queue ps "{}"] in blast)+
  qed
qed

lemma required_closure_eq:
  assumes "finite seeds"
  shows "required_closure edges seeds = (needed edges)\<^sup>* `` seeds"
proof
  let ?ps = "needed_pairs edges"
  let ?q = "sorted_list_of_set seeds"
  have q: "set ?q = seeds" using assms by simp
  show "required_closure edges seeds \<subseteq> (needed edges)\<^sup>* `` seeds"
    using worklist_sound [of ?ps seeds ?q] q
    by (auto simp: required_closure_def needed_def dest!: subsetD intro: trancl_into_rtrancl)
  show "(needed edges)\<^sup>* `` seeds \<subseteq> required_closure edges seeds"
  proof
    fix y assume "y \<in> (needed edges)\<^sup>* `` seeds"
    then obtain x where "x \<in> seeds" "(x, y) \<in> (needed edges)\<^sup>*" by auto
    from this(2,1) show "y \<in> required_closure edges seeds"
    proof (induction rule: rtrancl_induct)
      case base
      then show ?case using required_closure_seeds by blast
    next
      case (step y z)
      then have "y \<in> required_closure edges seeds" "(y, z) \<in> set ?ps" by (auto simp: needed_def)
      then show ?case
        using worklist_complete [of ?q ?ps seeds] q unfolding required_closure_def by blast
    qed
  qed
qed

lemma trancl_avoiding:
  "{p \<in> R. snd p \<noteq> i}\<^sup>+ `` {i} = R\<^sup>+ `` {i} - {i}"
proof
  let ?R = "{p \<in> R. snd p \<noteq> i}"
  have "y \<noteq> i" if "(i, y) \<in> ?R\<^sup>+" for y
    using that by (cases rule: tranclE) simp_all
  moreover have "?R\<^sup>+ \<subseteq> R\<^sup>+"
    by (rule subsetI, erule trancl_mono) auto
  ultimately show "?R\<^sup>+ `` {i} \<subseteq> R\<^sup>+ `` {i} - {i}" by blast
  have "y = i \<or> (i, y) \<in> ?R\<^sup>+" if "(i, y) \<in> R\<^sup>+" for y
    using that
  proof (induction rule: trancl_induct)
    case (base y)
    then show ?case by auto
  next
    case (step y z)
    show ?case
    proof (cases "z = i")
      case False
      with step(2) have yz: "(y, z) \<in> ?R" by auto
      from step(3) show ?thesis
      proof
        assume "y = i"
        with yz show ?thesis by auto
      next
        assume "(i, y) \<in> ?R\<^sup>+"
        with yz show ?thesis by (meson trancl.trancl_into_trancl)
      qed
    qed simp
  qed
  then show "R\<^sup>+ `` {i} - {i} \<subseteq> ?R\<^sup>+ `` {i}" by blast
qed


lemma finite_worklist: "finite seen \<Longrightarrow> finite (worklist ps seen queue)"
proof -
  assume "finite seen"
  have "(set ps)\<^sup>+ `` set queue \<subseteq> snd ` set ps" by (auto simp: Range_snd [symmetric] dest: tranclD2)
  then have "worklist ps seen queue \<subseteq> seen \<union> snd ` set ps" using worklist_sound [of ps seen queue] by blast
  with \<open>finite seen\<close> show ?thesis by (meson finite_Un finite_imageI finite_set finite_subset)
qed

lemma finite_required_closure: "finite seeds \<Longrightarrow> finite (required_closure edges seeds)"
  by (simp add: required_closure_def finite_worklist)

section \<open>Migrations\<close>

definition migration_closed :: "node list \<Rightarrow> string set \<Rightarrow> bool" where
  "migration_closed nodes start \<longleftrightarrow> (\<forall>n\<in>set nodes. \<forall>s. n_migrates n = Some s \<longrightarrow> s \<in> start \<longrightarrow> n_id n \<in> start)"

definition needed_closed :: "edge list \<Rightarrow> string set \<Rightarrow> bool" where
  "needed_closed edges start \<longleftrightarrow> needed edges `` start \<subseteq> start"

lemma needed_closed_rtrancl: "needed_closed edges start \<Longrightarrow> x \<in> start \<Longrightarrow> (x, y) \<in> (needed edges)\<^sup>* \<Longrightarrow> y \<in> start"
  by (erule rtrancl_induct) (auto simp: needed_closed_def)

lemma needed_closed_Un: "needed_closed edges a \<Longrightarrow> needed_closed edges b \<Longrightarrow> needed_closed edges (a \<union> b)"
  by (auto simp: needed_closed_def)

lemma needed_closed_closure: "finite seeds \<Longrightarrow> needed_closed edges (required_closure edges seeds)"
  by (auto simp: needed_closed_def required_closure_eq intro: rtrancl.rtrancl_into_rtrancl)

lemma missing_empty: "missing_migrations nodes start = {} \<longleftrightarrow> migration_closed nodes start"
  by (auto simp: missing_migrations_def migration_closed_def split: option.splits)

lemma finite_missing [simp]: "finite (missing_migrations nodes start)"
  by (simp add: missing_migrations_def)

lemma missing_subset:
  "migration_closed nodes T \<Longrightarrow> start \<subseteq> T \<Longrightarrow> missing_migrations nodes start \<subseteq> T"
  by (auto simp: missing_migrations_def migration_closed_def split: option.splits)

lemma add_migrations_spec:
  assumes "needed_closed edges start"
  shows "start \<subseteq> add_migrations nodes edges start \<and> needed_closed edges (add_migrations nodes edges start) \<and>
    migration_closed nodes (add_migrations nodes edges start) \<and>
    (\<forall>T. start \<subseteq> T \<longrightarrow> needed_closed edges T \<longrightarrow> migration_closed nodes T \<longrightarrow> add_migrations nodes edges start \<subseteq> T)"
  using assms
proof (induction nodes edges start rule: add_migrations.induct)
  case (1 nodes edges start)
  let ?m = "missing_migrations nodes start"
  show ?case
  proof (cases "?m = {}")
    case True
    then have "add_migrations nodes edges start = start" by (subst add_migrations.simps) simp
    with True 1(2) show ?thesis by (simp add: missing_empty)
  next
    case False
    let ?next = "start \<union> required_closure edges ?m"
    have step: "add_migrations nodes edges start = add_migrations nodes edges ?next"
      using False by (subst add_migrations.simps) (simp add: Let_def)
    have "needed_closed edges ?next"
      using 1(2) by (intro needed_closed_Un needed_closed_closure) simp_all
    note IH = 1(1) [OF refl False this]
    have "?next \<subseteq> T" if "start \<subseteq> T" "needed_closed edges T" "migration_closed nodes T" for T
    proof -
      have "required_closure edges ?m \<subseteq> T"
        using missing_subset [OF that(3,1)] needed_closed_rtrancl [OF that(2)]
        by (auto simp: required_closure_eq)
      with that(1) show ?thesis by simp
    qed
    with IH show ?thesis unfolding step by auto
  qed
qed

section \<open>Rounds\<close>

lemma topo_round_mset:
  "topo_round deps rest ordered later = (ordered', later') \<Longrightarrow>
     mset ordered' + mset later' = mset rest + mset ordered + mset later"
  by (induction deps rest ordered later rule: topo_round.induct) (auto split: if_splits)

lemma topo_rounds_mset: "mset (topo_rounds deps remaining ordered) = mset remaining + mset ordered"
proof (induction deps remaining ordered rule: topo_rounds.induct)
  case (1 deps remaining ordered)
  show ?case
  proof (cases "remaining = []")
    case True
    then show ?thesis by (simp add: topo_rounds.simps)
  next
    case False
    obtain ordered' later where r: "topo_round deps remaining ordered [] = (ordered', later)" by fastforce
    show ?thesis
      using False r topo_round_mset [OF r] 1 [OF False r [symmetric]]
      by (subst topo_rounds.simps) (auto simp: add.commute)
  qed
qed

lemma start_order_mset: "mset (topological_start_order ids edges) = mset ids"
  by (simp add: topological_start_order_def topo_rounds_mset)

lemma topo_round_later:
  "topo_round deps rest ordered later = (ordered', later') \<Longrightarrow> set later' \<subseteq> set rest \<union> set later"
  by (induction deps rest ordered later rule: topo_round.induct) (auto split: if_splits)

definition in_order :: "(string \<Rightarrow> string set) \<Rightarrow> string list \<Rightarrow> bool" where
  "in_order deps xs \<longleftrightarrow> (\<forall>ys i zs. xs = ys @ i # zs \<longrightarrow> deps i \<subseteq> set ys)"

lemma in_order_snoc: "in_order deps xs \<Longrightarrow> deps i \<subseteq> set xs \<Longrightarrow> in_order deps (xs @ [i])"
  unfolding in_order_def by (auto simp: append_eq_append_conv2 Cons_eq_append_conv append_eq_Cons_conv)

lemma topo_round_order:
  "topo_round deps rest ordered later = (ordered', later') \<Longrightarrow> in_order deps ordered \<Longrightarrow> in_order deps ordered'"
  by (induction deps rest ordered later rule: topo_round.induct) (auto split: if_splits intro: in_order_snoc)

lemma topo_round_progress:
  "topo_round deps rest ordered later = (ordered', later') \<Longrightarrow> i \<in> set rest \<Longrightarrow> deps i \<subseteq> set ordered \<Longrightarrow>
     length ordered < length ordered'"
proof (induction deps rest ordered later rule: topo_round.induct)
  case (2 deps j rest ordered later)
  show ?case
  proof (cases "deps j \<subseteq> set ordered")
    case True
    with 2(3) show ?thesis using topo_round_length by fastforce
  next
    case False
    with 2 show ?thesis by auto
  qed
qed simp

lemma ready_exists:
  assumes "acyclic R" and "finite R" and "remaining \<noteq> []"
    and "\<And>i d. i \<in> set remaining \<Longrightarrow> d \<in> deps i \<Longrightarrow> (i, d) \<in> R \<and> d \<in> set remaining \<union> set ordered"
  shows "\<exists>i\<in>set remaining. deps i \<subseteq> set ordered"
proof -
  have "wf (R\<inverse>)" using assms(1,2) by (simp add: finite_acyclic_wf_converse)
  moreover obtain x where "x \<in> set remaining" using assms(3) by (cases remaining) auto
  ultimately obtain i where i: "i \<in> set remaining" "\<And>d. (d, i) \<in> R\<inverse> \<Longrightarrow> d \<notin> set remaining"
    by (metis wfE_min)
  have "deps i \<subseteq> set ordered"
  proof
    fix d assume d: "d \<in> deps i"
    from assms(4) [OF i(1) d] i(2) [of d] show "d \<in> set ordered" by auto
  qed
  with i(1) show ?thesis by blast
qed

lemma topo_rounds_order:
  assumes "acyclic R" and "finite R" and "in_order deps ordered"
    and "\<And>i d. i \<in> set remaining \<Longrightarrow> d \<in> deps i \<Longrightarrow> (i, d) \<in> R \<and> d \<in> set remaining \<union> set ordered"
  shows "in_order deps (topo_rounds deps remaining ordered)"
  using assms(3,4)
proof (induction deps remaining ordered rule: topo_rounds.induct)
  case (1 deps remaining ordered)
  show ?case
  proof (cases "remaining = []")
    case True
    with 1 show ?thesis by (simp add: topo_rounds.simps)
  next
    case False
    obtain ordered' later where r: "topo_round deps remaining ordered [] = (ordered', later)" by fastforce
    obtain i where i: "i \<in> set remaining" "deps i \<subseteq> set ordered"
      using ready_exists [OF assms(1,2) False 1(3)] by blast
    from topo_round_progress [OF r i] have len: "length ordered' \<noteq> length ordered" by simp
    from topo_round_mset [OF r] have m: "mset ordered' + mset later = mset remaining + mset ordered" by simp
    then have s: "set ordered' \<union> set later = set remaining \<union> set ordered"
      by (metis set_mset_mset set_mset_union)
    have "set later \<subseteq> set remaining"
      using topo_round_later [OF r] by simp
    then have "in_order deps (topo_rounds deps later ordered')"
      using 1(3) s topo_round_order [OF r 1(2)] by (intro 1(1) [OF False r [symmetric] len]) blast+
    then show ?thesis
      using False r len by (subst topo_rounds.simps) simp
  qed
qed

lemma finite_needed [simp]: "finite (needed edges)"
  by (simp add: needed_def)

lemma start_order_acyclic:
  assumes "acyclic (needed edges)"
  shows "in_order (start_deps ids edges) (topological_start_order ids edges)"
proof -
  have "in_order (start_deps ids edges) []" by (simp add: in_order_def)
  moreover have "(i, d) \<in> needed edges \<and> d \<in> set (sort ids) \<union> set []"
    if "i \<in> set (sort ids)" "d \<in> start_deps ids edges i" for i d
    using that by (auto simp: start_deps_def needed_def needed_pairs_def)
  ultimately show ?thesis
    using topo_rounds_order [of "needed edges" "start_deps ids edges" "[]" "sort ids"] assms
    by (simp add: topological_start_order_def)
qed

section \<open>Closures\<close>

text \<open>
  The requirements and the dependents of a node are exactly the other nodes it can reach, or that
  can reach it, along edges needed to start, each listed once.
\<close>
lemma closures_are_reachability:
  "set (requirements_of i edges) = (needed edges)\<^sup>+ `` {i} - {i} \<and> distinct (requirements_of i edges) \<and>
   set (dependents_of i edges) = ((needed edges)\<inverse>)\<^sup>+ `` {i} - {i} \<and> distinct (dependents_of i edges)"
proof -
  have one: "set (closure_order i ps edges) = (set ps)\<^sup>+ `` {i} - {i} \<and> distinct (closure_order i ps edges)" for ps
  proof -
    let ?f = "worklist (filter (\<lambda>p. snd p \<noteq> i) ps) {} [i]"
    have "?f = {p \<in> set ps. snd p \<noteq> i}\<^sup>+ `` {i}" by (simp add: worklist_reaches)
    then have f: "?f = (set ps)\<^sup>+ `` {i} - {i}" by (simp add: trancl_avoiding)
    have fin: "finite ?f" by (simp add: finite_worklist)
    have m: "mset (closure_order i ps edges) = mset (sorted_list_of_set ?f)"
      by (simp add: closure_order_def start_order_mset)
    then have "set (closure_order i ps edges) = ?f"
      using fin by (metis set_mset_mset set_sorted_list_of_set)
    moreover have "distinct (closure_order i ps edges)"
      using m fin by (metis distinct_sorted_list_of_set mset_eq_imp_distinct_iff)
    ultimately show ?thesis using f by simp
  qed
  have "set (map (\<lambda>(a, b). (b, a)) (needed_pairs edges)) = (needed edges)\<inverse>"
    by (auto simp: needed_def)
  then show ?thesis
    using one [of "needed_pairs edges"] one [of "map (\<lambda>(a, b). (b, a)) (needed_pairs edges)"]
    by (simp only: requirements_of_def dependents_of_def needed_def)
qed

end
