(* ===== verification/Orchestrate_Props.thy ===== *)
theory Orchestrate_Props
  imports Orchestrate Order_Props
begin

text \<open>
  What a run does to its variables and reports, whatever the host answers: one step per node
  (\<open>node_step\<close>), a sequence of them for the start order (\<open>node_steps\<close>), and the refinement of
  \<open>bring_up\<close> by it. The facts of runs are proved on the relation, by rule induction.
\<close>

section \<open>One step per node\<close>

definition fresh_up :: "node \<Rightarrow> container_info \<Rightarrow> bool" where
  "fresh_up n info = (ci_node_id info = n_id n \<and> ci_pending_action info = None \<and>
     (cd_running (ci_desired info) \<longleftrightarrow> n_kind n \<noteq> ''task''))"

definition mark_up :: "node \<Rightarrow> run_vars \<Rightarrow> run_vars" where
  "mark_up n rv = (if n_kind n = ''task'' then rv
     else rv\<lparr>rv_recreated := insert (n_id n) (rv_recreated rv), rv_bounced := insert (n_id n) (rv_bounced rv)\<rparr>)"

definition up_with :: "string \<Rightarrow> container_info \<Rightarrow> run_vars \<Rightarrow> run_vars" where
  "up_with i info rv = rv\<lparr>rv_state := file_container info (rv_state rv), rv_started := rv_started rv @ [i]\<rparr>"

inductive node_step :: "graph \<Rightarrow> string option \<Rightarrow> node \<Rightarrow> run_vars \<Rightarrow> run_progress list \<Rightarrow> run_vars \<Rightarrow> bool"
  for g restart n where
  settled: "restart \<noteq> Some (n_id n) \<Longrightarrow>
     settled_before n restart (map_of (es_containers (rv_state rv)) (n_id n)) (rv_recreated rv) \<or> n_seeds n \<noteq> [] \<Longrightarrow>
     node_step g restart n rv [] rv"
| current: "restart \<noteq> Some (n_id n) \<Longrightarrow> bounced_requirement g n (rv_bounced rv) = None \<Longrightarrow>
     map_of (es_containers (rv_state rv)) (n_id n) \<noteq> None \<Longrightarrow> node_step g restart n rv [] rv"
| held: "blocked_by (rv_outcomes rv) (n_id n) \<noteq> None \<Longrightarrow> node_step g restart n rv [] rv"
| blocked: "blocked_by (rv_outcomes rv) (n_id n) = Some by \<Longrightarrow>
     node_step g restart n rv [] (rv\<lparr>rv_outcomes := outcome_block (n_id n) by (rv_outcomes rv)\<rparr>)"
| bounced: "blocked_by (rv_outcomes rv) (n_id n) = None \<Longrightarrow> restart \<noteq> Some (n_id n) \<Longrightarrow>
     map_of (es_containers (rv_state rv)) (n_id n) = Some c \<Longrightarrow> info = reinspected c seen \<Longrightarrow>
     bounced_requirement g n (rv_bounced rv) = Some dep \<Longrightarrow>
     node_step g restart n rv [Working (n_id n) (Some Restarting), node_up (rv_state rv) info]
       (up_with (n_id n) info (rv\<lparr>rv_bounced := insert (n_id n) (rv_bounced rv)\<rparr>))"
| launched: "blocked_by (rv_outcomes rv) (n_id n) = None \<Longrightarrow> fresh_up n info \<Longrightarrow>
     node_step g restart n rv [Working (n_id n) (Some Starting), node_up (rv_state rv) info]
       (up_with (n_id n) info (mark_up n rv))"
| failed: "blocked_by (rv_outcomes rv) (n_id n) = None \<Longrightarrow> act = Starting \<or> act = Restarting \<Longrightarrow>
     node_step g restart n rv [Working (n_id n) (Some act), Working (n_id n) None]
       (rv\<lparr>rv_outcomes := outcome_fail (n_id n) e (rv_outcomes rv)\<rparr>)"

section \<open>The code takes such a step\<close>

definition steps_as :: "('w host, run_vars) state \<Rightarrow> (run_vars \<Rightarrow> run_progress list \<Rightarrow> bool) \<Rightarrow> bool" where
  "steps_as m R \<longleftrightarrow> (\<forall>h rv' h'. run_state m h = (rv', h') \<longrightarrow> (\<exists>ps. h_reports h' = h_reports h @ ps \<and> R rv' ps))"

lemma steps_asD:
  "steps_as m R \<Longrightarrow> run_state m h = (rv', h') \<Longrightarrow> \<exists>ps. h_reports h' = h_reports h @ ps \<and> R rv' ps"
  by (simp add: steps_as_def)

lemma steps_as_return: "R rv [] \<Longrightarrow> steps_as (State_Monad.return rv) R"
  by (auto simp: steps_as_def)

lemma steps_as_quiet:
  assumes "keeps h_reports m" and "\<And>x. steps_as (f x) R"
  shows "steps_as (State_Monad.bind m f) R"
  unfolding steps_as_def
proof (intro allI impI)
  fix h rv' h' assume run: "run_state (State_Monad.bind m f) h = (rv', h')"
  obtain x mid where m: "run_state m h = (x, mid)" by fastforce
  with run have "run_state (f x) mid = (rv', h')" by simp
  moreover have "h_reports mid = h_reports h" by (rule keepsD [OF assms(1) m])
  ultimately show "\<exists>ps. h_reports h' = h_reports h @ ps \<and> R rv' ps"
    using assms(2) [of x] unfolding steps_as_def by metis
qed

lemma steps_as_quiet_ok:
  assumes "keeps h_reports m" and "yields_ok m Q"
    and "\<And>x. Q x \<Longrightarrow> steps_as (f (Inr x)) R" and "\<And>e. steps_as (f (Inl e)) R"
  shows "steps_as (State_Monad.bind m f) R"
  unfolding steps_as_def
proof (intro allI impI)
  fix h rv' h' assume run: "run_state (State_Monad.bind m f) h = (rv', h')"
  obtain x mid where m: "run_state m h = (x, mid)" by fastforce
  with run have f: "run_state (f x) mid = (rv', h')" by simp
  have "steps_as (f x) R"
    using assms(3,4) yields_okD [OF assms(2)] m by (cases x) auto
  moreover have "h_reports mid = h_reports h" by (rule keepsD [OF assms(1) m])
  ultimately show "\<exists>ps. h_reports h' = h_reports h @ ps \<and> R rv' ps"
    using f unfolding steps_as_def by metis
qed

lemma steps_as_report:
  "steps_as m (\<lambda>rv ps. R rv (p # ps)) \<Longrightarrow> steps_as (do { _ \<leftarrow> report p; m }) R"
  unfolding steps_as_def by fastforce

lemma steps_as_failed: "R (rv\<lparr>rv_outcomes := outcome_fail i e (rv_outcomes rv)\<rparr>) [Working i None] \<Longrightarrow>
    steps_as (node_failed i e rv) R"
  unfolding node_failed_def by (intro steps_as_report steps_as_return)

lemma steps_as_done: "R (up_with i info rv) [node_up (rv_state rv) info] \<Longrightarrow> steps_as (node_done i info rv) R"
  unfolding node_done_def by (intro steps_as_report steps_as_return) (simp add: up_with_def)

lemma bounce_node_steps:
  assumes "blocked_by (rv_outcomes rv) (n_id n) = None" "restart \<noteq> Some (n_id n)"
    "map_of (es_containers (rv_state rv)) (n_id n) = Some c" "bounced_requirement g n (rv_bounced rv) = Some dep"
  shows "steps_as (bounce_node A rc n c dep rv) (\<lambda>rv' ps. node_step g restart n rv ps rv')"
  unfolding bounce_node_def Let_def
proof (rule steps_as_report, rule steps_as_quiet_ok [OF keeps_restart_in_place restart_info])
  fix info assume "\<exists>seen. info = reinspected c seen"
  then obtain seen where "info = reinspected c seen" ..
  from node_step.bounced [OF assms(1,2,3) this assms(4)]
  show "steps_as (case Inr info of Inl e \<Rightarrow> node_failed (n_id n) e rv
      | Inr info \<Rightarrow> node_done (n_id n) info (rv\<lparr>rv_bounced := insert (n_id n) (rv_bounced rv)\<rparr>))
     (\<lambda>rv' ps. node_step g restart n rv (Working (n_id n) (Some Restarting) # ps) rv')"
    by (auto intro!: steps_as_done)
next
  fix e
  from node_step.failed [OF assms(1), of Restarting]
  show "steps_as (case Inl e of Inl e \<Rightarrow> node_failed (n_id n) e rv
      | Inr info \<Rightarrow> node_done (n_id n) info (rv\<lparr>rv_bounced := insert (n_id n) (rv_bounced rv)\<rparr>))
     (\<lambda>rv' ps. node_step g restart n rv (Working (n_id n) (Some Restarting) # ps) rv')"
    by (auto intro!: steps_as_failed)
qed

lemma fresh_up_started [simp]: "fresh_up n (started_info n spec h d i s x)"
  by (simp add: fresh_up_def)

lemma fresh_up_seeded [simp]: "fresh_up n (info\<lparr>ci_observed := r\<rparr>) = fresh_up n info"
  by (simp add: fresh_up_def)

lemma launch_node_steps:
  assumes "blocked_by (rv_outcomes rv) (n_id n) = None"
  shows "steps_as (launch_node A orc g rc n existing rv) (\<lambda>rv' ps. node_step g restart n rv ps rv')"
  unfolding launch_node_def
proof (rule steps_as_report, rule steps_as_quiet_ok [OF keeps_start_node start_node_info])
  fix info :: container_info
  let ?rv = "if n_kind n = ''task'' then rv
    else rv\<lparr>rv_recreated := insert (n_id n) (rv_recreated rv), rv_bounced := insert (n_id n) (rv_bounced rv)\<rparr>"
  let ?R = "\<lambda>rv' ps. node_step g restart n rv (Working (n_id n) (Some Starting) # ps) rv'"
  assume "\<exists>spec inspected status exit_code.
    info = started_info n spec (spec_hash A n spec) (sc_debug_wait
      \<lparr>sc_network = rc_network rc, sc_sidecar_ip = es_sidecar_ip (rv_state rv), sc_budget = rc_budget rc,
       sc_debug_wait = (case existing of Some c \<Rightarrow> cd_debug_wait (ci_desired c) | None \<Rightarrow> False),
       sc_wait_ready = (n_id n \<in> rc_waited rc)\<rparr>) inspected status exit_code"
  then have fresh: "fresh_up n info" by auto
  have up: "steps_as (node_done (n_id n) info' ?rv) ?R" if "fresh_up n info'" for info'
    using node_step.launched [OF assms that, of g restart]
    by (cases "n_kind n = ''task''") (auto intro!: steps_as_done simp: mark_up_def)
  have "steps_as (record_seeded A g n \<bind> (\<lambda>kept.
      node_done (n_id n) (info\<lparr>ci_observed := (ci_observed info)\<lparr>co_seeded := Some kept\<rparr>\<rparr>) ?rv)) ?R"
    by (rule steps_as_quiet [OF keeps_seeds(2)], rule up) (simp add: fresh)
  then show "steps_as (case Inr info of
       Inl e \<Rightarrow> node_failed (n_id n) e rv
     | Inr info \<Rightarrow>
         (let rv = ?rv in do {
            info \<leftarrow> (if n_seeds n = [] then State_Monad.return info
                     else do {
                       kept \<leftarrow> record_seeded A g n;
                       State_Monad.return (info\<lparr>ci_observed := (ci_observed info)\<lparr>co_seeded := Some kept\<rparr>\<rparr>) });
            node_done (n_id n) info rv })) ?R"
    by (cases "n_seeds n = []") (use up [OF fresh] in \<open>simp_all only: Let_def sum.case if_True if_False refl simp_thms(6)
      State_Monad.bind_left_identity State_Monad.bind_assoc\<close>)
next
  fix e
  from node_step.failed [OF assms, of Starting]
  show "steps_as (case Inl e of
       Inl e \<Rightarrow> node_failed (n_id n) e rv
     | Inr info \<Rightarrow>
         (let rv = (if n_kind n = ''task'' then rv
                    else rv\<lparr>rv_recreated := insert (n_id n) (rv_recreated rv),
                            rv_bounced := insert (n_id n) (rv_bounced rv)\<rparr>)
          in do {
            info \<leftarrow> (if n_seeds n = [] then State_Monad.return info
                     else do {
                       kept \<leftarrow> record_seeded A g n;
                       State_Monad.return (info\<lparr>ci_observed := (ci_observed info)\<lparr>co_seeded := Some kept\<rparr>\<rparr>) });
            node_done (n_id n) info rv }))
     (\<lambda>rv' ps. node_step g restart n rv (Working (n_id n) (Some Starting) # ps) rv')"
    by (auto intro!: steps_as_failed)
qed

lemma act_on_steps:
  assumes "blocked_by (rv_outcomes rv) (n_id n) = None" "existing = map_of (es_containers (rv_state rv)) (n_id n)"
  shows "steps_as (act_on A orc g rc n existing alive rv) (\<lambda>rv' ps. node_step g (rc_restart rc) n rv ps rv')"
proof -
  let ?launch = "do {
      _ \<leftarrow> (if alive \<and> rc_restart rc \<noteq> Some (n_id n)
           then ev_ok A (n_id n) ''create'' ''recreating container: config changed since it was started''
           else State_Monad.return ());
      launch_node A orc g rc n existing rv }"
  have launch: "steps_as ?launch (\<lambda>rv' ps. node_step g (rc_restart rc) n rv ps rv')"
    by (rule steps_as_quiet [OF _ launch_node_steps [OF assms(1)]]) (intro keeps_intros)
  show ?thesis
  proof (cases "alive \<and> rc_restart rc \<noteq> Some (n_id n)")
    case True
    show ?thesis
    proof (cases "bounced_requirement g n (rv_bounced rv)")
      case None
      then show ?thesis using launch True by (simp add: act_on_def)
    next
      case (Some dep)
      show ?thesis
      proof (cases existing)
        case None
        then show ?thesis using launch True Some by (simp add: act_on_def)
      next
        case (Some c)
        with assms(2) have "map_of (es_containers (rv_state rv)) (n_id n) = Some c" by simp
        from bounce_node_steps [OF assms(1) conjunct2 [OF True] this \<open>bounced_requirement g n (rv_bounced rv) = Some dep\<close>]
        show ?thesis using True Some \<open>bounced_requirement g n (rv_bounced rv) = Some dep\<close> by (simp add: act_on_def)
      qed
    qed
  next
    case False
    show ?thesis using launch by (simp only: act_on_def Let_def if_not_P [OF False] prod.case option.case)
  qed
qed

lemma top_up_known: "top_up_may_skip alive existing hash \<Longrightarrow> existing \<noteq> None"
  by (auto simp: top_up_may_skip_def split: option.splits)

lemma keeps_record_blocked [keeps_intros]: "keeps h_reports (record_blocked A i by)"
  unfolding record_blocked_def by (intro keeps_intros)

lemma bring_up_node_steps:
  "steps_as (bring_up_node A orc g rc n rv) (\<lambda>rv' ps. node_step g (rc_restart rc) n rv ps rv')"
proof -
  let ?R = "\<lambda>rv' ps. node_step g (rc_restart rc) n rv ps rv'"
  let ?forced = "rc_restart rc = Some (n_id n)"
  let ?existing = "map_of (es_containers (rv_state rv)) (n_id n)"
  let ?rest = "do {
      alive \<leftarrow> world (is_alive A (container_name (g_workspace_name g) (n_id n)));
      hash \<leftarrow> (if alive \<and> ?existing \<noteq> None \<and> rc_restart rc = None then world (fresh_hash A orc g n)
              else State_Monad.return None);
      if \<not> ?forced \<and> bounced_requirement g n (rv_bounced rv) = None \<and> top_up_may_skip alive ?existing hash
      then State_Monad.return rv
      else case blocked_by (rv_outcomes rv) (n_id n) of
        Some by \<Rightarrow>
          if alive then State_Monad.return rv
          else do {
            _ \<leftarrow> record_blocked A (n_id n) by;
            State_Monad.return (rv\<lparr>rv_outcomes := outcome_block (n_id n) by (rv_outcomes rv)\<rparr>) }
      | None \<Rightarrow> act_on A orc g rc n ?existing alive rv }"
  have rest: "steps_as ?rest ?R"
  proof (rule steps_as_quiet, intro keeps_intros, simp, rule steps_as_quiet)
    show "keeps h_reports (if alive \<and> ?existing \<noteq> None \<and> rc_restart rc = None
        then world (fresh_hash A orc g n) else State_Monad.return None)" for alive
      by (intro keeps_intros) simp
    fix alive hash
    show "steps_as (if \<not> ?forced \<and> bounced_requirement g n (rv_bounced rv) = None \<and> top_up_may_skip alive ?existing hash
      then State_Monad.return rv
      else case blocked_by (rv_outcomes rv) (n_id n) of
        Some by \<Rightarrow>
          if alive then State_Monad.return rv
          else do {
            _ \<leftarrow> record_blocked A (n_id n) by;
            State_Monad.return (rv\<lparr>rv_outcomes := outcome_block (n_id n) by (rv_outcomes rv)\<rparr>) }
      | None \<Rightarrow> act_on A orc g rc n ?existing alive rv) ?R" (is "steps_as (if ?skip then _ else _) _")
    proof (cases ?skip)
      case True
      then show ?thesis by (auto intro!: steps_as_return node_step.current dest: top_up_known)
    next
      case skip: False
      show ?thesis
      proof (cases "blocked_by (rv_outcomes rv) (n_id n)")
        case None
        then show ?thesis using act_on_steps [OF None refl] by (simp only: if_not_P [OF skip] option.case)
      next
        case (Some b)
        have "steps_as (do {
            _ \<leftarrow> record_blocked A (n_id n) b;
            State_Monad.return (rv\<lparr>rv_outcomes := outcome_block (n_id n) b (rv_outcomes rv)\<rparr>) }) ?R"
          by (rule steps_as_quiet [OF keeps_record_blocked], rule steps_as_return, rule node_step.blocked, rule Some)
        then show ?thesis
          unfolding if_not_P [OF skip] Some option.case
          by (cases alive) (auto intro!: steps_as_return node_step.held simp: Some)
      qed
    qed
  qed
  let ?pre = "if ?forced then State_Monad.return False
      else if settled_before n (rc_restart rc) ?existing (rv_recreated rv) then State_Monad.return True
      else if n_seeds n \<noteq> [] then already_seeded A g n
      else State_Monad.return False"
  have pre: "keeps h_reports ?pre" by (intro keeps_intros)
  have "steps_as (?pre \<bind> (\<lambda>settled. if settled then State_Monad.return rv else ?rest)) ?R"
    unfolding steps_as_def
  proof (intro allI impI)
    fix h rv' h'
    assume run: "run_state (?pre \<bind> (\<lambda>settled. if settled then State_Monad.return rv else ?rest)) h = (rv', h')"
    obtain b mid where p: "run_state ?pre h = (b, mid)" by fastforce
    have same: "h_reports mid = h_reports h" by (rule keepsD [OF pre p])
    show "\<exists>ps. h_reports h' = h_reports h @ ps \<and> ?R rv' ps"
    proof (cases b)
      case True
      then have "\<not> ?forced" and "settled_before n (rc_restart rc) ?existing (rv_recreated rv) \<or> n_seeds n \<noteq> []"
        using p by (auto split: if_splits)
      then have "?R rv []" by (rule node_step.settled)
      moreover have "rv' = rv" "h' = mid" using run p True by auto
      ultimately show ?thesis using same by auto
    next
      case False
      then have "run_state ?rest mid = (rv', h')" using run p by auto
      from steps_asD [OF rest this] show ?thesis unfolding same .
    qed
  qed
  then show ?thesis unfolding bring_up_node_def Let_def .
qed

section \<open>Sequences of steps\<close>

inductive node_steps :: "graph \<Rightarrow> string option \<Rightarrow> node list \<Rightarrow> run_vars \<Rightarrow> run_progress list \<Rightarrow> run_vars \<Rightarrow> bool"
  for g restart where
  none: "node_steps g restart [] rv [] rv"
| step: "node_step g restart n rv ps mid \<Longrightarrow> node_steps g restart ns mid qs rv' \<Longrightarrow>
     node_steps g restart (n # ns) rv (ps @ qs) rv'"

inductive_cases node_steps_NilE: "node_steps g restart [] rv ps rv'"
inductive_cases node_steps_ConsE: "node_steps g restart (n # ns) rv ps rv'"

lemma node_steps_append:
  "node_steps g restart (xs @ ys) rv ps rv' \<Longrightarrow>
     \<exists>mid qs rs. node_steps g restart xs rv qs mid \<and> node_steps g restart ys mid rs rv' \<and> ps = qs @ rs"
proof (induction xs arbitrary: rv ps)
  case Nil
  then show ?case by (metis append_Nil node_steps.none)
next
  case (Cons x xs)
  from Cons.prems have "node_steps g restart (x # (xs @ ys)) rv ps rv'" by simp
  then obtain p1 mid p2 where ps: "ps = p1 @ p2" and x: "node_step g restart x rv p1 mid"
    and rest: "node_steps g restart (xs @ ys) mid p2 rv'"
    by (rule node_steps_ConsE)
  from Cons.IH [OF rest] obtain mid2 qs rs where split: "node_steps g restart xs mid qs mid2"
    "node_steps g restart ys mid2 rs rv'" "p2 = qs @ rs" by blast
  from node_steps.step [OF x split(1)] split(2,3) ps show ?case
    by (intro exI [of _ mid2] exI [of _ "p1 @ qs"] exI [of _ rs]) simp
qed

lemma node_steps_at:
  assumes "node_steps g restart (xs @ n # ys) rv ps rv'"
  obtains rv1 rv2 p1 p2 p3 where "node_steps g restart xs rv p1 rv1" "node_step g restart n rv1 p2 rv2"
    "node_steps g restart ys rv2 p3 rv'" "ps = p1 @ p2 @ p3"
proof -
  from node_steps_append [OF assms] obtain mid qs rs where split: "node_steps g restart xs rv qs mid"
    "node_steps g restart (n # ys) mid rs rv'" "ps = qs @ rs" by blast
  from split(2) obtain p2 rv2 p3 where "rs = p2 @ p3" "node_step g restart n mid p2 rv2" "node_steps g restart ys rv2 p3 rv'"
    by (rule node_steps_ConsE)
  with split show thesis by (intro that) simp_all
qed

lemma node_named_id: "node_named g i = Some n \<Longrightarrow> n_id n = i \<and> n \<in> set (g_nodes g)"
proof -
  have "find P xs = Some n \<Longrightarrow> P n \<and> n \<in> set xs" for P and xs :: "node list"
    by (induction xs) (auto split: if_splits)
  then show "node_named g i = Some n \<Longrightarrow> n_id n = i \<and> n \<in> set (g_nodes g)"
    unfolding node_named_def by fastforce
qed

lemma node_named_iff: "node_named g i \<noteq> None \<longleftrightarrow> i \<in> n_id ` set (g_nodes g)"
  by (auto simp: node_named_def find_None_iff)

lemma bring_up_ids_steps:
  assumes "set ids \<subseteq> n_id ` set (g_nodes g)"
  shows "\<exists>rv' h' ps. run_state (each_ok (bring_up_id A orc g rc) ids rv) h = (Inr rv', h') \<and>
    h_reports h' = h_reports h @ ps \<and>
    node_steps g (rc_restart rc) (map (\<lambda>i. the (node_named g i)) ids) rv ps rv'"
  using assms
proof (induction ids arbitrary: rv h)
  case Nil
  then show ?case by (auto intro: node_steps.none)
next
  case (Cons i ids)
  then obtain n where n: "node_named g i = Some n" using node_named_iff [of g i] by auto
  obtain mid h1 where m: "run_state (bring_up_node A orc g rc n rv) h = (mid, h1)" by fastforce
  from steps_asD [OF bring_up_node_steps m] obtain ps where
    ps: "h_reports h1 = h_reports h @ ps" "node_step g (rc_restart rc) n rv ps mid" by blast
  from Cons obtain rv' h' qs where
    r: "run_state (each_ok (bring_up_id A orc g rc) ids mid) h1 = (Inr rv', h')" "h_reports h' = h_reports h1 @ qs"
      "node_steps g (rc_restart rc) (map (\<lambda>i. the (node_named g i)) ids) mid qs rv'"
    by fastforce
  have "run_state (each_ok (bring_up_id A orc g rc) (i # ids) rv) h = (Inr rv', h')"
    using r(1) m n by (simp add: run_and_then bring_up_id_def)
  with r ps n node_steps.step [OF ps(2) r(3)] show ?case by fastforce
qed

section \<open>Outcomes\<close>

definition bad :: "run_vars \<Rightarrow> string set" where
  "bad rv = dom (map_of (so_failed (rv_outcomes rv))) \<union> dom (map_of (so_blocked (rv_outcomes rv)))"

definition req_list :: "start_outcomes \<Rightarrow> string \<Rightarrow> string list" where
  "req_list out i = (case map_of (so_requirements out) i of None \<Rightarrow> [] | Some ds \<Rightarrow> ds)"

definition reqs :: "run_vars \<Rightarrow> string \<Rightarrow> string set" where
  "reqs rv i = set (req_list (rv_outcomes rv) i)"

definition causes :: "start_outcomes \<Rightarrow> string list \<Rightarrow> string list" where
  "causes out ds = filter_map (\<lambda>d. if bt_has (so_failed out) d then Some d else map_of (so_blocked out) d) ds"

lemma set_fold_push_entry:
  "set (case map_of (fold (\<lambda>e. push_entry (f e) (g e)) xs m) i of None \<Rightarrow> [] | Some ds \<Rightarrow> ds) =
     set (case map_of m i of None \<Rightarrow> [] | Some ds \<Rightarrow> ds) \<union> g ` {e \<in> set xs. f e = i}"
proof (induction xs arbitrary: m)
  case (Cons x xs)
  then show ?case by (auto simp: push_entry_def split: option.splits)
qed simp

lemma reqs_new: "rv_outcomes rv = new_outcomes ids edges \<Longrightarrow> reqs rv i = start_deps ids edges i"
  by (auto simp: reqs_def req_list_def new_outcomes_def set_fold_push_entry start_deps_def)

lemma in_causes: "c \<in> set (causes out ds) \<longleftrightarrow>
    (\<exists>d\<in>set ds. if map_of (so_failed out) d \<noteq> None then c = d else map_of (so_blocked out) d = Some c)"
  unfolding causes_def set_filter_map bt_has_iff mem_Collect_eq by (intro bex_cong refl) auto

lemma blocked_by_causes:
  "blocked_by out i = (case sort (causes out (req_list out i)) of [] \<Rightarrow> None | c # _ \<Rightarrow> Some c)"
  by (simp add: blocked_by_def causes_def req_list_def Let_def)

lemma sort_Nil_iff: "sort xs = [] \<longleftrightarrow> xs = []"
  by (metis length_0_conv length_sort)

lemma blocked_by_None: "blocked_by (rv_outcomes rv) i = None \<longleftrightarrow> reqs rv i \<inter> bad rv = {}"
proof -
  have "blocked_by (rv_outcomes rv) i = None \<longleftrightarrow> causes (rv_outcomes rv) (req_list (rv_outcomes rv) i) = []"
    using sort_Nil_iff [of "causes (rv_outcomes rv) (req_list (rv_outcomes rv) i)"]
    unfolding blocked_by_causes by (cases "sort (causes (rv_outcomes rv) (req_list (rv_outcomes rv) i))") simp_all
  also have "\<dots> \<longleftrightarrow> (\<forall>c. c \<notin> set (causes (rv_outcomes rv) (req_list (rv_outcomes rv) i)))"
    by (metis list.set_intros(1) neq_Nil_conv empty_iff list.set(1))
  also have "\<dots> \<longleftrightarrow> (\<forall>d\<in>reqs rv i. d \<notin> bad rv)"
    unfolding in_causes reqs_def bad_def by (auto split: if_splits) (metis not_Some_eq)
  finally show ?thesis by blast
qed

lemma blocked_by_Some:
  assumes "blocked_by (rv_outcomes rv) i = Some c"
  shows "\<exists>d\<in>reqs rv i. d = c \<and> map_of (so_failed (rv_outcomes rv)) c \<noteq> None \<or>
    map_of (so_blocked (rv_outcomes rv)) d = Some c"
proof -
  have "c \<in> set (sort (causes (rv_outcomes rv) (req_list (rv_outcomes rv) i)))"
    using assms unfolding blocked_by_causes
    by (cases "sort (causes (rv_outcomes rv) (req_list (rv_outcomes rv) i))") (simp_all del: set_sort)
  then show ?thesis unfolding set_sort in_causes reqs_def by (auto split: if_splits)
qed

section \<open>What a step changes\<close>

definition same_at :: "string \<Rightarrow> run_vars \<Rightarrow> run_vars \<Rightarrow> bool" where
  "same_at i a b \<longleftrightarrow>
     map_of (es_containers (rv_state a)) i = map_of (es_containers (rv_state b)) i \<and>
     map_of (so_failed (rv_outcomes a)) i = map_of (so_failed (rv_outcomes b)) i \<and>
     map_of (so_blocked (rv_outcomes a)) i = map_of (so_blocked (rv_outcomes b)) i \<and>
     (i \<in> rv_bounced a \<longleftrightarrow> i \<in> rv_bounced b) \<and> (i \<in> rv_recreated a \<longleftrightarrow> i \<in> rv_recreated b) \<and>
     (i \<in> set (rv_started a) \<longleftrightarrow> i \<in> set (rv_started b))"

lemma same_at_refl [simp]: "same_at i a a"
  by (simp add: same_at_def)

lemma same_at_trans: "same_at i a b \<Longrightarrow> same_at i b c \<Longrightarrow> same_at i a c"
  by (simp add: same_at_def)

definition filed :: "run_vars \<Rightarrow> bool" where
  "filed rv = wf_env (rv_state rv)"

lemma filed_up: "filed rv \<Longrightarrow> filed (up_with i info rv)"
  by (simp add: filed_def up_with_def file_container_def wf_env_insert)

lemmas step_simps = up_with_def file_container_def mark_up_def outcome_fail_def outcome_block_def same_at_def filed_def

lemma node_step_frame:
  assumes "node_step g restart n rv ps rv'" "filed rv"
  shows "filed rv' \<and> so_requirements (rv_outcomes rv') = so_requirements (rv_outcomes rv) \<and>
    (\<forall>i. i \<noteq> n_id n \<longrightarrow> same_at i rv rv')"
  using assms
proof (cases rule: node_step.cases)
  case (bounced c info seen dep)
  then have "ci_node_id c = n_id n" using assms(2) unfolding filed_def by (metis wf_env_node_id)
  with bounced assms(2) show ?thesis by (auto simp: step_simps wf_env_insert)
next
  case (launched info)
  then have "ci_node_id info = n_id n" by (simp add: fresh_up_def)
  with launched assms(2) show ?thesis by (auto simp: step_simps wf_env_insert)
qed (auto simp: step_simps)

lemma node_steps_frame:
  assumes "node_steps g restart ns rv ps rv'" "filed rv"
  shows "filed rv' \<and> so_requirements (rv_outcomes rv') = so_requirements (rv_outcomes rv) \<and>
    (\<forall>i. i \<notin> n_id ` set ns \<longrightarrow> same_at i rv rv')"
  using assms
proof (induction rule: node_steps.induct)
  case (step n rv ps mid ns qs rv')
  from node_step_frame [OF step.hyps(1) step.prems] step.IH show ?case
    by (auto intro: same_at_trans)
qed simp

lemma same_bad: "same_at i a b \<Longrightarrow> i \<in> bad a \<longleftrightarrow> i \<in> bad b"
  by (simp add: same_at_def bad_def domIff)

section \<open>One node within a run\<close>

text \<open>
  In a run whose order puts requirements first, the step of a node sees its requirements as they are at the
  end, and nothing later touches the node.
\<close>

lemma run_at:
  assumes steps: "node_steps g restart ns rv ps rv'" and wf: "filed rv" and n: "n \<in> set ns"
    and dist: "distinct (map n_id ns)" and ord: "in_order (reqs rv) (map n_id ns)"
  obtains rv1 p rv2 where "node_step g restart n rv1 p rv2" "same_at (n_id n) rv rv1" "same_at (n_id n) rv2 rv'"
    "\<forall>d\<in>reqs rv (n_id n). same_at d rv1 rv'" "reqs rv1 = reqs rv" "filed rv1" "set p \<subseteq> set ps"
proof -
  obtain xs ys where ns: "ns = xs @ n # ys" using n by (meson split_list)
  from steps [unfolded ns] obtain rv1 rv2 p1 p2 p3 where
    s1: "node_steps g restart xs rv p1 rv1" and s2: "node_step g restart n rv1 p2 rv2"
    and s3: "node_steps g restart ys rv2 p3 rv'" and ps: "ps = p1 @ p2 @ p3" by (rule node_steps_at)
  note f1 = node_steps_frame [OF s1 wf]
  have w1: "filed rv1" using f1 by simp
  note f2 = node_step_frame [OF s2 w1]
  have w2: "filed rv2" using f2 by simp
  note f3 = node_steps_frame [OF s3 w2]
  have fresh: "n_id n \<notin> n_id ` set xs" "n_id n \<notin> n_id ` set ys" "n_id ` set xs \<inter> n_id ` set ys = {}"
    using dist unfolding ns by auto
  have "reqs rv (n_id n) \<subseteq> n_id ` set xs"
    using ord [unfolded in_order_def, rule_format, of "map n_id xs" "n_id n" "map n_id ys"] by (simp add: ns)
  then have "d \<notin> n_id ` set ys \<and> d \<noteq> n_id n" if "d \<in> reqs rv (n_id n)" for d
    using that fresh by blast
  then have "\<forall>d\<in>reqs rv (n_id n). same_at d rv1 rv'"
    using f2 f3 by (meson same_at_trans)
  moreover have "reqs rv1 = reqs rv" using f1 by (simp add: fun_eq_iff reqs_def req_list_def)
  ultimately show thesis
    using s2 f1 f3 fresh w1 ps by (intro that [of rv1 p2 rv2]) auto
qed

definition untouched :: "string \<Rightarrow> run_vars \<Rightarrow> bool" where
  "untouched i rv \<longleftrightarrow> map_of (so_failed (rv_outcomes rv)) i = None \<and> map_of (so_blocked (rv_outcomes rv)) i = None \<and>
     i \<notin> rv_bounced rv \<and> i \<notin> rv_recreated rv \<and> i \<notin> set (rv_started rv)"

lemma untouched_same: "untouched i a \<Longrightarrow> same_at i a b \<Longrightarrow> untouched i b"
  by (auto simp: untouched_def same_at_def)

text \<open>What one step makes of an untouched node.\<close>

definition left_alone :: "string \<Rightarrow> run_vars \<Rightarrow> run_vars \<Rightarrow> bool" where
  "left_alone i rv rv' \<longleftrightarrow> i \<notin> set (rv_started rv') \<and> i \<notin> rv_bounced rv' \<and>
     map_of (es_containers (rv_state rv')) i = map_of (es_containers (rv_state rv)) i"

definition came_up :: "string \<Rightarrow> run_vars \<Rightarrow> bool" where
  "came_up i rv' \<longleftrightarrow> i \<in> set (rv_started rv') \<and> i \<notin> bad rv' \<and>
     (\<exists>info. map_of (es_containers (rv_state rv')) i = Some info \<and> ci_node_id info = i \<and> ci_pending_action info = None)"

lemma node_step_untouched:
  assumes step: "node_step g restart n rv ps rv'" and wf: "filed rv" and u: "untouched (n_id n) rv"
  shows "came_up (n_id n) rv' \<and> reqs rv (n_id n) \<inter> bad rv = {} \<or>
    left_alone (n_id n) rv rv' \<and> n_id n \<notin> bad rv' \<or>
    left_alone (n_id n) rv rv' \<and> reqs rv (n_id n) \<inter> bad rv = {} \<and>
      map_of (so_failed (rv_outcomes rv')) (n_id n) \<noteq> None \<and> map_of (so_blocked (rv_outcomes rv')) (n_id n) = None \<or>
    left_alone (n_id n) rv rv' \<and> blocked_by (rv_outcomes rv) (n_id n) \<noteq> None \<and>
      map_of (so_failed (rv_outcomes rv')) (n_id n) = None \<and>
      map_of (so_blocked (rv_outcomes rv')) (n_id n) = blocked_by (rv_outcomes rv) (n_id n)"
  using step
proof (cases rule: node_step.cases)
  case (bounced c info seen dep)
  then have "ci_node_id c = n_id n" using wf unfolding filed_def by (metis wf_env_node_id)
  with bounced u have "came_up (n_id n) rv'" by (auto simp: step_simps came_up_def bad_def untouched_def)
  with bounced show ?thesis by (simp add: blocked_by_None)
next
  case (launched info)
  then have "came_up (n_id n) rv'" using u by (auto simp: step_simps came_up_def bad_def untouched_def fresh_up_def)
  with launched show ?thesis by (simp add: blocked_by_None)
next
  case (failed act e)
  then show ?thesis using u by (simp add: step_simps left_alone_def untouched_def blocked_by_None)
next
  case (blocked c)
  then show ?thesis using u by (simp add: step_simps left_alone_def untouched_def)
qed (use u in \<open>auto simp: left_alone_def untouched_def bad_def\<close>)

end
