(* ===== verification/Orchestrate_Runs.thy ===== *)
theory Orchestrate_Runs
  imports Orchestrate_Props
begin

text \<open>
  Facts of whole runs: what a run decides for each node, what it starts from (\<open>runnable\<close> graphs, the
  nodes a request covers), stopping what is outside a flow, and a run as one relation between the state it
  was given and the one it leaves.
\<close>

section \<open>What a run decides\<close>

definition start_vars :: "string list \<Rightarrow> edge list \<Rightarrow> env_state \<Rightarrow> run_vars" where
  "start_vars targets edges s =
     \<lparr>rv_state = s, rv_outcomes = new_outcomes targets edges, rv_recreated = {}, rv_bounced = {}, rv_started = []\<rparr>"

lemma untouched_start [simp]: "untouched i (start_vars targets edges s)"
  by (simp add: untouched_def start_vars_def new_outcomes_def)

lemma reqs_start: "reqs (start_vars targets edges s) i = start_deps targets edges i"
  by (rule reqs_new) (simp add: start_vars_def)

lemma same_at_state: "same_at i a b \<Longrightarrow> map_of (es_containers (rv_state a)) i = map_of (es_containers (rv_state b)) i"
  by (simp add: same_at_def)

lemma came_up_same: "came_up i a \<Longrightarrow> same_at i a b \<Longrightarrow> came_up i b"
  unfolding came_up_def same_at_def bad_def by (simp add: domIff)

lemma left_alone_same:
  "left_alone i b c \<Longrightarrow> same_at i a b \<Longrightarrow> same_at i c d \<Longrightarrow> left_alone i a d"
  unfolding left_alone_def same_at_def by simp

lemma run_decides:
  assumes steps: "node_steps g restart ns rv ps rv'" and wf: "filed rv" and n: "n \<in> set ns"
    and dist: "distinct (map n_id ns)" and ord: "in_order (reqs rv) (map n_id ns)" and u: "untouched (n_id n) rv"
  shows "came_up (n_id n) rv' \<and> reqs rv (n_id n) \<inter> bad rv' = {} \<or>
    left_alone (n_id n) rv rv' \<and> n_id n \<notin> bad rv' \<or>
    left_alone (n_id n) rv rv' \<and> reqs rv (n_id n) \<inter> bad rv' = {} \<and>
      map_of (so_failed (rv_outcomes rv')) (n_id n) \<noteq> None \<and> map_of (so_blocked (rv_outcomes rv')) (n_id n) = None \<or>
    left_alone (n_id n) rv rv' \<and> map_of (so_failed (rv_outcomes rv')) (n_id n) = None \<and>
      (\<exists>c. map_of (so_blocked (rv_outcomes rv')) (n_id n) = Some c \<and>
        (\<exists>d\<in>reqs rv (n_id n). d = c \<and> map_of (so_failed (rv_outcomes rv')) c \<noteq> None \<or>
           map_of (so_blocked (rv_outcomes rv')) d = Some c))"
proof -
  obtain rv1 p rv2 where step: "node_step g restart n rv1 p rv2"
    and before: "same_at (n_id n) rv rv1" and after: "same_at (n_id n) rv2 rv'"
    and deps: "\<forall>d\<in>reqs rv (n_id n). same_at d rv1 rv'" and r: "reqs rv1 = reqs rv" and w1: "filed rv1"
    by (rule run_at [OF steps wf n dist ord])
  have u1: "untouched (n_id n) rv1" by (rule untouched_same [OF u before])
  have bad: "reqs rv (n_id n) \<inter> bad rv1 = reqs rv (n_id n) \<inter> bad rv'" using deps same_bad by blast
  note out = after [unfolded same_at_def]
  have alone: "left_alone (n_id n) rv1 rv2 \<Longrightarrow> left_alone (n_id n) rv rv'"
    by (rule left_alone_same [OF _ before after])
  have ok: "n_id n \<notin> bad rv2 \<Longrightarrow> n_id n \<notin> bad rv'" using same_bad [OF after] by simp
  from node_step_untouched [OF step w1 u1] consider
      "came_up (n_id n) rv2" "reqs rv (n_id n) \<inter> bad rv1 = {}"
    | "left_alone (n_id n) rv1 rv2" "n_id n \<notin> bad rv2"
    | "left_alone (n_id n) rv1 rv2" "reqs rv (n_id n) \<inter> bad rv1 = {}"
        "map_of (so_failed (rv_outcomes rv2)) (n_id n) \<noteq> None" "map_of (so_blocked (rv_outcomes rv2)) (n_id n) = None"
    | c where "left_alone (n_id n) rv1 rv2" "blocked_by (rv_outcomes rv1) (n_id n) = Some c"
        "map_of (so_failed (rv_outcomes rv2)) (n_id n) = None" "map_of (so_blocked (rv_outcomes rv2)) (n_id n) = Some c"
    unfolding r by (metis not_Some_eq)
  then show ?thesis
  proof cases
    case 1
    then show ?thesis using came_up_same [OF 1(1) after] bad by simp
  next
    case 2
    then show ?thesis using alone ok by simp
  next
    case 3
    then show ?thesis using alone out bad by simp
  next
    case (4 c)
    from blocked_by_Some [OF 4(2)] r obtain d where d: "d \<in> reqs rv (n_id n)"
      "d = c \<and> map_of (so_failed (rv_outcomes rv1)) c \<noteq> None \<or> map_of (so_blocked (rv_outcomes rv1)) d = Some c"
      by auto
    have "d = c \<and> map_of (so_failed (rv_outcomes rv')) c \<noteq> None \<or> map_of (so_blocked (rv_outcomes rv')) d = Some c"
      using deps d by (auto simp: same_at_def)
    with d(1) 4 alone out show ?thesis by auto
  qed
qed

text \<open>A node that was blocked names a node that failed, and that it needs, if not directly.\<close>

lemma blocked_root:
  assumes root: "\<And>i c. i \<in> I \<Longrightarrow> blocked i = Some c \<Longrightarrow>
      \<exists>d\<in>I. (i, d) \<in> R \<and> (d = c \<and> failed c \<noteq> None \<or> blocked d = Some (c::string))"
    and wf: "wf (R\<inverse>)" and i: "i \<in> I" "blocked i = Some c"
  shows "failed c \<noteq> None \<and> (i, c) \<in> R\<^sup>+"
  using i
proof (induction i rule: wf_induct_rule [OF wf])
  case (1 i)
  from root [OF 1(2,3)] obtain d where d: "d \<in> I" "(i, d) \<in> R"
    "d = c \<and> failed c \<noteq> None \<or> blocked d = Some c" by blast
  from d(3) show ?case
  proof
    assume "d = c \<and> failed c \<noteq> None"
    with d(2) show ?thesis by auto
  next
    assume "blocked d = Some c"
    with 1(1) [of d] d(1,2) have "failed c \<noteq> None" "(d, c) \<in> R\<^sup>+" by auto
    with d(2) show ?thesis by (meson trancl_into_trancl2)
  qed
qed

section \<open>No stale connections\<close>

text \<open>
  A service that needs one that went down and came back in the run is bounced too, unless it failed, a
  requirement of it did, or an action of its own is under way.
\<close>

lemma bounced_requirement_None:
  "bounced_requirement g n bounced = None \<Longrightarrow> (n_id n, d) \<in> needed (g_edges g) \<Longrightarrow> d \<notin> bounced"
  by (fastforce simp: bounced_requirement_def find_None_iff needed_def needed_pairs_def)

lemma settled_before_task:
  "settled_before n restart existing recreated \<Longrightarrow>
     n_kind n = ''task'' \<or> (\<exists>c. existing = Some c \<and> ci_pending_action c \<noteq> None)"
  by (auto simp: settled_before_def task_already_done_def split: if_splits option.splits)

lemma node_step_bounces:
  assumes step: "node_step g restart n rv ps rv'"
    and d: "(n_id n, d) \<in> needed (g_edges g)" "d \<in> rv_bounced rv"
    and service: "n_kind n \<noteq> ''task''" "n_seeds n = []"
      "\<And>c. map_of (es_containers (rv_state rv)) (n_id n) = Some c \<Longrightarrow> ci_pending_action c = None"
  shows "n_id n \<in> rv_bounced rv' \<or> n_id n \<in> bad rv' \<or> reqs rv (n_id n) \<inter> bad rv \<noteq> {}"
  using step
proof (cases rule: node_step.cases)
  case settled
  with service(2) have "settled_before n restart (map_of (es_containers (rv_state rv)) (n_id n)) (rv_recreated rv)"
    by simp
  from settled_before_task [OF this] service(1) obtain c where
    c: "map_of (es_containers (rv_state rv)) (n_id n) = Some c" "ci_pending_action c \<noteq> None" by auto
  from service(3) [OF c(1)] c(2) show ?thesis by simp
next
  case current
  have "d \<notin> rv_bounced rv" by (rule bounced_requirement_None [OF _ d(1)]) (use current in simp)
  with d(2) show ?thesis by simp
next
  case held
  then show ?thesis by (simp add: blocked_by_None)
qed (use service in \<open>simp_all add: step_simps bad_def domIff\<close>)

lemma run_bounces:
  assumes steps: "node_steps g restart ns rv ps rv'" and wf: "filed rv" and n: "n \<in> set ns"
    and dist: "distinct (map n_id ns)" and ord: "in_order (reqs rv) (map n_id ns)"
    and d: "(n_id n, d) \<in> needed (g_edges g)" "d \<in> reqs rv (n_id n)" "d \<in> rv_bounced rv'"
    and service: "n_kind n \<noteq> ''task''" "n_seeds n = []"
      "\<And>c. map_of (es_containers (rv_state rv)) (n_id n) = Some c \<Longrightarrow> ci_pending_action c = None"
  shows "n_id n \<in> rv_bounced rv' \<or> n_id n \<in> bad rv' \<or> reqs rv (n_id n) \<inter> bad rv' \<noteq> {}"
proof -
  obtain rv1 p rv2 where step: "node_step g restart n rv1 p rv2"
    and before: "same_at (n_id n) rv rv1" and after: "same_at (n_id n) rv2 rv'"
    and deps: "\<forall>d\<in>reqs rv (n_id n). same_at d rv1 rv'" and r: "reqs rv1 = reqs rv"
    by (rule run_at [OF steps wf n dist ord])
  have "d \<in> rv_bounced rv1" using deps d(2,3) by (auto simp: same_at_def)
  moreover have "map_of (es_containers (rv_state rv1)) (n_id n) = Some c \<Longrightarrow> ci_pending_action c = None" for c
    using service(3) before by (simp add: same_at_def)
  ultimately have "n_id n \<in> rv_bounced rv2 \<or> n_id n \<in> bad rv2 \<or> reqs rv (n_id n) \<inter> bad rv1 \<noteq> {}"
    using node_step_bounces [OF step d(1) _ service(1,2)] r by simp
  moreover have "reqs rv (n_id n) \<inter> bad rv1 = reqs rv (n_id n) \<inter> bad rv'" using deps same_bad by blast
  ultimately show ?thesis using after same_bad [OF after] by (simp add: same_at_def)
qed

text \<open>Only what started, and is no task, has bounced.\<close>

lemma node_step_bounced_started:
  "node_step g restart n rv ps rv' \<Longrightarrow> rv_bounced rv \<subseteq> set (rv_started rv) \<Longrightarrow> rv_bounced rv' \<subseteq> set (rv_started rv')"
  by (cases rule: node_step.cases) (auto simp: step_simps split: if_splits)

lemma node_steps_bounced_started:
  "node_steps g restart ns rv ps rv' \<Longrightarrow> rv_bounced rv \<subseteq> set (rv_started rv) \<Longrightarrow> rv_bounced rv' \<subseteq> set (rv_started rv')"
  by (induction rule: node_steps.induct) (simp_all add: node_step_bounced_started)

section \<open>The node that was asked for\<close>

lemma node_step_forced:
  assumes "node_step g (Some (n_id n)) n rv ps rv'"
  shows "n_id n \<in> set (rv_started rv') \<and> (n_kind n \<noteq> ''task'' \<longrightarrow> n_id n \<in> rv_recreated rv') \<or> n_id n \<in> bad rv' \<or>
    reqs rv (n_id n) \<inter> bad rv \<noteq> {}"
  using assms
proof (cases rule: node_step.cases)
  case held
  then show ?thesis by (simp add: blocked_by_None)
qed (simp_all add: step_simps bad_def domIff)

lemma run_forced:
  assumes steps: "node_steps g (Some (n_id n)) ns rv ps rv'" and wf: "filed rv" and n: "n \<in> set ns"
    and dist: "distinct (map n_id ns)" and ord: "in_order (reqs rv) (map n_id ns)"
  shows "n_id n \<in> set (rv_started rv') \<and> (n_kind n \<noteq> ''task'' \<longrightarrow> n_id n \<in> rv_recreated rv') \<or> n_id n \<in> bad rv' \<or>
    reqs rv (n_id n) \<inter> bad rv' \<noteq> {}"
proof -
  obtain rv1 p rv2 where step: "node_step g (Some (n_id n)) n rv1 p rv2"
    and before: "same_at (n_id n) rv rv1" and after: "same_at (n_id n) rv2 rv'"
    and deps: "\<forall>d\<in>reqs rv (n_id n). same_at d rv1 rv'" and r: "reqs rv1 = reqs rv"
    by (rule run_at [OF steps wf n dist ord])
  have "reqs rv (n_id n) \<inter> bad rv1 = reqs rv (n_id n) \<inter> bad rv'" using deps same_bad by blast
  with node_step_forced [OF step] r after same_bad [OF after] show ?thesis by (simp add: same_at_def)
qed

section \<open>Started once\<close>

lemma node_steps_started:
  assumes "node_steps g restart ns rv ps rv'" "distinct (map n_id ns)"
  shows "\<exists>ids. rv_started rv' = rv_started rv @ ids \<and> distinct ids \<and> set ids \<subseteq> n_id ` set ns"
  using assms
proof (induction rule: node_steps.induct)
  case (step n rv ps mid ns qs rv')
  have "\<exists>one. rv_started mid = rv_started rv @ one \<and> (one = [] \<or> one = [n_id n])"
    using step.hyps(1) by (cases rule: node_step.cases) (auto simp: step_simps)
  then obtain one where one: "rv_started mid = rv_started rv @ one" "one = [] \<or> one = [n_id n]" by blast
  from step obtain ids where "rv_started rv' = rv_started mid @ ids" "distinct ids" "set ids \<subseteq> n_id ` set ns" by auto
  with one step.prems show ?case by (intro exI [of _ "one @ ids"]) auto
qed simp

section \<open>Graphs that can be run\<close>

definition runnable :: "graph \<Rightarrow> bool" where
  "runnable g \<longleftrightarrow> acyclic (needed (g_edges g)) \<and> distinct (map n_id (g_nodes g)) \<and>
     (\<forall>(a, b)\<in>needed (g_edges g). a \<in> n_id ` set (g_nodes g) \<and> b \<in> n_id ` set (g_nodes g))"

lemma start_set_within:
  assumes "needed_closed edges T" "migration_closed nodes T"
  shows "start \<subseteq> T \<Longrightarrow> start \<subseteq> add_migrations nodes edges start \<and> add_migrations nodes edges start \<subseteq> T"
  using assms
proof (induction nodes edges start rule: add_migrations.induct)
  case (1 nodes edges start)
  let ?m = "missing_migrations nodes start"
  show ?case
  proof (cases "?m = {}")
    case True
    then have "add_migrations nodes edges start = start" by (subst add_migrations.simps) simp
    with 1(2) show ?thesis by simp
  next
    case False
    let ?next = "start \<union> required_closure edges ?m"
    have step: "add_migrations nodes edges start = add_migrations nodes edges ?next"
      using False by (subst add_migrations.simps) (simp add: Let_def)
    have "?m \<subseteq> T" by (rule missing_subset [OF 1(4,2)])
    then have "?next \<subseteq> T"
      using 1(2) needed_closed_rtrancl [OF 1(3)] by (auto simp: required_closure_eq)
    from 1(1) [OF refl False this 1(3,4)] show ?thesis unfolding step by simp
  qed
qed

lemma nodes_closed:
  assumes "runnable g"
  shows "needed_closed (g_edges g) (n_id ` set (g_nodes g))" "migration_closed (g_nodes g) (n_id ` set (g_nodes g))"
  using assms by (auto simp: runnable_def needed_closed_def migration_closed_def)

lemma with_migrations_ok:
  assumes g: "runnable g" and ids: "set ids \<subseteq> n_id ` set (g_nodes g)" "distinct ids"
  shows "set (with_migrations g ids) \<subseteq> n_id ` set (g_nodes g) \<and> distinct (with_migrations g ids)"
proof -
  have "add_migrations (g_nodes g) (g_edges g) (set ids) \<subseteq> n_id ` set (g_nodes g)"
    using start_set_within [OF nodes_closed [OF g] ids(1)] by blast
  moreover from this have "finite (add_migrations (g_nodes g) (g_edges g) (set ids))" by (rule finite_subset) simp
  ultimately show ?thesis using ids by (auto simp: with_migrations_def Let_def)
qed

lemma trancl_within:
  assumes g: "runnable g" and p: "(a, b) \<in> (needed (g_edges g))\<^sup>+"
  shows "a \<in> n_id ` set (g_nodes g) \<and> b \<in> n_id ` set (g_nodes g)"
proof -
  have e: "x \<in> n_id ` set (g_nodes g) \<and> y \<in> n_id ` set (g_nodes g)" if "(x, y) \<in> needed (g_edges g)" for x y
    using g that by (auto simp: runnable_def)
  obtain x y where "(a, x) \<in> needed (g_edges g)" "(y, b) \<in> needed (g_edges g)"
    using tranclD [OF p] tranclD2 [OF p] by auto
  from e [OF this(1)] e [OF this(2)] show ?thesis by simp
qed

lemma target_ids_ok:
  assumes g: "runnable g" and t: "target_ids g spec restart prior = Inr targets"
  shows "set targets \<subseteq> n_id ` set (g_nodes g) \<and> distinct targets"
proof (cases spec)
  case (EnvFlow flow)
  have "distinct (map n_id (filter P (g_nodes g)))" for P using g by (simp add: runnable_def distinct_map_filter)
  then show ?thesis
    using t EnvFlow by (auto simp: target_ids_def start_ids_def split: if_splits)
next
  case (EnvNode i)
  let ?R = "needed (g_edges g)"
  note cl = closures_are_reachability [of i "g_edges g"]
  have i: "i \<in> n_id ` set (g_nodes g)" using t EnvNode by (simp add: target_ids_def split: if_splits)
  have r: "set (requirements_of i (g_edges g)) \<subseteq> n_id ` set (g_nodes g)" "i \<notin> set (requirements_of i (g_edges g))"
    using cl trancl_within [OF g] by auto
  have d: "set (dependents_of i (g_edges g)) \<subseteq> n_id ` set (g_nodes g)" "i \<notin> set (dependents_of i (g_edges g))"
    using cl trancl_within [OF g] by (auto simp: trancl_converse)
  have "set (requirements_of i (g_edges g)) \<inter> set (dependents_of i (g_edges g)) = {}"
  proof -
    have False if "(i, x) \<in> ?R\<^sup>+" "(x, i) \<in> ?R\<^sup>+" for x
      using g that unfolding runnable_def acyclic_def by (meson trancl_trans)
    then show ?thesis using cl by (auto simp: trancl_converse)
  qed
  then have restart: "set (restart_targets i g p) \<subseteq> n_id ` set (g_nodes g)" "distinct (restart_targets i g p)" for p
    using cl r d i by (auto simp: restart_targets_def)
  have one: "set (requirements_of i (g_edges g) @ [i]) \<subseteq> n_id ` set (g_nodes g)"
      "distinct (requirements_of i (g_edges g) @ [i])"
    using cl r i by auto
  have "targets = with_migrations g (requirements_of i (g_edges g) @ [i]) \<or>
      (\<exists>p. targets = with_migrations g (restart_targets i g p))"
    using t EnvNode by (auto simp: target_ids_def split: if_splits option.splits)
  then show ?thesis using with_migrations_ok [OF g one] with_migrations_ok [OF g restart] by auto
qed

section \<open>Stopping what is outside\<close>

definition stopped_info :: "string \<Rightarrow> container_info \<Rightarrow> container_info" where
  "stopped_info status c =
     c\<lparr>ci_desired := (ci_desired c)\<lparr>cd_running := False\<rparr>,
       ci_observed := (ci_observed c)\<lparr>co_status := status\<rparr>, ci_pending_action := None\<rparr>"

lemma stopped_info_simps [simp]:
  "ci_node_id (stopped_info x c) = ci_node_id c" "ci_pending_action (stopped_info x c) = None"
  "\<not> cd_running (ci_desired (stopped_info x c))"
  by (simp_all add: stopped_info_def)

inductive stop_steps :: "string list \<Rightarrow> env_state \<Rightarrow> run_progress list \<Rightarrow> env_state \<Rightarrow> bool" where
  all_stopped: "stop_steps [] s [] s"
| stop_next: "map_of (es_containers s) i = Some c \<Longrightarrow> stop_steps ids (file_container (stopped_info status c) s) qs s' \<Longrightarrow>
     stop_steps (i # ids) s (Working i (Some Stopping) # node_up s (stopped_info status c) # qs) s'"

lemma run_stop_node:
  "\<exists>status h'. run_state (stop_node A i c) h = (Inr (stopped_info status c), h') \<and> h_reports h' = h_reports h"
proof -
  obtain r h' where r: "run_state (stop_node A i c) h = (r, h')" by fastforce
  then have "\<exists>status. r = Inr (stopped_info status c)"
    by (auto simp: stop_node_def Let_def stopped_info_def ok_def split: prod.splits)
  moreover have "h_reports h' = h_reports h" by (rule keepsD [OF keeps_stop_node r])
  ultimately show ?thesis using r by auto
qed

lemma stop_all:
  assumes "wf_env s" "set ids \<subseteq> dom (map_of (es_containers s))"
  shows "\<exists>s' h' qs. run_state (each_ok (stop_one A) ids s) h = (Inr s', h') \<and>
    h_reports h' = h_reports h @ qs \<and> stop_steps ids s qs s'"
  using assms
proof (induction ids arbitrary: s h)
  case Nil
  then show ?case by (auto intro: stop_steps.all_stopped)
next
  case (Cons i ids)
  then obtain c where c: "map_of (es_containers s) i = Some c" by auto
  have i: "ci_node_id c = i" by (rule wf_env_node_id [OF Cons.prems(1) c])
  let ?h = "h\<lparr>h_reports := h_reports h @ [Working i (Some Stopping)]\<rparr>"
  obtain status h1 where st: "run_state (stop_node A i c) ?h = (Inr (stopped_info status c), h1)"
    "h_reports h1 = h_reports ?h" using run_stop_node [of A i c ?h] by blast
  let ?s = "file_container (stopped_info status c) s"
  let ?h2 = "h1\<lparr>h_reports := h_reports h1 @ [node_up s (stopped_info status c)]\<rparr>"
  have one: "run_state (stop_one A i s) h = (Inr ?s, ?h2)"
    using c st i by (simp add: stop_one_def file_container_def)
  have "wf_env ?s" using Cons.prems(1) by (simp add: file_container_def wf_env_insert)
  moreover have "set ids \<subseteq> dom (map_of (es_containers ?s))"
    using Cons.prems(2) by (auto simp: file_container_def)
  ultimately obtain s' h' qs where rest: "run_state (each_ok (stop_one A) ids ?s) ?h2 = (Inr s', h')"
    "h_reports h' = h_reports ?h2 @ qs" "stop_steps ids ?s qs s'" using Cons.IH by blast
  from stop_steps.stop_next [OF c rest(3)] rest(1,2) one st show ?case by (fastforce simp: run_and_then)
qed

lemma stop_steps_frame:
  assumes "stop_steps ids s qs s'" "wf_env s"
  shows "wf_env s' \<and> es_network s' = es_network s \<and> es_sidecar_container_name s' = es_sidecar_container_name s \<and>
    es_sidecar_ip s' = es_sidecar_ip s \<and> es_pending_create s' = es_pending_create s \<and>
    (\<forall>i. i \<notin> set ids \<longrightarrow> map_of (es_containers s') i = map_of (es_containers s) i)"
  using assms
proof (induction rule: stop_steps.induct)
  case (stop_next s i c ids status qs s')
  have "ci_node_id c = i" by (rule wf_env_node_id [OF stop_next.prems stop_next.hyps(1)])
  moreover have "wf_env (file_container (stopped_info status c) s)"
    using stop_next.prems by (simp add: file_container_def wf_env_insert)
  ultimately show ?case using stop_next.IH by (simp add: file_container_def)
qed simp

lemma stop_order_within:
  assumes "wf_env s"
  shows "set (stop_order g keep s) \<subseteq> dom (map_of (es_containers s)) - set keep"
proof
  fix i assume "i \<in> set (stop_order g keep s)"
  then have "i \<in># mset (topological_start_order (map ci_node_id
      (filter (\<lambda>c. co_status (ci_observed c) = ''running'' \<and> ci_node_id c \<notin> set keep)
        (bt_values (es_containers s)))) (g_edges g))" by (simp add: stop_order_def)
  then obtain c where "c \<in> set (bt_values (es_containers s))" "ci_node_id c = i" "i \<notin> set keep"
    unfolding start_order_mset by auto
  with wf_env_container_in [OF assms, of c] show "i \<in> dom (map_of (es_containers s)) - set keep" by auto
qed

section \<open>A run as one relation\<close>

definition run_of ::
  "graph \<Rightarrow> string option \<Rightarrow> string list \<Rightarrow> string list \<Rightarrow> env_state \<Rightarrow> run_progress list \<Rightarrow> env_state \<Rightarrow> run_progress list \<Rightarrow> run_vars \<Rightarrow> bool" where
  "run_of g restart targets outside s qs s' ps rv' \<longleftrightarrow>
     stop_steps outside s qs s' \<and>
     node_steps g restart (map (\<lambda>i. the (node_named g i)) (topological_start_order targets (g_edges g)))
       (start_vars targets (g_edges g) s') ps rv'"

definition outside_of :: "graph \<Rightarrow> env_spec \<Rightarrow> string list \<Rightarrow> env_state \<Rightarrow> string list" where
  "outside_of g spec targets s = (case spec of EnvFlow _ \<Rightarrow> stop_order g targets s | EnvNode _ \<Rightarrow> [])"

definition brought :: "run_vars \<Rightarrow> brought_up" where
  "brought rv = \<lparr>bu_state = rv_state rv, bu_outcomes = rv_outcomes rv, bu_started = rv_started rv\<rparr>"

definition prior_wf :: "env_state option \<Rightarrow> bool" where
  "prior_wf prior = (case prior of None \<Rightarrow> True | Some p \<Rightarrow> wf_env p)"

lemma on_network_wf: "prior_wf prior \<Longrightarrow> wf_env (on_network network sc prior)"
  by (cases prior) (simp_all add: prior_wf_def on_network_def wf_env_def default_env_def)

lemma outside_within:
  assumes "wf_env s"
  shows "set (outside_of g spec targets s) \<subseteq> dom (map_of (es_containers s)) - set targets"
  using stop_order_within [OF assms] by (auto simp: outside_of_def split: env_spec.splits)

text \<open>
  Once the network and the sidecar are there, a run over a graph that can be run never fails, and it is such
  a run.
\<close>

lemma bring_up_runs:
  assumes g: "runnable g" and t: "target_ids g spec restart prior = Inr targets" and p: "prior_wf prior"
    and net: "run_state (ensure_network A (network_name (g_workspace_name g)) (network_name (g_workspace_name g))) (h_world h) = (Inr u, w1)"
    and side: "run_state (ensure_sidecar A orc (g_workspace_name g) (network_name (g_workspace_name g))) w1 = (Inr sc, w2)"
  defines "s \<equiv> on_network (network_name (g_workspace_name g)) sc prior"
  obtains h' qs s' ps rv' where "run_state (bring_up A orc g spec prior restart) h = (Inr (brought rv'), h')"
    "h_reports h' = h_reports h @ Planned (topological_start_order targets (g_edges g)) (outside_of g spec targets s) # qs @ ps"
    "run_of g restart targets (outside_of g spec targets s) s qs s' ps rv'"
proof -
  let ?order = "topological_start_order targets (g_edges g)"
  let ?outside = "outside_of g spec targets s"
  let ?h2 = "h\<lparr>h_world := w2, h_reports := h_reports h @ [Planned ?order ?outside]\<rparr>"
  have wf: "wf_env s" unfolding s_def by (rule on_network_wf [OF p])
  from stop_all [OF wf] outside_within [OF wf, of g spec targets] obtain s' h3 qs where
    stop: "run_state (each_ok (stop_one A) ?outside s) ?h2 = (Inr s', h3)" "h_reports h3 = h_reports ?h2 @ qs"
      "stop_steps ?outside s qs s'" by blast
  have "set ?order = set targets" using start_order_mset by (metis set_mset_mset)
  then have ids: "set ?order \<subseteq> n_id ` set (g_nodes g)" using target_ids_ok [OF g t] by simp
  obtain budget w4 where b: "run_state (default_budget A) (h_world h3) = (budget, w4)" by fastforce
  let ?rc = "\<lparr>rc_restart = restart, rc_network = network_name (g_workspace_name g),
    rc_waited = waited_on targets (g_edges g), rc_budget = budget\<rparr>"
  from bring_up_ids_steps [OF ids, of A orc ?rc "start_vars targets (g_edges g) s'" "h3\<lparr>h_world := w4\<rparr>"]
  obtain rv' h' ps where nodes:
    "run_state (each_ok (bring_up_id A orc g ?rc) ?order (start_vars targets (g_edges g) s')) (h3\<lparr>h_world := w4\<rparr>) = (Inr rv', h')"
    "h_reports h' = h_reports h3 @ ps"
    "node_steps g restart (map (\<lambda>i. the (node_named g i)) ?order) (start_vars targets (g_edges g) s') ps rv'"
    by auto
  have "run_state (run_nodes A orc g restart (network_name (g_workspace_name g)) targets s') h3 = (Inr (brought rv'), h')"
    using nodes(1) b by (simp add: run_nodes_def run_and_then brought_def start_vars_def)
  then have "run_state (bring_up A orc g spec prior restart) h = (Inr (brought rv'), h')"
    using t net side stop(1)
    by (simp add: bring_up_def run_and_then Let_def s_def [symmetric] outside_of_def [symmetric])
  then show thesis using stop nodes by (intro that [of rv' h' qs ps s']) (simp_all add: run_of_def)
qed

lemma run_order:
  assumes g: "runnable g" and t: "target_ids g spec restart prior = Inr targets"
  defines "ns \<equiv> map (\<lambda>i. the (node_named g i)) (topological_start_order targets (g_edges g))"
  shows "map n_id ns = topological_start_order targets (g_edges g)" "distinct (map n_id ns)"
    "n_id ` set ns = set targets" "in_order (start_deps targets (g_edges g)) (map n_id ns)"
    "\<And>n. n \<in> set (g_nodes g) \<Longrightarrow> n_id n \<in> set targets \<Longrightarrow> n \<in> set ns"
proof -
  let ?order = "topological_start_order targets (g_edges g)"
  have set: "set ?order = set targets" using start_order_mset by (metis set_mset_mset)
  have within: "set targets \<subseteq> n_id ` set (g_nodes g)" "distinct targets" using target_ids_ok [OF g t] by auto
  have ok: "n_id (the (node_named g i)) = i" if "i \<in> set targets" for i
  proof -
    have "i \<in> n_id ` set (g_nodes g)" using that within(1) by blast
    then obtain m where "node_named g i = Some m" unfolding node_named_iff [symmetric] by blast
    with node_named_id [OF this] show ?thesis by simp
  qed
  show m: "map n_id ns = ?order" unfolding ns_def map_map by (rule map_idI) (simp add: set ok)
  show "distinct (map n_id ns)"
    unfolding m using within(2) start_order_mset by (metis mset_eq_imp_distinct_iff)
  show "n_id ` set ns = set targets" using m set by (metis list.set_map)
  show "in_order (start_deps targets (g_edges g)) (map n_id ns)"
    unfolding m using g by (intro start_order_acyclic) (simp add: runnable_def)
  show "n \<in> set ns" if "n \<in> set (g_nodes g)" "n_id n \<in> set targets" for n
  proof -
    have "n_id n \<in> n_id ` set (g_nodes g)" using that(1) by simp
    then obtain m where m: "node_named g (n_id n) = Some m" unfolding node_named_iff [symmetric] by blast
    from node_named_id [OF m] g that(1) have "m = n"
      unfolding runnable_def by (metis distinct_map inj_onD)
    with m set that(2) show ?thesis unfolding ns_def by force
  qed
qed

section \<open>Samples\<close>

text \<open>
  A small graph and a quiet host, at which the hypotheses of the orchestrator's theorems are seen to hold:
  a service that depends on another, a network that already exists, and a sidecar that is running.
\<close>

definition plain_node :: "string \<Rightarrow> node" where
  "plain_node i =
     \<lparr>n_id = i, n_label = i, n_kind = ''service'', n_image = Some ''nginx'', n_branch = None, n_repo = None,
      n_local_path = None, n_domain = i @ ''.demo.internal'', n_downloaded = True, n_dirty = False, n_head = None,
      n_flows = [''all''], n_includes = [], n_build = None, n_ports = [], n_environment = [], n_command = [],
      n_volumes = [], n_additional_hosts = [], n_wildcard_hosts = [], n_env_file = [], n_restart = ''no'',
      n_stop_signal = None, n_stop_grace_period = 10, n_user = None, n_working_dir = None, n_labels = [],
      n_cap_add = [], n_cap_drop = [], n_privileged = False, n_extra_hosts = [], n_healthcheck = None,
      n_platform = None, n_run_policy = None, n_migrates = None, n_seeds = [], n_debug = None\<rparr>"

definition plain_edge :: "string \<Rightarrow> string \<Rightarrow> edge" where
  "plain_edge a b = \<lparr>e_from = a, e_to = b, e_kind = ''depends-on'', e_required = True, e_condition = None,
     e_via_flow = None, e_flows = [], e_implied = False\<rparr>"

definition pair_graph :: graph where
  "pair_graph = \<lparr>g_workspace_name = ''demo'', g_nodes = [plain_node ''web'', plain_node ''db''],
     g_edges = [plain_edge ''web'' ''db''], g_flows = [''all''], g_warnings = []\<rparr>"

definition sample_orc :: orchestrator where
  "sample_orc = \<lparr>orc_workspace = ''/work'', orc_root = ''/var/lib/fghj'', orc_sidecar_image = ''sidecar''\<rparr>"

definition running_entry :: inspect_response where
  "running_entry = \<lparr>ir_id = Some ''1'', ir_state = Some \<lparr>cst_status = Some ''running'', cst_exit_code = None, cst_health = None\<rparr>,
     ir_ports = [], ir_networks = [(''fghj-demo-default'', Some ''10.0.0.2'')], ir_mounts = []\<rparr>"

definition answer :: "'a \<Rightarrow> ('w, 'a) state" where
  "answer x = State_Monad.return x"

definition quiet_api :: "'w api" where
  "quiet_api =
     \<lparr>ap_inspect_container = (\<lambda>_. answer (Inr running_entry)), ap_list_containers = (\<lambda>_. answer (Inr [])),
      ap_create_container = (\<lambda>_ _ _. answer (Inr ())), ap_start_container = (\<lambda>_. answer (Inr ())),
      ap_stop_container = (\<lambda>_. answer (Inr ())), ap_restart_container = (\<lambda>_. answer (Inr ())),
      ap_remove_container = (\<lambda>_ _. answer (Inr ())), ap_create_network = (\<lambda>_. answer (Inl (ServerError 409 ''exists''))),
      ap_inspect_network = (\<lambda>_. answer (Inr None)), ap_remove_network = (\<lambda>_. answer (Inr ())),
      ap_create_volume = (\<lambda>_ _. answer (Inr ())), ap_list_volumes = (\<lambda>_. answer (Inr None)),
      ap_inspect_volume = (\<lambda>_. answer (Inr None)), ap_remove_volume = (\<lambda>_. answer (Inr ())),
      ap_image_is_local = (\<lambda>_. answer (Inr True)), ap_pull_image = (\<lambda>_ _. answer (Inr ())),
      ap_build_node_image = (\<lambda>_ _ _ _ _. answer (Inr ())), ap_ensure_sidecar_image = answer (Inr ()),
      ap_canonicalize = (\<lambda>p. answer (Inr p)),
      ap_create_dir_all = (\<lambda>_. answer (Inr ())), ap_path_exists = (\<lambda>_. answer True),
      ap_write_file = (\<lambda>_ _. answer (Inr ())), ap_set_mode = (\<lambda>_ _. answer (Inr ())),
      ap_rename = (\<lambda>_ _. answer (Inr ())), ap_new_token = answer (Inr ''token''),
      ap_read_file = (\<lambda>_. answer (Inl ''no such file'')), ap_owner_home = answer None,
      ap_now = answer 0, ap_sleep = (\<lambda>_. answer ()), ap_unix_ms = answer 0, ap_sql_fails = answer None,
      ap_hash = (\<lambda>_. ''hash'')\<rparr>"

definition quiet_host :: "unit host" where
  "quiet_host = \<lparr>h_world = (), h_events = [], h_seeds = [], h_reports = []\<rparr>"

lemma quiet_network:
  "run_state (ensure_network quiet_api (network_name (g_workspace_name pair_graph)) (network_name (g_workspace_name pair_graph)))
     (h_world quiet_host) = (Inr (), ())"
  by (simp add: quiet_host_def ensure_network_def create_network_def quiet_api_def answer_def run_and_then ok_def Let_def)

lemma quiet_sidecar:
  "run_state (ensure_sidecar quiet_api sample_orc (g_workspace_name pair_graph) (network_name (g_workspace_name pair_graph))) () =
     (Inr (sidecar_name ''demo'', ''10.0.0.2''), ())"
proof -
  have "network_name ''demo'' = ''fghj-demo-default''" by code_simp
  then show ?thesis
    by (simp add: ensure_sidecar_def ensure_sidecar_named_def sidecar_running_def inspect_status_def inspect_engine_def
      inspect_network_ip_def status_of_inspection_def quiet_api_def answer_def run_and_then ok_def Let_def pair_graph_def
      running_entry_def)
qed

lemma pair_targets: "target_ids pair_graph (EnvFlow ''all'') restart None = Inr [''web'', ''db'']"
  by (simp add: target_ids_def start_ids_def pair_graph_def plain_node_def)

lemma pair_needed: "needed (g_edges pair_graph) = {(''web'', ''db'')}"
  by (simp add: needed_def needed_pairs_def pair_graph_def plain_edge_def needed_to_start_def)

lemma pair_runnable: "runnable pair_graph"
  unfolding runnable_def pair_needed by (simp add: pair_graph_def plain_node_def acyclic_def trancl_insert)

end
