(* ===== verification/Registry_Claims.thy ===== *)
theory Registry_Claims
  imports Registry_Props Removal_Props Orchestrate_Runs
begin

text \<open>
  The properties of the daemon's registry, a host at which their hypotheses hold, and what the registry
  does when its disk or its timing does not help.
\<close>

section \<open>A calm host\<close>

definition calm_daemon :: "'w daemon_api" where
  "calm_daemon =
     \<lparr>da_engine = quiet_api, da_orchestrator = sample_orc, da_canonicalize = (\<lambda>p. answer (Some p)),
      da_exists = (\<lambda>_. answer True), da_create_dir_all = (\<lambda>_. answer (Inr ())),
      da_remove_dir_all = (\<lambda>_. answer (Inr ())), da_made_by_root = (\<lambda>_. answer False), da_is_root = answer True,
      da_chown = (\<lambda>_ _ _. answer (Inr ())), da_git_clone = (\<lambda>_ _ _. answer (Inr None)),
      da_open_workspace = (\<lambda>_ _. answer (Inr ())), da_set_owner = (\<lambda>_ _. answer (Inr ())),
      da_reads = answer True, da_saves = answer (Inr ())\<rparr>"

definition shop_path :: fs_path where
  "shop_path = \<lparr>fp_absolute = True, fp_names = [''w'', ''shop'']\<rparr>"

definition fresh_daemon :: "unit daemon" where
  "fresh_daemon = snd (run_state (load_from calm_daemon) (first_start ()))"

definition shop_daemon :: "unit daemon" where
  "shop_daemon = snd (run_state (resolve calm_daemon None (Some shop_path) None) fresh_daemon)"

definition leaving_daemon :: "unit daemon" where
  "leaving_daemon = snd (run_state (remove_workspace calm_daemon (workspace_id shop_path)) shop_daemon)"

lemmas calm_simps = calm_daemon_def answer_def quiet_api_def run_on_world

lemma calm_reads: "reads_work calm_daemon"
  by (simp add: reads_work_def yields_def calm_simps)

lemma calm_saves: "saves_work calm_daemon"
  by (simp add: saves_work_def yields_def calm_simps)

lemma calm_opens: "opens_all calm_daemon"
  by (simp add: opens_all_def yields_def calm_simps)

lemma calm_load: "run_state (load_from calm_daemon) (first_start w) = ((), first_start w)"
proof -
  let ?d = "first_start w"
  have empty: "empty_memory ?d = ?d" by (simp add: empty_memory_def first_start_def)
  have reads: "run_state (pending calm_daemon) ?d = ([], ?d)" "run_state (load_index calm_daemon dm_index_file) ?d = ([], ?d)"
    by (simp_all add: pending_def load_index_def calm_simps first_start_def)
  have "?d\<lparr>dm_by_id := []\<rparr> = ?d" by (simp add: first_start_def)
  with empty reads show ?thesis by (simp add: load_from_def bt_retain_def save_kept_def bt_keys_def)
qed

lemma fresh_daemon_is: "fresh_daemon = first_start ()"
  unfolding fresh_daemon_def calm_load by (rule snd_conv)

lemma calm_canonicalize: "run_state (canonicalize_lossy calm_daemon p) d = (p, d)"
  unfolding canonicalize_lossy_def
  by (subst canonicalize_up.simps) (simp add: calm_simps child_path_def)

lemma calm_resolve:
  assumes "dm_by_id d = []" and "entries (dm_removing_file d) = []"
  shows "run_state (resolve calm_daemon None (Some p) None) d =
    (Inr (workspace_id p, p), listed p (entries (dm_index_file d)) d)"
proof -
  have "run_state (resolve_workspace calm_daemon None (Some p) None) d = (Inr p, d)"
    by (simp add: resolve_workspace_def run_and_then run_with_context context_of_def calm_simps)
  moreover have "run_state (check_canonical calm_daemon p) d = (Inr p, d)"
    using assms by (simp add: check_canonical_def being_removed_def pending_def load_index_def entries_def bt_values_def calm_simps)
  ultimately have "run_state (check_wire calm_daemon None (Some p) None) d = (Inr p, d)"
    using assms by (simp add: check_wire_def check_nesting_def run_and_then calm_canonicalize bt_values_def)
  with assms show ?thesis
    by (simp add: resolve_def run_and_then commit_wire_def enter_workspace_def record_owner_def Let_def load_index_def
      save_index_def calm_simps listed_def wired_def entries_def)
qed

lemma calm_remove:
  assumes "map_of (dm_by_id d) i = Some p" and "dm_log d = empty_log"
  shows "dm_removing_file (snd (run_state (remove_workspace calm_daemon i) d)) =
      Some (bt_insert i p (entries (dm_removing_file d)))"
  using assms by (simp add: remove_workspace_def add_removal_def unlist_def spawn_teardown_def start_job_def find_top_def
    empty_log_def push_activity_def Let_def run_and_then load_index_def save_index_def calm_simps entries_def drop_workspace_def)

lemma lives_fresh: "lives calm_daemon fresh_daemon"
  using lives.lv_first [OF calm_load] unfolding fresh_daemon_is .

lemma lives_shop: "lives calm_daemon shop_daemon"
  unfolding shop_daemon_def by (rule lives.lv_step [OF lives_fresh life_step.ls_wire [OF prod.collapse [symmetric]]])

lemma lives_leaving: "lives calm_daemon leaving_daemon"
  unfolding leaving_daemon_def by (rule lives.lv_step [OF lives_shop life_step.ls_remove [OF prod.collapse [symmetric]]])

lemma shop_daemon_is: "shop_daemon = listed shop_path [] fresh_daemon"
  unfolding shop_daemon_def by (subst calm_resolve) (simp_all add: fresh_daemon_is first_start_def)

lemma leaving_marked: "map_of (entries (dm_removing_file leaving_daemon)) (workspace_id shop_path) = Some shop_path"
proof -
  have shop: "map_of (dm_by_id shop_daemon) (workspace_id shop_path) = Some shop_path" "dm_log shop_daemon = empty_log"
    unfolding shop_daemon_is by (simp_all add: listed_def wired_def wire_actor_def fresh_daemon_is first_start_def)
  show ?thesis unfolding leaving_daemon_def calm_remove [OF shop] by simp
qed

section \<open>Removals\<close>



text \<open>A host that keeps containers, networks and volumes, and does what it is told.\<close>

record docker_box =
  bx_containers :: "(string \<times> string) list"
  bx_networks :: "string list"
  bx_volumes :: "(string \<times> string) list"

definition box_view :: "docker_box docker_view" where
  "box_view = \<lparr>dv_containers = (\<lambda>w. set (bx_containers w)), dv_networks = (\<lambda>w. set (bx_networks w)),
     dv_volumes = (\<lambda>w. set (bx_volumes w))\<rparr>"

definition labelled :: "string \<Rightarrow> (string \<times> string) list \<Rightarrow> string list" where
  "labelled f xs = map fst (filter (\<lambda>x. project_filter (snd x) = f) xs)"

definition summary_of :: "string \<Rightarrow> container_summary" where
  "summary_of n = \<lparr>sm_names = Some [''/'' @ n], sm_state = Some ''running'', sm_status = None, sm_ports = []\<rparr>"

definition box_engine :: "docker_box api" where
  "box_engine = quiet_api
     \<lparr>ap_list_containers := (\<lambda>f. State (\<lambda>w. (Inr (map summary_of (labelled f (bx_containers w))), w))),
      ap_remove_container := (\<lambda>n v. State (\<lambda>w. (Inr (), w\<lparr>bx_containers := filter (\<lambda>x. fst x \<noteq> n) (bx_containers w)\<rparr>))),
      ap_inspect_network := (\<lambda>n. State (\<lambda>w. (if n \<in> set (bx_networks w) then Inr None else Inl (ServerError 404 ''no such network''), w))),
      ap_remove_network := (\<lambda>n. State (\<lambda>w. (Inr (), w\<lparr>bx_networks := filter (\<lambda>x. x \<noteq> n) (bx_networks w)\<rparr>))),
      ap_list_volumes := (\<lambda>f. State (\<lambda>w. (Inr (Some (labelled f (bx_volumes w))), w))),
      ap_remove_volume := (\<lambda>n. State (\<lambda>w. (Inr (), w\<lparr>bx_volumes := filter (\<lambda>x. fst x \<noteq> n) (bx_volumes w)\<rparr>)))\<rparr>"

definition box_daemon :: "docker_box daemon_api" where
  "box_daemon = calm_daemon\<lparr>da_engine := box_engine\<rparr>"

lemma box_quiet:
  assumes "\<And>w n. part (w\<lparr>bx_containers := filter (\<lambda>x. fst x \<noteq> n) (bx_containers w)\<rparr>) \<subseteq> part w"
    and "\<And>w n. part (w\<lparr>bx_networks := filter (\<lambda>x. x \<noteq> n) (bx_networks w)\<rparr>) \<subseteq> part w"
    and "\<And>w n. part (w\<lparr>bx_volumes := filter (\<lambda>x. fst x \<noteq> n) (bx_volumes w)\<rparr>) \<subseteq> part w"
  shows "quiet_calls box_daemon part"
  using assms by (simp add: quiet_calls_def box_daemon_def box_engine_def quiet_api_def calm_daemon_def lessens_def answer_def)

lemma box_honest: "honest box_daemon box_view"
proof -
  have "quiet_calls box_daemon (dv_containers box_view)" "quiet_calls box_daemon (dv_networks box_view)"
    "quiet_calls box_daemon (dv_volumes box_view)"
    by (rule box_quiet; auto simp: box_view_def)+
  moreover have "\<exists>s\<in>set (map summary_of (labelled (project_filter p) (bx_containers w))). is_named s"
    if "(c, p) \<in> set (bx_containers w)" for c p and w :: docker_box
    using that by (force simp: labelled_def is_named_def summary_of_def)
  moreover have "v \<in> set (labelled (project_filter p) (bx_volumes w))" if "(v, p) \<in> set (bx_volumes w)" for v p and w :: docker_box
    using that by (force simp: labelled_def)
  ultimately show ?thesis
    unfolding honest_def by (simp add: box_daemon_def box_engine_def box_view_def split: if_splits) auto
qed

definition full_box :: docker_box where
  "full_box = \<lparr>bx_containers = [(''fghj-shop-default-api'', ''fghj-shop-default''), (''other'', ''fghj-other-default'')],
     bx_networks = [''fghj-shop-default''], bx_volumes = [(''fghj-vol-1'', ''shop'')]\<rparr>"

definition removing_daemon :: "docker_box daemon" where
  "removing_daemon = (first_start full_box)\<lparr>dm_removing_file := Some [(''id'', shop_path)],
     dm_log := snd (push_activity (Some ''id'') None KRemove ACTIVITY_KEY 0 empty_log),
     dm_teardowns := [(1, ''id'', shop_path)]\<rparr>"

lemma job_end_lessens:
  assumes q: "quiet_calls D part" and finish: "run_state (finish_removal D i) d1 = (r, d2)"
    and last: "run_state (on_log f D) d2 = (u, d3)"
  shows "part (dm_world d3) \<subseteq> part (dm_world d1)"
proof -
  have "lessens (\<lambda>d. part (dm_world d)) (finish_removal D i)"
    unfolding finish_removal_def load_index_def save_index_def by (intro lessens_intros quietD q) simp
  from lessensD [OF lessens_on_log [OF q] last] lessensD [OF this finish] show ?thesis by simp
qed


lemma removing_ends:
  "run_state (run_teardown box_daemon (1, ''id'', shop_path)) removing_daemon =
     (Inr (), snd (run_state (run_teardown box_daemon (1, ''id'', shop_path)) removing_daemon))"
  "network_name (removed_name box_daemon shop_path removing_daemon) = ''fghj-shop-default''"
proof -
  have "fst (run_state (run_teardown box_daemon (1, ''id'', shop_path)) removing_daemon) = Inr ()" by code_simp
  then show "run_state (run_teardown box_daemon (1, ''id'', shop_path)) removing_daemon =
     (Inr (), snd (run_state (run_teardown box_daemon (1, ''id'', shop_path)) removing_daemon))"
    by (metis prod.collapse)
qed code_simp

lemma box_reads: "reads_work box_daemon"
  using calm_reads by (simp add: reads_work_def box_daemon_def)


section \<open>Wiring\<close>





section \<open>A disk or a moment that does not help\<close>

text \<open>
  A wire whose index entry cannot be saved fails, but leaves the workspace wired; asked again, it
  answers that all is well and still saves nothing. The next start does not know the workspace.
\<close>

lemma unsaved_wire_is_never_saved:
  assumes "run_state (enter_workspace D c) d = (Inl e, d1)"
  shows "run_state (commit_wire D None c) d1 = (Inr (workspace_id c, c), d1) \<and>
    map_of (dm_by_id d1) (workspace_id c) = Some c \<and> dm_index_file d1 = dm_index_file d"
proof -
  from assms have "fixed d1 = fixed (wired c d)" by (cases rule: enter_runs) simp_all
  from fixed_parts [OF this] show ?thesis
    by (simp add: commit_wire_def Let_def run_and_then record_owner_def)
qed

text \<open>
  Two calls that wire the same folder at the same time both find it unwired, open its database and enter
  it: the task of the first goes on converging and no handle is left to stop it with.
\<close>

lemma concurrent_wires_leak_a_task:
  assumes "tasks_ok d" and "run_state (enter_workspace D c) d = (r1, d1)" and "run_state (enter_workspace D c) d1 = (r2, d2)"
    and "map_of (dm_tasks d) (workspace_id c) = None"
  shows "dm_next d \<in> set (dm_converging d2) \<and> dm_next d \<notin> ran (map_of (dm_tasks d2))"
proof -
  have step: "dm_tasks e' = bt_insert (workspace_id c) (dm_next e) (dm_tasks e) \<and>
      dm_converging e' = dm_converging e @ [dm_next e] \<and> dm_next e' = dm_next e + 1"
    if "run_state (enter_workspace D c) e = (r, e')" for r e e'
    using that by (cases rule: enter_runs) (simp_all add: fixed_def listed_def wired_def wire_actor_def)
  from assms(1) have "dm_next d \<notin> ran (map_of (dm_tasks d))" by (auto simp: tasks_ok_def)
  then have "map_of (dm_tasks d2) i \<noteq> Some (dm_next d)" for i
    using step [OF assms(2)] step [OF assms(3)] by (auto simp: ran_def)
  then have "dm_next d \<notin> ran (map_of (dm_tasks d2))" by (simp add: ran_def)
  with step [OF assms(2)] step [OF assms(3)] show ?thesis by simp
qed

text \<open>An index that cannot be read counts as empty, and the next wire replaces it by its one entry.\<close>

lemma unreadable_index_is_overwritten:
  assumes "yields (da_reads D) Not" and "saves_work D" and run: "run_state (enter_workspace D c) d = (r, d')"
  shows "dm_index_file d' = Some [(workspace_id c, c)]"
proof -
  have "m = []" if "run_state (load_index D part) e = (m, e')" for part m e e'
    using that assms(1) yieldsD [OF assms(1)]
    by (auto simp: load_index_def run_on_world split: prod.splits if_splits)
  moreover from run obtain m d1 where load: "run_state (load_index D dm_index_file) (wired c d) = (m, d1)"
    and save: "run_state (save_index D (write_index (bt_insert (workspace_id c) c m))) d1 = (r, d')"
    by (auto simp: enter_workspace_def Let_def wired_def split: prod.splits)
  ultimately have "m = []" by blast
  from save save_works [OF assms(2) save] this show ?thesis
    by (cases rule: save_index_runs) (simp_all add: bt_insert_def)
qed

text \<open>Any error of the inspection counts as the network's absence.\<close>

lemma failed_inspection_counts_as_gone:
  assumes "\<And>w. \<exists>e. fst (run_state (ap_inspect_network (da_engine D) network) w) = Inl e"
  shows "fst (run_state (teardown_network D network step) d) = Inr ()"
  using assms by (auto simp: teardown_network_def run_on_world split: prod.splits sum.splits) (metis fst_conv sum.distinct(1))

text \<open>
  The index of a removal may fail to be saved. That is made good by the mark, but only until the removal
  finishes: the start after that wires the workspace again, its data gone.
\<close>

definition flaky_daemon :: "nat daemon_api" where
  "flaky_daemon = calm_daemon
     \<lparr>da_engine := quiet_api\<lparr>ap_inspect_network := (\<lambda>_. answer (Inl (ServerError 404 ''no such network'')))\<rparr>,
      da_saves := State (\<lambda>n. (if n = 1 then Inl ''disk full'' else Inr (), n + 1))\<rparr>"

definition wired_daemon :: "nat daemon" where
  "wired_daemon = (first_start 0)\<lparr>dm_index_file := Some [(''id'', shop_path)], dm_by_id := [(''id'', shop_path)],
     dm_actors := [(''id'', 0)], dm_tasks := [(''id'', 0)], dm_converging := [0], dm_next := 1\<rparr>"

lemma unsaved_removal_stays_listed:
  "dm_by_id (snd (run_state (remove_workspace flaky_daemon ''id'') wired_daemon)) = []"
  "dm_index_file (snd (run_state (remove_workspace flaky_daemon ''id'') wired_daemon)) = Some [(''id'', shop_path)]"
  by code_simp+

lemma load_wires_kept:
  assumes "run_state (load_from D) d = (r, d')" and "reads_work D" and "opens_all D"
  shows "dm_by_id d' = bt_extend [] (kept_index d)"
  using assms(1,2)
proof (cases rule: load_runs)
  case (started by_id d1 d2)
  from keepsD [OF keeps_spawn_all started(6)] fixed_parts [OF started(5)] started(4) [OF assms(3)]
  show ?thesis by (simp add: core_def)
qed

lemma removed_workspace_comes_back:
  assumes listed: "map_of (entries (dm_index_file d)) i = Some p" and wf: "bt_wf (entries (dm_index_file d))"
    and torn: "run_state (run_teardown D (job, i, q)) d = (Inr (), d1)"
    and start: "run_state (load_from D) d1 = (r, d2)" and works: "reads_work D" "opens_all D"
  shows "map_of (dm_by_id d2) i = Some p"
proof -
  from torn works(1) have "core d1 = core (write_removing (bt_remove i (entries (dm_removing_file d))) d)"
    by (cases rule: teardown_runs) simp_all
  then have files: "dm_index_file d1 = dm_index_file d" "entries (dm_removing_file d1) = bt_remove i (entries (dm_removing_file d))"
    by (simp_all add: core_def)
  have kept: "map_of (kept_index d1) i = Some p" "bt_wf (kept_index d1)"
    using listed wf by (simp_all add: kept_index_def files bt_get_retain bt_has_iff)
  with load_wires_kept [OF start works] bt_extend_itself [OF kept(2)] show ?thesis by simp
qed

end
