(* ===== verification/Graph_Claims.thy ===== *)
theory Graph_Claims
  imports Cycles Order_Props
begin

text \<open>
  The properties of the dependency graph: cycles, start order, closures, migrations. The walk of the cycle
  check always returns, reports only real cycles, and reports none exactly when the needed edges are acyclic.
\<close>

section \<open>The adjacency\<close>

lemma adjacency_fold:
  "set (targets_of (fold (\<lambda>(a, b) m. bt_insert a ((case map_of m a of None \<Rightarrow> [] | Some ts \<Rightarrow> ts) @ [b]) m) ps m) i) =
     set (targets_of m i) \<union> {j. (i, j) \<in> set ps}"
proof (induction ps arbitrary: m)
  case (Cons p ps)
  show ?case
    by (cases p) (simp add: Cons, auto simp: targets_of_def split: option.splits)
qed simp

lemma adjacency_fold_wf:
  "bt_wf m \<Longrightarrow> bt_wf (fold (\<lambda>(a, b) m. bt_insert a ((case map_of m a of None \<Rightarrow> [] | Some ts \<Rightarrow> ts) @ [b]) m) ps m)"
  by (induction ps arbitrary: m) auto

lemma targets_adjacency: "j \<in> set (targets_of (adjacency_of edges) i) \<longleftrightarrow> (i, j) \<in> needed edges"
proof -
  let ?m = "fold (\<lambda>(a, b) m. bt_insert a ((case map_of m a of None \<Rightarrow> [] | Some ts \<Rightarrow> ts) @ [b]) m) (needed_pairs edges) []"
  have "set (targets_of (adjacency_of edges) i) = set (targets_of ?m i)"
    by (simp add: adjacency_of_def targets_of_def split: option.splits)
  also have "\<dots> = {j. (i, j) \<in> needed edges}"
    by (subst adjacency_fold) (simp add: targets_of_def needed_def)
  finally show ?thesis by auto
qed

lemma targets_keys: "j \<in> set (targets_of adj i) \<Longrightarrow> i \<in> set (bt_keys adj)"
  by (cases "map_of adj i") (auto simp: targets_of_def bt_keys_def dest!: map_of_SomeD intro: rev_image_eqI)

definition vertices :: "adjacency \<Rightarrow> string set" where
  "vertices adj = set (bt_keys adj) \<union> set (concat (map snd adj))"

lemma card_vertices: "card (vertices adj) \<le> graph_size adj"
proof -
  have "card (set (bt_keys adj)) \<le> length adj"
    using card_length [of "bt_keys adj"] by (simp add: bt_keys_def)
  moreover have "card (set (concat (map snd adj))) \<le> length (concat (map snd adj))" by (rule card_length)
  ultimately show ?thesis
    using card_Un_le [of "set (bt_keys adj)" "set (concat (map snd adj))"]
    by (simp only: vertices_def graph_size_def)
qed

lemma finite_vertices [simp]: "finite (vertices adj)"
  by (simp add: vertices_def)

lemma targets_vertices: "j \<in> set (targets_of adj i) \<Longrightarrow> j \<in> vertices adj"
proof -
  assume j: "j \<in> set (targets_of adj i)"
  then obtain ts where "map_of adj i = Some ts" and ts: "j \<in> set ts"
    by (cases "map_of adj i") (auto simp: targets_of_def)
  then have "(i, ts) \<in> set adj" by (simp add: map_of_SomeD)
  with ts have "j \<in> set (concat (map snd adj))" by (force simp: set_concat)
  then show ?thesis by (simp add: vertices_def)
qed

section \<open>The walk\<close>

definition step_rel :: "adjacency \<Rightarrow> (string \<times> string) set" where
  "step_rel adj = {(i, j). j \<in> set (targets_of adj i)}"

fun path :: "('a \<times> 'a) set \<Rightarrow> 'a list \<Rightarrow> bool" where
  "path R [] = True"
| "path R [x] = True"
| "path R (x # y # xs) = ((x, y) \<in> R \<and> path R (y # xs))"

lemma path_snoc: "path R (xs @ [x]) \<longleftrightarrow> path R xs \<and> (xs = [] \<or> (last xs, x) \<in> R)"
  by (induction R xs rule: path.induct) auto

lemma path_append_right: "path R (xs @ ys) \<Longrightarrow> path R ys"
proof (induction xs)
  case (Cons x xs)
  then show ?case by (cases "xs @ ys") auto
qed simp

definition real_cycle :: "('a \<times> 'a) set \<Rightarrow> 'a list \<Rightarrow> bool" where
  "real_cycle R c \<longleftrightarrow> c \<noteq> [] \<and> path R c \<and> (last c, hd c) \<in> R"

lemma path_trancl: "path R (x # xs) \<Longrightarrow> (x, last (x # xs)) \<in> R\<^sup>*"
  by (induction xs arbitrary: x) (auto intro: converse_rtrancl_into_rtrancl)

lemma real_cycle_trancl: "real_cycle R c \<Longrightarrow> (hd c, hd c) \<in> R\<^sup>+"
  unfolding real_cycle_def
  by (cases c) (auto dest: path_trancl intro: rtrancl_into_trancl1 simp del: last.simps)

definition walk_inv :: "adjacency \<Rightarrow> walk_state \<Rightarrow> bool" where
  "walk_inv adj s \<longleftrightarrow> set (wk_stack s) = wk_on_stack s \<and> wk_done s \<inter> wk_on_stack s = {} \<and>
     path (step_rel adj) (wk_stack s) \<and> (\<forall>c\<in>set (wk_cycles s). real_cycle (step_rel adj) c)"

definition settled :: "adjacency \<Rightarrow> string set \<Rightarrow> bool" where
  "settled adj D \<longleftrightarrow> step_rel adj `` D \<subseteq> D \<and> (\<forall>x\<in>D. (x, x) \<notin> (step_rel adj)\<^sup>+)"

text \<open>What a finished piece of the walk has done.\<close>

definition advanced :: "adjacency \<Rightarrow> walk_state \<Rightarrow> walk_state \<Rightarrow> bool" where
  "advanced adj s t \<longleftrightarrow> wk_stack t = wk_stack s \<and> wk_on_stack t = wk_on_stack s \<and> wk_done s \<subseteq> wk_done t \<and>
     walk_inv adj t \<and> (\<exists>cs. wk_cycles t = wk_cycles s @ cs) \<and>
     (wk_cycles t = [] \<longrightarrow> settled adj (wk_done s) \<longrightarrow> settled adj (wk_done t))"

lemma advanced_refl: "walk_inv adj s \<Longrightarrow> advanced adj s s"
  by (simp add: advanced_def)

lemma advanced_trans: "advanced adj s t \<Longrightarrow> advanced adj t u \<Longrightarrow> advanced adj s u"
  by (auto simp: advanced_def)

lemma settled_insert:
  assumes "settled adj D" and "step_rel adj `` {i} \<subseteq> D" and "i \<notin> D"
  shows "settled adj (insert i D)"
proof -
  have "y \<in> D" if "(x, y) \<in> (step_rel adj)\<^sup>+" "x \<in> insert i D" for x y
    using that by (induction rule: trancl_induct) (use assms in \<open>auto simp: settled_def\<close>)
  with assms show ?thesis unfolding settled_def by blast
qed

lemma visit_on_stack:
  assumes "walk_inv adj s" and "next \<in> wk_on_stack s" and "(last (wk_stack s), next) \<in> step_rel adj"
  shows "\<exists>t. visit f next s = Some t \<and> advanced adj s t \<and> wk_cycles t \<noteq> []"
proof -
  let ?c = "dropWhile (\<lambda>n. n \<noteq> next) (wk_stack s)"
  have mem: "next \<in> set (wk_stack s)" using assms by (simp add: walk_inv_def)
  then have ne: "?c \<noteq> []" by (auto simp: dropWhile_eq_Nil_conv)
  have split: "wk_stack s = takeWhile (\<lambda>n. n \<noteq> next) (wk_stack s) @ ?c" by simp
  have "hd ?c = next" using hd_dropWhile [OF ne] by simp
  moreover have "last ?c = last (wk_stack s)" using ne split by (metis last_appendR)
  moreover have "path (step_rel adj) ?c"
    using assms(1) split path_append_right unfolding walk_inv_def by metis
  ultimately have "real_cycle (step_rel adj) ?c" using ne assms(3) by (simp add: real_cycle_def)
  with assms mem show ?thesis
    by (auto simp: visit_def from_first_def advanced_def walk_inv_def)
qed

lemma fold_visit:
  assumes "\<And>next s. walk_inv adj s \<Longrightarrow> next \<in> vertices adj \<Longrightarrow> next \<notin> wk_on_stack s \<Longrightarrow> next \<notin> wk_done s \<Longrightarrow>
      wk_on_stack s = S \<Longrightarrow> wk_stack s \<noteq> [] \<Longrightarrow> (last (wk_stack s), next) \<in> step_rel adj \<Longrightarrow>
      \<exists>t. f next s = Some t \<and> advanced adj s t \<and> next \<in> wk_done t"
    and "walk_inv adj s" and "wk_on_stack s = S" and "wk_stack s \<noteq> []"
    and "\<forall>n\<in>set ns. (last (wk_stack s), n) \<in> step_rel adj"
  shows "\<exists>t. fold_option (visit f) ns s = Some t \<and> advanced adj s t \<and>
    (wk_cycles t = [] \<longrightarrow> set ns \<subseteq> wk_done t)"
  using assms(2-5)
proof (induction ns arbitrary: s)
  case Nil
  then show ?case by (simp add: advanced_refl)
next
  case (Cons n ns)
  have edge: "(last (wk_stack s), n) \<in> step_rel adj" using Cons.prems(4) by simp
  obtain u where u: "visit f n s = Some u" "advanced adj s u" "wk_cycles u = [] \<longrightarrow> n \<in> wk_done u"
  proof (cases "n \<in> wk_on_stack s")
    case True
    with visit_on_stack [OF Cons.prems(1) True edge, of f] that show ?thesis by blast
  next
    case False
    show ?thesis
    proof (cases "n \<in> wk_done s")
      case True
      with False Cons.prems(1) that [of s] show ?thesis by (simp add: visit_def advanced_refl)
    next
      case nd: False
      have "n \<in> vertices adj" using edge by (auto simp: step_rel_def intro: targets_vertices)
      from assms(1) [OF Cons.prems(1) this False nd Cons.prems(2,3) edge] obtain t where
        "f n s = Some t" "advanced adj s t" "n \<in> wk_done t" by blast
      with False nd that show ?thesis by (simp add: visit_def)
    qed
  qed
  have "walk_inv adj u" "wk_on_stack u = S" "wk_stack u \<noteq> []" "wk_stack u = wk_stack s"
    using u(2) Cons.prems by (auto simp: advanced_def)
  with Cons.IH [of u] Cons.prems(4) obtain t where t: "fold_option (visit f) ns u = Some t"
    "advanced adj u t" "wk_cycles t = [] \<longrightarrow> set ns \<subseteq> wk_done t" by auto
  have "advanced adj s t" using u(2) t(2) by (rule advanced_trans)
  moreover have "wk_cycles t = [] \<longrightarrow> n \<in> wk_done t"
    using u(3) t(2) by (auto simp: advanced_def)
  ultimately show ?case using u(1) t(1,3) by auto
qed

lemma walk_advances:
  assumes "walk_inv adj s" and "i \<in> vertices adj" and "i \<notin> wk_on_stack s" and "i \<notin> wk_done s"
    and "wk_stack s = [] \<or> (last (wk_stack s), i) \<in> step_rel adj"
    and "card (vertices adj - wk_on_stack s) \<le> fuel"
  shows "\<exists>t. walk fuel adj i s = Some t \<and> advanced adj s t \<and> i \<in> wk_done t"
  using assms
proof (induction fuel arbitrary: i s)
  case 0
  then have "vertices adj - wk_on_stack s = {}" by simp
  with 0 show ?case by auto
next
  case (Suc fuel)
  let ?p = "push_node i s"
  have "vertices adj - wk_on_stack ?p = vertices adj - wk_on_stack s - {i}" by (auto simp: push_node_def)
  then have card: "card (vertices adj - wk_on_stack ?p) \<le> fuel"
    using Suc.prems(2,3,6) by simp
  have inv: "walk_inv adj ?p"
    using Suc.prems by (auto simp: walk_inv_def push_node_def path_snoc)
  have stack: "wk_stack ?p \<noteq> []" "last (wk_stack ?p) = i" by (simp_all add: push_node_def)
  have edges: "\<forall>n\<in>set (targets_of adj i). (last (wk_stack ?p), n) \<in> step_rel adj"
    using stack(2) by (simp add: step_rel_def)
  have "\<exists>t. fold_option (visit (\<lambda>next s. walk fuel adj next s)) (targets_of adj i) ?p = Some t \<and>
      advanced adj ?p t \<and> (wk_cycles t = [] \<longrightarrow> set (targets_of adj i) \<subseteq> wk_done t)"
    by (rule fold_visit [OF _ inv refl stack(1) edges]) (use Suc.IH card in auto)
  then obtain t where t: "fold_option (visit (\<lambda>next s. walk fuel adj next s)) (targets_of adj i) ?p = Some t"
    "advanced adj ?p t" "wk_cycles t = [] \<longrightarrow> set (targets_of adj i) \<subseteq> wk_done t" by blast
  have ti: "wk_stack t = wk_stack s @ [i]" "wk_on_stack t = insert i (wk_on_stack s)"
    "wk_done s \<subseteq> wk_done t" "walk_inv adj t" "\<exists>cs. wk_cycles t = wk_cycles s @ cs"
    "wk_cycles t = [] \<Longrightarrow> settled adj (wk_done s) \<Longrightarrow> settled adj (wk_done t)"
    using t(2) by (auto simp: advanced_def push_node_def)
  have "i \<notin> wk_done t" using ti(2,4) by (auto simp: walk_inv_def)
  then have "settled adj (insert i (wk_done t))" if "wk_cycles t = []" "settled adj (wk_done s)"
    using t(3) ti(6) that by (intro settled_insert) (auto simp: step_rel_def)
  moreover have "walk_inv adj (pop_node i t)"
    using ti(1,2,4) Suc.prems(1,3) by (auto simp: walk_inv_def pop_node_def path_snoc)
  ultimately have "advanced adj s (pop_node i t)"
    using ti Suc.prems(3) by (auto simp: advanced_def pop_node_def)
  with t(1) show ?case by (simp add: pop_node_def)
qed


section \<open>All roots\<close>

definition empty_walk :: walk_state where
  "empty_walk = \<lparr>wk_done = {}, wk_stack = [], wk_on_stack = {}, wk_cycles = []\<rparr>"

lemma roots_advance:
  assumes "walk_inv adj s" and "wk_stack s = []" and "set roots \<subseteq> vertices adj"
  shows "\<exists>t. fold_option (\<lambda>root s. if root \<in> wk_done s then Some s else walk (Suc (graph_size adj)) adj root s) roots s = Some t \<and>
    advanced adj s t \<and> set roots \<subseteq> wk_done t"
  using assms
proof (induction roots arbitrary: s)
  case Nil
  then show ?case by (simp add: advanced_refl)
next
  case (Cons r roots)
  have on: "wk_on_stack s = {}" using Cons.prems(1,2) by (simp add: walk_inv_def)
  obtain u where u: "(if r \<in> wk_done s then Some s else walk (Suc (graph_size adj)) adj r s) = Some u"
    "advanced adj s u" "r \<in> wk_done u"
  proof (cases "r \<in> wk_done s")
    case True
    with Cons.prems(1) that [of s] show ?thesis by (simp add: advanced_refl)
  next
    case False
    have "card (vertices adj - wk_on_stack s) \<le> Suc (graph_size adj)"
      using on card_vertices [of adj] by simp
    with walk_advances [OF Cons.prems(1), of r "Suc (graph_size adj)"] Cons.prems on False that
    show ?thesis by auto
  qed
  have "walk_inv adj u" "wk_stack u = []" using u(2) Cons.prems(2) by (auto simp: advanced_def)
  with Cons.IH [of u] Cons.prems(3) obtain t where t:
    "fold_option (\<lambda>root s. if root \<in> wk_done s then Some s else walk (Suc (graph_size adj)) adj root s) roots u = Some t"
    "advanced adj u t" "set roots \<subseteq> wk_done t" by auto
  have "advanced adj s t" using u(2) t(2) by (rule advanced_trans)
  moreover have "r \<in> wk_done t" using u(3) t(2) by (auto simp: advanced_def)
  ultimately show ?case using u(1) t(1,3) by auto
qed

lemma step_rel_adjacency: "step_rel (adjacency_of edges) = needed edges"
  by (auto simp: step_rel_def targets_adjacency)

lemma find_cycles_spec:
  "\<exists>cs. find_cycles edges = Some cs \<and> (\<forall>c\<in>set cs. real_cycle (needed edges) c) \<and>
     (cs = [] \<longrightarrow> acyclic (needed edges))"
proof -
  let ?adj = "adjacency_of edges"
  have inv: "walk_inv ?adj empty_walk" by (simp add: walk_inv_def empty_walk_def)
  have "set (bt_keys ?adj) \<subseteq> vertices ?adj" by (simp add: vertices_def)
  from roots_advance [OF inv _ this] obtain t where t: "walk_roots ?adj = Some t" "advanced ?adj empty_walk t"
    "set (bt_keys ?adj) \<subseteq> wk_done t"
    unfolding walk_roots_def by (auto simp: empty_walk_def)
  have "acyclic (needed edges)" if "wk_cycles t = []"
  proof -
    have "settled ?adj (wk_done t)"
      using t(2) that by (auto simp: advanced_def empty_walk_def settled_def)
    then have no: "\<forall>x\<in>wk_done t. (x, x) \<notin> (needed edges)\<^sup>+"
      by (simp add: settled_def step_rel_adjacency)
    have "(x, x) \<notin> (needed edges)\<^sup>+" for x
    proof
      assume x: "(x, x) \<in> (needed edges)\<^sup>+"
      then obtain y where "(x, y) \<in> needed edges" by (meson tranclD)
      then have "x \<in> set (bt_keys ?adj)"
        using targets_adjacency [of y edges x] targets_keys by blast
      with t(3) no x show False by blast
    qed
    then show ?thesis by (simp add: acyclic_def)
  qed
  moreover have "\<forall>c\<in>set (wk_cycles t). real_cycle (needed edges) c"
    using t(2) by (auto simp: advanced_def walk_inv_def step_rel_adjacency)
  ultimately show ?thesis using t(1) by (simp add: find_cycles_def)
qed

lemma dedup_by_key_subset: "set (dedup_by_key seen cs) \<subseteq> set cs"
  by (induction seen cs rule: dedup_by_key.induct) auto

lemma dedup_by_key_Nil: "dedup_by_key {} cs = [] \<longleftrightarrow> cs = []"
  by (cases cs) auto

lemma check_cycles_spec:
  "\<exists>ws. check_cycles edges = Some ws \<and> (ws = [] \<longleftrightarrow> acyclic (needed edges)) \<and> (\<forall>w\<in>set ws. is_blocking w) \<and>
     (\<forall>w\<in>set ws. \<exists>c. w = cycle_warning c \<and> real_cycle (needed edges) c)"
proof -
  obtain cs where cs: "find_cycles edges = Some cs" "\<forall>c\<in>set cs. real_cycle (needed edges) c"
    "cs = [] \<longrightarrow> acyclic (needed edges)" using find_cycles_spec by blast
  have "\<not> acyclic (needed edges)" if ne: "cs \<noteq> []"
  proof -
    have "hd cs \<in> set cs" using ne by simp
    with cs(2) have "(hd (hd cs), hd (hd cs)) \<in> (needed edges)\<^sup>+" by (metis real_cycle_trancl)
    then show ?thesis by (auto simp: acyclic_def)
  qed
  with cs have "acyclic (needed edges) \<longleftrightarrow> cs = []" by blast
  moreover have "\<exists>c. w = cycle_warning c \<and> real_cycle (needed edges) c"
    if "w \<in> set (map cycle_warning (dedup_by_key {} cs))" for w
    using that cs(2) dedup_by_key_subset [of "{}" cs] by auto
  ultimately show ?thesis
    using cs(1) by (auto simp: check_cycles_def dedup_by_key_Nil cycle_warning_def blocking_def is_blocking_def)
qed

lemma start_order_in_order:
  assumes "check_cycles edges = Some []"
  shows "in_order (start_deps ids edges) (topological_start_order ids edges)"
  using check_cycles_spec [of edges] assms by (intro start_order_acyclic) auto

section \<open>The properties\<close>

text \<open>
  C5: The cycle check always ends without its panic, and is exact: it warns exactly when the edges
  needed to start have a cycle, every warning blocks, and every warning names a real cycle.
\<close>
theorem check_cycles_exact:
  "\<exists>ws. check_cycles edges = Some ws \<and> (ws = [] \<longleftrightarrow> acyclic (needed edges)) \<and> list_all is_blocking ws \<and>
     list_all (\<lambda>w. \<exists>c. w = cycle_warning c \<and> real_cycle (needed edges) c) ws"
  using check_cycles_spec [of edges] by (auto simp: list_all_iff)

text \<open>
  C6: When the cycle check has nothing to report, the start order is a permutation of the nodes to
  start in which every node comes after all those among them it needs to start.
\<close>
theorem start_order_sound:
  assumes "check_cycles edges = Some []"
  shows "mset (topological_start_order ids edges) = mset ids \<and>
    in_order (start_deps ids edges) (topological_start_order ids edges)"
  using start_order_in_order [OF assms] by (simp add: start_order_mset)

definition sample_edge :: "string \<Rightarrow> string \<Rightarrow> edge" where
  "sample_edge a b = \<lparr>e_from = a, e_to = b, e_kind = ''depends-on'', e_required = True, e_condition = None,
     e_via_flow = None, e_flows = [], e_implied = False\<rparr>"

theorem start_order_sound_witness:
  "in_order (start_deps [''api'', ''db''] [sample_edge ''api'' ''db''])
     (topological_start_order [''api'', ''db''] [sample_edge ''api'' ''db''])"
proof -
  have "check_cycles [sample_edge ''api'' ''db''] = Some []"
    by (simp add: check_cycles_def find_cycles_def walk_roots_def adjacency_of_def needed_pairs_def
        needed_to_start_def sample_edge_def bt_insert_def bt_map_def sorted_dedup_def bt_keys_def
        graph_size_def targets_of_def visit_def push_node_def pop_node_def numeral_eq_Suc)
  from start_order_sound [OF this, of "[''api'', ''db'']"] show ?thesis by blast
qed

text \<open>
  What a start covers is the least set that holds the asked-for nodes, everything they need to
  start, and the migration of every store in it together with what that migration needs.
\<close>
theorem start_set_is_least:
  "add_migrations nodes edges (required_closure edges (set ids)) =
     \<Inter> {T. set ids \<subseteq> T \<and> needed_closed edges T \<and> migration_closed nodes T}"
proof -
  let ?c = "required_closure edges (set ids)"
  let ?s = "add_migrations nodes edges ?c"
  have c: "needed_closed edges ?c" by (simp add: needed_closed_closure)
  note spec = add_migrations_spec [OF c, of nodes]
  have "?s \<in> {T. set ids \<subseteq> T \<and> needed_closed edges T \<and> migration_closed nodes T}"
    using spec required_closure_seeds [of "set ids" edges] by auto
  moreover have "?s \<subseteq> T" if "set ids \<subseteq> T" "needed_closed edges T" "migration_closed nodes T" for T
  proof -
    have "?c \<subseteq> T" using that needed_closed_rtrancl [OF that(2)] by (auto simp: required_closure_eq)
    with spec that show ?thesis by blast
  qed
  ultimately show ?thesis by blast
qed

end
