(* ===== verification/Members_Props.thy ===== *)
theory Members_Props
  imports Universe Graph_Claims
begin

text \<open>
  The expansions are depth-first searches; with the fuel used they visit everything reachable, so a
  flow's members are exactly the direct members of the flows and repos it reaches. Membership is the
  least set closed under what its members need.
\<close>

section \<open>Depth-first search with a visited set\<close>

fun dfs :: "nat \<Rightarrow> ('a \<Rightarrow> 'a list) \<Rightarrow> 'a \<Rightarrow> 'a set \<Rightarrow> 'a set" where
  "dfs 0 nx x seen = seen"
| "dfs (Suc fuel) nx x seen =
     (if x \<in> seen then seen else fold (dfs fuel nx) (nx x) (insert x seen))"

definition next_rel :: "('a \<Rightarrow> 'a list) \<Rightarrow> ('a \<times> 'a) set" where
  "next_rel nx = {(x, y). y \<in> set (nx x)}"

definition dfs_result :: "('a \<Rightarrow> 'a list) \<Rightarrow> 'a set \<Rightarrow> 'a set \<Rightarrow> 'a set \<Rightarrow> bool" where
  "dfs_result nx starts seen D \<longleftrightarrow>
     seen \<subseteq> D \<and> starts \<subseteq> D \<and> D \<subseteq> seen \<union> (next_rel nx)\<^sup>* `` starts \<and> (\<forall>y\<in>D - seen. set (nx y) \<subseteq> D)"

lemma dfs_result_seq:
  assumes "dfs_result nx {x} seen D" and "dfs_result nx ys D E"
  shows "dfs_result nx (insert x ys) seen E"
proof -
  have D: "seen \<subseteq> D" "x \<in> D" "D \<subseteq> seen \<union> (next_rel nx)\<^sup>* `` {x}" "\<forall>y\<in>D - seen. set (nx y) \<subseteq> D"
    and E: "D \<subseteq> E" "ys \<subseteq> E" "E \<subseteq> D \<union> (next_rel nx)\<^sup>* `` ys" "\<forall>y\<in>E - D. set (nx y) \<subseteq> E"
    using assms by (simp_all add: dfs_result_def)
  have "set (nx y) \<subseteq> E" if "y \<in> E - seen" for y
    using that D(4) E(1,4) by (cases "y \<in> D") auto
  moreover have "E \<subseteq> seen \<union> (next_rel nx)\<^sup>* `` insert x ys"
    using D(3) E(3) by blast
  ultimately show ?thesis using D(1,2) E(1,2) by (auto simp: dfs_result_def)
qed

lemma dfs_complete:
  assumes "finite V" and closed: "\<And>x. x \<in> V \<Longrightarrow> set (nx x) \<subseteq> V"
    and "x \<in> V" and "card (V - seen) \<le> fuel" and "seen \<subseteq> V"
  shows "dfs_result nx {x} seen (dfs fuel nx x seen) \<and> dfs fuel nx x seen \<subseteq> V"
  using assms(3-5)
proof (induction fuel arbitrary: x seen)
  case 0
  then have "x \<in> seen" using assms(1) by auto
  with 0 show ?case by (auto simp: dfs_result_def)
next
  case (Suc fuel)
  show ?case
  proof (cases "x \<in> seen")
    case True
    with Suc.prems show ?thesis by (auto simp: dfs_result_def)
  next
    case False
    have run: "dfs_result nx (set ys) s (fold (dfs fuel nx) ys s) \<and> fold (dfs fuel nx) ys s \<subseteq> V"
      if "set ys \<subseteq> V" "s \<subseteq> V" "card (V - s) \<le> fuel" for ys s
      using that
    proof (induction ys arbitrary: s)
      case Nil
      then show ?case by (simp add: dfs_result_def)
    next
      case (Cons y ys)
      let ?s = "dfs fuel nx y s"
      have y: "dfs_result nx {y} s ?s" "?s \<subseteq> V" using Suc.IH [of y s] Cons.prems by auto
      have "card (V - ?s) \<le> card (V - s)"
        using y(1) assms(1) by (intro card_mono) (auto simp: dfs_result_def)
      with Cons.IH [of ?s] Cons.prems y(2) have
        "dfs_result nx (set ys) ?s (fold (dfs fuel nx) ys ?s)" "fold (dfs fuel nx) ys ?s \<subseteq> V" by auto
      with dfs_result_seq [OF y(1)] show ?case by simp
    qed
    have "V - seen = insert x (V - insert x seen)" using False Suc.prems(1) by auto
    then have "card (V - insert x seen) \<le> fuel"
      using Suc.prems(2) assms(1) by (metis Diff_iff card_insert_disjoint finite_Diff insertI1 not_less_eq_eq)
    with run [of "nx x" "insert x seen"] closed [OF Suc.prems(1)] Suc.prems
    have r: "dfs_result nx (set (nx x)) (insert x seen) (fold (dfs fuel nx) (nx x) (insert x seen))"
      and v: "fold (dfs fuel nx) (nx x) (insert x seen) \<subseteq> V" by auto
    have "(next_rel nx)\<^sup>* `` set (nx x) \<subseteq> (next_rel nx)\<^sup>* `` {x}"
      by (auto simp: next_rel_def intro: converse_rtrancl_into_rtrancl)
    with r have "dfs_result nx {x} seen (fold (dfs fuel nx) (nx x) (insert x seen))"
      unfolding dfs_result_def by blast
    with False v show ?thesis by simp
  qed
qed

lemma dfs_reach:
  assumes "finite V" and "\<And>x. x \<in> V \<Longrightarrow> set (nx x) \<subseteq> V" and "x \<in> V" and "card V \<le> fuel"
  shows "dfs fuel nx x {} = (next_rel nx)\<^sup>* `` {x}"
proof
  have r: "dfs_result nx {x} {} (dfs fuel nx x {})"
    using dfs_complete [where V = V and nx = nx and x = x and seen = "{}" and fuel = fuel] assms by simp
  then show "dfs fuel nx x {} \<subseteq> (next_rel nx)\<^sup>* `` {x}" by (auto simp: dfs_result_def)
  have "y \<in> dfs fuel nx x {}" if "(x, y) \<in> (next_rel nx)\<^sup>*" for y
    using that by (induction rule: rtrancl_induct) (use r in \<open>auto simp: dfs_result_def next_rel_def\<close>)
  then show "(next_rel nx)\<^sup>* `` {x} \<subseteq> dfs fuel nx x {}" by blast
qed

section \<open>Repos\<close>

definition next_repos :: "resolve_ctx \<Rightarrow> string \<Rightarrow> string list" where
  "next_repos cx repo = (if is_scanned cx repo then included_repos cx repo else [])"

definition members_of :: "resolve_ctx \<Rightarrow> string set \<Rightarrow> string set" where
  "members_of cx repos = \<Union> (own_members cx ` repos)"

lemma repo_members_dfs:
  "fst (repo_members fuel cx repo acc) = dfs fuel (next_repos cx) repo (fst acc) \<and>
   fst acc \<subseteq> fst (repo_members fuel cx repo acc) \<and>
   snd (repo_members fuel cx repo acc) = snd acc \<union> members_of cx (fst (repo_members fuel cx repo acc) - fst acc)"
proof (induction fuel arbitrary: repo acc)
  case 0
  then show ?case by (simp add: members_of_def)
next
  case (Suc fuel)
  have run: "fst (fold (\<lambda>t. repo_members fuel cx t) ts a) = fold (dfs fuel (next_repos cx)) ts (fst a) \<and>
      fst a \<subseteq> fst (fold (\<lambda>t. repo_members fuel cx t) ts a) \<and>
      snd (fold (\<lambda>t. repo_members fuel cx t) ts a) =
        snd a \<union> members_of cx (fst (fold (\<lambda>t. repo_members fuel cx t) ts a) - fst a)" for ts a
  proof (induction ts arbitrary: a)
    case Nil
    then show ?case by (simp add: members_of_def)
  next
    case (Cons t ts)
    let ?b = "repo_members fuel cx t a"
    let ?c = "fold (\<lambda>t. repo_members fuel cx t) ts ?b"
    have "fst ?c - fst a = (fst ?b - fst a) \<union> (fst ?c - fst ?b)"
      using Suc.IH [of t a] Cons.IH [of ?b] by blast
    then have "members_of cx (fst ?c - fst a) = members_of cx (fst ?b - fst a) \<union> members_of cx (fst ?c - fst ?b)"
      by (simp add: members_of_def)
    moreover have "fst a \<subseteq> fst ?b" "fst ?b \<subseteq> fst ?c" using Suc.IH [of t a] Cons.IH [of ?b] by blast+
    ultimately show ?case using Suc.IH [of t a] Cons.IH [of ?b] by (simp add: Un_assoc)
  qed
  show ?case
  proof (cases "repo \<in> fst acc")
    case True
    then show ?thesis by (simp add: members_of_def)
  next
    case False
    let ?a = "(insert repo (fst acc), snd acc \<union> own_members cx repo)"
    let ?c = "fold (\<lambda>t. repo_members fuel cx t) (next_repos cx repo) ?a"
    have eq: "repo_members (Suc fuel) cx repo acc = ?c"
      using False by (simp add: next_repos_def Let_def)
    have "fst ?c - fst acc = insert repo (fst ?c - insert repo (fst acc))"
      using run [of "next_repos cx repo" ?a] False by auto
    then have "members_of cx (fst ?c - fst acc) = own_members cx repo \<union> members_of cx (fst ?c - insert repo (fst acc))"
      by (simp add: members_of_def)
    then show ?thesis
      unfolding eq using run [of "next_repos cx repo" ?a] False by auto
  qed
qed

definition known_repos :: "resolve_ctx \<Rightarrow> string \<Rightarrow> string set" where
  "known_repos cx repo = insert repo (set (concat (map bt_values (bt_values (rx_includes cx)))))"

lemma next_repos_known: "set (next_repos cx x) \<subseteq> known_repos cx repo"
proof
  fix y assume y: "y \<in> set (next_repos cx x)"
  then obtain m where m: "map_of (rx_includes cx) x = Some m" "y \<in> set (bt_values m)"
    by (cases "map_of (rx_includes cx) x"; cases "is_scanned cx x")
      (simp_all add: next_repos_def included_repos_def)
  then have "m \<in> set (bt_values (rx_includes cx))" by (simp add: bt_values_mono)
  with m(2) show "y \<in> known_repos cx repo" by (auto simp: known_repos_def)
qed

lemma card_insert_concat: "card (insert x (set (concat xss))) \<le> 2 + length (concat xss)"
proof -
  have "card (insert x A) \<le> Suc (card A)" if "finite A" for A using that by (simp add: card_insert_if)
  then have "card (insert x (set (concat xss))) \<le> Suc (card (set (concat xss)))" by (metis finite_set)
  with card_length [of "concat xss"] show ?thesis by linarith
qed

lemma card_known_repos: "card (known_repos cx repo) \<le> repo_fuel cx"
  unfolding known_repos_def repo_fuel_def by (rule card_insert_concat)

lemma repo_members_exact:
  "snd (repo_members (repo_fuel cx) cx repo ({}, out)) =
     out \<union> members_of cx ((next_rel (next_repos cx))\<^sup>* `` {repo})"
proof -
  have "dfs (repo_fuel cx) (next_repos cx) repo {} = (next_rel (next_repos cx))\<^sup>* `` {repo}"
  proof (rule dfs_reach [of "known_repos cx repo"])
    show "finite (known_repos cx repo)" by (simp add: known_repos_def)
    show "repo \<in> known_repos cx repo" by (simp add: known_repos_def)
  qed (rule next_repos_known card_known_repos)+
  with repo_members_dfs [of "repo_fuel cx" cx repo "({}, out)"] show ?thesis by simp
qed


section \<open>Flows\<close>

text \<open>What one entry of a flow adds directly, and the flows it leads to.\<close>

definition entry_members :: "resolve_ctx \<Rightarrow> component_config \<Rightarrow> string \<Rightarrow> string \<Rightarrow> string set" where
  "entry_members cx component repo entry =
     (case parse_target entry of
        Bare name \<Rightarrow>
          if bt_has (cc_services component) name then {node_id_of name repo}
          else if bt_has (cc_flows component) name then {}
          else if has_alias cx repo name
          then members_of cx ((next_rel (next_repos cx))\<^sup>* `` {alias_or_self cx repo name})
          else {}
      | Qualified _ _ \<Rightarrow> {})"

definition entry_flow :: "resolve_ctx \<Rightarrow> component_config \<Rightarrow> string \<Rightarrow> string \<Rightarrow> (string \<times> string) list" where
  "entry_flow cx component repo entry =
     (case parse_target entry of
        Bare name \<Rightarrow>
          if \<not> bt_has (cc_services component) name \<and> bt_has (cc_flows component) name then [(repo, name)] else []
      | Qualified alias name \<Rightarrow>
          if has_alias cx repo alias \<and> check_foreign_flow cx alias (alias_or_self cx repo alias) name = Inr ()
          then [(alias_or_self cx repo alias, name)] else [])"

definition flow_entries :: "resolve_ctx \<Rightarrow> string \<times> string \<Rightarrow> (component_config \<times> string list) option" where
  "flow_entries cx p =
     (case map_of (rx_scanned cx) (fst p) of
        None \<Rightarrow> None
      | Some component \<Rightarrow> map_option (\<lambda>es. (component, es)) (map_of (cc_flows component) (snd p)))"

definition flow_members :: "resolve_ctx \<Rightarrow> string \<times> string \<Rightarrow> string set" where
  "flow_members cx p =
     (if \<not> is_scanned cx (fst p) then (if bt_has (rx_nodes cx) (fst p) then {fst p} else {})
      else case flow_entries cx p of
             None \<Rightarrow> {}
           | Some (component, es) \<Rightarrow> \<Union> (entry_members cx component (fst p) ` set es))"

definition next_flows :: "resolve_ctx \<Rightarrow> string \<times> string \<Rightarrow> (string \<times> string) list" where
  "next_flows cx p =
     (case flow_entries cx p of
        None \<Rightarrow> []
      | Some (component, es) \<Rightarrow> concat (map (entry_flow cx component (fst p)) es))"

text \<open>The accumulated output: what was there, and the members of every flow newly expanded.\<close>

definition expands :: "resolve_ctx \<Rightarrow> (string \<times> string) set \<Rightarrow> expansion \<Rightarrow> expansion \<Rightarrow> string set \<Rightarrow> bool" where
  "expands cx D acc acc' direct \<longleftrightarrow>
     ex_seen acc' = D \<and> ex_seen acc \<subseteq> D \<and>
     ex_out acc' = ex_out acc \<union> direct \<union> \<Union> (flow_members cx ` (D - ex_seen acc))"

lemma ex_error_simps [simp]:
  "ex_seen (ex_error d e acc) = ex_seen acc" "ex_out (ex_error d e acc) = ex_out acc"
  by (simp_all add: ex_error_def)

lemma expands_seq:
  assumes "expands cx D a b d1" and "expands cx E b c d2"
  shows "expands cx E a c (d1 \<union> d2)"
proof -
  have D: "ex_seen b = D" "ex_seen a \<subseteq> D" "ex_out b = ex_out a \<union> d1 \<union> \<Union> (flow_members cx ` (D - ex_seen a))"
    and E: "ex_seen c = E" "D \<subseteq> E" "ex_out c = ex_out b \<union> d2 \<union> \<Union> (flow_members cx ` (E - D))"
    using assms by (simp_all add: expands_def)
  have "E - ex_seen a = (D - ex_seen a) \<union> (E - D)" using D(2) E(2) by blast
  then have "\<Union> (flow_members cx ` (E - ex_seen a)) =
      \<Union> (flow_members cx ` (D - ex_seen a)) \<union> \<Union> (flow_members cx ` (E - D))" by (simp add: image_Un)
  then have "ex_out c = ex_out a \<union> (d1 \<union> d2) \<union> \<Union> (flow_members cx ` (E - ex_seen a))"
    unfolding E(3) D(3) by (simp add: Un_ac)
  with D(2) E(1,2) show ?thesis by (auto simp: expands_def)
qed

lemma expand_entry_step:
  assumes "\<And>r f d a. expands cx (dfs fuel (next_flows cx) (r, f) (ex_seen a)) a (recurse r f d a) {}"
  shows "expands cx (fold (dfs fuel (next_flows cx)) (entry_flow cx component repo entry) (ex_seen acc)) acc
    (expand_entry recurse cx component repo depth entry acc) (entry_members cx component repo entry)"
proof (cases "parse_target entry")
  case (Bare name)
  have none: "expands cx (ex_seen acc) acc acc {}" by (simp add: expands_def)
  have more: "expands cx (ex_seen acc) acc (acc\<lparr>ex_out := ex_out acc \<union> d\<rparr>) d" for d by (simp add: expands_def)
  show ?thesis
  proof (cases "bt_has (cc_services component) name")
    case True
    with Bare more [of "{node_id_of name repo}"] show ?thesis
      by (simp add: expand_entry_def entry_flow_def entry_members_def Let_def)
  next
    case ns: False
    show ?thesis
    proof (cases "bt_has (cc_flows component) name")
      case True
      with Bare ns assms [of repo name acc "depth + 1"] show ?thesis
        by (simp add: expand_entry_def entry_flow_def entry_members_def Let_def)
    next
      case nf: False
      with Bare ns none more show ?thesis
        by (simp add: expand_entry_def entry_flow_def entry_members_def repo_members_exact Let_def)
          (simp add: expands_def)
    qed
  qed
next
  case (Qualified al name)
  show ?thesis
  proof (cases "has_alias cx repo al")
    case True
    show ?thesis
    proof (cases "check_foreign_flow cx al (alias_or_self cx repo al) name")
      case (Inl e)
      with Qualified True show ?thesis
        by (simp add: expand_entry_def entry_flow_def entry_members_def Let_def expands_def)
    next
      case (Inr u)
      with Qualified True assms [of "alias_or_self cx repo al" name acc "depth + 1"] show ?thesis
        by (simp add: expand_entry_def entry_flow_def entry_members_def Let_def)
    qed
  next
    case False
    with Qualified show ?thesis
      by (simp add: expand_entry_def entry_flow_def entry_members_def Let_def expands_def)
  qed
qed

lemma expands_grow:
  assumes "expands cx D (acc\<lparr>ex_seen := insert p (ex_seen acc)\<rparr>) acc' (flow_members cx p)" and "p \<notin> ex_seen acc"
  shows "expands cx D acc acc' {}"
proof -
  have D: "ex_seen acc' = D" "insert p (ex_seen acc) \<subseteq> D"
    "ex_out acc' = ex_out acc \<union> flow_members cx p \<union> \<Union> (flow_members cx ` (D - insert p (ex_seen acc)))"
    using assms(1) by (simp_all add: expands_def)
  have "D - ex_seen acc = insert p (D - insert p (ex_seen acc))" using D(2) assms(2) by blast
  then have "\<Union> (flow_members cx ` (D - ex_seen acc)) =
      flow_members cx p \<union> \<Union> (flow_members cx ` (D - insert p (ex_seen acc)))" by simp
  with D show ?thesis by (simp add: expands_def Un_assoc)
qed

lemma expand_flow_dfs:
  "expands cx (dfs fuel (next_flows cx) (repo, flow) (ex_seen acc)) acc (expand_flow fuel cx repo flow depth acc) {}"
proof (induction fuel arbitrary: repo flow depth acc)
  case 0
  then show ?case by (simp add: expands_def)
next
  case (Suc fuel)
  have run: "expands cx (fold (dfs fuel (next_flows cx)) (concat (map (entry_flow cx component repo) es)) (ex_seen a)) a
      (fold (expand_entry (\<lambda>r f d a. expand_flow fuel cx r f d a) cx component repo depth) es a)
      (\<Union> (entry_members cx component repo ` set es))" for component es a
  proof (induction es arbitrary: a)
    case Nil
    then show ?case by (simp add: expands_def)
  next
    case (Cons e es)
    let ?b = "expand_entry (\<lambda>r f d a. expand_flow fuel cx r f d a) cx component repo depth e a"
    have b: "expands cx (fold (dfs fuel (next_flows cx)) (entry_flow cx component repo e) (ex_seen a)) a ?b
      (entry_members cx component repo e)" by (rule expand_entry_step) (rule Suc.IH)
    then have "fold (dfs fuel (next_flows cx)) (entry_flow cx component repo e) (ex_seen a) = ex_seen ?b"
      by (simp add: expands_def)
    with expands_seq [OF b Cons.IH [of ?b]] show ?case by simp
  qed
  show ?case
  proof (cases "(repo, flow) \<in> ex_seen acc")
    case True
    then show ?thesis by (simp add: expands_def)
  next
    case False
    let ?acc = "acc\<lparr>ex_seen := insert (repo, flow) (ex_seen acc)\<rparr>"
    have grow: "expands cx D acc acc' {}"
      if "expands cx D ?acc acc' (flow_members cx (repo, flow))" for D acc'
      using expands_grow [OF that False] .
    show ?thesis
    proof (cases "map_of (rx_scanned cx) repo")
      case None
      then have m: "flow_members cx (repo, flow) = (if bt_has (rx_nodes cx) repo then {repo} else {})"
        and n: "next_flows cx (repo, flow) = []"
        by (simp_all add: flow_members_def is_scanned_def bt_has_iff next_flows_def flow_entries_def)
      have "expands cx (insert (repo, flow) (ex_seen acc)) ?acc (expand_flow (Suc fuel) cx repo flow depth acc)
          (flow_members cx (repo, flow))"
        using None False by (simp add: m expands_def Let_def)
      with grow n False show ?thesis by simp
    next
      case (Some component)
      show ?thesis
      proof (cases "map_of (cc_flows component) flow")
        case None
        with Some have m: "flow_members cx (repo, flow) = {}" and n: "next_flows cx (repo, flow) = []"
          by (simp_all add: flow_members_def is_scanned_def bt_has_iff next_flows_def flow_entries_def)
        have "expands cx (insert (repo, flow) (ex_seen acc)) ?acc (expand_flow (Suc fuel) cx repo flow depth acc)
            (flow_members cx (repo, flow))"
          using None Some False by (simp add: m expands_def Let_def)
        with grow n False show ?thesis by simp
      next
        case es: (Some es)
        have "flow_members cx (repo, flow) = \<Union> (entry_members cx component repo ` set es)"
          using Some es by (simp add: flow_members_def flow_entries_def is_scanned_def bt_has_iff)
        moreover have "next_flows cx (repo, flow) = concat (map (entry_flow cx component repo) es)"
          using Some es by (simp add: next_flows_def flow_entries_def)
        ultimately show ?thesis
          using run [of component es ?acc] Some es False grow by (simp add: Let_def)
      qed
    qed
  qed
qed

end
