(* ===== verification/Naming_Claims.thy ===== *)
theory Naming_Claims
  imports Universe
begin

text \<open>The properties of derived names: labels, collisions, FQDN templates, versions; and the
  grouping by name that both collision checks rest on.\<close>

section \<open>Collisions\<close>

definition group_add :: "'k::linorder \<times> 'v \<Rightarrow> ('k, 'v list) btree \<Rightarrow> ('k, 'v list) btree" where
  "group_add p m = bt_insert (fst p) ((case map_of m (fst p) of None \<Rightarrow> [] | Some vs \<Rightarrow> vs) @ [snd p]) m"

definition grouped :: "('k \<times> 'v) list \<Rightarrow> 'k \<Rightarrow> 'v list option" where
  "grouped ps k = (if k \<in> fst ` set ps then Some (map snd (filter (\<lambda>p. fst p = k) ps)) else None)"

lemma filter_fst_empty: "filter (\<lambda>p. fst p = k) ps = [] \<longleftrightarrow> k \<notin> fst ` set ps"
  by (force simp: filter_empty_conv)

lemma grouped_snoc:
  "grouped (ps @ [p]) k =
     (if k = fst p then Some ((case grouped ps k of None \<Rightarrow> [] | Some vs \<Rightarrow> vs) @ [snd p]) else grouped ps k)"
  supply filter_fst_empty [of k, simp]
proof (cases "k \<in> fst ` set ps")
  case False
  then have "filter (\<lambda>p. fst p = k) ps = []" by (simp only: filter_fst_empty not_False_eq_True)
  with False show ?thesis by (cases "k = fst p") (simp_all add: grouped_def)
qed (cases "k = fst p"; simp add: grouped_def)

lemma group_fold: "bt_wf (fold group_add ps []) \<and> map_of (fold group_add ps []) = grouped ps"
proof (induction ps rule: rev_induct)
  case Nil
  then show ?case by (auto simp: grouped_def)
next
  case (snoc p ps)
  then show ?case by (auto simp: group_add_def grouped_snoc fun_eq_iff)
qed

lemma group_by_name_fold: "group_by_name ps = fold group_add ps []"
  unfolding group_by_name_def by (rule fold_cong) (auto simp: group_add_def fun_eq_iff)

lemma distinct_groups: "distinct (map fst ps) \<longleftrightarrow> (\<forall>k. length (filter (\<lambda>p. fst p = k) ps) \<le> 1)"
proof (induction ps)
  case (Cons p ps)
  have "length (filter (\<lambda>q. fst q = fst p) ps) = 0 \<longleftrightarrow> fst p \<notin> fst ` set ps" by (simp only: length_0_conv filter_fst_empty)
  then have "(\<forall>k. length (filter (\<lambda>q. fst q = k) (p # ps)) \<le> 1) \<longleftrightarrow>
      fst p \<notin> fst ` set ps \<and> (\<forall>k. length (filter (\<lambda>p. fst p = k) ps) \<le> 1)"
    by (auto split: if_splits)
  with Cons show ?case by auto
qed simp

lemma no_group_twice: "filter (\<lambda>(_, vs). 1 < length vs) (group_by_name ps) = [] \<longleftrightarrow> distinct (map fst ps)"
proof -
  have g: "(k, vs) \<in> set (group_by_name ps) \<longleftrightarrow> grouped ps k = Some vs" for k vs
    using group_fold [of ps] by (simp add: group_by_name_fold bt_in_set)
  have "filter (\<lambda>(_, vs). 1 < length vs) (group_by_name ps) = [] \<longleftrightarrow> (\<forall>k vs. grouped ps k = Some vs \<longrightarrow> length vs \<le> 1)"
  proof -
    have "filter (\<lambda>(_, vs). 1 < length vs) (group_by_name ps) = [] \<longleftrightarrow>
        (\<forall>x\<in>set (group_by_name ps). length (snd x) \<le> 1)"
      by (simp add: filter_empty_conv split_beta not_less)
    also have "\<dots> \<longleftrightarrow> (\<forall>k vs. (k, vs) \<in> set (group_by_name ps) \<longrightarrow> length vs \<le> 1)" by force
    finally show ?thesis by (simp only: g)
  qed
  also have "\<dots> \<longleftrightarrow> (\<forall>k. length (filter (\<lambda>p. fst p = k) ps) \<le> 1)"
  proof (intro iffI allI)
    fix k assume h: "\<forall>k vs. grouped ps k = Some vs \<longrightarrow> length vs \<le> 1"
    show "length (filter (\<lambda>p. fst p = k) ps) \<le> 1"
    proof (cases "k \<in> fst ` set ps")
      case True
      with h [rule_format, of k "map snd (filter (\<lambda>p. fst p = k) ps)"] show ?thesis by (simp add: grouped_def)
    next
      case False
      then have "filter (\<lambda>p. fst p = k) ps = []" by (simp only: filter_fst_empty not_False_eq_True)
      then show ?thesis by simp
    qed
  qed (auto simp: grouped_def split: if_splits)
  finally show ?thesis by (simp add: distinct_groups)
qed

lemma collisions_exact:
  "check_derived_name_collisions nodes = [] \<longleftrightarrow>
     distinct (map fst (concat (map node_claims nodes))) \<and>
     distinct (map (\<lambda>n. container_name workspace_name (n_id n)) nodes)"
proof -
  have "distinct (map (\<lambda>n. container_name workspace_name (n_id n)) nodes) \<longleftrightarrow>
      distinct (map fst (map (\<lambda>n. (sanitize_label (n_id n), n_id n)) nodes))"
    by (simp add: container_name_def distinct_map inj_on_def comp_def)
  then show ?thesis
    by (simp only: check_derived_name_collisions_def append_is_Nil_conv check_domains_def check_container_names_def
        map_is_Nil_conv no_group_twice)
qed

section \<open>Labels\<close>

definition label_char :: "char \<Rightarrow> bool" where
  "label_char c \<longleftrightarrow> is_lower c \<or> is_digit c \<or> c = CHR ''-''"

definition not_both_dashes :: "char \<Rightarrow> char \<Rightarrow> bool" where
  "not_both_dashes a b \<longleftrightarrow> \<not> (a = CHR ''-'' \<and> b = CHR ''-'')"

text \<open>A label: lower-case letters, digits and single dashes, none of them first or last.\<close>

definition label_ok :: "string \<Rightarrow> bool" where
  "label_ok s \<longleftrightarrow> list_all label_char s \<and> successively not_both_dashes s \<and>
     (s = [] \<or> hd s \<noteq> CHR ''-'' \<and> last s \<noteq> CHR ''-'')"

lemma ends_with_char: "ends_with s [c] \<longleftrightarrow> s \<noteq> [] \<and> last s = c"
  by (cases s rule: rev_cases) (auto simp: ends_with_iff)

lemma push_label_ok:
  assumes "successively not_both_dashes out" and "list_all label_char out" and "\<not> is_upper c"
  shows "successively not_both_dashes (push_label_char c out) \<and> list_all label_char (push_label_char c out)"
proof (cases "is_alnum c")
  case True
  then have "label_char c" "c \<noteq> CHR ''-''"
    using assms(3) by (auto simp: is_alnum_def label_char_def is_lower_def is_upper_def is_digit_def code_def)
  with True assms show ?thesis
    by (simp add: push_label_char_def successively_append_iff not_both_dashes_def)
next
  case False
  with assms show ?thesis
    by (auto simp: push_label_char_def successively_append_iff not_both_dashes_def ends_with_char label_char_def)
qed

lemma fold_push_label_ok:
  assumes "successively not_both_dashes out" and "list_all label_char out" and "list_all (\<lambda>c. \<not> is_upper c) s"
  shows "successively not_both_dashes (fold push_label_char s out) \<and> list_all label_char (fold push_label_char s out)"
  using assms by (induction s arbitrary: out) (simp_all add: push_label_ok)

lemma successively_dropWhile: "successively P s \<Longrightarrow> successively P (dropWhile Q s)"
  by (induction s) (auto simp: successively_Cons)

lemma dropWhile_stops: "dropWhile P s = [] \<or> \<not> P (hd (dropWhile P s))"
  using hd_dropWhile [of P s] dropWhile_eq_Nil_conv [of P s] by blast

lemma not_both_dashes_sym: "not_both_dashes b a = not_both_dashes a b"
  by (auto simp: not_both_dashes_def)

lemma trim_label_ok:
  assumes "successively not_both_dashes s" and "list_all label_char s"
  shows "label_ok (trim_matches s (\<lambda>c. c = CHR ''-''))"
proof -
  let ?P = "\<lambda>c. c = CHR ''-''"
  define t where "t = dropWhile ?P s"
  define u where "u = dropWhile ?P (rev t)"
  have u: "trim_matches s ?P = rev u" by (simp add: trim_matches_def t_def u_def)
  have "successively not_both_dashes u"
    unfolding u_def t_def
    using assms(1) by (intro successively_dropWhile) (simp add: successively_rev not_both_dashes_sym successively_dropWhile)
  moreover have "list_all label_char u"
    using assms(2) by (auto simp: list_all_iff u_def t_def dest!: set_dropWhileD)
  moreover have "u = [] \<or> hd u \<noteq> CHR ''-''" using dropWhile_stops [of ?P "rev t"] by (simp add: u_def)
  moreover have "u = [] \<or> last u \<noteq> CHR ''-''"
  proof (cases "u = []")
    case False
    then have "last u = hd t" unfolding u_def by (metis append_is_Nil_conv last_appendR last_rev rev.simps(1) takeWhile_dropWhile_id)
    moreover have "t \<noteq> []" using False by (auto simp: u_def)
    ultimately show ?thesis using dropWhile_stops [of ?P s] unfolding t_def by metis
  qed simp
  ultimately show ?thesis
    unfolding u label_ok_def by (auto simp: successively_rev not_both_dashes_sym hd_rev last_rev)
qed

lemma lower_label: "list_all label_char s \<Longrightarrow> to_lowercase s = s"
  by (induction s) (auto simp: to_lowercase_def lower_char_def label_char_def is_lower_def is_upper_def is_digit_def code_def)

lemma push_label_id:
  "successively not_both_dashes s \<Longrightarrow> list_all label_char s \<Longrightarrow> fold push_label_char s [] = s"
proof (induction s rule: rev_induct)
  case (snoc c s)
  then have eq: "fold push_label_char s [] = s" by (simp add: successively_append_iff)
  have "push_label_char c s = s @ [c]"
    using snoc.prems
    by (auto simp: successively_append_iff push_label_char_def not_both_dashes_def ends_with_char label_char_def is_alnum_def)
  with eq show ?case by simp
qed simp

lemma trim_dashes_id:
  assumes "s = [] \<or> \<not> P (hd s) \<and> \<not> P (last s)"
  shows "trim_matches s P = s"
proof (cases "s = []")
  case False
  with assms have "dropWhile P s = s" by (cases s) auto
  moreover have "dropWhile P (rev s) = rev s" using False assms by (cases s rule: rev_cases) auto
  ultimately show ?thesis by (simp add: trim_matches_def)
qed (simp add: trim_matches_def)

text \<open>
  What \<open>sanitize_label\<close> returns is a label (lower-case letters, digits and single inner dashes), and
  labels are exactly the strings it leaves alone; so deriving a name from a derived name changes nothing.
\<close>
theorem sanitize_label_exact:
  "label_ok (sanitize_label s) \<and> (sanitize_label s = s \<longleftrightarrow> label_ok s)"
proof
  have "list_all (\<lambda>c. \<not> is_upper c) (to_lowercase s)"
    by (auto simp: to_lowercase_def list_all_iff lower_char_not_upper)
  then have "successively not_both_dashes (fold push_label_char (to_lowercase s) []) \<and>
      list_all label_char (fold push_label_char (to_lowercase s) [])"
    by (intro fold_push_label_ok) simp_all
  then show ok: "label_ok (sanitize_label s)" unfolding sanitize_label_def by (intro trim_label_ok) simp_all
  show "sanitize_label s = s \<longleftrightarrow> label_ok s"
  proof
    assume "label_ok s"
    then show "sanitize_label s = s"
      by (simp add: sanitize_label_def label_ok_def lower_label push_label_id trim_dashes_id)
  next
    assume "sanitize_label s = s"
    with ok show "label_ok s" by simp
  qed
qed

section \<open>Versions\<close>

lemma parse_u32_show: "parse_u32 (show_nat (unat p)) = Some p"
proof -
  have "unat p < 2 ^ 32" using unsigned_less [of p] by simp
  then show ?thesis unfolding parse_u32_def by (simp add: parse_bounded_show_nat del: power_numeral)
qed

lemma split_once_show: "split_once (show_nat n @ CHR ''.'' # r) (CHR ''.'') = Some (show_nat n, r)"
proof -
  have "CHR ''.'' \<notin> set (show_nat n)"
    using show_nat_digits [of n] by (auto simp: list_all_iff is_digit_def code_def)
  then show ?thesis by (simp add: split_once_Some)
qed

text \<open>
  Printing a version and parsing it gives it back exactly when its major version is the one this
  build implements; every other major version is refused.
\<close>
theorem version_roundtrip:
  "(parse_version (show_version v) = Inr v \<longleftrightarrow> v_major v = v_major SCHEMA_VERSION) \<and>
   (v_major v \<noteq> v_major SCHEMA_VERSION) = isl (parse_version (show_version v))"
  by (simp add: parse_version_def show_version_def split_once_show parse_u32_show)

section \<open>Collisions\<close>

text \<open>
  The collision checks report nothing exactly when no two routed names are claimed twice and no two
  nodes share a container name, so a workspace that starts gives every node names of its own.
\<close>
theorem collision_checks_exact:
  "check_derived_name_collisions nodes = [] \<longleftrightarrow>
     distinct (map fst (concat (map node_claims nodes))) \<and>
     distinct (map (\<lambda>n. container_name workspace_name (n_id n)) nodes)"
  by (rule collisions_exact)

section \<open>FQDN templates\<close>

lemma find_str_Some: "find_str s p = Some i \<Longrightarrow> \<exists>r. drop i s = p @ r"
proof (induction s arbitrary: i)
  case (Cons c s)
  show ?case
  proof (cases "strip_prefix (c # s) p")
    case None
    with Cons show ?thesis by auto
  next
    case (Some r)
    with Cons.prems show ?thesis by (auto simp: strip_prefix_Some)
  qed
qed (auto split: if_splits)

lemma find_char_append: "c \<notin> set p \<Longrightarrow> find_char (p @ s) c = map_option ((+) (length p)) (find_char s c)"
  by (cases "find_str s [c]"; induction p) (auto simp: find_char_def)


text \<open>One step of both loops, seen from the text before the token, the token's tail and what follows it.\<close>

lemma find_tail:
  assumes "find_str rest TOKEN_RAW = Some start"
  shows "drop start rest = TOKEN_RAW @ drop (start + length TOKEN_RAW) rest"
proof -
  obtain r where "drop start rest = TOKEN_RAW @ r" using find_str_Some [OF assms] by blast
  moreover from this have "drop (start + length TOKEN_RAW) rest = r"
    by (metis add.commute append_eq_conv_conj drop_drop)
  ultimately show ?thesis by simp
qed

lemma starts_with_append: "starts_with (p @ t) (p @ h) \<longleftrightarrow> starts_with t h"
  by (induction p) (simp_all add: starts_with_def)

lemma http_tail: "starts_with (TOKEN_RAW @ t) TOKEN_HTTP \<longleftrightarrow> strip_prefix t ''_HTTP'' \<noteq> None"
proof -
  have eq: "TOKEN_HTTP = TOKEN_RAW @ ''_HTTP''" by (simp add: TOKEN_HTTP_def TOKEN_RAW_def)
  show ?thesis unfolding eq starts_with_append unfolding starts_with_def by (rule refl)
qed

text \<open>
  Expanding the templates of a value looks up only the paths that the resolver checks for it: two
  worlds that agree on \<open>fqdn_template_paths\<close> expand the value to the same text.
\<close>
theorem expansion_uses_checked_paths:
  assumes "\<And>path zone. path \<in> set (fqdn_template_paths rest) \<Longrightarrow> s1 path zone = s2 path zone"
  shows "expand_templates s1 raw http rest = expand_templates s2 raw http rest"
  using assms
proof (induction rest rule: fqdn_template_paths.induct)
  case (1 rest)
  show ?case
  proof (cases "find_str rest TOKEN_RAW")
    case None
    then show ?thesis by (simp add: expand_templates.simps)
  next
    case (Some start)
    define t where "t = drop (start + length TOKEN_RAW) rest"
    define pre where "pre = (case strip_prefix t ''_HTTP'' of Some _ \<Rightarrow> ''_HTTP'' | None \<Rightarrow> [])"
    define u where "u = (case strip_prefix t ''_HTTP'' of Some r \<Rightarrow> r | None \<Rightarrow> t)"
    have t: "t = pre @ u" by (auto simp: pre_def u_def strip_prefix_Some split: option.splits)
    have at: "drop start rest = (TOKEN_RAW @ pre) @ u"
      using find_tail [OF Some] by (simp only: t_def [symmetric] t append_assoc)
    have len: "(if starts_with ((TOKEN_RAW @ pre) @ u) TOKEN_HTTP then length TOKEN_HTTP else length TOKEN_RAW) = length (TOKEN_RAW @ pre)"
    proof -
      have "starts_with ((TOKEN_RAW @ pre) @ u) TOKEN_HTTP \<longleftrightarrow> strip_prefix t ''_HTTP'' \<noteq> None"
        using http_tail [of t] by (simp only: t [symmetric] append_assoc)
      moreover have "pre = (if strip_prefix t ''_HTTP'' \<noteq> None then ''_HTTP'' else [])"
        by (cases "strip_prefix t ''_HTTP''") (simp_all add: pre_def)
      ultimately show ?thesis
        by (cases "strip_prefix t ''_HTTP'' = None") (simp_all add: TOKEN_HTTP_def TOKEN_RAW_def)
    qed
    have "CHR ''}'' \<notin> set (TOKEN_RAW @ pre)" by (auto simp: TOKEN_RAW_def pre_def split: option.splits)
    note fc = find_char_append [OF this, of u]
    show ?thesis
    proof (cases "find_char u (CHR ''}'')")
      case None
      then show ?thesis
        by (subst (1 2) expand_templates.simps) (simp only: Some at fc Let_def option.case option.map)
    next
      case e: (Some e)
      have paths: "fqdn_template_paths rest =
          (case strip_prefix (take e u) '':'' of Some path \<Rightarrow> [path] | None \<Rightarrow> []) @ fqdn_template_paths (drop (Suc e) u)"
        by (subst fqdn_template_paths.simps) (simp only: Some t_def [symmetric] u_def [symmetric] e Let_def option.case)
      have IH: "expand_templates s1 raw http (drop (Suc e) u) = expand_templates s2 raw http (drop (Suc e) u)"
      proof (rule 1(1) [OF Some t_def u_def e])
        show "s1 path zone = s2 path zone" if "path \<in> set (fqdn_template_paths (drop (Suc e) u))" for path zone
          by (rule 1(2)) (simp only: paths set_append Un_iff that simp_thms)
      qed
      have look: "s1 name z = s2 name z" if "strip_prefix (take e u) '':'' = Some name" for name z
        by (rule 1(2)) (simp only: paths that option.case set_append Un_iff list.set insert_iff simp_thms)
      have inner: "drop (length (TOKEN_RAW @ pre)) (take (length (TOKEN_RAW @ pre) + e) ((TOKEN_RAW @ pre) @ u)) = take e u"
        by simp
      have tail: "drop (Suc (length (TOKEN_RAW @ pre) + e)) ((TOKEN_RAW @ pre) @ u) = drop (Suc e) u"
        by simp
      show ?thesis
        by (subst (1 2) expand_templates.simps)
          (simp only: Some at fc e Let_def option.case option.map len inner tail IH, cases "strip_prefix (take e u) '':''",
            simp_all only: option.case look)
    qed
  qed
qed

theorem expansion_uses_checked_paths_witness:
  "expand_templates (\<lambda>path zone. if path = ''db'' then Some ''db.shop'' else None) ''r'' ''h'' ''${FGHJ_SERVICE_FQDN:db}'' =
   expand_templates (\<lambda>path zone. Some ''db.shop'') ''r'' ''h'' ''${FGHJ_SERVICE_FQDN:db}''"
proof (rule expansion_uses_checked_paths)
  show "(if path = ''db'' then Some ''db.shop'' else None) = Some ''db.shop''"
    if "path \<in> set (fqdn_template_paths ''${FGHJ_SERVICE_FQDN:db}'')" for path :: string
    using that by (subst (asm) fqdn_template_paths.simps)
      (simp add: TOKEN_RAW_def find_char_def fqdn_template_paths.simps)
qed

text \<open>
  A misspelt token is neither refused nor left as it is: \<open>${FGHJ_SERVICE_FQDN_HTTPS:api}\<close> names no
  path that the resolver checks, and expands to the node's own proxied domain.
\<close>
theorem misspelt_token_is_own_domain:
  "fqdn_template_paths ''${FGHJ_SERVICE_FQDN_HTTPS:api}'' = [] \<and>
   expand_templates sibling own_raw own_http ''${FGHJ_SERVICE_FQDN_HTTPS:api}'' = own_http"
proof
  show "fqdn_template_paths ''${FGHJ_SERVICE_FQDN_HTTPS:api}'' = []"
    by (subst fqdn_template_paths.simps) (simp add: TOKEN_RAW_def find_char_def fqdn_template_paths.simps)
  show "expand_templates sibling own_raw own_http ''${FGHJ_SERVICE_FQDN_HTTPS:api}'' = own_http"
    by (subst expand_templates.simps)
      (simp add: TOKEN_RAW_def TOKEN_HTTP_def find_char_def starts_with_def expand_templates.simps)
qed

end
