(* ===== verification/Resolver_Claims.thy ===== *)
theory Resolver_Claims
  imports Members_Props Naming_Claims
begin

text \<open>The properties of the resolver.\<close>

section \<open>Flow members\<close>

definition all_flow_targets :: "resolve_ctx \<Rightarrow> (string \<times> string) list" where
  "all_flow_targets cx =
     concat (map (\<lambda>(repo, c). concat (map (\<lambda>es. concat (map (entry_flow cx c repo) es)) (bt_values (cc_flows c))))
       (rx_scanned cx))"

lemma length_concat_le: "(\<And>x. x \<in> set xs \<Longrightarrow> length (f x) \<le> length (g x)) \<Longrightarrow>
    length (concat (map f xs)) \<le> length (concat (map g xs))"
  by (induction xs) (simp_all add: add_le_mono)

lemma length_entry_flow: "length (entry_flow cx c repo e) \<le> 1"
  by (simp add: entry_flow_def split: target.split)

lemma concat_values_flat:
  "concat (map (\<lambda>kc. concat (f (snd kc))) m) = concat (concat (map f (bt_values m)))"
  by (induction m) (simp_all add: bt_values_def)

lemma length_all_flow_targets: "2 + length (all_flow_targets cx) \<le> flow_fuel cx"
proof -
  have e: "length (concat (map (entry_flow cx c repo) es)) \<le> length es" for c repo es
    using length_concat_le [of es "entry_flow cx c repo" "\<lambda>e. [e]"] length_entry_flow
    by simp
  have c: "length (concat (map (\<lambda>es. concat (map (entry_flow cx c repo) es)) ess)) \<le> length (concat ess)" for c repo ess
    using length_concat_le [of ess "\<lambda>es. concat (map (entry_flow cx c repo) es)" "\<lambda>es. es"] e by simp
  have "length (all_flow_targets cx) \<le> length (concat (map (\<lambda>(repo, c). concat (bt_values (cc_flows c))) (rx_scanned cx)))"
    unfolding all_flow_targets_def by (rule length_concat_le) (clarsimp simp only: split_beta prod.sel c)
  also have "concat (map (\<lambda>(repo, c). concat (bt_values (cc_flows c))) (rx_scanned cx)) =
      concat (concat (map (\<lambda>c. bt_values (cc_flows c)) (bt_values (rx_scanned cx))))"
    using concat_values_flat [of "\<lambda>c. bt_values (cc_flows c)" "rx_scanned cx"]
    by (simp only: case_prod_beta')
  finally show ?thesis by (simp add: flow_fuel_def)
qed

lemma next_flows_known: "set (next_flows cx p) \<subseteq> set (all_flow_targets cx)"
proof
  fix t assume t: "t \<in> set (next_flows cx p)"
  then obtain c es where ce: "flow_entries cx p = Some (c, es)" "t \<in> set (concat (map (entry_flow cx c (fst p)) es))"
    by (cases "flow_entries cx p") (auto simp: next_flows_def)
  then have "(fst p, c) \<in> set (rx_scanned cx)" "(snd p, es) \<in> set (cc_flows c)"
    by (auto simp: flow_entries_def split: option.splits dest: map_of_SomeD)
  then have "es \<in> set (bt_values (cc_flows c))" by (force simp: bt_values_def)
  with \<open>(fst p, c) \<in> set (rx_scanned cx)\<close> ce(2) show "t \<in> set (all_flow_targets cx)"
    by (force simp: all_flow_targets_def)
qed

lemma flow_dfs_reach:
  "dfs (flow_fuel cx) (next_flows cx) p {} = (next_rel (next_flows cx))\<^sup>* `` {p}"
proof (rule dfs_reach [of "insert p (set (all_flow_targets cx))"])
  have "card (insert p (set (all_flow_targets cx))) \<le> Suc (length (all_flow_targets cx))"
    by (metis card_insert_le_m1 card_length card_insert_if List.finite_set le_SucI Suc_le_mono)
  then show "card (insert p (set (all_flow_targets cx))) \<le> flow_fuel cx"
    using length_all_flow_targets [of cx] by linarith
qed (use next_flows_known in auto)

text \<open>
  C7: The members of a flow are exactly the services and repos named by the flows it reaches, where a
  flow reaches the flows its entries name in its own repo and in the repos its aliases lead to:
  cyclic flows and includes do not stop the expansion and nothing else is added.
\<close>
theorem flow_members_exact:
  "ex_out (expand_flow (flow_fuel cx) cx repo flow 0 no_expansion) =
     \<Union> (flow_members cx ` ((next_rel (next_flows cx))\<^sup>* `` {(repo, flow)}))"
  using expand_flow_dfs [of cx "flow_fuel cx" repo flow no_expansion 0] flow_dfs_reach [of cx "(repo, flow)"]
  by (simp add: expands_def no_expansion_def)

section \<open>What a flow starts\<close>

definition seeds_closed :: "(string \<times> string) list \<Rightarrow> string set \<Rightarrow> bool" where
  "seeds_closed pulled T = list_all (\<lambda>(from, seed). from \<in> T \<longrightarrow> seed \<in> T) pulled"

lemma missing_seeds_empty: "missing_seeds pulled start = {} \<longleftrightarrow> seeds_closed pulled start"
  by (auto simp: missing_seeds_def seeds_closed_def list_all_iff)

lemma missing_seeds_subset: "seeds_closed pulled T \<Longrightarrow> start \<subseteq> T \<Longrightarrow> missing_seeds pulled start \<subseteq> T"
  by (auto simp: missing_seeds_def seeds_closed_def list_all_iff)

lemma finite_missing_seeds [simp]: "finite (missing_seeds pulled start)"
  by (simp add: missing_seeds_def)

lemma closure_within: "needed_closed edges T \<Longrightarrow> A \<subseteq> T \<Longrightarrow> finite A \<Longrightarrow> required_closure edges A \<subseteq> T"
  using needed_closed_rtrancl [of edges T] by (auto simp: required_closure_eq)

text \<open>What a start must hold, once it holds its members.\<close>

definition start_closed :: "(string \<times> string) list \<Rightarrow> node list \<Rightarrow> edge list \<Rightarrow> string set \<Rightarrow> bool" where
  "start_closed pulled nodes edges T \<longleftrightarrow> needed_closed edges T \<and> migration_closed nodes T \<and> seeds_closed pulled T"

definition least_from :: "(string set \<Rightarrow> bool) \<Rightarrow> string set \<Rightarrow> string set \<Rightarrow> bool" where
  "least_from C start D \<longleftrightarrow> start \<subseteq> D \<and> C D \<and> (\<forall>T. start \<subseteq> T \<longrightarrow> C T \<longrightarrow> D \<subseteq> T)"

lemma least_from_step:
  assumes "start \<subseteq> mid" and "\<And>T. start \<subseteq> T \<Longrightarrow> C T \<Longrightarrow> mid \<subseteq> T" and "least_from C mid D"
  shows "least_from C start D"
  unfolding least_from_def
proof (intro conjI allI impI)
  show "start \<subseteq> D" "C D" using assms(1,3) by (auto simp: least_from_def)
  show "D \<subseteq> T" if "start \<subseteq> T" "C T" for T
    using assms(2) [OF that] assms(3) that(2) by (simp add: least_from_def)
qed

lemma least_from_Inter: "least_from C start D \<Longrightarrow> D = \<Inter> {T. start \<subseteq> T \<and> C T}"
  by (auto simp: least_from_def)

lemma add_migrations_within:
  assumes "needed_closed edges start" and "start \<subseteq> T" and "needed_closed edges T" and "migration_closed nodes T"
  shows "add_migrations nodes edges start \<subseteq> T"
  using add_migrations_spec [OF assms(1), of nodes] assms(2-4) by blast

lemma add_pulled_seeds_spec:
  assumes "needed_closed edges start" and "migration_closed nodes start"
  shows "least_from (start_closed pulled nodes edges) start (add_pulled_seeds pulled nodes edges start)"
  using assms
proof (induction pulled nodes edges start rule: add_pulled_seeds.induct)
  case (1 pulled nodes edges start)
  let ?m = "missing_seeds pulled start"
  let ?c = "start \<union> required_closure edges ?m"
  let ?s = "add_migrations nodes edges ?c"
  show ?case
  proof (cases "?m = {}")
    case True
    then have "add_pulled_seeds pulled nodes edges start = start" by (subst add_pulled_seeds.simps) simp
    with 1(2,3) True show ?thesis by (simp add: missing_seeds_empty least_from_def start_closed_def)
  next
    case False
    then have step: "add_pulled_seeds pulled nodes edges start = add_pulled_seeds pulled nodes edges ?s"
      by (subst add_pulled_seeds.simps) (simp add: Let_def)
    have c: "needed_closed edges ?c"
      using 1(2) needed_closed_closure [of ?m edges] by (simp add: needed_closed_Un)
    note spec = add_migrations_spec [OF c, of nodes]
    have "least_from (start_closed pulled nodes edges) ?s (add_pulled_seeds pulled nodes edges ?s)"
      using 1(1) [OF refl False] spec by blast
    moreover have "start \<subseteq> ?s" using spec by blast
    moreover have "?s \<subseteq> T" if T: "start \<subseteq> T" "start_closed pulled nodes edges T" for T
    proof -
      have "required_closure edges ?m \<subseteq> T"
        using T by (intro closure_within missing_seeds_subset) (auto simp: start_closed_def)
      with T c show ?thesis by (intro add_migrations_within) (auto simp: start_closed_def)
    qed
    ultimately show ?thesis unfolding step by (rule least_from_step [rotated 2])
  qed
qed

text \<open>
  C8: What a flow starts is the least set that holds its members and is closed under three demands:
  whatever a node needs to start, the migration of every store in it, and every seed that one of its
  nodes pulls through a required dependency on a foreign flow.
\<close>
theorem flow_start_is_least:
  "flow_start cx (set members) =
    \<Inter> {T. set members \<subseteq> T \<and> start_closed (rx_seeds_pulled cx) (bt_values (rx_nodes cx)) (rx_edges cx) T}"
proof (rule least_from_Inter)
  let ?e = "rx_edges cx" and ?n = "bt_values (rx_nodes cx)"
  let ?c = "required_closure ?e (set members)"
  let ?s = "add_migrations ?n ?e ?c"
  let ?C = "start_closed (rx_seeds_pulled cx) ?n ?e"
  have c: "needed_closed ?e ?c" by (simp add: needed_closed_closure)
  note mig = add_migrations_spec [OF c, of ?n]
  have "set members \<subseteq> ?s" using mig required_closure_seeds [of "set members" ?e] by blast
  moreover have "?s \<subseteq> T" if T: "set members \<subseteq> T" "?C T" for T
    using T c closure_within [of ?e T "set members"]
    by (intro add_migrations_within) (auto simp: start_closed_def)
  moreover have "least_from ?C ?s (flow_start cx (set members))"
    unfolding flow_start_def using mig by (intro add_pulled_seeds_spec) auto
  ultimately show "least_from ?C (set members) (flow_start cx (set members))" by (rule least_from_step)
qed


section \<open>What stores imply\<close>

definition ends :: "edge \<Rightarrow> string \<times> string" where
  "ends e = (e_from e, e_to e)"

definition waits_on_store :: "edge list \<Rightarrow> (string, string) btree \<Rightarrow> (string \<times> string) set" where
  "waits_on_store edges migrations =
     {(a, m). a \<noteq> m \<and> (\<exists>e\<in>set edges. e_from e = a \<and> map_of migrations (e_to e) = Some m)}"

lemma listed_edge: "list_ex (\<lambda>x. e_from x = a \<and> e_to x = m) edges \<longleftrightarrow> (a, m) \<in> ends ` set edges"
  by (auto simp: list_ex_iff ends_def)

lemma single_minus: "x \<notin> S \<Longrightarrow> {x} - S = {x}"
  by auto

lemma imply_fold:
  assumes "fst acc = ends ` set (snd acc)" and "distinct (map ends (snd acc))" and "list_all needed_to_start (snd acc)"
    and "res = fold (imply_one edges migrations) es acc"
  shows "fst res = ends ` set (snd res) \<and> distinct (map ends (snd res)) \<and> list_all needed_to_start (snd res) \<and>
    fst res = fst acc \<union> (waits_on_store es migrations - ends ` set edges)"
  using assms
proof (induction es arbitrary: acc)
  case Nil
  then show ?case by (simp add: waits_on_store_def)
next
  case (Cons e es)
  let ?a = "imply_one edges migrations e acc"
  have step: "fst ?a = ends ` set (snd ?a) \<and> distinct (map ends (snd ?a)) \<and> list_all needed_to_start (snd ?a) \<and>
      fst ?a = fst acc \<union> (waits_on_store [e] migrations - ends ` set edges)"
  proof (cases "map_of migrations (e_to e)")
    case None
    with Cons.prems show ?thesis by (simp add: imply_one_def waits_on_store_def)
  next
    case (Some m)
    then have w: "waits_on_store [e] migrations = (if e_from e = m then {} else {(e_from e, m)})"
      by (auto simp: waits_on_store_def)
    have new: "ends (implied_edge e m) = (e_from e, m)" "needed_to_start (implied_edge e m)"
      by (simp_all add: ends_def implied_edge_def needed_to_start_def)
    show ?thesis
    proof (cases "e_from e = m \<or> (e_from e, m) \<in> ends ` set edges \<or> (e_from e, m) \<in> fst acc")
      case True
      then have "?a = acc" using Some by (simp add: imply_one_def listed_edge)
      with True Cons.prems w show ?thesis by auto
    next
      case False
      then have a: "?a = (insert (e_from e, m) (fst acc), snd acc @ [implied_edge e m])"
        using Some by (simp add: imply_one_def listed_edge)
      have "(e_from e, m) \<notin> set (map ends (snd acc))" using False Cons.prems(1) by simp
      moreover have "{(e_from e, m)} - ends ` set edges = {(e_from e, m)}"
        by (rule single_minus) (use False in simp)
      ultimately show ?thesis unfolding a using False Cons.prems(1-3) w new by simp
    qed
  qed
  from step have fst_a: "fst ?a = fst acc \<union> (waits_on_store [e] migrations - ends ` set edges)" by (elim conjE)
  have split: "waits_on_store (e # es) migrations = waits_on_store [e] migrations \<union> waits_on_store es migrations"
    by (auto simp: waits_on_store_def)
  have union: "fst acc \<union> (waits_on_store (e # es) migrations - ends ` set edges) =
      fst ?a \<union> (waits_on_store es migrations - ends ` set edges)"
    unfolding fst_a split by (simp only: Un_Diff Un_assoc)
  have "fst ?a = ends ` set (snd ?a)" "distinct (map ends (snd ?a))" "list_all needed_to_start (snd ?a)"
    using step by blast+
  moreover have "res = fold (imply_one edges migrations) es ?a" using Cons.prems(4) by simp
  ultimately show ?case unfolding union by (rule Cons.IH)
qed

text \<open>
  The edges that migrations imply are exact: one needed edge, and no more than one, from every node
  that needs a migrated store to the store's migration, apart from the pairs that an edge already joins.
\<close>
theorem implied_edges_exact:
  "ends ` set (implied_edges edges migrations) =
     waits_on_store (filter needed_to_start edges) migrations - ends ` set edges \<and>
   distinct (map ends (implied_edges edges migrations)) \<and>
   list_all needed_to_start (implied_edges edges migrations)"
  using imply_fold [OF _ _ _ refl, of "({}, [])" edges migrations "filter needed_to_start edges"]
  unfolding implied_edges_def by auto

text \<open>A repo whose service waits on its store, and names the store's migration as a runtime dependency.\<close>

definition plain_service :: service_config where
  "plain_service = \<lparr>sc_build = None, sc_image = Some ''img'', sc_ports = PortList [], sc_environment = EnvList [],
     sc_env_file = [], sc_command = [''run''], sc_volumes = [], sc_additional_hosts = [], sc_restart = None,
     sc_stop_signal = None, sc_stop_grace_period = 10, sc_user = None, sc_working_dir = None, sc_labels = [],
     sc_cap_add = [], sc_cap_drop = [], sc_privileged = False, sc_extra_hosts = [], sc_healthcheck = None,
     sc_platform = None, sc_debug = None, sc_run = None, sc_migrates = None, sc_seeds = [],
     sc_depends_on = DependsList []\<rparr>"

definition shop :: "(string \<times> depends_on_entry option) list \<Rightarrow> component_config" where
  "shop waits = \<lparr>cc_version = SCHEMA_VERSION, cc_include = [],
     cc_services = [
       (''db'', plain_service),
       (''front'', plain_service\<lparr>sc_depends_on := DependsMap ((''db'', None) # waits)\<rparr>),
       (''migrate'', plain_service\<lparr>sc_migrates := Some ''db''\<rparr>)],
     cc_flows = [(''all'', [''front''])]\<rparr>"

definition no_git :: "string \<Rightarrow> git_seen" where
  "no_git p = \<lparr>gs_exists = False, gs_head = None, gs_dirty = False\<rparr>"

definition shop_order :: "component_config \<Rightarrow> (warning list \<times> string list) option" where
  "shop_order c = map_option (\<lambda>g. (g_warnings g, topological_start_order (map n_id (g_nodes g)) (g_edges g)))
     (resolve_universe ''w'' no_git [] [(''shop'', Inr c)])"

text \<open>
  Everything that waits on a store should wait on its migration too, but a declared runtime
  dependency on the migration takes the place of the implied edge, without a warning: with it the
  dependent starts before the migration, without it after.
\<close>
theorem optional_edge_hides_migration:
  "shop_order (shop []) = Some ([], [''db.shop'', ''migrate.shop'', ''front.shop'']) \<and>
   shop_order (shop [(''migrate'', Some \<lparr>de_condition = ServiceStarted, de_required = False\<rparr>)]) =
     Some ([], [''db.shop'', ''front.shop'', ''migrate.shop''])"
  by code_simp

section \<open>The resolved graph\<close>

lemma collisions_block: "list_all is_blocking (check_derived_name_collisions nodes)"
  by (auto simp: check_derived_name_collisions_def check_domains_def check_container_names_def list_all_iff
      is_blocking_def blocking_def)

lemma all_blocking_none: "list_all is_blocking ws \<Longrightarrow> filter is_blocking ws = [] \<longleftrightarrow> ws = []"
  by (induction ws) auto

lemma resolve_universe_shape:
  "\<exists>nodes edges flows ws cycles. resolve_universe w git facts found =
      Some \<lparr>g_workspace_name = w, g_nodes = nodes, g_edges = edges, g_flows = flows,
            g_warnings = ws @ check_derived_name_collisions nodes @ cycles\<rparr> \<and> check_cycles edges = Some cycles"
proof -
  obtain scanned scan_warnings where s: "scan_workspace found = (scanned, scan_warnings)" by fastforce
  obtain flows cx where f: "resolve_flows (run_phases (new_ctx git scanned (index_repos scanned facts) facts)) = (flows, cx)"
    by fastforce
  obtain cycles where "check_cycles (rx_edges cx) = Some cycles" using check_cycles_spec [of "rx_edges cx"] by auto
  with s f show ?thesis
    unfolding resolve_universe_def by (simp add: Let_def)
qed

text \<open>
  C3: Resolving a workspace always ends with a graph, and a graph that nothing blocks is fit to start:
  what its nodes need has no cycle, the start order of any of them respects it, no name is claimed
  twice and no two nodes share a container name.
\<close>
theorem startable_graph_is_sound:
  assumes "resolve_universe w git facts found = Some g" and "refuse_if_blocked g = Inr ()"
  shows "acyclic (needed (g_edges g)) \<and>
    in_order (start_deps ids (g_edges g)) (topological_start_order ids (g_edges g)) \<and>
    distinct (map fst (concat (map node_claims (g_nodes g)))) \<and>
    distinct (map (\<lambda>n. container_name w (n_id n)) (g_nodes g))"
proof -
  obtain nodes edges flows ws cycles where g: "g = \<lparr>g_workspace_name = w, g_nodes = nodes, g_edges = edges,
      g_flows = flows, g_warnings = ws @ check_derived_name_collisions nodes @ cycles\<rparr>"
    and c: "check_cycles edges = Some cycles"
    using resolve_universe_shape [of w git facts found] assms(1) by auto
  have none: "filter is_blocking (g_warnings g) = []"
    using assms(2) by (simp add: refuse_if_blocked_def blocking_warnings_def Let_def split: if_splits)
  have "list_all is_blocking cycles" using check_cycles_spec [of edges] c by (auto simp: list_all_iff)
  with none collisions_block [of nodes] have "cycles = []" "check_derived_name_collisions nodes = []"
    by (simp_all add: g all_blocking_none)
  with c show ?thesis
    using check_cycles_spec [of edges] start_order_in_order [of edges ids] collisions_exact [of nodes w]
    by (simp add: g)
qed

theorem startable_graph_is_sound_witness:
  "acyclic (needed (case resolve_universe ''w'' no_git [] [(''shop'', Inr (shop []))] of Some g \<Rightarrow> g_edges g | None \<Rightarrow> []))"
proof -
  have "\<exists>g. resolve_universe ''w'' no_git [] [(''shop'', Inr (shop []))] = Some g \<and> refuse_if_blocked g = Inr ()"
  proof -
    have "(case resolve_universe ''w'' no_git [] [(''shop'', Inr (shop []))] of None \<Rightarrow> False
        | Some g \<Rightarrow> g_warnings g = [])" by code_simp
    then show ?thesis by (auto simp: refuse_if_blocked_def blocking_warnings_def split: option.splits)
  qed
  then obtain g where g: "resolve_universe ''w'' no_git [] [(''shop'', Inr (shop []))] = Some g" "refuse_if_blocked g = Inr ()"
    by blast
  from startable_graph_is_sound [OF g, of "[]"] g(1) show ?thesis by simp
qed

end
