(* ===== verification/Downloads_Claims.thy ===== *)
theory Downloads_Claims
  imports Downloads Registry_Claims Resolver_Claims
begin

text \<open>
  What a pull guarantees: checkouts that are there stay as they are, it ends when every clone brings what was
  missing, and it never ends when one does not.
\<close>

section \<open>An honest host\<close>

text \<open>
  \<open>disk\<close> is what lies in each folder, by the text of its path. Looking at it changes nothing, making a folder
  takes nothing away, git changes the folder it is told to clone to or to work in, and removing a folder
  only that one. The reading of the workspace and the origin of a folder are what lies on the disk.
\<close>

definition git_target :: "string list \<Rightarrow> string" where
  "git_target args = (if hd args = ''-C'' then args ! 1 else last args)"

definition only_looks :: "'w pull_api \<Rightarrow> ('w \<Rightarrow> string \<Rightarrow> 'c option) \<Rightarrow> bool" where
  "only_looks P disk =
     ((\<forall>p. keeps disk (da_exists (pu_daemon P) p)) \<and> (\<forall>p. keeps disk (pu_origin P p)) \<and> keeps disk (pu_read P) \<and>
      keeps disk (da_is_root (pu_daemon P)) \<and> (\<forall>p u g. keeps disk (da_chown (pu_daemon P) p u g)) \<and>
      keeps disk (ap_unix_ms (da_engine (pu_daemon P))) \<and>
      (\<forall>r. keeps disk (ap_image_is_local (da_engine (pu_daemon P)) r)) \<and>
      (\<forall>r p. keeps disk (ap_pull_image (da_engine (pu_daemon P)) r p)) \<and>
      (\<forall>w. keeps disk (pu_live_sock P w)) \<and> (\<forall>s. keeps disk (pu_is_session_agent P s)))"

definition honest_host ::
  "'w pull_api \<Rightarrow> ('w \<Rightarrow> string \<Rightarrow> 'c option) \<Rightarrow> ('c \<Rightarrow> string option) \<Rightarrow>
   ((string \<Rightarrow> 'c option) \<Rightarrow> workspace_reading result) \<Rightarrow> bool" where
  "honest_host P disk origin reading =
     (only_looks P disk \<and>
      (\<forall>p w. fst (run_state (da_exists (pu_daemon P) p) w) = (disk w (path_text p) \<noteq> None)) \<and>
      (\<forall>p w. fst (run_state (pu_origin P p) w) = Option.bind (disk w (path_text p)) origin) \<and>
      (\<forall>w. fst (run_state (pu_read P) w) = reading (disk w)) \<and>
      (\<forall>p w t. disk w t \<noteq> None \<longrightarrow> disk (snd (run_state (da_create_dir_all (pu_daemon P) p) w)) t = disk w t) \<and>
      (\<forall>own args w t. t \<noteq> git_target args \<longrightarrow> disk (snd (run_state (pu_git P own args) w)) t = disk w t) \<and>
      (\<forall>own args w chunks. fst (run_state (pu_git P own args) w) = Inr (chunks, None) \<longrightarrow>
         disk (snd (run_state (pu_git P own args) w)) (git_target args) \<noteq> None) \<and>
      (\<forall>s w t. t \<noteq> s \<longrightarrow> disk (snd (run_state (da_remove_dir_all (pu_daemon P) s) w)) t = disk w t))"

section \<open>Keeping an invariant\<close>

named_theorems maintains_intros "computations that keep an invariant of the state"

definition maintains :: "('s \<Rightarrow> bool) \<Rightarrow> ('s, 'a) state \<Rightarrow> bool" where
  "maintains I m = (\<forall>s. I s \<longrightarrow> I (snd (run_state m s)))"

lemma maintainsD: "maintains I m \<Longrightarrow> I s \<Longrightarrow> run_state m s = (r, s') \<Longrightarrow> I s'"
  unfolding maintains_def by (metis snd_conv)

lemma maintains_return [maintains_intros]: "maintains I (State_Monad.return x)"
  by (simp add: maintains_def)

lemma maintains_get [maintains_intros]: "maintains I State_Monad.get"
  by (simp add: maintains_def)

lemma maintains_ok [maintains_intros]: "maintains I (ok x)" "maintains I (fails e)"
  by (simp_all add: maintains_def)

lemma maintains_bind [maintains_intros]:
  "maintains I m \<Longrightarrow> (\<And>x. maintains I (f x)) \<Longrightarrow> maintains I (State_Monad.bind m f)"
  by (simp add: maintains_def split: prod.splits) (metis snd_conv)

lemma maintains_and_then [maintains_intros]:
  "maintains I m \<Longrightarrow> (\<And>x. maintains I (f x)) \<Longrightarrow> maintains I (and_then m f)"
  by (simp add: maintains_def run_and_then split: prod.splits sum.splits) (metis snd_conv)

lemma maintains_context [maintains_intros]: "maintains I m \<Longrightarrow> maintains I (with_context what m)"
  by (simp add: maintains_def run_with_context split: prod.splits) (metis snd_conv)

lemma maintains_each [maintains_intros]: "(\<And>x v. maintains I (f x v)) \<Longrightarrow> maintains I (each f xs v)"
  by (induction xs arbitrary: v) (auto intro: maintains_intros)

lemma maintains_each_ok [maintains_intros]: "(\<And>x v. maintains I (f x v)) \<Longrightarrow> maintains I (each_ok f xs v)"
  by (induction xs arbitrary: v) (auto intro: maintains_intros)

lemma maintains_if [maintains_intros]:
  "(b \<Longrightarrow> maintains I m) \<Longrightarrow> (\<not> b \<Longrightarrow> maintains I m') \<Longrightarrow> maintains I (if b then m else m')"
  by simp

lemma maintains_option [maintains_intros]:
  "(x = None \<Longrightarrow> maintains I m) \<Longrightarrow> (\<And>y. x = Some y \<Longrightarrow> maintains I (f y)) \<Longrightarrow>
     maintains I (case x of None \<Rightarrow> m | Some y \<Rightarrow> f y)"
  by (cases x) auto

lemma maintains_sum [maintains_intros]:
  "(\<And>e. x = Inl e \<Longrightarrow> maintains I (m e)) \<Longrightarrow> (\<And>y. x = Inr y \<Longrightarrow> maintains I (f y)) \<Longrightarrow>
     maintains I (case x of Inl e \<Rightarrow> m e | Inr y \<Rightarrow> f y)"
  by (cases x) auto

lemma maintains_prod [maintains_intros]:
  "(\<And>a b. x = (a, b) \<Longrightarrow> maintains I (f a b)) \<Longrightarrow> maintains I (case x of (a, b) \<Rightarrow> f a b)"
  by (cases x) auto

lemma maintains_let [maintains_intros]: "(\<And>x. x = t \<Longrightarrow> maintains I (f x)) \<Longrightarrow> maintains I (Let t f)"
  by simp

text \<open>What leaves the part alone that the invariant is about.\<close>

lemma keeps_maintains: "keeps part m \<Longrightarrow> maintains (\<lambda>s. J (part s)) m"
  by (simp add: keeps_def maintains_def)

section \<open>What changes the disk\<close>

abbreviation disk_of :: "('w \<Rightarrow> 'p) \<Rightarrow> 'w daemon \<Rightarrow> 'p" where
  "disk_of disk d \<equiv> disk (dm_world d)"

lemma keeps_disk_world: "keeps disk m \<Longrightarrow> keeps (disk_of disk) (on_world m)"
  by (auto simp: keeps_def run_on_world split: prod.splits) (metis snd_conv)

lemma keeps_disk_modify: "(\<And>d. dm_world (f d) = dm_world d) \<Longrightarrow> keeps (disk_of disk) (modify_state f)"
  by (simp add: keeps_def)

lemma only_looksD:
  assumes "only_looks P disk"
  shows "keeps (disk_of disk) (on_world (da_exists (pu_daemon P) p))" "keeps (disk_of disk) (on_world (pu_origin P p))"
    "keeps (disk_of disk) (on_world (pu_read P))" "keeps (disk_of disk) (on_world (da_is_root (pu_daemon P)))"
    "keeps (disk_of disk) (on_world (da_chown (pu_daemon P) p u g))"
    "keeps (disk_of disk) (on_world (ap_unix_ms (da_engine (pu_daemon P))))"
    "keeps (disk_of disk) (on_world (ap_image_is_local (da_engine (pu_daemon P)) r))"
    "keeps (disk_of disk) (on_world (ap_pull_image (da_engine (pu_daemon P)) r pl))"
    "keeps (disk_of disk) (on_world (pu_live_sock P own))"
    "keeps (disk_of disk) (on_world (pu_is_session_agent P s))"
  using assms unfolding only_looks_def by (auto intro: keeps_disk_world)

lemma jobs_keep_disk:
  assumes "only_looks P disk"
  shows "keeps (disk_of disk) (on_log f (pu_daemon P))" "keeps (disk_of disk) (append_job (pu_daemon P) job text)"
    "keeps (disk_of disk) (queued_child (pu_daemon P) job key)" "keeps (disk_of disk) (child_job (pu_daemon P) job key)"
  unfolding on_log_def append_job_def queued_child_def child_job_def Let_def
  by (auto intro!: keeps_intros keeps_disk_modify only_looksD [OF assms] split: prod.splits)

lemma looking_keeps_disk:
  assumes "only_looks P disk"
  shows "keeps (disk_of disk) (resolve_now P)" "keeps (disk_of disk) (ensure_checkout_is P dest repo)"
    "keeps (disk_of disk) (refusal_hint P output)" "keeps (disk_of disk) (take_path (pu_daemon P) own p)"
  unfolding resolve_now_def ensure_checkout_is_def refusal_hint_def agent_of_def take_path_def
  by (auto intro!: keeps_intros only_looksD [OF assms])

lemma images_keep_disk:
  assumes "only_looks P disk"
  shows "keeps (disk_of disk) (pull_images_logged P nodes job)"
  unfolding pull_images_logged_def missing_images_def pull_step_def settling_def job_step_def
  by (auto intro!: keeps_intros only_looksD [OF assms] jobs_keep_disk [OF assms])

section \<open>Checkouts stay\<close>

definition intact :: "('w \<Rightarrow> string \<Rightarrow> 'c option) \<Rightarrow> (string \<Rightarrow> 'c option) \<Rightarrow> 'w daemon \<Rightarrow> bool" where
  "intact disk d0 d = (\<forall>t. d0 t \<noteq> None \<longrightarrow> disk_of disk d t = d0 t)"

lemma intact_self [simp]: "intact disk (disk_of disk d) d"
  by (simp add: intact_def)

lemma intact_there: "intact disk d0 d \<Longrightarrow> d0 t \<noteq> None \<Longrightarrow> disk_of disk d t \<noteq> None"
  by (simp add: intact_def)

lemma intact_trans: "intact disk d0 d \<Longrightarrow> intact disk (disk_of disk d) d' \<Longrightarrow> intact disk d0 d'"
  unfolding intact_def
proof (intro allI impI)
  fix t
  assume "\<forall>t. d0 t \<noteq> None \<longrightarrow> disk_of disk d t = d0 t" "d0 t \<noteq> None"
  then have "disk_of disk d t = d0 t" by blast
  moreover assume "\<forall>t. disk_of disk d t \<noteq> None \<longrightarrow> disk_of disk d' t = disk_of disk d t"
  ultimately show "disk_of disk d' t = d0 t" using \<open>d0 t \<noteq> None\<close> by metis
qed

lemma keeps_intact: "keeps (disk_of disk) m \<Longrightarrow> maintains (intact disk d0) m"
  using keeps_maintains [of "disk_of disk" m "\<lambda>p. \<forall>t. d0 t \<noteq> None \<longrightarrow> p t = d0 t"] by (simp add: intact_def [abs_def])

lemma exists_intact:
  assumes "honest_host P disk origin reading"
    and "\<And>b. (\<not> b \<Longrightarrow> d0 (path_text p) = None) \<Longrightarrow> maintains (intact disk d0) (f b)"
  shows "maintains (intact disk d0) (State_Monad.bind (on_world (da_exists (pu_daemon P) p)) f)"
  unfolding maintains_def
proof (intro allI impI)
  fix d
  assume d: "intact disk d0 d"
  obtain b d1 where look: "run_state (on_world (da_exists (pu_daemon P) p)) d = (b, d1)" by fastforce
  have looks: "only_looks P disk" using assms(1) by (simp add: honest_host_def)
  have d1: "intact disk d0 d1"
    using maintainsD [OF keeps_intact [OF only_looksD(1) [OF looks]] d look] .
  have "b = fst (run_state (da_exists (pu_daemon P) p) (dm_world d))"
    using look by (simp add: run_on_world split: prod.splits)
  also have "\<dots> = (disk_of disk d (path_text p) \<noteq> None)" using assms(1) by (simp add: honest_host_def)
  finally have "b = (disk_of disk d (path_text p) \<noteq> None)" .
  then have "\<not> b \<Longrightarrow> d0 (path_text p) = None" using d by (metis intact_there)
  then have "maintains (intact disk d0) (f b)" by (rule assms(2))
  then have "intact disk d0 (snd (run_state (f b) d1))" using d1 by (simp add: maintains_def)
  then show "intact disk d0 (snd (run_state (State_Monad.bind (on_world (da_exists (pu_daemon P) p)) f) d))"
    using look by simp
qed

lemma world_intact:
  assumes "\<And>w t. disk w t \<noteq> None \<Longrightarrow> d0 t \<noteq> None \<Longrightarrow> disk (snd (run_state m w)) t = disk w t"
  shows "maintains (intact disk d0) (on_world m)"
  unfolding maintains_def intact_def
proof (intro allI impI)
  fix d t
  assume d: "\<forall>t. d0 t \<noteq> None \<longrightarrow> disk_of disk d t = d0 t" and t: "d0 t \<noteq> None"
  obtain r w where run: "run_state m (dm_world d) = (r, w)" by fastforce
  from d t have "disk_of disk d t = d0 t" by blast
  with assms [of "dm_world d" t] t run show "disk_of disk (snd (run_state (on_world m) d)) t = d0 t"
    by (simp add: run_on_world)
qed

lemma git_intact:
  assumes "honest_host P disk origin reading" and "d0 (git_target args) = None"
  shows "maintains (intact disk d0) (on_world (pu_git P own args))"
proof (rule world_intact)
  fix w t
  assume "d0 t \<noteq> None"
  with assms(2) have "t \<noteq> git_target args" by metis
  with assms(1) show "disk (snd (run_state (pu_git P own args) w)) t = disk w t" by (simp add: honest_host_def)
qed

lemma made_intact:
  assumes "honest_host P disk origin reading"
  shows "maintains (intact disk d0) (on_world (da_create_dir_all (pu_daemon P) p))"
proof (rule world_intact)
  fix w t
  assume "disk w t \<noteq> None"
  with assms show "disk (snd (run_state (da_create_dir_all (pu_daemon P) p) w)) t = disk w t" by (simp add: honest_host_def)
qed

lemma removed_intact:
  assumes "honest_host P disk origin reading" and "d0 s = None"
  shows "maintains (intact disk d0) (on_world (da_remove_dir_all (pu_daemon P) s))"
proof (rule world_intact)
  fix w t
  assume "d0 t \<noteq> None"
  with assms(2) have "t \<noteq> s" by metis
  with assms(1) show "disk (snd (run_state (da_remove_dir_all (pu_daemon P) s) w)) t = disk w t" by (simp add: honest_host_def)
qed

lemma run_git_intact:
  assumes "honest_host P disk origin reading" and "d0 (git_target args) = None"
  shows "maintains (intact disk d0) (run_git_logged P args job)"
proof -
  have looks: "only_looks P disk" using assms(1) by (simp add: honest_host_def)
  show ?thesis
    unfolding run_git_logged_def
    by (auto intro!: maintains_intros git_intact [where ?d0.0 = d0, OF assms] jobs_keep_disk [OF looks, THEN keeps_intact]
        looking_keeps_disk [OF looks, THEN keeps_intact])
qed

lemma git_target_clone [simp]: "git_target (''clone'' # args @ [dest]) = dest"
  "git_target [''clone'', a, b, c, e, f, dest] = dest" "git_target (''-C'' # dest # args) = dest"
  by (simp_all add: git_target_def)

lemma clone_intact:
  assumes "honest_host P disk origin reading"
  shows "maintains (intact disk d0) (run_git_clone_logged P repo branch local_path job)"
proof -
  have looks: "only_looks P disk" using assms(1) by (simp add: honest_host_def)
  show ?thesis
    unfolding run_git_clone_logged_def Let_def
    by (rule exists_intact [OF assms]) (auto intro!: maintains_intros run_git_intact [OF assms] jobs_keep_disk [OF looks, THEN keeps_intact]
        looking_keeps_disk [OF looks, THEN keeps_intact])
qed

lemma clone_source_intact:
  assumes "honest_host P disk origin reading"
  shows "maintains (intact disk d0) (clone_source_logged P src job)"
proof -
  have looks: "only_looks P disk" using assms(1) by (simp add: honest_host_def)
  have target: "git_target ([''clone'', ''--progress''] @ branch_args src @ [bsrc_url src, dest]) = dest" for dest
    by (simp add: git_target_def)
  show ?thesis
    unfolding clone_source_logged_def checkout_commit_def Let_def
    by (rule exists_intact [OF assms])
      (auto intro!: maintains_intros run_git_intact [OF assms] made_intact [OF assms] removed_intact [OF assms] jobs_keep_disk [OF looks, THEN keeps_intact]
        looking_keeps_disk [OF looks, THEN keeps_intact] simp: target simp del: append.simps)
qed

lemma pulls_intact:
  assumes "honest_host P disk origin reading"
  shows "maintains (intact disk d0) (clone_stub_logged P n job)" "maintains (intact disk d0) (clone_node_logged P i job)"
    "maintains (intact disk d0) (clone_layer P sources missing job)" "maintains (intact disk d0) (pull_round P flow images job)"
    "maintains (intact disk d0) (pull_rounds k P flow images job)" "maintains (intact disk d0) (pull_all_logged k P flow images job)"
    "maintains (intact disk d0) (pull_all k P flow job)" "maintains (intact disk d0) (pull_node P i job)"
proof -
  have looks: "only_looks P disk" using assms(1) by (simp add: honest_host_def)
  note rules = maintains_intros clone_intact [OF assms] clone_source_intact [OF assms] made_intact [OF assms]
    jobs_keep_disk [OF looks, THEN keeps_intact]
        looking_keeps_disk [OF looks, THEN keeps_intact] images_keep_disk [OF looks, THEN keeps_intact]
  show stub: "maintains (intact disk d0) (clone_stub_logged P n job)" for n job
    unfolding clone_stub_logged_def by (auto intro!: rules)
  show one: "maintains (intact disk d0) (clone_node_logged P i job)"
    unfolding clone_node_logged_def by (auto intro!: rules stub)
  show layer: "maintains (intact disk d0) (clone_layer P sources missing job)" for sources missing
    unfolding clone_layer_def settling_def by (auto intro!: rules stub)
  show round: "maintains (intact disk d0) (pull_round P flow images job)" for images
    unfolding pull_round_def Let_def by (auto intro!: rules layer)
  show rounds: "maintains (intact disk d0) (pull_rounds k P flow images job)" for images k
    by (induction k) (auto intro!: rules round split: bool.split)
  show all: "maintains (intact disk d0) (pull_all_logged k P flow images job)" for images
    unfolding pull_all_logged_def by (auto intro!: rules rounds)
  show "maintains (intact disk d0) (pull_all k P flow job)"
    unfolding pull_all_def by (auto intro!: rules all)
  show "maintains (intact disk d0) (pull_node P i job)"
    unfolding pull_node_def settling_def by (auto intro!: rules one)
qed

section \<open>What a pull brings\<close>

lemma honest_looks: "honest_host P disk origin reading \<Longrightarrow> only_looks P disk"
  by (simp add: honest_host_def)

lemma run_bind_iff:
  "run_state (State_Monad.bind m f) s = (y, s'') \<longleftrightarrow>
     (\<exists>x s'. run_state m s = (x, s') \<and> run_state (f x) s' = (y, s''))"
  by (auto split: prod.splits)

lemma run_git_brings:
  assumes "honest_host P disk origin reading" and "run_state (run_git_logged P args job) d = (Inr u, d')"
  shows "disk_of disk d' (git_target args) \<noteq> None"
proof -
  note looks = honest_looks [OF assms(1)]
  let ?git = "on_world (pu_git P (pu_owner P) args)"
  obtain r d1 where git: "run_state ?git d = (r, d1)" by fastforce
  have after: "run_state (run_git_logged P args job) d =
      (case context_of ''failed to spawn git'' r of
         Inl e \<Rightarrow> (Inl e, d1)
       | Inr (chunks, failed) \<Rightarrow> run_state (do {
           each (\<lambda>c _. append_job (pu_daemon P) job (stream_chunk c)) chunks ();
           case failed of
             None \<Rightarrow> ok ()
           | Some status \<Rightarrow> do {
               da \<leftarrow> State_Monad.get;
               hint \<leftarrow> refusal_hint P (log_from job (log_len job (dm_log d)) (dm_log da));
               (case hint of
                  None \<Rightarrow> State_Monad.return ()
                | Some h \<Rightarrow> append_job (pu_daemon P) job (line_break @ ''hint: '' @ h @ line_break));
               fails (''git exited with '' @ status) } }) d1)"
    unfolding run_git_logged_def by (simp add: run_and_then run_with_context git Let_def split: sum.splits prod.splits)
  from after assms(2) obtain chunks where r: "r = Inr (chunks, None)"
    and rest: "run_state (each (\<lambda>c _. append_job (pu_daemon P) job (stream_chunk c)) chunks ()) d1 = ((), d')"
    by (auto simp: context_of_def split: sum.splits prod.splits option.splits)
  from git have "run_state (pu_git P (pu_owner P) args) (dm_world d) = (r, dm_world d1)"
    by (auto simp: run_on_world split: prod.splits)
  then have "disk_of disk d1 (git_target args) \<noteq> None"
    using assms(1) unfolding honest_host_def r by (metis fst_conv snd_conv)
  moreover have "keeps (disk_of disk) (each (\<lambda>c _. append_job (pu_daemon P) job (stream_chunk c)) chunks ())"
    by (intro keeps_intros jobs_keep_disk [OF looks])
  ultimately show ?thesis using keepsD [OF _ rest] by metis
qed

lemma exists_says:
  assumes "honest_host P disk origin reading" and "run_state (on_world (da_exists (pu_daemon P) p)) d = (b, d1)"
  shows "b = (disk_of disk d (path_text p) \<noteq> None)" "disk_of disk d1 = disk_of disk d"
proof -
  have "b = fst (run_state (da_exists (pu_daemon P) p) (dm_world d))"
    using assms(2) by (simp add: run_on_world split: prod.splits)
  also have "\<dots> = (disk_of disk d (path_text p) \<noteq> None)" using assms(1) by (simp add: honest_host_def)
  finally show "b = (disk_of disk d (path_text p) \<noteq> None)" .
  show "disk_of disk d1 = disk_of disk d"
    by (rule keepsD [OF only_looksD(1) [OF honest_looks [OF assms(1)]] assms(2)])
qed

lemma clone_brings:
  assumes "honest_host P disk origin reading"
    and "run_state (run_git_clone_logged P repo branch local_path job) d = (Inr u, d')"
  shows "disk_of disk d' (path_text (folder_in (pu_workspace P) local_path)) \<noteq> None"
proof -
  let ?dest = "folder_in (pu_workspace P) local_path"
  note looks = honest_looks [OF assms(1)]
  obtain b d1 where look: "run_state (on_world (da_exists (pu_daemon P) ?dest)) d = (b, d1)" by fastforce
  note seen = exists_says [OF assms(1) look]
  show ?thesis
  proof (cases b)
    case True
    with assms(2) look have "run_state (ensure_checkout_is P ?dest repo) d1 = (Inr u, d')"
      by (simp add: run_git_clone_logged_def Let_def)
    from keepsD [OF looking_keeps_disk(2) [OF looks] this] seen True show ?thesis by simp
  next
    case False
    let ?args = "[''clone'', ''--progress'', ''--branch'', branch, ''--single-branch'', repo, path_text ?dest]"
    from False assms(2) look obtain d2 where "run_state (run_git_logged P ?args job) d2 = (Inr u, d')"
      by (auto simp: run_git_clone_logged_def Let_def run_with_context_Inr split: prod.splits)
    from run_git_brings [OF assms(1) this] show ?thesis by simp
  qed
qed

lemma clone_source_brings:
  assumes "honest_host P disk origin reading" and "run_state (clone_source_logged P src job) d = (Inr u, d')"
  shows "disk_of disk d' (path_text (folder_in (pu_workspace P) (bsrc_path src))) \<noteq> None"
proof -
  let ?dest = "folder_in (pu_workspace P) (bsrc_path src)"
  note looks = honest_looks [OF assms(1)]
  obtain b d1 where look: "run_state (on_world (da_exists (pu_daemon P) ?dest)) d = (b, d1)" by fastforce
  note seen = exists_says [OF assms(1) look]
  show ?thesis
  proof (cases b)
    case True
    with assms(2) look have "run_state (ensure_checkout_is P ?dest (bsrc_url src)) d1 = (Inr u, d')"
      by (simp add: clone_source_logged_def Let_def)
    from keepsD [OF looking_keeps_disk(2) [OF looks] this] seen True show ?thesis by simp
  next
    case False
    let ?args = "[''clone'', ''--progress''] @ branch_args src @ [bsrc_url src, path_text ?dest]"
    let ?sources = "child_path (pu_workspace P) [SOURCES_DIR]"
    from False assms(2) look have "run_state (and_then (with_context (''failed to create '' @ path_text ?sources)
                 (on_world (da_create_dir_all (pu_daemon P) ?sources))) (\<lambda>_.
             and_then (case pu_owner P of
                 None \<Rightarrow> ok ()
               | Some own \<Rightarrow> with_context (''failed to hand '' @ path_text ?sources @ '' to the owner'')
                   (take_path (pu_daemon P) own ?sources)) (\<lambda>_. do {
             append_job (pu_daemon P) job (line_of (''$ git clone ''
               @ (case (bsrc_reference src, pinned_commit src) of (Some r, None) \<Rightarrow> ''--branch '' @ r @ '' '' | _ \<Rightarrow> [])
               @ bsrc_url src @ '' '' @ bsrc_path src));
             and_then (with_context (''git clone failed for '' @ bsrc_url src) (run_git_logged P ?args job)) (\<lambda>_.
             case pinned_commit src of
               None \<Rightarrow> ok ()
             | Some commit \<Rightarrow> checkout_commit P src ?dest commit job) }))) d1 = (Inr u, d')"
      by (simp add: clone_source_logged_def Let_def)
    then obtain d2 d3 v where
      cloned: "run_state (run_git_logged P ?args job) d2 = (Inr v, d3)" and
      rest: "run_state (case pinned_commit src of None \<Rightarrow> ok ()
               | Some commit \<Rightarrow> checkout_commit P src ?dest commit job) d3 = (Inr u, d')"
      unfolding run_and_then_Inr run_with_context_Inr run_bind_iff by (elim exE conjE) (erule that, assumption)
    show ?thesis
    proof (cases "pinned_commit src")
      case None
      with run_git_brings [OF assms(1) cloned] rest show ?thesis by (simp add: git_target_def)
    next
      case (Some commit)
      let ?checkout = "[''-C'', path_text ?dest, ''checkout'', ''--detach'', commit]"
      from Some rest obtain d4 v' where "run_state (run_git_logged P ?checkout job) d4 = (Inr v', d')"
        by (auto simp: checkout_commit_def split: prod.splits sum.splits)
      from run_git_brings [OF assms(1) this] show ?thesis by simp
    qed
  qed
qed

text \<open>A list of clones that all succeed has brought them all.\<close>

lemma each_brings:
  assumes "\<And>x v d0. maintains (intact disk d0) (f x v)"
    and "\<And>x v d u d'. run_state (f x v) d = (Inr u, d') \<Longrightarrow> disk_of disk d' (T x) \<noteq> None"
    and "run_state (each_ok f xs v) d = (Inr u, d')" and "x \<in> set xs"
  shows "disk_of disk d' (T x) \<noteq> None"
  using assms(3,4)
proof (induction xs arbitrary: v d)
  case (Cons y ys)
  from Cons.prems(1) obtain v' d1 where first: "run_state (f y v) d = (Inr v', d1)"
    and rest: "run_state (each_ok f ys v') d1 = (Inr u, d')"
    by (auto simp: run_and_then_Inr)
  have "maintains (intact disk (disk_of disk d1)) (each_ok f ys v')" by (intro maintains_each_ok assms(1))
  from maintainsD [OF this _ rest] have "intact disk (disk_of disk d1) d'" by simp
  with assms(2) [OF first] intact_there have "disk_of disk d' (T y) \<noteq> None" by metis
  with Cons.IH [OF rest] Cons.prems(2) show ?case by auto
qed simp

section \<open>The rounds\<close>

text \<open>The graph that is resolved from what is on the disk, and the folders it says to clone into.\<close>

definition graph_on :: "((string \<Rightarrow> 'c option) \<Rightarrow> workspace_reading result) \<Rightarrow> (string \<Rightarrow> 'c option) \<Rightarrow> graph option" where
  "graph_on reading m =
     (case reading m of
        Inl e \<Rightarrow> None
      | Inr r \<Rightarrow> resolve_universe (wr_name r) (wr_git r) (wr_facts r) (wr_found r))"

definition lacks :: "'w pull_api \<Rightarrow> string option \<Rightarrow> graph \<Rightarrow> string set" where
  "lacks P flow g =
     (case wanted_nodes g flow of
        Inl e \<Rightarrow> {}
      | Inr wanted \<Rightarrow>
          (\<lambda>s. path_text (folder_in (pu_workspace P) (bsrc_path s))) ` set (missing_sources wanted) \<union>
          (\<lambda>n. path_text (folder_in (pu_workspace P) (stub_path n))) ` set (missing_nodes wanted))"

definition complete_for :: "graph \<Rightarrow> string option \<Rightarrow> bool" where
  "complete_for g flow =
     (case wanted_nodes g flow of Inl e \<Rightarrow> False | Inr wanted \<Rightarrow> missing_nodes wanted = [] \<and> missing_sources wanted = [])"

lemma resolve_now_reads:
  assumes "honest_host P disk origin reading" and "run_state (resolve_now P) d = (r, d1)"
  shows "disk_of disk d1 = disk_of disk d" "r = Inr g \<longleftrightarrow> graph_on reading (disk_of disk d) = Some g"
proof -
  show "disk_of disk d1 = disk_of disk d"
    by (rule keepsD [OF looking_keeps_disk(1) [OF honest_looks [OF assms(1)]] assms(2)])
  obtain x w where read: "run_state (pu_read P) (dm_world d) = (x, w)" by fastforce
  have "x = fst (run_state (pu_read P) (dm_world d))" using read by simp
  also have "\<dots> = reading (disk_of disk d)" using assms(1) by (simp add: honest_host_def)
  finally show "r = Inr g \<longleftrightarrow> graph_on reading (disk_of disk d) = Some g"
    using assms(2) read
    by (auto simp: resolve_now_def graph_on_def run_and_then run_on_world split: sum.splits option.splits)
qed

lemma clone_layer_brings:
  assumes host: "honest_host P disk origin reading" and run: "run_state (clone_layer P sources missing job) d = (Inr u, d')"
  shows "s \<in> set sources \<Longrightarrow> disk_of disk d' (path_text (folder_in (pu_workspace P) (bsrc_path s))) \<noteq> None"
    and "n \<in> set missing \<Longrightarrow> disk_of disk d' (path_text (folder_in (pu_workspace P) (stub_path n))) \<noteq> None"
proof -
  note looks = honest_looks [OF host]
  note rules = maintains_intros clone_source_intact [OF host] pulls_intact(1) [OF host] jobs_keep_disk [OF looks, THEN keeps_intact]
  let ?source = "\<lambda>src u. do {
           clone \<leftarrow> child_job (pu_daemon P) job (bsrc_path src);
           settling (pu_daemon P) clone (clone_source_logged P src clone) }"
  let ?stub = "\<lambda>n u. do {
           clone \<leftarrow> child_job (pu_daemon P) job (stub_path n);
           settling (pu_daemon P) clone (clone_stub_logged P n clone) }"
  have intact: "maintains (intact disk d0) (?source src v)" "maintains (intact disk d0) (?stub n v)" for src n v d0
    unfolding settling_def by (auto intro!: rules)
  have source: "disk_of disk e' (path_text (folder_in (pu_workspace P) (bsrc_path src))) \<noteq> None"
    if "run_state (?source src v) e = (Inr w, e')" for src v e w e'
  proof -
    from that obtain clone e1 e2 where "run_state (clone_source_logged P src clone) e1 = (Inr w, e2)"
      and log: "run_state (on_log (settle_job clone (Inr w)) (pu_daemon P)) e2 = ((), e')"
      by (auto simp: settling_def split: prod.splits)
    with clone_source_brings [OF host] keepsD [OF jobs_keep_disk(1) [OF looks] log] show ?thesis by metis
  qed
  have stub: "disk_of disk e' (path_text (folder_in (pu_workspace P) (stub_path n))) \<noteq> None"
    if "run_state (?stub n v) e = (Inr w, e')" for n v e w e'
  proof -
    from that obtain clone e1 e2 where one: "run_state (clone_stub_logged P n clone) e1 = (Inr w, e2)"
      and log: "run_state (on_log (settle_job clone (Inr w)) (pu_daemon P)) e2 = ((), e')"
      by (auto simp: settling_def split: prod.splits)
    from one have "disk_of disk e2 (path_text (folder_in (pu_workspace P) (stub_path n))) \<noteq> None"
      unfolding clone_stub_logged_def stub_path_def
      by (cases "n_repo n") (auto dest: clone_brings [OF host])
    with keepsD [OF jobs_keep_disk(1) [OF looks] log] show ?thesis by metis
  qed
  from run obtain v d1 where sources: "run_state (each_ok ?source sources ()) d = (Inr v, d1)"
    and stubs: "run_state (each_ok ?stub missing ()) d1 = (Inr u, d')"
    unfolding clone_layer_def run_and_then_Inr by blast
  have "maintains (intact disk (disk_of disk d1)) (each_ok ?stub missing ())" by (intro maintains_each_ok intact)
  from maintainsD [OF this _ stubs] have later: "intact disk (disk_of disk d1) d'" by simp
  show "disk_of disk d' (path_text (folder_in (pu_workspace P) (bsrc_path s))) \<noteq> None" if "s \<in> set sources"
    using intact_there [OF later each_brings [OF intact(1) source sources that]] .
  show "disk_of disk d' (path_text (folder_in (pu_workspace P) (stub_path n))) \<noteq> None" if "n \<in> set missing"
    using each_brings [OF intact(2) stub stubs that] .
qed

lemma round_outcomes:
  assumes host: "honest_host P disk origin reading" and run: "run_state (pull_round P flow images job) d = (Inr done, d')"
  shows "\<exists>g. graph_on reading (disk_of disk d) = Some g \<and>
    (if done then disk_of disk d' = disk_of disk d \<and> complete_for g flow
     else lacks P flow g \<noteq> {} \<and> (\<forall>t\<in>lacks P flow g. disk_of disk d' t \<noteq> None))"
proof -
  note looks = honest_looks [OF host]
  from run obtain g d1 wanted where resolved: "run_state (resolve_now P) d = (Inr g, d1)"
    and wanted: "wanted_nodes g flow = Inr wanted"
    and rest: "run_state (if missing_nodes wanted = [] \<and> missing_sources wanted = [] then
            and_then (if images then pull_images_logged P wanted job else ok ()) (\<lambda>_. do {
              append_job (pu_daemon P) job (line_break @ line_of ''nothing left to pull'');
              ok True })
          else and_then (clone_layer P (missing_sources wanted) (missing_nodes wanted) job) (\<lambda>_. ok False)) d1 = (Inr done, d')"
    unfolding pull_round_def Let_def run_and_then_Inr by auto
  note read = resolve_now_reads [OF host resolved]
  show ?thesis
  proof (cases "missing_nodes wanted = [] \<and> missing_sources wanted = []")
    case True
    have keeps: "keeps (disk_of disk) (and_then (if images then pull_images_logged P wanted job else ok ()) (\<lambda>_. do {
              append_job (pu_daemon P) job (line_break @ line_of ''nothing left to pull'');
              ok True }))"
      by (auto intro!: keeps_intros images_keep_disk [OF looks] jobs_keep_disk [OF looks])
    from True rest have last: "run_state (and_then (if images then pull_images_logged P wanted job else ok ()) (\<lambda>_. do {
              append_job (pu_daemon P) job (line_break @ line_of ''nothing left to pull'');
              ok True })) d1 = (Inr done, d')" by simp
    then have "done" unfolding run_and_then_Inr run_bind_iff by auto
    moreover have "disk_of disk d' = disk_of disk d" using keepsD [OF keeps last] read(1) by simp
    moreover have "complete_for g flow" using True wanted by (simp add: complete_for_def)
    ultimately show ?thesis using read(2) [of g] by auto
  next
    case False
    with rest obtain u where cloned: "run_state (clone_layer P (missing_sources wanted) (missing_nodes wanted) job) d1 = (Inr u, d')"
      and "\<not> done" by (auto simp: run_and_then_Inr)
    moreover have "lacks P flow g \<noteq> {}" using False wanted by (auto simp: lacks_def)
    moreover have "\<forall>t\<in>lacks P flow g. disk_of disk d' t \<noteq> None"
      using clone_layer_brings [OF host cloned] wanted by (auto simp: lacks_def)
    ultimately show ?thesis using read(2) [of g] by auto
  qed
qed

text \<open>Each round that goes on brings at least one folder of the finitely many that can be missing.\<close>

lemma rounds_end:
  assumes host: "honest_host P disk origin reading" and U: "finite U"
    and sound: "\<And>m g t. graph_on reading m = Some g \<Longrightarrow> t \<in> lacks P flow g \<Longrightarrow> t \<in> U \<and> m t = None"
    and fuel: "card {t\<in>U. disk_of disk d t = None} < k"
  shows "\<exists>r d'. run_state (pull_rounds k P flow images job) d = (Some r, d') \<and>
    (r = Inr () \<longrightarrow> (\<exists>g. graph_on reading (disk_of disk d') = Some g \<and> complete_for g flow))"
  using fuel
proof (induction k arbitrary: d)
  case (Suc k)
  obtain r d1 where round: "run_state (pull_round P flow images job) d = (r, d1)" by fastforce
  show ?case
  proof (cases r)
    case (Inl e)
    with round show ?thesis by simp
  next
    case (Inr fin)
    note outcome = round_outcomes [OF host round [unfolded Inr]]
    show ?thesis
    proof (cases fin)
      case True
      with outcome Inr round show ?thesis by auto
    next
      case False
      with outcome obtain g where g: "graph_on reading (disk_of disk d) = Some g" "lacks P flow g \<noteq> {}"
        "\<forall>t\<in>lacks P flow g. disk_of disk d1 t \<noteq> None" by auto
      from g(2) obtain t where t: "t \<in> lacks P flow g" by blast
      have later: "intact disk (disk_of disk d) d1"
        using maintainsD [OF pulls_intact(4) [OF host] _ round] by simp
      have "{t\<in>U. disk_of disk d1 t = None} \<subset> {t\<in>U. disk_of disk d t = None}"
        using intact_there [OF later] sound [OF g(1) t] g(3) t by blast
      then have "card {t\<in>U. disk_of disk d1 t = None} < card {t\<in>U. disk_of disk d t = None}"
        using U by (intro psubset_card_mono) simp_all
      with Suc.prems have "card {t\<in>U. disk_of disk d1 t = None} < k" by simp
      from Suc.IH [OF this] show ?thesis using round Inr False by simp
    qed
  qed
qed simp

section \<open>A round that brings nothing\<close>

lemma stub_accepted:
  assumes host: "honest_host P disk origin reading" and n: "n_repo n = Some repo"
    and there: "disk_of disk d (path_text (folder_in (pu_workspace P) (stub_path n))) = Some c"
    and same: "origin c = Some o'" "normalize_repo_url o' = normalize_repo_url repo"
  shows "\<exists>d'. run_state (clone_stub_logged P n job) d = (Inr (), d') \<and> disk_of disk d' = disk_of disk d"
proof -
  let ?dest = "folder_in (pu_workspace P) (stub_path n)"
  obtain b d1 where look: "run_state (on_world (da_exists (pu_daemon P) ?dest)) d = (b, d1)" by fastforce
  note seen = exists_says [OF host look]
  obtain x d2 where ask: "run_state (on_world (pu_origin P ?dest)) d1 = (x, d2)" by fastforce
  have "x = fst (run_state (pu_origin P ?dest) (dm_world d1))" using ask by (simp add: run_on_world split: prod.splits)
  also have "\<dots> = Option.bind (disk_of disk d1 (path_text ?dest)) origin" using host by (simp add: honest_host_def)
  finally have "x = Some o'" using seen there same(1) by simp
  moreover have "disk_of disk d2 = disk_of disk d1"
    by (rule keepsD [OF only_looksD(2) [OF honest_looks [OF host]] ask])
  moreover have "run_state (clone_stub_logged P n job) d =
      run_state (run_git_clone_logged P repo (case n_branch n of Some b \<Rightarrow> b | None \<Rightarrow> ''main'') (stub_path n) job) d"
    using n by (simp add: clone_stub_logged_def stub_path_def)
  moreover have "b" using seen(1) there by simp
  ultimately show ?thesis
    using look ask seen(2) same(2) by (simp add: run_git_clone_logged_def ensure_checkout_is_def Let_def)
qed

lemma stubs_accepted:
  assumes host: "honest_host P disk origin reading"
    and there: "\<forall>n\<in>set missing. \<exists>repo c o'. n_repo n = Some repo \<and>
      m (path_text (folder_in (pu_workspace P) (stub_path n))) = Some c \<and> origin c = Some o' \<and>
      normalize_repo_url o' = normalize_repo_url repo"
  shows "disk_of disk d = m \<Longrightarrow> \<exists>d'. run_state (clone_layer P [] missing job) d = (Inr (), d') \<and> disk_of disk d' = m"
  using there unfolding clone_layer_def
proof (induction missing arbitrary: d)
  case Nil
  then show ?case by (simp add: run_and_then)
next
  case (Cons n ns)
  note looks = honest_looks [OF host]
  from Cons.prems(2) obtain repo c o' where n: "n_repo n = Some repo" "origin c = Some o'"
    "m (path_text (folder_in (pu_workspace P) (stub_path n))) = Some c" "normalize_repo_url o' = normalize_repo_url repo" by auto
  obtain clone d1 where child: "run_state (child_job (pu_daemon P) job (stub_path n)) d = (clone, d1)" by fastforce
  from keepsD [OF jobs_keep_disk(4) [OF looks] child] Cons.prems(1) have d1: "disk_of disk d1 = m" by simp
  with stub_accepted [OF host n(1) _ n(2,4), of d1 clone] n(3) obtain d2 where
    cloned: "run_state (clone_stub_logged P n clone) d1 = (Inr (), d2)" and d2: "disk_of disk d2 = m" by auto
  obtain x d3 where "run_state (on_log (settle_job clone (Inr ())) (pu_daemon P)) d2 = (x, d3)"
    by (cases "run_state (on_log (settle_job clone (Inr ())) (pu_daemon P)) d2") auto
  then have log: "run_state (on_log (settle_job clone (Inr ())) (pu_daemon P)) d2 = ((), d3)" by simp
  from keepsD [OF jobs_keep_disk(1) [OF looks] log] d2 have d3: "disk_of disk d3 = m" by simp
  from Cons.IH [OF d3] Cons.prems(2) obtain d' where
    "run_state (and_then (each_ok (\<lambda>src _. do {
           clone \<leftarrow> child_job (pu_daemon P) job (bsrc_path src);
           settling (pu_daemon P) clone (clone_source_logged P src clone) }) [] ())
       (\<lambda>_. each_ok (\<lambda>n _. do {
           clone \<leftarrow> child_job (pu_daemon P) job (stub_path n);
           settling (pu_daemon P) clone (clone_stub_logged P n clone) }) ns ())) d3 = (Inr (), d')" "disk_of disk d' = m" by auto
  then show ?case using child cloned log by (simp add: run_and_then settling_def)
qed

lemma round_in_vain:
  assumes host: "honest_host P disk origin reading"
    and g: "graph_on reading (disk_of disk d) = Some g" "wanted_nodes g flow = Inr wanted"
    and none: "missing_sources wanted = []" "missing_nodes wanted \<noteq> []"
    and there: "\<forall>n\<in>set (missing_nodes wanted). \<exists>repo c o'. n_repo n = Some repo \<and>
      disk_of disk d (path_text (folder_in (pu_workspace P) (stub_path n))) = Some c \<and> origin c = Some o' \<and>
      normalize_repo_url o' = normalize_repo_url repo"
  shows "\<exists>d'. run_state (pull_round P flow images job) d = (Inr False, d') \<and> disk_of disk d' = disk_of disk d"
proof -
  obtain r d1 where resolved: "run_state (resolve_now P) d = (r, d1)" by fastforce
  with resolve_now_reads [OF host this] g(1) have r: "r = Inr g" "disk_of disk d1 = disk_of disk d" by auto
  from stubs_accepted [OF host there r(2)] obtain d' where
    "run_state (clone_layer P [] (missing_nodes wanted) job) d1 = (Inr (), d')" "disk_of disk d' = disk_of disk d" by blast
  then show ?thesis
    using resolved r none g(2) by (simp add: pull_round_def run_and_then Let_def)
qed

section \<open>A sample\<close>

text \<open>
  A workspace whose repository \<open>app\<close> includes another, on a disk that is a list of checkouts with their origins;
  the flag says whether the other repository has a \<open>.fghj.yaml\<close>.
\<close>

definition lib_url :: string where "lib_url = ''https://git.example/lib.git''"

definition app_config :: component_config where
  "app_config = \<lparr>cc_version = SCHEMA_VERSION, cc_include = [(''lib'', IncludeUrl lib_url)],
     cc_services = [(''web'', plain_service)], cc_flows = []\<rparr>"

definition lib_config :: component_config where
  "lib_config = \<lparr>cc_version = SCHEMA_VERSION, cc_include = [], cc_services = [(''db'', plain_service)], cc_flows = []\<rparr>"

definition sample_reading :: "bool \<Rightarrow> (string \<Rightarrow> string option) \<Rightarrow> workspace_reading result" where
  "sample_reading configured m = Inr
     \<lparr>wr_name = ''w'', wr_git = no_git, wr_facts = [],
      wr_found = (''app'', Inr app_config) #
        (if configured \<and> m ''/w/lib'' \<noteq> None then [(''lib'', Inr lib_config)] else [])\<rparr>"

definition pull_host :: "bool \<Rightarrow> (string \<times> string) list pull_api" where
  "pull_host configured =
     \<lparr>pu_daemon = calm_daemon
        \<lparr>da_exists := (\<lambda>p. State (\<lambda>w. (map_of w (path_text p) \<noteq> None, w))),
         da_remove_dir_all := (\<lambda>s. State (\<lambda>w. (Inr (), filter (\<lambda>e. fst e \<noteq> s) w)))\<rparr>,
      pu_workspace = \<lparr>fp_absolute = True, fp_names = [''w'']\<rparr>, pu_owner = None,
      pu_read = State (\<lambda>w. (sample_reading configured (map_of w), w)),
      pu_origin = (\<lambda>p. State (\<lambda>w. (map_of w (path_text p), w))),
      pu_git = (\<lambda>_ args. State (\<lambda>w. (Inr ([], None), (git_target args, last (butlast args)) # w))),
      pu_live_sock = (\<lambda>_. answer None), pu_is_session_agent = (\<lambda>_. answer False)\<rparr>"

lemma map_of_filter_other: "t \<noteq> s \<Longrightarrow> map_of (filter (\<lambda>e. fst e \<noteq> s) w) t = map_of w t"
  by (induction w) auto

lemma pull_host_honest: "honest_host (pull_host configured) map_of Some (sample_reading configured)"
  unfolding honest_host_def only_looks_def keeps_def
  by (simp add: pull_host_def calm_daemon_def quiet_api_def answer_def map_of_filter_other)

lemma app_alone:
  "case resolve_universe ''w'' no_git [] [(''app'', Inr app_config)] of None \<Rightarrow> False
   | Some g \<Rightarrow> (case wanted_nodes g None of Inl e \<Rightarrow> False
     | Inr wanted \<Rightarrow> missing_sources wanted = [] \<and> map stub_path (missing_nodes wanted) = [''lib''] \<and>
         map n_repo (missing_nodes wanted) = [Some lib_url])"
  by code_simp

lemma app_and_lib:
  "case resolve_universe ''w'' no_git [] [(''app'', Inr app_config), (''lib'', Inr lib_config)] of None \<Rightarrow> False
   | Some g \<Rightarrow> (case wanted_nodes g None of Inl e \<Rightarrow> False
     | Inr wanted \<Rightarrow> missing_sources wanted = [] \<and> missing_nodes wanted = [])"
  by code_simp

definition pulling :: "(string \<times> string) list \<Rightarrow> (string \<times> string) list daemon" where
  "pulling w = first_start w"

lemma lib_folder: "path_text (folder_in (pu_workspace (pull_host configured)) ''lib'') = ''/w/lib''"
  by (simp add: pull_host_def) code_simp

lemma app_graph:
  assumes "\<not> configured \<or> m ''/w/lib'' = None" and "graph_on (sample_reading configured) m = Some g"
  shows "\<exists>wanted. wanted_nodes g None = Inr wanted \<and> missing_sources wanted = [] \<and>
    map stub_path (missing_nodes wanted) = [''lib''] \<and> map n_repo (missing_nodes wanted) = [Some lib_url]"
proof -
  have "resolve_universe ''w'' no_git [] [(''app'', Inr app_config)] = Some g"
    using assms by (auto simp: graph_on_def sample_reading_def)
  with app_alone show ?thesis by (auto split: sum.splits)
qed

lemma app_lib_graph:
  assumes "configured" "m ''/w/lib'' \<noteq> None" and "graph_on (sample_reading configured) m = Some g"
  shows "\<exists>wanted. wanted_nodes g None = Inr wanted \<and> missing_sources wanted = [] \<and> missing_nodes wanted = []"
proof -
  have "resolve_universe ''w'' no_git [] [(''app'', Inr app_config), (''lib'', Inr lib_config)] = Some g"
    using assms by (auto simp: graph_on_def sample_reading_def)
  with app_and_lib show ?thesis by (auto split: sum.splits)
qed

lemma app_resolves: "\<exists>g. graph_on (sample_reading False) m = Some g"
  using app_alone by (auto simp: graph_on_def sample_reading_def split: option.splits)

section \<open>The properties\<close>

text \<open>
  C37: A pull never touches a checkout that is there. Whatever it is asked to pull, whether it succeeds, fails
  or is still going, each folder that had something on disk when it began has the same afterwards: git
  is only told to clone where nothing is, it checks out a commit and removes a folder only in what it
  has itself just cloned.
\<close>

theorem pull_keeps_checkouts:
  assumes "honest_host P disk origin reading" and "disk (dm_world d) t = Some c"
  shows "disk (dm_world (snd (run_state (pull_all k P flow job) d))) t = Some c \<and>
    disk (dm_world (snd (run_state (pull_node P i job) d))) t = Some c"
proof -
  have "intact disk (disk (dm_world d)) (snd (run_state (pull_all k P flow job) d))"
    "intact disk (disk (dm_world d)) (snd (run_state (pull_node P i job) d))"
    using pulls_intact(7,8) [OF assms(1), where ?d0.0 = "disk (dm_world d)"] by (simp_all add: maintains_def)
  with assms(2) show ?thesis by (simp add: intact_def)
qed

theorem pull_keeps_checkouts_witness:
  "map_of (dm_world (snd (run_state (pull_all 3 (pull_host True) None 0) (pulling [(''/w/app'', ''u'')])))) ''/w/app'' = Some ''u''"
  using pull_keeps_checkouts [OF pull_host_honest, of "pulling [(''/w/app'', ''u'')]" "''/w/app''" "''u''"]
  by (simp add: pulling_def first_start_def)

text \<open>
  C38: A pull of all ends. When only finitely many folders can ever be asked for, and a folder that is there
  is never still missing from the graph, the loop over the layers ends within one round more than there
  are such folders: with an error, or with a workspace that resolves to a graph in which nothing that
  the flow starts is missing.
\<close>

theorem pull_all_ends:
  assumes "honest_host P disk origin reading" and "finite U"
    and "\<And>m g t. graph_on reading m = Some g \<Longrightarrow> t \<in> lacks P flow g \<Longrightarrow> t \<in> U \<and> m t = None"
    and "card U < k"
  shows "\<exists>r d'. run_state (pull_all_logged k P flow images job) d = (Some r, d') \<and>
    (r = Inr () \<longrightarrow> (\<exists>g. graph_on reading (disk (dm_world d')) = Some g \<and> complete_for g flow))"
proof -
  obtain made d1 where made: "run_state (with_context (''failed to create workspace dir '' @ path_text (pu_workspace P))
       (on_world (da_create_dir_all (pu_daemon P) (pu_workspace P)))) d = (made, d1)" by fastforce
  have "card {t\<in>U. disk (dm_world d1) t = None} < k"
    using card_mono [OF assms(2), of "{t\<in>U. disk (dm_world d1) t = None}"] assms(4) by simp
  have "\<exists>r d'. run_state (pull_rounds k P flow images job) d1 = (Some r, d') \<and>
    (r = Inr () \<longrightarrow> (\<exists>g. graph_on reading (disk (dm_world d')) = Some g \<and> complete_for g flow))"
    by (rule rounds_end [OF assms(1,2)]) (fact assms(3), fact)
  then show ?thesis
    using made by (cases made) (simp_all add: pull_all_logged_def)
qed

theorem pull_all_ends_witness:
  "\<exists>r d'. run_state (pull_all_logged 2 (pull_host True) None True 0) (pulling [(''/w/app'', ''u'')]) = (Some r, d') \<and>
    (r = Inr () \<longrightarrow> (\<exists>g. graph_on (sample_reading True) (map_of (dm_world d')) = Some g \<and> complete_for g None))"
proof (rule pull_all_ends [OF pull_host_honest, where U = "{''/w/lib''}"])
  show "t \<in> {''/w/lib''} \<and> m t = None"
    if g: "graph_on (sample_reading True) m = Some g" and t: "t \<in> lacks (pull_host True) None g" for m g t
  proof (cases "m ''/w/lib'' = None")
    case True
    with app_graph [OF _ g] t show ?thesis by (auto simp: lacks_def lib_folder)
  next
    case False
    with app_lib_graph [OF _ _ g] t show ?thesis by (auto simp: lacks_def)
  qed
qed simp_all

text \<open>
  C39: A pull of a repository that has no readable \<open>.fghj.yaml\<close> never ends. When all that the graph still misses are
  repositories whose folders hold the right checkouts already, every round accepts them, resolves the
  same graph and begins again: no number of rounds is enough, and no error is reported.
\<close>

theorem pull_in_vain_never_ends:
  assumes "honest_host P disk origin reading"
    and "graph_on reading (disk (dm_world d)) = Some g" and "wanted_nodes g flow = Inr wanted"
    and "missing_sources wanted = []" and "missing_nodes wanted \<noteq> []"
    and "\<forall>n\<in>set (missing_nodes wanted). \<exists>repo c o'. n_repo n = Some repo \<and>
      disk (dm_world d) (path_text (folder_in (pu_workspace P) (stub_path n))) = Some c \<and> origin c = Some o' \<and>
      normalize_repo_url o' = normalize_repo_url repo"
  shows "fst (run_state (pull_rounds k P flow images job) d) = None"
  using assms
proof (induction k arbitrary: d)
  case (Suc k)
  from round_in_vain [OF Suc.prems] obtain d' where
    round: "run_state (pull_round P flow images job) d = (Inr False, d')" and same: "disk (dm_world d') = disk (dm_world d)" by blast
  have "fst (run_state (pull_rounds k P flow images job) d') = None"
    using Suc.IH [OF Suc.prems(1), of d', unfolded same, OF Suc.prems(2-6)] .
  with round show ?case by simp
qed simp

theorem pull_in_vain_never_ends_witness:
  "\<exists>d. \<forall>k. map_of (dm_world d) ''/w/lib'' = Some lib_url \<and>
     fst (run_state (pull_rounds k (pull_host False) None True 0) d) = None"
proof -
  let ?d = "pulling [(''/w/lib'', lib_url)]"
  have disk: "map_of (dm_world ?d) ''/w/lib'' = Some lib_url" by (simp add: pulling_def first_start_def)
  obtain g where g: "graph_on (sample_reading False) (map_of (dm_world ?d)) = Some g" using app_resolves by blast
  from app_graph [OF _ g] obtain wanted where wanted: "wanted_nodes g None = Inr wanted" "missing_sources wanted = []"
    "map stub_path (missing_nodes wanted) = [''lib'']" "map n_repo (missing_nodes wanted) = [Some lib_url]" by auto
  then obtain n where n: "missing_nodes wanted = [n]" "stub_path n = ''lib''" "n_repo n = Some lib_url" by auto
  have "fst (run_state (pull_rounds k (pull_host False) None True 0) ?d) = None" for k
    by (rule pull_in_vain_never_ends [OF pull_host_honest g wanted(1,2)]) (simp_all add: n lib_folder disk)
  with disk show ?thesis by blast
qed

end
