(* ===== verification/Engine_Claims.thy ===== *)
theory Engine_Claims
  imports Words Docker_Net Orchestrate_Runs
begin

text \<open>The properties of what the orchestrator asks of Docker: addresses in a network, and waiting.\<close>

unbundle bit_operations_syntax

section \<open>Addresses\<close>

lemma split_once_address: "split_once (show_ip b @ ''/'' @ p) (CHR ''/'') = Some (show_ip b, p)"
proof -
  have "CHR ''/'' \<notin> set (show_nat n)" for n
    using show_nat_digits [of n] by (auto simp: list_all_iff is_digit_def code_def)
  moreover obtain w x y z where "octets b = [w, x, y, z]" by (simp add: octets_def Let_def)
  ultimately have "CHR ''/'' \<notin> set (show_ip b)" by (simp add: show_ip_def)
  then show ?thesis by (simp add: split_once_Some)
qed

lemma parse_u32_nat: "p < 2 ^ 32 \<Longrightarrow> parse_u32 (show_nat p) = Some (of_nat p)"
  unfolding parse_u32_def by (simp add: parse_bounded_show_nat)

text \<open>
  C16: In any IPv4 subnet that Docker may pick, of prefix 1 to 29, the address kept for the sidecar is the
  second after the network's, inside the subnet and below every address Docker hands out on its own: those
  are the upper half of the subnet. No arithmetic on addresses wraps.
\<close>
theorem sidecar_address_is_reserved:
  fixes b :: ip
  assumes p: "1 \<le> p" "p \<le> 29"
  defines "base \<equiv> unat b div 2 ^ (32 - p) * 2 ^ (32 - p)" and "half \<equiv> 2 ^ (31 - p)"
  shows "\<exists>ly sidecar dynamic. layout_of (show_ip b @ ''/'' @ show_nat p) = Some ly \<and>
    parse_ipv4 (ly_sidecar ly) = Some sidecar \<and> ly_dynamic_range ly = show_ip dynamic @ ''/'' @ show_nat (p + 1) \<and>
    unat sidecar = base + 2 \<and> unat dynamic = base + half \<and> unat sidecar < unat dynamic \<and>
    unat dynamic + half = base + 2 ^ (32 - p) \<and> base + 2 ^ (32 - p) \<le> 2 ^ 32 \<and> base \<le> unat b"
proof -
  let ?size = "push_bit (32 - p) (1 :: 32 word)"
  let ?base = "b AND NOT (?size - 1)"
  have k: "32 - p = Suc (31 - p)" "3 \<le> 32 - p" "32 - p \<le> 31" using p by auto
  have word_p: "(1 :: 32 word) \<le> of_nat p" "(of_nat p :: 32 word) \<le> 29" "unat (32 - of_nat p :: 32 word) = 32 - p"
      "unat (of_nat p + 1 :: 32 word) = p + 1"
  proof -
    have up: "unat (of_nat p :: 32 word) = p" using p by (simp add: unat_of_nat)
    then show "(1 :: 32 word) \<le> of_nat p" "(of_nat p :: 32 word) \<le> 29" using p by (simp_all add: word_le_nat_alt)
    have "(of_nat p :: 32 word) \<le> 32" using up p by (simp add: word_le_nat_alt)
    then show "unat (32 - of_nat p :: 32 word) = 32 - p" by (simp add: unat_sub up)
    show "unat (of_nat p + 1 :: 32 word) = p + 1" using up p by (simp add: unat_word_ariths)
  qed
  have base: "unat ?base = base" unfolding base_def by (rule unat_and_not_low_bits)
  have "unat b < 2 ^ 32" using unsigned_less [of b] by simp
  have top: "base + 2 ^ (32 - p) \<le> 2 ^ 32"
  proof -
    have "(2 :: nat) ^ 32 = 2 ^ p * 2 ^ (32 - p)" using p by (simp flip: power_add)
    with \<open>unat b < 2 ^ 32\<close> have "unat b div 2 ^ (32 - p) < 2 ^ p" by (simp add: less_mult_imp_div_less)
    then have "(unat b div 2 ^ (32 - p) + 1) * 2 ^ (32 - p) \<le> 2 ^ p * 2 ^ (32 - p)"
      by (intro mult_right_mono) simp_all
    with \<open>(2 :: nat) ^ 32 = 2 ^ p * 2 ^ (32 - p)\<close> show ?thesis unfolding base_def by (simp add: algebra_simps)
  qed
  have size: "(2 :: nat) ^ (32 - p) = half + half" unfolding half_def k(1) by simp
  have half: "(4 :: nat) \<le> half"
  proof -
    have "(2 :: nat) ^ 2 \<le> 2 ^ (31 - p)" using p by (intro power_increasing) simp_all
    then show ?thesis by (simp add: half_def)
  qed
  have usize: "unat ?size = 2 ^ (32 - p)" 
  proof -
    have "?size = of_nat (2 ^ (32 - p))" by (simp add: push_bit_of_1)
    moreover have "(2 :: nat) ^ (32 - p) \<le> 2 ^ 31" using k by (intro power_increasing) simp_all
    ultimately show ?thesis by (simp only: unat_of_nat) (simp add: mod_less)
  qed
  have uhalf: "unat (?size div 2) = half" unfolding unat_div usize size by simp
  have sidecar: "unat (?base + 2) = base + 2" unfolding unat_word_ariths base using top size half by simp
  have dynamic: "unat (?base + ?size div 2) = base + half" unfolding unat_word_ariths(1) base uhalf using top size half by simp
  have layout: "layout_of (show_ip b @ ''/'' @ show_nat p) =
      Some \<lparr>ly_sidecar = show_ip (?base + 2), ly_dynamic_range = show_ip (?base + ?size div 2) @ ''/'' @ show_nat (p + 1)\<rparr>"
  proof -
    have "p < 2 ^ 32" using p by simp
    with word_p show ?thesis
      by (simp only: layout_of_def split_once_address option.case prod.case parse_show_ip parse_u32_nat Let_def simp_thms if_False)
  qed
  have "base \<le> unat b" by (simp add: base_def)
  with layout sidecar dynamic half size top show ?thesis
    by (intro exI [of _ "\<lparr>ly_sidecar = show_ip (?base + 2), ly_dynamic_range = show_ip (?base + ?size div 2) @ ''/'' @ show_nat (p + 1)\<rparr>"]
        exI [of _ "?base + 2"] exI [of _ "?base + ?size div 2"]) (simp add: parse_show_ip)
qed

theorem sidecar_address_is_reserved_witness:
  "\<exists>ly sidecar. layout_of (show_ip (ipv4 172 18 0 1) @ ''/'' @ show_nat 16) = Some ly \<and> parse_ipv4 (ly_sidecar ly) = Some sidecar \<and>
     unat sidecar = unat (ipv4 172 18 0 1) div 2 ^ 16 * 2 ^ 16 + 2"
  using sidecar_address_is_reserved [of 16 "ipv4 172 18 0 1"] by auto

section \<open>Waiting\<close>

text \<open>
  Every wait for a container ends, within the polls the model counts, however often Docker fails to answer:
  with what the last look at the container settled, or not before the whole allowance has passed.
\<close>
theorem waits_end:
  assumes clock: "clocked A time"
  shows "(\<exists>r w'. run_state (wait_for_healthy A name limit) w = (Some r, w') \<and>
      (time w + limit \<le> time w' \<or> (\<exists>v. run_state (look_healthy A name) v = (Some r, w')))) \<and>
    (\<exists>r w'. run_state (wait_for_exit A name limit) w = (Some r, w') \<and>
      (time w + limit \<le> time w' \<or> (\<exists>v. run_state (look_exited A name) v = (Some r, w'))))"
proof
  show "\<exists>r w'. run_state (wait_for_healthy A name limit) w = (Some r, w') \<and>
      (time w + limit \<le> time w' \<or> (\<exists>v. run_state (look_healthy A name) v = (Some r, w')))"
    unfolding wait_for_healthy_def by (rule wait_until_ends [OF clock passes_looks(1) [OF clock] poll_positive(1)])
  show "\<exists>r w'. run_state (wait_for_exit A name limit) w = (Some r, w') \<and>
      (time w + limit \<le> time w' \<or> (\<exists>v. run_state (look_exited A name) v = (Some r, w')))"
    unfolding wait_for_exit_def by (rule wait_until_ends [OF clock passes_looks(2) [OF clock] poll_positive(2)])
qed

definition ticking_api :: "nat api" where
  "ticking_api = quiet_api\<lparr>ap_now := State (\<lambda>t. (t, t)), ap_sleep := (\<lambda>d. State (\<lambda>t. ((), t + d)))\<rparr>"

theorem waits_end_witness:
  "\<exists>r w'. run_state (wait_for_exit ticking_api ''web'' (secs 120)) 0 = (Some r, w') \<and>
     (secs 120 \<le> w' \<or> (\<exists>v. run_state (look_exited ticking_api ''web'') v = (Some r, w')))"
proof -
  have "clocked ticking_api id"
    by (simp add: clocked_def passes_def ticking_api_def quiet_api_def answer_def)
  from waits_end [OF this, of "''web''" "secs 120" 0] show ?thesis by simp
qed

end
