(* ===== verification/Hosts_File.thy ===== *)
theory Hosts_File
  imports Routing
begin

text \<open>
  The managed block of \<open>/etc/hosts\<close> (\<open>src/hosts_file.rs\<close>). The file is \<open>None\<close> when
  \<open>read_to_string\<close> fails (missing, unreadable, or not UTF-8). \<open>hosts_sync\<close> returns the text it
  writes, if it writes; whether the write succeeds is the caller's \<open>fs_write\<close>.
\<close>

type_synonym text_file = "string option"

definition BEGIN_MARKER :: string where "BEGIN_MARKER = ''# fghj-managed-begin''"
definition END_MARKER :: string where "END_MARKER = ''# fghj-managed-end''"

definition read_or_default :: "text_file \<Rightarrow> string" where
  "read_or_default f = (case f of None \<Rightarrow> [] | Some t \<Rightarrow> t)"

abbreviation newline :: char where
  "newline \<equiv> CHR 0x0A"

fun strip_block :: "bool \<Rightarrow> string list \<Rightarrow> string list" where
  "strip_block in_block [] = []"
| "strip_block in_block (line # ls) =
     (if trim line = BEGIN_MARKER then strip_block True ls
      else if trim line = END_MARKER then strip_block False ls
      else if in_block then strip_block in_block ls
      else line # strip_block in_block ls)"

definition unlines :: "string list \<Rightarrow> string" where
  "unlines ls = concat (map (\<lambda>l. l @ [newline]) ls)"

definition host_line :: "string \<Rightarrow> string" where
  "host_line host = show_ip PROXY_IP @ '' '' @ host"

definition host_block :: "string list \<Rightarrow> string list" where
  "host_block hosts = (if hosts = [] then [] else [BEGIN_MARKER] @ map host_line hosts @ [END_MARKER])"

definition hosts_render :: "text_file \<Rightarrow> string list \<Rightarrow> string" where
  "hosts_render f hosts =
     (let existing = read_or_default f
      in unlines (strip_block False (lines existing)) @ unlines (host_block (sorted_dedup hosts)))"

definition hosts_sync :: "text_file \<Rightarrow> string list \<Rightarrow> string option" where
  "hosts_sync f hosts =
     (let out = hosts_render f hosts in if out \<noteq> read_or_default f then Some out else None)"

fun block_hosts :: "bool \<Rightarrow> string list \<Rightarrow> string list" where
  "block_hosts in_block [] = []"
| "block_hosts in_block (line # ls) =
     (if trim line = BEGIN_MARKER then block_hosts True ls
      else if trim line = END_MARKER then block_hosts False ls
      else if in_block then
        (case strip_prefix (trim line) (show_ip PROXY_IP @ '' '') of
           Some host \<Rightarrow> host # block_hosts in_block ls
         | None \<Rightarrow> block_hosts in_block ls)
      else block_hosts in_block ls)"

definition managed_hosts :: "text_file \<Rightarrow> string list" where
  "managed_hosts f = block_hosts False (lines (read_or_default f))"

section \<open>Lines of a rendered file\<close>

definition plain_line :: "string \<Rightarrow> bool" where
  "plain_line l \<longleftrightarrow> newline \<notin> set l \<and> (l = [] \<or> last l \<noteq> CHR 0x0D)"

definition plain_host :: "string \<Rightarrow> bool" where
  "plain_host h \<longleftrightarrow> h \<noteq> [] \<and> (\<forall>c\<in>set h. \<not> is_space c)"

lemma split_unlines: "\<forall>l\<in>set ls. newline \<notin> set l \<Longrightarrow> split_char (unlines ls) newline = ls @ [[]]"
proof (induction ls)
  case Nil
  then show ?case by (simp add: unlines_def)
next
  case (Cons l ls)
  have "split_char (l @ newline # unlines ls) newline = l # split_char (unlines ls) newline"
    using Cons.prems by (intro split_on_append) auto
  with Cons show ?case by (simp add: unlines_def)
qed

lemma lines_unlines:
  assumes "\<forall>l\<in>set ls. plain_line l"
  shows "lines (unlines ls) = ls"
proof -
  have "map strip_cr ls = ls"
    using assms by (intro map_idI) (auto simp: strip_cr_def plain_line_def)
  then show ?thesis
    using assms by (simp add: lines_def split_unlines plain_line_def)
qed

lemma unlines_append: "unlines (xs @ ys) = unlines xs @ unlines ys"
  by (simp add: unlines_def)

lemma set_strip_block: "set (strip_block b ls) \<subseteq> set ls"
  by (induction b ls rule: strip_block.induct) auto

lemma strip_block_plain:
  "\<forall>l\<in>set ls. trim l \<noteq> BEGIN_MARKER \<and> trim l \<noteq> END_MARKER \<Longrightarrow> strip_block False ls = ls"
  by (induction ls) auto

lemma strip_block_no_marker:
  "l \<in> set (strip_block b ls) \<Longrightarrow> trim l \<noteq> BEGIN_MARKER \<and> trim l \<noteq> END_MARKER"
  by (induction b ls rule: strip_block.induct) (auto split: if_splits)

lemma show_proxy_ip: "show_ip PROXY_IP = ''127.222.0.1''"
proof -
  have "octets PROXY_IP = [127, 222, 0, 1]"
    by (simp add: PROXY_IP_def ipv4_def octets_def)
  moreover have "show_nat 127 = ''127''" "show_nat 222 = ''222''" "show_nat 0 = ''0''" "show_nat 1 = ''1''"
    by (simp_all add: show_nat.simps char_of_def bit_0)
  ultimately show ?thesis by (simp add: show_ip_def)
qed

lemma trim_id:
  assumes "l \<noteq> []" and "\<not> is_space (hd l)" and "\<not> is_space (last l)"
  shows "trim l = l"
proof -
  have "dropWhile is_space l = l" using assms by (cases l) auto
  moreover have "dropWhile is_space (rev l) = rev l"
    using assms by (cases "rev l") (auto simp: last_rev [symmetric] hd_rev)
  ultimately show ?thesis by (simp add: trim_def trim_matches_def)
qed

lemma trim_host_line: "plain_host h \<Longrightarrow> trim (host_line h) = host_line h"
  by (rule trim_id) (auto simp: host_line_def show_proxy_ip plain_host_def is_space_def)

lemma trim_markers [simp]: "trim BEGIN_MARKER = BEGIN_MARKER" "trim END_MARKER = END_MARKER"
  by (auto simp: BEGIN_MARKER_def END_MARKER_def is_space_def intro!: trim_id)

lemma markers_differ [simp]: "BEGIN_MARKER \<noteq> END_MARKER" "END_MARKER \<noteq> BEGIN_MARKER"
  by (simp_all add: BEGIN_MARKER_def END_MARKER_def)

lemma host_line_no_marker [simp]: "host_line h \<noteq> BEGIN_MARKER" "host_line h \<noteq> END_MARKER"
  by (simp_all add: host_line_def show_proxy_ip BEGIN_MARKER_def END_MARKER_def)

lemma plain_block:
  assumes "\<forall>h\<in>set hosts. plain_host h"
  shows "\<forall>l\<in>set (host_block hosts). plain_line l"
proof -
  have "plain_line (host_line h)" if "plain_host h" for h
    using that by (auto simp: plain_line_def host_line_def show_proxy_ip plain_host_def is_space_def)
  moreover have "plain_line BEGIN_MARKER" "plain_line END_MARKER"
    by (simp_all add: plain_line_def BEGIN_MARKER_def END_MARKER_def)
  ultimately show ?thesis using assms by (auto simp: host_block_def)
qed

lemma strip_host_line [simp]: "strip_prefix (host_line h) (show_ip PROXY_IP @ '' '') = Some h"
  by (simp add: strip_prefix_Some host_line_def)

definition no_markers :: "string list \<Rightarrow> bool" where
  "no_markers ls \<longleftrightarrow> (\<forall>l\<in>set ls. trim l \<noteq> BEGIN_MARKER \<and> trim l \<noteq> END_MARKER)"

lemma no_markers_strip: "no_markers (strip_block b ls)"
  unfolding no_markers_def using strip_block_no_marker by blast

lemma strip_host_block:
  assumes "\<forall>h\<in>set hosts. plain_host h" and "no_markers xs"
  shows "strip_block False (xs @ host_block hosts) = xs"
proof -
  have "strip_block True (map host_line hosts @ [END_MARKER]) = []"
    using assms(1) by (induction hosts) (auto simp: trim_host_line)
  then have "strip_block False (host_block hosts) = []" by (simp add: host_block_def)
  with assms(2) show ?thesis by (induction xs) (auto simp: no_markers_def)
qed

lemma block_hosts_block:
  assumes "\<forall>h\<in>set hosts. plain_host h" and "no_markers xs"
  shows "block_hosts False (xs @ host_block hosts) = hosts"
proof -
  have "block_hosts True (map host_line hosts @ [END_MARKER]) = hosts"
    using assms(1) by (induction hosts) (auto simp: trim_host_line)
  then have "block_hosts False (host_block hosts) = hosts" by (simp add: host_block_def)
  with assms(2) show ?thesis by (induction xs) (auto simp: no_markers_def)
qed

lemma set_lines_no_newline: "l \<in> set (lines t) \<Longrightarrow> newline \<notin> set l"
proof -
  assume "l \<in> set (lines t)"
  then obtain w where w: "w \<in> set (split_char t newline)" "l = strip_cr w"
    by (auto simp: lines_def Let_def dest: in_set_butlastD split: if_splits)
  then have "newline \<notin> set w" using split_on_parts [of w t "\<lambda>x. x = newline" newline] by blast
  moreover have "set (strip_cr w) \<subseteq> set w" by (auto simp: strip_cr_def dest: in_set_butlastD)
  ultimately show ?thesis using w by auto
qed

text \<open>The lines a render produces: the foreign lines, then the block.\<close>

definition no_cr_lines :: "text_file \<Rightarrow> bool" where
  "no_cr_lines f \<longleftrightarrow> (\<forall>l\<in>set (lines (read_or_default f)). l = [] \<or> last l \<noteq> CHR 0x0D)"

lemma lines_render:
  assumes "no_cr_lines f" and "\<forall>h\<in>set hosts. plain_host h"
  shows "lines (hosts_render f hosts) =
    strip_block False (lines (read_or_default f)) @ host_block (sorted_dedup hosts)"
proof -
  have "plain_line l" if "l \<in> set (strip_block False (lines (read_or_default f)))" for l
    using that set_strip_block [of False "lines (read_or_default f)"] assms(1)
    by (auto simp: plain_line_def no_cr_lines_def set_lines_no_newline)
  moreover have "\<forall>l\<in>set (host_block (sorted_dedup hosts)). plain_line l"
    using assms(2) by (intro plain_block) simp
  ultimately show ?thesis
    unfolding hosts_render_def Let_def unlines_append [symmetric] by (intro lines_unlines) auto
qed

lemma managed_hosts_render:
  assumes "no_cr_lines f" and "\<forall>h\<in>set hosts. plain_host h"
  shows "managed_hosts (Some (hosts_render f hosts)) = sorted_dedup hosts"
proof -
  have "block_hosts False (strip_block False (lines (read_or_default f)) @ host_block (sorted_dedup hosts)) =
      sorted_dedup hosts"
    using assms(2) by (intro block_hosts_block no_markers_strip) simp
  then show ?thesis
    using lines_render [OF assms] by (simp add: managed_hosts_def read_or_default_def)
qed

lemma foreign_lines_render:
  assumes "no_cr_lines f" and "\<forall>h\<in>set hosts. plain_host h"
  shows "strip_block False (lines (hosts_render f hosts)) = strip_block False (lines (read_or_default f))"
  using assms by (simp add: lines_render strip_host_block no_markers_strip)

lemma render_render:
  assumes "no_cr_lines f" and "\<forall>h\<in>set hosts. plain_host h"
  shows "hosts_render (Some (hosts_render f hosts)) hosts' = hosts_render f hosts'"
  unfolding hosts_render_def [of "Some _"] hosts_render_def [of f hosts']
  using foreign_lines_render [OF assms] by (simp add: read_or_default_def Let_def)

end
