(* ===== verification/Git_Status.thy ===== *)
theory Git_Status
  imports Resolver Words Hosts_File
begin

text \<open>
  What is read of a checkout (\<open>src/resolver/git.rs\<close>): the facts the graph keeps, and the status the UI shows.
  A run of git in a folder is a function of its arguments that may give no answer (it could not be run), or
  whether it succeeded and what it printed.
\<close>

type_synonym git_dir = "string list \<Rightarrow> (bool \<times> byte list) option"

definition git_output :: "git_dir \<Rightarrow> string list \<Rightarrow> byte list option" where
  "git_output git args = (case git args of Some (True, out) \<Rightarrow> Some out | _ \<Rightarrow> None)"

definition git_text :: "git_dir \<Rightarrow> string list \<Rightarrow> string option" where
  "git_text git args = map_option from_utf8_lossy (git_output git args)"

section \<open>Facts\<close>

definition git_remote_and_branch :: "git_dir \<Rightarrow> string option \<times> string option" where
  "git_remote_and_branch git =
     (map_option trim (git_text git [''remote'', ''get-url'', ''origin'']),
      map_option trim (git_text git [''rev-parse'', ''--abbrev-ref'', ''HEAD'']))"

definition git_head_sha :: "git_dir \<Rightarrow> string option" where
  "git_head_sha git =
     (case map_option trim (git_text git [''rev-parse'', ''HEAD'']) of
        Some sha \<Rightarrow> if sha = [] then None else Some sha
      | None \<Rightarrow> None)"

definition git_status_dirty :: "git_dir \<Rightarrow> bool" where
  "git_status_dirty git =
     (case git_output git [''status'', ''--porcelain''] of Some out \<Rightarrow> out \<noteq> [] | None \<Rightarrow> True)"

definition read_facts :: "git_dir \<Rightarrow> repo_facts" where
  "read_facts git = (case git_remote_and_branch git of (repo, branch) \<Rightarrow>
     \<lparr>fa_repo = repo, fa_branch = branch, fa_head = git_head_sha git, fa_dirty = git_status_dirty git\<rparr>)"

definition repo_facts_of :: "(string \<times> git_dir) list \<Rightarrow> (string, repo_facts) btree" where
  "repo_facts_of dirs = bt_of_list (map (\<lambda>(local_path, git). (local_path, read_facts git)) dirs)"

section \<open>Status\<close>

record change =
  ch_code :: string
  ch_path :: string

record git_commit =
  gc_sha :: string
  gc_subject :: string
  gc_author :: string
  gc_time_ms :: "64 word"

record repo_status =
  rst_branch :: "string option"
  rst_head :: "string option"
  rst_upstream :: "string option"
  rst_ahead :: "32 word"
  rst_behind :: "32 word"
  rst_changes :: "change list"
  rst_changes_total :: nat
  rst_last_commit :: "git_commit option"
  rst_fetched_at_ms :: "nat option"

definition MAX_CHANGES :: nat where "MAX_CHANGES = 200"

definition no_status :: repo_status where
  "no_status = \<lparr>rst_branch = None, rst_head = None, rst_upstream = None, rst_ahead = 0, rst_behind = 0,
     rst_changes = [], rst_changes_total = 0, rst_last_commit = None, rst_fetched_at_ms = None\<rparr>"

text \<open>\<open>splitn\<close>: at most so many pieces, the last with whatever is left.\<close>

fun splitn :: "nat \<Rightarrow> string \<Rightarrow> char \<Rightarrow> string list" where
  "splitn 0 s c = []"
| "splitn (Suc 0) s c = [s]"
| "splitn (Suc (Suc n)) s c =
     (case split_once s c of None \<Rightarrow> [s] | Some (a, b) \<Rightarrow> a # splitn (Suc n) b c)"

definition count_of :: "string list \<Rightarrow> nat \<Rightarrow> 32 word" where
  "count_of counts i =
     (if i < length counts
      then case parse_u32 (trim_start_matches (counts ! i) (\<lambda>c. c = CHR ''+'' \<or> c = CHR ''-'')) of
             Some n \<Rightarrow> n | None \<Rightarrow> 0
      else 0)"

definition read_header :: "string \<Rightarrow> repo_status \<Rightarrow> repo_status" where
  "read_header header st =
     (let (key, value) = (case split_once header CHR '' '' of Some kv \<Rightarrow> kv | None \<Rightarrow> (header, [])) in
      if key = ''branch.oid'' \<and> value \<noteq> ''(initial)'' then st\<lparr>rst_head := Some value\<rparr>
      else if key = ''branch.head'' \<and> value \<noteq> ''(detached)'' then st\<lparr>rst_branch := Some value\<rparr>
      else if key = ''branch.upstream'' then st\<lparr>rst_upstream := Some value\<rparr>
      else if key = ''branch.ab'' then
        (let counts = split_on value (\<lambda>c. c = CHR '' '')
         in st\<lparr>rst_ahead := count_of counts 0, rst_behind := count_of counts 1\<rparr>)
      else st)"

definition change_fields :: "string \<Rightarrow> string list option" where
  "change_fields line =
     (case split_once line CHR '' '' of
        None \<Rightarrow> None
      | Some (mark, rest) \<Rightarrow>
          if mark = ''1'' then Some (splitn 8 rest CHR '' '')
          else if mark = ''2'' then Some (splitn 9 rest CHR '' '')
          else if mark = ''u'' then Some (splitn 10 rest CHR '' '')
          else if mark = ''?'' then Some [''??'', rest]
          else None)"

definition read_status_line :: "string \<Rightarrow> repo_status \<Rightarrow> repo_status" where
  "read_status_line line st =
     (case strip_prefix line ''# '' of
        Some header \<Rightarrow> read_header header st
      | None \<Rightarrow>
          (case change_fields line of
             None \<Rightarrow> st
           | Some parts \<Rightarrow>
               if parts = [] then st
               else st\<lparr>rst_changes_total := rst_changes_total st + 1,
                       rst_changes := (if length (rst_changes st) < MAX_CHANGES
                         then rst_changes st @ [\<lparr>ch_code = hd parts, ch_path = hd (split_on (last parts) (\<lambda>c. c = CHR 0x09))\<rparr>]
                         else rst_changes st)\<rparr>))"

definition parse_porcelain_v2 :: "string \<Rightarrow> repo_status" where
  "parse_porcelain_v2 text = fold read_status_line (lines text) no_status"

definition parse_commit :: "string \<Rightarrow> git_commit option" where
  "parse_commit text =
     (let parts = split_on (rev (trim_start_matches (rev text) (\<lambda>c. c = CHR 0x0A))) (\<lambda>c. c = CHR 0x1F) in
      if length parts < 4 then None
      else case parse_bounded (2 ^ 64) (parts ! 3) of
             None \<Rightarrow> None
           | Some t \<Rightarrow>
               if parts ! 0 = [] then None
               else Some \<lparr>gc_sha = parts ! 0, gc_subject = parts ! 1, gc_author = parts ! 2, gc_time_ms = of_nat t * 1000\<rparr>)"

text \<open>\<open>modified\<close> is when a file of the folder was last written, in milliseconds.\<close>

definition repo_status_of :: "git_dir \<Rightarrow> (string \<Rightarrow> nat option) \<Rightarrow> repo_status option" where
  "repo_status_of git modified =
     map_option (\<lambda>out.
         (parse_porcelain_v2 out)
           \<lparr>rst_last_commit := Option.bind (git_text git [''log'', ''-1'', ''--format=%H%x1f%s%x1f%an%x1f%ct'']) parse_commit,
            rst_fetched_at_ms := Option.bind (git_text git [''rev-parse'', ''--git-path'', ''FETCH_HEAD'']) (\<lambda>p. modified (trim p))\<rparr>)
       (git_text git [''status'', ''--porcelain=v2'', ''--branch''])"

section \<open>What is shown of the changes\<close>

text \<open>The list is cut off at its bound, the count is not.\<close>

lemma header_keeps_changes [simp]:
  "rst_changes (read_header h st) = rst_changes st" "rst_changes_total (read_header h st) = rst_changes_total st"
  by (simp_all add: read_header_def Let_def case_prod_beta)

lemma changes_counted:
  "length (rst_changes st) = min MAX_CHANGES (rst_changes_total st) \<Longrightarrow>
     length (rst_changes (read_status_line line st)) = min MAX_CHANGES (rst_changes_total (read_status_line line st))"
  unfolding read_status_line_def
  by (cases "strip_prefix line ''# ''"; cases "change_fields line") (simp_all add: min_def)

lemma parsed_changes_counted:
  "length (rst_changes (parse_porcelain_v2 text)) = min MAX_CHANGES (rst_changes_total (parse_porcelain_v2 text))"
proof -
  have "length (rst_changes (fold read_status_line ls st)) = min MAX_CHANGES (rst_changes_total (fold read_status_line ls st))"
    if "length (rst_changes st) = min MAX_CHANGES (rst_changes_total st)" for ls st
    using that by (induction ls arbitrary: st) (simp_all add: changes_counted)
  from this [of no_status "lines text"] show ?thesis
    by (simp add: parse_porcelain_v2_def no_status_def)
qed

text \<open>
  What git prints for an ordinary change: the code, six fields without a blank, and the path, which may have
  blanks.
\<close>

definition change_line :: "change \<times> string list \<Rightarrow> string" where
  "change_line entry = (case entry of (c, middle) \<Rightarrow>
     ''1 '' @ ch_code c @ '' '' @ join '' '' middle @ '' '' @ ch_path c)"

definition ordinary :: "change \<times> string list \<Rightarrow> bool" where
  "ordinary entry = (case entry of (c, middle) \<Rightarrow>
     length middle = 6 \<and> CHR '' '' \<notin> set (ch_code c) \<and> (\<forall>m\<in>set middle. CHR '' '' \<notin> set m) \<and> CHR 0x09 \<notin> set (ch_path c))"

lemma split_once_blank: "c \<notin> set s \<Longrightarrow> split_once (s @ c # t) c = Some (s, t)"
  by (induction s) auto

lemma splitn_joined:
  "(\<forall>m\<in>set ms. c \<notin> set m) \<Longrightarrow> ms \<noteq> [] \<Longrightarrow> splitn (Suc (length ms)) (join [c] ms @ c # t) c = ms @ [t]"
proof (induction ms rule: induct_list012)
  case (2 m)
  then show ?case by (simp add: split_once_blank)
next
  case (3 m n ms)
  then show ?case by (simp add: split_once_blank)
qed simp

lemma ordinary_fields: "ordinary (c, middle) \<Longrightarrow> change_fields (change_line (c, middle)) = Some (ch_code c # middle @ [ch_path c])"
proof -
  assume o: "ordinary (c, middle)"
  then obtain a ms where middle: "middle = a # ms" by (cases middle) (auto simp: ordinary_def)
  have "splitn (Suc (length (ch_code c # middle))) (join '' '' (ch_code c # middle) @ CHR '' '' # ch_path c) CHR '' '' =
      (ch_code c # middle) @ [ch_path c]"
    using o by (intro splitn_joined) (auto simp: ordinary_def)
  moreover have "Suc (length (ch_code c # middle)) = 8" using o by (simp add: ordinary_def)
  ultimately have "splitn 8 (join '' '' (ch_code c # middle) @ CHR '' '' # ch_path c) CHR '' '' = ch_code c # middle @ [ch_path c]"
    by (simp only: append_Cons)
  then have "splitn 8 (ch_code c @ CHR '' '' # join '' '' middle @ CHR '' '' # ch_path c) CHR '' '' =
      ch_code c # middle @ [ch_path c]"
    by (simp add: middle)
  then show ?thesis by (simp add: change_fields_def change_line_def)
qed

lemma ordinary_line_read:
  assumes "ordinary (c, middle)" and "length (rst_changes st) < MAX_CHANGES"
  shows "read_status_line (change_line (c, middle)) st =
    st\<lparr>rst_changes_total := rst_changes_total st + 1, rst_changes := rst_changes st @ [c]\<rparr>"
proof -
  have "split_on (ch_path c) (\<lambda>x. x = CHR 0x09) = [ch_path c]"
    using assms(1) by (intro split_on_none) (auto simp: ordinary_def)
  moreover have "strip_prefix (change_line (c, middle)) ''# '' = None" by (simp add: change_line_def)
  ultimately show ?thesis
    using ordinary_fields [OF assms(1)] assms(2) by (simp add: read_status_line_def)
qed

lemma ordinary_lines_read:
  "list_all ordinary entries \<Longrightarrow> length (rst_changes st) + length entries \<le> MAX_CHANGES \<Longrightarrow>
     fold read_status_line (map change_line entries) st =
       st\<lparr>rst_changes_total := rst_changes_total st + length entries, rst_changes := rst_changes st @ map fst entries\<rparr>"
proof (induction entries arbitrary: st)
  case (Cons e es)
  obtain c middle where e: "e = (c, middle)" by fastforce
  from Cons.prems have "ordinary (c, middle)" "length (rst_changes st) < MAX_CHANGES" by (simp_all add: e)
  note one = ordinary_line_read [OF this]
  let ?st = "st\<lparr>rst_changes_total := rst_changes_total st + 1, rst_changes := rst_changes st @ [c]\<rparr>"
  from Cons.IH [of ?st] Cons.prems show ?case by (simp add: e one)
qed simp

end
