(* ===== verification/Heal.thy ===== *)
theory Heal
  imports Actor_Props
begin

text \<open>
  The healer (\<open>src/daemon/heal.rs\<close>): which crashed or interrupted node to restart now, with its
  backoff, and the part of the reconciler's tick (\<open>src/daemon/reconcile.rs\<close>) that asks for the
  restart. An \<open>Instant\<close> is a number of milliseconds; \<open>duration_since\<close> stops at zero, as
  subtraction on \<open>nat\<close> does.
\<close>

definition FIRST_DELAY :: nat where "FIRST_DELAY = 5000"
definition MAX_DELAY :: nat where "MAX_DELAY = 300000"
definition STABLE :: nat where "STABLE = 60000"
definition MAX_ATTEMPTS :: nat where "MAX_ATTEMPTS = 8"

record tries =
  tr_count :: nat
  tr_last :: nat
  tr_given_up :: bool

definition backoff :: "nat \<Rightarrow> nat" where
  "backoff count = min (FIRST_DELAY * 2 ^ min (count - 1) 16) MAX_DELAY"

definition due :: "tries \<Rightarrow> nat \<Rightarrow> bool" where
  "due t now = (backoff (tr_count t) \<le> now - tr_last t)"

type_synonym healer = "(string \<times> node_id, tries) btree"

datatype heal = HealRestart node_id node_condition nat | HealGiveUp node_id

definition busy_env :: "env_state \<Rightarrow> bool" where
  "busy_env e = (es_pending_create e \<noteq> None \<or>
     list_ex (\<lambda>c. ci_pending_action c \<noteq> None) (bt_values (es_containers e)))"

definition keeps_tries :: "env_state \<Rightarrow> nat \<Rightarrow> node_id \<Rightarrow> tries \<Rightarrow> bool" where
  "keeps_tries e now node t =
     (case map_of (es_containers e) node of
        None \<Rightarrow> False
      | Some c \<Rightarrow> cd_running (ci_desired c) \<and> \<not> (condition c = CRunning \<and> STABLE \<le> now - tr_last t))"

definition forget_settled :: "string \<Rightarrow> env_state \<Rightarrow> nat \<Rightarrow> healer \<Rightarrow> healer" where
  "forget_settled workspace e now h = bt_retain (\<lambda>k t. fst k \<noteq> workspace \<or> keeps_tries e now (snd k) t) h"

definition may_try :: "healer \<Rightarrow> nat \<Rightarrow> string \<times> node_id \<Rightarrow> bool" where
  "may_try h now k = (case map_of h k of None \<Rightarrow> True | Some t \<Rightarrow> \<not> tr_given_up t \<and> due t now)"

definition down_nodes :: "env_state \<Rightarrow> (node_id \<times> node_condition) list" where
  "down_nodes e = filter (\<lambda>(_, cond). cond = CCrashed \<or> cond = CInterrupted)
     (map (\<lambda>c. (ci_node_id c, condition c)) (bt_values (es_containers e)))"

definition first_tries :: "nat \<Rightarrow> tries" where
  "first_tries now = \<lparr>tr_count = 0, tr_last = now, tr_given_up = False\<rparr>"

definition pick :: "string \<Rightarrow> env_state \<Rightarrow> nat \<Rightarrow> healer \<Rightarrow> heal option \<times> healer" where
  "pick workspace e now h =
     (if busy_env e then (None, h)
      else let h1 = forget_settled workspace e now h
           in case min_by_key (\<lambda>(node, _). map_option tr_last (map_of h1 (workspace, node)))
                     (filter (\<lambda>(node, _). may_try h1 now (workspace, node)) (down_nodes e)) of
                None \<Rightarrow> (None, h1)
              | Some (node, cond) \<Rightarrow>
                  (let t = (case map_of h1 (workspace, node) of Some t \<Rightarrow> t | None \<Rightarrow> first_tries now)
                   in if MAX_ATTEMPTS \<le> tr_count t
                      then (Some (HealGiveUp node), bt_insert (workspace, node) (t\<lparr>tr_given_up := True\<rparr>) h1)
                      else (Some (HealRestart node cond (tr_count t + 1)),
                            bt_insert (workspace, node) (t\<lparr>tr_count := tr_count t + 1, tr_last := now\<rparr>) h1)))"

section \<open>The reconciler's use of it\<close>

definition heal_tick :: "string \<Rightarrow> nat \<Rightarrow> healer \<times> workspace_state \<Rightarrow> (reply option \<times> healer \<times> workspace_state) option" where
  "heal_tick workspace now hs =
     (case hs of (h, s) \<Rightarrow>
       (case ws_env s of
          None \<Rightarrow> Some (None, h, s)
        | Some e \<Rightarrow>
            (case pick workspace e now h of
               (Some (HealRestart node _ _), h') \<Rightarrow>
                 map_option (\<lambda>(r, s'). (Some r, h', s')) (actor_step s (NodeStartRequested node))
             | (_, h') \<Rightarrow> Some (None, h', s))))"

text \<open>A sequence of picks, over time and over workspaces, and what they decided.\<close>

fun heal_run :: "(string \<times> env_state \<times> nat) list \<Rightarrow> healer \<Rightarrow> (string \<times> heal) list \<times> healer" where
  "heal_run [] h = ([], h)"
| "heal_run ((ws, e, now) # rest) h =
     (case pick ws e now h of (r, h1) \<Rightarrow>
        (case heal_run rest h1 of (out, h2) \<Rightarrow>
           ((case r of None \<Rightarrow> out | Some x \<Rightarrow> (ws, x) # out), h2)))"

end
