(* ===== verification/Heal_Claims.thy ===== *)
theory Heal_Claims
  imports Heal
begin

text \<open>The properties of the healer.\<close>

definition tries_of :: "healer \<Rightarrow> string \<times> node_id \<Rightarrow> tries" where
  "tries_of h k = (case map_of h k of Some t \<Rightarrow> t | None \<Rightarrow> first_tries 0)"

definition restarts_of :: "string \<Rightarrow> node_id \<Rightarrow> (string \<times> heal) list \<Rightarrow> nat" where
  "restarts_of ws n out = length (filter (\<lambda>(w, r). w = ws \<and> (case r of HealRestart m _ _ \<Rightarrow> m = n | _ \<Rightarrow> False)) out)"

definition give_ups_of :: "string \<Rightarrow> node_id \<Rightarrow> (string \<times> heal) list \<Rightarrow> nat" where
  "give_ups_of ws n out = length (filter (\<lambda>(w, r). w = ws \<and> r = HealGiveUp n) out)"

text \<open>The node was asked to run and is never seen running.\<close>

definition stays_down :: "string \<Rightarrow> node_id \<Rightarrow> string \<times> env_state \<times> nat \<Rightarrow> bool" where
  "stays_down ws n x = (case x of (w, e, now) \<Rightarrow> w = ws \<longrightarrow>
     (case map_of (es_containers e) n of None \<Rightarrow> False | Some c \<Rightarrow> cd_running (ci_desired c) \<and> condition c \<noteq> CRunning))"

definition heal_inv :: "string \<Rightarrow> node_id \<Rightarrow> healer \<Rightarrow> bool" where
  "heal_inv ws n h \<longleftrightarrow> bt_wf h \<and> tr_count (tries_of h (ws, n)) \<le> MAX_ATTEMPTS \<and>
     (tr_given_up (tries_of h (ws, n)) \<longrightarrow> tr_count (tries_of h (ws, n)) = MAX_ATTEMPTS)"

lemma few_tries: "MAX_ATTEMPTS \<le> tr_count (tries_of h k) \<Longrightarrow> \<exists>t. map_of h k = Some t"
  by (cases "map_of h k") (auto simp: tries_of_def first_tries_def MAX_ATTEMPTS_def)

lemma tries_update:
  "(t :: tries)\<lparr>tr_count := c, tr_last := l\<rparr> = \<lparr>tr_count = c, tr_last = l, tr_given_up = tr_given_up t\<rparr>"
  by (cases t) simp

lemma forget_wf: "bt_wf h \<Longrightarrow> bt_wf (forget_settled ws e now h)"
  by (simp add: forget_settled_def)

lemma forget_keeps:
  assumes "bt_wf h" and "stays_down ws n (w, e, now)"
  shows "map_of (forget_settled w e now h) (ws, n) = map_of h (ws, n)"
  using assms
  by (cases "map_of h (ws, n)")
    (auto simp: forget_settled_def bt_get_retain keeps_tries_def stays_down_def split: option.splits)

definition about :: "heal \<Rightarrow> node_id" where
  "about r = (case r of HealRestart m _ _ \<Rightarrow> m | HealGiveUp m \<Rightarrow> m)"

text \<open>What one pick does to the tries of a node: nothing, or one more restart, or giving up.\<close>

lemma pick_cases:
  assumes "pick w e now h = (r, h')" and "bt_wf h"
  obtains (idle) "r = None" "bt_wf h'" "h' = h \<or> h' = forget_settled w e now h"
  | (restart) m cond where "r = Some (HealRestart m cond (Suc (tr_count (tries_of (forget_settled w e now h) (w, m)))))"
      "\<not> busy_env e" "(m, cond) \<in> set (down_nodes e)"
      "may_try (forget_settled w e now h) now (w, m)"
      "tr_count (tries_of (forget_settled w e now h) (w, m)) < MAX_ATTEMPTS"
      "h' = bt_insert (w, m) \<lparr>tr_count = Suc (tr_count (tries_of (forget_settled w e now h) (w, m))), tr_last = now,
         tr_given_up = tr_given_up (tries_of (forget_settled w e now h) (w, m))\<rparr> (forget_settled w e now h)"
  | (give_up) m where "r = Some (HealGiveUp m)" "\<not> busy_env e"
      "may_try (forget_settled w e now h) now (w, m)"
      "MAX_ATTEMPTS \<le> tr_count (tries_of (forget_settled w e now h) (w, m))"
      "h' = bt_insert (w, m) ((tries_of (forget_settled w e now h) (w, m))\<lparr>tr_given_up := True\<rparr>) (forget_settled w e now h)"
proof (cases "busy_env e")
  case True
  with assms idle show ?thesis by (auto simp: pick_def)
next
  case nb: False
  let ?h = "forget_settled w e now h"
  let ?c = "filter (\<lambda>(node, _). may_try ?h now (w, node)) (down_nodes e)"
  let ?key = "\<lambda>(node, cond :: node_condition). map_option tr_last (map_of ?h (w, node))"
  show ?thesis
  proof (cases "min_by_key ?key ?c")
    case None
    with assms nb idle show ?thesis by (auto simp: pick_def forget_wf Let_def)
  next
    case (Some mc)
    obtain m cond where mc: "mc = (m, cond)" by fastforce
    have m: "(m, cond) \<in> set ?c" using min_by_key_SomeD [OF Some] mc by simp
    then have in_c: "(m, cond) \<in> set (down_nodes e)" "may_try ?h now (w, m)" by auto
    let ?t = "case map_of ?h (w, m) of Some t \<Rightarrow> t | None \<Rightarrow> first_tries now"
    have t: "tr_count ?t = tr_count (tries_of ?h (w, m))" "tr_given_up ?t = tr_given_up (tries_of ?h (w, m))"
      by (simp_all add: tries_of_def first_tries_def split: option.split)
    show ?thesis
    proof (cases "MAX_ATTEMPTS \<le> tr_count ?t")
      case True
      then have "map_of ?h (w, m) \<noteq> None" by (auto simp: first_tries_def MAX_ATTEMPTS_def split: option.splits)
      then have eq: "?t = tries_of ?h (w, m)" by (auto simp: tries_of_def)
      then have "pick w e now h = (Some (HealGiveUp m), bt_insert (w, m) (?t\<lparr>tr_given_up := True\<rparr>) ?h)"
        using True Some mc nb by (simp add: pick_def Let_def)
      with assms(1) eq True in_c nb show ?thesis by (intro give_up [of m]) simp_all
    next
      case False
      have "pick w e now h = (Some (HealRestart m cond (tr_count ?t + 1)),
          bt_insert (w, m) (?t\<lparr>tr_count := tr_count ?t + 1, tr_last := now\<rparr>) ?h)"
        using False Some mc nb by (simp add: pick_def Let_def)
      with assms(1) t False in_c nb show ?thesis
        by (intro restart [of m cond]) (auto simp: tries_update)
    qed
  qed
qed


lemma tries_of_insert:
  "tries_of (bt_insert k t h) j = (if j = k then t else tries_of h j)"
  by (simp add: tries_of_def)

lemma tries_of_same: "map_of h k = map_of g k \<Longrightarrow> tries_of h k = tries_of g k"
  by (simp add: tries_of_def)

lemma pick_counts:
  assumes "pick w e now h = (r, h')" and "heal_inv ws n h" and "stays_down ws n (w, e, now)"
  shows "heal_inv ws n h' \<and>
    tr_count (tries_of h' (ws, n)) = tr_count (tries_of h (ws, n)) +
      (case r of None \<Rightarrow> 0 | Some x \<Rightarrow> restarts_of ws n [(w, x)]) \<and>
    of_bool (tr_given_up (tries_of h' (ws, n))) = (of_bool (tr_given_up (tries_of h (ws, n))) :: nat) +
      (case r of None \<Rightarrow> 0 | Some x \<Rightarrow> give_ups_of ws n [(w, x)])"
proof -
  have wf: "bt_wf h" using assms(2) by (simp add: heal_inv_def)
  let ?h = "forget_settled w e now h"
  have same: "tries_of ?h (ws, n) = tries_of h (ws, n)"
    using forget_keeps [OF wf assms(3)] by (rule tries_of_same)
  have inv: "tr_count (tries_of h (ws, n)) \<le> MAX_ATTEMPTS"
      "tr_given_up (tries_of h (ws, n)) \<Longrightarrow> tr_count (tries_of h (ws, n)) = MAX_ATTEMPTS"
    using assms(2) by (auto simp: heal_inv_def)
  from assms(1) wf show ?thesis
  proof (cases rule: pick_cases)
    case idle
    then have "tries_of h' (ws, n) = tries_of h (ws, n)" using same by auto
    with idle assms(2) show ?thesis by (simp add: heal_inv_def)
  next
    case (restart m cond)
    show ?thesis
    proof (cases "(w, m) = (ws, n)")
      case True
      then have "\<not> tr_given_up (tries_of h (ws, n))" using restart(5) same inv(2) by auto
      with True restart same inv wf show ?thesis
        by (simp add: heal_inv_def tries_of_insert forget_wf restarts_of_def give_ups_of_def)
    next
      case False
      then have "tries_of h' (ws, n) = tries_of h (ws, n)" using restart(6) same by (auto simp: tries_of_insert)
      with False restart wf inv show ?thesis
        by (auto simp: heal_inv_def forget_wf restarts_of_def give_ups_of_def)
    qed
  next
    case (give_up m)
    show ?thesis
    proof (cases "(w, m) = (ws, n)")
      case True
      then obtain t where "map_of ?h (ws, n) = Some t" using few_tries [OF give_up(4)] by auto
      then have "\<not> tr_given_up (tries_of h (ws, n))"
        using True give_up(3) same by (auto simp: may_try_def tries_of_def)
      with True give_up same inv wf show ?thesis
        by (simp add: heal_inv_def tries_of_insert forget_wf restarts_of_def give_ups_of_def)
    next
      case False
      then have "tries_of h' (ws, n) = tries_of h (ws, n)" using give_up(5) same by (auto simp: tries_of_insert)
      with False give_up wf inv show ?thesis
        by (auto simp: heal_inv_def forget_wf restarts_of_def give_ups_of_def)
    qed
  qed
qed

lemma restarts_Cons: "restarts_of ws n (x # out) = restarts_of ws n [x] + restarts_of ws n out"
  by (simp add: restarts_of_def)

lemma give_ups_Cons: "give_ups_of ws n (x # out) = give_ups_of ws n [x] + give_ups_of ws n out"
  by (simp add: give_ups_of_def)

lemma heal_run_counts:
  assumes "heal_run seen h = (out, h')" and "heal_inv ws n h" and "list_all (stays_down ws n) seen"
  shows "heal_inv ws n h' \<and>
    tr_count (tries_of h' (ws, n)) = tr_count (tries_of h (ws, n)) + restarts_of ws n out \<and>
    of_bool (tr_given_up (tries_of h' (ws, n))) = of_bool (tr_given_up (tries_of h (ws, n))) + give_ups_of ws n out"
  using assms
proof (induction seen arbitrary: h out h')
  case Nil
  then show ?case by (simp add: restarts_of_def give_ups_of_def)
next
  case (Cons x seen)
  obtain w e now where x: "x = (w, e, now)" by (cases x)
  obtain r h1 where p: "pick w e now h = (r, h1)" by fastforce
  obtain out1 h2 where run: "heal_run seen h1 = (out1, h2)" by fastforce
  have "stays_down ws n (w, e, now)" using Cons.prems(3) x by simp
  note step = pick_counts [OF p Cons.prems(2) this]
  have "list_all (stays_down ws n) seen" using Cons.prems(3) by simp
  note rest = Cons.IH [OF run conjunct1 [OF step] this]
  have out: "out = (case r of None \<Rightarrow> out1 | Some y \<Rightarrow> (w, y) # out1)" and "h' = h2"
    using Cons.prems(1) x p run by auto
  show ?case
  proof (cases r)
    case None
    with step rest out \<open>h' = h2\<close> show ?thesis by simp
  next
    case (Some y)
    with out have "out = (w, y) # out1" by simp
    with step rest Some \<open>h' = h2\<close> show ?thesis
      by (simp add: restarts_Cons [of ws n "(w, y)" out1] give_ups_Cons [of ws n "(w, y)" out1])
  qed
qed

text \<open>
  However long a node stays down, and whatever the other nodes and workspaces do, the healer
  restarts it at most eight times and gives up on it at most once, after exactly eight restarts.
\<close>
theorem healing_is_bounded:
  assumes "heal_run seen [] = (out, h)" and "list_all (stays_down ws n) seen"
  shows "restarts_of ws n out \<le> MAX_ATTEMPTS \<and> give_ups_of ws n out \<le> 1 \<and>
    (give_ups_of ws n out = 1 \<longrightarrow> restarts_of ws n out = MAX_ATTEMPTS)"
proof -
  have "heal_inv ws n []" by (simp add: heal_inv_def tries_of_def first_tries_def)
  from heal_run_counts [OF assms(1) this assms(2)] show ?thesis
    by (cases "tr_given_up (tries_of h (ws, n))") (simp_all add: heal_inv_def tries_of_def [of "[]"] first_tries_def)
qed

text \<open>
  The healer never asks for what the state machine refuses: in a well-formed state the restart it
  asks for is accepted, and marks a node that was down, wanted and idle as starting.
\<close>
theorem heal_requests_accepted:
  assumes "wf_state s" and "bt_wf h" and "ws_env s = Some e" and "pick ws e now h = (Some (HealRestart n cond k), h')"
  shows "\<exists>c s'. container_at s n = Some c \<and> condition c = cond \<and> cond \<in> {CCrashed, CInterrupted} \<and>
    heal_tick ws now (h, s) = Some (Some (Inr ()), h', s') \<and>
    container_at s' n = Some (c\<lparr>ci_desired := (ci_desired c)\<lparr>cd_running := True\<rparr>, ci_pending_action := Some Starting\<rparr>)"
proof -
  have p: "\<not> busy_env e" "(n, cond) \<in> set (down_nodes e)"
    using assms(4,2) by (cases rule: pick_cases; simp)+
  then obtain c where c: "c \<in> set (bt_values (es_containers e))" "ci_node_id c = n" "condition c = cond"
    "cond = CCrashed \<or> cond = CInterrupted"
    by (auto simp: down_nodes_def)
  have "wf_env e" using assms(1,3) by (simp add: wf_state_def)
  with c have m: "map_of (es_containers e) n = Some c" using wf_env_container_in by blast
  have "ci_pending_action c = None" "es_pending_create e = None" using p(1) c(1) by (auto simp: busy_env_def list_ex_iff)
  with m assms(3,4) c show ?thesis
    by (auto simp: heal_tick_def container_at_def actor_step_def reduce_def start_node_def put_container_def)
qed


section \<open>Instances\<close>

definition web :: "string \<Rightarrow> pending_action option \<Rightarrow> env_state" where
  "web status act = default_env\<lparr>es_containers := [(''web'', (starting_placeholder ''web'')
     \<lparr>ci_desired := (ci_desired (starting_placeholder ''web''))\<lparr>cd_container_name := ''fghj-web''\<rparr>,
       ci_observed := default_observed\<lparr>co_status := status\<rparr>, ci_pending_action := act\<rparr>)]\<rparr>"

lemmas web_defs = web_def starting_placeholder_def default_env_def default_observed_def

lemma web_down: "down_nodes (web ''exited'' None) = [(''web'', CCrashed)]"
  "down_nodes (web ''running'' None) = []"
  by (simp_all add: down_nodes_def bt_values_def condition_def web_defs)

lemma web_busy: "\<not> busy_env (web s None)" "busy_env (web s (Some a))"
  by (simp_all add: busy_env_def bt_values_def web_defs)

lemma web_first: "pick ws (web ''exited'' None) t [] =
    (Some (HealRestart ''web'' CCrashed 1), [((ws, ''web''), \<lparr>tr_count = 1, tr_last = t, tr_given_up = False\<rparr>)])"
  by (simp add: pick_def web_busy web_down forget_settled_def bt_retain_def may_try_def first_tries_def
      MAX_ATTEMPTS_def bt_insert_def)

theorem healing_is_bounded_witness:
  "\<exists>out h. heal_run [(''w'', web ''exited'' None, 0), (''w'', web ''exited'' (Some Starting), 9)] [] = (out, h) \<and>
     restarts_of ''w'' ''web'' out \<le> MAX_ATTEMPTS \<and> out \<noteq> []"
proof -
  let ?seen = "[(''w'', web ''exited'' None, 0), (''w'', web ''exited'' (Some Starting), 9)]"
  have down: "list_all (stays_down ''w'' ''web'') ?seen"
    by (simp add: stays_down_def condition_def web_defs)
  obtain out h where run: "heal_run ?seen [] = (out, h)" by fastforce
  moreover have "out \<noteq> []" using run web_first [of "''w''" 0] by (auto split: prod.splits)
  ultimately show ?thesis using healing_is_bounded [OF run down] by blast
qed

theorem heal_requests_accepted_witness:
  "\<exists>s'. heal_tick ''w'' 0 ([], \<lparr>ws_path = [], ws_owner = None, ws_env = Some (web ''exited'' None)\<rparr>) =
     Some (Some (Inr ()), [((''w'', ''web''), \<lparr>tr_count = 1, tr_last = 0, tr_given_up = False\<rparr>)], s')"
proof -
  let ?s = "\<lparr>ws_path = [], ws_owner = None, ws_env = Some (web ''exited'' None)\<rparr>"
  have wf: "wf_state ?s" by (simp add: wf_state_def wf_env_def bt_wf_def web_defs)
  have e: "ws_env ?s = Some (web ''exited'' None)" by simp
  from heal_requests_accepted [OF wf bt_wf_Nil e web_first] show ?thesis by blast
qed

section \<open>Fairness and a backoff that starts over too early\<close>

text \<open>
  The healer is fair: while nothing is in flight it acts exactly when some down node may be tried,
  and then on one tried longest ago, one never tried coming first.
\<close>
theorem healing_is_fair:
  assumes "\<not> busy_env e"
  shows "case fst (pick ws e now h) of
      None \<Rightarrow> list_all (\<lambda>(m, _). \<not> may_try (forget_settled ws e now h) now (ws, m)) (down_nodes e)
    | Some r \<Rightarrow> may_try (forget_settled ws e now h) now (ws, about r) \<and>
        list_all (\<lambda>(m, _). may_try (forget_settled ws e now h) now (ws, m) \<longrightarrow>
          map_option tr_last (map_of (forget_settled ws e now h) (ws, about r)) \<le>
          map_option tr_last (map_of (forget_settled ws e now h) (ws, m))) (down_nodes e)"
proof -
  let ?h = "forget_settled ws e now h"
  let ?c = "filter (\<lambda>(node, _). may_try ?h now (ws, node)) (down_nodes e)"
  let ?key = "\<lambda>(node, cond :: node_condition). map_option tr_last (map_of ?h (ws, node))"
  show ?thesis
  proof (cases "min_by_key ?key ?c")
    case None
    then have "?c = []" by simp
    with None assms show ?thesis by (auto simp: pick_def Let_def list_all_iff filter_empty_conv)
  next
    case (Some mc)
    obtain m cond where mc: "mc = (m, cond)" by fastforce
    from min_by_key_SomeD [OF Some] mc have m: "(m, cond) \<in> set ?c" and least: "\<forall>x\<in>set ?c. ?key (m, cond) \<le> ?key x"
      by auto
    have "\<exists>r. fst (pick ws e now h) = Some r \<and> about r = m"
      using Some mc assms by (simp add: pick_def Let_def about_def)
    then obtain r where r: "fst (pick ws e now h) = Some r" "about r = m" by blast
    show ?thesis using m least by (auto simp: r list_all_iff)
  qed
qed

theorem healing_is_fair_witness:
  "list_all (\<lambda>(m, _). \<not> may_try [] 0 (''w'', m)) (down_nodes (web ''running'' None))"
  using healing_is_fair [OF web_busy(1), of "''w''" "''running''" 0 "[]"]
  by (simp add: pick_def web_busy web_down)

text \<open>One round: the node is down and restarted, is still starting, then is seen up a minute after the request.\<close>

definition slow_round :: "string \<Rightarrow> nat \<Rightarrow> (string \<times> env_state \<times> nat) list" where
  "slow_round ws t = [(ws, web ''exited'' None, t), (ws, web ''exited'' (Some Starting), t + 30000),
     (ws, web ''running'' None, t + 60000)]"

lemma heal_run_append:
  "heal_run (xs @ ys) h = (fst (heal_run xs h) @ fst (heal_run ys (snd (heal_run xs h))), snd (heal_run ys (snd (heal_run xs h))))"
  by (induction xs arbitrary: h) (auto split: prod.splits option.splits)

lemma slow_round_forgets: "heal_run (slow_round ws t) [] = ([(ws, HealRestart ''web'' CCrashed 1)], [])"
proof -
  let ?h = "[((ws, ''web''), \<lparr>tr_count = 1, tr_last = t, tr_given_up = False\<rparr>)]"
  have "pick ws (web ''exited'' (Some Starting)) (t + 30000) ?h = (None, ?h)"
    by (simp add: pick_def web_busy)
  moreover have "forget_settled ws (web ''running'' None) (t + 60000) ?h = []"
    by (simp add: forget_settled_def bt_retain_def keeps_tries_def condition_def STABLE_def web_defs)
  then have "pick ws (web ''running'' None) (t + 60000) ?h = (None, [])"
    by (simp add: pick_def web_busy web_down)
  ultimately show ?thesis using web_first [of ws t] by (simp add: slow_round_def)
qed

text \<open>
  The backoff starts over a minute after a restart was asked for, not after the node has been up for
  a minute: a node that takes a minute to start and is down again on the next look is restarted for
  ever, each time as a first attempt, and is never given up on.
\<close>
theorem slow_starts_heal_for_ever:
  "heal_run (concat (map (slow_round ws) ts)) [] = (replicate (length ts) (ws, HealRestart ''web'' CCrashed 1), [])"
  by (induction ts) (simp_all add: heal_run_append slow_round_forgets)

end
