(* ===== verification/Effects.thy ===== *)
theory Effects
  imports Hosts_File
begin

text \<open>
  The effect driver (\<open>src/effects/mod.rs\<close>) and the effects it runs: hosts, routes, persist, raw_net
  and dns. Whether a write of the outside world succeeds is not the program's choice: each world
  carries the outcomes of its coming calls (none left means success).
\<close>

type_synonym ('snap, 'w) converge_fn = "'snap \<Rightarrow> 'w \<Rightarrow> (string + unit) \<times> 'w"

section \<open>The driver (mod.rs)\<close>

definition effect_tick ::
  "('s \<Rightarrow> 'snap) \<Rightarrow> ('snap, 'w) converge_fn \<Rightarrow> 's \<Rightarrow> 'w \<times> 'snap option \<Rightarrow> 'w \<times> 'snap option" where
  "effect_tick view converge s wl =
     (let snapshot = view s
      in if snd wl \<noteq> Some snapshot
         then (case converge snapshot (fst wl) of
                 (Inr _, w) \<Rightarrow> (w, Some snapshot)
               | (Inl _, w) \<Rightarrow> (w, snd wl))
         else wl)"

definition effect_run ::
  "('s \<Rightarrow> 'snap) \<Rightarrow> ('snap, 'w) converge_fn \<Rightarrow> 'w \<Rightarrow> 's list \<Rightarrow> 'w \<times> 'snap option" where
  "effect_run view converge w seen = fold (effect_tick view converge) seen (w, None)"

lemma tick_same: "snd wl = Some (view s) \<Longrightarrow> effect_tick view converge s wl = wl"
  by (simp add: effect_tick_def)

lemma tick_ok:
  "snd wl \<noteq> Some (view s) \<Longrightarrow> converge (view s) (fst wl) = (Inr u, w) \<Longrightarrow>
     effect_tick view converge s wl = (w, Some (view s))"
  by (simp add: effect_tick_def Let_def)

lemma tick_failed:
  "snd wl \<noteq> Some (view s) \<Longrightarrow> converge (view s) (fst wl) = (Inl e, w) \<Longrightarrow>
     effect_tick view converge s wl = (w, snd wl)"
  by (simp add: effect_tick_def Let_def)

text \<open>
  What the driver may assume of an effect: a success makes the world reflect the snapshot, and a
  failure leaves it reflecting what it reflected. Then skipping an unchanged snapshot is sound.
\<close>

locale atomic_effect =
  fixes view :: "'s \<Rightarrow> 'snap"
    and converge :: "('snap, 'w) converge_fn"
    and valid :: "'snap \<Rightarrow> bool"
    and inv :: "'w \<Rightarrow> bool"
    and reflects :: "'snap \<Rightarrow> 'w \<Rightarrow> bool"
  assumes converge_inv: "inv w \<Longrightarrow> valid snap \<Longrightarrow> inv (snd (converge snap w))"
    and converge_ok: "inv w \<Longrightarrow> valid snap \<Longrightarrow> converge snap w = (Inr (), w') \<Longrightarrow> reflects snap w'"
    and converge_failed: "inv w \<Longrightarrow> valid snap \<Longrightarrow> converge snap w = (Inl e, w') \<Longrightarrow> reflects old w \<Longrightarrow> reflects old w'"
begin

definition in_step :: "'w \<times> 'snap option \<Rightarrow> bool" where
  "in_step wl \<longleftrightarrow> inv (fst wl) \<and> (case snd wl of None \<Rightarrow> True | Some snap \<Rightarrow> reflects snap (fst wl))"

lemma tick_in_step:
  assumes "in_step wl" and "valid (view s)"
  shows "in_step (effect_tick view converge s wl)"
proof (cases "snd wl = Some (view s)")
  case True
  with assms show ?thesis by (simp add: tick_same)
next
  case False
  obtain r w where c: "converge (view s) (fst wl) = (r, w)" by fastforce
  have i: "inv (fst wl)" using assms(1) by (simp add: in_step_def)
  from converge_inv [OF i assms(2)] c have inv: "inv w" by simp
  show ?thesis
  proof (cases r)
    case (Inl e)
    with c have c': "converge (view s) (fst wl) = (Inl e, w)" by simp
    have "reflects old w" if "snd wl = Some old" for old
      using converge_failed [OF i assms(2) c'] assms(1) that by (simp add: in_step_def)
    then show ?thesis
      using tick_failed [of wl view s converge e w, OF False c'] inv by (auto simp: in_step_def split: option.splits)
  next
    case (Inr u)
    with c have c': "converge (view s) (fst wl) = (Inr (), w)" by simp
    show ?thesis
      using tick_ok [of wl view s converge "()" w, OF False c'] inv converge_ok [OF i assms(2) c'] by (simp add: in_step_def)
  qed
qed

lemma run_in_step:
  assumes "inv w" and "\<forall>s\<in>set seen. valid (view s)"
  shows "in_step (effect_run view converge w seen)"
proof -
  have "in_step wl \<Longrightarrow> \<forall>s\<in>set seen. valid (view s) \<Longrightarrow> in_step (fold (effect_tick view converge) seen wl)" for wl
    by (induction seen arbitrary: wl) (auto simp: tick_in_step)
  then show ?thesis using assms by (simp add: effect_run_def in_step_def)
qed

lemma run_reflects:
  assumes "inv w" and "\<forall>s\<in>set seen. valid (view s)"
    and "effect_run view converge w seen = (w', Some snap)"
  shows "reflects snap w'"
  using run_in_step [OF assms(1,2)] assms(3) by (simp add: in_step_def)

end

section \<open>Hosts (hosts.rs, hosts_file.rs)\<close>

record hosts_world =
  hw_file :: text_file
  hw_outcomes :: "bool list"

definition next_outcome :: "bool list \<Rightarrow> bool" where
  "next_outcome outcomes = (case outcomes of [] \<Rightarrow> True | ok # _ \<Rightarrow> ok)"

definition hosts_converge :: "(string list, hosts_world) converge_fn" where
  "hosts_converge hosts w =
     (case hosts_sync (hw_file w) hosts of
        None \<Rightarrow> (Inr (), w)
      | Some out \<Rightarrow>
          if next_outcome (hw_outcomes w)
          then (Inr (), w\<lparr>hw_file := Some out, hw_outcomes := tl (hw_outcomes w)\<rparr>)
          else (Inl ''failed to write /etc/hosts'', w\<lparr>hw_outcomes := tl (hw_outcomes w)\<rparr>))"

section \<open>The sidecar's route table (routes.rs)\<close>

record routes_world =
  rw_written :: "string option"
  rw_tables :: "(string, route_file_entry list) btree"
  rw_outcomes :: "bool list"

definition env_network :: "env_state option \<Rightarrow> string option" where
  "env_network snap =
     (case snap of None \<Rightarrow> None | Some e \<Rightarrow> if es_network e = [] then None else Some (es_network e))"

definition write_route_table :: "env_state \<Rightarrow> routes_world \<Rightarrow> (string + unit) \<times> routes_world" where
  "write_route_table e w =
     (if next_outcome (rw_outcomes w)
      then (Inr (), w\<lparr>rw_tables := bt_insert (es_network e) (route_file_entries (bt_values (es_containers e))) (rw_tables w),
                      rw_outcomes := tl (rw_outcomes w)\<rparr>)
      else (Inl ''failed to write the route table'', w\<lparr>rw_outcomes := tl (rw_outcomes w)\<rparr>))"

definition routes_converge :: "(env_state option, routes_world) converge_fn" where
  "routes_converge snap w =
     (let network = env_network snap;
          wrote = (case snap of
                     Some e \<Rightarrow> if network \<noteq> None then write_route_table e w else (Inr (), w)
                   | None \<Rightarrow> (Inr (), w))
      in case wrote of
           (Inl e, w1) \<Rightarrow> (Inl e, w1)
         | (Inr _, w1) \<Rightarrow>
             (Inr (),
              (case rw_written w1 of
                 Some old \<Rightarrow>
                   if network \<noteq> Some old
                   then w1\<lparr>rw_tables := (if next_outcome (rw_outcomes w1) then bt_remove old (rw_tables w1) else rw_tables w1),
                           rw_outcomes := tl (rw_outcomes w1), rw_written := network\<rparr>
                   else w1\<lparr>rw_written := network\<rparr>
               | None \<Rightarrow> w1\<lparr>rw_written := network\<rparr>)))"

section \<open>Persistence (persist.rs)\<close>

record persist_world =
  pw_db :: "env_state option"
  pw_written :: bool
  pw_outcomes :: "bool list"

definition persist_converge :: "(env_state option, persist_world) converge_fn" where
  "persist_converge snap w =
     (case snap of
        Some e \<Rightarrow>
          if es_network e = [] \<and> es_containers e = [] then (Inr (), w)
          else if next_outcome (pw_outcomes w)
          then (Inr (), w\<lparr>pw_db := Some e, pw_written := True, pw_outcomes := tl (pw_outcomes w)\<rparr>)
          else (Inl ''failed to save the environment'', w\<lparr>pw_outcomes := tl (pw_outcomes w)\<rparr>)
      | None \<Rightarrow>
          if pw_written w then
            (if next_outcome (pw_outcomes w)
             then (Inr (), w\<lparr>pw_db := None, pw_written := False, pw_outcomes := tl (pw_outcomes w)\<rparr>)
             else (Inl ''failed to delete the environment'', w\<lparr>pw_outcomes := tl (pw_outcomes w)\<rparr>))
          else (Inr (), w))"

section \<open>Raw ports and DNS zones (raw_net.rs, dns.rs)\<close>

record raw_world =
  rawn_net :: raw_net
  rawn_os :: "(nat \<Rightarrow> os_calls) list"

definition willing_os :: "nat \<Rightarrow> os_calls" where
  "willing_os _ = \<lparr>os_add_alias = (\<lambda>_. Done), os_bind = (\<lambda>_. Done)\<rparr>"

definition raw_net_converge :: "(string \<Rightarrow> 8 word list) \<Rightarrow> (raw_endpoint list, raw_world) converge_fn" where
  "raw_net_converge digest snap w =
     (let os = (case rawn_os w of [] \<Rightarrow> willing_os | os # _ \<Rightarrow> os)
      in case raw_reconcile digest os snap (rawn_net w) of
           (r, rn) \<Rightarrow> (r, w\<lparr>rawn_net := rn, rawn_os := tl (rawn_os w)\<rparr>))"

text \<open>\<open>sync\<close> stands for the platform's \<open>DnsRouting\<close>, given the port and the zones to route.\<close>

definition dns_converge :: "(nat \<Rightarrow> string list \<Rightarrow> 'w \<Rightarrow> (string + unit) \<times> 'w) \<Rightarrow> nat \<Rightarrow> (string list, 'w) converge_fn" where
  "dns_converge sync dns_port wildcard_zones w = sync dns_port ([ZONE, ZONE_RAW] @ wildcard_zones) w"

end
