(* ===== verification/RawNet_Props.thy ===== *)
theory RawNet_Props
  imports RawNet "HOL-Library.Multiset"
begin

text \<open>
  Virtual addresses are never shared and are sticky; the forwarder listens on exactly the desired
  addresses, less those another program holds.
\<close>

section \<open>Probing the pool\<close>

lemma unat_pool [simp]: "unat (POOL_SIZE - 2) = 65534"
  by (simp add: POOL_SIZE_def)

lemma pool_span: "POOL_SIZE - 2 = (65534 :: 32 word)"
  by (simp add: POOL_SIZE_def)

lemma pool_base: "POOL_BASE = (2145320960 :: 32 word)"
  by (simp add: POOL_BASE_def ipv4_def)

lemma unat_mod_span: "unat (w mod (POOL_SIZE - 2)) < 65534"
  by (simp add: unat_mod_distrib)

lemma slot_of_virtual: "unat (slot_of (virtual_ip_for digest name)) < 65534"
proof -
  have "slot_of (POOL_BASE + (1 + h mod (POOL_SIZE - 2))) = h mod (POOL_SIZE - 2)" for h :: "32 word"
    by (simp add: slot_of_def)
  then show ?thesis
    using unat_mod_span by (simp add: virtual_ip_for_def Let_def)
qed

lemma unat_start_step:
  assumes "unat (start :: 32 word) < 65534" and "step < 65534"
  shows "unat (start + of_nat step) = unat start + step"
proof -
  have "unat (of_nat step :: 32 word) = step"
    using assms(2) by (simp add: unat_of_nat)
  then show ?thesis
    using assms by (subst unat_add_lem [THEN iffD1]) auto
qed

lemma mod_shift_le:
  fixes a i j m :: nat
  assumes "(a + i) mod m = (a + j) mod m" and "j < m" and "i \<le> j"
  shows "i = j"
proof -
  have "m dvd (a + j) - (a + i)"
    using assms(1,3) mod_eq_dvd_iff_nat [of "a + i" "a + j" m] by simp
  then have "m dvd j - i" by simp
  moreover have "j - i < m" using assms(2) by simp
  ultimately show ?thesis using assms(3) by (auto dest: nat_dvd_not_less)
qed

lemma mod_shift_inj:
  fixes a i j m :: nat
  assumes "(a + i) mod m = (a + j) mod m" and "i < m" and "j < m"
  shows "i = j"
  using mod_shift_le [of a i m j] mod_shift_le [of a j m i] assms by (metis nat_le_linear)

lemma probe_inj:
  assumes "unat start < 65534"
  shows "inj_on (probe start) {0..<65534}"
proof (rule inj_onI)
  fix i j assume ij: "i \<in> {0..<65534}" "j \<in> {0..<65534}" and "probe start i = probe start j"
  then have "(start + of_nat i) mod (POOL_SIZE - 2) = (start + of_nat j) mod (POOL_SIZE - 2)"
    by (simp add: probe_def)
  then have "unat (start + of_nat i) mod 65534 = unat (start + of_nat j) mod 65534"
    by (metis unat_mod_distrib unat_pool)
  then show "i = j"
    using ij assms by (auto simp: unat_start_step intro: mod_shift_inj)
qed


lemma pick_ip_free:
  assumes "finite claimed" and "card claimed < 65534"
  shows "free_at ports claimed (pick_ip preferred (virtual_ip_for digest name) ports claimed)"
proof -
  let ?c = "probe (slot_of (virtual_ip_for digest name))"
  have "card (?c ` {0..<65534}) = 65534"
    using probe_inj [OF slot_of_virtual] by (simp add: card_image)
  moreover have "card (fst ` claimed) \<le> card claimed" by (rule card_image_le [OF assms(1)])
  ultimately have "\<not> ?c ` {0..<65534} \<subseteq> fst ` claimed"
    using assms card_mono [of "fst ` claimed" "?c ` {0..<65534}"] by auto
  then obtain n where "n < 65534" and "?c n \<notin> fst ` claimed"
    unfolding image_subset_iff by (metis atLeastLessThan_iff)
  then have "free_at ports claimed (?c n)" and n: "?c n \<in> set (map ?c [0..<65534])"
    by (force simp: free_at_def)+
  then have "find (free_at ports claimed) (map ?c [0..<65534]) \<noteq> None"
    by (auto simp: find_None_iff)
  then obtain i where i: "find (free_at ports claimed) (map ?c [0..<65534]) = Some i" by auto
  then have "free_at ports claimed i" by (auto simp: find_Some_iff)
  with i show ?thesis by (auto simp: pick_ip_def Let_def split: option.splits)
qed

lemma pick_ip_preferred: "free_at ports claimed i \<Longrightarrow> pick_ip (Some i) naive ports claimed = i"
  by (simp add: pick_ip_def Let_def)

section \<open>Assigning addresses\<close>

definition total_ports :: "raw_endpoint list \<Rightarrow> nat" where
  "total_ports es = sum_list (map (\<lambda>ep. length (endpoint_ports ep)) es)"

lemma total_ports_simps [simp]:
  "total_ports [] = 0"
  "total_ports (ep # es) = length (endpoint_ports ep) + total_ports es"
  by (auto simp: total_ports_def)

abbreviation assigned :: "raw_endpoint list \<Rightarrow> (string \<Rightarrow> 8 word list) \<Rightarrow> (string, ip) btree
    \<Rightarrow> addr set \<times> (string, ip) btree \<Rightarrow> addr set \<times> (string, ip) btree" where
  "assigned es digest previous acc \<equiv> fold (assign_one digest previous) es acc"

lemma card_claim:
  assumes "finite c"
  shows "card (c \<union> (\<lambda>p. (i, p)) ` set ports) \<le> card c + length ports"
proof -
  have "card (c \<union> (\<lambda>p. (i, p)) ` set ports) \<le> card c + card ((\<lambda>p. (i, p)) ` set ports)"
    by (rule card_Un_le)
  also have "card ((\<lambda>p. (i, p)) ` set ports) \<le> card (set ports)" by (rule card_image_le) simp
  also have "card (set ports) \<le> length ports" by (rule card_length)
  finally show ?thesis by simp
qed

lemma assigned_other:
  "k \<notin> re_domain ` set es \<Longrightarrow> map_of (snd (assigned es digest previous acc)) k = map_of (snd acc) k"
  by (induction es arbitrary: acc) (auto simp: assign_one_def Let_def)

lemma assigned_claims: "fst acc \<subseteq> fst (assigned es digest previous acc)"
proof (induction es arbitrary: acc)
  case (Cons ep es)
  have "fst acc \<subseteq> fst (assign_one digest previous ep acc)" by (auto simp: assign_one_def Let_def)
  with Cons.IH [of "assign_one digest previous ep acc"] show ?case by auto
qed simp

lemma assigned_spec:
  assumes "finite (fst acc)" and "card (fst acc) + total_ports es < 65534"
    and "distinct (map re_domain es)" and "ep \<in> set es"
  shows "\<exists>i. map_of (snd (assigned es digest previous acc)) (re_domain ep) = Some i \<and>
    (\<forall>p\<in>set (endpoint_ports ep). (i, p) \<notin> fst acc \<and> (i, p) \<in> fst (assigned es digest previous acc)) \<and>
    (\<forall>other\<in>set es. other \<noteq> ep \<longrightarrow> set (endpoint_ports ep) \<inter> set (endpoint_ports other) \<noteq> {} \<longrightarrow>
       map_of (snd (assigned es digest previous acc)) (re_domain other) \<noteq> Some i)"
  using assms
proof (induction es arbitrary: acc ep)
  case (Cons e es)
  let ?i = "pick_ip (map_of previous (re_domain e)) (virtual_ip_for digest (re_domain e)) (endpoint_ports e) (fst acc)"
  let ?acc = "assign_one digest previous e acc"
  let ?fin = "assigned es digest previous ?acc"
  have acc: "fst ?acc = fst acc \<union> (\<lambda>p. (?i, p)) ` set (endpoint_ports e)"
    and tab: "map_of (snd ?acc) (re_domain e) = Some ?i"
    by (simp_all add: assign_one_def Let_def)
  have free: "free_at (endpoint_ports e) (fst acc) ?i"
    using Cons.prems(1,2) by (intro pick_ip_free) auto
  have "finite (fst ?acc)" using acc Cons.prems(1) by simp
  moreover have "card (fst ?acc) + total_ports es < 65534"
    using card_claim [OF Cons.prems(1), of ?i "endpoint_ports e"] acc Cons.prems(2) by simp
  moreover have "distinct (map re_domain es)" using Cons.prems(3) by simp
  ultimately have IH: "\<And>x. x \<in> set es \<Longrightarrow>
    \<exists>i. map_of (snd ?fin) (re_domain x) = Some i \<and>
    (\<forall>p\<in>set (endpoint_ports x). (i, p) \<notin> fst ?acc \<and> (i, p) \<in> fst ?fin) \<and>
    (\<forall>other\<in>set es. other \<noteq> x \<longrightarrow> set (endpoint_ports x) \<inter> set (endpoint_ports other) \<noteq> {} \<longrightarrow>
       map_of (snd ?fin) (re_domain other) \<noteq> Some i)"
    by (rule Cons.IH)
  have e: "map_of (snd ?fin) (re_domain e) = Some ?i"
    using Cons.prems(3) tab by (subst assigned_other) auto
  have in_end: "fst ?acc \<subseteq> fst ?fin" by (rule assigned_claims)
  show ?case
  proof (cases "ep = e")
    case True
    have "map_of (snd ?fin) (re_domain other) \<noteq> Some ?i"
      if "other \<in> set es" "set (endpoint_ports e) \<inter> set (endpoint_ports other) \<noteq> {}" for other
      using IH [OF that(1)] that(2) acc by auto
    with True e free in_end acc show ?thesis by (auto simp: free_at_def)
  next
    case False
    with Cons.prems(4) have ep: "ep \<in> set es" by simp
    obtain i where i: "map_of (snd ?fin) (re_domain ep) = Some i"
      and p: "\<forall>p\<in>set (endpoint_ports ep). (i, p) \<notin> fst ?acc \<and> (i, p) \<in> fst ?fin"
      and o: "\<forall>other\<in>set es. other \<noteq> ep \<longrightarrow> set (endpoint_ports ep) \<inter> set (endpoint_ports other) \<noteq> {} \<longrightarrow>
       map_of (snd ?fin) (re_domain other) \<noteq> Some i"
      using IH [OF ep] by blast
    have "i \<noteq> ?i" if "set (endpoint_ports ep) \<inter> set (endpoint_ports e) \<noteq> {}"
      using that p acc by auto
    with i p o e acc show ?thesis by auto
  qed
qed simp


lemma mset_assign_order: "mset (assign_order es previous) = mset es"
  by (simp add: assign_order_def)

lemma set_assign_order [simp]: "set (assign_order es previous) = set es"
  by (metis mset_assign_order set_mset_mset)

lemma total_ports_order: "total_ports (assign_order es previous) = total_ports es"
  unfolding total_ports_def sum_mset_sum_list [symmetric] mset_map by (simp add: mset_assign_order)

lemma distinct_assign_order:
  "distinct (map re_domain es) \<Longrightarrow> distinct (map re_domain (assign_order es previous))"
  using mset_eq_imp_distinct_iff [of "map re_domain (assign_order es previous)" "map re_domain es"]
  by (simp add: mset_assign_order)

lemma assign_spec:
  assumes "finite taken" and "card taken + total_ports es < 65534"
    and "distinct (map re_domain es)" and "ep \<in> set es"
  shows "\<exists>i. map_of (assign digest es previous taken) (re_domain ep) = Some i \<and>
    (\<forall>p\<in>set (endpoint_ports ep). (i, p) \<notin> taken) \<and>
    (\<forall>other\<in>set es. other \<noteq> ep \<longrightarrow> set (endpoint_ports ep) \<inter> set (endpoint_ports other) \<noteq> {} \<longrightarrow>
       map_of (assign digest es previous taken) (re_domain other) \<noteq> Some i)"
  using assigned_spec [of "(taken, [])" "assign_order es previous" ep digest previous] assms
  unfolding assign_def by (simp add: total_ports_order distinct_assign_order) blast

lemma assigned_incumbents:
  assumes "distinct (map re_domain es)" and "ep \<in> set es"
    and "\<forall>e\<in>set es. \<exists>i. map_of previous (re_domain e) = Some i \<and> free_at (endpoint_ports e) (fst acc) i"
    and "\<forall>e\<in>set es. \<forall>f\<in>set es. e \<noteq> f \<longrightarrow> set (endpoint_ports e) \<inter> set (endpoint_ports f) \<noteq> {} \<longrightarrow>
      map_of previous (re_domain e) \<noteq> map_of previous (re_domain f)"
  shows "map_of (snd (assigned es digest previous acc)) (re_domain ep) = map_of previous (re_domain ep)"
  using assms
proof (induction es arbitrary: acc)
  case (Cons e es)
  obtain i where i: "map_of previous (re_domain e) = Some i" "free_at (endpoint_ports e) (fst acc) i"
    using Cons.prems(3) by auto
  have step: "assign_one digest previous e acc =
    (fst acc \<union> (\<lambda>p. (i, p)) ` set (endpoint_ports e), bt_insert (re_domain e) i (snd acc))"
    using i by (simp add: assign_one_def Let_def pick_ip_preferred)
  show ?case
  proof (cases "ep = e")
    case True
    have "map_of (snd (assigned es digest previous (assign_one digest previous e acc))) (re_domain e) = Some i"
      using Cons.prems(1) step by (subst assigned_other) auto
    with True i show ?thesis by simp
  next
    case False
    have "\<exists>j. map_of previous (re_domain f) = Some j \<and>
        free_at (endpoint_ports f) (fst (assign_one digest previous e acc)) j" if f: "f \<in> set es" for f
    proof -
      obtain j where j: "map_of previous (re_domain f) = Some j" "free_at (endpoint_ports f) (fst acc) j"
        using Cons.prems(3) f by auto
      have "f \<noteq> e" using Cons.prems(1) f by auto
      then have "set (endpoint_ports f) \<inter> set (endpoint_ports e) \<noteq> {} \<Longrightarrow> j \<noteq> i"
        using Cons.prems(4) f i(1) j(1) by fastforce
      with j step show ?thesis by (auto simp: free_at_def)
    qed
    then show ?thesis
      using False Cons.prems(1,2,4) Cons.IH [of "assign_one digest previous e acc"] by simp
  qed
qed simp

lemma assign_sticky_aux:
  assumes "distinct (map re_domain es)" and "ep \<in> set es" and "bt_has previous (re_domain ep)"
    and free: "\<forall>e\<in>set es. \<forall>i. map_of previous (re_domain e) = Some i \<longrightarrow> free_at (endpoint_ports e) taken i"
    and apart: "\<forall>e\<in>set es. \<forall>f\<in>set es. \<forall>i. e \<noteq> f \<longrightarrow> set (endpoint_ports e) \<inter> set (endpoint_ports f) \<noteq> {} \<longrightarrow>
      map_of previous (re_domain e) = Some i \<longrightarrow> map_of previous (re_domain f) \<noteq> Some i"
  shows "map_of (assign digest es previous taken) (re_domain ep) = map_of previous (re_domain ep)"
proof -
  let ?has = "\<lambda>e. bt_has previous (re_domain e)"
  let ?old = "sort_key re_domain (filter ?has es)"
  let ?new = "sort_key re_domain (filter (\<lambda>e. \<not> ?has e) es)"
  have d: "distinct (map re_domain ?old)"
    using assms(1) distinct_map_filter [of re_domain es ?has]
      mset_eq_imp_distinct_iff [of "map re_domain ?old" "map re_domain (filter ?has es)"] by simp
  have "re_domain ep \<notin> re_domain ` set ?new" using assms(3) by auto
  then have "map_of (assign digest es previous taken) (re_domain ep) =
      map_of (snd (assigned ?old digest previous (taken, []))) (re_domain ep)"
    unfolding assign_def assign_order_def fold_append o_def by (rule assigned_other)
  also have "\<dots> = map_of previous (re_domain ep)"
  proof (rule assigned_incumbents [OF d])
    show "ep \<in> set ?old" using assms(2,3) by simp
    show "\<forall>e\<in>set ?old. \<exists>i. map_of previous (re_domain e) = Some i \<and> free_at (endpoint_ports e) (fst (taken, [])) i"
      using free by (auto simp: bt_has_iff)
    show "\<forall>e\<in>set ?old. \<forall>f\<in>set ?old. e \<noteq> f \<longrightarrow> set (endpoint_ports e) \<inter> set (endpoint_ports f) \<noteq> {} \<longrightarrow>
        map_of previous (re_domain e) \<noteq> map_of previous (re_domain f)"
    proof (intro ballI impI)
      fix e f
      assume e: "e \<in> set ?old" and f: "f \<in> set ?old" and ef: "e \<noteq> f"
        "set (endpoint_ports e) \<inter> set (endpoint_ports f) \<noteq> {}"
      from e obtain i where i: "map_of previous (re_domain e) = Some i" by (auto simp: bt_has_iff)
      from e f have "e \<in> set es" "f \<in> set es" by auto
      with apart ef i have "map_of previous (re_domain f) \<noteq> Some i" by blast
      with i show "map_of previous (re_domain e) \<noteq> map_of previous (re_domain f)" by simp
    qed
  qed
  finally show ?thesis .
qed

section \<open>The forwarder\<close>

definition fw_wf :: "forwarder \<Rightarrow> bool" where
  "fw_wf fw \<longleftrightarrow> bt_wf (fw_listeners fw) \<and> fst ` fst ` set (fw_listeners fw) \<subseteq> fw_aliases fw"

lemma fw_listen_cases:
  assumes "fw_listen os a hp fw = (r, fw')"
  shows "fw_listeners fw' = (if r = Done then bt_insert a hp (fw_listeners fw) else fw_listeners fw) \<and>
    fw_aliases fw \<subseteq> fw_aliases fw' \<and> (r = Done \<longrightarrow> fst a \<in> fw_aliases fw')"
  using assms by (auto simp: fw_listen_def Let_def split: os_result.splits if_splits)

lemma fw_apply_one_wf:
  assumes "fw_wf (fst acc)"
  shows "fw_wf (fst (fw_apply_one os route acc))"
proof -
  obtain a hp where r: "route = (a, hp)" by (cases route)
  obtain fw taken errors where acc: "acc = (fw, taken, errors)" by (cases acc) auto
  obtain res fw' where l: "fw_listen os a hp fw = (res, fw')" by (cases "fw_listen os a hp fw")
  have wf: "fw_wf fw" using assms acc by simp
  show ?thesis
  proof (cases "bt_has (fw_listeners fw) a")
    case True
    with wf r acc show ?thesis
      by (auto simp: fw_apply_one_def fw_wf_def set_bt_insert bt_has_def)
  next
    case False
    from fw_listen_cases [OF l] wf have "fw_wf fw'"
      by (auto simp: fw_wf_def set_bt_insert split: if_splits)
    with False r acc l show ?thesis
      by (auto simp: fw_apply_one_def split: os_result.splits)
  qed
qed

lemma fw_fold_wf: "fw_wf (fst acc) \<Longrightarrow> fw_wf (fst (fold (fw_apply_one os) rs acc))"
  by (induction rs arbitrary: acc) (auto simp: fw_apply_one_wf)


text \<open>
  What one pass over the desired addresses leaves: an address listened on forwards to its desired
  port; one that is not was reported taken or as an error.
\<close>

lemma fw_apply_one_other:
  "b \<noteq> fst route \<Longrightarrow>
   map_of (fw_listeners (fst (fw_apply_one os route (fw, tk, er)))) b = map_of (fw_listeners fw) b"
  by (cases route; cases "fw_listen os (fst route) (snd route) fw")
    (auto simp: fw_apply_one_def dest!: fw_listen_cases split: os_result.splits if_splits)

lemma fw_apply_one_this:
  assumes "fw_apply_one os (a, hp) (fw, tk, er) = (fw', tk', er')"
  shows "(map_of (fw_listeners fw') a = Some hp \<and> tk' = tk \<and> er' = er) \<or>
    (map_of (fw_listeners fw') a = None \<and> map_of (fw_listeners fw) a = None \<and>
      (tk' = tk @ [a] \<and> er' = er \<or> tk' = tk \<and> (\<exists>e. er' = er @ [e])))"
  using assms
  by (cases "fw_listen os a hp fw")
    (auto simp: fw_apply_one_def bt_has_iff dest!: fw_listen_cases split: os_result.splits if_splits)

lemma fw_fold:
  assumes "fold (fw_apply_one os) rs (fw, tk, er) = (fw', tk', er')" and "distinct (map fst rs)"
  shows "\<exists>tk2 er2. tk' = tk @ tk2 \<and> er' = er @ er2 \<and> set tk2 \<subseteq> fst ` set rs \<and>
    (\<forall>a hp. (a, hp) \<in> set rs \<longrightarrow> er2 = [] \<longrightarrow>
       map_of (fw_listeners fw') a = (if a \<in> set tk2 then None else Some hp)) \<and>
    (\<forall>b. b \<notin> fst ` set rs \<longrightarrow> map_of (fw_listeners fw') b = map_of (fw_listeners fw) b)"
  using assms
proof (induction rs arbitrary: fw tk er)
  case (Cons r rs)
  obtain a hp where r: "r = (a, hp)" by (cases r)
  obtain fw1 tk1 er1 where one: "fw_apply_one os (a, hp) (fw, tk, er) = (fw1, tk1, er1)"
    by (metis prod_cases3)
  with Cons.prems r obtain tk2 er2 where
    h: "tk' = tk1 @ tk2" "er' = er1 @ er2" "set tk2 \<subseteq> fst ` set rs"
    and here: "\<forall>a hp. (a, hp) \<in> set rs \<longrightarrow> er2 = [] \<longrightarrow>
       map_of (fw_listeners fw') a = (if a \<in> set tk2 then None else Some hp)"
    and other: "\<forall>b. b \<notin> fst ` set rs \<longrightarrow> map_of (fw_listeners fw') b = map_of (fw_listeners fw1) b"
    using Cons.IH [of fw1 tk1 er1] by auto
  have a: "a \<notin> fst ` set rs" "a \<notin> set tk2" using Cons.prems(2) r h(3) by auto
  have na: "(a, x) \<notin> set rs" for x using a(1) by force
  have frame: "\<forall>b. b \<noteq> a \<longrightarrow> map_of (fw_listeners fw1) b = map_of (fw_listeners fw) b"
    using fw_apply_one_other [of _ "(a, hp)" os fw tk er] one by simp
  from fw_apply_one_this [OF one] show ?case
  proof (elim disjE conjE exE)
    assume "map_of (fw_listeners fw1) a = Some hp" "tk1 = tk" "er1 = er"
    with h here other a frame r show ?thesis
      by (intro exI [of _ tk2] exI [of _ er2]) auto
  next
    assume "map_of (fw_listeners fw1) a = None" "tk1 = tk @ [a]" "er1 = er"
    with h here other a na frame r show ?thesis
      by (intro exI [of _ "a # tk2"] exI [of _ er2]) auto
  next
    fix e assume "tk1 = tk" "er1 = er @ [e]"
    with h here other a frame r show ?thesis
      by (intro exI [of _ tk2] exI [of _ "e # er2"]) auto
  qed
qed simp


lemma drop_unused_wf: "fw_wf fw \<Longrightarrow> fw_wf (drop_unused_aliases fw)"
  by (simp add: fw_wf_def drop_unused_aliases_def)

lemma fw_apply_spec:
  assumes "fw_wf fw" and "fw_apply os routes fw = (Inr taken, fw')"
  shows "fw_wf fw' \<and> fw_aliases fw' = fst ` fst ` set (fw_listeners fw') \<and>
    (\<forall>a. map_of (fw_listeners fw') a =
       (if a \<in> set taken then None else map_of (desired_listeners routes) a)) \<and>
    (\<forall>a\<in>set taken. bt_has (desired_listeners routes) a)"
proof -
  let ?d = "desired_listeners routes"
  let ?kept = "fw\<lparr>fw_listeners := bt_retain (\<lambda>a _. bt_has ?d a) (fw_listeners fw)\<rparr>"
  obtain fw1 tk er where f: "fold (fw_apply_one os) ?d (?kept, [], []) = (fw1, tk, er)"
    by (metis prod_cases3)
  then have er: "er = []" and tk: "tk = taken" and fw': "fw' = drop_unused_aliases fw1"
    using assms(2) by (auto simp: fw_apply_def Let_def split: if_splits)
  have d: "bt_wf ?d" by (simp add: desired_listeners_def)
  have kept: "fw_wf ?kept"
    using assms(1) by (auto simp: fw_wf_def set_bt_retain)
  then have wf1: "fw_wf fw1" using fw_fold_wf [of "(?kept, [], [])" os ?d] f by simp
  obtain tk2 er2 where s: "tk = [] @ tk2" "er = [] @ er2" "set tk2 \<subseteq> fst ` set ?d"
    and here: "\<forall>a hp. (a, hp) \<in> set ?d \<longrightarrow> er2 = [] \<longrightarrow>
       map_of (fw_listeners fw1) a = (if a \<in> set tk2 then None else Some hp)"
    and other: "\<forall>b. b \<notin> fst ` set ?d \<longrightarrow> map_of (fw_listeners fw1) b = map_of (fw_listeners ?kept) b"
    using fw_fold [OF f bt_wf_distinct [OF d]] by blast
  have tk2: "tk2 = taken" and er2: "er2 = []" using s tk er by auto
  have look: "map_of (fw_listeners fw1) a = (if a \<in> set taken then None else map_of ?d a)" for a
  proof (cases "map_of ?d a")
    case None
    then have na: "a \<notin> fst ` set ?d" by (simp add: map_of_eq_None_iff)
    then have "map_of (fw_listeners ?kept) a = None"
      using assms(1) by (auto simp: fw_wf_def bt_get_retain bt_has_def split: option.splits)
    moreover have "map_of (fw_listeners fw1) a = map_of (fw_listeners ?kept) a" using other na by blast
    ultimately have "map_of (fw_listeners fw1) a = None" by simp
    with None show ?thesis by simp
  next
    case (Some hp)
    then have "(a, hp) \<in> set ?d" by (rule map_of_SomeD)
    with here er2 tk2 have "map_of (fw_listeners fw1) a = (if a \<in> set taken then None else Some hp)" by blast
    with Some show ?thesis by simp
  qed
  have "fw_wf fw'" and "fw_aliases fw' = fst ` fst ` set (fw_listeners fw')"
    using wf1 by (auto simp: fw' drop_unused_aliases_def fw_wf_def)
  moreover have "fw_listeners fw' = fw_listeners fw1" by (simp add: fw' drop_unused_aliases_def)
  ultimately show ?thesis using look s(3) tk2 by (auto simp: bt_has_def)
qed

lemma fw_apply_wf: "fw_wf fw \<Longrightarrow> fw_wf (snd (fw_apply os routes fw))"
proof -
  assume wf: "fw_wf fw"
  let ?kept = "fw\<lparr>fw_listeners := bt_retain (\<lambda>a _. bt_has (desired_listeners routes) a) (fw_listeners fw)\<rparr>"
  have "fw_wf ?kept" using wf by (auto simp: fw_wf_def set_bt_retain)
  then have "fw_wf (fst (fold (fw_apply_one os) (desired_listeners routes) (?kept, [], [])))"
    by (intro fw_fold_wf) simp
  then show ?thesis
    by (auto simp: fw_apply_def Let_def drop_unused_wf split: prod.splits)
qed

section \<open>Reconciling\<close>

definition route_addr :: "route_spec \<Rightarrow> addr" where
  "route_addr r = (rs_virtual_ip r, rs_container_port r)"

lemma desired_listeners_has: "bt_has (desired_listeners routes) a \<longleftrightarrow> a \<in> route_addr ` set routes"
  unfolding desired_listeners_def bt_has_of_list by (auto simp: route_addr_def image_image)

lemma route_health_unserved:
  "set (snd (route_health rn)) =
     {r \<in> set (rn_desired rn). \<not> bt_has (fw_listeners (rn_forwarder rn)) (route_addr r)}"
  by (force simp: route_health_def fw_status_def route_addr_def bt_has_def Let_def image_image)

lemma reconcile_round_wf:
  "fw_wf (rn_forwarder rn) \<Longrightarrow> fw_wf (rn_forwarder (snd (reconcile_round digest os es rn)))"
  using fw_apply_wf [of "rn_forwarder rn" os]
  by (auto simp: reconcile_round_def Let_def split: prod.splits) (metis snd_conv)

lemma reconcile_round_taken [simp]: "rn_taken (snd (reconcile_round digest os es rn)) = rn_taken rn"
  by (auto simp: reconcile_round_def Let_def split: prod.splits)

lemma reconcile_round_ok:
  assumes "fw_wf (rn_forwarder rn)" and "reconcile_round digest os es rn = (Inr busy, rn')"
  shows "\<forall>r\<in>set (snd (route_health rn')). route_addr r \<in> set busy"
proof -
  let ?routes = "routes_for digest es (assign digest es (rn_assignments rn) (rn_taken rn))"
  obtain fw where ap: "fw_apply os ?routes (rn_forwarder rn) = (Inr busy, fw)"
    and rn': "rn_desired rn' = ?routes" "rn_forwarder rn' = fw"
    using assms(2) by (auto simp: reconcile_round_def Let_def split: prod.splits)
  from fw_apply_spec [OF assms(1) ap] have
    "map_of (fw_listeners fw) a = (if a \<in> set busy then None else map_of (desired_listeners ?routes) a)" for a
    by blast
  moreover have "map_of (desired_listeners ?routes) (route_addr r) \<noteq> None" if "r \<in> set ?routes" for r
    using that desired_listeners_has [of ?routes "route_addr r"] by (simp add: bt_has_iff)
  ultimately show ?thesis
    by (auto simp: route_health_unserved rn' bt_has_iff split: if_splits)
qed

lemma reconcile_rounds_ok:
  assumes "fw_wf (rn_forwarder rn)" and "reconcile_rounds digest os es (Suc n) rn = (Inr (), rn')"
  shows "\<forall>r\<in>set (snd (route_health rn')). route_addr r \<in> rn_taken rn'"
  using assms
proof (induction n arbitrary: rn)
  case 0
  obtain res rn1 where rd: "reconcile_round digest (os 0) es rn = (res, rn1)" by fastforce
  with 0 obtain busy where res: "res = Inr busy" by (cases res) auto
  have "rn' = (if busy = [] then rn1 else rn1\<lparr>rn_taken := rn_taken rn1 \<union> set busy\<rparr>)"
    using 0 rd res by (auto split: if_splits)
  moreover have "route_health (rn1\<lparr>rn_taken := t\<rparr>) = route_health rn1" for t
    by (simp add: route_health_def)
  ultimately show ?case
    using reconcile_round_ok [OF 0(1), of digest "os 0" es busy rn1] rd res
    by (auto split: if_splits)
next
  case (Suc n)
  obtain res rn1 where rd: "reconcile_round digest (os (Suc n)) es rn = (res, rn1)" by fastforce
  with Suc.prems obtain busy where res: "res = Inr busy" by (cases res) auto
  have wf1: "fw_wf (rn_forwarder rn1)" using reconcile_round_wf [OF Suc.prems(1)] rd by (metis snd_conv)
  show ?case
  proof (cases "busy = []")
    case True
    then show ?thesis
      using Suc.prems rd res reconcile_round_ok [OF Suc.prems(1), of digest "os (Suc n)" es busy rn1] by simp
  next
    case False
    have "reconcile_rounds digest os es (Suc n) (rn1\<lparr>rn_taken := rn_taken rn1 \<union> set busy\<rparr>) = (Inr (), rn')"
      using Suc.prems(2) rd res False by (subst (asm) reconcile_rounds.simps(2)) simp
    with wf1 show ?thesis by (intro Suc.IH) auto
  qed
qed

end
