(* ===== verification/Effects_Props.thy ===== *)
theory Effects_Props
  imports Effects RawNet_Props State_Claims
begin

text \<open>
  The hosts, routes and persist effects meet the driver's contract; the raw-port effect does not: a
  failed application has already dropped listeners that the last success set up.
\<close>

definition hosts_reflects :: "string list \<Rightarrow> hosts_world \<Rightarrow> bool" where
  "hosts_reflects hosts w \<longleftrightarrow> managed_hosts (hw_file w) = sorted_dedup hosts"

lemma sync_None_render: "hosts_sync f hosts = None \<longleftrightarrow> hosts_render f hosts = read_or_default f"
  by (simp add: hosts_sync_def Let_def)

lemma managed_read: "managed_hosts (Some (read_or_default f)) = managed_hosts f"
  by (simp add: managed_hosts_def read_or_default_def)

lemma no_cr_render:
  assumes "no_cr_lines f" and "\<forall>h\<in>set hosts. plain_host h"
  shows "no_cr_lines (Some (hosts_render f hosts))"
proof -
  have "\<forall>l\<in>set (host_block (sorted_dedup hosts)). plain_line l"
    using assms(2) by (intro plain_block) simp
  moreover have "set (strip_block False (lines (read_or_default f))) \<subseteq> set (lines (read_or_default f))"
    by (rule set_strip_block)
  ultimately show ?thesis
    using lines_render [OF assms] assms(1)
    by (auto simp: no_cr_lines_def read_or_default_def plain_line_def)
qed

interpretation hosts: atomic_effect extract_hosts hosts_converge "\<lambda>hosts. \<forall>h\<in>set hosts. plain_host h"
  "\<lambda>w. no_cr_lines (hw_file w)" hosts_reflects
proof unfold_locales
  fix w :: hosts_world and snap :: "string list"
  assume inv: "no_cr_lines (hw_file w)" and valid: "\<forall>h\<in>set snap. plain_host h"
  show "no_cr_lines (hw_file (snd (hosts_converge snap w)))"
    using inv no_cr_render [OF inv valid]
    by (auto simp: hosts_converge_def hosts_sync_def Let_def split: option.splits if_splits)
  show "hosts_reflects snap w'" if "hosts_converge snap w = (Inr (), w')" for w'
    using that managed_hosts_render [OF inv valid]
    by (auto simp: hosts_converge_def hosts_sync_def Let_def hosts_reflects_def managed_read
        split: option.splits if_splits)
  show "hosts_reflects old w'" if "hosts_converge snap w = (Inl e, w')" "hosts_reflects old w" for e w' old
    using that by (auto simp: hosts_converge_def hosts_reflects_def split: option.splits if_splits)
qed

definition routes_reflects :: "env_state option \<Rightarrow> routes_world \<Rightarrow> bool" where
  "routes_reflects snap w \<longleftrightarrow> rw_written w = env_network snap \<and>
     (case snap of
        None \<Rightarrow> True
      | Some e \<Rightarrow> es_network e \<noteq> [] \<longrightarrow>
          map_of (rw_tables w) (es_network e) = Some (route_file_entries (bt_values (es_containers e))))"

lemma write_route_table_cases:
  "write_route_table e w = (Inr (), w\<lparr>rw_tables := bt_insert (es_network e) (route_file_entries (bt_values (es_containers e))) (rw_tables w),
      rw_outcomes := tl (rw_outcomes w)\<rparr>) \<or>
   (\<exists>m. write_route_table e w = (Inl m, w\<lparr>rw_outcomes := tl (rw_outcomes w)\<rparr>))"
  by (simp add: write_route_table_def)

lemma routes_converge_ok:
  assumes "routes_converge snap w = (Inr (), w')"
  shows "routes_reflects snap w'"
proof (cases "env_network snap")
  case None
  then show ?thesis
    using assms by (auto simp: routes_converge_def routes_reflects_def env_network_def Let_def
        split: option.splits if_splits)
next
  case (Some n)
  then obtain e where e: "snap = Some e" "es_network e = n" "n \<noteq> []"
    by (auto simp: env_network_def split: option.splits if_splits)
  from write_route_table_cases [of e w] show ?thesis
    using assms e Some by (auto simp: routes_converge_def routes_reflects_def Let_def
        split: option.splits if_splits)
qed

lemma routes_converge_failed:
  assumes "routes_converge snap w = (Inl e, w')"
  shows "rw_tables w' = rw_tables w \<and> rw_written w' = rw_written w"
proof (cases snap)
  case None
  with assms show ?thesis by (simp add: routes_converge_def Let_def split: option.splits if_splits)
next
  case (Some env)
  from write_route_table_cases [of env w] show ?thesis
    using assms Some by (auto simp: routes_converge_def Let_def split: option.splits if_splits)
qed

interpretation routes: atomic_effect ws_env routes_converge "\<lambda>_. True" "\<lambda>_. True" routes_reflects
proof unfold_locales
  fix w w' :: routes_world and snap old :: "env_state option" and e
  show "routes_reflects snap w'" if "routes_converge snap w = (Inr (), w')"
    using that by (rule routes_converge_ok)
  show "routes_reflects old w'" if "routes_converge snap w = (Inl e, w')" "routes_reflects old w"
    using routes_converge_failed [OF that(1)] that(2) by (cases old) (simp_all add: routes_reflects_def)
qed simp

definition persist_reflects :: "env_state option \<Rightarrow> persist_world \<Rightarrow> bool" where
  "persist_reflects snap w \<longleftrightarrow>
     (case snap of
        None \<Rightarrow> \<not> pw_written w
      | Some e \<Rightarrow> es_network e = [] \<and> es_containers e = [] \<or> pw_db w = Some e \<and> pw_written w)"

interpretation persist: atomic_effect ws_env persist_converge "\<lambda>_. True" "\<lambda>w. pw_written w = (pw_db w \<noteq> None)" persist_reflects
proof unfold_locales
  fix w w' :: persist_world and snap old :: "env_state option" and e
  show "persist_reflects snap w'" if "persist_converge snap w = (Inr (), w')"
    using that by (auto simp: persist_converge_def persist_reflects_def split: option.splits if_splits)
  show "persist_reflects old w'" if "persist_converge snap w = (Inl e, w')" "persist_reflects old w"
    using that by (auto simp: persist_converge_def persist_reflects_def split: option.splits if_splits)
  show "pw_written (snd (persist_converge snap w)) = (pw_db (snd (persist_converge snap w)) \<noteq> None)"
    if "pw_written w = (pw_db w \<noteq> None)"
    using that by (auto simp: persist_converge_def split: option.splits)
qed

end
