(* ===== verification/RawNet_Claims.thy ===== *)
theory RawNet_Claims
  imports RawNet_Props
begin

text \<open>The properties of the raw zone: unshared and sticky addresses, an exact forwarder.\<close>

definition sample_ep :: "string \<Rightarrow> raw_endpoint" where
  "sample_ep n = \<lparr>re_domain = n, re_ports = [(''80'', 5001)]\<rparr>"

lemma sample_ports: "endpoint_ports (sample_ep n) = [80]"
  by (simp add: endpoint_ports_def sample_ep_def bt_keys_def parse_u16_def parse_bounded_def
      is_digit_def code_def digits_value_def digit_value_def)

lemma routes_for_one:
  "r \<in> set (routes_for digest [ep] table) \<Longrightarrow>
     rs_virtual_ip r = resolve_raw digest table (re_domain ep) \<and>
     rs_container_port r \<in> set (endpoint_ports ep)"
  by (force simp: routes_for_def resolve_raw_def set_filter_map endpoint_ports_def bt_keys_def
      split: option.splits)

text \<open>
  C4: As long as the pool has room, two nodes with distinct raw names never get the same virtual
  address and port, no node gets an address another program holds, and the address DNS answers for a
  node is the one its routes use; whatever the hash (SHA-256 is a parameter).
\<close>
theorem raw_addresses_never_shared:
  assumes "finite taken" and "card taken + total_ports es < 65534" and "distinct (map re_domain es)"
    and "e \<in> set es" and "f \<in> set es" and "e \<noteq> f"
    and "r \<in> set (routes_for digest [e] (assign digest es previous taken))"
    and "q \<in> set (routes_for digest [f] (assign digest es previous taken))"
  shows "route_addr r \<noteq> route_addr q \<and> route_addr r \<notin> taken \<and>
    rs_virtual_ip r = resolve_raw digest (assign digest es previous taken) (re_domain e)"
proof -
  let ?t = "assign digest es previous taken"
  obtain i where i: "map_of ?t (re_domain e) = Some i" "\<forall>p\<in>set (endpoint_ports e). (i, p) \<notin> taken"
    and o: "\<forall>other\<in>set es. other \<noteq> e \<longrightarrow> set (endpoint_ports e) \<inter> set (endpoint_ports other) \<noteq> {} \<longrightarrow>
       map_of ?t (re_domain other) \<noteq> Some i"
    using assign_spec [OF assms(1-4), of digest previous] by blast
  obtain j where j: "map_of ?t (re_domain f) = Some j"
    using assign_spec [OF assms(1-3,5), of digest previous] by blast
  have r: "rs_virtual_ip r = i" "rs_container_port r \<in> set (endpoint_ports e)"
    and q: "rs_virtual_ip q = j" "rs_container_port q \<in> set (endpoint_ports f)"
    using routes_for_one [OF assms(7)] routes_for_one [OF assms(8)] i(1) j by (auto simp: resolve_raw_def)
  have "route_addr r \<noteq> route_addr q"
  proof
    assume "route_addr r = route_addr q"
    then have "i = j" and "set (endpoint_ports e) \<inter> set (endpoint_ports f) \<noteq> {}"
      using r q by (auto simp: route_addr_def)
    with o [rule_format, of f] assms(5,6) j show False by auto
  qed
  then show ?thesis
    using i r by (auto simp: route_addr_def resolve_raw_def)
qed

lemma sample_route:
  "\<exists>r. r \<in> set (routes_for digest [sample_ep n] table)"
  by (auto simp: routes_for_def sample_ep_def parse_u16_def parse_bounded_def
      is_digit_def code_def digits_value_def digit_value_def split: option.splits)

theorem raw_addresses_never_shared_witness:
  "\<exists>r q. r \<in> set (routes_for (\<lambda>_. replicate 32 7) [sample_ep ''a''] (assign (\<lambda>_. replicate 32 7) [sample_ep ''a'', sample_ep ''b''] [] {})) \<and>
     q \<in> set (routes_for (\<lambda>_. replicate 32 7) [sample_ep ''b''] (assign (\<lambda>_. replicate 32 7) [sample_ep ''a'', sample_ep ''b''] [] {})) \<and>
     route_addr r \<noteq> route_addr q"
proof -
  let ?d = "\<lambda>_ :: string. replicate 32 (7 :: 8 word)"
  let ?es = "[sample_ep ''a'', sample_ep ''b'']"
  obtain r q where "r \<in> set (routes_for ?d [sample_ep ''a''] (assign ?d ?es [] {}))"
    and "q \<in> set (routes_for ?d [sample_ep ''b''] (assign ?d ?es [] {}))"
    using sample_route by metis
  moreover from this have "route_addr r \<noteq> route_addr q"
    by (intro raw_addresses_never_shared [of "{}" ?es "sample_ep ''a''" "sample_ep ''b''" r ?d "[]" q, THEN conjunct1])
      (simp_all add: sample_ports, simp_all add: sample_ep_def)
  ultimately show ?thesis by blast
qed

text \<open>
  Addresses are sticky: when endpoints come and go, one that stays keeps the address the previous
  assignment gave it.
\<close>
theorem raw_addresses_sticky:
  assumes "finite taken" and "card taken + total_ports old < 65534" and "distinct (map re_domain old)"
    and "distinct (map re_domain new)" and "\<forall>e\<in>set new. re_domain e \<in> re_domain ` set old \<longrightarrow> e \<in> set old"
    and "ep \<in> set old" and "ep \<in> set new"
  shows "map_of (assign digest new (assign digest old previous taken) taken) (re_domain ep) =
    map_of (assign digest old previous taken) (re_domain ep)"
proof (rule assign_sticky_aux [OF assms(4,7)])
  let ?t = "assign digest old previous taken"
  note spec = assign_spec [OF assms(1-3), of _ digest previous]
  have gone: "map_of ?t k = None" if "k \<notin> re_domain ` set old" for k
    using that by (simp add: assign_def assigned_other)
  have old: "e \<in> set old" if "e \<in> set new" "map_of ?t (re_domain e) = Some i" for e i
    using that gone assms(5) by (metis option.distinct(1))
  show "bt_has ?t (re_domain ep)" using spec [OF assms(6)] by (auto simp: bt_has_iff)
  show "\<forall>e\<in>set new. \<forall>i. map_of ?t (re_domain e) = Some i \<longrightarrow> free_at (endpoint_ports e) taken i"
    using spec old unfolding free_at_def by (metis option.inject)
  show "\<forall>e\<in>set new. \<forall>f\<in>set new. \<forall>i. e \<noteq> f \<longrightarrow> set (endpoint_ports e) \<inter> set (endpoint_ports f) \<noteq> {} \<longrightarrow>
      map_of ?t (re_domain e) = Some i \<longrightarrow> map_of ?t (re_domain f) \<noteq> Some i"
  proof (intro ballI allI impI)
    fix e f i
    assume ef: "e \<in> set new" "f \<in> set new" "e \<noteq> f" "set (endpoint_ports e) \<inter> set (endpoint_ports f) \<noteq> {}"
      and i: "map_of ?t (re_domain e) = Some i"
    show "map_of ?t (re_domain f) \<noteq> Some i"
    proof
      assume "map_of ?t (re_domain f) = Some i"
      then have "f \<in> set old" and "e \<in> set old" using old ef i by auto
      with spec [of e] ef i \<open>map_of ?t (re_domain f) = Some i\<close> show False by auto
    qed
  qed
qed

theorem raw_addresses_sticky_witness:
  "map_of (assign (\<lambda>_. replicate 32 7) [sample_ep ''0'', sample_ep ''a'']
       (assign (\<lambda>_. replicate 32 7) [sample_ep ''a'', sample_ep ''b''] [] {}) {}) ''a'' =
   map_of (assign (\<lambda>_. replicate 32 7) [sample_ep ''a'', sample_ep ''b''] [] {}) ''a''"
proof -
  have dom: "re_domain (sample_ep n) = n" for n by (simp add: sample_ep_def)
  show ?thesis
    using raw_addresses_sticky [of "{}" "[sample_ep ''a'', sample_ep ''b'']" "[sample_ep ''0'', sample_ep ''a'']"
        "sample_ep ''a''" "\<lambda>_. replicate 32 7" "[]"]
    by (simp add: sample_ports dom)
qed

text \<open>
  An application of the forwarder that succeeds leaves it listening on exactly the desired
  addresses, each forwarding to its latest host port, less the ones it reports as held by another
  program, and leaves a loopback alias for exactly the addresses it listens on.
\<close>
theorem forwarder_matches_routes:
  assumes "fw_wf fw" and "fw_apply os routes fw = (Inr busy, fw')"
  shows "(\<forall>a. map_of (fw_listeners fw') a = (if a \<in> set busy then None else map_of (desired_listeners routes) a)) \<and>
    set busy \<subseteq> route_addr ` set routes \<and> fw_aliases fw' = fst ` fst ` set (fw_listeners fw')"
  using fw_apply_spec [OF assms] desired_listeners_has [of routes] by blast

theorem forwarder_matches_routes_witness:
  "\<exists>fw'. fw_apply \<lparr>os_add_alias = (\<lambda>_. Done), os_bind = (\<lambda>a. if snd a = 80 then InUse else Done)\<rparr>
     [\<lparr>rs_virtual_ip = 1, rs_container_port = 80, rs_host_port = 5001\<rparr>,
      \<lparr>rs_virtual_ip = 1, rs_container_port = 81, rs_host_port = 5002\<rparr>] no_listeners = (Inr [(1, 80)], fw') \<and>
     map_of (fw_listeners fw') (1, 80) = None \<and> map_of (fw_listeners fw') (1, 81) = Some 5002"
proof -
  let ?os = "\<lparr>os_add_alias = (\<lambda>_. Done), os_bind = (\<lambda>a. if snd a = 80 then InUse else Done)\<rparr>"
  let ?rs = "[\<lparr>rs_virtual_ip = 1, rs_container_port = 80, rs_host_port = 5001\<rparr>,
      \<lparr>rs_virtual_ip = 1, rs_container_port = 81, rs_host_port = 5002\<rparr>]"
  have d: "desired_listeners ?rs = [((1, 80), 5001), ((1, 81), 5002)]"
    by (simp add: desired_listeners_def bt_of_list_def bt_insert_def)
  obtain fw' where fw': "fw_apply ?os ?rs no_listeners = (Inr [(1, 80)], fw')"
    unfolding fw_apply_def d
    by (simp add: fw_apply_one_def fw_listen_def no_listeners_def bt_has_def bt_retain_def)
  have "fw_wf no_listeners" by (simp add: fw_wf_def no_listeners_def)
  from forwarder_matches_routes [OF this fw', THEN conjunct1, rule_format] d
  have "map_of (fw_listeners fw') (1, 80) = None \<and> map_of (fw_listeners fw') (1, 81) = Some 5002" by simp
  with fw' show ?thesis by blast
qed

text \<open>
  Reconciling ends after at most eight rounds, and when it reports success every desired route
  that nothing listens on is one whose address is now recorded as taken, so the next assignment moves it.
\<close>
theorem reconcile_serves_routes:
  assumes "fw_wf (rn_forwarder rn)" and "raw_reconcile digest os es rn = (Inr (), rn')"
  shows "\<forall>r\<in>set (snd (route_health rn')). route_addr r \<in> rn_taken rn'"
proof -
  have "MAX_ROUNDS = Suc 7" by (simp add: MAX_ROUNDS_def)
  then show ?thesis
    using reconcile_rounds_ok [OF assms(1)] assms(2) unfolding raw_reconcile_def by metis
qed

definition sample_net :: raw_net where
  "sample_net = raw_init\<lparr>rn_assignments := [(''a'', 2145320961)]\<rparr>"

definition sample_os :: "nat \<Rightarrow> os_calls" where
  "sample_os _ = \<lparr>os_add_alias = (\<lambda>_. Done), os_bind = (\<lambda>_. Done)\<rparr>"

lemma sample_assign: "assign d [sample_ep ''a''] [(''a'', 2145320961)] {} = [(''a'', 2145320961)]"
  by (simp add: assign_def assign_order_def bt_has_def assign_one_def pick_ip_preferred free_at_def
      bt_insert_def sample_ep_def [of "''a''"])

lemma sample_routes: "routes_for d [sample_ep ''a''] [(''a'', 2145320961)] =
    [\<lparr>rs_virtual_ip = 2145320961, rs_container_port = 80, rs_host_port = 5001\<rparr>]"
  by (simp add: routes_for_def sample_ep_def parse_u16_def parse_bounded_def is_digit_def code_def
      digits_value_def digit_value_def)

theorem reconcile_serves_routes_witness:
  "set (snd (route_health (snd (raw_reconcile (\<lambda>_. replicate 32 7) sample_os [sample_ep ''a''] sample_net)))) = {}"
proof -
  let ?fin = "snd (raw_reconcile (\<lambda>_. replicate 32 7) sample_os [sample_ep ''a''] sample_net)"
  have e: "raw_reconcile (\<lambda>_. replicate 32 7) sample_os [sample_ep ''a''] sample_net = (Inr (), ?fin)"
    and t: "rn_taken ?fin = {}"
    by (simp_all add: raw_reconcile_def MAX_ROUNDS_def numeral_eq_Suc reconcile_round_def fw_apply_def
        sample_net_def raw_init_def no_listeners_def desired_listeners_def sample_assign sample_routes
        bt_of_list_def bt_insert_def bt_retain_def drop_unused_aliases_def fw_apply_one_def fw_listen_def
        sample_os_def bt_has_def)
  have "fw_wf (rn_forwarder sample_net)" by (simp add: sample_net_def raw_init_def no_listeners_def fw_wf_def)
  from reconcile_serves_routes [OF this e] t show ?thesis by auto
qed

end
