(* ===== verification/Network_Claims.thy ===== *)
theory Network_Claims
  imports Effects_Props RawNet_Claims
begin

text \<open>
  The properties of name resolution, of the managed hosts block and of the effects that keep the
  outside world in step with the state.
\<close>

section \<open>Routes\<close>

definition serves :: "states \<Rightarrow> string \<Rightarrow> container_info \<Rightarrow> port_route \<Rightarrow> bool" where
  "serves states w c r \<longleftrightarrow>
     (\<exists>s. (w, s) \<in> set states \<and> c \<in> set (env_containers s)) \<and> is_running c \<and> r \<in> set (cd_routes (ci_desired c))"

definition target_of :: "string \<Rightarrow> container_info \<Rightarrow> port_route \<Rightarrow> route_target" where
  "target_of w c r = \<lparr>rt_workspace = w, rt_node_id = ci_node_id c, rt_port = live_host_port c r\<rparr>"

lemma host_rules_iff:
  "(d, wild, t) \<in> set (host_rules states) \<longleftrightarrow>
     (\<exists>w c r. serves states w c r \<and> d = pr_domain r \<and> wild = pr_wildcard r \<and> t = target_of w c r)"
  by (auto simp: host_rules_def serves_def target_of_def image_iff Bex_def)

lemma rule_names_match:
  "rule_names host (pr_domain r, pr_wildcard r, b) \<longleftrightarrow> exact_match host r \<or> wildcard_match host r"
  by (auto simp: exact_match_def wildcard_match_def)

text \<open>
  A name resolves exactly when a running container has a route for it, to such a container at its
  live port; a wildcard route is used only when no running container of any workspace claims the name
  exactly.
\<close>
theorem resolve_route_spec:
  "case resolve_route states host of
     None \<Rightarrow> \<not> (\<exists>w c r. serves states w c r \<and> (exact_match host r \<or> wildcard_match host r))
   | Some t \<Rightarrow> \<exists>w c r. serves states w c r \<and> t = target_of w c r \<and>
       (exact_match host r \<or>
        wildcard_match host r \<and> \<not> (\<exists>w' c' r'. serves states w' c' r' \<and> exact_match host r'))"
proof (cases "resolve_route states host")
  case None
  then have "\<not> rule_names host x" if "x \<in> set (host_rules states)" for x
    using that host.lookup_None by blast
  then have "\<not> rule_names host (pr_domain r, pr_wildcard r, target_of w c r)" if "serves states w c r" for w c r
    using that host_rules_iff by blast
  then have "\<not> (\<exists>w c r. serves states w c r \<and> (exact_match host r \<or> wildcard_match host r))"
    unfolding rule_names_match by blast
  with None show ?thesis by simp
next
  case (Some t)
  have no_exact: "\<not> (\<exists>w' c' r'. serves states w' c' r' \<and> exact_match host r')"
    if "\<forall>b'. (host, False, b') \<notin> set (host_rules states)"
    using that by (auto simp: host_rules_iff exact_match_def)
  from host.lookup_SomeD [OF Some] show ?thesis
  proof
    assume "(host, False, t) \<in> set (host_rules states)"
    then show ?thesis using Some by (auto simp: host_rules_iff exact_match_def)
  next
    assume "\<exists>d. (d, True, t) \<in> set (host_rules states) \<and> matches_suffix host d \<and>
      (\<forall>b'. (host, False, b') \<notin> set (host_rules states))"
    then obtain d where d: "(d, True, t) \<in> set (host_rules states)" "matches_suffix host d"
      and none: "\<forall>b'. (host, False, b') \<notin> set (host_rules states)" by blast
    then obtain w c r where "serves states w c r" "d = pr_domain r" "pr_wildcard r" "t = target_of w c r"
      by (auto simp: host_rules_iff)
    with d(2) no_exact [OF none] Some show ?thesis by (auto simp: wildcard_match_def)
  qed
qed

lemma two_pass_map:
  "two_pass (map (\<lambda>(d, w, b). (d, w, f b)) rules) host = map_option f (two_pass rules host)"
proof -
  have "find_map (pick host) (map (\<lambda>(d, w, b). (d, w, f b)) rules) = map_option f (find_map (pick' host) rules)"
    if "\<And>d w b. pick host (d, w, f b) = map_option f (pick' host (d, w, b))" for pick pick' :: "string \<Rightarrow> _"
    using that by (induction rules) (auto split: option.splits)
  from this [of exact_rule exact_rule] this [of wildcard_rule wildcard_rule]
  show ?thesis by (simp add: two_pass_def split: option.splits)
qed

definition sidecar_sees :: "container_info \<Rightarrow> bool" where
  "sidecar_sees c \<longleftrightarrow> is_running c \<and> ci_node_id c \<noteq> [] \<and>
     (\<forall>r\<in>set (cd_routes (ci_desired c)). parse_u16 (hd (split_char (pr_container_port r) (CHR ''/''))) \<noteq> None)"

lemma rules_agree:
  assumes "\<forall>c\<in>set cs. sidecar_sees c"
  shows "map (\<lambda>(d, wc, b). (d, wc, Some (rt_node_id b)))
      (concat (map (\<lambda>c. map (\<lambda>r. (pr_domain r, pr_wildcard r, target_of w c r)) (cd_routes (ci_desired c)))
        (filter is_running cs))) =
    map (\<lambda>(d, wc, b). (d, wc, be_traffic b)) (sidecar_rules (route_file_entries cs))"
  using assms
proof (induction cs)
  case Nil
  then show ?case by (simp add: sidecar_rules_def route_file_entries_def)
next
  case (Cons c cs)
  have c: "sidecar_sees c" and cs: "\<forall>c\<in>set cs. sidecar_sees c" using Cons.prems by auto
  have split: "sidecar_rules (route_file_entries (c # cs)) =
      sidecar_rules (route_file_entries [c]) @ sidecar_rules (route_file_entries cs)"
    by (simp add: sidecar_rules_def route_file_entries_def)
  have one: "map (\<lambda>(d, wc, b). (d, wc, Some (rt_node_id b)))
      (map (\<lambda>r. (pr_domain r, pr_wildcard r, target_of w c r)) rs) =
    map (\<lambda>(d, wc, b). (d, wc, be_traffic b)) (sidecar_rules (filter_map (route_file_entry_of c) rs))"
    if "\<forall>r\<in>set rs. parse_u16 (hd (split_char (pr_container_port r) (CHR ''/''))) \<noteq> None" for rs
    using that c by (induction rs)
      (auto simp: sidecar_rules_def route_file_entry_of_def target_of_def entry_backend_def sidecar_sees_def)
  have single: "sidecar_rules (route_file_entries [c]) =
      sidecar_rules (filter_map (route_file_entry_of c) (cd_routes (ci_desired c)))"
    by (simp add: route_file_entries_def)
  show ?case
    using one [of "cd_routes (ci_desired c)"] Cons.IH [OF cs] c
    unfolding split single by (simp add: sidecar_sees_def)
qed


definition routed_container :: container_info where
  "routed_container = (sample_container ''web'')\<lparr>ci_desired := sample_desired\<lparr>cd_routes :=
     [\<lparr>pr_domain = ''web.fghj.internal'', pr_host_port = 5001, pr_wildcard = False,
       pr_container_port = ''80'', pr_https = True\<rparr>,
      \<lparr>pr_domain = ''web.local'', pr_host_port = 5001, pr_wildcard = False,
       pr_container_port = ''80'', pr_https = True\<rparr>],
     cd_additional_hosts := [''web.local'']\<rparr>\<rparr>"

definition routed_state :: workspace_state where
  "routed_state = sample_idle\<lparr>ws_env := Some (sample_env\<lparr>es_containers := [(''web'', routed_container)]\<rparr>)\<rparr>"

lemma routed_containers: "env_containers routed_state = [routed_container]"
  by (simp add: routed_state_def env_containers_def bt_values_def)

lemma routed_running: "is_running routed_container" "ci_node_id routed_container = ''web''"
  by (simp_all add: routed_container_def is_running_def sample_defs)

lemma routed_host: "resolve_route [(''ws'', routed_state)] ''web.local'' =
    Some \<lparr>rt_workspace = ''ws'', rt_node_id = ''web'', rt_port = 5001\<rparr>"
  by (simp add: resolve_route_def find_route_def routed_containers routed_running exact_match_def live_host_port_def)
    (simp add: routed_container_def sample_defs live_host_port_def exact_match_def)


text \<open>
  A name the proxy routes can be looked up: in the zone or under a running wildcard it is answered
  by DNS with the proxy's address, and an exact alias outside the zone is in the managed hosts, as
  long as such an alias is also among its container's additional hosts.
\<close>
theorem routed_names_resolve:
  assumes "resolve_route states host = Some t"
    and "\<forall>c\<in>set (running_containers states). \<forall>r\<in>set (cd_routes (ci_desired c)).
      pr_wildcard r \<or> in_zone (pr_domain r) \<or> pr_domain r \<in> set (cd_additional_hosts (ci_desired c))"
  shows "host_answer digest table states host = Some PROXY_IP \<or> host \<in> set (extract_hosts states)"
proof -
  from resolve_route_spec [of states host] assms(1) obtain w c r where srv: "serves states w c r"
    and m: "exact_match host r \<or> wildcard_match host r" by auto
  have c: "c \<in> set (running_containers states)"
    using srv by (force simp: serves_def running_containers_def bt_values_def)
  have r: "r \<in> set (cd_routes (ci_desired c))" using srv by (simp add: serves_def)
  from m show ?thesis
  proof
    assume "wildcard_match host r"
    then have "pr_domain r \<in> set (wildcard_suffixes states)" "matches_zone host (pr_domain r)"
      using c r by (auto simp: wildcard_suffixes_def wildcard_match_def matches_suffix_def matches_zone_def)
    then show ?thesis by (auto simp: host_answer_def list_ex_iff)
  next
    assume "exact_match host r"
    then have "\<not> pr_wildcard r" "host = pr_domain r" by (auto simp: exact_match_def)
    with assms(2) c r have "in_zone host \<or> host \<in> set (cd_additional_hosts (ci_desired c))" by auto
    then show ?thesis using c by (auto simp: host_answer_def extract_hosts_def)
  qed
qed

theorem routed_names_resolve_witness:
  "host_answer (\<lambda>_. replicate 32 0) [] [(''ws'', routed_state)] ''web.local'' = Some PROXY_IP \<or>
   ''web.local'' \<in> set (extract_hosts [(''ws'', routed_state)])"
proof (rule routed_names_resolve [OF routed_host])
  have "running_containers [(''ws'', routed_state)] = [routed_container]"
    by (simp add: running_containers_def bt_values_def routed_containers routed_running)
  then show "\<forall>c\<in>set (running_containers [(''ws'', routed_state)]). \<forall>r\<in>set (cd_routes (ci_desired c)).
      pr_wildcard r \<or> in_zone (pr_domain r) \<or> pr_domain r \<in> set (cd_additional_hosts (ci_desired c))"
    by (simp add: routed_container_def in_zone_def ends_with_def ZONE_def ZONE_SUFFIX_def)
qed

text \<open>
  DNS alone does not answer for every routed name: an exact alias outside the zone is proxied but
  gets no DNS answer from the host.
\<close>
theorem routed_name_without_dns_answer:
  "resolve_route [(''ws'', routed_state)] ''web.local'' \<noteq> None \<and>
   host_answer digest table [(''ws'', routed_state)] ''web.local'' = None"
proof -
  have r: "running_containers [(''ws'', routed_state)] = [routed_container]"
    by (simp add: running_containers_def bt_values_def routed_containers routed_running)
  have "wildcard_suffixes [(''ws'', routed_state)] = []"
    unfolding wildcard_suffixes_def r by (simp add: routed_container_def sorted_dedup_def)
  then show ?thesis
    using routed_host
    by (simp add: host_answer_def in_zone_def matches_zone_def ends_with_def ZONE_def ZONE_SUFFIX_def ZONE_RAW_def)
qed

section \<open>The managed hosts block\<close>



text \<open>
  A hosts file that cannot be read as text is taken for an empty one: the sync then replaces the
  whole file by the managed block, and no line of the old content survives.
\<close>
theorem unreadable_hosts_file_is_replaced:
  "hosts_sync None (h # hs) = Some (unlines (host_block (sorted_dedup (h # hs))))"
proof -
  have "sorted_dedup (h # hs) \<noteq> []" using set_sorted_dedup [of "h # hs"] by fastforce
  then have "host_block (sorted_dedup (h # hs)) \<noteq> []" by (simp add: host_block_def)
  then have "unlines (host_block (sorted_dedup (h # hs))) \<noteq> []"
    by (cases "host_block (sorted_dedup (h # hs))") (auto simp: unlines_def)
  then show ?thesis
    by (simp add: hosts_sync_def hosts_render_def read_or_default_def lines_def unlines_def [of "[]"] Let_def)
qed

section \<open>Effects\<close>

text \<open>
  The hosts file stays in step with the state: after any sequence of states, with any writes
  failing, the block holds exactly the hosts of the last snapshot the effect recorded as done, which
  is the one it will skip.
\<close>
theorem hosts_effect_in_step:
  assumes "no_cr_lines (hw_file w)" and "\<forall>s\<in>set seen. \<forall>h\<in>set (extract_hosts s). plain_host h"
    and "effect_run extract_hosts hosts_converge w seen = (w', Some hosts)"
  shows "managed_hosts (hw_file w') = sorted_dedup hosts"
  using hosts.run_reflects [OF assms] by (simp add: hosts_reflects_def)

lemma routed_hosts: "extract_hosts [(''ws'', routed_state)] = [''web.local'']"
proof -
  have r: "running_containers [(''ws'', routed_state)] = [routed_container]"
    by (simp add: running_containers_def bt_values_def routed_containers routed_running)
  show ?thesis unfolding extract_hosts_def r by (simp add: routed_container_def sorted_dedup_def)
qed

theorem hosts_effect_in_step_witness:
  "managed_hosts (hw_file (fst (effect_run extract_hosts hosts_converge
     \<lparr>hw_file = Some ''127.0.0.1 localhost'', hw_outcomes = [False]\<rparr>
     [[(''ws'', routed_state)], [(''ws'', routed_state)]]))) = [''web.local'']"
proof -
  let ?w = "\<lparr>hw_file = Some ''127.0.0.1 localhost'', hw_outcomes = [False]\<rparr>"
  let ?seen = "[[(''ws'', routed_state)], [(''ws'', routed_state)]]"
  have cr: "no_cr_lines (hw_file ?w)"
    by (simp add: no_cr_lines_def lines_def read_or_default_def strip_cr_def)
  have plain: "\<forall>s\<in>set ?seen. \<forall>h\<in>set (extract_hosts s). plain_host h"
    by (simp add: routed_hosts plain_host_def is_space_def)
  obtain out where out: "hosts_sync (Some ''127.0.0.1 localhost'') [''web.local''] = Some out"
    by (simp add: hosts_sync_def hosts_render_def read_or_default_def lines_def strip_cr_def unlines_def
        host_block_def sorted_dedup_def Let_def BEGIN_MARKER_def END_MARKER_def trim_def trim_matches_def
        is_space_def host_line_def)
  have "effect_run extract_hosts hosts_converge ?w ?seen =
      (\<lparr>hw_file = Some out, hw_outcomes = []\<rparr>, Some [''web.local''])"
    by (simp add: effect_run_def effect_tick_def routed_hosts hosts_converge_def out next_outcome_def)
  from this hosts_effect_in_step [OF cr plain this] show ?thesis by (simp add: sorted_dedup_def)
qed

text \<open>
  The sidecar's table is that of the last recorded environment: it lists the routes of exactly its
  containers, stopped ones included, and no table is kept for an environment without a network.
\<close>
theorem routes_effect_in_step:
  assumes "effect_run ws_env routes_converge w seen = (w', Some snap)"
  shows "rw_written w' = env_network snap \<and>
    (\<forall>e. snap = Some e \<and> es_network e \<noteq> [] \<longrightarrow>
       map_of (rw_tables w') (es_network e) = Some (route_file_entries (bt_values (es_containers e))))"
  using routes.run_reflects [OF _ _ assms] by (cases snap) (auto simp: routes_reflects_def)

theorem routes_effect_in_step_witness:
  "rw_written (fst (effect_run ws_env routes_converge
     \<lparr>rw_written = None, rw_tables = [], rw_outcomes = []\<rparr>
     [sample_idle\<lparr>ws_env := Some (sample_env\<lparr>es_network := ''net''\<rparr>)\<rparr>])) = Some ''net''"
proof -
  let ?e = "sample_env\<lparr>es_network := ''net''\<rparr>"
  let ?w = "\<lparr>rw_written = None, rw_tables = [], rw_outcomes = []\<rparr>"
  obtain w' where w': "effect_run ws_env routes_converge ?w [sample_idle\<lparr>ws_env := Some ?e\<rparr>] = (w', Some (Some ?e))"
    by (simp add: effect_run_def effect_tick_def routes_converge_def env_network_def write_route_table_def next_outcome_def)
  from routes_effect_in_step [OF w'] w' show ?thesis by (simp add: env_network_def)
qed

text \<open>
  The store never resurrects an environment: after any sequence of states and failed writes, the
  last recorded environment is the one stored, and once it is gone the store is empty (a bare shell
  with no network and no containers is not stored).
\<close>
theorem persist_effect_in_step:
  assumes "pw_written w = (pw_db w \<noteq> None)"
    and "effect_run ws_env persist_converge w seen = (w', Some snap)"
  shows "case snap of
      None \<Rightarrow> pw_db w' = None
    | Some e \<Rightarrow> es_network e = [] \<and> es_containers e = [] \<or> pw_db w' = Some e"
proof -
  have "persist_reflects snap w'" by (rule persist.run_reflects [OF _ _ assms(2)]) (use assms(1) in auto)
  moreover have "pw_written w' = (pw_db w' \<noteq> None)"
    using persist.run_in_step [of w seen] assms unfolding persist.in_step_def by simp
  ultimately show ?thesis by (auto simp: persist_reflects_def split: option.splits)
qed

theorem persist_effect_in_step_witness:
  "pw_db (fst (effect_run ws_env persist_converge
     \<lparr>pw_db = None, pw_written = False, pw_outcomes = [True, False]\<rparr>
     [sample_idle, sample_idle\<lparr>ws_env := None\<rparr>, sample_idle\<lparr>ws_env := None, ws_path := ''/x''\<rparr>])) = None"
proof -
  let ?w = "\<lparr>pw_db = None, pw_written = False, pw_outcomes = [True, False]\<rparr>"
  let ?seen = "[sample_idle, sample_idle\<lparr>ws_env := None\<rparr>, sample_idle\<lparr>ws_env := None, ws_path := ''/x''\<rparr>]"
  obtain w' where w': "effect_run ws_env persist_converge ?w ?seen = (w', Some None)"
    by (simp add: effect_run_def effect_tick_def persist_converge_def next_outcome_def sample_idle_def
        sample_env_def Let_def)
  from persist_effect_in_step [OF _ w'] w' show ?thesis by simp
qed

section \<open>Raw ports after a failure\<close>

lemma probe_zero: "probe (slot_of (virtual_ip_for digest n)) 0 = virtual_ip_for digest n"
proof -
  have "slot_of (POOL_BASE + (1 + h mod (POOL_SIZE - 2))) = h mod (POOL_SIZE - 2)" for h :: "32 word"
    by (simp add: slot_of_def)
  moreover have "h mod m mod m = h mod m" for h m :: "32 word"
    by (simp add: word_unat_eq_iff unat_mod_distrib)
  ultimately show ?thesis by (simp add: probe_def virtual_ip_for_def Let_def add.assoc)
qed

lemma pick_ip_naive:
  assumes "free_at ports claimed (virtual_ip_for digest n)"
  shows "pick_ip None (virtual_ip_for digest n) ports claimed = virtual_ip_for digest n"
proof -
  have "[0..<65534] = 0 # [1..<65534]" by (subst upt_conv_Cons) simp_all
  then show ?thesis using assms by (simp only: pick_ip_def unat_pool) (simp add: probe_zero)
qed

lemma assign_newcomer:
  assumes "\<not> bt_has previous n"
  shows "assign digest [sample_ep n] previous {} = [(n, virtual_ip_for digest n)]"
proof -
  have "map_of previous n = None" using assms by (simp add: bt_has_iff)
  then show ?thesis
    using assms pick_ip_naive [of "endpoint_ports (sample_ep n)" "{}" digest n]
    by (simp add: assign_def assign_order_def assign_one_def bt_insert_def free_at_def Let_def)
      (simp add: sample_ep_def bt_insert_def)
qed


definition refusing_os :: "nat \<Rightarrow> os_calls" where
  "refusing_os _ = \<lparr>os_add_alias = (\<lambda>_. Done), os_bind = (\<lambda>_. Failed ''permission denied'')\<rparr>"

lemma routes_assigned:
  "routes_for d [sample_ep n] [(n, i)] = [\<lparr>rs_virtual_ip = i, rs_container_port = 80, rs_host_port = 5001\<rparr>]"
  by (simp add: routes_for_def sample_ep_def parse_u16_def parse_bounded_def is_digit_def code_def
      digits_value_def digit_value_def)

lemma desired_one: "desired_listeners [\<lparr>rs_virtual_ip = i, rs_container_port = 80, rs_host_port = 5001\<rparr>] = [((i, 80), 5001)]"
  by (simp add: desired_listeners_def bt_of_list_def bt_insert_def)

lemma reconcile_willing:
  assumes "\<not> bt_has (rn_assignments rn) n" and "rn_taken rn = {}" and "rn_forwarder rn = no_listeners"
  shows "raw_reconcile digest willing_os [sample_ep n] rn =
    (Inr (), rn\<lparr>rn_assignments := [(n, virtual_ip_for digest n)],
       rn_desired := [\<lparr>rs_virtual_ip = virtual_ip_for digest n, rs_container_port = 80, rs_host_port = 5001\<rparr>],
       rn_forwarder := \<lparr>fw_listeners = [((virtual_ip_for digest n, 80), 5001)], fw_aliases = {virtual_ip_for digest n}\<rparr>\<rparr>)"
  using assms
  by (simp add: raw_reconcile_def MAX_ROUNDS_def numeral_eq_Suc reconcile_round_def assign_newcomer
      routes_assigned fw_apply_def desired_one no_listeners_def bt_retain_def fw_apply_one_def fw_listen_def
      bt_has_def willing_os_def drop_unused_aliases_def bt_insert_def Let_def)

lemma reconcile_refused:
  assumes "\<not> bt_has (rn_assignments rn) n" and "rn_taken rn = {}"
    and "fw_listeners (rn_forwarder rn) = [((i, 80), 5001)]" and "i \<noteq> virtual_ip_for digest n"
  shows "\<exists>e rn'. raw_reconcile digest refusing_os [sample_ep n] rn = (Inl e, rn') \<and>
    fw_listeners (rn_forwarder rn') = []"
  using assms
  by (simp add: raw_reconcile_def MAX_ROUNDS_def numeral_eq_Suc reconcile_round_def assign_newcomer
      routes_assigned fw_apply_def desired_one no_listeners_def bt_retain_def fw_apply_one_def fw_listen_def
      bt_has_def refusing_os_def drop_unused_aliases_def bt_insert_def Let_def)

text \<open>
  The raw-port effect is not in step after a failure: node \<open>a\<close> is served, then node \<open>b\<close> replaces
  it and its address cannot be bound, then \<open>a\<close> is back as before. The failed application has dropped
  the listener of \<open>a\<close>, and since the snapshot is the last recorded one it is skipped: the effect
  records \<open>a\<close> as served and nothing listens.
\<close>
theorem raw_effect_loses_listeners:
  assumes "virtual_ip_for digest a \<noteq> virtual_ip_for digest b" and "a \<noteq> b"
  shows "\<exists>w'. effect_run id (raw_net_converge digest) \<lparr>rawn_net = raw_init, rawn_os = [willing_os, refusing_os, willing_os]\<rparr>
      [[sample_ep a], [sample_ep b], [sample_ep a]] = (w', Some [sample_ep a]) \<and>
    fw_listeners (rn_forwarder (rawn_net w')) = []"
proof -
  let ?w = "\<lparr>rawn_net = raw_init, rawn_os = [willing_os, refusing_os, willing_os]\<rparr>"
  obtain rn1 where r1: "raw_reconcile digest willing_os [sample_ep a] raw_init = (Inr (), rn1)"
    and rn1: "rn_assignments rn1 = [(a, virtual_ip_for digest a)]" "rn_taken rn1 = {}"
      "fw_listeners (rn_forwarder rn1) = [((virtual_ip_for digest a, 80), 5001)]"
    by (simp add: reconcile_willing raw_init_def bt_has_def)
  obtain e rn2 where r2: "raw_reconcile digest refusing_os [sample_ep b] rn1 = (Inl e, rn2)"
    and rn2: "fw_listeners (rn_forwarder rn2) = []"
    using reconcile_refused [of rn1 b "virtual_ip_for digest a" digest] rn1 assms by (auto simp: bt_has_def)
  have ab: "sample_ep a \<noteq> sample_ep b" using assms(2) by (simp add: sample_ep_def)
  show ?thesis
    using r1 r2 rn2 ab
    by (simp add: effect_run_def effect_tick_def raw_net_converge_def Let_def)
qed

theorem raw_effect_loses_listeners_witness:
  "\<exists>w'. effect_run id (raw_net_converge (\<lambda>n. if n = ''a'' then [0, 0, 0, 1] else [0, 0, 0, 2]))
      \<lparr>rawn_net = raw_init, rawn_os = [willing_os, refusing_os, willing_os]\<rparr>
      [[sample_ep ''a''], [sample_ep ''b''], [sample_ep ''a'']] = (w', Some [sample_ep ''a'']) \<and>
    fw_listeners (rn_forwarder (rawn_net w')) = []"
  by (rule raw_effect_loses_listeners)
    (simp_all add: virtual_ip_for_def ipv4_def POOL_SIZE_def POOL_BASE_def)

end
