(* ===== verification/Observe.thy ===== *)
theory Observe
  imports Orchestrate_Runs Actor_Props
begin

text \<open>
  What Docker says of the containers of a workspace, and how it reaches the state: one look
  (\<open>src/orchestrator/observe.rs\<close>), the reports it makes (\<open>src/effects/docker/observe.rs\<close>, \<open>volumes.rs\<close>), and the state a
  daemon begins with (\<open>src/persistence/rehydrate.rs\<close>).
\<close>

section \<open>One look\<close>

datatype sidecar_seen = SidecarRunning | SidecarDown | SidecarUnknown

record observation =
  ob_containers :: "(node_id, container_observed) btree"
  ob_sidecar :: sidecar_seen

definition read_ports :: "(string, port option) btree \<Rightarrow> container_status option \<Rightarrow> (string, port option) btree" where
  "read_ports known inspected =
     (if known = [] then
        bt_of_list (case inspected of
          None \<Rightarrow> []
        | Some s \<Rightarrow> map (\<lambda>(port, host). (port, Some host)) (published_ports s))
      else bt_map (\<lambda>port _. case inspected of None \<Rightarrow> None | Some s \<Rightarrow> host_port_of s port) known)"

definition read_container :: "(string, container_status) btree \<Rightarrow> container_info \<Rightarrow> container_observed" where
  "read_container listed c =
     (let inspected = map_of listed (cd_container_name (ci_desired c));
          host_port = (\<lambda>port. case inspected of None \<Rightarrow> None | Some s \<Rightarrow> host_port_of s port)
      in (ci_observed c)
           \<lparr>co_status := (case inspected of Some s \<Rightarrow> cts_status s | None \<Rightarrow> ''removed''),
            co_published_port := (case cd_status_port (ci_desired c) of None \<Rightarrow> None | Some port \<Rightarrow> host_port port),
            co_ports := read_ports (co_ports (ci_observed c)) inspected,
            co_exit_code := (case inspected of Some s \<Rightarrow> cts_exit_code s | None \<Rightarrow> None),
            co_unseen := False\<rparr>)"

definition read_sidecar :: "(string, container_status) btree \<Rightarrow> env_state \<Rightarrow> sidecar_seen" where
  "read_sidecar listed env =
     (if es_sidecar_container_name env = [] then SidecarUnknown
      else case map_of listed (es_sidecar_container_name env) of
             Some s \<Rightarrow> if cts_status s = ''running'' then SidecarRunning else SidecarDown
           | None \<Rightarrow> SidecarDown)"

definition observation_of :: "(string, container_status) btree option \<Rightarrow> env_state \<Rightarrow> observation" where
  "observation_of listed env =
     (case listed of
        None \<Rightarrow> \<lparr>ob_containers = bt_map (\<lambda>_ c. (ci_observed c)\<lparr>co_unseen := True\<rparr>) (es_containers env),
                 ob_sidecar = SidecarUnknown\<rparr>
      | Some listed \<Rightarrow> \<lparr>ob_containers = bt_map (\<lambda>_ c. read_container listed c) (es_containers env),
                        ob_sidecar = read_sidecar listed env\<rparr>)"

definition observe :: "'w api \<Rightarrow> env_state \<Rightarrow> ('w, observation) state" where
  "observe A env = do {
     listed \<leftarrow> list_statuses A (es_network env);
     State_Monad.return (observation_of (case listed of Inl _ \<Rightarrow> None | Inr m \<Rightarrow> Some m) env) }"

definition volume_names :: "'w api \<Rightarrow> string \<Rightarrow> ('w, string list) state" where
  "volume_names A workspace_name = do {
     r \<leftarrow> list_volumes A workspace_name;
     State_Monad.return (case r of Inl _ \<Rightarrow> [] | Inr names \<Rightarrow> names) }"

section \<open>Drift\<close>

record drift_report =
  dr_node_id :: node_id
  dr_sync :: sync_status
  dr_seeded :: "bool option"

definition seeded :: "'w api \<Rightarrow> graph \<Rightarrow> node \<Rightarrow> ('w host, bool) state" where
  "seeded A g n = do { at \<leftarrow> seeded_at A g n; State_Monad.return (at \<noteq> None) }"

definition drift_of :: "'w api \<Rightarrow> orchestrator \<Rightarrow> graph \<Rightarrow> container_info \<Rightarrow> ('w host, drift_report) state" where
  "drift_of A orc g c =
     (let n = find (\<lambda>n. n_id n = ci_node_id c) (g_nodes g) in do {
        kept \<leftarrow> (case n of
          Some n \<Rightarrow> if n_seeds n \<noteq> [] then do { s \<leftarrow> seeded A g n; State_Monad.return (Some s) }
                    else State_Monad.return None
        | None \<Rightarrow> State_Monad.return None);
        sync \<leftarrow> (case n of
          None \<Rightarrow> State_Monad.return Orphaned
        | Some n \<Rightarrow> do {
            spec \<leftarrow> world (resolve_node_spec A orc g n False);
            State_Monad.return (case spec of
                Inl _ \<Rightarrow> Unknown
              | Inr spec \<Rightarrow> if spec_hash A n spec = cd_config_hash (ci_desired c) then Synced else Drifted) });
        State_Monad.return \<lparr>dr_node_id = ci_node_id c, dr_sync = sync, dr_seeded = kept\<rparr> })"

definition config_drift :: "'w api \<Rightarrow> orchestrator \<Rightarrow> graph \<Rightarrow> env_state \<Rightarrow> ('w host, drift_report list) state" where
  "config_drift A orc g env =
     each (\<lambda>c reports. do { r \<leftarrow> drift_of A orc g c; State_Monad.return (reports @ [r]) })
       (bt_values (es_containers env)) []"

section \<open>Reports\<close>

definition container_report :: "node_id \<Rightarrow> container_observed \<Rightarrow> container_observed \<Rightarrow> action" where
  "container_report n observed based_on =
     ContainerObserved n (co_status observed) (co_published_port observed) (co_ports observed) (co_exit_code observed)
       (co_unseen observed) based_on"

definition observation_reports :: "env_state \<Rightarrow> observation \<Rightarrow> action list" where
  "observation_reports env ob =
     filter_map (\<lambda>(n, observed). map_option (\<lambda>c. container_report n observed (ci_observed c)) (map_of (es_containers env) n))
       (ob_containers ob)"

definition volume_reports :: "string list \<Rightarrow> action list" where
  "volume_reports names = map (\<lambda>name. VolumeObserved name True) names"

definition drift_action :: "drift_report \<Rightarrow> action" where
  "drift_action r = ConfigDriftObserved (dr_node_id r) (dr_sync r) (dr_seeded r)"

text \<open>What is dispatched after one look at the state, and the verdict on the sidecar.\<close>

definition report :: "'w api \<Rightarrow> string \<Rightarrow> workspace_state \<Rightarrow> ('w, action list \<times> sidecar_seen) state" where
  "report A workspace_name current =
     (case ws_env current of
        None \<Rightarrow> State_Monad.return ([], SidecarUnknown)
      | Some env \<Rightarrow> do {
          ob \<leftarrow> observe A env;
          names \<leftarrow> volume_names A workspace_name;
          State_Monad.return (observation_reports env ob @ volume_reports names, ob_sidecar ob) })"

definition report_config_drift ::
  "'w api \<Rightarrow> orchestrator \<Rightarrow> graph \<Rightarrow> workspace_state \<Rightarrow> ('w host, action list) state" where
  "report_config_drift A orc g current =
     (case ws_env current of
        None \<Rightarrow> State_Monad.return []
      | Some env \<Rightarrow> do {
          reports \<leftarrow> config_drift A orc g env;
          State_Monad.return (map drift_action reports) })"

section \<open>The first state\<close>

definition rehydrated_observed :: "container_observed \<Rightarrow> container_status option result \<Rightarrow> container_observed" where
  "rehydrated_observed r reading =
     (let was_up = is_up r \<or> co_unseen r in
      case reading of
        Inl _ \<Rightarrow> r\<lparr>co_unseen := True\<rparr>
      | Inr (Some s) \<Rightarrow>
          settle_interruption (r\<lparr>co_status := cts_status s, co_exit_code := cts_exit_code s, co_unseen := False\<rparr>) was_up
      | Inr None \<Rightarrow>
          settle_interruption (r\<lparr>co_status := ''removed'', co_exit_code := None, co_unseen := False\<rparr>) was_up)"

definition rehydrate_one ::
  "'w api \<Rightarrow> node_id \<times> container_info \<Rightarrow> (node_id, container_info) btree \<Rightarrow> ('w, (node_id, container_info) btree) state" where
  "rehydrate_one A entry cs = (case entry of (n, c) \<Rightarrow> do {
     reading \<leftarrow> inspect_status A (cd_container_name (ci_desired c));
     State_Monad.return (cs @ [(n, c\<lparr>ci_observed := rehydrated_observed (ci_observed c) reading\<rparr>)]) })"

definition rehydrate :: "'w api \<Rightarrow> env_state option result \<Rightarrow> ('w, env_state option) fallible" where
  "rehydrate A loaded =
     (case loaded of
        Inl e \<Rightarrow> fails e
      | Inr None \<Rightarrow> ok None
      | Inr (Some env) \<Rightarrow> do {
          cs \<leftarrow> each (rehydrate_one A) (es_containers env) [];
          ok (Some (env\<lparr>es_containers := cs\<rparr>)) })"

section \<open>What the reports do\<close>

text \<open>A report changes the reading of its own container, and nothing of a container with another reading than the one it was based on.\<close>

definition taken :: "container_observed \<Rightarrow> container_observed \<Rightarrow> container_info \<Rightarrow> container_info" where
  "taken observed based_on =
     take_reading (co_status observed) (co_published_port observed) (co_ports observed) (co_exit_code observed)
       (co_unseen observed) based_on"

lemma container_report_step:
  assumes "ws_env s = Some e"
  shows "actor_step s (container_report n observed based_on) =
    Some (Inr (), s\<lparr>ws_env := Some (e\<lparr>es_containers := bt_modify n (taken observed based_on) (es_containers e)\<rparr>)\<rparr>)"
  using assms by (simp add: actor_step_def reduce_def container_report_def update_container_def update_env_def taken_def)

lemma container_reports_run:
  "ws_env s = Some e \<Longrightarrow>
     actor_run s (map (\<lambda>(n, observed, based_on). container_report n observed based_on) ps) =
       Some (replicate (length ps) (Inr ()),
         s\<lparr>ws_env := Some (e\<lparr>es_containers := fold (\<lambda>(n, observed, based_on). bt_modify n (taken observed based_on)) ps (es_containers e)\<rparr>)\<rparr>)"
proof (induction ps arbitrary: s e)
  case Nil
  then show ?case by simp
next
  case (Cons p ps)
  obtain n ob b where p: "p = (n, ob, b)" by (cases p)
  let ?e = "e\<lparr>es_containers := bt_modify n (taken ob b) (es_containers e)\<rparr>"
  from Cons.IH [of "s\<lparr>ws_env := Some ?e\<rparr>" ?e] show ?case
    by (simp add: p container_report_step [OF Cons.prems])
qed

lemma volume_reports_run:
  "ws_env s = Some e \<Longrightarrow> \<exists>vs. actor_run s (volume_reports names) =
     Some (replicate (length names) (Inr ()), s\<lparr>ws_env := Some (e\<lparr>es_volumes := vs\<rparr>)\<rparr>)"
proof (induction names arbitrary: s e)
  case Nil
  then show ?case by (intro exI [of _ "es_volumes e"]) (simp add: volume_reports_def)
next
  case (Cons name names)
  let ?e = "observe_volume name True e"
  have "actor_step s (VolumeObserved name True) = Some (Inr (), s\<lparr>ws_env := Some ?e\<rparr>)"
    using Cons.prems by (simp add: actor_step_def reduce_def update_env_def)
  moreover obtain vs where "actor_run (s\<lparr>ws_env := Some ?e\<rparr>) (volume_reports names) =
     Some (replicate (length names) (Inr ()), s\<lparr>ws_env := Some (?e\<lparr>es_volumes := vs\<rparr>)\<rparr>)"
    using Cons.IH [of "s\<lparr>ws_env := Some ?e\<rparr>" ?e] by auto
  ultimately show ?case
    by (intro exI [of _ vs]) (simp add: volume_reports_def observe_volume_def Let_def)
qed

lemma map_of_fold_modify:
  "distinct (map fst fs) \<Longrightarrow>
     map_of (fold (\<lambda>(n, f). bt_modify n f) fs m) k =
       (case map_of fs k of None \<Rightarrow> map_of m k | Some f \<Rightarrow> map_option f (map_of m k))"
proof (induction fs arbitrary: m)
  case (Cons p fs)
  obtain n f where p: "p = (n, f)" by (cases p)
  from Cons.prems have "map_of fs n = None" by (simp add: p map_of_eq_None_iff)
  with Cons show ?case by (simp add: p split: option.splits)
qed simp

text \<open>What a look makes of a container, when nothing else happens to it.\<close>

definition looked_at :: "(string, container_status) btree option \<Rightarrow> container_info \<Rightarrow> container_info" where
  "looked_at listed c =
     (if ci_pending_action c \<noteq> None then c
      else c\<lparr>ci_observed := (case listed of
         None \<Rightarrow> (ci_observed c)\<lparr>co_unseen := True\<rparr>
       | Some listed \<Rightarrow> settle_interruption (read_container listed c) (co_unseen (ci_observed c)))\<rparr>)"

lemma same_reading_refl [simp]: "same_reading r r"
  by (simp add: same_reading_def)

lemma taken_looked_at:
  "taken (case listed of None \<Rightarrow> (ci_observed c)\<lparr>co_unseen := True\<rparr> | Some listed \<Rightarrow> read_container listed c) (ci_observed c) c =
     looked_at listed c"
proof (cases listed)
  case None
  then show ?thesis by (simp add: taken_def take_reading_def looked_at_def Let_def)
next
  case (Some m)
  have "(ci_observed c)\<lparr>co_unseen := False, co_status := co_status (read_container m c),
      co_published_port := co_published_port (read_container m c), co_ports := co_ports (read_container m c),
      co_exit_code := co_exit_code (read_container m c)\<rparr> = read_container m c"
    by (simp add: read_container_def Let_def)
  moreover have "\<not> co_unseen (read_container m c)" by (simp add: read_container_def Let_def)
  ultimately show ?thesis using Some by (simp add: taken_def take_reading_def looked_at_def Let_def)
qed

lemma observation_reports_are:
  assumes "bt_wf (es_containers env)"
  shows "observation_reports env (observation_of listed env) =
    map (\<lambda>(n, observed, based_on). container_report n observed based_on)
      (map (\<lambda>(n, c). (n, (case listed of None \<Rightarrow> (ci_observed c)\<lparr>co_unseen := True\<rparr> | Some listed \<Rightarrow> read_container listed c), ci_observed c))
        (es_containers env))"
proof -
  have "map_of (es_containers env) n = Some c" if "(n, c) \<in> set (es_containers env)" for n c
    using bt_in_set [OF assms] that by blast
  then have "filter_map (\<lambda>(n, observed). map_option (\<lambda>c. container_report n observed (ci_observed c)) (map_of (es_containers env) n))
      (map (\<lambda>e. (fst e, f (snd e))) xs) = map (\<lambda>(n, c). container_report n (f c) (ci_observed c)) xs"
    if "set xs \<subseteq> set (es_containers env)" for xs f
    using that by (induction xs) auto
  from this [of "es_containers env" "\<lambda>c. case listed of None \<Rightarrow> (ci_observed c)\<lparr>co_unseen := True\<rparr> | Some listed \<Rightarrow> read_container listed c"]
  show ?thesis
    by (cases listed) (simp_all add: observation_reports_def observation_of_def bt_map_def comp_def case_prod_beta)
qed

lemma reports_look_at_all:
  assumes env: "ws_env s = Some env" and wf: "bt_wf (es_containers env)"
  shows "\<exists>cs vs. actor_run s (observation_reports env (observation_of listed env) @ volume_reports names) =
      Some (replicate (length (es_containers env) + length names) (Inr ()),
        s\<lparr>ws_env := Some (env\<lparr>es_containers := cs, es_volumes := vs\<rparr>)\<rparr>) \<and>
    (\<forall>n. map_of cs n = map_option (looked_at listed) (map_of (es_containers env) n))"
proof -
  let ?ob = "\<lambda>c. case listed of None \<Rightarrow> (ci_observed c)\<lparr>co_unseen := True\<rparr> | Some listed \<Rightarrow> read_container listed c"
  let ?ps = "map (\<lambda>(n, c). (n, ?ob c, ci_observed c)) (es_containers env)"
  let ?cs = "fold (\<lambda>(n, observed, based_on). bt_modify n (taken observed based_on)) ?ps (es_containers env)"
  let ?fs = "map (\<lambda>(n, c). (n, taken (?ob c) (ci_observed c))) (es_containers env)"
  have cs: "?cs = fold (\<lambda>(n, f). bt_modify n f) ?fs (es_containers env)"
    by (simp add: fold_map comp_def case_prod_beta)
  have keys: "distinct (map fst ?fs)"
    using bt_wf_distinct [OF wf] by (simp add: comp_def case_prod_beta)
  have fs: "map_of ?fs n = map_option (\<lambda>c. taken (?ob c) (ci_observed c)) (map_of (es_containers env) n)" for n
    by (simp add: map_of_map)
  have all: "map_of ?cs n = map_option (looked_at listed) (map_of (es_containers env) n)" for n
    unfolding cs map_of_fold_modify [OF keys] fs by (simp add: taken_looked_at split: option.splits)
  let ?s = "s\<lparr>ws_env := Some (env\<lparr>es_containers := ?cs\<rparr>)\<rparr>"
  have first: "actor_run s (observation_reports env (observation_of listed env)) =
      Some (replicate (length (es_containers env)) (Inr ()), ?s)"
    unfolding observation_reports_are [OF wf] container_reports_run [OF env] by simp
  obtain vs where "actor_run ?s (volume_reports names) =
      Some (replicate (length names) (Inr ()), ?s\<lparr>ws_env := Some (env\<lparr>es_containers := ?cs, es_volumes := vs\<rparr>)\<rparr>)"
    using volume_reports_run [of ?s "env\<lparr>es_containers := ?cs\<rparr>" names] by auto
  with first all show ?thesis
    by (intro exI [of _ ?cs] exI [of _ vs]) (simp add: actor_run_append replicate_add)
qed

text \<open>A report that is based on another reading than the container has by now is dropped.\<close>

lemma stale_look_is_dropped: "\<not> same_reading (ci_observed c) based_on \<Longrightarrow> taken observed based_on c = c"
  by (simp add: taken_def take_reading_def Let_def)

lemma rehydrate_all:
  "run_state (each (rehydrate_one A) cs acc) w = (out, w') \<Longrightarrow>
     \<exists>rs. length rs = length cs \<and>
       out = acc @ map2 (\<lambda>(n, c) r. (n, c\<lparr>ci_observed := rehydrated_observed (ci_observed c) r\<rparr>)) cs rs"
proof (induction cs arbitrary: acc w)
  case Nil
  then show ?case by simp
next
  case (Cons e cs)
  obtain n c where e: "e = (n, c)" by (cases e)
  obtain r w1 where look: "run_state (inspect_status A (cd_container_name (ci_desired c))) w = (r, w1)" by fastforce
  then have "run_state (rehydrate_one A e acc) w = (acc @ [(n, c\<lparr>ci_observed := rehydrated_observed (ci_observed c) r\<rparr>)], w1)"
    by (simp add: rehydrate_one_def e)
  with Cons.prems have "run_state (each (rehydrate_one A) cs (acc @ [(n, c\<lparr>ci_observed := rehydrated_observed (ci_observed c) r\<rparr>)])) w1 = (out, w')"
    by simp
  from Cons.IH [OF this] obtain rs where "length rs = length cs"
    "out = (acc @ [(n, c\<lparr>ci_observed := rehydrated_observed (ci_observed c) r\<rparr>)]) @
       map2 (\<lambda>(n, c) r. (n, c\<lparr>ci_observed := rehydrated_observed (ci_observed c) r\<rparr>)) cs rs" by blast
  then show ?case by (intro exI [of _ "r # rs"]) (simp add: e)
qed

text \<open>
  What a daemon begins with keeps what was wanted and what was under way; a container counts as
  interrupted when it may have been up and is not any more, and no answer of Docker makes it fail.
\<close>

lemma rehydrate_keeps_the_wanted:
  assumes "run_state (rehydrate A (Inr (Some env))) w = (r, w')"
  shows "\<exists>rs. length rs = length (es_containers env) \<and>
    r = Inr (Some (env\<lparr>es_containers := map2 (\<lambda>(n, c) r. (n, c\<lparr>ci_observed := rehydrated_observed (ci_observed c) r\<rparr>))
      (es_containers env) rs\<rparr>))"
proof -
  obtain cs w1 where each: "run_state (each (rehydrate_one A) (es_containers env) []) w = (cs, w1)" by fastforce
  with assms have "r = Inr (Some (env\<lparr>es_containers := cs\<rparr>))" by (simp add: rehydrate_def)
  with rehydrate_all [OF each] show ?thesis by auto
qed

lemma rehydrated_interruption:
  "co_interrupted (rehydrated_observed r (Inr (Some s))) =
     (cts_status s \<notin> {''running'', ''restarting'', ''paused''} \<and> (is_up r \<or> co_unseen r \<or> co_interrupted r))"
  "co_interrupted (rehydrated_observed r (Inr None)) = (is_up r \<or> co_unseen r \<or> co_interrupted r)"
  by (auto simp: rehydrated_observed_def settle_interruption_def is_up_def Let_def)

section \<open>The property\<close>

definition one_container :: workspace_state where
  "one_container = \<lparr>ws_path = ''/w'', ws_owner = None,
     ws_env = Some (default_env\<lparr>es_containers := [(''web'', (starting_placeholder ''web'')\<lparr>ci_pending_action := None\<rparr>)]\<rparr>)\<rparr>"



end
