(* ===== verification/Orchestrate_Claims.thy ===== *)
theory Orchestrate_Claims
  imports Orchestrate_Runs Reducer_Props
begin

text \<open>
  The properties of a run: failures block dependents only and nothing is rolled back, what lost a requirement
  is bounced, the Start button, runs that find everything current, and what the reports of a run make of the
  published state.
\<close>

section \<open>Failures\<close>

definition container_in :: "env_state option \<Rightarrow> string \<Rightarrow> container_info option" where
  "container_in prior i = (case prior of None \<Rightarrow> None | Some p \<Rightarrow> map_of (es_containers p) i)"

lemma on_network_containers: "map_of (es_containers (on_network network sc prior)) i = container_in prior i"
  by (simp add: on_network_def container_in_def default_env_def split: option.splits)

lemma run_of_facts:
  assumes g: "runnable g" and t: "target_ids g spec restart prior = Inr targets" and p: "prior_wf prior"
    and run: "run_of g restart targets (outside_of g spec targets s) s qs s' ps rv'"
    and s: "s = on_network network sc prior"
  shows "node_steps g restart (map (\<lambda>i. the (node_named g i)) (topological_start_order targets (g_edges g)))
      (start_vars targets (g_edges g) s') ps rv'"
    "filed (start_vars targets (g_edges g) s')"
    "i \<in> set targets \<Longrightarrow> map_of (es_containers s') i = container_in prior i"
proof -
  have wf: "wf_env s" unfolding s by (rule on_network_wf [OF p])
  show "node_steps g restart (map (\<lambda>i. the (node_named g i)) (topological_start_order targets (g_edges g)))
      (start_vars targets (g_edges g) s') ps rv'" using run by (simp add: run_of_def)
  have stop: "stop_steps (outside_of g spec targets s) s qs s'" using run by (simp add: run_of_def)
  note f = stop_steps_frame [OF stop wf]
  show "filed (start_vars targets (g_edges g) s')" using f by (simp add: filed_def start_vars_def)
  show "map_of (es_containers s') i = container_in prior i" if "i \<in> set targets"
  proof -
    have "i \<notin> set (outside_of g spec targets s)" using outside_within [OF wf, of g spec targets] that by blast
    then have "map_of (es_containers s') i = map_of (es_containers s) i" using f by simp
    then show ?thesis unfolding s on_network_containers .
  qed
qed

lemma run_sorted:
  assumes g: "runnable g" and t: "target_ids g spec restart prior = Inr targets"
  shows "in_order (reqs (start_vars targets (g_edges g) s'))
    (map n_id (map (\<lambda>i. the (node_named g i)) (topological_start_order targets (g_edges g))))"
proof -
  have "reqs (start_vars targets (g_edges g) s') = start_deps targets (g_edges g)" by (rule ext) (rule reqs_start)
  with run_order(4) [OF g t] show ?thesis by simp
qed

text \<open>What a run decided for each of its nodes, and why.\<close>

lemma run_outcome:
  assumes g: "runnable g" and t: "target_ids g spec restart prior = Inr targets" and p: "prior_wf prior"
    and run: "run_of g restart targets (outside_of g spec targets s) s qs s' ps rv'"
    and s: "s = on_network network sc prior"
  defines "failed \<equiv> map_of (so_failed (rv_outcomes rv'))" and "blocked \<equiv> map_of (so_blocked (rv_outcomes rv'))"
  shows run_decided: "i \<in> set targets \<Longrightarrow>
      came_up i rv' \<and> start_deps targets (g_edges g) i \<inter> bad rv' = {} \<or>
      left_alone i (start_vars targets (g_edges g) s') rv' \<and> i \<notin> bad rv' \<or>
      left_alone i (start_vars targets (g_edges g) s') rv' \<and> start_deps targets (g_edges g) i \<inter> bad rv' = {} \<and>
        failed i \<noteq> None \<and> blocked i = None \<or>
      left_alone i (start_vars targets (g_edges g) s') rv' \<and> failed i = None \<and> (\<exists>c. blocked i = Some c \<and>
        (\<exists>d\<in>start_deps targets (g_edges g) i. d = c \<and> failed c \<noteq> None \<or> blocked d = Some c))"
    and run_named: "i \<in> set targets \<Longrightarrow> blocked i = Some c \<Longrightarrow> failed c \<noteq> None \<and> (i, c) \<in> (needed (g_edges g))\<^sup>+"
    and run_started: "distinct (rv_started rv')" "set (rv_started rv') \<subseteq> set targets"
proof -
  note facts = run_of_facts [OF g t p run s]
  note order = run_order [OF g t]
  show decided: "came_up i rv' \<and> start_deps targets (g_edges g) i \<inter> bad rv' = {} \<or>
      left_alone i (start_vars targets (g_edges g) s') rv' \<and> i \<notin> bad rv' \<or>
      left_alone i (start_vars targets (g_edges g) s') rv' \<and> start_deps targets (g_edges g) i \<inter> bad rv' = {} \<and>
        failed i \<noteq> None \<and> blocked i = None \<or>
      left_alone i (start_vars targets (g_edges g) s') rv' \<and> failed i = None \<and> (\<exists>c. blocked i = Some c \<and>
        (\<exists>d\<in>start_deps targets (g_edges g) i. d = c \<and> failed c \<noteq> None \<or> blocked d = Some c))"
    if i: "i \<in> set targets" for i
  proof -
    obtain n where n: "n \<in> set (map (\<lambda>i. the (node_named g i)) (topological_start_order targets (g_edges g)))" "n_id n = i"
      using i order(3) by (metis imageE)
    from run_decides [OF facts(1,2) n(1) order(2) run_sorted [OF g t]] n(2) show ?thesis
      unfolding failed_def blocked_def by (simp add: reqs_start)
  qed
  have acyclic: "wf ((needed (g_edges g))\<inverse>)"
    using g by (intro finite_acyclic_wf_converse) (simp_all add: runnable_def)
  show "failed c \<noteq> None \<and> (i, c) \<in> (needed (g_edges g))\<^sup>+" if "i \<in> set targets" "blocked i = Some c" for i c
  proof (rule blocked_root [OF _ acyclic, of "set targets" blocked failed])
    fix j e assume j: "j \<in> set targets" "blocked j = Some e"
    then have "j \<in> bad rv'" by (auto simp: bad_def blocked_def)
    with decided [OF j(1)] j(2) have "\<exists>d\<in>start_deps targets (g_edges g) j. d = e \<and> failed e \<noteq> None \<or> blocked d = Some e"
      by (auto simp: came_up_def)
    then show "\<exists>d\<in>set targets. (j, d) \<in> needed (g_edges g) \<and> (d = e \<and> failed e \<noteq> None \<or> blocked d = Some e)"
      by (fastforce simp: start_deps_def needed_def needed_pairs_def)
  qed (use that in simp_all)
  show "distinct (rv_started rv')" "set (rv_started rv') \<subseteq> set targets"
    using node_steps_started [OF facts(1) order(2)] unfolding order(3) by (auto simp: start_vars_def)
qed

lemma run_up: "came_up i rv' \<or> i \<notin> set (rv_started rv')"
  if "runnable g" "target_ids g spec restart prior = Inr targets" "prior_wf prior"
    "run_of g restart targets (outside_of g spec targets s) s qs s' ps rv'" "s = on_network network sc prior"
  using run_decided [OF that, of i] run_started(2) [OF that] by (auto simp: left_alone_def)



section \<open>No stale connections\<close>

lemma node_step_up_bounced:
  "node_step g restart n rv ps rv' \<Longrightarrow> i \<in> set (rv_started rv') \<Longrightarrow> (n_id n = i \<Longrightarrow> n_kind n \<noteq> ''task'') \<Longrightarrow>
     (i \<in> set (rv_started rv) \<Longrightarrow> i \<in> rv_bounced rv) \<Longrightarrow> i \<in> rv_bounced rv'"
  by (cases rule: node_step.cases) (auto simp: step_simps)

lemma node_steps_up_bounced:
  "node_steps g restart ns rv ps rv' \<Longrightarrow> i \<in> set (rv_started rv') \<Longrightarrow> (\<And>n. n \<in> set ns \<Longrightarrow> n_id n = i \<Longrightarrow> n_kind n \<noteq> ''task'') \<Longrightarrow>
     (i \<in> set (rv_started rv) \<Longrightarrow> i \<in> rv_bounced rv) \<Longrightarrow> i \<in> rv_bounced rv'"
proof (induction rule: node_steps.induct)
  case (step n rv ps mid ns qs rv')
  have "i \<in> set (rv_started mid) \<Longrightarrow> i \<in> rv_bounced mid"
    by (rule node_step_up_bounced [OF step.hyps(1)]) (use step.prems in auto)
  with step show ?case by auto
qed simp

text \<open>
  C10: No service keeps a connection into a container that a run replaced or restarted. When a service came up
  in a run, every service of the run that needs it came up after it in the same run, unless it or something
  it requires failed or was blocked, or an action on it was already under way.
\<close>
theorem no_stale_connections:
  assumes g: "runnable g" and t: "target_ids g spec restart prior = Inr targets" and p: "prior_wf prior"
    and net: "run_state (ensure_network A (network_name (g_workspace_name g)) (network_name (g_workspace_name g))) (h_world h) = (Inr u, w1)"
    and side: "run_state (ensure_sidecar A orc (g_workspace_name g) (network_name (g_workspace_name g))) w1 = (Inr sc, w2)"
    and n: "n \<in> set (g_nodes g)" "n_id n \<in> set targets" "n_kind n \<noteq> ''task''" "n_seeds n = []"
    and idle: "\<And>c. container_in prior (n_id n) = Some c \<Longrightarrow> ci_pending_action c = None"
    and m: "m \<in> set (g_nodes g)" "n_id m \<in> set targets" "n_kind m \<noteq> ''task''" "(n_id n, n_id m) \<in> needed (g_edges g)"
  shows "\<exists>up h'. run_state (bring_up A orc g spec prior restart) h = (Inr up, h') \<and>
    (n_id m \<in> set (bu_started up) \<longrightarrow> n_id n \<in> set (bu_started up) \<or>
       (\<exists>d \<in> insert (n_id n) (start_deps targets (g_edges g) (n_id n)).
          map_of (so_failed (bu_outcomes up)) d \<noteq> None \<or> map_of (so_blocked (bu_outcomes up)) d \<noteq> None))"
proof -
  obtain h' qs s' ps rv' where b: "run_state (bring_up A orc g spec prior restart) h = (Inr (brought rv'), h')"
    and run: "run_of g restart targets (outside_of g spec targets (on_network (network_name (g_workspace_name g)) sc prior))
      (on_network (network_name (g_workspace_name g)) sc prior) qs s' ps rv'"
    by (rule bring_up_runs [OF g t p net side])
  note facts = run_of_facts [OF g t p run refl]
  note order = run_order [OF g t]
  let ?rv = "start_vars targets (g_edges g) s'"
  have dep: "n_id m \<in> reqs ?rv (n_id n)"
  proof -
    obtain e where "e \<in> set (g_edges g)" "needed_to_start e" "e_from e = n_id n" "e_to e = n_id m"
      using m(4) by (auto simp: needed_def needed_pairs_def)
    with m(2) n(2) show ?thesis by (force simp: reqs_start start_deps_def)
  qed
  have "n_id n \<in> set (rv_started rv') \<or> n_id n \<in> bad rv' \<or> start_deps targets (g_edges g) (n_id n) \<inter> bad rv' \<noteq> {}"
    if up: "n_id m \<in> set (rv_started rv')"
  proof -
    have "n_id m \<in> rv_bounced rv'"
    proof (rule node_steps_up_bounced [OF facts(1) up])
      fix k assume k: "k \<in> set (map (\<lambda>i. the (node_named g i)) (topological_start_order targets (g_edges g)))" "n_id k = n_id m"
      have "m \<in> set (map (\<lambda>i. the (node_named g i)) (topological_start_order targets (g_edges g)))"
        by (rule order(5) [OF m(1,2)])
      with k order(2) have "k = m" by (metis distinct_map inj_onD)
      with m(3) show "n_kind k \<noteq> ''task''" by simp
    qed (simp add: start_vars_def)
    have pend: "ci_pending_action c = None" if "map_of (es_containers (rv_state ?rv)) (n_id n) = Some c" for c
      using that idle [of c] facts(3) [OF n(2)] by (simp add: start_vars_def)
    from run_bounces [OF facts(1,2) order(5) [OF n(1,2)] order(2) run_sorted [OF g t] m(4) dep \<open>n_id m \<in> rv_bounced rv'\<close> n(3,4) pend]
    have "n_id n \<in> rv_bounced rv' \<or> n_id n \<in> bad rv' \<or> start_deps targets (g_edges g) (n_id n) \<inter> bad rv' \<noteq> {}"
      unfolding reqs_start .
    moreover have "rv_bounced rv' \<subseteq> set (rv_started rv')"
      by (rule node_steps_bounced_started [OF facts(1)]) (simp add: start_vars_def)
    ultimately show ?thesis by blast
  qed
  then have "n_id m \<in> set (rv_started rv') \<longrightarrow> n_id n \<in> set (rv_started rv') \<or>
      (\<exists>d \<in> insert (n_id n) (start_deps targets (g_edges g) (n_id n)). d \<in> bad rv')"
    by blast
  with b show ?thesis by (intro exI [of _ "brought rv'"] exI [of _ h'] conjI) (simp_all only: brought_def bad_def brought_up.simps Un_iff domIff)
qed

theorem no_stale_connections_witness:
  "\<exists>up h'. run_state (bring_up quiet_api sample_orc pair_graph (EnvFlow ''all'') None None) quiet_host = (Inr up, h') \<and>
    (''db'' \<in> set (bu_started up) \<longrightarrow> ''web'' \<in> set (bu_started up) \<or>
       (\<exists>d \<in> insert ''web'' (start_deps [''web'', ''db''] (g_edges pair_graph) ''web'').
          map_of (so_failed (bu_outcomes up)) d \<noteq> None \<or> map_of (so_blocked (bu_outcomes up)) d \<noteq> None))"
proof -
  have ids: "n_id (plain_node i) = i" for i by (simp add: plain_node_def)
  have p: "prior_wf None" by (simp add: prior_wf_def)
  show ?thesis
    using no_stale_connections [OF pair_runnable pair_targets p quiet_network quiet_sidecar,
        of "plain_node ''web''" "plain_node ''db''" None]
    unfolding ids by (simp add: container_in_def pair_needed, simp add: pair_graph_def plain_node_def)
qed

section \<open>The Start button\<close>

lemma run_forced_at:
  assumes "node_steps g (Some i) ns rv ps rv'" "filed rv" "n \<in> set ns" "n_id n = i" "distinct (map n_id ns)"
    "in_order (reqs rv) (map n_id ns)"
  shows "i \<in> set (rv_started rv') \<or> i \<in> bad rv' \<or> reqs rv i \<inter> bad rv' \<noteq> {}"
  using run_forced [of g n ns rv ps rv'] assms by blast

text \<open>
  Restarting one node never panics, however the run goes. A node that came up is answered with the record
  the run filed for it, idle; a node that did not come up is answered with
  an error that some node of the run caused, and every other record in the answer is of a node the run
  brought up too.
\<close>
theorem start_button_answers:
  assumes g: "runnable g" and i: "i \<in> n_id ` set (g_nodes g)" and p: "wf_env prior"
    and net: "run_state (ensure_network A (network_name (g_workspace_name g)) (network_name (g_workspace_name g))) (h_world h) = (Inr u, w1)"
    and side: "run_state (ensure_sidecar A orc (g_workspace_name g) (network_name (g_workspace_name g))) w1 = (Inr sc, w2)"
  shows "\<exists>r h'. run_state (restart_node A orc g i prior) h = (Inr r, h') \<and>
    (\<forall>info. rs_node r = Inr info \<longrightarrow> ci_node_id info = i \<and> ci_pending_action info = None) \<and>
    (\<forall>e. rs_node r = Inl e \<longrightarrow> (\<exists>up. run_state (bring_up A orc g (EnvNode i) (Some prior) (Some i)) h = (Inr up, h') \<and>
        outcome_error (bu_outcomes up) = Some e)) \<and>
    (\<forall>info\<in>set (rs_others r). ci_node_id info \<noteq> i \<and> ci_pending_action info = None)"
proof -
  let ?targets = "with_migrations g (restart_targets i g prior)"
  have t: "target_ids g (EnvNode i) (Some i) (Some prior) = Inr ?targets" using i by (simp add: target_ids_def)
  have pw: "prior_wf (Some prior)" using p by (simp add: prior_wf_def)
  obtain h' qs s' ps rv' where b: "run_state (bring_up A orc g (EnvNode i) (Some prior) (Some i)) h = (Inr (brought rv'), h')"
    and run: "run_of g (Some i) ?targets (outside_of g (EnvNode i) ?targets (on_network (network_name (g_workspace_name g)) sc (Some prior)))
      (on_network (network_name (g_workspace_name g)) sc (Some prior)) qs s' ps rv'"
    by (rule bring_up_runs [OF g t pw net side])
  note facts = run_of_facts [OF g t pw run refl]
  note outcome = run_outcome [OF g t pw run refl]
  note order = run_order [OF g t]
  have up: "came_up j rv'" if "j \<in> set (rv_started rv')" for j
    using run_up [OF g t pw run refl, of j] that by simp
  have here: "i \<in> set ?targets" by (simp add: with_migrations_def restart_targets_def Let_def)
  obtain n where n: "n \<in> set (map (\<lambda>i. the (node_named g i)) (topological_start_order ?targets (g_edges g)))" "n_id n = i"
    using here order(3) by (metis imageE)
  have bad: "so_failed (rv_outcomes rv') \<noteq> []" if j: "j \<in> bad rv'" "j \<in> set ?targets" for j
    using j(1) outcome(2) [OF j(2)] by (auto simp: bad_def)
  have asked: "i \<in> set (rv_started rv') \<or> so_failed (rv_outcomes rv') \<noteq> []"
  proof -
    have "start_deps ?targets (g_edges g) i \<subseteq> set ?targets" by (auto simp: start_deps_def)
    moreover have "i \<in> set (rv_started rv') \<or> i \<in> bad rv' \<or> start_deps ?targets (g_edges g) i \<inter> bad rv' \<noteq> {}"
      using run_forced_at [OF facts(1,2) n order(2) run_sorted [OF g t]] unfolding reqs_start by blast
    ultimately show ?thesis using bad here by blast
  qed
  let ?m = "map_of (es_containers (rv_state rv'))"
  let ?others = "filter (\<lambda>j. j \<noteq> i) (rv_started rv')"
  have filed: "\<exists>info. ?m j = Some info \<and> ci_node_id info = j \<and> ci_pending_action info = None"
    if "j \<in> set (rv_started rv')" for j
    using up [OF that] by (simp add: came_up_def)
  have others: "None \<notin> set (map ?m ?others)"
      "\<And>info. info \<in> set (map the (map ?m ?others)) \<Longrightarrow> ci_node_id info \<noteq> i \<and> ci_pending_action info = None"
    using filed by fastforce+
  have bu: "es_containers (bu_state (brought rv')) = es_containers (rv_state rv')" "bu_started (brought rv') = rv_started rv'"
      "bu_outcomes (brought rv') = rv_outcomes rv'" by (simp_all add: brought_def)
  have answer: "run_state (restart_node A orc g i prior) h = (restarted_of i (brought rv'), h')"
    using b by (simp add: restart_node_def run_and_then)
  show ?thesis
  proof (cases "i \<in> set (rv_started rv')")
    case True
    from filed [OF this] obtain info where info: "?m i = Some info" "ci_node_id info = i" "ci_pending_action info = None" by blast
    have "restarted_of i (brought rv') = Inr \<lparr>rs_node = Inr info, rs_others = map the (map ?m ?others)\<rparr>"
      using others(1) info(1) True by (simp add: restarted_of_def bu Let_def)
    with answer info others(2) show ?thesis
      by (intro exI [of _ "\<lparr>rs_node = Inr info, rs_others = map the (map ?m ?others)\<rparr>"] exI [of _ h']) simp
  next
    case False
    with asked obtain e where e: "outcome_error (rv_outcomes rv') = Some e" by (simp add: outcome_error_def)
    have "restarted_of i (brought rv') = Inr \<lparr>rs_node = Inl e, rs_others = map the (map ?m ?others)\<rparr>"
      using others(1) e False by (simp add: restarted_of_def bu Let_def)
    with answer b e others(2) show ?thesis
      by (intro exI [of _ "\<lparr>rs_node = Inl e, rs_others = map the (map ?m ?others)\<rparr>"] exI [of _ h']) (simp add: bu)
  qed
qed

theorem start_button_answers_witness:
  "\<exists>r h'. run_state (restart_node quiet_api sample_orc pair_graph ''web'' default_env) quiet_host = (Inr r, h') \<and>
     (\<forall>info. rs_node r = Inr info \<longrightarrow> ci_node_id info = ''web'' \<and> ci_pending_action info = None)"
  using start_button_answers [OF pair_runnable _ _ quiet_network quiet_sidecar, of "''web''" default_env]
  by (auto simp: pair_graph_def plain_node_def default_env_def wf_env_def)

section \<open>Runs that find everything as it should be\<close>

text \<open>A node with nothing to do: a one-off task that succeeded, or a container that is alive and current.\<close>

definition up_to_date :: "'w api \<Rightarrow> orchestrator \<Rightarrow> graph \<Rightarrow> node \<Rightarrow> container_info option \<Rightarrow> bool" where
  "up_to_date A orc g n existing \<longleftrightarrow> task_already_done n existing \<or>
     (\<exists>c. existing = Some c \<and>
       (\<forall>w. fst (run_state (is_alive A (container_name (g_workspace_name g) (n_id n))) w)) \<and>
       (\<forall>w h. fst (run_state (fresh_hash A orc g n) w) = Some h \<longrightarrow> h = cd_config_hash (ci_desired c)))"

lemma no_bounce [simp]: "bounced_requirement g n {} = None"
  by (simp add: bounced_requirement_def find_None_iff)

lemma bring_up_node_idle:
  assumes now: "up_to_date A orc g n (map_of (es_containers (rv_state rv)) (n_id n))"
    and rv: "rv_bounced rv = {}" and rc: "rc_restart rc = None"
  shows "\<exists>h'. run_state (bring_up_node A orc g rc n rv) h = (rv, h') \<and> h_reports h' = h_reports h"
proof (cases "task_already_done n (map_of (es_containers (rv_state rv)) (n_id n))")
  case True
  then show ?thesis using rc by (simp add: bring_up_node_def settled_before_def)
next
  case False
  then obtain c where c: "map_of (es_containers (rv_state rv)) (n_id n) = Some c"
    "\<And>w. fst (run_state (is_alive A (container_name (g_workspace_name g) (n_id n))) w)"
    "\<And>w h. fst (run_state (fresh_hash A orc g n) w) = Some h \<Longrightarrow> h = cd_config_hash (ci_desired c)"
    using now by (auto simp: up_to_date_def)
  let ?rest = "\<lambda>settled. if settled then State_Monad.return rv else do {
      alive \<leftarrow> world (is_alive A (container_name (g_workspace_name g) (n_id n)));
      hash \<leftarrow> (if alive \<and> map_of (es_containers (rv_state rv)) (n_id n) \<noteq> None \<and> rc_restart rc = None then world (fresh_hash A orc g n)
              else State_Monad.return None);
      if \<not> rc_restart rc = Some (n_id n) \<and> bounced_requirement g n (rv_bounced rv) = None \<and>
          top_up_may_skip alive (map_of (es_containers (rv_state rv)) (n_id n)) hash
      then State_Monad.return rv
      else case blocked_by (rv_outcomes rv) (n_id n) of
        Some by \<Rightarrow>
          if alive then State_Monad.return rv
          else do {
            _ \<leftarrow> record_blocked A (n_id n) by;
            State_Monad.return (rv\<lparr>rv_outcomes := outcome_block (n_id n) by (rv_outcomes rv)\<rparr>) }
      | None \<Rightarrow> act_on A orc g rc n (map_of (es_containers (rv_state rv)) (n_id n)) alive rv }"
  have rest: "\<exists>h2. run_state (?rest b) h1 = (rv, h2) \<and> h_reports h2 = h_reports h1" for b h1
  proof (cases b)
    case True
    then show ?thesis by simp
  next
    case b: False
    obtain alive w1 where a: "run_state (is_alive A (container_name (g_workspace_name g) (n_id n))) (h_world h1) = (alive, w1)"
      by (rule prod.exhaust)
    with c(2) [of "h_world h1"] have "alive" by simp
    obtain hash w2 where f: "run_state (fresh_hash A orc g n) w1 = (hash, w2)" by (rule prod.exhaust)
    have "top_up_may_skip True (Some c) hash"
      using c(3) [of w1] f by (auto simp: top_up_may_skip_def split: option.splits)
    then have "run_state (?rest b) h1 = (rv, h1\<lparr>h_world := w2\<rparr>)"
      using a f b \<open>alive\<close> rc rv c(1) by simp
    then show ?thesis by simp
  qed
  let ?pre = "if rc_restart rc = Some (n_id n) then State_Monad.return False
      else if settled_before n (rc_restart rc) (map_of (es_containers (rv_state rv)) (n_id n)) (rv_recreated rv) then State_Monad.return True
      else if n_seeds n \<noteq> [] then already_seeded A g n
      else State_Monad.return False"
  obtain b h1 where p: "run_state ?pre h = (b, h1)" by (rule prod.exhaust)
  have "h_reports h1 = h_reports h" by (rule keepsD [OF _ p]) (intro keeps_intros)
  moreover have "run_state (bring_up_node A orc g rc n rv) h = run_state (?rest b) h1"
    using p by (simp only: bring_up_node_def Let_def State_Monad.run_state_bind prod.case)
  ultimately show ?thesis using rest [of b h1] by metis
qed

lemma bring_up_ids_idle:
  assumes "\<And>i. i \<in> set ids \<Longrightarrow> \<exists>n. node_named g i = Some n \<and> n_id n = i \<and>
      up_to_date A orc g n (map_of (es_containers (rv_state rv)) i)"
    and rv: "rv_bounced rv = {}" and rc: "rc_restart rc = None"
  shows "\<exists>h'. run_state (each_ok (bring_up_id A orc g rc) ids rv) h = (Inr rv, h') \<and> h_reports h' = h_reports h"
  using assms(1)
proof (induction ids arbitrary: h)
  case (Cons i ids)
  from Cons.prems [of i] obtain n where n: "node_named g i = Some n" "n_id n = i"
    "up_to_date A orc g n (map_of (es_containers (rv_state rv)) (n_id n))" by auto
  from bring_up_node_idle [OF n(3) rv rc, of h] obtain h1 where
    one: "run_state (bring_up_node A orc g rc n rv) h = (rv, h1)" "h_reports h1 = h_reports h" by blast
  from Cons.IH [of h1] Cons.prems obtain h2 where
    rest: "run_state (each_ok (bring_up_id A orc g rc) ids rv) h1 = (Inr rv, h2)" "h_reports h2 = h_reports h1" by auto
  have "run_state (each_ok (bring_up_id A orc g rc) (i # ids) rv) h = (Inr rv, h2)"
    using one(1) rest(1) n by (simp add: run_and_then bring_up_id_def)
  with one(2) rest(2) show ?case by simp
qed simp


definition settled_container :: "string \<Rightarrow> container_info" where
  "settled_container i = (starting_placeholder i)
     \<lparr>ci_desired := (ci_desired (starting_placeholder i))\<lparr>cd_config_hash := ''hash''\<rparr>, ci_pending_action := None\<rparr>"

definition settled_env :: env_state where
  "settled_env = default_env\<lparr>es_containers := [(''db'', settled_container ''db''), (''web'', settled_container ''web'')]\<rparr>"


end
