(* ===== verification/Progress_Claims.thy ===== *)
theory Progress_Claims
  imports Orchestrate_Runs Converge Reducer_Props
begin

text \<open>
  A run and the state it is published in: the reports a run sends (\<open>Orchestrate\<close>), forwarded by its task
  (\<open>Converge\<close>) into the reducer (\<open>Reducer\<close>), already make the state the run ends with, up to the marks
  of what is under way.
\<close>

section \<open>What is visible but for the marks\<close>

definition visible :: "env_state \<Rightarrow> node_id \<Rightarrow> container_info option" where
  "visible e i = map_of (es_containers (clear_create_marks e)) i"

lemma visible_iff:
  assumes "wf_env e"
  shows "visible e i = (case map_of (es_containers e) i of
    None \<Rightarrow> None | Some c \<Rightarrow> if is_placeholder c then None else Some (c\<lparr>ci_pending_action := None\<rparr>))"
  using assms by (auto simp: visible_def clear_create_marks_def bt_get_retain wf_env_def split: option.splits)

lemma placeholder_simps [simp]: "is_placeholder (starting_placeholder n)" "is_placeholder (c\<lparr>ci_pending_action := a\<rparr>) = is_placeholder c"
  by (simp_all add: is_placeholder_def starting_placeholder_def)

definition file_visible :: "container_info \<Rightarrow> (node_id \<Rightarrow> container_info option) \<Rightarrow> node_id \<Rightarrow> container_info option" where
  "file_visible info v = v(ci_node_id info :=
     if is_placeholder info then None else Some (info\<lparr>ci_pending_action := None\<rparr>))"

lemma working_visible: "wf_env e \<Longrightarrow> wf_env (create_working n act e) \<and> visible (create_working n act e) = visible e"
proof -
  assume e: "wf_env e"
  have w: "wf_env (create_working n act e)"
    by (rule wf_env_create_working [OF e])
  have "bt_wf (es_containers e)" using e by (simp add: wf_env_def)
  then have "visible (create_working n act e) i = visible e i" for i
    unfolding visible_iff [OF w] visible_iff [OF e] by (auto simp: create_working_def split: option.splits)
  with w show ?thesis by (auto intro: ext)
qed

lemma progress_visible:
  "wf_env e \<Longrightarrow> wf_env (create_progress network name ip info e) \<and>
     visible (create_progress network name ip info e) = file_visible info (visible e)"
proof -
  assume e: "wf_env e"
  have w: "wf_env (create_progress network name ip info e)"
    by (rule wf_env_create_progress [OF e])
  have "visible (create_progress network name ip info e) i = file_visible info (visible e) i" for i
    unfolding visible_iff [OF w] file_visible_def fun_upd_apply visible_iff [OF e] by (simp add: create_progress_def)
  with w show ?thesis by (auto intro: ext)
qed

lemma file_container_visible:
  "wf_env e \<Longrightarrow> wf_env (file_container info e) \<and> visible (file_container info e) = file_visible info (visible e)"
proof -
  assume e: "wf_env e"
  have w: "wf_env (file_container info e)" using e by (simp add: file_container_def wf_env_insert)
  have "visible (file_container info e) i = file_visible info (visible e) i" for i
    unfolding visible_iff [OF w] file_visible_def fun_upd_apply visible_iff [OF e] by (simp add: file_container_def)
  with w show ?thesis by (auto intro: ext)
qed

section \<open>Forwarding reports\<close>

fun shown :: "run_progress \<Rightarrow> (node_id \<Rightarrow> container_info option) \<Rightarrow> node_id \<Rightarrow> container_info option" where
  "shown (NodeUp _ _ _ info) v = file_visible info v"
| "shown _ v = v"

definition creating_task :: "nat \<Rightarrow> system \<Rightarrow> bool" where
  "creating_task t sy = (case find_task sy t of
     Some r \<Rightarrow> \<not> rt_drained r \<and> own_node r = None \<and> rt_id r = t | None \<Rightarrow> False)"

lemma find_set_task:
  "find (\<lambda>q. rt_id q = t) rs = Some r \<Longrightarrow> rt_id r' = t \<Longrightarrow>
     find (\<lambda>q. rt_id q = t) (map (\<lambda>q. if rt_id q = rt_id r' then r' else q) rs) = Some r'"
  by (induction rs) (auto split: if_splits)

lemma creating_set_task:
  assumes "find_task sy t = Some r" "rt_id r = t" "\<not> rt_drained r" "own_node r = None"
  shows "creating_task t (set_driven d (set_task (r\<lparr>rt_mine := mine\<rparr>) sy))"
  using find_set_task [of t "sy_tasks sy" r "r\<lparr>rt_mine := mine\<rparr>"] assms
  by (simp add: creating_task_def find_task_def set_driven_def set_task_def own_node_def)

lemma actor_working: "actor_step s (EnvCreateWorking n act) = Some (Inr (), update_env (create_working n act) s)"
  by (simp add: actor_step_def reduce_def)

lemma actor_progress: "actor_step s (EnvCreateProgress network name ip info) =
    Some (Inr (), update_env (create_progress network name ip info) s)"
  by (simp add: actor_step_def reduce_def)

lemma report_shown:
  assumes task: "creating_task t sy" and e: "ws_env (sy_state sy) = Some e" "wf_env e"
  shows "\<exists>sy' e'. sys_do (TaskReports t p) sy = Some sy' \<and> creating_task t sy' \<and> ws_env (sy_state sy') = Some e' \<and>
    wf_env e' \<and> visible e' = shown p (visible e)"
proof -
  from task obtain r where r: "find_task sy t = Some r" "\<not> rt_drained r" "own_node r = None" "rt_id r = t"
    by (auto simp: creating_task_def split: option.splits)
  show ?thesis
  proof (cases p)
    case (Planned start stop)
    with r task e show ?thesis by (auto simp: task_reports_def)
  next
    case (Working n act)
    obtain mine driven where m: "(if act \<noteq> None then claim_node n (rt_mine r, de_driven (sy_effect sy))
        else (rt_mine r, de_driven (sy_effect sy))) = (mine, driven)" by (rule prod.exhaust)
    let ?mid = "set_driven driven (set_task (r\<lparr>rt_mine := mine\<rparr>) sy)"
    let ?sy = "?mid\<lparr>sy_state := update_env (create_working n act) (sy_state sy)\<rparr>"
    have "sy_state ?mid = sy_state sy" by (simp add: set_driven_def set_task_def)
    then have "sys_do (TaskReports t p) sy = Some ?sy"
      using Working r m by (simp add: task_reports_def dispatch_def actor_working)
    moreover have "creating_task t ?sy"
      using creating_set_task [OF r(1,4,2,3), of driven mine] by (simp add: creating_task_def find_task_def)
    ultimately show ?thesis
      using working_visible [OF e(2), of n act] e Working
      by (intro exI [of _ ?sy] exI [of _ "create_working n act e"]) (simp add: update_env_def)
  next
    case (NodeUp network name ip info)
    let ?sy = "sy\<lparr>sy_state := update_env (create_progress network name ip info) (sy_state sy)\<rparr>"
    have "sys_do (TaskReports t p) sy = Some ?sy"
      using NodeUp r by (simp add: task_reports_def dispatch_def actor_progress)
    moreover have "creating_task t ?sy" using task by (simp add: creating_task_def find_task_def)
    ultimately show ?thesis
      using progress_visible [OF e(2), of network name ip info] e NodeUp
      by (intro exI [of _ ?sy] exI [of _ "create_progress network name ip info e"]) (simp add: update_env_def)
  qed
qed

lemma reports_shown:
  assumes "creating_task t sy" "ws_env (sy_state sy) = Some e" "wf_env e"
  shows "\<exists>sy' e'. sys_run (map (TaskReports t) ps) sy = Some sy' \<and> creating_task t sy' \<and> ws_env (sy_state sy') = Some e' \<and>
    wf_env e' \<and> visible e' = fold shown ps (visible e)"
  using assms
proof (induction ps arbitrary: sy e)
  case (Cons p ps)
  from report_shown [OF Cons.prems, of p] obtain sy1 e1 where one: "sys_do (TaskReports t p) sy = Some sy1"
    "creating_task t sy1" "ws_env (sy_state sy1) = Some e1" "wf_env e1" "visible e1 = shown p (visible e)" by blast
  from Cons.IH [OF one(2,3,4)] one(1,5) show ?case by simp
qed simp

section \<open>What a run reports\<close>

lemma node_step_shown:
  assumes "node_step g restart n rv ps rv'" "filed rv"
  shows "visible (rv_state rv') = fold shown ps (visible (rv_state rv))"
  using assms
  by (cases rule: node_step.cases)
    (simp_all add: node_up_def up_with_def mark_up_def outcome_fail_def outcome_block_def file_container_visible filed_def)

lemma node_steps_shown:
  assumes "node_steps g restart ns rv ps rv'" "filed rv"
  shows "visible (rv_state rv') = fold shown ps (visible (rv_state rv))"
  using assms
proof (induction rule: node_steps.induct)
  case (step n rv ps mid ns qs rv')
  from step.IH node_step_frame [OF step.hyps(1) step.prems] node_step_shown [OF step.hyps(1) step.prems]
  show ?case by simp
qed simp

lemma stop_steps_shown:
  assumes "stop_steps ids s qs s'" "wf_env s"
  shows "visible s' = fold shown qs (visible s)"
  using assms
  by (induction rule: stop_steps.induct) (simp_all add: node_up_def file_container_visible)

lemma on_network_visible: "visible (on_network network sc prior) = visible (case prior of Some s \<Rightarrow> s | None \<Rightarrow> default_env)"
  by (rule ext) (simp add: visible_def on_network_def clear_create_marks_def)

text \<open>
  C14: The reports of a run rebuild the state it ends with. Forwarded, one by one, by the task of the create
  into the published state, they are all accepted, and when the run returns the published environment already
  shows every container as the run's result has it; only the marks of actions under way differ, which
  settling the create clears.
\<close>
theorem reports_rebuild_the_state:
  assumes g: "runnable g" and t: "target_ids g spec restart prior = Inr targets" and p: "prior_wf prior"
    and net: "run_state (ensure_network A (network_name (g_workspace_name g)) (network_name (g_workspace_name g))) (h_world h) = (Inr u, w1)"
    and side: "run_state (ensure_sidecar A orc (g_workspace_name g) (network_name (g_workspace_name g))) w1 = (Inr sc, w2)"
    and task: "creating_task k sy" and e: "ws_env (sy_state sy) = Some e" "wf_env e"
    and same: "visible e = visible (case prior of Some s \<Rightarrow> s | None \<Rightarrow> default_env)"
  shows "\<exists>up h' new sy' e'. run_state (bring_up A orc g spec prior restart) h = (Inr up, h') \<and>
    h_reports h' = h_reports h @ new \<and> sys_run (map (TaskReports k) new) sy = Some sy' \<and>
    ws_env (sy_state sy') = Some e' \<and> visible e' = visible (bu_state up)"
proof -
  let ?s = "on_network (network_name (g_workspace_name g)) sc prior"
  let ?plan = "Planned (topological_start_order targets (g_edges g)) (outside_of g spec targets ?s)"
  obtain h' qs s' ps rv' where b: "run_state (bring_up A orc g spec prior restart) h = (Inr (brought rv'), h')"
    and reports: "h_reports h' = h_reports h @ ?plan # qs @ ps"
    and run: "run_of g restart targets (outside_of g spec targets ?s) ?s qs s' ps rv'"
    by (rule bring_up_runs [OF g t p net side])
  have wf: "wf_env ?s" by (rule on_network_wf [OF p])
  have stop: "stop_steps (outside_of g spec targets ?s) ?s qs s'" using run by (simp add: run_of_def)
  have nodes: "node_steps g restart (map (\<lambda>i. the (node_named g i)) (topological_start_order targets (g_edges g)))
      (start_vars targets (g_edges g) s') ps rv'" using run by (simp add: run_of_def)
  have "filed (start_vars targets (g_edges g) s')"
    using stop_steps_frame [OF stop wf] by (simp add: filed_def start_vars_def)
  from node_steps_shown [OF nodes this] have "visible (rv_state rv') = fold shown ps (visible s')"
    by (simp add: start_vars_def)
  then have final: "visible (rv_state rv') = fold shown (?plan # qs @ ps) (visible e)"
    using stop_steps_shown [OF stop wf] on_network_visible same by simp
  from reports_shown [OF task e, of "?plan # qs @ ps"] obtain sy' e' where
    "sys_run (map (TaskReports k) (?plan # qs @ ps)) sy = Some sy'" "ws_env (sy_state sy') = Some e'"
    "visible e' = fold shown (?plan # qs @ ps) (visible e)" by blast
  with b reports final show ?thesis
    by (intro exI [of _ "brought rv'"] exI [of _ h'] exI [of _ "?plan # qs @ ps"] exI [of _ sy'] exI [of _ e'])
      (simp only: brought_def brought_up.simps simp_thms)
qed

definition creating_system :: system where
  "creating_system =
     (new_system \<lparr>ws_path = ''/work'', ws_owner = None, ws_env = Some (default_env\<lparr>es_pending_create := Some (EnvFlow ''all'')\<rparr>)\<rparr>)
       \<lparr>sy_tasks := [\<lparr>rt_id = 1, rt_what = Inl (EnvFlow ''all''), rt_mine = [], rt_drained = False\<rparr>]\<rparr>"

theorem reports_rebuild_the_state_witness:
  "\<exists>up h' new sy' e'. run_state (bring_up quiet_api sample_orc pair_graph (EnvFlow ''all'') None None) quiet_host = (Inr up, h') \<and>
     h_reports h' = new \<and> sys_run (map (TaskReports 1) new) creating_system = Some sy' \<and>
     ws_env (sy_state sy') = Some e' \<and> visible e' = visible (bu_state up)"
proof -
  have task: "creating_task 1 creating_system"
    by (simp add: creating_task_def find_task_def creating_system_def own_node_def)
  have e: "ws_env (sy_state creating_system) = Some (default_env\<lparr>es_pending_create := Some (EnvFlow ''all'')\<rparr>)"
    by (simp add: creating_system_def new_system_def)
  have same: "visible (default_env\<lparr>es_pending_create := Some (EnvFlow ''all'')\<rparr>) =
      visible (case None of Some s \<Rightarrow> s | None \<Rightarrow> default_env)"
    by (simp add: visible_def clear_create_marks_def fun_eq_iff)
  have p: "prior_wf None" by (simp add: prior_wf_def)
  have reports: "h_reports quiet_host = []" by (simp add: quiet_host_def)
  from reports_rebuild_the_state [OF pair_runnable pair_targets p quiet_network quiet_sidecar task e _ same, of None]
  show ?thesis unfolding reports append_Nil by simp
qed

end
