(* ===== verification/Proxy.thy ===== *)
theory Proxy
  imports Traffic Routing Steps
begin

text \<open>
  The reverse proxy (\<open>src/web/proxy.rs\<close>): the name a request is for, the headers that are taken off and added on
  the way, and how one request is forwarded over a connection that may be reused.

  A header map is the list of its pairs, names in lower case; the order of different names is not specified. Reading a value as text, a header name or a value
  made from text (\<open>to_str\<close>, \<open>HeaderName::from_bytes\<close>, \<open>HeaderValue::from_str\<close>) are parameters of the http
  library. Connecting, waiting for a connection to be ready and sending are calls on a world of any type, and
  may fail.
\<close>

section \<open>Names\<close>

text \<open>\<open>rsplit_once(':')\<close>\<close>

definition rsplit_colon :: "string \<Rightarrow> (string \<times> string) option" where
  "rsplit_colon s = map_option (\<lambda>(a, b). (rev b, rev a)) (split_once (rev s) (CHR '':''))"

definition host_name :: "string \<Rightarrow> string" where
  "host_name host =
     (let name = (case rsplit_colon host of
            Some (name, port) \<Rightarrow> if port \<noteq> [] \<and> list_all is_digit port then name else host
          | None \<Rightarrow> host)
      in to_lowercase (rev (dropWhile (\<lambda>c. c = CHR ''.'') (rev name))))"

record backend =
  bk_host :: string
  bk_port :: nat
  bk_traffic :: "log_key option"

definition backend_for :: "string \<Rightarrow> nat \<Rightarrow> (string \<Rightarrow> backend option) \<Rightarrow> backend option" where
  "backend_for name control_port resolve =
     (if name = ZONE then Some \<lparr>bk_host = ''127.0.0.1'', bk_port = control_port, bk_traffic = None\<rparr>
      else resolve name)"

section \<open>Headers\<close>

definition has_header :: "string \<Rightarrow> header_pairs \<Rightarrow> bool" where
  "has_header name hs = (name \<in> fst ` set hs)"

definition remove_header :: "string \<Rightarrow> header_pairs \<Rightarrow> header_pairs" where
  "remove_header name hs = filter (\<lambda>h. fst h \<noteq> name) hs"

definition all_values :: "string \<Rightarrow> header_pairs \<Rightarrow> byte list list" where
  "all_values name hs = map snd (filter (\<lambda>h. fst h = name) hs)"

text \<open>\<open>insert\<close> takes the place of every value the name had.\<close>

definition insert_header :: "string \<Rightarrow> byte list \<Rightarrow> header_pairs \<Rightarrow> header_pairs" where
  "insert_header name v hs = remove_header name hs @ [(name, v)]"

type_synonym to_str_fn = "byte list \<Rightarrow> string option"

definition connection_names :: "to_str_fn \<Rightarrow> (string \<Rightarrow> string option) \<Rightarrow> header_pairs \<Rightarrow> string list" where
  "connection_names to_str header_name headers =
     filter_map (\<lambda>token. header_name (trim token))
       (concat (map (\<lambda>v. split_char v (CHR '','')) (filter_map to_str (all_values ''connection'' headers))))"

definition strip_named :: "bool \<Rightarrow> string list \<Rightarrow> header_pairs \<Rightarrow> header_pairs" where
  "strip_named upgrade named headers =
     fold (\<lambda>name hs. if \<not> (upgrade \<and> name = ''upgrade'') then remove_header name hs else hs) named headers"

definition strip_hop_by_hop :: "to_str_fn \<Rightarrow> (string \<Rightarrow> string option) \<Rightarrow> bool \<Rightarrow> header_pairs \<Rightarrow> header_pairs" where
  "strip_hop_by_hop to_str header_name upgrade headers =
     (let hs = strip_named upgrade (connection_names to_str header_name headers) headers;
          hs = fold remove_header [''keep-alive'', ''proxy-connection'', ''te'', ''trailer'', ''transfer-encoding''] hs
      in if upgrade then insert_header ''connection'' (string_bytes ''upgrade'') hs
         else remove_header ''upgrade'' (remove_header ''connection'' hs))"

record client_addr =
  ca_text :: string
  ca_loopback :: bool

definition forwarded_chain :: "to_str_fn \<Rightarrow> string \<Rightarrow> header_pairs \<Rightarrow> string" where
  "forwarded_chain to_str client headers =
     (let chain = join '', '' (filter_map to_str (all_values ''x-forwarded-for'' headers)) in
      (if chain = [] then chain else chain @ '', '') @ client)"

definition add_forwarded_headers ::
  "to_str_fn \<Rightarrow> (string \<Rightarrow> byte list option) \<Rightarrow> string \<Rightarrow> string \<Rightarrow> header_pairs \<Rightarrow> header_pairs" where
  "add_forwarded_headers to_str from_str client proto headers =
     (let hs = (if has_header ''x-forwarded-proto'' headers then headers
                else insert_header ''x-forwarded-proto'' (string_bytes proto) headers);
          hs = (if has_header ''x-forwarded-host'' hs then hs
                else case map_of hs ''host'' of
                    Some host \<Rightarrow> insert_header ''x-forwarded-host'' host hs
                  | None \<Rightarrow> hs)
      in case from_str (forwarded_chain to_str client hs) of
           Some v \<Rightarrow> insert_header ''x-forwarded-for'' v hs
         | None \<Rightarrow> hs)"

section \<open>Forwarding one request\<close>

record request_parts =
  rp_method :: string
  rp_path_and_query :: "string option"
  rp_uri_host :: "string option"
  rp_headers :: header_pairs
  rp_no_body :: bool

record response_parts =
  re_status :: nat
  re_headers :: header_pairs

definition traffic_source :: "client_addr \<Rightarrow> string" where
  "traffic_source client = (if ca_loopback client then ''host'' else ca_text client)"

definition is_replayable :: "request_parts \<Rightarrow> bool" where
  "is_replayable req = (rp_method req \<in> {''GET'', ''HEAD'', ''OPTIONS''} \<and> rp_no_body req)"

definition bodyless_copy :: "request_parts \<Rightarrow> request_parts" where
  "bodyless_copy req = req\<lparr>rp_no_body := True\<rparr>"

text \<open>
  \<open>try_send_request\<close>: the response, or an error that hands the request back because it never reached the backend,
  or an error that does not.
\<close>

datatype send_outcome = Responded response_parts | HandedBack string | Lost string

record 'w proxy_api =
  pa_connect :: "string \<Rightarrow> nat \<Rightarrow> ('w, nat) fallible"
  pa_ready :: "nat \<Rightarrow> ('w, bool) state"
  pa_try_send :: "nat \<Rightarrow> request_parts \<Rightarrow> ('w, send_outcome) state"
  pa_send :: "nat \<Rightarrow> request_parts \<Rightarrow> ('w, response_parts) fallible"

record upstream =
  up_host :: string
  up_port :: nat
  up_sender :: nat

text \<open>
  The state of a client connection: the world, the backend connection it keeps, the traffic store, and a history
  of what was handed to which connection.
\<close>

record 'w proxy_conn =
  pc_world :: 'w
  pc_upstream :: "upstream option"
  pc_traffic :: traffic_store
  pc_sent :: "(nat \<times> request_parts) list"

definition on_world :: "('w, 'a) state \<Rightarrow> ('w proxy_conn, 'a) state" where
  "on_world m = on_part pc_world (\<lambda>w s. s\<lparr>pc_world := w\<rparr>) m"

definition note_sent :: "nat \<Rightarrow> request_parts \<Rightarrow> ('w proxy_conn, unit) state" where
  "note_sent sender req = modify_state (\<lambda>s. s\<lparr>pc_sent := pc_sent s @ [(sender, req)]\<rparr>)"

definition connect_backend :: "'w proxy_api \<Rightarrow> backend \<Rightarrow> ('w proxy_conn, nat) fallible" where
  "connect_backend A b = on_world (pa_connect A (bk_host b) (bk_port b))"

definition take_upstream :: "('w proxy_conn, upstream option) state" where
  "take_upstream = do {
     s \<leftarrow> State_Monad.get;
     _ \<leftarrow> modify_state (\<lambda>s. s\<lparr>pc_upstream := None\<rparr>);
     State_Monad.return (pc_upstream s) }"

definition reusable_sender :: "'w proxy_api \<Rightarrow> backend \<Rightarrow> ('w proxy_conn, nat option) state" where
  "reusable_sender A b = do {
     slot \<leftarrow> take_upstream;
     case slot of
       None \<Rightarrow> State_Monad.return None
     | Some u \<Rightarrow>
         if up_host u = bk_host b \<and> up_port u = bk_port b
         then do {
           ready \<leftarrow> on_world (pa_ready A (up_sender u));
           State_Monad.return (if ready then Some (up_sender u) else None) }
         else State_Monad.return None }"

definition send_again ::
  "'w proxy_api \<Rightarrow> backend \<Rightarrow> string \<Rightarrow> request_parts option \<Rightarrow> ('w proxy_conn, nat \<times> response_parts) fallible" where
  "send_again A b err again =
     (case again of
        None \<Rightarrow> fails (''backend request failed: '' @ err)
      | Some req \<Rightarrow>
          and_then (connect_backend A b) (\<lambda>sender. do {
            _ \<leftarrow> note_sent sender req;
            r \<leftarrow> with_context ''backend request failed'' (on_world (pa_send A sender req));
            State_Monad.return (map_sum (\<lambda>e. e) (Pair sender) r) }))"

definition send_over ::
  "'w proxy_api \<Rightarrow> backend \<Rightarrow> request_parts \<Rightarrow> bool \<Rightarrow> nat \<Rightarrow> ('w proxy_conn, nat \<times> response_parts) fallible" where
  "send_over A b req reused sender = do {
     let replay = (if reused \<and> is_replayable req then Some (bodyless_copy req) else None);
     _ \<leftarrow> note_sent sender req;
     out \<leftarrow> on_world (pa_try_send A sender req);
     case out of
       Responded resp \<Rightarrow> ok (sender, resp)
     | HandedBack e \<Rightarrow> send_again A b e (if reused then Some req else replay)
     | Lost e \<Rightarrow> send_again A b e replay }"

definition send_request ::
  "'w proxy_api \<Rightarrow> backend \<Rightarrow> request_parts \<Rightarrow> ('w proxy_conn, nat \<times> response_parts) fallible" where
  "send_request A b req = do {
     reusable \<leftarrow> reusable_sender A b;
     and_then (case reusable of Some sender \<Rightarrow> ok sender | None \<Rightarrow> connect_backend A b)
       (send_over A b req (reusable \<noteq> None)) }"

text \<open>The library functions and the clock of one request.\<close>

record request_env =
  en_to_str :: to_str_fn
  en_header_name :: "string \<Rightarrow> string option"
  en_from_str :: "string \<Rightarrow> byte list option"
  en_now_ms :: nat
  en_now :: nat

definition prepared :: "request_env \<Rightarrow> client_addr \<Rightarrow> string \<Rightarrow> request_parts \<Rightarrow> request_parts" where
  "prepared E client proto req =
     req\<lparr>rp_headers := add_forwarded_headers (en_to_str E) (en_from_str E) (ca_text client) proto
       (strip_hop_by_hop (en_to_str E) (en_header_name E) (has_header ''upgrade'' (rp_headers req)) (rp_headers req))\<rparr>"

definition on_recording :: "backend \<Rightarrow> nat option \<Rightarrow> (nat \<Rightarrow> log_state \<Rightarrow> log_state) \<Rightarrow> ('w proxy_conn, unit) state" where
  "on_recording b rec f =
     (case (bk_traffic b, rec) of
        (Some key, Some i) \<Rightarrow> modify_state (\<lambda>s. s\<lparr>pc_traffic := on_log key (f i) (pc_traffic s)\<rparr>)
      | _ \<Rightarrow> State_Monad.return ())"

definition forward ::
  "'w proxy_api \<Rightarrow> request_env \<Rightarrow> request_parts \<Rightarrow> backend \<Rightarrow> client_addr \<Rightarrow> string \<Rightarrow> nat option \<Rightarrow>
     ('w proxy_conn, response_parts) fallible" where
  "forward A E req b client proto rec =
     and_then (send_request A b (prepared E client proto req)) (\<lambda>(sender, resp). do {
       let upgraded = (re_status resp = 101);
       let resp' = resp\<lparr>re_headers := strip_hop_by_hop (en_to_str E) (en_header_name E) upgraded (re_headers resp)\<rparr>;
       _ \<leftarrow> on_recording b rec (\<lambda>i. rec_response (en_to_str E) (en_now E) i
              \<lparr>rs_status = re_status resp', rs_headers = re_headers resp'\<rparr> upgraded);
       _ \<leftarrow> (if upgraded then State_Monad.return ()
             else modify_state (\<lambda>s. s\<lparr>pc_upstream := Some \<lparr>up_host = bk_host b, up_port = bk_port b, up_sender = sender\<rparr>\<rparr>));
       ok resp' })"

definition not_found_response :: response_parts where
  "not_found_response = \<lparr>re_status = 404, re_headers = [(''content-type'', string_bytes ''text/html; charset=utf-8'')]\<rparr>"

definition bad_gateway_response :: response_parts where
  "bad_gateway_response = \<lparr>re_status = 502, re_headers = [(''content-type'', string_bytes ''text/plain; charset=utf-8'')]\<rparr>"

definition start_recording ::
  "request_env \<Rightarrow> request_parts \<Rightarrow> backend \<Rightarrow> client_addr \<Rightarrow> string \<Rightarrow> ('w proxy_conn, nat option) state" where
  "start_recording E req b client proto =
     (case bk_traffic b of
        None \<Rightarrow> State_Monad.return None
      | Some key \<Rightarrow> do {
          s \<leftarrow> State_Monad.get;
          let call = begin_recording (en_to_str E) (en_now_ms E) (en_now E)
             \<lparr>rq_method = rp_method req, rq_path_and_query = rp_path_and_query req, rq_uri_host = rp_uri_host req,
              rq_headers = rp_headers req\<rparr> (traffic_source client) proto;
          _ \<leftarrow> modify_state (\<lambda>s. s\<lparr>pc_traffic := on_log key (\<lambda>st. snd (call st)) (pc_traffic s)\<rparr>);
          State_Monad.return (fst (call (store_log key (pc_traffic s), ts_shared (pc_traffic s)))) })"

definition serve_request ::
  "'w proxy_api \<Rightarrow> request_env \<Rightarrow> (request_parts \<Rightarrow> backend option) \<Rightarrow> client_addr \<Rightarrow> string \<Rightarrow> request_parts \<Rightarrow>
     ('w proxy_conn, response_parts) state" where
  "serve_request A E route client proto req =
     (case route req of
        None \<Rightarrow> State_Monad.return not_found_response
      | Some b \<Rightarrow> do {
          rec \<leftarrow> start_recording E req b client proto;
          r \<leftarrow> forward A E req b client proto rec;
          case r of
            Inr resp \<Rightarrow> State_Monad.return resp
          | Inl e \<Rightarrow> do {
              _ \<leftarrow> on_recording b rec (\<lambda>i. rec_fail (en_now E) i e);
              State_Monad.return bad_gateway_response } })"

definition http_route :: "to_str_fn \<Rightarrow> nat \<Rightarrow> (string \<Rightarrow> backend option) \<Rightarrow> request_parts \<Rightarrow> backend option" where
  "http_route to_str control_port resolve req =
     backend_for (host_name (case Option.bind (map_of (rp_headers req) ''host'') to_str of Some h \<Rightarrow> h | None \<Rightarrow> []))
       control_port resolve"

definition https_route :: "string \<Rightarrow> nat \<Rightarrow> (string \<Rightarrow> backend option) \<Rightarrow> request_parts \<Rightarrow> backend option" where
  "https_route sni control_port resolve req = backend_for sni control_port resolve"

text \<open>The daemon's resolver (\<open>daemon/routing.rs\<close>): the route of a running container, on loopback.\<close>

definition registry_backend :: "states \<Rightarrow> string \<Rightarrow> backend option" where
  "registry_backend states host =
     map_option (\<lambda>t. \<lparr>bk_host = ''127.0.0.1'', bk_port = unat (rt_port t), bk_traffic = Some (rt_workspace t, rt_node_id t)\<rparr>)
       (resolve_route states host)"

end
