(* ===== verification/Proxy_Claims.thy ===== *)
theory Proxy_Claims
  imports Proxy Traffic_Claims
begin

text \<open>
  The properties of the proxy: the headers a request arrives with, how often it may be sent, and what is recorded
  of it.
\<close>

section \<open>Headers\<close>

lemma all_values_remove: "all_values n (remove_header m hs) = (if n = m then [] else all_values n hs)"
  by (induction hs) (auto simp: all_values_def remove_header_def)

lemma all_values_insert: "all_values n (insert_header m v hs) = (if n = m then [v] else all_values n hs)"
proof -
  have "all_values n (xs @ ys) = all_values n xs @ all_values n ys" for xs ys by (simp add: all_values_def)
  then show ?thesis by (simp add: insert_header_def all_values_remove) (simp add: all_values_def)
qed

lemma all_values_strip_named:
  "all_values n (strip_named upgrade named hs) =
     (if n \<in> set named \<and> \<not> (upgrade \<and> n = ''upgrade'') then [] else all_values n hs)"
  unfolding strip_named_def by (induction named arbitrary: hs) (auto simp: all_values_remove)

lemma has_header_iff: "has_header n hs \<longleftrightarrow> all_values n hs \<noteq> []"
  by (induction hs) (auto simp: has_header_def all_values_def)

lemma first_value: "map_of hs n = (case all_values n hs of [] \<Rightarrow> None | v # _ \<Rightarrow> Some v)"
  by (induction hs) (auto simp: all_values_def)

definition hop_headers :: "string set" where
  "hop_headers = {''keep-alive'', ''proxy-connection'', ''te'', ''trailer'', ''transfer-encoding''}"

lemma strip_exact:
  "all_values n (strip_hop_by_hop to_str header_name upgrade hs) =
     (if n = ''connection'' then (if upgrade then [string_bytes ''upgrade''] else [])
      else if n = ''upgrade'' then (if upgrade then all_values n hs else [])
      else if n \<in> hop_headers \<or> n \<in> set (connection_names to_str header_name hs) then []
      else all_values n hs)"
  by (cases upgrade)
    (simp_all add: strip_hop_by_hop_def Let_def all_values_insert all_values_remove all_values_strip_named hop_headers_def)

text \<open>
  C26: What reaches the backend are exactly the client's headers, less those that describe its connection (named
  by \<open>Connection\<close> or by the standard), an upgrade's pair excepted; a protocol and a host that an earlier proxy
  has forwarded are kept and added otherwise; and the client is appended to the chain it came with.
\<close>

theorem forwarded_headers_exact:
  "let kept = (\<lambda>n. all_values n
        (strip_hop_by_hop (en_to_str E) (en_header_name E) (has_header ''upgrade'' (rp_headers req)) (rp_headers req)))
    in all_values n (rp_headers (prepared E client proto req)) =
      (if n = ''x-forwarded-proto'' then (if kept n = [] then [string_bytes proto] else kept n)
       else if n = ''x-forwarded-host'' then (if kept n = [] then take 1 (kept ''host'') else kept n)
       else if n = ''x-forwarded-for'' then
         (case en_from_str E (join '', '' (filter_map (en_to_str E) (kept n)) @
              (if join '', '' (filter_map (en_to_str E) (kept n)) = [] then [] else '', '') @ ca_text client) of
            Some v \<Rightarrow> [v] | None \<Rightarrow> kept n)
       else kept n) \<and>
      (\<forall>m. kept m =
        (if m = ''connection'' then (if has_header ''upgrade'' (rp_headers req) then [string_bytes ''upgrade''] else [])
         else if m = ''upgrade'' then all_values m (rp_headers req)
         else if m \<in> hop_headers \<or> m \<in> set (connection_names (en_to_str E) (en_header_name E) (rp_headers req)) then []
         else all_values m (rp_headers req)))"
proof -
  let ?up = "has_header ''upgrade'' (rp_headers req)"
  define hs where "hs = strip_hop_by_hop (en_to_str E) (en_header_name E) ?up (rp_headers req)"
  define hs1 where "hs1 = (if has_header ''x-forwarded-proto'' hs then hs
    else insert_header ''x-forwarded-proto'' (string_bytes proto) hs)"
  define hs2 where "hs2 = (if has_header ''x-forwarded-host'' hs1 then hs1
    else case map_of hs1 ''host'' of Some host \<Rightarrow> insert_header ''x-forwarded-host'' host hs1 | None \<Rightarrow> hs1)"
  have one: "all_values m hs1 = (if m = ''x-forwarded-proto'' \<and> all_values m hs = [] then [string_bytes proto] else all_values m hs)" for m
    by (auto simp: hs1_def has_header_iff all_values_insert)
  have two: "all_values m hs2 = (if m = ''x-forwarded-host'' \<and> all_values m hs = [] then take 1 (all_values ''host'' hs) else all_values m hs1)" for m
    by (auto simp: hs2_def has_header_iff all_values_insert one first_value split: list.splits)
  have sent: "rp_headers (prepared E client proto req) =
      (case en_from_str E (forwarded_chain (en_to_str E) (ca_text client) hs2) of
         Some v \<Rightarrow> insert_header ''x-forwarded-for'' v hs2 | None \<Rightarrow> hs2)"
    unfolding prepared_def add_forwarded_headers_def Let_def hs2_def hs1_def hs_def by simp
  have chain: "all_values ''x-forwarded-for'' hs2 = all_values ''x-forwarded-for'' hs" by (simp add: two one)
  have each: "all_values n (rp_headers (prepared E client proto req)) =
      (if n = ''x-forwarded-proto'' then (if all_values n hs = [] then [string_bytes proto] else all_values n hs)
       else if n = ''x-forwarded-host'' then (if all_values n hs = [] then take 1 (all_values ''host'' hs) else all_values n hs)
       else if n = ''x-forwarded-for'' then
         (case en_from_str E (forwarded_chain (en_to_str E) (ca_text client) hs2) of Some v \<Rightarrow> [v] | None \<Rightarrow> all_values n hs)
       else all_values n hs)"
    unfolding sent by (auto simp: all_values_insert two one split: option.splits)
  have kept: "\<forall>m. all_values m hs = (if m = ''connection'' then (if ?up then [string_bytes ''upgrade''] else [])
         else if m = ''upgrade'' then all_values m (rp_headers req)
         else if m \<in> hop_headers \<or> m \<in> set (connection_names (en_to_str E) (en_header_name E) (rp_headers req)) then []
         else all_values m (rp_headers req))"
    unfolding hs_def strip_exact by (auto simp: has_header_iff)
  show ?thesis
    unfolding Let_def hs_def [symmetric] using each kept chain by (simp add: forwarded_chain_def Let_def)
qed

section \<open>Connections\<close>

lemma run_connect:
  "run_state (connect_backend A b) s =
     (case run_state (pa_connect A (bk_host b) (bk_port b)) (pc_world s) of (r, w) \<Rightarrow> (r, s\<lparr>pc_world := w\<rparr>))"
  by (simp add: connect_backend_def on_world_def)

text \<open>How a request may be sent, from the connection that was kept.\<close>

definition sends_ok :: "'w proxy_api \<Rightarrow> backend \<Rightarrow> request_parts \<Rightarrow> upstream option \<Rightarrow> (nat \<times> request_parts) list \<Rightarrow> bool" where
  "sends_ok A b req slot sent \<longleftrightarrow>
     sent = [] \<or> (\<exists>c. sent = [(c, req)]) \<or>
     (\<exists>c c' again u. sent = [(c, req), (c', again)] \<and> slot = Some u \<and> up_sender u = c \<and>
        up_host u = bk_host b \<and> up_port u = bk_port b \<and>
        (again = req \<and> (\<exists>w e w'. run_state (pa_try_send A c req) w = (HandedBack e, w')) \<or>
         again = bodyless_copy req \<and> is_replayable req))"

definition answered :: "(nat \<times> request_parts) list \<Rightarrow> nat \<Rightarrow> bool" where
  "answered sent sender \<longleftrightarrow> sent \<noteq> [] \<and> fst (last sent) = sender"

lemma send_again_run:
  assumes "run_state (send_again A b e again) s = (r, s')"
  shows "pc_upstream s' = pc_upstream s \<and> pc_traffic s' = pc_traffic s \<and>
    ((\<exists>err. r = Inl err) \<and> pc_sent s' = pc_sent s \<or>
     (\<exists>req c'. again = Some req \<and> pc_sent s' = pc_sent s @ [(c', req)] \<and> (\<forall>c resp. r = Inr (c, resp) \<longrightarrow> c = c')))"
proof (cases again)
  case None
  with assms show ?thesis by (auto simp: send_again_def)
next
  case (Some req)
  obtain q w where q: "run_state (pa_connect A (bk_host b) (bk_port b)) (pc_world s) = (q, w)" by (rule prod.exhaust)
  show ?thesis
  proof (cases q)
    case (Inl err)
    with assms Some q show ?thesis by (auto simp: send_again_def run_and_then run_connect)
  next
    case (Inr c')
    obtain t w' where "run_state (pa_send A c' req) w = (t, w')" by (rule prod.exhaust)
    with assms Some q Inr have "r = map_sum (\<lambda>e. e) (Pair c') (context_of ''backend request failed'' t)"
      "s' = s\<lparr>pc_world := w', pc_sent := pc_sent s @ [(c', req)]\<rparr>"
      by (auto simp: send_again_def run_and_then run_connect note_sent_def on_world_def run_with_context)
    then show ?thesis using Some by (cases t) (auto simp: context_of_def)
  qed
qed

lemma reusable_run:
  assumes "run_state (reusable_sender A b) s = (r, s')"
  shows "pc_upstream s' = None \<and> pc_sent s' = pc_sent s \<and> pc_traffic s' = pc_traffic s \<and>
    (\<forall>c. r = Some c \<longrightarrow> (\<exists>u. pc_upstream s = Some u \<and> up_sender u = c \<and> up_host u = bk_host b \<and> up_port u = bk_port b))"
  using assms
  by (auto simp: reusable_sender_def take_upstream_def on_world_def split: option.splits if_splits prod.splits)

lemma send_request_run:
  assumes "run_state (send_request A b req) s = (r, s')"
  shows "pc_upstream s' = None \<and> pc_traffic s' = pc_traffic s \<and>
    (\<exists>sent. pc_sent s' = pc_sent s @ sent \<and> sends_ok A b req (pc_upstream s) sent \<and>
       (\<forall>c resp. r = Inr (c, resp) \<longrightarrow> answered sent c))"
proof -
  obtain reusable s1 where first: "run_state (reusable_sender A b) s = (reusable, s1)" by (rule prod.exhaust)
  note slot = reusable_run [OF first]
  obtain q s2 where opened: "run_state (case reusable of Some c \<Rightarrow> ok c | None \<Rightarrow> connect_backend A b) s1 = (q, s2)"
    by (rule prod.exhaust)
  have s2: "pc_upstream s2 = None \<and> pc_sent s2 = pc_sent s \<and> pc_traffic s2 = pc_traffic s \<and> (\<forall>c. reusable = Some c \<longrightarrow> q = Inr c)"
    using opened slot by (auto simp: run_connect split: option.splits prod.splits)
  show ?thesis
  proof (cases q)
    case (Inl e)
    with assms first opened have "r = Inl e" "s' = s2"
      by (auto simp: send_request_def run_and_then Let_def)
    then show ?thesis using s2 by (simp add: sends_ok_def)
  next
    case (Inr c)
    have over: "run_state (send_over A b req (reusable \<noteq> None) c) s2 = (r, s')"
      using assms first opened Inr by (simp add: send_request_def run_and_then)
    obtain out w where out: "run_state (pa_try_send A c req) (pc_world s2) = (out, w)" by (rule prod.exhaust)
    let ?s4 = "s2\<lparr>pc_sent := pc_sent s2 @ [(c, req)], pc_world := w\<rparr>"
    let ?replay = "if reusable \<noteq> None \<and> is_replayable req then Some (bodyless_copy req) else None"
    have same: "pc_world (s2\<lparr>pc_sent := x\<rparr>) = pc_world s2" for x by simp
    have rest: "run_state (case out of Responded resp \<Rightarrow> ok (c, resp)
        | HandedBack e \<Rightarrow> send_again A b e (if reusable \<noteq> None then Some req else ?replay)
        | Lost e \<Rightarrow> send_again A b e ?replay) ?s4 = (r, s')"
      using over unfolding send_over_def Let_def
      by (simp only: note_sent_def on_world_def State_Monad.run_state_bind run_modify_state run_on_part prod.case
          same out)
    have again: ?thesis if run: "run_state (send_again A b e again) ?s4 = (r, s')"
      and why: "\<And>q. again = Some q \<Longrightarrow> reusable \<noteq> None \<and> (q = req \<and> (\<exists>e. out = HandedBack e) \<or> q = bodyless_copy req \<and> is_replayable req)"
      for e again
    proof -
      from send_again_run [OF run] have ends: "pc_upstream s' = None" "pc_traffic s' = pc_traffic s"
        "(\<exists>err. r = Inl err) \<and> pc_sent s' = pc_sent s @ [(c, req)] \<or>
         (\<exists>q c'. again = Some q \<and> pc_sent s' = pc_sent s @ [(c, req), (c', q)] \<and> (\<forall>d resp. r = Inr (d, resp) \<longrightarrow> d = c'))"
        using s2 by auto
      from ends(3) show ?thesis
      proof
        assume "(\<exists>err. r = Inl err) \<and> pc_sent s' = pc_sent s @ [(c, req)]"
        then show ?thesis using ends(1,2) by (auto simp: sends_ok_def)
      next
        assume "\<exists>q c'. again = Some q \<and> pc_sent s' = pc_sent s @ [(c, req), (c', q)] \<and> (\<forall>d resp. r = Inr (d, resp) \<longrightarrow> d = c')"
        then obtain q c' where q: "again = Some q" "pc_sent s' = pc_sent s @ [(c, req), (c', q)]"
          "\<forall>d resp. r = Inr (d, resp) \<longrightarrow> d = c'" by blast
        from why [OF q(1)] s2 Inr have reused: "reusable = Some c" by auto
        with slot obtain u where u: "pc_upstream s = Some u" "up_sender u = c" "up_host u = bk_host b" "up_port u = bk_port b"
          by blast
        have "sends_ok A b req (pc_upstream s) [(c, req), (c', q)]"
          using why [OF q(1)] u out unfolding sends_ok_def by blast
        moreover have "\<forall>d resp. r = Inr (d, resp) \<longrightarrow> answered [(c, req), (c', q)] d" using q(3) by (simp add: answered_def)
        ultimately show ?thesis using ends(1,2) q(2) by blast
      qed
    qed
    show ?thesis
    proof (cases out)
      case (Responded resp)
      with rest have "r = Inr (c, resp)" "s' = ?s4" by auto
      then show ?thesis using s2 by (auto simp: sends_ok_def answered_def)
    next
      case (HandedBack e)
      with rest show ?thesis by (intro again [of e "if reusable \<noteq> None then Some req else ?replay"]) (auto split: if_splits)
    next
      case (Lost e)
      with rest show ?thesis by (intro again [of e ?replay]) (auto split: if_splits)
    qed
  qed
qed

lemma on_recording_run:
  "run_state (on_recording b rec f) s =
     ((), case (bk_traffic b, rec) of (Some key, Some i) \<Rightarrow> s\<lparr>pc_traffic := on_log key (f i) (pc_traffic s)\<rparr> | _ \<Rightarrow> s)"
  by (simp add: on_recording_def split: option.splits)

lemma start_recording_run:
  "run_state (start_recording E req b client proto) s = (rec, s') \<Longrightarrow>
     pc_sent s' = pc_sent s \<and> pc_upstream s' = pc_upstream s"
  by (auto simp: start_recording_def Let_def split: option.splits)

text \<open>What forwarding leaves: from the answer of the connection that was used last.\<close>

lemma forward_run:
  assumes "run_state (forward A E req b client proto rec) s = (r, s')"
  shows "\<exists>q mid. run_state (send_request A b (prepared E client proto req)) s = (q, mid) \<and>
    (\<forall>e. q = Inl e \<longrightarrow> r = Inl e \<and> s' = mid) \<and>
    (\<forall>c resp. q = Inr (c, resp) \<longrightarrow>
      (\<exists>hs. r = Inr (resp\<lparr>re_headers := hs\<rparr>) \<and>
        s' = (case (bk_traffic b, rec) of
            (Some key, Some i) \<Rightarrow>
              mid\<lparr>pc_traffic := on_log key (rec_response (en_to_str E) (en_now E) i
                \<lparr>rs_status = re_status resp, rs_headers = hs\<rparr> (re_status resp = 101)) (pc_traffic mid)\<rparr>
          | _ \<Rightarrow> mid)
          \<lparr>pc_upstream := if re_status resp = 101 then pc_upstream mid
             else Some \<lparr>up_host = bk_host b, up_port = bk_port b, up_sender = c\<rparr>\<rparr>))"
proof -
  obtain q mid where q: "run_state (send_request A b (prepared E client proto req)) s = (q, mid)" by (rule prod.exhaust)
  show ?thesis
  proof (cases q)
    case (Inl e)
    with assms q show ?thesis by (auto simp: forward_def run_and_then)
  next
    case (Inr cr)
    then obtain c resp where cr: "q = Inr (c, resp)" by (cases cr) auto
    then show ?thesis using assms q
      by (intro exI [of _ q] exI [of _ mid])
        (auto simp: forward_def run_and_then on_recording_run Let_def split: option.splits)
  qed
qed

text \<open>
  C25: Per request, at most two messages go to the backend. A second one goes only after the kept connection to
  that same backend, still ready, had been tried: with the very request when it was handed back unsent, or else
  with a copy of a GET, HEAD or OPTIONS without a body. So a request that may not be repeated never reaches the
  backend twice. The connection kept afterwards is the one that answered, to the backend of this request; after
  a failure or an upgrade none is kept. A name without a route is answered without any of this.
\<close>

theorem requests_sent_safely:
  assumes "run_state (serve_request A E route client proto req) s = (resp, s')"
  shows "\<exists>sent. pc_sent s' = pc_sent s @ sent \<and>
    (route req = None \<longrightarrow> sent = [] \<and> resp = not_found_response \<and> s' = s) \<and>
    (\<forall>b. route req = Some b \<longrightarrow> sends_ok A b (prepared E client proto req) (pc_upstream s) sent \<and>
      (\<forall>u. pc_upstream s' = Some u \<longrightarrow> up_host u = bk_host b \<and> up_port u = bk_port b \<and>
        answered sent (up_sender u) \<and> re_status resp \<noteq> 101))"
proof (cases "route req")
  case None
  with assms show ?thesis by (auto simp: serve_request_def)
next
  case (Some b)
  obtain rec s1 where first: "run_state (start_recording E req b client proto) s = (rec, s1)" by (rule prod.exhaust)
  note start = start_recording_run [OF first]
  obtain r s2 where fwd: "run_state (forward A E req b client proto rec) s1 = (r, s2)" by (rule prod.exhaust)
  from forward_run [OF fwd] obtain q mid where q: "run_state (send_request A b (prepared E client proto req)) s1 = (q, mid)"
    and no: "\<forall>e. q = Inl e \<longrightarrow> r = Inl e \<and> s2 = mid"
    and yes: "\<forall>c rs. q = Inr (c, rs) \<longrightarrow> (\<exists>hs. r = Inr (rs\<lparr>re_headers := hs\<rparr>) \<and>
      pc_sent s2 = pc_sent mid \<and> pc_upstream s2 = (if re_status rs = 101 then pc_upstream mid
             else Some \<lparr>up_host = bk_host b, up_port = bk_port b, up_sender = c\<rparr>))"
    by (fastforce split: option.splits)
  from send_request_run [OF q] start obtain sent where sent: "pc_upstream mid = None" "pc_sent mid = pc_sent s @ sent"
    "sends_ok A b (prepared E client proto req) (pc_upstream s) sent" "\<forall>c rs. q = Inr (c, rs) \<longrightarrow> answered sent c" by auto
  have run: "run_state (case r of Inr resp \<Rightarrow> State_Monad.return resp
      | Inl e \<Rightarrow> do { _ \<leftarrow> on_recording b rec (\<lambda>i. rec_fail (en_now E) i e); State_Monad.return bad_gateway_response }) s2 = (resp, s')"
    using assms Some first fwd by (simp add: serve_request_def)
  have "pc_sent s' = pc_sent s @ sent \<and> (\<forall>u. pc_upstream s' = Some u \<longrightarrow> up_host u = bk_host b \<and> up_port u = bk_port b \<and>
      answered sent (up_sender u) \<and> re_status resp \<noteq> 101)"
  proof (cases q)
    case (Inl e)
    with no run have "pc_upstream s' = pc_upstream mid \<and> pc_sent s' = pc_sent mid"
      by (auto simp: on_recording_run split: option.splits)
    then show ?thesis using sent by simp
  next
    case (Inr cr)
    then obtain c rs where cr: "q = Inr (c, rs)" by (cases cr) auto
    with yes obtain hs where "r = Inr (rs\<lparr>re_headers := hs\<rparr>)" "pc_sent s2 = pc_sent mid"
      "pc_upstream s2 = (if re_status rs = 101 then pc_upstream mid else Some \<lparr>up_host = bk_host b, up_port = bk_port b, up_sender = c\<rparr>)"
      by blast
    with run sent cr show ?thesis by (auto split: if_splits)
  qed
  with sent(3) Some show ?thesis by auto
qed

section \<open>What is recorded\<close>

definition shown :: "exchange_data \<Rightarrow> string \<times> string \<times> nat option \<times> string option" where
  "shown d = (xd_method d, xd_source d, xd_status d, xd_error d)"

text \<open>The newest exchange of a log, and what it shows.\<close>

definition newest_shows :: "traffic_log \<Rightarrow> nat \<Rightarrow> string \<times> string \<times> nat option \<times> string option \<Rightarrow> bool" where
  "newest_shows l i v \<longleftrightarrow> tl_entries l \<noteq> [] \<and> last (tl_entries l) = i \<and>
     (\<exists>ex. tl_exchanges l i = Some ex \<and> shown (ex_data ex) = v)"

lemma same_data_shows:
  assumes "same_data l l'" and "tl_exchanges l i = Some ex" and "shown (ex_data ex) = v"
  shows "\<exists>ex. tl_exchanges l' i = Some ex \<and> shown (ex_data ex) = v"
proof -
  let ?f = "\<lambda>ex. ex\<lparr>ex_data := (ex_data ex)\<lparr>xd_in_ring := False\<rparr>\<rparr>"
  have "map_option ?f (tl_exchanges l' i) = Some (?f ex)" using assms(1,2) by (simp add: same_data_def)
  then obtain ex' where ex': "tl_exchanges l' i = Some ex'" "?f ex' = ?f ex" by auto
  then have "ex_data (?f ex') = ex_data (?f ex)" by simp
  then have "shown (ex_data ex') = shown (ex_data ex)" by (cases "ex_data ex'"; cases "ex_data ex") (simp add: shown_def)
  with ex' assms(3) show ?thesis by auto
qed

lemma trimmed_shows:
  assumes "trimmed (tl_entries (fst st)) st st'" and "newest_shows (fst st) i v"
  shows "newest_shows (fst st') i v"
proof -
  have "tl_entries (fst st) \<noteq> []" using assms(2) by (simp add: newest_shows_def)
  then obtain k where k: "tl_entries (fst st') = drop k (tl_entries (fst st))" "tl_entries (fst st') \<noteq> []"
    using assms(1) by (auto simp: trimmed_def)
  then have "last (tl_entries (fst st')) = last (tl_entries (fst st))" by simp
  moreover have "same_data (fst st) (fst st')" using assms(1) by (simp add: trimmed_def)
  ultimately show ?thesis using assms(2) k(2) same_data_shows unfolding newest_shows_def by metis
qed

lemma push_shows:
  assumes "log_counted st" and "xd_in_ring d"
  shows "newest_shows (fst (snd (push_exchange d r st))) (tl_next_id (fst st)) (shown d)"
proof -
  obtain l sh where st: "st = (l, sh)" by (rule prod.exhaust)
  have "ring_ok (tl_entries l) l" using assms(1) by (simp add: st log_counted_def log_ok_def)
  note ring = ring_add [OF this assms(2), of r]
  show ?thesis
    unfolding st push_exchange_def Let_def prod.case snd_conv fst_conv
    by (rule trimmed_shows [OF evict_trims])
      (use ring assms(1) in \<open>simp_all add: st log_counted_def newest_shows_def\<close>)
qed

lemma account_shows:
  assumes "log_counted st" and "newest_shows (fst st) i v"
  shows "newest_shows (fst (account i st)) i v"
proof -
  obtain ex where ex: "tl_exchanges (fst st) i = Some ex" "shown (ex_data ex) = v"
    using assms(2) by (auto simp: newest_shows_def)
  have i: "i \<in> set (tl_entries (fst st))" using assms(2) last_in_set [of "tl_entries (fst st)"] by (auto simp: newest_shows_def)
  then have ring: "xd_in_ring (ex_data ex)" using assms(1) ex by (auto simp: log_counted_def log_ok_def ring_ok_def)
  let ?f = "\<lambda>d. d\<lparr>xd_accounted := data_weight (ex_data ex)\<rparr>"
  let ?c = "recount i (accounted_in (fst st) i) (data_weight (ex_data ex)) st"
  let ?mid = "(change_data i ?f (fst ?c), snd ?c)"
  have entries: "tl_entries (fst ?mid) = tl_entries (fst st)" by (simp add: recount_def)
  have trim: "trimmed (tl_entries (fst ?mid)) ?mid (evict ?mid)"
    unfolding entries by (rule recount_trims(1) [of st i ?f "data_weight (ex_data ex)", OF assms(1) i]) simp_all
  have "newest_shows (fst ?mid) i v" using assms(2) by (auto simp: newest_shows_def recount_def shown_def)
  with trim have "newest_shows (fst (evict ?mid)) i v" by (rule trimmed_shows)
  then show ?thesis using ex(1) ring by (simp add: account_def Let_def accounted_in_def)
qed

lemma publish_shows: "newest_shows (fst (publish j st)) i v = newest_shows (fst st) i v"
  by (simp add: publish_def newest_shows_def split: option.splits)

lemma change_shows:
  "newest_shows (fst st) i v \<Longrightarrow> (\<And>d. shown d = v \<Longrightarrow> shown (f d) = v') \<Longrightarrow> newest_shows (fst (rec_change i f st)) i v'"
  by (auto simp: newest_shows_def rec_change_def)

lemma begin_shows:
  assumes "log_counted st" and "tl_mode (fst st) = Some mode"
  shows "fst (begin_recording to_str now_ms now req source scheme st) = Some (tl_next_id (fst st)) \<and>
    newest_shows (fst (snd (begin_recording to_str now_ms now req source scheme st))) (tl_next_id (fst st))
      (rq_method req, source, None, None)"
proof -
  let ?d = "begin_data to_str now_ms now req source scheme mode"
  have "xd_in_ring ?d" "shown ?d = (rq_method req, source, None, None)" by (simp_all add: begin_data_def shown_def Let_def)
  with push_shows [OF assms(1), of ?d None] show ?thesis using assms(2)
    by (simp add: begin_recording_def case_prod_beta publish_shows) (cases st, simp add: push_exchange_def Let_def)
qed

lemma response_shows:
  assumes "log_counted st" and "newest_shows (fst st) i (m, src, None, None)"
  shows "newest_shows (fst (rec_response to_str now i resp upgraded st)) i (m, src, Some (rs_status resp), None)"
  unfolding rec_response_def publish_shows
proof (rule account_shows)
  show "log_counted (rec_change i
       (\<lambda>d. d\<lparr>xd_status := Some (rs_status resp), xd_ttfb := Some (elapsed now d),
              xd_response_headers := header_list (rs_headers resp),
              xd_response := new_captured to_str (xd_mode d) (rs_headers resp), xd_upgraded := upgraded\<rparr>) st)"
    by (rule quiet_log [OF assms(1) rec_change_quiet [OF assms(1)]]) simp_all
qed (rule change_shows [OF assms(2)], simp add: shown_def)

lemma fail_shows:
  "newest_shows (fst st) i (m, src, None, None) \<Longrightarrow>
     newest_shows (fst (rec_fail now i err st)) i (m, src, Some 502, Some err)"
  unfolding rec_fail_def publish_shows by (rule change_shows) (auto simp: shown_def)

lemma store_log_on_log: "store_log key (on_log key f ts) = fst (f (store_log key ts, ts_shared ts))"
  by (simp add: store_log_def on_log_def case_prod_beta Let_def)

lemma shared_on_log: "ts_shared (on_log key f ts) = snd (f (store_log key ts, ts_shared ts))"
  by (simp add: on_log_def case_prod_beta Let_def)


section \<open>An instance\<close>

text \<open>A kept connection that has died hands the request back; a fresh one answers.\<close>

definition sample_proxy :: "unit proxy_api" where
  "sample_proxy =
     \<lparr>pa_connect = (\<lambda>_ _. ok 4), pa_ready = (\<lambda>_. State_Monad.return True),
      pa_try_send = (\<lambda>c _. State_Monad.return (if c = 3 then HandedBack ''closed'' else Responded \<lparr>re_status = 200, re_headers = []\<rparr>)),
      pa_send = (\<lambda>_ _. ok \<lparr>re_status = 200, re_headers = []\<rparr>)\<rparr>"

definition sample_env :: request_env where
  "sample_env = \<lparr>en_to_str = from_utf8, en_header_name = (\<lambda>s. Some (to_lowercase s)), en_from_str = (\<lambda>s. Some (string_bytes s)),
     en_now_ms = 0, en_now = 0\<rparr>"

definition sample_backend :: backend where
  "sample_backend = \<lparr>bk_host = ''127.0.0.1'', bk_port = 8080, bk_traffic = Some sample_key\<rparr>"

definition sample_post :: request_parts where
  "sample_post = \<lparr>rp_method = ''POST'', rp_path_and_query = None, rp_uri_host = None, rp_headers = [], rp_no_body = False\<rparr>"

definition sample_client :: client_addr where
  "sample_client = \<lparr>ca_text = ''127.0.0.1'', ca_loopback = True\<rparr>"

definition sample_conn :: "unit proxy_conn" where
  "sample_conn =
     \<lparr>pc_world = (), pc_upstream = Some \<lparr>up_host = ''127.0.0.1'', up_port = 8080, up_sender = 3\<rparr>,
      pc_traffic = recording_store, pc_sent = []\<rparr>"

definition sample_sent :: request_parts where
  "sample_sent = prepared sample_env sample_client ''https'' sample_post"

lemma sample_strip: "strip_hop_by_hop to_str header_name False [] = []"
  by (simp add: strip_hop_by_hop_def strip_named_def connection_names_def all_values_def remove_header_def filter_map_def Let_def)

lemma sample_send:
  "run_state (send_request sample_proxy sample_backend sample_sent) (sample_conn\<lparr>pc_traffic := ts\<rparr>) =
     (Inr (4, \<lparr>re_status = 200, re_headers = []\<rparr>),
      \<lparr>pc_world = (), pc_upstream = None, pc_traffic = ts, pc_sent = [(3, sample_sent), (4, sample_sent)]\<rparr>)"
  by (simp add: send_request_def send_over_def send_again_def reusable_sender_def take_upstream_def connect_backend_def
      note_sent_def on_world_def run_and_then run_with_context context_of_def sample_proxy_def sample_conn_def
      sample_backend_def Let_def)

lemma sample_run:
  "\<exists>s'. run_state (serve_request sample_proxy sample_env (\<lambda>_. Some sample_backend) sample_client ''https'' sample_post) sample_conn =
      (\<lparr>re_status = 200, re_headers = []\<rparr>, s') \<and> pc_sent s' = [(3, sample_sent), (4, sample_sent)]"
proof -
  obtain rec s1 where first: "run_state (start_recording sample_env sample_post sample_backend sample_client ''https'') sample_conn = (rec, s1)"
    by (rule prod.exhaust)
  then have s1: "s1 = sample_conn\<lparr>pc_traffic := pc_traffic s1\<rparr>"
    by (auto simp: start_recording_def Let_def split: option.splits)
  have send: "run_state (send_request sample_proxy sample_backend (prepared sample_env sample_client ''https'' sample_post)) s1 =
     (Inr (4, \<lparr>re_status = 200, re_headers = []\<rparr>),
      \<lparr>pc_world = (), pc_upstream = None, pc_traffic = pc_traffic s1, pc_sent = [(3, sample_sent), (4, sample_sent)]\<rparr>)"
    unfolding sample_sent_def [symmetric] by (subst s1, rule sample_send)
  show ?thesis
    by (simp add: serve_request_def first forward_def run_and_then send sample_strip on_recording_run Let_def split: option.splits)
qed

lemma requests_sent_safely_witness:
  "sends_ok sample_proxy sample_backend sample_sent (pc_upstream sample_conn) [(3, sample_sent), (4, sample_sent)]"
proof -
  obtain s' where run: "run_state (serve_request sample_proxy sample_env (\<lambda>_. Some sample_backend) sample_client ''https'' sample_post) sample_conn =
      (\<lparr>re_status = 200, re_headers = []\<rparr>, s')" "pc_sent s' = [(3, sample_sent), (4, sample_sent)]" using sample_run by blast
  from requests_sent_safely [OF run(1)] run(2) show ?thesis
    by (auto simp: sample_sent_def sample_conn_def)
qed


end
