(* ===== verification/Sharing.thy ===== *)
theory Sharing
  imports Universe
begin

text \<open>
  One resolve at a time, shared (\<open>resolve_universe_async\<close> of \<open>src/resolver/universe.rs\<close>). A ticket orders asking
  against beginning; a caller that gets its turn takes the last result when that resolve began after it
  asked, and resolves itself otherwise. Each step is what happens between two awaits. The files have a
  version that edits raise; a result carries the version of the files it was read from, which nothing
  in the code looks at.
\<close>

section \<open>The steps\<close>

datatype 'g caller =
    Asking (cl_asked: nat) (cl_seen: nat)
  | Resolving (cl_asked: nat) (cl_seen: nat) (cl_began: nat) (cl_base: nat)
  | Answered (cl_seen: nat) (cl_version: nat) 'g

record 'g sharing =
  sh_tickets :: nat
  sh_running :: "nat option"
  sh_last :: "(nat \<times> nat \<times> 'g) option"
  sh_callers :: "nat \<Rightarrow> 'g caller option"
  sh_version :: nat

text \<open>A caller asks: it takes a ticket and waits for its turn.\<close>

definition ask_resolve :: "nat \<Rightarrow> 'g sharing \<Rightarrow> 'g sharing" where
  "ask_resolve c s =
     s\<lparr>sh_tickets := sh_tickets s + 1,
       sh_callers := (sh_callers s)(c \<mapsto> Asking (sh_tickets s) (sh_version s))\<rparr>"

text \<open>It has its turn: nobody else is running.\<close>

definition take_turn :: "nat \<Rightarrow> 'g sharing \<Rightarrow> 'g sharing option" where
  "take_turn c s =
     (case (sh_running s, sh_callers s c) of
        (None, Some (Asking asked seen)) \<Rightarrow>
          (case sh_last s of
             Some (began, version, result) \<Rightarrow>
               if asked < began then Some (s\<lparr>sh_callers := (sh_callers s)(c \<mapsto> Answered seen version result)\<rparr>)
               else Some (s\<lparr>sh_tickets := sh_tickets s + 1, sh_running := Some c,
                     sh_callers := (sh_callers s)(c \<mapsto> Resolving asked seen (sh_tickets s) (sh_version s))\<rparr>)
           | None \<Rightarrow> Some (s\<lparr>sh_tickets := sh_tickets s + 1, sh_running := Some c,
                     sh_callers := (sh_callers s)(c \<mapsto> Resolving asked seen (sh_tickets s) (sh_version s))\<rparr>))
      | _ \<Rightarrow> None)"

text \<open>Its resolve, of files as they were at some time since it began, is done: kept for the others, and the turn is over.\<close>

definition finish_resolve :: "nat \<Rightarrow> nat \<Rightarrow> 'g \<Rightarrow> 'g sharing \<Rightarrow> 'g sharing option" where
  "finish_resolve c version result s =
     (case sh_callers s c of
        Some (Resolving asked seen began base) \<Rightarrow>
          Some (s\<lparr>sh_last := Some (began, version, result), sh_running := None,
                  sh_callers := (sh_callers s)(c \<mapsto> Answered seen version result)\<rparr>)
      | _ \<Rightarrow> None)"

text \<open>A caller that is dropped gives up its turn when it had it.\<close>

definition drop_caller :: "nat \<Rightarrow> 'g sharing \<Rightarrow> 'g sharing" where
  "drop_caller c s =
     s\<lparr>sh_callers := (sh_callers s)(c := None),
       sh_running := (if sh_running s = Some c then None else sh_running s)\<rparr>"

definition nobody_asked :: "'g sharing" where
  "nobody_asked = \<lparr>sh_tickets = 0, sh_running = None, sh_last = None, sh_callers = (\<lambda>_. None), sh_version = 0\<rparr>"

text \<open>Other workspaces take tickets too; edits change the files.\<close>

inductive sharing_reach :: "'g sharing \<Rightarrow> bool" where
  sr_start: "sharing_reach nobody_asked"
| sr_ask: "sharing_reach s \<Longrightarrow> sh_callers s c = None \<Longrightarrow> sharing_reach (ask_resolve c s)"
| sr_turn: "sharing_reach s \<Longrightarrow> take_turn c s = Some s' \<Longrightarrow> sharing_reach s'"
| sr_finish: "sharing_reach s \<Longrightarrow> sh_callers s c = Some (Resolving asked seen began base) \<Longrightarrow>
    base \<le> version \<Longrightarrow> version \<le> sh_version s \<Longrightarrow> finish_resolve c version result s = Some s' \<Longrightarrow> sharing_reach s'"
| sr_drop: "sharing_reach s \<Longrightarrow> sharing_reach (drop_caller c s)"
| sr_other: "sharing_reach s \<Longrightarrow> sharing_reach (s\<lparr>sh_tickets := sh_tickets s + 1\<rparr>)"
| sr_edit: "sharing_reach s \<Longrightarrow> sharing_reach (s\<lparr>sh_version := sh_version s + 1\<rparr>)"

section \<open>No caller is given what is older than its question\<close>

definition sharing_ok :: "'g sharing \<Rightarrow> bool" where
  "sharing_ok s =
     ((\<forall>c x. sh_callers s c = Some x \<longrightarrow>
         (case x of
            Asking asked seen \<Rightarrow> asked < sh_tickets s \<and> seen \<le> sh_version s
          | Resolving asked seen began base \<Rightarrow>
              sh_running s = Some c \<and> began < sh_tickets s \<and> seen \<le> base \<and> base \<le> sh_version s \<and>
              (\<forall>c' asked' seen'. sh_callers s c' = Some (Asking asked' seen') \<and> asked' < began \<longrightarrow> seen' \<le> base)
          | Answered seen version result \<Rightarrow> seen \<le> version)) \<and>
      (\<forall>began version result. sh_last s = Some (began, version, result) \<longrightarrow>
         began < sh_tickets s \<and>
         (\<forall>c asked seen. sh_callers s c = Some (Asking asked seen) \<and> asked < began \<longrightarrow> seen \<le> version)))"

lemma sharing_ok_callers:
  "sharing_ok s \<Longrightarrow> sh_callers s c = Some (Asking asked seen) \<Longrightarrow> asked < sh_tickets s \<and> seen \<le> sh_version s"
  "sharing_ok s \<Longrightarrow> sh_callers s c = Some (Resolving asked seen began base) \<Longrightarrow>
     sh_running s = Some c \<and> began < sh_tickets s \<and> seen \<le> base \<and> base \<le> sh_version s \<and>
     (\<forall>c' asked' seen'. sh_callers s c' = Some (Asking asked' seen') \<and> asked' < began \<longrightarrow> seen' \<le> base)"
  "sharing_ok s \<Longrightarrow> sh_callers s c = Some (Answered seen version result) \<Longrightarrow> seen \<le> version"
  "sharing_ok s \<Longrightarrow> sh_last s = Some (began, version, result) \<Longrightarrow> began < sh_tickets s \<and>
     (\<forall>c asked seen. sh_callers s c = Some (Asking asked seen) \<and> asked < began \<longrightarrow> seen \<le> version)"
  unfolding sharing_ok_def by (force split: caller.splits)+

lemma asked_ok: "sharing_ok s \<Longrightarrow> sh_callers s c = None \<Longrightarrow> sharing_ok (ask_resolve c s)"
  unfolding sharing_ok_def ask_resolve_def
  by (auto split: caller.splits if_splits dest: less_SucI) (metis less_SucI less_imp_not_less | fastforce)+

lemma turn_ok:
  assumes ok: "sharing_ok s" and turn: "take_turn c s = Some s'"
  shows "sharing_ok s'"
proof -
  from turn obtain asked seen where free: "sh_running s = None" and c: "sh_callers s c = Some (Asking asked seen)"
    by (auto simp: take_turn_def split: option.splits caller.splits)
  let ?resolving = "s\<lparr>sh_tickets := sh_tickets s + 1, sh_running := Some c,
       sh_callers := (sh_callers s)(c \<mapsto> Resolving asked seen (sh_tickets s) (sh_version s))\<rparr>"
  have none: "sh_callers s d \<noteq> Some (Resolving a b e f)" for d a b e f
    using sharing_ok_callers(2) [OF ok] free by fastforce
  have begins: "sharing_ok ?resolving"
    unfolding sharing_ok_def
    using sharing_ok_callers(1) [OF ok] sharing_ok_callers(3) [OF ok] sharing_ok_callers(4) [OF ok] none c
    by (auto split: caller.splits if_splits intro: less_SucI)
  show ?thesis
  proof (cases "s' = ?resolving")
    case True
    with begins show ?thesis by simp
  next
    case False
    with turn free c obtain began version result where last: "sh_last s = Some (began, version, result)" "asked < began"
      and s': "s' = s\<lparr>sh_callers := (sh_callers s)(c \<mapsto> Answered seen version result)\<rparr>"
      by (auto simp: take_turn_def split: option.splits if_splits)
    have "seen \<le> version" using sharing_ok_callers(4) [OF ok last(1)] c last(2) by blast
    then show ?thesis
      unfolding sharing_ok_def s'
      using sharing_ok_callers(1) [OF ok] sharing_ok_callers(3) [OF ok] sharing_ok_callers(4) [OF ok] none
      by (auto split: caller.splits if_splits)
  qed
qed

lemma finish_ok:
  assumes ok: "sharing_ok s" and c: "sh_callers s c = Some (Resolving asked seen began base)"
    and version: "base \<le> version" and finish: "finish_resolve c version result s = Some s'"
  shows "sharing_ok s'"
proof -
  have s': "s' = s\<lparr>sh_last := Some (began, version, result), sh_running := None,
                  sh_callers := (sh_callers s)(c \<mapsto> Answered seen version result)\<rparr>"
    using finish c by (simp add: finish_resolve_def)
  note mine = sharing_ok_callers(2) [OF ok c]
  have "d = c" if "sh_callers s d = Some (Resolving a b e f)" for d a b e f
    using sharing_ok_callers(2) [OF ok that] mine by simp
  moreover have "seen' \<le> version" if "sh_callers s c' = Some (Asking asked' seen')" "asked' < began" for c' asked' seen'
    using mine that version by (meson le_trans)
  moreover have "seen \<le> version" using mine version by simp
  ultimately show ?thesis
    unfolding sharing_ok_def s'
    using sharing_ok_callers(1) [OF ok] sharing_ok_callers(3) [OF ok] mine
    by (auto split: caller.splits if_splits)
qed

lemma dropped_caller_ok:
  assumes ok: "sharing_ok s"
  shows "sharing_ok (drop_caller c s)"
  unfolding sharing_ok_def drop_caller_def
  using sharing_ok_callers(1) [OF ok] sharing_ok_callers(2) [OF ok] sharing_ok_callers(3) [OF ok] sharing_ok_callers(4) [OF ok]
  by (auto split: caller.splits if_splits)

lemma later_ok:
  assumes ok: "sharing_ok s" and "sh_tickets s \<le> tickets" "sh_version s \<le> version"
  shows "sharing_ok (s\<lparr>sh_tickets := tickets, sh_version := version\<rparr>)"
  unfolding sharing_ok_def
  using sharing_ok_callers(1) [OF ok] sharing_ok_callers(2) [OF ok] sharing_ok_callers(3) [OF ok] sharing_ok_callers(4) [OF ok] assms(2,3)
  by (auto split: caller.splits) (meson less_le_trans le_trans)+

lemma sharing_reach_ok: "sharing_reach s \<Longrightarrow> sharing_ok s"
proof (induction rule: sharing_reach.induct)
  case sr_start
  then show ?case by (simp add: sharing_ok_def nobody_asked_def)
next
  case (sr_ask s c)
  then show ?case by (blast intro: asked_ok)
next
  case (sr_turn s c s')
  then show ?case by (blast intro: turn_ok)
next
  case (sr_finish s c asked seen began base version result s')
  then show ?case by (blast intro: finish_ok)
next
  case (sr_drop s c)
  then show ?case by (blast intro: dropped_caller_ok)
next
  case (sr_other s)
  then show ?case using later_ok [of s "sh_tickets s + 1" "sh_version s"] by simp
next
  case (sr_edit s)
  then show ?case using later_ok [of s "sh_tickets s" "sh_version s + 1"] by simp
qed

section \<open>The property\<close>


text \<open>Two callers: the second asks while the first resolves, after an edit, so it resolves again; a third takes what the second read.\<close>

definition two_asked :: "string sharing" where
  "two_asked = (let s1 = ask_resolve 1 nobody_asked;
       s2 = (case take_turn 1 s1 of Some s \<Rightarrow> s | None \<Rightarrow> s1);
       s3 = ask_resolve 2 (s2\<lparr>sh_version := sh_version s2 + 1\<rparr>);
       s4 = (case finish_resolve 1 0 ''old'' s3 of Some s \<Rightarrow> s | None \<Rightarrow> s3);
       s5 = ask_resolve 3 s4;
       s6 = (case take_turn 2 s5 of Some s \<Rightarrow> s | None \<Rightarrow> s5);
       s7 = (case finish_resolve 2 1 ''new'' s6 of Some s \<Rightarrow> s | None \<Rightarrow> s6)
     in case take_turn 3 s7 of Some s \<Rightarrow> s | None \<Rightarrow> s7)"

lemma sr_turned: "sharing_reach s \<Longrightarrow> sharing_reach (case take_turn c s of Some s' \<Rightarrow> s' | None \<Rightarrow> s)"
  by (auto split: option.split intro: sr_turn)

lemma sr_finished:
  "sharing_reach s \<Longrightarrow> sh_callers s c = Some (Resolving asked seen began base) \<Longrightarrow> base \<le> version \<Longrightarrow> version \<le> sh_version s \<Longrightarrow>
     sharing_reach (case finish_resolve c version result s of Some s' \<Rightarrow> s' | None \<Rightarrow> s)"
  by (auto split: option.split intro: sr_finish)

lemma two_asked_reached: "sharing_reach two_asked" "sh_callers two_asked 3 = Some (Answered 1 1 ''new'')"
proof -
  show "sh_callers two_asked 3 = Some (Answered 1 1 ''new'')" by code_simp
  let ?s1 = "ask_resolve 1 nobody_asked :: string sharing"
  let ?s2 = "case take_turn 1 ?s1 of Some s \<Rightarrow> s | None \<Rightarrow> ?s1"
  let ?s3 = "ask_resolve 2 (?s2\<lparr>sh_version := sh_version ?s2 + 1\<rparr>)"
  let ?s4 = "case finish_resolve 1 0 ''old'' ?s3 of Some s \<Rightarrow> s | None \<Rightarrow> ?s3"
  let ?s5 = "ask_resolve 3 ?s4"
  let ?s6 = "case take_turn 2 ?s5 of Some s \<Rightarrow> s | None \<Rightarrow> ?s5"
  let ?s7 = "case finish_resolve 2 1 ''new'' ?s6 of Some s \<Rightarrow> s | None \<Rightarrow> ?s6"
  have "sharing_reach ?s3"
    by (rule sr_ask, rule sr_edit, rule sr_turned, rule sr_ask, rule sr_start) (code_simp+)
  then have "sharing_reach ?s4"
    by (rule sr_finished [where c = 1 and asked = 0 and seen = 0 and began = 1 and base = 0 and version = 0]) code_simp+
  then have "sharing_reach ?s6"
    by (rule sr_turned [OF sr_ask]) code_simp
  then have "sharing_reach ?s7"
    by (rule sr_finished [where c = 2 and asked = 2 and seen = 1 and began = 4 and base = 1 and version = 1]) code_simp+
  from sr_turned [OF this, of 3] show "sharing_reach two_asked" unfolding two_asked_def Let_def .
qed


end
